(* ===== verification/Prelude.thy ===== *)
theory Prelude
  imports Main "HOL-Library.Word"
begin

text \<open>
  Shared vocabulary of the development: bytes, big-endian integers, JavaScript's unsigned shift,
  results with an error value, and the list lemmas that several components need.
  \<^item> \<open>be_bytes\<close>/\<open>be_val\<close> are the big-endian layout that the frame header
    (\<^verbatim>\<open>packages/protocol/src/framing.ts\<close>), the CBOR arguments and the 64-bit floats
    (\<^verbatim>\<open>packages/protocol/src/cbor\<close>) all use; the code writes the bytes out one by one, the
    component theories show that what it writes is this layout.
  \<^item> Errors are values: a \<open>throw\<close> is \<open>Inl\<close>, a normal return is \<open>Inr\<close>.
\<close>

named_theorems be_simps \<open>facts on the big-endian layout of integers\<close>
named_theorems result_splits \<open>case splits on results\<close>

type_synonym byte = "8 word"

abbreviation u8 :: "nat \<Rightarrow> byte" where
  "u8 n \<equiv> word_of_nat n"

text \<open>\<open>n >>> k\<close> on a JavaScript number: the operand is first taken modulo \<open>2 ^ 32\<close>.\<close>

definition ushr :: "nat \<Rightarrow> nat \<Rightarrow> nat" where
  "ushr n k = n mod 2 ^ 32 div 2 ^ k"

subsection \<open>Big-endian integers\<close>

fun be_bytes :: "nat \<Rightarrow> nat \<Rightarrow> byte list" where
  "be_bytes 0 n = []"
| "be_bytes (Suc k) n = be_bytes k (n div 256) @ [u8 n]"

definition be_val :: "byte list \<Rightarrow> nat" where
  "be_val bs = foldl (\<lambda>a b. a * 256 + unat b) 0 bs"

lemma unat_u8 [simp]: "unat (u8 n) = n mod 256"
  by (simp add: unat_of_nat)

lemma u8_unat [simp]: "u8 (unat b) = b"
  by simp

lemma unat_byte_less [simp]: "unat (b :: byte) < 256"
  using unsigned_less [of b] by simp

lemma be_val_Nil [simp]: "be_val [] = 0"
  by (simp add: be_val_def)

lemma be_val_snoc [simp]: "be_val (bs @ [b]) = be_val bs * 256 + unat b"
  by (simp add: be_val_def)

lemma length_be_bytes [simp]: "length (be_bytes k n) = k"
  by (induction k arbitrary: n) auto

lemma be_bytes_eq_Nil [simp]: "be_bytes k n = [] \<longleftrightarrow> k = 0"
  by (cases k) auto

lemma be_val_be_bytes [be_simps]: "be_val (be_bytes k n) = n mod 256 ^ k"
proof (induction k arbitrary: n)
  case (Suc k)
  have "n div 256 mod 256 ^ k * 256 + n mod 256 = n mod (256 * 256 ^ k)"
    by (simp add: mod_mult2_eq mult.commute)
  with Suc show ?case by simp
qed simp

lemma be_val_less: "be_val bs < 256 ^ length bs"
proof (induction bs rule: rev_induct)
  case (snoc b bs)
  have "be_val bs * 256 + unat b < (be_val bs + 1) * 256"
    using unat_byte_less [of b] by simp
  also have "\<dots> \<le> 256 ^ length bs * 256"
    using snoc by (intro mult_right_mono) auto
  finally show ?case by simp
qed simp

lemma be_bytes_be_val [be_simps]: "length bs = k \<Longrightarrow> be_bytes k (be_val bs) = bs"
proof (induction bs arbitrary: k rule: rev_induct)
  case (snoc b bs)
  have "u8 (be_val bs * 256 + unat b) = b"
    by (metis mod_mult_self3 u8_unat unat_u8)
  with snoc show ?case by auto
qed simp

lemma four: "(4 :: nat) = Suc (Suc (Suc (Suc 0)))"
  by simp

lemma be_bytes_4:
  "be_bytes 4 n = [u8 (n div 0x1000000), u8 (n div 0x10000), u8 (n div 0x100), u8 n]"
  unfolding four by (simp add: div_mult2_eq [symmetric])

lemma be_val_4:
  assumes "length b = 4"
  shows "be_val b =
    unat (b ! 0) * 0x1000000 + unat (b ! 1) * 0x10000 + unat (b ! 2) * 0x100 + unat (b ! 3)"
proof -
  obtain w x y z where "b = [w, x, y, z]"
    using assms unfolding four length_Suc_conv by auto
  then show ?thesis by (simp add: be_val_def)
qed

lemma be_bytes_2: "be_bytes 2 n = [u8 (n div 0x100), u8 n]"
  by (simp add: numeral_2_eq_2)

lemma be_bytes_add: "be_bytes (j + k) n = be_bytes j (n div 256 ^ k) @ be_bytes k n"
  by (induction k arbitrary: n) (auto simp: div_mult2_eq)

lemma be_bytes_8: "be_bytes 8 n = be_bytes 4 (n div 0x100000000) @ be_bytes 4 n"
  using be_bytes_add [of 4 4 n] by simp

lemma be_bytes_cong: "n mod 256 ^ k = m mod 256 ^ k \<Longrightarrow> be_bytes k n = be_bytes k m"
  by (metis be_bytes_be_val be_val_be_bytes length_be_bytes)

lemma ushr_small: "n < 2 ^ 32 \<Longrightarrow> ushr n k = n div 2 ^ k"
  by (simp add: ushr_def)

subsection \<open>Typed arrays\<close>

text \<open>\<open>array.set(source, offset)\<close> on a \<open>Uint8Array\<close> within its bounds.\<close>

definition set_at :: "'a list \<Rightarrow> 'a list \<Rightarrow> nat \<Rightarrow> 'a list" where
  "set_at arr src off = take off arr @ src @ drop (off + length src) arr"

lemma length_set_at [simp]:
  "off + length src \<le> length arr \<Longrightarrow> length (set_at arr src off) = length arr"
  by (simp add: set_at_def)

lemma take_set_at [simp]:
  "off + length src \<le> length arr \<Longrightarrow> take (off + length src) (set_at arr src off) = take off arr @ src"
  by (simp add: set_at_def)

lemma update_as_set_at: "i < length xs \<Longrightarrow> xs[i := x] = set_at xs [x] i"
  by (simp add: set_at_def upd_conv_take_nth_drop)

lemma set_at_set_at:
  assumes "off + length a + length b \<le> length xs"
  shows "set_at (set_at xs a off) b (off + length a) = set_at xs (a @ b) off"
proof -
  have "take (off + length a) (set_at xs a off) = take off xs @ a"
    using assms by (intro take_set_at) simp
  moreover have "drop (off + length a + length b) (set_at xs a off) = drop (off + (length a + length b)) xs"
    using assms by (simp add: set_at_def min_absorb2 add.commute add.left_commute)
  ultimately show ?thesis
    by (simp add: set_at_def [of "set_at xs a off"] set_at_def [of xs "a @ b"])
qed

subsection \<open>Results\<close>

text \<open>Sequencing of computations that may throw, and a loop whose body may throw.\<close>

definition and_then :: "'e + 'a \<Rightarrow> ('a \<Rightarrow> 'e + 'b) \<Rightarrow> 'e + 'b" where
  "and_then r f = (case r of Inl e \<Rightarrow> Inl e | Inr a \<Rightarrow> f a)"

fun for_each :: "('a \<Rightarrow> 's \<Rightarrow> 'e + 's) \<Rightarrow> 'a list \<Rightarrow> 's \<Rightarrow> 'e + 's" where
  "for_each f [] s = Inr s"
| "for_each f (x # xs) s = and_then (f x s) (for_each f xs)"

lemma and_then_Inl [simp]: "and_then (Inl e) f = Inl e"
  and and_then_Inr [simp]: "and_then (Inr a) f = f a"
  by (simp_all add: and_then_def)

lemma and_then_eq_Inr: "and_then r f = Inr b \<longleftrightarrow> (\<exists>a. r = Inr a \<and> f a = Inr b)"
  by (cases r) auto

lemma and_then_cong [fundef_cong]:
  "r = r' \<Longrightarrow> (\<And>a. r' = Inr a \<Longrightarrow> f a = g a) \<Longrightarrow> and_then r f = and_then r' g"
  by (cases r') auto

lemma for_each_cong [fundef_cong]:
  assumes "xs = ys" "s = t" "\<And>x u. x \<in> set ys \<Longrightarrow> f x u = g x u"
  shows "for_each f xs s = for_each g ys t"
proof -
  have "for_each f ys u = for_each g ys u" for u
    using assms(3) by (induction ys arbitrary: u) (auto intro!: and_then_cong)
  then show ?thesis using assms(1,2) by simp
qed

lemma map_sum_Inr: "map_sum f g x = Inr c \<longleftrightarrow> (\<exists>y. x = Inr y \<and> c = g y)"
  by (cases x) auto

lemma find_SomeD: "List.find P xs = Some x \<Longrightarrow> x \<in> set xs \<and> P x"
  by (auto simp: find_Some_iff)

lemma map_filter_append: "List.map_filter f (xs @ ys) = List.map_filter f xs @ List.map_filter f ys"
  by (simp add: List.map_filter_def)

end
