(* ===== verification/JsNumber.thy ===== *)
theory JsNumber
  imports Prelude "HOL-Library.Log_Nat"
begin

text \<open>
  JavaScript numbers as the language defines them: IEEE-754 binary64 bit patterns, a
  \<^typ>\<open>64 word\<close>. The predicates are the standard library's \<open>Number.isFinite\<close>,
  \<open>Number.isInteger\<close> and \<open>Number.isSafeInteger\<close>; \<open>setFloat64\<close>/\<open>getFloat64\<close> are the big-endian
  accesses of \<open>DataView\<close>. The codec only ever converts safe integers, so
  \<open>number_of_int\<close> is exact on them and the conversion is shown to be a bijection between the
  safe integers and the doubles that denote them, minus zero apart.
\<close>

type_synonym js_number = "64 word"

definition num_neg :: "js_number \<Rightarrow> bool" where
  "num_neg w \<longleftrightarrow> 2 ^ 63 \<le> unat w"

definition num_expo :: "js_number \<Rightarrow> nat" where
  "num_expo w = unat w div 2 ^ 52 mod 2 ^ 11"

definition num_mant :: "js_number \<Rightarrow> nat" where
  "num_mant w = unat w mod 2 ^ 52"

definition num_sig :: "js_number \<Rightarrow> nat" where
  "num_sig w = (if num_expo w = 0 then num_mant w else 2 ^ 52 + num_mant w)"

definition isFinite :: "js_number \<Rightarrow> bool" where
  "isFinite w \<longleftrightarrow> num_expo w \<noteq> 2047"

definition isInteger :: "js_number \<Rightarrow> bool" where
  "isInteger w \<longleftrightarrow> isFinite w \<and>
     (if num_expo w = 0 then num_mant w = 0
      else 1075 \<le> num_expo w \<or> num_sig w mod 2 ^ (1075 - num_expo w) = 0)"

definition absValue :: "js_number \<Rightarrow> nat" where
  "absValue w =
     (if num_expo w = 0 then 0
      else if 1075 \<le> num_expo w then num_sig w * 2 ^ (num_expo w - 1075)
      else num_sig w div 2 ^ (1075 - num_expo w))"

definition intValue :: "js_number \<Rightarrow> int" where
  "intValue w = (if num_neg w then - int (absValue w) else int (absValue w))"

definition isSafeInteger :: "js_number \<Rightarrow> bool" where
  "isSafeInteger w \<longleftrightarrow> isInteger w \<and> \<bar>intValue w\<bar> < 2 ^ 53"

definition is_neg_zero :: "js_number \<Rightarrow> bool" where
  "is_neg_zero w \<longleftrightarrow> unat w = 2 ^ 63"

definition nat_bits :: "nat \<Rightarrow> nat" where
  "nat_bits n =
     (if n = 0 then 0
      else let k = floorlog 2 n - 1 in (k + 1023) * 2 ^ 52 + (n - 2 ^ k) * 2 ^ (52 - k))"

definition number_of_int :: "int \<Rightarrow> js_number" where
  "number_of_int n =
     word_of_nat ((if n < 0 then 2 ^ 63 else 0) + nat_bits (nat \<bar>n\<bar>))"

definition setFloat64 :: "js_number \<Rightarrow> byte list" where
  "setFloat64 w = be_bytes 8 (unat w)"

definition getFloat64 :: "byte list \<Rightarrow> js_number" where
  "getFloat64 bs = word_of_nat (be_val bs)"

subsection \<open>The fields of a double\<close>

lemma unat_num_less: "unat (w :: js_number) < 2 ^ 64"
  using unsigned_less [of w] by simp

lemma num_expo_less [simp]: "num_expo w < 2048"
  by (simp add: num_expo_def)

lemma num_mant_less [simp]: "num_mant w < 2 ^ 52"
  by (simp add: num_mant_def)

lemma len64: "LENGTH(64) = 64"
  by simp

lemma split_fields: "x = x div (a * b) * (a * b) + x div a mod b * a + x mod (a :: nat)"
proof -
  have "x div a * a = (x div a div b * b + x div a mod b) * a"
    by simp
  then show ?thesis
    by (metis add_mult_distrib div_mult2_eq div_mult_mod_eq mult.assoc mult.commute)
qed

lemma join_fields:
  assumes "m < a" "e < b"
  shows "(q * (a * b) + (e * a + m)) mod a = (m :: nat)"
    and "(q * (a * b) + (e * a + m)) div a mod b = e"
    and "(q * (a * b) + (e * a + m)) div (a * b) = q"
proof -
  have eq: "q * (a * b) + (e * a + m) = (q * b + e) * a + m"
    by (simp add: algebra_simps)
  have d: "((q * b + e) * a + m) div a = q * b + e"
    using assms(1) by simp
  show "(q * (a * b) + (e * a + m)) mod a = m"
    using assms(1) by (simp add: eq)
  show "(q * (a * b) + (e * a + m)) div a mod b = e"
    using assms(2) by (simp only: eq d) simp
  show "(q * (a * b) + (e * a + m)) div (a * b) = q"
    using assms(2) by (simp only: eq div_mult2_eq d) simp
qed

lemma num_neg_div: "num_neg w \<longleftrightarrow> unat w div 2 ^ 63 = 1"
  and num_neg_div0: "\<not> num_neg w \<longleftrightarrow> unat w div 2 ^ 63 = 0"
proof -
  have "unat w div 2 ^ 63 < 2"
    using unat_num_less [of w] by (simp add: less_mult_imp_div_less)
  moreover have "(unat w div 2 ^ 63 = 0) = (unat w < 2 ^ 63)"
    by (simp add: div_eq_0_iff)
  ultimately show "num_neg w \<longleftrightarrow> unat w div 2 ^ 63 = 1"
    and "\<not> num_neg w \<longleftrightarrow> unat w div 2 ^ 63 = 0"
    unfolding num_neg_def by linarith+
qed

lemma unat_num_fields:
  "unat w = (if num_neg w then 2 ^ 63 else 0) + (num_expo w * 2 ^ 52 + num_mant w)"
proof -
  have "unat w = unat w div 2 ^ 63 * 2 ^ 63 + (num_expo w * 2 ^ 52 + num_mant w)"
    using split_fields [of "unat w" "2 ^ 52" "2 ^ 11"]
    unfolding num_expo_def num_mant_def by (simp flip: power_add)
  then show ?thesis
    using num_neg_div [of w] num_neg_div0 [of w] by (cases "num_neg w") simp_all
qed

lemma fields_of_bits:
  assumes "e < 2048" "m < 2 ^ 52" "w = word_of_nat ((if s then 2 ^ 63 else 0) + (e * 2 ^ 52 + m))"
  shows "num_neg w = s" "num_expo w = e" "num_mant w = m"
proof -
  define q :: nat where "q = (if s then 1 else 0)"
  have eq: "(if s then 2 ^ 63 else 0) + (e * 2 ^ 52 + m) = q * (2 ^ 52 * 2 ^ 11) + (e * 2 ^ 52 + m)"
    by (simp add: q_def)
  have "q * (2 ^ 52 * 2 ^ 11) + (e * 2 ^ 52 + m) < 2 ^ 64"
    using assms(1,2) by (simp add: q_def)
  then have u: "unat w = q * (2 ^ 52 * 2 ^ 11) + (e * 2 ^ 52 + m)"
    unfolding assms(3) eq by (subst unat_of_nat) (simp only: len64 mod_less)
  note j = join_fields [of m "2 ^ 52" e "2 ^ 11" q, folded u]
  show "num_expo w = e" "num_mant w = m"
    unfolding num_expo_def num_mant_def using j assms(1,2) by simp_all
  show "num_neg w = s"
    unfolding num_neg_div using j(3) assms(1,2) by (simp add: q_def)
qed

lemma getFloat64_setFloat64 [simp]: "getFloat64 (setFloat64 w) = w"
  using unat_num_less [of w] by (simp add: getFloat64_def setFloat64_def be_simps)

lemma length_setFloat64 [simp]: "length (setFloat64 w) = 8"
  by (simp add: setFloat64_def)

subsection \<open>Safe integers\<close>

lemma floorlog2_unique:
  assumes "2 ^ k \<le> n" "n < 2 ^ Suc k"
  shows "floorlog 2 n = Suc k"
proof (rule antisym)
  show "floorlog 2 n \<le> Suc k" using assms(2) by (intro floorlog_leI) auto
  show "Suc k \<le> floorlog 2 n" using assms(1) by (intro floorlog_geI) auto
qed

lemma nat_bits_eq:
  assumes "2 ^ k \<le> n" "n < 2 ^ Suc k"
  shows "nat_bits n = (k + 1023) * 2 ^ 52 + (n - 2 ^ k) * 2 ^ (52 - k)"
proof -
  have "n \<noteq> 0" using assms(1) by (metis le_zero_eq power_not_zero zero_neq_numeral)
  then show ?thesis
    by (simp add: nat_bits_def Let_def floorlog2_unique [OF assms])
qed

lemma obtain_log:
  assumes "0 < (n :: nat)" "n < 2 ^ 53"
  obtains k where "2 ^ k \<le> n" "n < 2 ^ Suc k" "k \<le> 52"
proof -
  let ?f = "floorlog 2 n"
  have b: "2 ^ (?f - 1) \<le> n" "n < 2 ^ ?f"
    using floorlog_bounds [of n 2] assms(1) by auto
  moreover have "?f \<noteq> 0" using b assms(1) by (cases ?f) auto
  moreover have "?f \<le> 53" using assms(2) by (intro floorlog_leI) auto
  ultimately show ?thesis by (intro that [of "?f - 1"]) auto
qed

lemma scaled_mant:
  assumes "2 ^ k \<le> n" "n < 2 ^ Suc k" "k \<le> 52"
  shows "(n - 2 ^ k) * 2 ^ (52 - k) < (2 :: nat) ^ 52"
    and "(2 :: nat) ^ 52 + (n - 2 ^ k) * 2 ^ (52 - k) = n * 2 ^ (52 - k)"
proof -
  have p: "(2 :: nat) ^ 52 = 2 ^ k * 2 ^ (52 - k)"
    using assms(3) by (simp only: flip: power_add) simp
  have "n - 2 ^ k < 2 ^ k" using assms(1,2) by simp
  then show "(n - 2 ^ k) * 2 ^ (52 - k) < (2 :: nat) ^ 52"
    unfolding p by simp
  show "(2 :: nat) ^ 52 + (n - 2 ^ k) * 2 ^ (52 - k) = n * 2 ^ (52 - k)"
    unfolding p using assms(1) by (simp add: diff_mult_distrib)
qed

lemma number_of_int_fields:
  assumes "0 < n" "n < 2 ^ 53" "w = word_of_nat ((if s then 2 ^ 63 else 0) + nat_bits n)"
  shows "num_neg w = s" "absValue w = n" "isInteger w"
proof -
  obtain k where k: "2 ^ k \<le> n" "n < 2 ^ Suc k" "k \<le> 52"
    using obtain_log [OF assms(1,2)] .
  have e: "k + 1023 < 2048" using k(3) by simp
  note m = scaled_mant [OF k]
  note f = fields_of_bits [OF e m(1) assms(3) [unfolded nat_bits_eq [OF k(1,2)]]]
  have sig: "num_sig w = n * 2 ^ (52 - k)"
    unfolding num_sig_def f(2,3) m(2) by simp
  show "num_neg w = s" by (rule f(1))
  have d: "1075 - num_expo w = 52 - k" unfolding f(2) using k(3) by simp
  show "absValue w = n"
    unfolding absValue_def d sig f(2) using k(3) by (cases "k = 52") auto
  show "isInteger w"
    unfolding isInteger_def isFinite_def d sig f(2) using k(3) by simp
qed

lemma number_of_int_zero: "number_of_int 0 = 0"
  by (simp add: number_of_int_def nat_bits_def)

lemma zero_fields: "intValue 0 = 0" "isSafeInteger 0"
  by (simp_all add: intValue_def absValue_def num_expo_def isSafeInteger_def isInteger_def
      isFinite_def num_mant_def)

lemma neg_zero_value: "is_neg_zero w \<Longrightarrow> intValue w = 0" "is_neg_zero w \<Longrightarrow> isSafeInteger w"
  by (simp_all add: is_neg_zero_def intValue_def absValue_def num_expo_def isSafeInteger_def
      isInteger_def isFinite_def num_mant_def)

lemma number_of_int_safe:
  assumes "\<bar>n\<bar> < 2 ^ 53"
  shows "intValue (number_of_int n) = n" "isSafeInteger (number_of_int n)"
proof -
  have *: "intValue (number_of_int n) = n \<and> isSafeInteger (number_of_int n)"
  proof (cases "n = 0")
    case True
    then show ?thesis by (simp add: number_of_int_zero zero_fields)
  next
    case False
    then have "0 < nat \<bar>n\<bar>" "nat \<bar>n\<bar> < 2 ^ 53" using assms by auto
    note f = number_of_int_fields [OF this number_of_int_def]
    show ?thesis
      using f assms by (auto simp: intValue_def isSafeInteger_def)
  qed
  then show "intValue (number_of_int n) = n" "isSafeInteger (number_of_int n)" by auto
qed

lemma integer_normal_form:
  assumes "isInteger w" "num_expo w \<noteq> 0" "absValue w < 2 ^ 53"
  shows "\<exists>k \<le> 52. num_expo w = k + 1023 \<and> num_sig w = absValue w * 2 ^ (52 - k)"
proof (cases "1075 \<le> num_expo w")
  case True
  have "num_expo w = 1075"
  proof (rule ccontr)
    assume "num_expo w \<noteq> 1075"
    then have "(2 :: nat) ^ 1 \<le> 2 ^ (num_expo w - 1075)" using True by (intro power_increasing) auto
    moreover have "2 ^ 52 \<le> num_sig w" using assms(2) by (simp add: num_sig_def)
    ultimately have "(2 :: nat) ^ 52 * 2 ^ 1 \<le> absValue w"
      using True assms(2) by (simp only: absValue_def if_False if_True) (rule mult_le_mono)
    with assms(3) show False by simp
  qed
  then show ?thesis by (intro exI [of _ 52]) (simp add: absValue_def)
next
  case False
  then have sig: "num_sig w = absValue w * 2 ^ (1075 - num_expo w)"
    using assms(1,2) by (auto simp: isInteger_def absValue_def elim!: dvd_mult_div_cancel)
  have lo: "2 ^ 52 \<le> num_sig w" and hi: "num_sig w < 2 ^ 53"
    using assms(2) num_mant_less [of w] by (simp_all add: num_sig_def)
  have "1023 \<le> num_expo w"
  proof (rule ccontr)
    assume "\<not> 1023 \<le> num_expo w"
    then have "(2 :: nat) ^ 53 \<le> 2 ^ (1075 - num_expo w)" by (intro power_increasing) auto
    moreover have "1 \<le> absValue w" using sig lo by (cases "absValue w") auto
    ultimately have "1 * 2 ^ 53 \<le> num_sig w" unfolding sig by (rule mult_le_mono [rotated])
    with hi show False by simp
  qed
  then show ?thesis using False sig by (intro exI [of _ "num_expo w - 1023"]) simp
qed

lemma nat_bits_absValue:
  assumes "isInteger w" "num_expo w \<noteq> 0" "absValue w < 2 ^ 53"
  shows "nat_bits (absValue w) = num_expo w * 2 ^ 52 + num_mant w"
proof -
  obtain k where k: "k \<le> 52" "num_expo w = k + 1023"
    and sig: "num_sig w = absValue w * 2 ^ (52 - k)"
    using integer_normal_form [OF assms] by blast
  have p: "(2 :: nat) ^ 52 = 2 ^ k * 2 ^ (52 - k)" "(2 :: nat) ^ 53 = 2 ^ Suc k * 2 ^ (52 - k)"
    using k(1) by (simp_all only: flip: power_add) simp_all
  have "2 ^ 52 \<le> num_sig w" "num_sig w < 2 ^ 53"
    using assms(2) num_mant_less [of w] by (simp_all add: num_sig_def)
  then have b: "2 ^ k \<le> absValue w" "absValue w < 2 ^ Suc k"
    unfolding sig p by simp_all
  have "2 ^ 52 + num_mant w = absValue w * 2 ^ (52 - k)"
    using sig assms(2) by (simp add: num_sig_def)
  then have "num_mant w = (absValue w - 2 ^ k) * 2 ^ (52 - k)"
    using scaled_mant(2) [OF b k(1)] by simp
  then show ?thesis
    by (simp only: nat_bits_eq [OF b] k(2))
qed

lemma number_of_int_intValue:
  assumes "isSafeInteger w" "\<not> is_neg_zero w"
  shows "number_of_int (intValue w) = w"
proof (cases "num_expo w = 0")
  case True
  then have "num_mant w = 0" using assms(1) by (simp add: isSafeInteger_def isInteger_def)
  with True assms(2) have "unat w = 0"
    using unat_num_fields [of w] by (simp add: is_neg_zero_def split: if_splits)
  with True show ?thesis
    by (simp add: intValue_def absValue_def number_of_int_zero unat_eq_zero)
next
  case False
  have safe: "isInteger w" "absValue w < 2 ^ 53"
    using assms(1) by (auto simp: isSafeInteger_def intValue_def split: if_splits)
  have "1 \<le> absValue w"
    using integer_normal_form [OF safe(1) False safe(2)] False
    by (cases "absValue w") (auto simp: num_sig_def)
  then have "number_of_int (intValue w) =
      word_of_nat ((if num_neg w then 2 ^ 63 else 0) + nat_bits (absValue w))"
    by (simp add: number_of_int_def intValue_def)
  also have "\<dots> = word_of_nat (unat w)"
    by (simp only: nat_bits_absValue [OF safe(1) False safe(2)] flip: unat_num_fields)
  finally show ?thesis by simp
qed

end
