(* ===== verification/Streaming.thy ===== *)
theory Streaming
  imports Prelude
begin

text \<open>
  The contract of an incremental decoder, as the framing layer offers it and the message codec
  relies on it: a decoder holds back some input (\<open>pending\<close>), and a push of a chunk behaves as
  \<open>split\<close> on what it holds back followed by the chunk. \<open>split\<close> is a reference splitter of a
  complete input; its laws say that splitting may be resumed where it stopped. From them
  follows what every client wants: what is returned does not depend on how the stream is cut in
  chunks (\<open>resumable_decoder\<close>), and for a decoder whose errors are the splitter's neither does the
  error (\<open>incremental_decoder\<close>).
\<close>

text \<open>Feeding chunks one after the other; a thrown error ends it.\<close>

fun push_all ::
  "('c list \<Rightarrow> 's \<Rightarrow> (('e + 'f list) \<times> 's) option) \<Rightarrow> 'c list list \<Rightarrow> 's
     \<Rightarrow> (('e + 'f list) \<times> 's) option" where
  "push_all push [] d = Some (Inr [], d)"
| "push_all push (c # cs) d =
     (case push c d of
        None \<Rightarrow> None
      | Some (Inl e, d') \<Rightarrow> Some (Inl e, d')
      | Some (Inr fs, d') \<Rightarrow>
          (case push_all push cs d' of
             None \<Rightarrow> None
           | Some (Inl e, d'') \<Rightarrow> Some (Inl e, d'')
           | Some (Inr gs, d'') \<Rightarrow> Some (Inr (fs @ gs), d'')))"

locale resumable_decoder =
  fixes push :: "'c list \<Rightarrow> 's \<Rightarrow> (('e + 'f list) \<times> 's) option"
    and ok :: "'s \<Rightarrow> bool"
    and pending :: "'s \<Rightarrow> 'c list"
    and split :: "'c list \<Rightarrow> 'e + ('f list \<times> 'c list)"
  assumes split_resume:
      "split a = Inr (fs, r) \<Longrightarrow>
         split (a @ b) = (case split (r @ b) of Inl e \<Rightarrow> Inl e | Inr (gs, r') \<Rightarrow> Inr (fs @ gs, r'))"
    and split_prefix: "split (a @ b) = Inr x \<Longrightarrow> \<exists>fs r. split a = Inr (fs, r)"
    and push_ok:
      "ok d \<Longrightarrow> split (pending d @ c) = Inr (fs, r) \<Longrightarrow>
         \<exists>d'. push c d = Some (Inr fs, d') \<and> ok d' \<and> pending d' = r"
begin

lemma split_held_back: "split a = Inr (fs, r) \<Longrightarrow> split r = Inr ([], r)"
  using split_resume [of a fs r "[]"]
  by (auto split: sum.splits prod.splits)

lemma push_all_ok:
  assumes "ok d" "split (pending d) = Inr ([], pending d)"
    and "split (pending d @ concat cs) = Inr (fs, r)"
  shows "\<exists>d'. push_all push cs d = Some (Inr fs, d') \<and> ok d' \<and> pending d' = r"
  using assms
proof (induction cs arbitrary: d fs)
  case Nil
  then show ?case by simp
next
  case (Cons c cs)
  obtain fs1 r1 where s1: "split (pending d @ c) = Inr (fs1, r1)"
    using Cons.prems(3) split_prefix [of "pending d @ c" "concat cs"] by auto
  with Cons.prems(1) obtain d1 where d1: "push c d = Some (Inr fs1, d1)" "ok d1" "pending d1 = r1"
    using push_ok by blast
  obtain fs2 where s2: "split (r1 @ concat cs) = Inr (fs2, r)" "fs = fs1 @ fs2"
    using split_resume [OF s1, of "concat cs"] Cons.prems(3)
    by (auto split: sum.splits prod.splits)
  obtain d2 where "push_all push cs d1 = Some (Inr fs2, d2)" "ok d2" "pending d2 = r"
    using Cons.IH [of d1 fs2] d1 s2(1) split_held_back [OF s1] by auto
  then show ?case using d1(1) s2(2) by simp
qed

end

text \<open>A decoder whose errors, too, are those of the splitter.\<close>

locale incremental_decoder = resumable_decoder +
  assumes split_error: "split a = Inl e \<Longrightarrow> split (a @ b) = Inl e"
    and push_error:
      "ok d \<Longrightarrow> split (pending d @ c) = Inl e \<Longrightarrow> \<exists>d'. push c d = Some (Inl e, d')"
begin

lemma push_all_error:
  assumes "ok d" "split (pending d) = Inr ([], pending d)"
    and "split (pending d @ concat cs) = Inl e"
  shows "\<exists>d'. push_all push cs d = Some (Inl e, d')"
  using assms
proof (induction cs arbitrary: d)
  case Nil
  then show ?case by simp
next
  case (Cons c cs)
  show ?case
  proof (cases "split (pending d @ c)")
    case (Inl e')
    then have "e' = e" using split_error [OF Inl, of "concat cs"] Cons.prems(3) by simp
    then show ?thesis using push_error [OF Cons.prems(1)] Inl by fastforce
  next
    case (Inr p)
    obtain fs1 r1 where s1: "split (pending d @ c) = Inr (fs1, r1)"
      using Inr by (cases p) auto
    with Cons.prems(1) obtain d1 where d1: "push c d = Some (Inr fs1, d1)" "ok d1" "pending d1 = r1"
      using push_ok by blast
    have "split (r1 @ concat cs) = Inl e"
      using split_resume [OF s1, of "concat cs"] Cons.prems(3)
      by (auto split: sum.splits prod.splits)
    then obtain d2 where "push_all push cs d1 = Some (Inl e, d2)"
      using Cons.IH [of d1] d1 split_held_back [OF s1] by auto
    then show ?thesis using d1(1) by simp
  qed
qed

text \<open>The result is that of the whole input in one push, however the input is cut.\<close>

lemma chunking_irrelevant:
  assumes "ok d" "split (pending d) = Inr ([], pending d)" "concat cs = concat cs'"
  shows "map_option fst (push_all push cs d) = map_option fst (push_all push cs' d)"
proof (cases "split (pending d @ concat cs)")
  case (Inl e)
  then show ?thesis
    using push_all_error [OF assms(1,2), of cs e] push_all_error [OF assms(1,2), of cs' e] assms(3)
    by auto
next
  case (Inr p)
  obtain fs r where "split (pending d @ concat cs) = Inr (fs, r)"
    using Inr by (cases p) auto
  then show ?thesis
    using push_all_ok [OF assms(1,2), of cs fs r] push_all_ok [OF assms(1,2), of cs' fs r] assms(3)
    by auto
qed

end

end
