(* ===== verification/Framing.thy ===== *)
theory Framing
  imports Prelude JsNumber Streaming
begin

text \<open>
  \<^verbatim>\<open>packages/protocol/src/framing.ts\<close>: length-prefixed frames. \<open>encodeFrame\<close> puts a 32-bit
  big-endian length before a payload; \<open>FrameDecoder\<close> is fed arbitrary chunks of the byte stream
  and returns the payloads they complete. The decoder keeps a partial header, and a payload as a
  list of blocks of at most 64 KiB of which the last one is being filled;
  \<open>currentPayloadBlock\<close> is a reference to a block of \<open>payloadBlocks\<close>, here its index.
  A chunk and the offset into it are the list of the bytes still to be read.
  The \<open>instanceof Uint8Array\<close> checks have no counterpart: a chunk is a byte list by its type.

  The abstract view of a decoder is the list of the bytes it holds back (\<open>pending\<close>), and what it
  promises is \<open>split_frames\<close>: a push returns the complete frames of
  \<open>pending @ chunk\<close> and holds back the rest.
\<close>

definition FRAME_HEADER_LENGTH :: nat where "FRAME_HEADER_LENGTH = 4"
definition MAX_UINT32 :: nat where "MAX_UINT32 = 0xffffffff"
definition PAYLOAD_BLOCK_SIZE :: nat where "PAYLOAD_BLOCK_SIZE = 64 * 1024"
definition DEFAULT_MAX_FRAME_LENGTH :: nat where "DEFAULT_MAX_FRAME_LENGTH = 16 * 1024 * 1024"

lemmas frame_consts = FRAME_HEADER_LENGTH_def MAX_UINT32_def PAYLOAD_BLOCK_SIZE_def

datatype frame_error =
    MaxFrameLengthRange
  | PayloadTooLong
  | NoLengthPrefix
  | FrameLimit nat nat
  | NotOneFrame
  | DecoderEnded
  | DecoderFailed
  | TruncatedFrame

datatype decoder_state = Open | Ended | Failed

text \<open>The option is a JavaScript number that may be missing.\<close>

definition resolveMaxFrameLength :: "js_number option \<Rightarrow> frame_error + nat" where
  "resolveMaxFrameLength options =
     (let value = (case options of None \<Rightarrow> number_of_int (int DEFAULT_MAX_FRAME_LENGTH) | Some v \<Rightarrow> v)
      in if \<not> isSafeInteger value \<or> intValue value < 0 \<or> int MAX_UINT32 < intValue value
         then Inl MaxFrameLengthRange else Inr (nat (intValue value)))"

definition encodeFrame :: "byte list \<Rightarrow> frame_error + byte list" where
  "encodeFrame payload =
     (let len = length payload in
      if len > MAX_UINT32 then Inl PayloadTooLong
      else Inr ([u8 (ushr len 24), u8 (ushr len 16), u8 (ushr len 8), u8 len] @ payload))"

definition header_value :: "byte list \<Rightarrow> nat" where
  "header_value h =
     unat (h ! 0) * 0x1000000 + unat (h ! 1) * 0x10000 + unat (h ! 2) * 0x100 + unat (h ! 3)"

definition assertCompleteFrame :: "byte list \<Rightarrow> js_number option \<Rightarrow> frame_error + unit" where
  "assertCompleteFrame frame options =
     (if length frame < FRAME_HEADER_LENGTH then Inl NoLengthPrefix
      else let len = header_value frame in
        case resolveMaxFrameLength options of
          Inl e \<Rightarrow> Inl e
        | Inr maxFrameLength \<Rightarrow>
            if len > maxFrameLength then Inl (FrameLimit len maxFrameLength)
            else if length frame \<noteq> FRAME_HEADER_LENGTH + len then Inl NotOneFrame
            else Inr ())"

record frame_decoder =
  header :: "byte list"
  headerLength :: nat
  maxFrameLength :: nat
  payloadBlocks :: "byte list list"
  currentPayloadBlock :: "nat option"
  currentPayloadBlockLength :: nat
  expectedPayloadLength :: "nat option"
  payloadLength :: nat
  state :: decoder_state

definition fresh_decoder :: "nat \<Rightarrow> frame_decoder" where
  "fresh_decoder m =
     \<lparr>header = replicate FRAME_HEADER_LENGTH 0, headerLength = 0, maxFrameLength = m,
      payloadBlocks = [], currentPayloadBlock = None, currentPayloadBlockLength = 0,
      expectedPayloadLength = None, payloadLength = 0, state = Open\<rparr>"

definition new_FrameDecoder :: "js_number option \<Rightarrow> frame_error + frame_decoder" where
  "new_FrameDecoder options =
     (case resolveMaxFrameLength options of
        Inl e \<Rightarrow> Inl e
      | Inr m \<Rightarrow> Inr (fresh_decoder m))"

definition reset_payload :: "frame_decoder \<Rightarrow> frame_decoder" where
  "reset_payload d = d\<lparr>payloadBlocks := [], currentPayloadBlock := None,
     currentPayloadBlockLength := 0, payloadLength := 0\<rparr>"

definition fail :: "frame_decoder \<Rightarrow> frame_decoder" where
  "fail d = (reset_payload d)\<lparr>state := Failed, headerLength := 0, expectedPayloadLength := None\<rparr>"

text \<open>The block that the next payload bytes go to, allocated when there is none or it is full.\<close>

definition ensure_block :: "nat \<Rightarrow> frame_decoder \<Rightarrow> frame_decoder" where
  "ensure_block expected d =
     (let fresh = d\<lparr>payloadBlocks := payloadBlocks d
                      @ [replicate (min PAYLOAD_BLOCK_SIZE (expected - payloadLength d)) 0],
                    currentPayloadBlock := Some (length (payloadBlocks d)),
                    currentPayloadBlockLength := 0\<rparr>
      in case currentPayloadBlock d of
           None \<Rightarrow> fresh
         | Some i \<Rightarrow> if currentPayloadBlockLength d = length (payloadBlocks d ! i) then fresh else d)"

text \<open>The body of the inner loop after the block is there: copy what fits.\<close>

definition copy_to_block :: "byte list \<Rightarrow> frame_decoder \<Rightarrow> byte list \<times> frame_decoder" where
  "copy_to_block rest d =
     (case currentPayloadBlock d of
        None \<Rightarrow> (rest, d)
      | Some i \<Rightarrow>
          let block = payloadBlocks d ! i;
              n = min (length block - currentPayloadBlockLength d) (length rest)
          in (drop n rest,
              d\<lparr>payloadBlocks := (payloadBlocks d)
                   [i := set_at block (take n rest) (currentPayloadBlockLength d)],
                currentPayloadBlockLength := currentPayloadBlockLength d + n,
                payloadLength := payloadLength d + n\<rparr>))"

text \<open>The inner loop; \<open>None\<close> would be a loop that does not end.\<close>

partial_function (option) fill_payload ::
  "nat \<Rightarrow> byte list \<Rightarrow> frame_decoder \<Rightarrow> (byte list \<times> frame_decoder) option" where
  "fill_payload expected rest d =
     (if rest \<noteq> [] \<and> payloadLength d < expected
      then (case copy_to_block rest (ensure_block expected d) of
              (rest', d') \<Rightarrow> fill_payload expected rest' d')
      else Some (rest, d))"

datatype push_outcome =
    Throw frame_error frame_decoder
  | Continue "byte list" "byte list list" frame_decoder

definition payload_phase ::
  "nat \<Rightarrow> byte list \<Rightarrow> byte list list \<Rightarrow> frame_decoder \<Rightarrow> push_outcome option" where
  "payload_phase expected rest frames d =
     (case fill_payload expected rest d of
        None \<Rightarrow> None
      | Some (rest', d') \<Rightarrow>
          if payloadLength d' = expected then
            Some (Continue rest'
              (frames @ [if length (payloadBlocks d') = 1 then payloadBlocks d' ! 0
                         else concat (payloadBlocks d')])
              ((reset_payload d')\<lparr>expectedPayloadLength := None\<rparr>))
          else Some (Continue rest' frames d'))"

text \<open>One iteration of the outer loop, with \<open>rest\<close> not empty.\<close>

definition push_iteration ::
  "byte list \<Rightarrow> byte list list \<Rightarrow> frame_decoder \<Rightarrow> push_outcome option" where
  "push_iteration rest frames d =
     (case expectedPayloadLength d of
        Some expected \<Rightarrow> payload_phase expected rest frames d
      | None \<Rightarrow>
          let n = min (FRAME_HEADER_LENGTH - headerLength d) (length rest);
              d1 = d\<lparr>header := set_at (header d) (take n rest) (headerLength d),
                     headerLength := headerLength d + n\<rparr>;
              rest1 = drop n rest
          in if headerLength d1 < FRAME_HEADER_LENGTH then Some (Continue rest1 frames d1)
             else let frameLength = header_value (header d1);
                      d2 = d1\<lparr>headerLength := 0\<rparr>
                  in if frameLength > maxFrameLength d2
                     then Some (Throw (FrameLimit frameLength (maxFrameLength d2)) (fail d2))
                     else if frameLength = 0 then Some (Continue rest1 (frames @ [[]]) d2)
                     else payload_phase frameLength rest1 frames
                            ((reset_payload d2)\<lparr>expectedPayloadLength := Some frameLength\<rparr>))"

partial_function (option) push_loop ::
  "byte list \<Rightarrow> byte list list \<Rightarrow> frame_decoder
     \<Rightarrow> ((frame_error + byte list list) \<times> frame_decoder) option" where
  "push_loop rest frames d =
     (if rest = [] then Some (Inr frames, d)
      else case push_iteration rest frames d of
        None \<Rightarrow> None
      | Some (Throw e d') \<Rightarrow> Some (Inl e, d')
      | Some (Continue rest' frames' d') \<Rightarrow> push_loop rest' frames' d')"

definition frame_push ::
  "byte list \<Rightarrow> frame_decoder \<Rightarrow> ((frame_error + byte list list) \<times> frame_decoder) option" where
  "frame_push chunk d =
     (case state d of
        Ended \<Rightarrow> Some (Inl DecoderEnded, d)
      | Failed \<Rightarrow> Some (Inl DecoderFailed, d)
      | Open \<Rightarrow> push_loop chunk [] d)"

definition frame_end :: "frame_decoder \<Rightarrow> (frame_error + unit) \<times> frame_decoder" where
  "frame_end d =
     (case state d of
        Ended \<Rightarrow> (Inl DecoderEnded, d)
      | Failed \<Rightarrow> (Inl DecoderFailed, d)
      | Open \<Rightarrow>
          if headerLength d \<noteq> 0 \<or> expectedPayloadLength d \<noteq> None
          then (Inl TruncatedFrame, fail d)
          else (Inr (), d\<lparr>state := Ended\<rparr>))"

subsection \<open>The abstract decoder\<close>

function split_frames :: "nat \<Rightarrow> byte list \<Rightarrow> frame_error + (byte list list \<times> byte list)" where
  "split_frames m bs =
     (if length bs < 4 then Inr ([], bs)
      else let n = be_val (take 4 bs) in
        if m < n then Inl (FrameLimit n m)
        else if length bs < 4 + n then Inr ([], bs)
        else case split_frames m (drop (4 + n) bs) of
          Inl e \<Rightarrow> Inl e
        | Inr (fs, r) \<Rightarrow> Inr (take n (drop 4 bs) # fs, r))"
  by pat_completeness auto
termination
  by (relation "measure (\<lambda>(m, bs). length bs)") auto

declare split_frames.simps [simp del]

lemma split_frames_short: "length bs < 4 \<Longrightarrow> split_frames m bs = Inr ([], bs)"
  by (simp add: split_frames.simps)

lemma split_frames_resume:
  "split_frames m a = Inr (fs, r) \<Longrightarrow>
     split_frames m (a @ b) =
       (case split_frames m (r @ b) of Inl e \<Rightarrow> Inl e | Inr (gs, r') \<Rightarrow> Inr (fs @ gs, r'))"
proof (induction m a arbitrary: fs r rule: split_frames.induct)
  case (1 m a)
  let ?n = "be_val (take 4 a)"
  show ?case
  proof (cases "length a < 4 \<or> length a < 4 + ?n \<or> m < ?n")
    case True
    with 1(2) have "fs = []" "r = a"
      by (auto simp: split_frames.simps [of m a] Let_def split: if_splits)
    then show ?thesis by (auto split: sum.splits)
  next
    case False
    then obtain fs' where fs': "split_frames m (drop (4 + ?n) a) = Inr (fs', r)"
      "fs = take ?n (drop 4 a) # fs'"
      using 1(2) by (auto simp: split_frames.simps [of m a] Let_def split: if_splits sum.splits)
    have "split_frames m (drop (4 + ?n) a @ b) =
        (case split_frames m (r @ b) of Inl e \<Rightarrow> Inl e | Inr (gs, r') \<Rightarrow> Inr (fs' @ gs, r'))"
      using 1(1) [OF _ refl _ _ fs'(1)] False by auto
    then show ?thesis
      using False fs'(2) by (subst split_frames.simps) (auto simp: Let_def split: sum.splits)
  qed
qed

lemma split_frames_error: "split_frames m a = Inl e \<Longrightarrow> split_frames m (a @ b) = Inl e"
proof (induction m a rule: split_frames.induct)
  case (1 m a)
  let ?n = "be_val (take 4 a)"
  have long: "\<not> length a < 4"
    using 1(2) by (auto simp: split_frames.simps [of m a])
  show ?case
  proof (cases "m < ?n")
    case True
    with long 1(2) show ?thesis
      by (simp add: split_frames.simps [of m a] split_frames.simps [of m "a @ b"] Let_def)
  next
    case False
    then have "\<not> length a < 4 + ?n" and e: "split_frames m (drop (4 + ?n) a) = Inl e"
      using long 1(2) by (auto simp: split_frames.simps [of m a] Let_def split: if_splits sum.splits)
    moreover from this have "split_frames m (drop (4 + ?n) a @ b) = Inl e"
      using 1(1) [OF long refl False] by simp
    ultimately show ?thesis
      using long False by (subst split_frames.simps) (simp add: Let_def)
  qed
qed

text \<open>The payload bytes received so far, and the bytes a decoder holds back.\<close>

definition received :: "frame_decoder \<Rightarrow> byte list" where
  "received d =
     (if payloadBlocks d = [] then []
      else concat (butlast (payloadBlocks d))
           @ take (currentPayloadBlockLength d) (last (payloadBlocks d)))"

definition pending :: "frame_decoder \<Rightarrow> byte list" where
  "pending d =
     (case expectedPayloadLength d of
        None \<Rightarrow> take (headerLength d) (header d)
      | Some e \<Rightarrow> be_bytes 4 e @ received d)"

definition payload_ok :: "nat \<Rightarrow> frame_decoder \<Rightarrow> bool" where
  "payload_ok e d \<longleftrightarrow>
     (if payloadBlocks d = [] then currentPayloadBlock d = None \<and> currentPayloadBlockLength d = 0
      else currentPayloadBlock d = Some (length (payloadBlocks d) - 1)
           \<and> currentPayloadBlockLength d \<le> length (last (payloadBlocks d)))
     \<and> payloadLength d = length (received d)
     \<and> length (concat (payloadBlocks d)) \<le> e"

definition decoder_ok :: "nat \<Rightarrow> frame_decoder \<Rightarrow> bool" where
  "decoder_ok m d \<longleftrightarrow>
     state d = Open \<and> maxFrameLength d = m \<and> m < 2 ^ 32 \<and> length (header d) = 4 \<and>
     (case expectedPayloadLength d of
        None \<Rightarrow> headerLength d < 4
      | Some e \<Rightarrow> headerLength d = 0 \<and> 0 < e \<and> e \<le> m \<and> payloadLength d < e \<and> payload_ok e d)"

text \<open>The fields that the payload loops leave alone.\<close>

definition same_frame :: "frame_decoder \<Rightarrow> frame_decoder \<Rightarrow> bool" where
  "same_frame d d' \<longleftrightarrow> state d' = state d \<and> maxFrameLength d' = maxFrameLength d
     \<and> header d' = header d \<and> headerLength d' = headerLength d
     \<and> expectedPayloadLength d' = expectedPayloadLength d"

lemma same_frame_trans: "same_frame a b \<Longrightarrow> same_frame b c \<Longrightarrow> same_frame a c"
  by (simp add: same_frame_def)

lemma concat_butlast_last: "xs \<noteq> [] \<Longrightarrow> concat xs = concat (butlast xs) @ last xs"
  by (induction xs rule: rev_induct) auto

lemma received_le: "payload_ok e d \<Longrightarrow> payloadLength d \<le> e"
  by (auto simp: payload_ok_def received_def concat_butlast_last split: if_splits)

lemma received_complete:
  assumes "payload_ok e d" "payloadLength d = e"
  shows "concat (payloadBlocks d) = received d"
proof (cases "payloadBlocks d = []")
  case True
  then show ?thesis by (simp add: received_def)
next
  case False
  then have "length (last (payloadBlocks d)) \<le> currentPayloadBlockLength d"
    using assms by (auto simp: payload_ok_def received_def concat_butlast_last)
  then show ?thesis using False by (simp add: received_def concat_butlast_last)
qed

definition block_ready :: "frame_decoder \<Rightarrow> bool" where
  "block_ready d \<longleftrightarrow> payloadBlocks d \<noteq> []
     \<and> currentPayloadBlockLength d < length (last (payloadBlocks d))"

lemma ensure_block_ok:
  assumes "payload_ok e d" "payloadLength d < e"
  shows "payload_ok e (ensure_block e d) \<and> block_ready (ensure_block e d)
    \<and> received (ensure_block e d) = received d \<and> same_frame d (ensure_block e d)
    \<and> payloadLength (ensure_block e d) = payloadLength d"
proof -
  let ?bl = "payloadBlocks d"
  let ?full = "?bl = [] \<or> currentPayloadBlockLength d = length (last ?bl)"
  have full: "length (concat ?bl) = payloadLength d \<and> concat ?bl = received d" if ?full
    using that assms(1) by (auto simp: payload_ok_def received_def concat_butlast_last split: if_splits)
  have last: "?bl ! (length ?bl - 1) = last ?bl" if "?bl \<noteq> []"
    using that by (simp add: last_conv_nth)
  note defs = ensure_block_def payload_ok_def received_def same_frame_def block_ready_def Let_def
    frame_consts
  show ?thesis
  proof (cases ?full)
    case True
    then show ?thesis
      using assms full last by (auto simp: defs split: option.splits if_splits)
  next
    case False
    then show ?thesis
      using assms last by (auto simp: defs split: option.splits if_splits)
  qed
qed

lemma butlast_list_update_last: "xs \<noteq> [] \<Longrightarrow> xs[length xs - Suc 0 := x] = butlast xs @ [x]"
  by (induction xs rule: rev_induct) auto

lemma copy_to_block_ok:
  assumes "payload_ok e d" "block_ready d"
    and n: "n = min (length (last (payloadBlocks d)) - currentPayloadBlockLength d) (length rest)"
  obtains d' where "copy_to_block rest d = (drop n rest, d')" "payload_ok e d'"
    "received d' = received d @ take n rest" "same_frame d d'"
    "payloadLength d' = payloadLength d + n"
proof -
  let ?bl = "payloadBlocks d" and ?c = "currentPayloadBlockLength d"
  have ne: "?bl \<noteq> []" and cur: "currentPayloadBlock d = Some (length ?bl - 1)"
    using assms(1,2) by (auto simp: payload_ok_def block_ready_def split: if_splits)
  have last: "?bl ! (length ?bl - 1) = last ?bl" using ne by (simp add: last_conv_nth)
  have le: "?c + length (take n rest) \<le> length (last ?bl)"
    using assms(2) n by (auto simp: block_ready_def)
  have nlen: "length (take n rest) = n" "n \<le> length rest" using n by simp_all
  let ?last = "set_at (last ?bl) (take n rest) ?c"
  let ?d' = "d\<lparr>payloadBlocks := butlast ?bl @ [?last], currentPayloadBlockLength := ?c + n,
     payloadLength := payloadLength d + n\<rparr>"
  have copy: "copy_to_block rest d = (drop n rest, ?d')"
    using cur last n by (simp add: copy_to_block_def Let_def butlast_list_update_last [OF ne] ne)
  have rec: "received ?d' = received d @ take n rest"
    using take_set_at [OF le, unfolded nlen(1)] ne by (simp add: received_def)
  have "length (concat (payloadBlocks ?d')) = length (concat ?bl)"
    using length_set_at [OF le] ne by (simp add: concat_butlast_last)
  then have "payload_ok e ?d'"
    using assms(1) rec le [unfolded nlen(1)] length_set_at [OF le] ne nlen(2)
    unfolding payload_ok_def by simp
  then show ?thesis
    using that [OF copy _ rec] by (simp add: same_frame_def)
qed

lemma fill_payload_ok:
  assumes "payload_ok e d" and n: "n = min (e - payloadLength d) (length rest)"
  shows "\<exists>d'. fill_payload e rest d = Some (drop n rest, d') \<and> payload_ok e d'
    \<and> received d' = received d @ take n rest \<and> same_frame d d' \<and> payloadLength d' = payloadLength d + n"
  using assms
proof (induction "length rest" arbitrary: rest d n rule: less_induct)
  case less
  show ?case
  proof (cases "rest \<noteq> [] \<and> payloadLength d < e")
    case False
    then have "n = 0" using less.prems(2) by auto
    then show ?thesis using False less.prems
      by (subst fill_payload.simps) (auto simp: same_frame_def)
  next
    case True
    let ?d1 = "ensure_block e d"
    have d1: "payload_ok e ?d1" "block_ready ?d1" "received ?d1 = received d" "same_frame d ?d1"
      "payloadLength ?d1 = payloadLength d"
      using ensure_block_ok [OF less.prems(1)] True by auto
    define k where "k = min (length (last (payloadBlocks ?d1)) - currentPayloadBlockLength ?d1) (length rest)"
    obtain d2 where d2: "copy_to_block rest ?d1 = (drop k rest, d2)" "payload_ok e d2"
      "received d2 = received ?d1 @ take k rest" "same_frame ?d1 d2"
      "payloadLength d2 = payloadLength ?d1 + k"
      using copy_to_block_ok [OF d1(1,2) k_def] .
    have k: "0 < k" "k \<le> length rest" using True d1(2) by (auto simp: k_def block_ready_def)
    have le: "payloadLength d + k \<le> e" using received_le [OF d2(2)] d2(5) d1(5) by simp
    define n' where "n' = min (e - payloadLength d2) (length (drop k rest))"
    have nk: "n = k + n'" using less.prems(2) k(2) le d2(5) d1(5) unfolding n'_def by auto
    obtain d3 where d3: "fill_payload e (drop k rest) d2 = Some (drop n' (drop k rest), d3)"
      "payload_ok e d3" "received d3 = received d2 @ take n' (drop k rest)" "same_frame d2 d3"
      "payloadLength d3 = payloadLength d2 + n'"
      using less.hyps [OF _ d2(2) n'_def] k True by auto
    have "fill_payload e rest d = Some (drop n rest, d3)"
      using True d2(1) d3(1) by (subst fill_payload.simps) (simp add: nk add.commute)
    then show ?thesis
      using d3 d2 d1 by (auto simp: nk take_add intro: same_frame_trans)
  qed
qed

lemma header_value_be_val: "length h = 4 \<Longrightarrow> header_value h = be_val h"
  by (simp add: header_value_def be_val_4)

lemma frame_header_bytes:
  "n \<le> MAX_UINT32 \<Longrightarrow> [u8 (ushr n 24), u8 (ushr n 16), u8 (ushr n 8), u8 n] = be_bytes 4 n"
  by (simp add: be_bytes_4 ushr_def MAX_UINT32_def)

lemma encodeFrame_eq:
  "encodeFrame p = (if length p > MAX_UINT32 then Inl PayloadTooLong else Inr (be_bytes 4 (length p) @ p))"
  unfolding encodeFrame_def Let_def by (simp add: frame_header_bytes)

lemma be_val_header: "n < 2 ^ 32 \<Longrightarrow> be_val (be_bytes 4 n) = n"
  by (simp add: be_simps)

lemma be_val_4_less: "length h = 4 \<Longrightarrow> be_val h < 2 ^ 32"
  using be_val_less [of h] by simp

lemma split_frames_frame:
  assumes "length f \<le> m" "m < 2 ^ 32"
  shows "split_frames m (be_bytes 4 (length f) @ f @ r) =
    (case split_frames m r of Inl e \<Rightarrow> Inl e | Inr (fs, r') \<Rightarrow> Inr (f # fs, r'))"
  using assms be_val_header [of "length f"]
  by (subst split_frames.simps) (simp add: Let_def split: sum.split)

lemma split_frames_limit:
  assumes "4 \<le> length bs" "m < be_val (take 4 bs)"
  shows "split_frames m bs = Inl (FrameLimit (be_val (take 4 bs)) m)"
  using assms by (subst split_frames.simps) (simp add: Let_def)

lemma pending_held_back: "decoder_ok m d \<Longrightarrow> split_frames m (pending d) = Inr ([], pending d)"
proof (cases "expectedPayloadLength d")
  case None
  then show "decoder_ok m d \<Longrightarrow> ?thesis"
    by (intro split_frames_short) (auto simp: pending_def decoder_ok_def)
next
  case (Some e)
  assume ok: "decoder_ok m d"
  then have "length (received d) < e" "e \<le> m" "m < 2 ^ 32"
    using Some by (auto simp: decoder_ok_def payload_ok_def)
  with Some show ?thesis
    using be_val_header [of e] by (subst split_frames.simps) (simp add: pending_def Let_def)
qed

text \<open>What an iteration may do to the stream: absorb bytes, or finish one frame.\<close>

definition absorbs :: "nat \<Rightarrow> byte list \<Rightarrow> byte list list \<Rightarrow> frame_decoder \<Rightarrow> push_outcome option \<Rightarrow> bool" where
  "absorbs m rest frames d out \<longleftrightarrow> (\<exists>rest' d'. out = Some (Continue rest' frames d') \<and> decoder_ok m d'
     \<and> pending d' @ rest' = pending d @ rest
     \<and> (length rest' < length rest \<or> rest' = [] \<and> rest = []))"

definition finishes :: "nat \<Rightarrow> byte list \<Rightarrow> byte list list \<Rightarrow> frame_decoder \<Rightarrow> push_outcome option \<Rightarrow> bool" where
  "finishes m rest frames d out \<longleftrightarrow> (\<exists>rest' f d'. out = Some (Continue rest' (frames @ [f]) d')
     \<and> decoder_ok m d' \<and> pending d' = [] \<and> length f \<le> m \<and> length rest' < length rest
     \<and> pending d @ rest = be_bytes 4 (length f) @ f @ rest')"

lemma absorbsI:
  assumes "out = Some (Continue rest' frames d')" "decoder_ok m d'"
    "pending d' @ rest' = pending d @ rest" "length rest' < length rest \<or> rest' = [] \<and> rest = []"
  shows "absorbs m rest frames d out"
  using assms unfolding absorbs_def by blast

lemma finishesI:
  assumes "out = Some (Continue rest' (frames @ [f]) d')" "decoder_ok m d'" "pending d' = []"
    "length f \<le> m" "length rest' < length rest" "pending d @ rest = be_bytes 4 (length f) @ f @ rest'"
  shows "finishes m rest frames d out"
  using assms unfolding finishes_def by blast

lemma outcome_earlier:
  assumes "pending d1 @ rest1 = pending d @ rest" "length rest1 < length rest"
  shows "absorbs m rest1 frames d1 out \<Longrightarrow> absorbs m rest frames d out"
    and "finishes m rest1 frames d1 out \<Longrightarrow> finishes m rest frames d out"
  using assms unfolding absorbs_def finishes_def by fastforce+

lemma payload_phase_ok:
  assumes ok: "decoder_ok m d" and e: "expectedPayloadLength d = Some e"
  shows "absorbs m rest frames d (payload_phase e rest frames d)
    \<or> finishes m rest frames d (payload_phase e rest frames d)"
proof -
  have pl: "payload_ok e d" "payloadLength d < e" "payloadLength d = length (received d)"
    and m: "e \<le> m" "m < 2 ^ 32" "0 < e"
    using ok e by (auto simp: decoder_ok_def payload_ok_def)
  define n where "n = min (e - payloadLength d) (length rest)"
  obtain d' where d': "fill_payload e rest d = Some (drop n rest, d')" "payload_ok e d'"
    "received d' = received d @ take n rest" "same_frame d d'" "payloadLength d' = payloadLength d + n"
    using fill_payload_ok [OF pl(1) n_def] by blast
  show ?thesis
  proof (cases "payloadLength d' = e")
    case True
    let ?f = "received d @ take n rest"
    have f: "concat (payloadBlocks d') = ?f"
      using received_complete [OF d'(2) True] d'(3) by simp
    have lf: "length ?f = e"
      using True d'(2,3) by (simp add: payload_ok_def)
    let ?d'' = "(reset_payload d')\<lparr>expectedPayloadLength := None\<rparr>"
    have "finishes m rest frames d (payload_phase e rest frames d)"
    proof (rule finishesI)
      show "payload_phase e rest frames d = Some (Continue (drop n rest) (frames @ [?f]) ?d'')"
        using f by (cases "payloadBlocks d'") (auto simp: payload_phase_def d'(1) True)
      show "decoder_ok m ?d''" "pending ?d'' = []"
        using ok e d'(4) by (auto simp: decoder_ok_def reset_payload_def same_frame_def pending_def)
      show "length (drop n rest) < length rest"
        using True d'(5) pl(2) n_def by auto
      show "length ?f \<le> m" "pending d @ rest = be_bytes 4 (length ?f) @ ?f @ drop n rest"
        using lf m(1) e by (simp_all add: pending_def)
    qed
    then show ?thesis ..
  next
    case False
    then have n: "n = length rest" using d'(5) n_def pl(2) by auto
    have "absorbs m rest frames d (payload_phase e rest frames d)"
    proof (rule absorbsI)
      show "payload_phase e rest frames d = Some (Continue [] frames d')"
        using d'(1) False n by (simp add: payload_phase_def)
      show "decoder_ok m d'"
        using ok e d' False received_le [OF d'(2)] by (simp add: decoder_ok_def same_frame_def)
      show "pending d' @ [] = pending d @ rest"
        using d'(3,4) e n by (simp add: pending_def same_frame_def)
    qed (cases rest; simp)
    then show ?thesis ..
  qed
qed

text \<open>The header phase of an iteration, once the header is complete.\<close>

definition start_payload :: "nat \<Rightarrow> frame_decoder \<Rightarrow> frame_decoder" where
  "start_payload len d = (reset_payload d)\<lparr>expectedPayloadLength := Some len\<rparr>"

lemma header_phase:
  assumes ok: "decoder_ok m d" and ne: "rest \<noteq> []" and none: "expectedPayloadLength d = None"
  obtains (partial) "absorbs m rest frames d (push_iteration rest frames d)"
  | (complete) h rest' d2 where
      "length h = 4" "h @ rest' = pending d @ rest" "length rest' < length rest"
      "decoder_ok m d2" "pending d2 = []" "expectedPayloadLength d2 = None"
      "push_iteration rest frames d =
        (if m < be_val h then Some (Throw (FrameLimit (be_val h) m) (fail d2))
         else if be_val h = 0 then Some (Continue rest' (frames @ [[]]) d2)
         else payload_phase (be_val h) rest' frames (start_payload (be_val h) d2))"
proof -
  define n where "n = min (4 - headerLength d) (length rest)"
  have h: "headerLength d < 4" "length (header d) = 4" "state d = Open" "maxFrameLength d = m" "m < 2 ^ 32"
    using ok none by (auto simp: decoder_ok_def)
  have n: "0 < n" "n \<le> length rest" using h ne by (auto simp: n_def)
  have le: "headerLength d + length (take n rest) \<le> length (header d)"
    using h by (auto simp: n_def)
  define d1 where "d1 = d\<lparr>header := set_at (header d) (take n rest) (headerLength d),
    headerLength := headerLength d + n\<rparr>"
  have d1: "length (header d1) = 4" "take (headerLength d1) (header d1) = pending d @ take n rest"
    using length_set_at [OF le] take_set_at [OF le] h(2) n(2) none
    by (simp_all add: d1_def pending_def)
  have d1': "state d1 = Open" "maxFrameLength d1 = m" "expectedPayloadLength d1 = None"
    using h none by (simp_all add: d1_def)
  have iter: "push_iteration rest frames d =
      (if headerLength d1 < 4 then Some (Continue (drop n rest) frames d1)
       else let len = header_value (header d1); d2 = d1\<lparr>headerLength := 0\<rparr>
            in if m < len then Some (Throw (FrameLimit len m) (fail d2))
               else if len = 0 then Some (Continue (drop n rest) (frames @ [[]]) d2)
               else payload_phase len (drop n rest) frames (start_payload len d2))"
    unfolding push_iteration_def none option.case FRAME_HEADER_LENGTH_def Let_def start_payload_def
      n_def [symmetric] d1_def [symmetric]
    by (simp add: d1')
  show ?thesis
  proof (cases "headerLength d1 < 4")
    case True
    show ?thesis
    proof (rule partial, rule absorbsI)
      show "push_iteration rest frames d = Some (Continue (drop n rest) frames d1)"
        using iter True by simp
      show "decoder_ok m d1" using True d1(1) d1' h(5) by (simp add: decoder_ok_def)
      show "pending d1 @ drop n rest = pending d @ rest" using d1(2) d1'(3) by (simp add: pending_def)
    qed (use n in auto)
  next
    case False
    then have full: "headerLength d1 = 4" using h(1) by (auto simp: d1_def n_def)
    then have hd: "header d1 = pending d @ take n rest" using d1 by simp
    show ?thesis
    proof (rule complete [of "header d1" "drop n rest" "d1\<lparr>headerLength := 0\<rparr>"])
      show "length (header d1) = 4" by (rule d1(1))
      show "header d1 @ drop n rest = pending d @ rest" by (simp add: hd)
      show "length (drop n rest) < length rest" using n by simp
      show "decoder_ok m (d1\<lparr>headerLength := 0\<rparr>)" "pending (d1\<lparr>headerLength := 0\<rparr>) = []"
        "expectedPayloadLength (d1\<lparr>headerLength := 0\<rparr>) = None"
        using d1(1) d1' h(5) by (simp_all add: decoder_ok_def pending_def)
    qed (use iter full header_value_be_val [OF d1(1)] in \<open>simp add: Let_def\<close>)
  qed
qed

lemma start_payload_ok:
  assumes "decoder_ok m d" "expectedPayloadLength d = None" "pending d = []" "0 < len" "len \<le> m"
  shows "decoder_ok m (start_payload len d)" "pending (start_payload len d) = be_bytes 4 len"
    "expectedPayloadLength (start_payload len d) = Some len"
  using assms by (auto simp: decoder_ok_def payload_ok_def received_def reset_payload_def
      start_payload_def pending_def)

lemma push_iteration_ok:
  assumes ok: "decoder_ok m d" and ne: "rest \<noteq> []"
  shows "absorbs m rest frames d (push_iteration rest frames d)
    \<or> finishes m rest frames d (push_iteration rest frames d)
    \<or> (\<exists>n d'. push_iteration rest frames d = Some (Throw (FrameLimit n m) d') \<and> state d' = Failed
          \<and> split_frames m (pending d @ rest) = Inl (FrameLimit n m))"
proof (cases "expectedPayloadLength d")
  case (Some e)
  then show ?thesis
    using payload_phase_ok [OF ok Some, of rest frames] by (auto simp: push_iteration_def)
next
  case None
  show ?thesis
  proof (cases rule: header_phase [OF ok ne None, of frames, case_names partial complete])
    case partial
    then show ?thesis ..
  next
    case (complete h rest' d2)
    have bytes: "be_bytes 4 (be_val h) = h" using complete(1) by (simp add: be_simps)
    consider "m < be_val h" | "be_val h = 0" | "0 < be_val h" "be_val h \<le> m" by linarith
    then show ?thesis
    proof cases
      case 1
      then have "split_frames m (h @ rest') = Inl (FrameLimit (be_val h) m)"
        using complete(1) split_frames_limit [of "h @ rest'" m] by simp
      then show ?thesis using 1 complete(2,7) by (simp add: fail_def)
    next
      case 2
      then have "finishes m rest frames d (push_iteration rest frames d)"
        using complete bytes by (intro finishesI [where f = "[]"]) (auto simp: not_less)
      then show ?thesis by blast
    next
      case 3
      note sp = start_payload_ok [OF complete(4,6,5) 3]
      show ?thesis
        using payload_phase_ok [OF sp(1,3), of rest' frames] complete(2,3,7) 3 sp(2) bytes
          outcome_earlier [of "start_payload (be_val h) d2" rest' d rest m frames]
        by auto
    qed
  qed
qed

lemma push_loop_ok:
  assumes "decoder_ok m d"
  shows "case split_frames m (pending d @ rest) of
      Inl e \<Rightarrow> \<exists>d'. push_loop rest frames d = Some (Inl e, d') \<and> state d' = Failed
    | Inr (fs, r) \<Rightarrow> \<exists>d'. push_loop rest frames d = Some (Inr (frames @ fs), d')
        \<and> decoder_ok m d' \<and> pending d' = r"
  using assms
proof (induction "length rest" arbitrary: rest frames d rule: less_induct)
  case less
  show ?case
  proof (cases "rest = []")
    case True
    then show ?thesis
      using pending_held_back [OF less.prems] less.prems by (simp add: push_loop.simps)
  next
    case False
    from push_iteration_ok [OF less.prems False, of frames]
    consider (absorb) "absorbs m rest frames d (push_iteration rest frames d)"
      | (finish) "finishes m rest frames d (push_iteration rest frames d)"
      | (throw) n d' where "push_iteration rest frames d = Some (Throw (FrameLimit n m) d')"
          "state d' = Failed"
          "split_frames m (pending d @ rest) = Inl (FrameLimit n m)"
      by blast
    then show ?thesis
    proof cases
      case absorb
      then obtain rest' d' where c: "push_iteration rest frames d = Some (Continue rest' frames d')"
        "decoder_ok m d'" "pending d' @ rest' = pending d @ rest" "length rest' < length rest"
        using False unfolding absorbs_def by blast
      have "push_loop rest frames d = push_loop rest' frames d'"
        using c(1) False by (simp add: push_loop.simps [of rest])
      then show ?thesis
        using less.hyps [OF c(4,2), of frames] c(3) by (simp only:)
    next
      case finish
      then obtain rest' f d' where
        c: "push_iteration rest frames d = Some (Continue rest' (frames @ [f]) d')"
        "decoder_ok m d'" "pending d' = []" "length f \<le> m" "length rest' < length rest"
        "pending d @ rest = be_bytes 4 (length f) @ f @ rest'"
        unfolding finishes_def by blast
      have "split_frames m (pending d @ rest) = (case split_frames m rest' of
          Inl e \<Rightarrow> Inl e | Inr (fs, r) \<Rightarrow> Inr (f # fs, r))"
        unfolding c(6) using c(2,4) by (intro split_frames_frame) (auto simp: decoder_ok_def)
      then show ?thesis
        using less.hyps [OF c(5,2), of "frames @ [f]"] c(1,3) False
        by (auto simp: push_loop.simps [of rest] split: sum.splits)
    next
      case throw
      then show ?thesis using False by (simp add: push_loop.simps [of rest])
    qed
  qed
qed

lemma frame_push_refines:
  assumes "decoder_ok m d"
  shows "case split_frames m (pending d @ chunk) of
      Inl e \<Rightarrow> \<exists>d'. frame_push chunk d = Some (Inl e, d') \<and> state d' = Failed
    | Inr (fs, r) \<Rightarrow> \<exists>d'. frame_push chunk d = Some (Inr fs, d') \<and> decoder_ok m d' \<and> pending d' = r"
proof -
  have "frame_push chunk d = push_loop chunk [] d"
    using assms by (simp add: frame_push_def decoder_ok_def)
  then show ?thesis
    using push_loop_ok [OF assms, of chunk "[]"] by (simp only: append_Nil)
qed

interpretation fd: incremental_decoder frame_push "decoder_ok m" pending "split_frames m" for m
proof unfold_locales
  show "split_frames m (a @ b) = (case split_frames m (r @ b) of Inl e \<Rightarrow> Inl e
      | Inr (gs, r') \<Rightarrow> Inr (fs @ gs, r'))" if "split_frames m a = Inr (fs, r)" for a b fs r
    using that by (rule split_frames_resume)
  show "split_frames m (a @ b) = Inl e" if "split_frames m a = Inl e" for a b e
    using that by (rule split_frames_error)
  show "\<exists>fs r. split_frames m a = Inr (fs, r)" if "split_frames m (a @ b) = Inr x" for a b x
    using that split_frames_error [of m a _ b] by (cases "split_frames m a") auto
  show "\<exists>d'. frame_push c d = Some (Inr fs, d') \<and> decoder_ok m d' \<and> pending d' = r"
    if "decoder_ok m d" "split_frames m (pending d @ c) = Inr (fs, r)" for d c fs r
    using frame_push_refines [OF that(1), of c] that(2) by simp
  show "\<exists>d'. frame_push c d = Some (Inl e, d')"
    if "decoder_ok m d" "split_frames m (pending d @ c) = Inl e" for d c e
    using frame_push_refines [OF that(1), of c] that(2) by auto
qed

subsection \<open>Properties\<close>

lemma split_frames_stream:
  assumes "m < 2 ^ 32" "\<forall>f \<in> set fs. length f \<le> m"
  shows "split_frames m (concat (map (\<lambda>f. be_bytes 4 (length f) @ f) fs)) = Inr (fs, [])"
  using assms(2)
  by (induction fs) (simp_all add: split_frames_short split_frames_frame [OF _ assms(1)])

lemma resolve_bound: "resolveMaxFrameLength options = Inr m \<Longrightarrow> m < 2 ^ 32"
  by (auto simp: resolveMaxFrameLength_def MAX_UINT32_def Let_def split: if_splits option.splits)

lemma new_FrameDecoder_ok:
  assumes "new_FrameDecoder options = Inr d"
  shows "decoder_ok (maxFrameLength d) d" "pending d = []"
  using assms resolve_bound
  by (auto simp: new_FrameDecoder_def fresh_decoder_def decoder_ok_def pending_def
      FRAME_HEADER_LENGTH_def split: sum.splits)

lemma frame_end_iff:
  assumes "decoder_ok m d"
  shows "frame_end d = (if pending d = [] then (Inr (), d\<lparr>state := Ended\<rparr>) else (Inl TruncatedFrame, fail d))"
  using assms
  by (auto simp: frame_end_def decoder_ok_def pending_def split: option.splits)

text \<open>A stream of encoded frames is decoded to its payloads however the transport cuts it
  into chunks, with nothing held back at the end.\<close>

theorem frame_stream_roundtrip:
  assumes "new_FrameDecoder options = Inr d"
    and "\<forall>f \<in> set payloads. length f \<le> maxFrameLength d"
    and "map Inr frames = map encodeFrame payloads"
    and "concat chunks = concat frames"
  shows "\<exists>d'. push_all frame_push chunks d = Some (Inr payloads, d')
    \<and> frame_end d' = (Inr (), d'\<lparr>state := Ended\<rparr>)"
proof -
  let ?m = "maxFrameLength d"
  have ok: "decoder_ok ?m d" and p: "pending d = []" and m: "?m < 2 ^ 32"
    using new_FrameDecoder_ok [OF assms(1)] by (auto simp: decoder_ok_def)
  have "map Inr frames = map (Inr :: _ \<Rightarrow> frame_error + _) (map (\<lambda>f. be_bytes 4 (length f) @ f) payloads)"
    unfolding assms(3) using assms(2) m by (auto simp: encodeFrame_eq MAX_UINT32_def)
  then have "frames = map (\<lambda>f. be_bytes 4 (length f) @ f) payloads"
    by (rule map_injective) (auto intro: inj_onI)
  then have "split_frames ?m (pending d @ concat chunks) = Inr (payloads, [])"
    using split_frames_stream [OF m assms(2)] assms(4) p by simp
  then obtain d' where "push_all frame_push chunks d = Some (Inr payloads, d')"
    "decoder_ok ?m d'" "pending d' = []"
    using fd.push_all_ok [OF ok, of chunks payloads "[]"] p by (auto simp: split_frames_short)
  then show ?thesis using frame_end_iff by auto
qed

theorem frame_stream_roundtrip_witness:
  "\<exists>d'. push_all frame_push [[0, 0], [0, 2, 7], [9, 0, 0, 0, 0]] (fresh_decoder 16)
       = Some (Inr [[7, 9], []], d') \<and> frame_end d' = (Inr (), d'\<lparr>state := Ended\<rparr>)"
  by (rule frame_stream_roundtrip [where options = "Some (number_of_int 16)"
        and frames = "[[0, 0, 0, 2, 7, 9], [0, 0, 0, 0]]"])
    (simp_all add: new_FrameDecoder_def resolveMaxFrameLength_def number_of_int_safe MAX_UINT32_def
      encodeFrame_def ushr_def fresh_decoder_def)

text \<open>Property C27. Whatever bytes arrive, the frames returned or the error thrown do not depend on
  where the chunks are cut.\<close>

theorem frame_chunking_irrelevant:
  assumes "new_FrameDecoder options = Inr d" "concat chunks = concat chunks'"
  shows "map_option fst (push_all frame_push chunks d) = map_option fst (push_all frame_push chunks' d)"
  using fd.chunking_irrelevant [OF new_FrameDecoder_ok(1) [OF assms(1)] _ assms(2)]
    new_FrameDecoder_ok(2) [OF assms(1)] by (simp add: split_frames_short)

theorem frame_chunking_irrelevant_witness:
  "map_option fst (push_all frame_push [[0, 0, 0], [1, 5, 255], [255, 255, 255]] (fresh_decoder 16))
     = map_option fst (push_all frame_push [[0, 0, 0, 1, 5, 255, 255, 255, 255]] (fresh_decoder 16))"
  by (rule frame_chunking_irrelevant [where options = "Some (number_of_int 16)"])
    (simp_all add: new_FrameDecoder_def resolveMaxFrameLength_def number_of_int_safe MAX_UINT32_def)

text \<open>A push that throws on an open decoder leaves it failed, and a failed decoder refuses
  every later push and end and is not changed by them.\<close>

theorem frame_failure_is_final:
  assumes "decoder_ok m d" "frame_push c d = Some (Inl e, d')"
  shows "state d' = Failed \<and> frame_push c' d' = Some (Inl DecoderFailed, d')
    \<and> frame_end d' = (Inl DecoderFailed, d')"
proof -
  have "state d' = Failed"
    using frame_push_refines [OF assms(1), of c] assms(2) by (auto split: sum.splits)
  then show ?thesis by (simp add: frame_push_def frame_end_def)
qed

theorem frame_failure_is_final_witness:
  "\<exists>e d'. frame_push [0, 0, 0, 5] (fresh_decoder 4) = Some (Inl e, d') \<and> state d' = Failed
     \<and> frame_push [0] d' = Some (Inl DecoderFailed, d') \<and> frame_end d' = (Inl DecoderFailed, d')"
proof -
  have ok: "decoder_ok 4 (fresh_decoder 4)"
    by (simp add: decoder_ok_def fresh_decoder_def FRAME_HEADER_LENGTH_def)
  have "frame_push [0, 0, 0, 5] (fresh_decoder 4)
      = Some (Inl (FrameLimit 5 4), fail ((fresh_decoder 4)\<lparr>header := [0, 0, 0, 5]\<rparr>))"
    by (simp add: frame_push_def fresh_decoder_def push_loop.simps push_iteration_def
        FRAME_HEADER_LENGTH_def set_at_def header_value_def Let_def)
  then show ?thesis using frame_failure_is_final [OF ok, where c' = "[0]"] by blast
qed

lemma assertComplete_encoded:
  assumes "encodeFrame p = Inr frame" "resolveMaxFrameLength options = Inr m"
  shows "assertCompleteFrame frame options =
    (if length p \<le> m then Inr () else Inl (FrameLimit (length p) m))"
proof -
  have len: "length p \<le> MAX_UINT32" and frame: "frame = be_bytes 4 (length p) @ p"
    using assms(1) by (auto simp: encodeFrame_eq split: if_splits)
  have "header_value frame = header_value (be_bytes 4 (length p))"
    by (simp add: frame header_value_def nth_append)
  also have "\<dots> = length p"
    using len by (simp add: header_value_be_val be_val_header MAX_UINT32_def)
  finally show ?thesis
    using assms(2) by (simp add: assertCompleteFrame_def FRAME_HEADER_LENGTH_def frame)
qed

text \<open>What \<open>encodeFrame\<close> produces passes \<open>assertCompleteFrame\<close> exactly when the payload is
  within the limit; otherwise the limit is what is reported.\<close>

theorem assertCompleteFrame_encodeFrame:
  assumes "encodeFrame p = Inr frame" "resolveMaxFrameLength options = Inr m"
  shows "assertCompleteFrame frame options =
    (if length p \<le> m then Inr () else Inl (FrameLimit (length p) m))"
  using assms by (rule assertComplete_encoded)

theorem assertCompleteFrame_encodeFrame_witness:
  "assertCompleteFrame [0, 0, 0, 2, 7, 9] (Some (number_of_int 1)) = Inl (FrameLimit 2 1)"
  using assertCompleteFrame_encodeFrame [of "[7, 9]" "[0, 0, 0, 2, 7, 9]" "Some (number_of_int 1)" 1]
  by (simp add: encodeFrame_def ushr_def MAX_UINT32_def resolveMaxFrameLength_def number_of_int_safe)

end
