(* ===== verification/JsString.thy ===== *)
theory JsString
  imports Prelude
begin

text \<open>
  JavaScript strings, sequences of 16-bit code units, and the two standard-library coders the
  protocol package instantiates in \<^verbatim>\<open>cbor/options.ts\<close>: \<open>TextEncoder\<close> (UTF-8, every lone
  surrogate replaced by U+FFFD) and \<open>TextDecoder("utf-8", {fatal: true, ignoreBOM: true})\<close>
  (\<open>None\<close> where the decoder throws). The main fact is that decoding what was encoded gives the
  string back exactly when the string has no lone surrogate.
\<close>

type_synonym js_char = "16 word"
type_synonym js_string = "js_char list"

definition js :: "string \<Rightarrow> js_string" where
  "js s = map (\<lambda>c. word_of_nat (of_char c)) s"

lemma js_eq_iff: "js s = js t \<longleftrightarrow> s = t"
proof -
  have "inj (\<lambda>c :: char. word_of_nat (of_char c) :: js_char)"
  proof (rule injI)
    fix a b :: char
    assume "(word_of_nat (of_char a) :: js_char) = word_of_nat (of_char b)"
    then have "(of_char a :: nat) mod 65536 = of_char b mod 65536"
      by (simp add: word_of_nat_eq_iff take_bit_eq_mod)
    moreover have "(of_char a :: nat) < 256" "(of_char b :: nat) < 256" by simp_all
    ultimately show "a = b" by simp
  qed
  then show ?thesis unfolding js_def by (simp add: inj_map_eq_map)
qed

lemma js_eq_Nil [simp]: "js s = [] \<longleftrightarrow> s = []" "[] = js s \<longleftrightarrow> s = []"
  by (auto simp: js_def)

definition high_surrogate :: "js_char \<Rightarrow> bool" where
  "high_surrogate u \<longleftrightarrow> 0xD800 \<le> unat u \<and> unat u \<le> 0xDBFF"

definition low_surrogate :: "js_char \<Rightarrow> bool" where
  "low_surrogate u \<longleftrightarrow> 0xDC00 \<le> unat u \<and> unat u \<le> 0xDFFF"

text \<open>The scalar values of a string, lone surrogates replaced.\<close>

fun scalars :: "js_string \<Rightarrow> nat list" where
  "scalars [] = []"
| "scalars [u] = [if high_surrogate u \<or> low_surrogate u then 0xFFFD else unat u]"
| "scalars (u # v # us) =
     (if high_surrogate u then
        (if low_surrogate v
         then (0x10000 + (unat u - 0xD800) * 0x400 + (unat v - 0xDC00)) # scalars us
         else 0xFFFD # scalars (v # us))
      else (if low_surrogate u then 0xFFFD else unat u) # scalars (v # us))"

fun well_formed :: "js_string \<Rightarrow> bool" where
  "well_formed [] = True"
| "well_formed [u] = (\<not> high_surrogate u \<and> \<not> low_surrogate u)"
| "well_formed (u # v # us) =
     (if high_surrogate u then low_surrogate v \<and> well_formed us
      else \<not> low_surrogate u \<and> well_formed (v # us))"

definition scalar_utf16 :: "nat \<Rightarrow> js_string" where
  "scalar_utf16 c =
     (if c < 0x10000 then [word_of_nat c]
      else [word_of_nat (0xD800 + (c - 0x10000) div 0x400), word_of_nat (0xDC00 + c mod 0x400)])"

definition scalar_utf8 :: "nat \<Rightarrow> byte list" where
  "scalar_utf8 c =
     (if c < 0x80 then [u8 c]
      else if c < 0x800 then [u8 (0xC0 + c div 64), u8 (0x80 + c mod 64)]
      else if c < 0x10000 then
        [u8 (0xE0 + c div 4096), u8 (0x80 + c div 64 mod 64), u8 (0x80 + c mod 64)]
      else [u8 (0xF0 + c div 262144), u8 (0x80 + c div 4096 mod 64),
            u8 (0x80 + c div 64 mod 64), u8 (0x80 + c mod 64)])"

definition textEncoder_encode :: "js_string \<Rightarrow> byte list" where
  "textEncoder_encode s = concat (map scalar_utf8 (scalars s))"

definition in_range :: "nat \<Rightarrow> nat \<Rightarrow> byte \<Rightarrow> bool" where
  "in_range lo hi b \<longleftrightarrow> lo \<le> unat b \<and> unat b \<le> hi"

abbreviation continuation :: "byte \<Rightarrow> bool" where
  "continuation \<equiv> in_range 0x80 0xBF"

text \<open>The first continuation byte's range: it excludes overlong forms, surrogates and values
  beyond U+10FFFF.\<close>

definition second_ok :: "nat \<Rightarrow> byte \<Rightarrow> bool" where
  "second_ok b0 b1 =
     (if b0 = 0xE0 then in_range 0xA0 0xBF b1
      else if b0 = 0xED then in_range 0x80 0x9F b1
      else if b0 = 0xF0 then in_range 0x90 0xBF b1
      else if b0 = 0xF4 then in_range 0x80 0x8F b1
      else continuation b1)"

fun utf8_step :: "byte list \<Rightarrow> (nat \<times> byte list) option" where
  "utf8_step [] = None"
| "utf8_step (b # bs) =
     (let b0 = unat b in
      if b0 < 0x80 then Some (b0, bs)
      else if 0xC2 \<le> b0 \<and> b0 \<le> 0xDF then
        (case bs of
           b1 # r \<Rightarrow> if second_ok b0 b1 then Some ((b0 - 0xC0) * 64 + (unat b1 - 0x80), r) else None
         | _ \<Rightarrow> None)
      else if 0xE0 \<le> b0 \<and> b0 \<le> 0xEF then
        (case bs of
           b1 # b2 # r \<Rightarrow>
             if second_ok b0 b1 \<and> continuation b2
             then Some ((b0 - 0xE0) * 4096 + (unat b1 - 0x80) * 64 + (unat b2 - 0x80), r) else None
         | _ \<Rightarrow> None)
      else if 0xF0 \<le> b0 \<and> b0 \<le> 0xF4 then
        (case bs of
           b1 # b2 # b3 # r \<Rightarrow>
             if second_ok b0 b1 \<and> continuation b2 \<and> continuation b3
             then Some ((b0 - 0xF0) * 262144 + (unat b1 - 0x80) * 4096
                        + (unat b2 - 0x80) * 64 + (unat b3 - 0x80), r)
             else None
         | _ \<Rightarrow> None)
      else None)"

lemma utf8_step_shorter: "utf8_step bs = Some (c, r) \<Longrightarrow> length r < length bs"
  by (cases bs) (auto simp: Let_def split: if_splits list.splits)

function utf8_decode :: "byte list \<Rightarrow> nat list option" where
  "utf8_decode bs =
     (if bs = [] then Some []
      else case utf8_step bs of
        None \<Rightarrow> None
      | Some (c, r) \<Rightarrow> map_option ((#) c) (utf8_decode r))"
  by pat_completeness auto
termination
  by (relation "measure length") (auto dest: utf8_step_shorter)

declare utf8_decode.simps [simp del]

definition textDecoder_decode :: "byte list \<Rightarrow> js_string option" where
  "textDecoder_decode bs = map_option (\<lambda>cs. concat (map scalar_utf16 cs)) (utf8_decode bs)"

subsection \<open>Decoding what was encoded\<close>

definition scalar :: "nat \<Rightarrow> bool" where
  "scalar c \<longleftrightarrow> c < 0x110000 \<and> \<not> (0xD800 \<le> c \<and> c \<le> 0xDFFF)"

lemma unat_js_char_less: "unat (u :: js_char) < 0x10000"
  using unsigned_less [of u] by simp

lemma scalars_scalar: "c \<in> set (scalars s) \<Longrightarrow> scalar c"
proof (induction s rule: scalars.induct)
  case (2 u)
  then show ?case
    using unat_js_char_less [of u]
    by (auto simp: scalar_def high_surrogate_def low_surrogate_def split: if_splits)
next
  case (3 u v us)
  then show ?case
    using unat_js_char_less [of u]
    by (auto simp: scalar_def high_surrogate_def low_surrogate_def split: if_splits)
qed simp

lemma unat_u8_small: "n < 256 \<Longrightarrow> unat (u8 n) = n"
  by simp

lemma utf8_step_2:
  assumes "2 \<le> a" "a < 32" "b < 64"
  shows "utf8_step (u8 (0xC0 + a) # u8 (0x80 + b) # r) = Some (a * 64 + b, r)"
proof -
  have "unat (u8 (0xC0 + a)) = 0xC0 + a" "unat (u8 (0x80 + b)) = 0x80 + b"
    using assms by (simp_all only: unat_u8_small)
  then show ?thesis
    using assms by (simp add: second_ok_def in_range_def Let_def del: unat_u8 of_nat_add of_nat_numeral)
qed

lemma utf8_step_3:
  assumes "a < 16" "b < 64" "d < 64" "a = 0 \<longrightarrow> 32 \<le> b" "a = 13 \<longrightarrow> b \<le> 31"
  shows "utf8_step (u8 (0xE0 + a) # u8 (0x80 + b) # u8 (0x80 + d) # r)
           = Some (a * 4096 + b * 64 + d, r)"
proof -
  have "unat (u8 (0xE0 + a)) = 0xE0 + a" "unat (u8 (0x80 + b)) = 0x80 + b"
    "unat (u8 (0x80 + d)) = 0x80 + d"
    using assms by (simp_all only: unat_u8_small)
  then show ?thesis
    using assms by (simp add: second_ok_def in_range_def Let_def del: unat_u8 of_nat_add of_nat_numeral)
qed

lemma utf8_step_4:
  assumes "a \<le> 4" "b < 64" "d < 64" "f < 64" "a = 0 \<longrightarrow> 16 \<le> b" "a = 4 \<longrightarrow> b \<le> 15"
  shows "utf8_step (u8 (0xF0 + a) # u8 (0x80 + b) # u8 (0x80 + d) # u8 (0x80 + f) # r)
           = Some (a * 262144 + b * 4096 + d * 64 + f, r)"
proof -
  have "unat (u8 (0xF0 + a)) = 0xF0 + a" "unat (u8 (0x80 + b)) = 0x80 + b"
    "unat (u8 (0x80 + d)) = 0x80 + d" "unat (u8 (0x80 + f)) = 0x80 + f"
    using assms by (simp_all only: unat_u8_small)
  then show ?thesis
    using assms by (simp add: second_ok_def in_range_def Let_def del: unat_u8 of_nat_add of_nat_numeral)
qed

lemma sextets_3: "c = c div 4096 * 4096 + c div 64 mod 64 * 64 + c mod (64 :: nat)"
proof -
  have "c div 64 = c div 4096 * 64 + c div 64 mod 64"
    using div_mult2_eq [of c 64 64] by simp
  then have "c div 64 * 64 = (c div 4096 * 64 + c div 64 mod 64) * 64" by simp
  then show ?thesis using div_mult_mod_eq [of c 64] by (simp add: algebra_simps)
qed

lemma sextets_4:
  "c = c div 262144 * 262144 + c div 4096 mod 64 * 4096 + c div 64 mod 64 * 64 + c mod (64 :: nat)"
proof -
  have "c div 4096 = c div 262144 * 64 + c div 4096 mod 64"
    using div_mult2_eq [of c 4096 64] by simp
  then have "c div 4096 * 4096 = (c div 262144 * 64 + c div 4096 mod 64) * 4096" by simp
  then show ?thesis using sextets_3 [of c] by (simp add: algebra_simps)
qed

lemma utf8_step_scalar:
  assumes "scalar c"
  shows "utf8_step (scalar_utf8 c @ r) = Some (c, r)"
proof -
  consider "c < 0x80" | "0x80 \<le> c" "c < 0x800" | "0x800 \<le> c" "c < 0x10000"
    | "0x10000 \<le> c" "c < 0x110000"
    using assms unfolding scalar_def by linarith
  then show ?thesis
  proof cases
    case 1
    then show ?thesis by (simp add: scalar_utf8_def)
  next
    case 2
    have "c div 64 * 64 + c mod 64 = c" by simp
    with 2 show ?thesis
      using utf8_step_2 [of "c div 64" "c mod 64" r]
      by (simp add: scalar_utf8_def div_le_mono less_mult_imp_div_less del: utf8_step.simps unat_u8 of_nat_add)
  next
    case 3
    have eq: "c = c div 4096 * 4096 + c div 64 mod 64 * 64 + c mod 64" by (rule sextets_3)
    have "c div 4096 < 16" using 3 by (simp add: less_mult_imp_div_less)
    moreover have "c div 4096 = 0 \<longrightarrow> 32 \<le> c div 64 mod 64"
      using 3 eq mod_less_divisor [of 64 c] by (intro impI) linarith
    moreover have "c div 4096 = 13 \<longrightarrow> c div 64 mod 64 \<le> 31"
      using assms eq mod_less_divisor [of 64 c] mod_less_divisor [of 64 "c div 64"]
      unfolding scalar_def by (intro impI) linarith
    ultimately show ?thesis
      using 3 utf8_step_3 [of "c div 4096" "c div 64 mod 64" "c mod 64" r] eq
      by (simp add: scalar_utf8_def del: utf8_step.simps unat_u8 of_nat_add)
  next
    case 4
    have eq: "c = c div 262144 * 262144 + c div 4096 mod 64 * 4096 + c div 64 mod 64 * 64 + c mod 64"
      by (rule sextets_4)
    note b = mod_less_divisor [of 64 c] mod_less_divisor [of 64 "c div 64"]
      mod_less_divisor [of 64 "c div 4096"]
    have "c div 262144 \<le> 4" using 4 eq b by linarith
    moreover have "c div 262144 = 0 \<longrightarrow> 16 \<le> c div 4096 mod 64"
      using 4 eq b by (intro impI) linarith
    moreover have "c div 262144 = 4 \<longrightarrow> c div 4096 mod 64 \<le> 15"
      using 4 eq b by (intro impI) linarith
    ultimately show ?thesis
      using 4 utf8_step_4 [of "c div 262144" "c div 4096 mod 64" "c div 64 mod 64" "c mod 64" r] eq
      by (simp add: scalar_utf8_def del: utf8_step.simps unat_u8 of_nat_add)
  qed
qed

lemma scalar_utf8_nonempty [simp]: "scalar_utf8 c \<noteq> []"
  by (simp add: scalar_utf8_def)

lemma utf8_decode_encode:
  "(\<And>c. c \<in> set cs \<Longrightarrow> scalar c) \<Longrightarrow> utf8_decode (concat (map scalar_utf8 cs)) = Some cs"
proof (induction cs)
  case Nil
  then show ?case by (simp add: utf8_decode.simps)
next
  case (Cons c cs)
  then show ?case
    by (subst utf8_decode.simps) (simp add: utf8_step_scalar)
qed

lemma scalar_utf16_pair:
  assumes "high_surrogate u" "low_surrogate v"
  shows "scalar_utf16 (0x10000 + (unat u - 0xD800) * 0x400 + (unat v - 0xDC00)) = [u, v]"
proof -
  obtain a b where a: "unat u = 0xD800 + a" and b: "unat v = 0xDC00 + b"
    using assms le_Suc_ex unfolding high_surrogate_def low_surrogate_def by blast
  have lt: "a < 0x400" "b < 0x400"
    using assms a b unfolding high_surrogate_def low_surrogate_def by linarith+
  have "(a * 0x400 + b) div 0x400 = a" using lt by simp
  moreover have "(0x10000 + a * 0x400 + b) mod 0x400 = b"
  proof -
    have "0x10000 + a * 0x400 + b = (0x40 + a) * 0x400 + b" by simp
    then show ?thesis using lt by (simp only: mod_mult_self3 mod_less)
  qed
  moreover have "word_of_nat (0xD800 + a) = u" "word_of_nat (0xDC00 + b) = v"
    by (simp_all only: flip: a b) simp_all
  ultimately show ?thesis
    unfolding a b scalar_utf16_def by (simp add: add.assoc del: of_nat_add)
qed

lemma well_formed_scalars:
  "well_formed s \<longleftrightarrow> concat (map scalar_utf16 (scalars s)) = s"
proof (induction s rule: scalars.induct)
  case (2 u)
  then show ?case
    using unat_js_char_less [of u]
    by (auto simp: scalar_utf16_def high_surrogate_def low_surrogate_def)
next
  case (3 u v us)
  show ?case
  proof (cases "high_surrogate u \<and> low_surrogate v")
    case True
    with 3 show ?thesis by (simp add: scalar_utf16_pair)
  next
    case False
    have "0xFFFD \<noteq> u" if "high_surrogate u \<or> low_surrogate u"
      using that by (auto simp: high_surrogate_def low_surrogate_def)
    with False 3 show ?thesis
      using unat_js_char_less [of u]
      by (auto simp: scalar_utf16_def)
  qed
qed simp

lemma decode_encode_iff:
  "textDecoder_decode (textEncoder_encode s) = Some s \<longleftrightarrow> well_formed s"
proof -
  have "utf8_decode (textEncoder_encode s) = Some (scalars s)"
    unfolding textEncoder_encode_def by (rule utf8_decode_encode) (rule scalars_scalar)
  then show ?thesis
    by (simp add: textDecoder_decode_def well_formed_scalars)
qed

end
