(* ===== verification/Cbor.thy ===== *)
theory Cbor
  imports Prelude JsNumber JsString "HOL-Library.While_Combinator"
begin

text \<open>
  \<^verbatim>\<open>packages/protocol/src/cbor\<close>: the strict, definite-length CBOR subset of the wire protocol.
  JavaScript values are trees: object identity, and with it the encoder's cycle check, has no
  counterpart (a finite tree has no cycle). An object is the list of its own enumerable string
  properties in the order of \<open>Object.keys\<close>, with two flags: whether its prototype is \<open>null\<close> (otherwise it
  is \<open>Object.prototype\<close>) and whether it has an enumerable symbol property; \<open>JOther\<close> stands for every value the encoder does not support.
  A hole of an array reads as \<open>JUndefined\<close>.
  The writer keeps its buffer and offset as the code does; the reader's array and offset are the
  bytes still to be read.
\<close>

unbundle bit_operations_syntax

datatype object_flags = ObjectFlags (nullPrototype: bool) (symbolKeys: bool)

abbreviation plain_object :: object_flags where
  "plain_object \<equiv> ObjectFlags False False"

datatype js_value =
    JUndefined
  | JNull
  | JBool bool
  | JNumber js_number
  | JString js_string
  | JBytes "byte list"
  | JArray "js_value list"
  | JObject object_flags "(js_string \<times> js_value) list"
  | JOther

datatype cbor_kind = KByteString | KTextString | KArray | KMap

datatype cbor_error =
    OptionOutOfRange
  | InputTooLong
  | WriterLimit nat
  | LengthLimit cbor_kind nat
  | DepthLimit nat
  | InvalidUnicode
  | NotFinite
  | UnsafeInteger
  | HolesOrUndefined
  | SymbolKey
  | UnsupportedType
  | TrailingData
  | Truncated
  | InvalidUtf8
  | KeyNotString
  | DuplicateKey
  | TagNotSupported
  | BreakNotSupported
  | UnsupportedSimple
  | IndefiniteLength "cbor_kind option"
  | MalformedInformation

subsection \<open>Options\<close>

definition UINT32_BASE :: nat where "UINT32_BASE = 0x100000000"
definition CBOR_MAX_UINT32 :: nat where "CBOR_MAX_UINT32 = 0xffffffff"
definition MAX_CONFIGURED_DEPTH :: nat where "MAX_CONFIGURED_DEPTH = 512"
definition DEFAULT_MAX_CBOR_BYTE_LENGTH :: nat where "DEFAULT_MAX_CBOR_BYTE_LENGTH = 16 * 1024 * 1024"
definition DEFAULT_MAX_CBOR_CONTAINER_LENGTH :: nat where
  "DEFAULT_MAX_CBOR_CONTAINER_LENGTH = 1000000"
definition DEFAULT_MAX_CBOR_DEPTH :: nat where "DEFAULT_MAX_CBOR_DEPTH = 64"

record cbor_options =
  maxByteLength :: "js_number option"
  maxContainerLength :: "js_number option"
  maxDepth :: "js_number option"

record resolved_options =
  rMaxByteLength :: nat
  rMaxContainerLength :: nat
  rMaxDepth :: nat

definition resolveLimit :: "js_number option \<Rightarrow> nat \<Rightarrow> nat \<Rightarrow> cbor_error + nat" where
  "resolveLimit given preset maximum =
     (let value = (case given of None \<Rightarrow> number_of_int (int preset) | Some v \<Rightarrow> v)
      in if \<not> isSafeInteger value \<or> intValue value < 0 \<or> int maximum < intValue value
         then Inl OptionOutOfRange else Inr (nat (intValue value)))"

definition resolveOptions :: "cbor_options \<Rightarrow> cbor_error + resolved_options" where
  "resolveOptions options =
     and_then (resolveLimit (maxByteLength options) DEFAULT_MAX_CBOR_BYTE_LENGTH CBOR_MAX_UINT32) (\<lambda>b.
     and_then (resolveLimit (maxContainerLength options) DEFAULT_MAX_CBOR_CONTAINER_LENGTH CBOR_MAX_UINT32) (\<lambda>c.
     and_then (resolveLimit (maxDepth options) DEFAULT_MAX_CBOR_DEPTH MAX_CONFIGURED_DEPTH) (\<lambda>d.
     Inr \<lparr>rMaxByteLength = b, rMaxContainerLength = c, rMaxDepth = d\<rparr>)))"

subsection \<open>The writer\<close>

record cbor_writer =
  buffer :: "byte list"
  offset :: nat
  limit :: nat

definition new_CborWriter :: "nat \<Rightarrow> cbor_writer" where
  "new_CborWriter m = \<lparr>buffer = replicate (min 256 m) 0, offset = 0, limit = m\<rparr>"

definition grown_capacity :: "nat \<Rightarrow> nat \<Rightarrow> nat \<Rightarrow> nat" where
  "grown_capacity m required capacity =
     while (\<lambda>c. c < required) (\<lambda>c. min m (max required (c * 2))) (max 1 capacity)"

definition ensureCapacity :: "nat \<Rightarrow> cbor_writer \<Rightarrow> cbor_error + cbor_writer" where
  "ensureCapacity additional w =
     (let required = offset w + additional in
      if required > limit w then Inl (WriterLimit (limit w))
      else if required \<le> length (buffer w) then Inr w
      else let capacity = grown_capacity (limit w) required (length (buffer w))
           in Inr (w\<lparr>buffer := set_at (replicate capacity 0) (buffer w) 0\<rparr>))"

definition writeByte :: "nat \<Rightarrow> cbor_writer \<Rightarrow> cbor_error + cbor_writer" where
  "writeByte value w =
     and_then (ensureCapacity 1 w) (\<lambda>w.
     Inr (w\<lparr>buffer := (buffer w)[offset w := u8 value], offset := offset w + 1\<rparr>))"

definition writeBytes :: "byte list \<Rightarrow> cbor_writer \<Rightarrow> cbor_error + cbor_writer" where
  "writeBytes bytes w =
     and_then (ensureCapacity (length bytes) w) (\<lambda>w.
     Inr (w\<lparr>buffer := set_at (buffer w) bytes (offset w), offset := offset w + length bytes\<rparr>))"

definition writeUint16 :: "nat \<Rightarrow> cbor_writer \<Rightarrow> cbor_error + cbor_writer" where
  "writeUint16 value w =
     and_then (ensureCapacity 2 w) (\<lambda>w.
     Inr (w\<lparr>buffer := (buffer w)[offset w := u8 (ushr value 8), offset w + 1 := u8 value],
            offset := offset w + 2\<rparr>))"

definition writeUint32 :: "nat \<Rightarrow> cbor_writer \<Rightarrow> cbor_error + cbor_writer" where
  "writeUint32 value w =
     and_then (ensureCapacity 4 w) (\<lambda>w.
     Inr (w\<lparr>buffer := (buffer w)[offset w := u8 (ushr value 24), offset w + 1 := u8 (ushr value 16),
              offset w + 2 := u8 (ushr value 8), offset w + 3 := u8 value],
            offset := offset w + 4\<rparr>))"

definition writeUint64 :: "nat \<Rightarrow> cbor_writer \<Rightarrow> cbor_error + cbor_writer" where
  "writeUint64 value w =
     (let high = value div UINT32_BASE; low = value - high * UINT32_BASE
      in and_then (writeUint32 high w) (writeUint32 low))"

definition writeFloat64 :: "js_number \<Rightarrow> cbor_writer \<Rightarrow> cbor_error + cbor_writer" where
  "writeFloat64 value w =
     and_then (ensureCapacity 9 w) (\<lambda>w.
     Inr (w\<lparr>buffer := set_at ((buffer w)[offset w := 0xfb]) (setFloat64 value) (offset w + 1),
            offset := offset w + 9\<rparr>))"

definition finish :: "cbor_writer \<Rightarrow> byte list" where
  "finish w = take (offset w) (buffer w)"

subsection \<open>The encoder\<close>

definition writeArgument :: "nat \<Rightarrow> nat \<Rightarrow> cbor_writer \<Rightarrow> cbor_error + cbor_writer" where
  "writeArgument majorType value w =
     (let prefix = push_bit 5 majorType in
      if value < 24 then writeByte (prefix OR value) w
      else if value \<le> 0xff then and_then (writeByte (prefix OR 24) w) (writeByte value)
      else if value \<le> 0xffff then and_then (writeByte (prefix OR 25) w) (writeUint16 value)
      else if value \<le> CBOR_MAX_UINT32 then and_then (writeByte (prefix OR 26) w) (writeUint32 value)
      else and_then (writeByte (prefix OR 27) w) (writeUint64 value))"

definition encodeText :: "resolved_options \<Rightarrow> js_string \<Rightarrow> cbor_writer \<Rightarrow> cbor_error + cbor_writer" where
  "encodeText options value w =
     (let bytes = textEncoder_encode value in
      if length bytes > rMaxByteLength options then Inl (LengthLimit KTextString (rMaxByteLength options))
      else if textDecoder_decode bytes \<noteq> Some value then Inl InvalidUnicode
      else and_then (writeArgument 3 (length bytes) w) (writeBytes bytes))"

definition encodeNumber :: "js_number \<Rightarrow> cbor_writer \<Rightarrow> cbor_error + cbor_writer" where
  "encodeNumber value w =
     (if \<not> isFinite value then Inl NotFinite
      else if isInteger value \<and> \<not> is_neg_zero value then
        if \<not> isSafeInteger value then Inl UnsafeInteger
        else if 0 \<le> intValue value then writeArgument 0 (nat (intValue value)) w
        else writeArgument 1 (nat (- 1 - intValue value)) w
      else writeFloat64 value w)"

definition defined_entries :: "(js_string \<times> js_value) list \<Rightarrow> (js_string \<times> js_value) list" where
  "defined_entries es = filter (\<lambda>e. snd e \<noteq> JUndefined) es"

lemma size_entry [termination_simp]:
  "(k, v) \<in> set (defined_entries es) \<Longrightarrow> size v \<le> size_list (\<lambda>x. Suc (size (snd x))) es"
  by (induction es) (auto simp: defined_entries_def split: if_splits)

fun encodeValue ::
  "resolved_options \<Rightarrow> nat \<Rightarrow> js_value \<Rightarrow> cbor_writer \<Rightarrow> cbor_error + cbor_writer" where
  "encodeValue options depth value w =
     (if depth > rMaxDepth options then Inl (DepthLimit (rMaxDepth options))
      else case value of
        JNull \<Rightarrow> writeByte 0xf6 w
      | JBool b \<Rightarrow> writeByte (if b then 0xf5 else 0xf4) w
      | JNumber n \<Rightarrow> encodeNumber n w
      | JString s \<Rightarrow> encodeText options s w
      | JBytes bs \<Rightarrow>
          if length bs > rMaxByteLength options
          then Inl (LengthLimit KByteString (rMaxByteLength options))
          else and_then (writeArgument 2 (length bs) w) (writeBytes bs)
      | JArray vs \<Rightarrow>
          if length vs > rMaxContainerLength options
          then Inl (LengthLimit KArray (rMaxContainerLength options))
          else and_then (writeArgument 4 (length vs) w)
            (for_each (\<lambda>v w. if v = JUndefined then Inl HolesOrUndefined
                             else encodeValue options (depth + 1) v w) vs)
      | JObject flags es \<Rightarrow>
          if symbolKeys flags then Inl SymbolKey
          else let entries = defined_entries es in
            if length entries > rMaxContainerLength options
            then Inl (LengthLimit KMap (rMaxContainerLength options))
            else and_then (writeArgument 5 (length entries) w)
              (for_each (\<lambda>(k, v) w. and_then (encodeText options k w)
                                      (encodeValue options (depth + 1) v)) entries)
      | _ \<Rightarrow> Inl UnsupportedType)"

declare encodeValue.simps [simp del]

definition encodeCbor :: "cbor_options \<Rightarrow> js_value \<Rightarrow> cbor_error + byte list" where
  "encodeCbor options value =
     and_then (resolveOptions options) (\<lambda>resolved.
     and_then (encodeValue resolved 0 value (new_CborWriter (rMaxByteLength resolved))) (\<lambda>w.
     Inr (finish w)))"

subsection \<open>The reader\<close>

text \<open>Own properties in the order of \<open>Object.keys\<close>: array indices first, ascending, then the other
  keys in the order of their creation.\<close>

definition digit :: "js_char \<Rightarrow> nat option" where
  "digit c = (if 48 \<le> unat c \<and> unat c \<le> 57 then Some (unat c - 48) else None)"

fun digits_value :: "nat \<Rightarrow> js_string \<Rightarrow> nat option" where
  "digits_value n [] = Some n"
| "digits_value n (c # cs) = (case digit c of None \<Rightarrow> None | Some d \<Rightarrow> digits_value (n * 10 + d) cs)"

definition array_index :: "js_string \<Rightarrow> nat option" where
  "array_index k =
     (if k = [] \<or> (digit (hd k) = Some 0 \<and> length k > 1) then None
      else case digits_value 0 k of
        None \<Rightarrow> None
      | Some n \<Rightarrow> if n < 2 ^ 32 - 1 then Some n else None)"

definition key_before :: "js_string \<Rightarrow> js_string \<Rightarrow> bool" where
  "key_before a b =
     (case array_index b of
        None \<Rightarrow> True
      | Some n \<Rightarrow> (case array_index a of None \<Rightarrow> False | Some k \<Rightarrow> k < n))"

definition define_property ::
  "js_string \<Rightarrow> js_value \<Rightarrow> (js_string \<times> js_value) list \<Rightarrow> (js_string \<times> js_value) list" where
  "define_property k v es =
     takeWhile (\<lambda>e. key_before (fst e) k) es @ (k, v) # dropWhile (\<lambda>e. key_before (fst e) k) es"

type_synonym 'a reading = "cbor_error + 'a \<times> byte list"

definition readByte :: "byte list \<Rightarrow> nat reading" where
  "readByte bs = (case bs of [] \<Rightarrow> Inl Truncated | b # r \<Rightarrow> Inr (unat b, r))"

definition readBytes :: "nat \<Rightarrow> byte list \<Rightarrow> byte list reading" where
  "readBytes n bs = (if n > length bs then Inl Truncated else Inr (take n bs, drop n bs))"

definition readArgument26 :: "byte list \<Rightarrow> nat reading" where
  "readArgument26 bs =
     and_then (readBytes 4 bs) (\<lambda>(b, r).
     Inr (unat (b ! 0) * 0x1000000 + unat (b ! 1) * 0x10000 + unat (b ! 2) * 0x100 + unat (b ! 3), r))"

definition readArgument :: "nat \<Rightarrow> byte list \<Rightarrow> nat reading" where
  "readArgument info bs =
     (if info < 24 then Inr (info, bs)
      else if info = 24 then readByte bs
      else if info = 25 then
        and_then (readBytes 2 bs) (\<lambda>(b, r). Inr (unat (b ! 0) * 0x100 + unat (b ! 1), r))
      else if info = 26 then readArgument26 bs
      else if info = 27 then
        and_then (readArgument26 bs) (\<lambda>(high, r).
        and_then (readArgument26 r) (\<lambda>(low, r').
        if high > 0x1fffff then Inl UnsafeInteger else Inr (high * UINT32_BASE + low, r')))
      else if info = 31 then Inl (IndefiniteLength None)
      else Inl MalformedInformation)"

definition readLength :: "nat \<Rightarrow> cbor_kind \<Rightarrow> nat \<Rightarrow> byte list \<Rightarrow> nat reading" where
  "readLength info kind max_len bs =
     (if info = 31 then Inl (IndefiniteLength (Some kind))
      else and_then (readArgument info bs) (\<lambda>(len, r).
        if len > max_len then Inl (LengthLimit kind max_len) else Inr (len, r)))"

definition readSimple :: "nat \<Rightarrow> byte list \<Rightarrow> js_value reading" where
  "readSimple info bs =
     (if info = 20 then Inr (JBool False, bs)
      else if info = 21 then Inr (JBool True, bs)
      else if info = 22 then Inr (JNull, bs)
      else if info = 27 then
        and_then (readBytes 8 bs) (\<lambda>(b, r).
          let value = getFloat64 b in
          if \<not> isFinite value then Inl NotFinite
          else if isInteger value \<and> \<not> isSafeInteger value then Inl UnsafeInteger
          else Inr (JNumber value, r))
      else if info = 31 then Inl BreakNotSupported
      else Inl UnsupportedSimple)"

fun read_elements :: "(byte list \<Rightarrow> js_value reading) \<Rightarrow> nat \<Rightarrow> byte list \<Rightarrow> js_value list reading" where
  "read_elements item 0 bs = Inr ([], bs)"
| "read_elements item (Suc n) bs =
     and_then (item bs) (\<lambda>(v, r).
     and_then (read_elements item n r) (\<lambda>(vs, r'). Inr (v # vs, r')))"

fun read_entries ::
  "(byte list \<Rightarrow> js_value reading) \<Rightarrow> nat \<Rightarrow> js_string list \<Rightarrow> (js_string \<times> js_value) list \<Rightarrow> byte list
     \<Rightarrow> (js_string \<times> js_value) list reading" where
  "read_entries item 0 keys es bs = Inr (es, bs)"
| "read_entries item (Suc n) keys es bs =
     and_then (item bs) (\<lambda>(kv, r).
     case kv of
       JString key \<Rightarrow>
         if key \<in> set keys then Inl DuplicateKey
         else and_then (item r) (\<lambda>(v, r').
           read_entries item n (key # keys) (define_property key v es) r')
     | _ \<Rightarrow> Inl KeyNotString)"

text \<open>The switch of \<open>readItem\<close> on the major type, over the reader of the next level.\<close>

definition read_major ::
  "resolved_options \<Rightarrow> (byte list \<Rightarrow> js_value reading) \<Rightarrow> nat \<Rightarrow> nat \<Rightarrow> byte list \<Rightarrow> js_value reading" where
  "read_major options item majorType info r =
     (if majorType = 0 then
        and_then (readArgument info r) (\<lambda>(n, r'). Inr (JNumber (number_of_int (int n)), r'))
      else if majorType = 1 then
        and_then (readArgument info r) (\<lambda>(n, r').
          if \<bar>- 1 - int n\<bar> < 2 ^ 53 then Inr (JNumber (number_of_int (- 1 - int n)), r')
          else Inl UnsafeInteger)
      else if majorType = 2 then
        and_then (readLength info KByteString (rMaxByteLength options) r) (\<lambda>(len, r').
        and_then (readBytes len r') (\<lambda>(b, r''). Inr (JBytes b, r'')))
      else if majorType = 3 then
        and_then (readLength info KTextString (rMaxByteLength options) r) (\<lambda>(len, r').
        and_then (readBytes len r') (\<lambda>(b, r'').
          case textDecoder_decode b of None \<Rightarrow> Inl InvalidUtf8 | Some s \<Rightarrow> Inr (JString s, r'')))
      else if majorType = 4 then
        and_then (readLength info KArray (rMaxContainerLength options) r) (\<lambda>(len, r').
        and_then (read_elements item len r') (\<lambda>(vs, r''). Inr (JArray vs, r'')))
      else if majorType = 5 then
        and_then (readLength info KMap (rMaxContainerLength options) r) (\<lambda>(len, r').
        and_then (read_entries item len [] [] r') (\<lambda>(es, r''). Inr (JObject plain_object es, r'')))
      else if majorType = 6 then Inl TagNotSupported
      else readSimple info r)"

text \<open>\<open>readItem\<close> at depth \<open>depth\<close> recurses at \<open>depth + 1\<close> and throws beyond \<open>maxDepth\<close>: the recursion is
  on the number of levels left, \<open>maxDepth + 1 - depth\<close>.\<close>

fun read_level :: "resolved_options \<Rightarrow> nat \<Rightarrow> byte list \<Rightarrow> js_value reading" where
  "read_level options 0 bs = Inl (DepthLimit (rMaxDepth options))"
| "read_level options (Suc levels) bs =
     and_then (readByte bs) (\<lambda>(initial, r).
       read_major options (read_level options levels) (ushr initial 5) (initial AND 0x1f) r)"

definition readItem :: "resolved_options \<Rightarrow> nat \<Rightarrow> byte list \<Rightarrow> js_value reading" where
  "readItem options depth bs = read_level options (rMaxDepth options + 1 - depth) bs"

definition decodeCbor :: "cbor_options \<Rightarrow> byte list \<Rightarrow> cbor_error + js_value" where
  "decodeCbor options bytes =
     and_then (resolveOptions options) (\<lambda>resolved.
     if length bytes > rMaxByteLength resolved then Inl InputTooLong
     else and_then (readItem resolved 0 bytes) (\<lambda>(value, r).
       if r \<noteq> [] then Inl TrailingData else Inr value))"

end
