(* ===== verification/CborEncoding.thy ===== *)
theory CborEncoding
  imports Cbor
begin

text \<open>
  The encoder of \<^verbatim>\<open>packages/protocol/src/cbor/encoder.ts\<close> against its specification. The growing
  buffer of \<open>CborWriter\<close> implements a bounded byte sink (locale \<open>byte_sink\<close>); \<open>cbor_item\<close> is the byte
  sequence that RFC 8949 gives a value in shortest form, and \<open>encodable\<close> says which values the limits
  and the value checks admit. \<open>encodeValue\<close> writes exactly \<open>cbor_item v\<close> when \<open>encodable\<close> holds and
  there is room, and throws otherwise.
\<close>

subsection \<open>Bounded byte sinks\<close>

locale byte_sink =
  fixes ok :: "'w \<Rightarrow> bool"
    and content :: "'w \<Rightarrow> byte list"
    and cap :: "'w \<Rightarrow> nat"
    and full :: "nat \<Rightarrow> 'e"
    and append :: "byte list \<Rightarrow> 'w \<Rightarrow> 'e + 'w"
  assumes content_cap: "ok w \<Longrightarrow> length (content w) \<le> cap w"
    and append_fits: "ok w \<Longrightarrow> length (content w) + length bs \<le> cap w \<Longrightarrow>
      \<exists>w'. append bs w = Inr w' \<and> ok w' \<and> cap w' = cap w \<and> content w' = content w @ bs"
    and append_full: "ok w \<Longrightarrow> cap w < length (content w) + length bs \<Longrightarrow>
      append bs w = Inl (full (cap w))"
begin

text \<open>A computation that behaves as one append.\<close>

definition emits :: "('w \<Rightarrow> 'e + 'w) \<Rightarrow> byte list \<Rightarrow> bool" where
  "emits f bs \<longleftrightarrow> (\<forall>w. ok w \<longrightarrow>
     (if length (content w) + length bs \<le> cap w
      then \<exists>w'. f w = Inr w' \<and> ok w' \<and> cap w' = cap w \<and> content w' = content w @ bs
      else f w = Inl (full (cap w))))"

text \<open>A computation that throws whatever the sink.\<close>

definition throws :: "('w \<Rightarrow> 'e + 'w) \<Rightarrow> bool" where
  "throws f \<longleftrightarrow> (\<forall>w. ok w \<longrightarrow> (\<exists>e. f w = Inl e))"

lemma emits_append: "emits (append bs) bs"
  unfolding emits_def using append_fits append_full by force

lemma emits_same: "(\<And>w. ok w \<Longrightarrow> f w = append bs w) \<Longrightarrow> emits f bs"
  using emits_append unfolding emits_def by auto

lemma emitsD:
  assumes "emits f bs" "ok w"
  shows "(\<exists>w'. f w = Inr w' \<and> ok w' \<and> cap w' = cap w \<and> content w' = content w @ bs
           \<and> length (content w) + length bs \<le> cap w)
    \<or> (f w = Inl (full (cap w)) \<and> cap w < length (content w) + length bs)"
  using assms unfolding emits_def by (auto simp: not_le split: if_splits)

lemma emits_then:
  assumes "emits f as" "emits g bs"
  shows "emits (\<lambda>w. and_then (f w) g) (as @ bs)"
  unfolding emits_def
proof (intro allI impI)
  fix w assume ok: "ok w"
  show "if length (content w) + length (as @ bs) \<le> cap w
    then \<exists>w'. and_then (f w) g = Inr w' \<and> ok w' \<and> cap w' = cap w \<and> content w' = content w @ as @ bs
    else and_then (f w) g = Inl (full (cap w))"
    using emitsD [OF assms(1) ok]
  proof (elim disjE exE conjE)
    fix w1 assume w1: "f w = Inr w1" "ok w1" "cap w1 = cap w" "content w1 = content w @ as"
    show ?thesis using emitsD [OF assms(2) w1(2)] w1 by auto
  qed auto
qed

lemma emits_skip: "emits (\<lambda>w. Inr w) []"
  unfolding emits_def using content_cap by auto

lemma throws_then_left: "throws f \<Longrightarrow> throws (\<lambda>w. and_then (f w) g)"
  unfolding throws_def by fastforce

lemma throws_then_right:
  assumes "emits f as" "throws g"
  shows "throws (\<lambda>w. and_then (f w) g)"
  unfolding throws_def
proof (intro allI impI)
  fix w assume ok: "ok w"
  show "\<exists>e. and_then (f w) g = Inl e"
    using emitsD [OF assms(1) ok] assms(2) unfolding throws_def by auto
qed

lemma emits_for_each:
  assumes "\<And>x. x \<in> set xs \<Longrightarrow> emits (f x) (g x)"
  shows "emits (for_each f xs) (concat (map g xs))"
  using assms
proof (induction xs)
  case Nil
  have "for_each f [] = (\<lambda>w. Inr w)" by (rule ext) simp
  then show ?case using emits_skip by simp
next
  case (Cons x xs)
  have "for_each f (x # xs) = (\<lambda>w. and_then (f x w) (for_each f xs))" by (rule ext) simp
  then show ?case using emits_then [of "f x" "g x" "for_each f xs"] Cons by simp
qed

lemma throws_for_each:
  assumes "\<And>x. x \<in> set xs \<Longrightarrow> emits (f x) (g x) \<or> throws (f x)" "\<exists>x \<in> set xs. throws (f x)"
  shows "throws (for_each f xs)"
  using assms
proof (induction xs)
  case (Cons x xs)
  have eq: "for_each f (x # xs) = (\<lambda>w. and_then (f x w) (for_each f xs))" by (rule ext) simp
  show ?case
  proof (cases "throws (f x)")
    case True
    then show ?thesis unfolding eq by (rule throws_then_left)
  next
    case False
    then have "emits (f x) (g x)" "throws (for_each f xs)" using Cons by auto
    then show ?thesis unfolding eq by (rule throws_then_right)
  qed
qed simp

lemma then_cases:
  assumes "emits f as" "if P then emits g bs else throws g"
  shows "if P then emits (\<lambda>w. and_then (f w) g) (as @ bs) else throws (\<lambda>w. and_then (f w) g)"
  using assms emits_then throws_then_right by (cases P) auto

lemma for_each_cases:
  assumes "\<And>x. x \<in> set xs \<Longrightarrow> if P x then emits (f x) (g x) else throws (f x)"
  shows "if \<forall>x \<in> set xs. P x then emits (for_each f xs) (concat (map g xs)) else throws (for_each f xs)"
proof (cases "\<forall>x \<in> set xs. P x")
  case True
  then have "emits (f x) (g x)" if "x \<in> set xs" for x using assms that by auto
  then show ?thesis using True emits_for_each [of xs f g] by simp
next
  case False
  then obtain y where y: "y \<in> set xs" "throws (f y)" using assms by auto
  have "emits (f x) (g x) \<or> throws (f x)" if "x \<in> set xs" for x
    using assms [OF that] by (cases "P x") auto
  then have "throws (for_each f xs)" using y by (intro throws_for_each [of xs f g]) auto
  then show ?thesis using False by (simp only: if_False)
qed

end

subsection \<open>The growing buffer\<close>

definition writer_ok :: "cbor_writer \<Rightarrow> bool" where
  "writer_ok w \<longleftrightarrow> offset w \<le> length (buffer w) \<and> length (buffer w) \<le> limit w"

lemma length_finish [simp]: "writer_ok w \<Longrightarrow> length (finish w) = offset w"
  by (simp add: finish_def writer_ok_def)

lemma grown_capacity_bounds:
  assumes "capacity < required" "required \<le> m"
  shows "required \<le> grown_capacity m required capacity \<and> grown_capacity m required capacity \<le> m"
  unfolding grown_capacity_def
  by (rule while_rule [where P = "\<lambda>c. c \<le> m" and r = "measure (\<lambda>c. required - c)"])
    (use assms in auto)

text \<open>The growing loop ends: at most one round brings the capacity to what is required.\<close>

lemma grown_capacity_terminates:
  assumes "(required :: nat) \<le> m"
  shows "\<exists>c. while_option (\<lambda>c. c < required) (\<lambda>c. min m (max required (c * 2))) (max 1 capacity) = Some c"
  by (rule measure_while_option_Some [where P = "\<lambda>_. True" and f = "\<lambda>c. required - c"])
    (use assms in auto)

lemma ensureCapacity_fits:
  assumes "writer_ok w" "offset w + k \<le> limit w"
  obtains w' where "ensureCapacity k w = Inr w'" "writer_ok w'" "limit w' = limit w"
    "offset w' = offset w" "finish w' = finish w" "offset w + k \<le> length (buffer w')"
proof (cases "offset w + k \<le> length (buffer w)")
  case True
  then show ?thesis using that [of w] assms by (simp add: ensureCapacity_def Let_def)
next
  case False
  let ?c = "grown_capacity (limit w) (offset w + k) (length (buffer w))"
  have c: "offset w + k \<le> ?c" "?c \<le> limit w"
    using grown_capacity_bounds [of "length (buffer w)" "offset w + k" "limit w"] False assms(2) by auto
  show ?thesis
    using that [of "w\<lparr>buffer := set_at (replicate ?c 0) (buffer w) 0\<rparr>"] False assms c
    by (simp add: ensureCapacity_def Let_def writer_ok_def finish_def set_at_def)
qed

lemma ensureCapacity_full: "limit w < offset w + k \<Longrightarrow> ensureCapacity k w = Inl (WriterLimit (limit w))"
  by (simp add: ensureCapacity_def Let_def)

interpretation cw: byte_sink writer_ok finish limit WriterLimit writeBytes
proof unfold_locales
  show "length (finish w) \<le> limit w" if "writer_ok w" for w
    using that by (auto simp: writer_ok_def)
  show "\<exists>w'. writeBytes bs w = Inr w' \<and> writer_ok w' \<and> limit w' = limit w \<and> finish w' = finish w @ bs"
    if ok: "writer_ok w" and fits: "length (finish w) + length bs \<le> limit w" for w bs
  proof -
    have "offset w + length bs \<le> limit w" using ok fits by simp
    then obtain w' where w': "ensureCapacity (length bs) w = Inr w'" "writer_ok w'" "limit w' = limit w"
      "offset w' = offset w" "finish w' = finish w" "offset w + length bs \<le> length (buffer w')"
      using ensureCapacity_fits [OF ok] by metis
    then show ?thesis
      using take_set_at [of "offset w'" bs "buffer w'"]
      by (simp add: writeBytes_def writer_ok_def finish_def)
  qed
  show "writeBytes bs w = Inl (WriterLimit (limit w))"
    if "writer_ok w" "limit w < length (finish w) + length bs" for w bs
    using that by (simp add: writeBytes_def ensureCapacity_full)
qed

text \<open>The stores of single bytes are the store of a byte sequence.\<close>

lemma write_as_writeBytes:
  assumes "writer_ok w" "length bs = k"
    and "\<And>w'. writer_ok w' \<Longrightarrow> offset w' + length bs \<le> length (buffer w') \<Longrightarrow>
      st w' = set_at (buffer w') bs (offset w')"
  shows "and_then (ensureCapacity k w)
      (\<lambda>w. Inr (w\<lparr>buffer := st w, offset := offset w + k\<rparr>)) = writeBytes bs w"
proof (cases "offset w + k \<le> limit w")
  case True
  obtain w' where w': "ensureCapacity k w = Inr w'" "writer_ok w'" "offset w' = offset w"
    "offset w + k \<le> length (buffer w')"
    using ensureCapacity_fits [OF assms(1) True] by metis
  then show ?thesis using assms(3) [of w'] assms(2) by (simp add: writeBytes_def)
next
  case False
  then show ?thesis using assms(2) by (simp add: ensureCapacity_full writeBytes_def)
qed

lemma emits_writeByte: "cw.emits (writeByte n) [u8 n]"
proof (rule cw.emits_same)
  fix w assume "writer_ok w"
  from write_as_writeBytes [OF this, of "[u8 n]" 1 "\<lambda>w. (buffer w)[offset w := u8 n]"]
  show "writeByte n w = writeBytes [u8 n] w"
    by (simp add: writeByte_def update_as_set_at)
qed

lemma emits_writeUint16:
  assumes "n < 2 ^ 16"
  shows "cw.emits (writeUint16 n) (be_bytes 2 n)"
proof (rule cw.emits_same)
  fix w assume "writer_ok w"
  from write_as_writeBytes [OF this, of "[u8 (ushr n 8), u8 n]" 2
      "\<lambda>w. (buffer w)[offset w := u8 (ushr n 8), offset w + 1 := u8 n]"]
  show "writeUint16 n w = writeBytes (be_bytes 2 n) w"
    using assms set_at_set_at [of _ "[u8 (ushr n 8)]" "[u8 n]"]
    by (simp add: writeUint16_def update_as_set_at ushr_small be_bytes_2)
qed

lemma emits_writeUint32:
  assumes "n < 2 ^ 32"
  shows "cw.emits (writeUint32 n) (be_bytes 4 n)"
proof (rule cw.emits_same)
  fix w assume ok: "writer_ok w"
  let ?a = "u8 (ushr n 24)" and ?b = "u8 (ushr n 16)" and ?c = "u8 (ushr n 8)" and ?d = "u8 n"
  have i3: "i + 3 = Suc (Suc (Suc i))" for i :: nat by simp
  have st: "xs[i := ?a, i + 1 := ?b, i + 2 := ?c, i + 3 := ?d] = set_at xs [?a, ?b, ?c, ?d] i"
    if "i + 4 \<le> length xs" for xs i
    using that set_at_set_at [of i "[?a]" "[?b]" xs] set_at_set_at [of i "[?a, ?b]" "[?c]" xs]
      set_at_set_at [of i "[?a, ?b, ?c]" "[?d]" xs]
    by (simp add: update_as_set_at i3)
  have "be_bytes 4 n = [?a, ?b, ?c, ?d]"
    using assms by (simp add: ushr_small be_bytes_4)
  then show "writeUint32 n w = writeBytes (be_bytes 4 n) w"
    using write_as_writeBytes [OF ok, of "[?a, ?b, ?c, ?d]" 4
      "\<lambda>w. (buffer w)[offset w := ?a, offset w + 1 := ?b, offset w + 2 := ?c, offset w + 3 := ?d]"] st
    by (simp add: writeUint32_def)
qed

lemma emits_writeUint64:
  assumes "n < 2 ^ 64"
  shows "cw.emits (writeUint64 n) (be_bytes 8 n)"
proof -
  let ?h = "n div UINT32_BASE"
  have low: "n - ?h * UINT32_BASE = n mod UINT32_BASE"
    by (simp add: minus_div_mult_eq_mod)
  have "?h < 2 ^ 32" using assms by (simp add: UINT32_BASE_def less_mult_imp_div_less)
  moreover have "n mod UINT32_BASE < 2 ^ 32" by (simp add: UINT32_BASE_def)
  ultimately have "cw.emits (\<lambda>w. and_then (writeUint32 ?h w) (writeUint32 (n mod UINT32_BASE)))
      (be_bytes 4 ?h @ be_bytes 4 (n mod UINT32_BASE))"
    by (intro cw.emits_then emits_writeUint32)
  moreover have "be_bytes 4 (n mod UINT32_BASE) = be_bytes 4 n"
    by (rule be_bytes_cong) (simp add: UINT32_BASE_def)
  moreover have "writeUint64 n = (\<lambda>w. and_then (writeUint32 ?h w) (writeUint32 (n mod UINT32_BASE)))"
    by (rule ext) (simp add: writeUint64_def Let_def low)
  ultimately show ?thesis by (simp add: be_bytes_8 UINT32_BASE_def)
qed

lemma emits_writeFloat64: "cw.emits (writeFloat64 v) (0xfb # setFloat64 v)"
proof (rule cw.emits_same)
  fix w assume "writer_ok w"
  from write_as_writeBytes [OF this, of "0xfb # setFloat64 v" 9
      "\<lambda>w. set_at ((buffer w)[offset w := 0xfb]) (setFloat64 v) (offset w + 1)"]
  show "writeFloat64 v w = writeBytes (0xfb # setFloat64 v) w"
    using set_at_set_at [of _ "[0xfb]" "setFloat64 v"]
    by (simp add: writeFloat64_def update_as_set_at)
qed

subsection \<open>Specification of the encoding\<close>

definition arg_bytes :: "nat \<Rightarrow> nat \<Rightarrow> byte list" where
  "arg_bytes major n =
     (if n < 24 then [u8 (major * 32 + n)]
      else if n < 2 ^ 8 then u8 (major * 32 + 24) # be_bytes 1 n
      else if n < 2 ^ 16 then u8 (major * 32 + 25) # be_bytes 2 n
      else if n < 2 ^ 32 then u8 (major * 32 + 26) # be_bytes 4 n
      else u8 (major * 32 + 27) # be_bytes 8 n)"

definition text_bytes :: "js_string \<Rightarrow> byte list" where
  "text_bytes s = arg_bytes 3 (length (textEncoder_encode s)) @ textEncoder_encode s"

definition number_bytes :: "js_number \<Rightarrow> byte list" where
  "number_bytes n =
     (if isInteger n \<and> \<not> is_neg_zero n
      then if 0 \<le> intValue n then arg_bytes 0 (nat (intValue n)) else arg_bytes 1 (nat (- 1 - intValue n))
      else 0xfb # setFloat64 n)"

fun cbor_item :: "js_value \<Rightarrow> byte list" where
  "cbor_item JUndefined = []"
| "cbor_item JNull = [0xf6]"
| "cbor_item (JBool b) = [if b then 0xf5 else 0xf4]"
| "cbor_item (JNumber n) = number_bytes n"
| "cbor_item (JString s) = text_bytes s"
| "cbor_item (JBytes bs) = arg_bytes 2 (length bs) @ bs"
| "cbor_item (JArray vs) = arg_bytes 4 (length vs) @ concat (map cbor_item vs)"
| "cbor_item (JObject flags es) =
     arg_bytes 5 (length (defined_entries es))
     @ concat (map (\<lambda>(k, v). text_bytes k @ cbor_item v) (defined_entries es))"
| "cbor_item JOther = []"

definition text_ok :: "resolved_options \<Rightarrow> js_string \<Rightarrow> bool" where
  "text_ok options s \<longleftrightarrow> well_formed s \<and> length (textEncoder_encode s) \<le> rMaxByteLength options"

fun encodable :: "resolved_options \<Rightarrow> nat \<Rightarrow> js_value \<Rightarrow> bool" where
  "encodable options depth (JNumber n) \<longleftrightarrow> depth \<le> rMaxDepth options \<and> isFinite n
     \<and> (isInteger n \<and> \<not> is_neg_zero n \<longrightarrow> isSafeInteger n)"
| "encodable options depth (JString s) \<longleftrightarrow> depth \<le> rMaxDepth options \<and> text_ok options s"
| "encodable options depth (JBytes bs) \<longleftrightarrow>
     depth \<le> rMaxDepth options \<and> length bs \<le> rMaxByteLength options"
| "encodable options depth (JArray vs) \<longleftrightarrow>
     depth \<le> rMaxDepth options \<and> length vs \<le> rMaxContainerLength options
     \<and> (\<forall>v \<in> set vs. v \<noteq> JUndefined \<and> encodable options (depth + 1) v)"
| "encodable options depth (JObject flags es) \<longleftrightarrow>
     depth \<le> rMaxDepth options \<and> \<not> symbolKeys flags
     \<and> length (defined_entries es) \<le> rMaxContainerLength options
     \<and> (\<forall>(k, v) \<in> set (defined_entries es). text_ok options k \<and> encodable options (depth + 1) v)"
| "encodable options depth JUndefined \<longleftrightarrow> False"
| "encodable options depth JOther \<longleftrightarrow> False"
| "encodable options depth v \<longleftrightarrow> depth \<le> rMaxDepth options"

subsection \<open>The encoder meets it\<close>

lemma or_prefix:
  assumes "n < 32"
  shows "push_bit 5 major OR n = major * 32 + (n :: nat)"
proof -
  have "\<not> bit (push_bit 5 major) i \<or> \<not> bit n i" for i
  proof (cases "i < 5")
    case False
    then have "n div 2 ^ i = 0"
      using assms power_increasing [of 5 i "2 :: nat"] by (simp add: div_eq_0_iff)
    then show ?thesis by (simp add: bit_iff_odd)
  qed (simp add: bit_push_bit_iff)
  then have "push_bit 5 major AND n = 0" by (intro bit_eqI) (auto simp: bit_simps)
  then have "push_bit 5 major + n = push_bit 5 major OR n"
    by (rule disjunctive_add_eq_or)
  then show ?thesis by (simp add: push_bit_eq_mult)
qed

lemma emits_byte_then:
  assumes "cw.emits f bs"
  shows "cw.emits (\<lambda>w. and_then (writeByte b w) f) (u8 b # bs)"
  using cw.emits_then [OF emits_writeByte assms, of b] by simp

lemma emits_writeArgument:
  assumes "n < 2 ^ 64"
  shows "cw.emits (writeArgument major n) (arg_bytes major n)"
proof -
  have eq: "writeArgument major n = (\<lambda>w.
      if n < 24 then writeByte (major * 32 + n) w
      else if n < 2 ^ 8 then and_then (writeByte (major * 32 + 24) w) (writeByte n)
      else if n < 2 ^ 16 then and_then (writeByte (major * 32 + 25) w) (writeUint16 n)
      else if n < 2 ^ 32 then and_then (writeByte (major * 32 + 26) w) (writeUint32 n)
      else and_then (writeByte (major * 32 + 27) w) (writeUint64 n))"
    by (rule ext) (simp add: writeArgument_def Let_def or_prefix CBOR_MAX_UINT32_def less_Suc_eq_le)
  have one: "be_bytes 1 n = [u8 n]" by simp
  consider "n < 24" | "24 \<le> n" "n < 2 ^ 8" | "2 ^ 8 \<le> n" "n < 2 ^ 16" | "2 ^ 16 \<le> n" "n < 2 ^ 32"
    | "2 ^ 32 \<le> n" "n < 2 ^ 64"
    using assms by linarith
  then show ?thesis
  proof cases
    case 1
    then show ?thesis unfolding eq arg_bytes_def using emits_writeByte [of "major * 32 + n"] by simp
  next
    case 2
    then show ?thesis unfolding eq arg_bytes_def one
      using emits_byte_then [OF emits_writeByte, of "major * 32 + 24" n] by simp
  next
    case 3
    then show ?thesis unfolding eq arg_bytes_def using emits_byte_then [OF emits_writeUint16, of n "major * 32 + 25"] by simp
  next
    case 4
    then show ?thesis unfolding eq arg_bytes_def using emits_byte_then [OF emits_writeUint32, of n "major * 32 + 26"] by simp
  next
    case 5
    then show ?thesis unfolding eq arg_bytes_def using emits_byte_then [OF emits_writeUint64, of n "major * 32 + 27"] by simp
  qed
qed

definition options_ok :: "resolved_options \<Rightarrow> bool" where
  "options_ok options \<longleftrightarrow> rMaxByteLength options < 2 ^ 32 \<and> rMaxContainerLength options < 2 ^ 32"

lemma emits_encodeText:
  assumes "options_ok options"
  shows "if text_ok options s then cw.emits (encodeText options s) (text_bytes s)
    else cw.throws (encodeText options s)"
proof (cases "text_ok options s")
  case True
  have eq: "encodeText options s = (\<lambda>w. and_then (writeArgument 3 (length (textEncoder_encode s)) w)
      (writeBytes (textEncoder_encode s)))"
    using True by (auto simp: fun_eq_iff encodeText_def text_ok_def Let_def decode_encode_iff)
  have "length (textEncoder_encode s) < 2 ^ 64"
    using True assms by (simp add: text_ok_def options_ok_def)
  then show ?thesis
    unfolding eq text_bytes_def using True cw.emits_then [OF emits_writeArgument cw.emits_append] by simp
next
  case False
  then show ?thesis
    by (auto simp: cw.throws_def encodeText_def text_ok_def Let_def decode_encode_iff)
qed

lemma safe_integer_bounds: "isSafeInteger n \<Longrightarrow> nat (intValue n) < 2 ^ 64 \<and> nat (- 1 - intValue n) < 2 ^ 64"
  by (auto simp: isSafeInteger_def)

lemma emits_encodeNumber:
  "if isFinite n \<and> (isInteger n \<and> \<not> is_neg_zero n \<longrightarrow> isSafeInteger n)
   then cw.emits (encodeNumber n) (number_bytes n) else cw.throws (encodeNumber n)"
proof (cases "isFinite n \<and> (isInteger n \<and> \<not> is_neg_zero n \<longrightarrow> isSafeInteger n)")
  case True
  have eq: "encodeNumber n =
      (if isInteger n \<and> \<not> is_neg_zero n
       then if 0 \<le> intValue n then writeArgument 0 (nat (intValue n)) else writeArgument 1 (nat (- 1 - intValue n))
       else writeFloat64 n)"
    using True by (auto simp: fun_eq_iff encodeNumber_def)
  show ?thesis
    using True safe_integer_bounds [of n]
    by (auto simp: eq number_bytes_def emits_writeArgument emits_writeFloat64)
next
  case False
  then show ?thesis by (auto simp: cw.throws_def encodeNumber_def)
qed

text \<open>The behaviour of the encoder on a value: it writes the value's item, or throws.\<close>

definition encodes :: "resolved_options \<Rightarrow> nat \<Rightarrow> js_value \<Rightarrow> bool" where
  "encodes options depth v \<longleftrightarrow>
     (if encodable options depth v then cw.emits (encodeValue options depth v) (cbor_item v)
      else cw.throws (encodeValue options depth v))"

lemma encodes_array:
  assumes "options_ok options" and IH: "\<And>v. v \<in> set vs \<Longrightarrow> encodes options (depth + 1) v"
  shows "encodes options depth (JArray vs)"
proof (cases "depth \<le> rMaxDepth options \<and> length vs \<le> rMaxContainerLength options")
  case True
  let ?body = "\<lambda>v w. if v = JUndefined then Inl HolesOrUndefined else encodeValue options (depth + 1) v w"
  let ?good = "\<lambda>v. v \<noteq> JUndefined \<and> encodable options (depth + 1) v"
  have body: "if ?good v then cw.emits (?body v) (cbor_item v) else cw.throws (?body v)" if "v \<in> set vs" for v
    using IH [OF that] by (auto simp: encodes_def cw.throws_def split: if_splits)
  have eq: "encodeValue options depth (JArray vs) = (\<lambda>w. and_then (writeArgument 4 (length vs) w)
      (for_each ?body vs))"
    using True by (auto simp: fun_eq_iff encodeValue.simps [of options depth])
  have loop: "if \<forall>v \<in> set vs. ?good v then cw.emits (for_each ?body vs) (concat (map cbor_item vs))
      else cw.throws (for_each ?body vs)"
    by (rule cw.for_each_cases) (rule body)
  have "length vs < 2 ^ 64" using True assms(1) by (simp add: options_ok_def)
  from cw.then_cases [OF emits_writeArgument [OF this, of 4] loop]
  show ?thesis unfolding encodes_def eq using True by simp
next
  case False
  then show ?thesis by (auto simp: encodes_def cw.throws_def encodeValue.simps [of options depth])
qed

lemma encodes_entry:
  assumes "options_ok options" "encodes options depth v"
  shows "if text_ok options k \<and> encodable options depth v
    then cw.emits (\<lambda>w. and_then (encodeText options k w) (encodeValue options depth v)) (text_bytes k @ cbor_item v)
    else cw.throws (\<lambda>w. and_then (encodeText options k w) (encodeValue options depth v))"
proof (cases "text_ok options k")
  case True
  then have "cw.emits (encodeText options k) (text_bytes k)"
    using emits_encodeText [OF assms(1), of k] by simp
  from cw.then_cases [OF this assms(2) [unfolded encodes_def]] True show ?thesis by simp
next
  case False
  then show ?thesis
    using emits_encodeText [OF assms(1), of k] cw.throws_then_left by simp
qed

lemma encodes_object:
  assumes "options_ok options" "\<not> symbolKeys flags"
    and IH: "\<And>k v. (k, v) \<in> set (defined_entries es) \<Longrightarrow> encodes options (depth + 1) v"
  shows "encodes options depth (JObject flags es)"
proof (cases "depth \<le> rMaxDepth options \<and> length (defined_entries es) \<le> rMaxContainerLength options")
  case True
  let ?es = "defined_entries es"
  let ?body = "\<lambda>(k, v) w. and_then (encodeText options k w) (encodeValue options (depth + 1) v)"
  let ?good = "\<lambda>(k, v). text_ok options k \<and> encodable options (depth + 1) v"
  let ?item = "\<lambda>(k, v). text_bytes k @ cbor_item v"
  have body: "if ?good e then cw.emits (?body e) (?item e) else cw.throws (?body e)" if "e \<in> set ?es" for e
    using encodes_entry [OF assms(1) IH, of "fst e" "snd e" "fst e"] that
    by (simp only: split_beta prod.collapse True_implies_equals)
  have eq: "encodeValue options depth (JObject flags es) = (\<lambda>w. and_then (writeArgument 5 (length ?es) w)
      (for_each ?body ?es))"
    using True assms(2) by (auto simp: fun_eq_iff encodeValue.simps [of options depth] Let_def)
  have loop: "if \<forall>e \<in> set ?es. ?good e then cw.emits (for_each ?body ?es) (concat (map ?item ?es))
      else cw.throws (for_each ?body ?es)"
    by (rule cw.for_each_cases) (rule body)
  have "length ?es < 2 ^ 64" using True assms(1) by (simp add: options_ok_def)
  from cw.then_cases [OF emits_writeArgument [OF this, of 5] loop] True assms(2)
  show ?thesis unfolding encodes_def eq encodable.simps cbor_item.simps by (simp only: simp_thms)
next
  case False
  then show ?thesis by (auto simp: encodes_def cw.throws_def encodeValue.simps [of options depth] Let_def)
qed

lemma encodes_bytes:
  assumes "options_ok options"
  shows "encodes options depth (JBytes bs)"
proof (cases "encodable options depth (JBytes bs)")
  case True
  have eq: "encodeValue options depth (JBytes bs) =
      (\<lambda>w. and_then (writeArgument 2 (length bs) w) (writeBytes bs))"
    using True by (auto simp: fun_eq_iff encodeValue.simps [of options depth])
  have "length bs < 2 ^ 64" using True assms by (simp add: options_ok_def)
  from cw.emits_then [OF emits_writeArgument [OF this, of 2] cw.emits_append] True
  show ?thesis unfolding encodes_def eq by simp
next
  case False
  then show ?thesis by (auto simp: encodes_def cw.throws_def encodeValue.simps [of options depth])
qed

lemma encodes_scalar:
  assumes "depth \<le> rMaxDepth options" "encodeValue options depth v = f"
    and "if encodable options depth v then cw.emits f (cbor_item v) else cw.throws f"
  shows "encodes options depth v"
  using assms by (simp add: encodes_def)

lemma encodes_too_deep: "rMaxDepth options < depth \<Longrightarrow> encodes options depth v"
  by (cases v) (auto simp: encodes_def cw.throws_def encodeValue.simps [of options depth])

lemma encodes_all:
  assumes "options_ok options"
  shows "encodes options depth v"
proof (induction v arbitrary: depth)
  case (JArray vs)
  then show ?case using encodes_array [OF assms] by blast
next
  case (JObject flags es)
  show ?case
  proof (cases "symbolKeys flags")
    case True
    then show ?thesis by (auto simp: encodes_def cw.throws_def encodeValue.simps [of options depth])
  next
    case False
    then show ?thesis using JObject
      by (auto intro!: encodes_object [OF assms] simp: defined_entries_def snds.simps)
  qed
next
  case (JBytes bs)
  show ?case by (rule encodes_bytes [OF assms])
next
  case (JNumber n)
  show ?case
  proof (cases "depth \<le> rMaxDepth options")
    case True
    moreover have "encodeValue options depth (JNumber n) = encodeNumber n"
      using True by (auto simp: fun_eq_iff encodeValue.simps [of options depth])
    ultimately show ?thesis using emits_encodeNumber [of n]
      by (intro encodes_scalar [where f = "encodeNumber n"]) simp_all
  qed (simp add: encodes_too_deep)
next
  case (JString s)
  show ?case
  proof (cases "depth \<le> rMaxDepth options")
    case True
    moreover have "encodeValue options depth (JString s) = encodeText options s"
      using True by (auto simp: fun_eq_iff encodeValue.simps [of options depth])
    ultimately show ?thesis using emits_encodeText [OF assms, of s]
      by (intro encodes_scalar [where f = "encodeText options s"]) simp_all
  qed (simp add: encodes_too_deep)
next
  case JNull
  show ?case
  proof (cases "depth \<le> rMaxDepth options")
    case True
    moreover have "encodeValue options depth JNull = writeByte 0xf6"
      using True by (auto simp: fun_eq_iff encodeValue.simps [of options depth])
    ultimately show ?thesis using emits_writeByte [of "0xf6"] by (intro encodes_scalar) auto
  qed (simp add: encodes_too_deep)
next
  case (JBool b)
  show ?case
  proof (cases "depth \<le> rMaxDepth options")
    case True
    moreover have "encodeValue options depth (JBool b) = writeByte (if b then 0xf5 else 0xf4)"
      using True by (auto simp: fun_eq_iff encodeValue.simps [of options depth])
    ultimately show ?thesis
      using emits_writeByte [of "0xf5"] emits_writeByte [of "0xf4"] by (intro encodes_scalar) auto
  qed (simp add: encodes_too_deep)
qed (auto simp: encodes_def cw.throws_def encodeValue.simps)

end
