(* ===== verification/CborRoundTrip.thy ===== *)
theory CborRoundTrip
  imports CborEncoding
begin

text \<open>
  The reader of \<^verbatim>\<open>packages/protocol/src/cbor/decoder.ts\<close> on what the encoder writes. Under the same
  options \<open>decodeCbor\<close> gives back the encoded value, with the properties that are \<open>undefined\<close> left out
  and a \<open>null\<close> prototype replaced by the ordinary one (\<open>prune\<close>). \<open>wf_value\<close> is the language's own invariant of objects: distinct property keys, in the order
  of \<open>Object.keys\<close>.
\<close>

fun prune :: "js_value \<Rightarrow> js_value" where
  "prune (JArray vs) = JArray (map prune vs)"
| "prune (JObject flags es) = JObject plain_object (map (\<lambda>(k, v). (k, prune v)) (defined_entries es))"
| "prune v = v"

definition keys_ordered :: "(js_string \<times> js_value) list \<Rightarrow> bool" where
  "keys_ordered es \<longleftrightarrow> sorted_wrt key_before (map fst es) \<and> distinct (map fst es)"

fun wf_value :: "js_value \<Rightarrow> bool" where
  "wf_value (JArray vs) \<longleftrightarrow> (\<forall>v \<in> set vs. wf_value v)"
| "wf_value (JObject flags es) \<longleftrightarrow> keys_ordered es \<and> (\<forall>(k, v) \<in> set (defined_entries es). wf_value v)"
| "wf_value v \<longleftrightarrow> True"

subsection \<open>Reading arguments\<close>

lemma and_31: "(n :: nat) AND 0x1f = n mod 32"
proof -
  have "(0x1f :: nat) = mask 5" by (simp add: mask_eq_exp_minus_1)
  then show ?thesis by (simp only: flip: take_bit_eq_mask) (simp add: take_bit_eq_mod)
qed

lemma initial_byte:
  assumes "major < 8" "ai < 32"
  shows "unat (u8 (major * 32 + ai)) = major * 32 + ai" "ushr (major * 32 + ai) 5 = major"
    "(major * 32 + ai) AND 0x1f = ai"
proof -
  have "major * 32 + ai < 256" using assms by simp
  then show "unat (u8 (major * 32 + ai)) = major * 32 + ai" by (simp only: unat_u8 mod_less)
  show "ushr (major * 32 + ai) 5 = major" "(major * 32 + ai) AND 0x1f = ai"
    using assms by (simp_all add: ushr_def and_31)
qed

lemma readBytes_append [simp]: "length b = n \<Longrightarrow> readBytes n (b @ r) = Inr (b, r)"
  by (simp add: readBytes_def)

lemma readArgument26_be:
  assumes "n < 2 ^ 32"
  shows "readArgument26 (be_bytes 4 n @ r) = Inr (n, r)"
proof -
  have "be_val (be_bytes 4 n) = n" using assms by (simp add: be_simps)
  then show ?thesis using be_val_4 [of "be_bytes 4 n"] by (simp add: readArgument26_def)
qed

lemma read_arg:
  assumes "n < 2 ^ 53"
  obtains ai r' where "arg_bytes major n @ r = u8 (major * 32 + ai) # r'" "ai < 28"
    "readArgument ai r' = Inr (n, r)"
proof -
  consider "n < 24" | "24 \<le> n" "n < 2 ^ 8" | "2 ^ 8 \<le> n" "n < 2 ^ 16" | "2 ^ 16 \<le> n" "n < 2 ^ 32"
    | "2 ^ 32 \<le> n"
    by linarith
  then show ?thesis
  proof cases
    case 1
    then show ?thesis using that [of n r] by (simp add: arg_bytes_def readArgument_def)
  next
    case 2
    then show ?thesis
      using that [of 24 "u8 n # r"] by (simp add: arg_bytes_def readArgument_def readByte_def)
  next
    case 3
    have "n div 256 mod 256 * 256 + n mod 256 = n"
      using 3 by (simp add: less_mult_imp_div_less)
    with 3 show ?thesis
      using that [of 25 "be_bytes 2 n @ r"]
      by (simp add: arg_bytes_def readArgument_def be_bytes_2 readBytes_def)
  next
    case 4
    then show ?thesis
      using that [of 26 "be_bytes 4 n @ r"] by (simp add: arg_bytes_def readArgument_def readArgument26_be)
  next
    case 5
    let ?h = "n div UINT32_BASE" and ?l = "n mod UINT32_BASE"
    have h: "?h < 2 ^ 21" using assms by (simp add: UINT32_BASE_def less_mult_imp_div_less)
    have b8: "be_bytes 8 n = be_bytes 4 ?h @ be_bytes 4 ?l"
      unfolding be_bytes_8 UINT32_BASE_def using be_bytes_cong [of n 4 "n mod 0x100000000"] by simp
    have "readArgument26 (be_bytes 4 ?h @ be_bytes 4 ?l @ r) = Inr (?h, be_bytes 4 ?l @ r)"
      "readArgument26 (be_bytes 4 ?l @ r) = Inr (?l, r)"
      using h by (simp_all add: readArgument26_be UINT32_BASE_def)
    with 5 h show ?thesis
      using that [of 27 "be_bytes 8 n @ r"] by (simp add: arg_bytes_def readArgument_def b8)
  qed
qed

subsection \<open>Reading items\<close>

lemma read_level_initial:
  assumes "major < 8" "ai < 32"
  shows "read_level options (Suc levels) (u8 (major * 32 + ai) # r) =
    read_major options (read_level options levels) major ai r"
  using initial_byte [OF assms] by (simp add: readByte_def del: unat_u8)

lemma read_level_arg:
  assumes "n < 2 ^ 53" "major < 8"
  obtains ai r' where "ai < 28"
    "read_level options (Suc levels) (arg_bytes major n @ r) =
      read_major options (read_level options levels) major ai r'"
    "readArgument ai r' = Inr (n, r)"
    "\<And>kind lim. n \<le> lim \<Longrightarrow> readLength ai kind lim r' = Inr (n, r)"
proof -
  obtain ai r' where a: "arg_bytes major n @ r = u8 (major * 32 + ai) # r'" "ai < 28"
    "readArgument ai r' = Inr (n, r)"
    using read_arg [OF assms(1)] .
  show ?thesis
  proof (rule that [OF a(2) _ a(3)])
    show "read_level options (Suc levels) (arg_bytes major n @ r) =
        read_major options (read_level options levels) major ai r'"
      unfolding a(1) using assms(2) a(2) by (intro read_level_initial) auto
    show "readLength ai kind lim r' = Inr (n, r)" if "n \<le> lim" for kind lim
      using a(2,3) that by (simp add: readLength_def)
  qed
qed

lemma read_text:
  assumes "options_ok options" "text_ok options s"
  shows "read_level options (Suc levels) (text_bytes s @ r) = Inr (JString s, r)"
proof -
  let ?b = "textEncoder_encode s"
  have le: "length ?b \<le> rMaxByteLength options" and lt: "length ?b < 2 ^ 53"
    and dec: "textDecoder_decode ?b = Some s"
    using assms by (auto simp: text_ok_def options_ok_def decode_encode_iff)
  obtain ai r' where a: "read_level options (Suc levels) (arg_bytes 3 (length ?b) @ ?b @ r) =
      read_major options (read_level options levels) 3 ai r'"
    "\<And>kind lim. length ?b \<le> lim \<Longrightarrow> readLength ai kind lim r' = Inr (length ?b, ?b @ r)"
    by (rule read_level_arg [OF lt, of 3 options levels "?b @ r"]) auto
  then show ?thesis
    using a(2) [OF le] dec by (simp add: text_bytes_def read_major_def del: read_level.simps)
qed

lemma read_bytes:
  assumes "options_ok options" "length b \<le> rMaxByteLength options"
  shows "read_level options (Suc levels) (arg_bytes 2 (length b) @ b @ r) = Inr (JBytes b, r)"
proof -
  have lt: "length b < 2 ^ 53" using assms by (simp add: options_ok_def)
  obtain ai r' where a: "read_level options (Suc levels) (arg_bytes 2 (length b) @ b @ r) =
      read_major options (read_level options levels) 2 ai r'"
    "\<And>kind lim. length b \<le> lim \<Longrightarrow> readLength ai kind lim r' = Inr (length b, b @ r)"
    by (rule read_level_arg [OF lt, of 2 options levels "b @ r"]) auto
  then show ?thesis
    using a(2) [OF assms(2)] by (simp add: read_major_def del: read_level.simps)
qed

lemma read_integer:
  assumes "isSafeInteger n" "\<not> is_neg_zero n"
  shows "read_level options (Suc levels) (number_bytes n @ r) = Inr (JNumber n, r)"
proof (cases "0 \<le> intValue n")
  case True
  then have lt: "nat (intValue n) < 2 ^ 53" using assms by (simp add: isSafeInteger_def nat_less_iff)
  obtain ai r' where "read_level options (Suc levels) (arg_bytes 0 (nat (intValue n)) @ r) =
      read_major options (read_level options levels) 0 ai r'" "readArgument ai r' = Inr (nat (intValue n), r)"
    by (rule read_level_arg [OF lt, of 0 options levels r]) auto
  then show ?thesis
    using True assms number_of_int_intValue [OF assms]
    by (simp add: number_bytes_def isSafeInteger_def read_major_def del: read_level.simps)
next
  case False
  define m where "m = nat (- 1 - intValue n)"
  have lt: "m < 2 ^ 53" and inv: "- 1 - int m = intValue n"
    using False assms by (auto simp: m_def isSafeInteger_def nat_less_iff)
  have c: "\<bar>- 1 - int m\<bar> < 2 ^ 53" "number_of_int (- 1 - int m) = n"
    unfolding inv using assms number_of_int_intValue [OF assms] by (auto simp: isSafeInteger_def)
  have b: "number_bytes n = arg_bytes 1 m"
    using False assms by (auto simp: number_bytes_def isSafeInteger_def m_def)
  obtain ai r' where "read_level options (Suc levels) (arg_bytes 1 m @ r) =
      read_major options (read_level options levels) 1 ai r'" "readArgument ai r' = Inr (m, r)"
    by (rule read_level_arg [OF lt, of 1 options levels r]) auto
  then show ?thesis
    unfolding b by (simp only: read_major_def and_then_Inr prod.case c if_True if_False one_neq_zero refl)
qed

lemma read_simple:
  assumes "ai < 32"
  shows "read_level options (Suc levels) (u8 (7 * 32 + ai) # r) = readSimple ai r"
  using read_level_initial [of 7 ai] assms by (simp add: read_major_def del: read_level.simps)

lemma read_float:
  assumes "isFinite n" "\<not> (isInteger n \<and> \<not> is_neg_zero n)"
  shows "read_level options (Suc levels) (number_bytes n @ r) = Inr (JNumber n, r)"
proof -
  have "readSimple 27 (setFloat64 n @ r) = Inr (JNumber n, r)"
    using assms neg_zero_value(2) by (auto simp: readSimple_def Let_def)
  then show ?thesis
    using assms(2) read_simple [of 27 options levels "setFloat64 n @ r"]
    by (auto simp: number_bytes_def simp del: read_level.simps)
qed

lemma read_elements_items:
  assumes "\<And>v r. v \<in> set vs \<Longrightarrow> item (f v @ r) = Inr (g v, r)"
  shows "read_elements item (length vs) (concat (map f vs) @ r) = Inr (map g vs, r)"
  using assms by (induction vs arbitrary: r) auto

lemma define_property_last:
  assumes "\<And>e. e \<in> set es \<Longrightarrow> key_before (fst e) k"
  shows "define_property k v es = es @ [(k, v)]"
proof -
  have "takeWhile (\<lambda>e. key_before (fst e) k) es = es" "dropWhile (\<lambda>e. key_before (fst e) k) es = []"
    using assms by (auto simp: takeWhile_eq_all_conv dropWhile_eq_Nil_conv)
  then show ?thesis by (simp add: define_property_def)
qed

lemma read_entries_items:
  assumes "\<And>k v r. (k, v) \<in> set es \<Longrightarrow> item (t k @ r) = Inr (JString k, r) \<and> item (f v @ r) = Inr (g v, r)"
    and "keys_ordered (acc @ es)" "set keys = fst ` set acc"
  shows "read_entries item (length es) keys acc (concat (map (\<lambda>(k, v). t k @ f v) es) @ r) =
    Inr (acc @ map (\<lambda>(k, v). (k, g v)) es, r)"
  using assms
proof (induction es arbitrary: acc keys)
  case Nil
  then show ?case by simp
next
  case (Cons e es)
  obtain k v where e: "e = (k, v)" by (cases e)
  have fresh: "k \<notin> set keys"
    using Cons.prems(2,3) by (auto simp: keys_ordered_def e)
  have last: "define_property k (g v) acc = acc @ [(k, g v)]"
    using Cons.prems(2) by (intro define_property_last) (auto simp: keys_ordered_def sorted_wrt_append e)
  have "keys_ordered ((acc @ [(k, g v)]) @ es)"
    using Cons.prems(2) by (simp add: keys_ordered_def e)
  then have "read_entries item (length es) (k # keys) (acc @ [(k, g v)])
      (concat (map (\<lambda>(k, v). t k @ f v) es) @ r) = Inr ((acc @ [(k, g v)]) @ map (\<lambda>(k, v). (k, g v)) es, r)"
    using Cons.prems by (intro Cons.IH) auto
  moreover have "item (t k @ x) = Inr (JString k, x)" "item (f v @ x) = Inr (g v, x)" for x
    using Cons.prems(1) [of k v x] by (auto simp: e)
  ultimately show ?case using fresh last by (simp add: e)
qed

lemma keys_ordered_defined: "keys_ordered es \<Longrightarrow> keys_ordered (defined_entries es)"
  by (simp add: keys_ordered_def defined_entries_def sorted_wrt_filter sorted_wrt_map distinct_map_filter)

lemma read_encoded:
  assumes "options_ok options" "encodable options depth v" "wf_value v"
  shows "read_level options (Suc (rMaxDepth options - depth)) (cbor_item v @ r) = Inr (prune v, r)"
  using assms(2,3)
proof (induction v arbitrary: depth r)
  case (JArray vs)
  let ?item = "read_level options (rMaxDepth options - depth)"
  have lt: "length vs < 2 ^ 53" and le: "length vs \<le> rMaxContainerLength options"
    using JArray.prems assms(1) by (auto simp: options_ok_def)
  have item: "?item (cbor_item v @ r) = Inr (prune v, r)" if "v \<in> set vs" for v r
  proof -
    have enc: "encodable options (Suc depth) v" "wf_value v" using that JArray.prems by auto
    then have "Suc depth \<le> rMaxDepth options" by (cases v) auto
    then show ?thesis using JArray.IH [OF that enc] by (simp add: Suc_diff_Suc Suc_le_eq)
  qed
  let ?body = "concat (map cbor_item vs) @ r"
  obtain ai r' where a: "read_level options (Suc (rMaxDepth options - depth)) (arg_bytes 4 (length vs) @ ?body)
      = read_major options ?item 4 ai r'"
    "\<And>kind lim. length vs \<le> lim \<Longrightarrow> readLength ai kind lim r' = Inr (length vs, ?body)"
    by (rule read_level_arg [OF lt, of 4 options "rMaxDepth options - depth" ?body]) auto
  show ?case
    using a(1) a(2) [OF le] read_elements_items [of vs ?item cbor_item prune r, OF item]
    by (simp add: read_major_def del: read_level.simps)
next
  case (JObject flags es)
  let ?item = "read_level options (rMaxDepth options - depth)" and ?es = "defined_entries es"
  have lt: "length ?es < 2 ^ 53" and le: "length ?es \<le> rMaxContainerLength options"
    using JObject.prems assms(1) by (auto simp: options_ok_def)
  have item: "?item (text_bytes k @ r) = Inr (JString k, r) \<and> ?item (cbor_item v @ r) = Inr (prune v, r)"
    if kv: "(k, v) \<in> set ?es" for k v r
  proof -
    have enc: "text_ok options k" "encodable options (Suc depth) v" "wf_value v"
      using kv JObject.prems by auto
    then have d: "rMaxDepth options - depth = Suc (rMaxDepth options - Suc depth)"
      by (cases v) auto
    have "(k, v) \<in> set es" using kv by (auto simp: defined_entries_def)
    then show ?thesis
      unfolding d using read_text [OF assms(1) enc(1)] JObject.IH [of "(k, v)" v, OF _ _ enc(2,3)] by auto
  qed
  let ?body = "concat (map (\<lambda>(k, v). text_bytes k @ cbor_item v) ?es) @ r"
  obtain ai r' where a: "read_level options (Suc (rMaxDepth options - depth)) (arg_bytes 5 (length ?es) @ ?body)
      = read_major options ?item 5 ai r'"
    "\<And>kind lim. length ?es \<le> lim \<Longrightarrow> readLength ai kind lim r' = Inr (length ?es, ?body)"
    by (rule read_level_arg [OF lt, of 5 options "rMaxDepth options - depth" ?body]) auto
  have "keys_ordered ([] @ ?es)" using JObject.prems keys_ordered_defined by simp
  from read_entries_items [of ?es ?item text_bytes cbor_item prune "[]" "[]" r, OF item this]
  show ?case
    using a(1) a(2) [OF le] JObject.prems(1) by (simp add: read_major_def del: read_level.simps)
next
  case (JNumber n)
  then show ?case
    using read_integer [of n] read_float [of n]
    by (cases "isInteger n \<and> \<not> is_neg_zero n") (simp_all del: read_level.simps)
next
  case (JString s)
  then show ?case using read_text [OF assms(1)] by (simp del: read_level.simps)
next
  case (JBytes b)
  then show ?case using read_bytes [OF assms(1)] by (simp del: read_level.simps)
next
  case JNull
  show ?case using read_simple [of 22 options "rMaxDepth options - depth" r]
    by (simp add: readSimple_def del: read_level.simps)
next
  case (JBool b)
  show ?case
    using read_simple [of 20 options "rMaxDepth options - depth" r]
      read_simple [of 21 options "rMaxDepth options - depth" r]
    by (simp add: readSimple_def del: read_level.simps)
qed simp_all

subsection \<open>Properties\<close>

lemma resolveLimit_bound: "resolveLimit given preset m = Inr n \<Longrightarrow> n \<le> m"
  by (auto simp: resolveLimit_def Let_def split: if_splits)

lemma resolveOptions_ok:
  assumes "resolveOptions options = Inr resolved"
  shows "options_ok resolved"
  using assms resolveLimit_bound
  by (fastforce simp: resolveOptions_def and_then_eq_Inr options_ok_def CBOR_MAX_UINT32_def)

lemma encodeCbor_iff:
  assumes "resolveOptions options = Inr resolved"
  shows "encodeCbor options v = Inr bs \<longleftrightarrow>
    encodable resolved 0 v \<and> length (cbor_item v) \<le> rMaxByteLength resolved \<and> bs = cbor_item v"
proof -
  let ?w = "new_CborWriter (rMaxByteLength resolved)"
  have w: "writer_ok ?w" "finish ?w = []" "limit ?w = rMaxByteLength resolved"
    by (simp_all add: writer_ok_def new_CborWriter_def finish_def)
  have enc: "encodes resolved 0 v"
    by (rule encodes_all [OF resolveOptions_ok [OF assms]])
  show ?thesis
  proof (cases "encodable resolved 0 v")
    case True
    with enc have "cw.emits (encodeValue resolved 0 v) (cbor_item v)" by (simp add: encodes_def)
    from cw.emitsD [OF this w(1)] show ?thesis
      using True w assms by (auto simp: encodeCbor_def)
  next
    case False
    with enc obtain e where "encodeValue resolved 0 v ?w = Inl e"
      using w(1) by (auto simp: encodes_def cw.throws_def)
    then show ?thesis using False assms by (simp add: encodeCbor_def)
  qed
qed

lemma decode_encoded:
  assumes "encodeCbor options v = Inr bs" "wf_value v"
  shows "decodeCbor options bs = Inr (prune v)"
proof -
  obtain resolved where res: "resolveOptions options = Inr resolved"
    using assms(1) by (auto simp: encodeCbor_def and_then_eq_Inr)
  then have "encodable resolved 0 v" "length (cbor_item v) \<le> rMaxByteLength resolved" "bs = cbor_item v"
    using assms(1) encodeCbor_iff by auto
  then show ?thesis
    using read_encoded [OF resolveOptions_ok [OF res] _ assms(2), of 0 "[]"]
    by (simp add: decodeCbor_def res readItem_def)
qed

text \<open>Property C6. Decoding what was encoded under the same options gives the value back, its \<open>undefined\<close>
  properties left out.\<close>

theorem decodeCbor_encodeCbor:
  assumes "encodeCbor options v = Inr bs" "wf_value v"
  shows "decodeCbor options bs = Inr (prune v)"
  using assms by (rule decode_encoded)

theorem decodeCbor_encodeCbor_witness:
  "decodeCbor \<lparr>maxByteLength = None, maxContainerLength = None, maxDepth = None\<rparr>
     [0xa1, 0x61, 0x61, 0x82, 0xf5, 0x18, 0x64]
   = Inr (JObject plain_object [(js ''a'', JArray [JBool True, JNumber (number_of_int 100)])])"
proof -
  let ?o = "\<lparr>maxByteLength = None, maxContainerLength = None, maxDepth = None\<rparr>"
  let ?v = "JObject plain_object [(js ''a'', JArray [JBool True, JNumber (number_of_int 100)]), (js ''b'', JUndefined)]"
  have a: "js ''a'' = [97]" "js ''b'' = [98]" by (simp_all add: js_def)
  have r: "resolveOptions ?o = Inr \<lparr>rMaxByteLength = 16777216, rMaxContainerLength = 1000000, rMaxDepth = 64\<rparr>"
    by (simp add: resolveOptions_def resolveLimit_def number_of_int_safe DEFAULT_MAX_CBOR_BYTE_LENGTH_def
        DEFAULT_MAX_CBOR_CONTAINER_LENGTH_def DEFAULT_MAX_CBOR_DEPTH_def CBOR_MAX_UINT32_def
        MAX_CONFIGURED_DEPTH_def)
  have n: "isFinite (number_of_int 100)" "isInteger (number_of_int 100)" "\<not> is_neg_zero (number_of_int 100)"
    "isSafeInteger (number_of_int 100)" "intValue (number_of_int 100) = 100"
    using number_of_int_safe [of 100] neg_zero_value(1) [of "number_of_int 100"]
    by (auto simp: isSafeInteger_def isInteger_def)
  have t: "textEncoder_encode [97] = [97]"
    by (simp add: textEncoder_encode_def high_surrogate_def low_surrogate_def scalar_utf8_def)
  have "encodeCbor ?o ?v = Inr [0xa1, 0x61, 0x61, 0x82, 0xf5, 0x18, 0x64]"
    unfolding encodeCbor_iff [OF r]
    by (simp add: a n t defined_entries_def text_ok_def text_bytes_def number_bytes_def arg_bytes_def
        high_surrogate_def low_surrogate_def)
  moreover have "wf_value ?v"
    by (simp add: a keys_ordered_def key_before_def array_index_def digit_def defined_entries_def)
  ultimately show ?thesis
    using decodeCbor_encodeCbor by (fastforce simp: defined_entries_def)
qed

text \<open>Property C29. The encoder accepts a value exactly when the value can be represented (finite numbers,
  safe integers, well-formed strings, plain objects and no other kinds, within the depth and container
  limits) and its encoding fits the byte limit; what it returns then is the canonical CBOR item.\<close>

theorem encodeCbor_accepts_iff:
  assumes "resolveOptions options = Inr resolved"
  shows "(encodeCbor options v = Inr bs) =
    (encodable resolved 0 v \<and> length (cbor_item v) \<le> rMaxByteLength resolved \<and> bs = cbor_item v)"
  using assms by (rule encodeCbor_iff)

theorem encodeCbor_accepts_iff_witness:
  "encodeCbor \<lparr>maxByteLength = Some (number_of_int 2), maxContainerLength = None, maxDepth = None\<rparr>
     (JArray [JNull]) = Inr [0x81, 0xf6]
   \<and> encodeCbor \<lparr>maxByteLength = Some (number_of_int 1), maxContainerLength = None, maxDepth = None\<rparr>
     (JArray [JNull]) \<noteq> Inr [0x81, 0xf6]"
proof -
  have r: "resolveOptions \<lparr>maxByteLength = Some (number_of_int n), maxContainerLength = None, maxDepth = None\<rparr>
      = Inr \<lparr>rMaxByteLength = nat n, rMaxContainerLength = 1000000, rMaxDepth = 64\<rparr>" if "n = 1 \<or> n = 2" for n
    using that
    by (auto simp: resolveOptions_def resolveLimit_def number_of_int_safe DEFAULT_MAX_CBOR_BYTE_LENGTH_def
        DEFAULT_MAX_CBOR_CONTAINER_LENGTH_def DEFAULT_MAX_CBOR_DEPTH_def CBOR_MAX_UINT32_def
        MAX_CONFIGURED_DEPTH_def)
  show ?thesis
    using encodeCbor_accepts_iff [OF r [of 2], of "JArray [JNull]" "[0x81, 0xf6]"]
      encodeCbor_accepts_iff [OF r [of 1], of "JArray [JNull]" "[0x81, 0xf6]"]
    by (simp add: arg_bytes_def)
qed

end
