(* ===== verification/Codec.thy ===== *)
theory Codec
  imports Framing CborRoundTrip
begin

text \<open>
  \<^verbatim>\<open>packages/protocol/src/codec.ts\<close>: protocol messages over framed CBOR. A message is validated, encoded
  and framed by \<open>encodeClientMessage\<close>/\<open>encodeServerMessage\<close>; \<open>ValidatedMessageDecoder\<close> composes the frame
  decoder, the CBOR decoder and the validation. \<open>check\<close> stands for TypeBox's \<open>Check\<close> applied to one of the
  two message schemas; TypeBox is not part of the repository, so it is a parameter, and the one thing
  the round trip needs of it is the hypothesis that leaving out \<open>undefined\<close> properties does not make a
  valid message invalid. An array is a list of values: one with holes, which \<open>every\<close> skips, is not modelled. Error messages are kept as the errors they print; \<open>boundedErrorMessage\<close> is the
  bound on their length.
\<close>

datatype message_kind = Client | Server

datatype inner_error = FrameE frame_error | CborE cbor_error

datatype codec_error =
    InvalidMessage message_kind
  | UnableToEncode message_kind inner_error
  | DecoderHasFailed message_kind
  | InvalidFrame message_kind inner_error
  | InvalidFraming message_kind inner_error

fun isProtocolValue :: "js_value \<Rightarrow> bool \<Rightarrow> bool" where
  "isProtocolValue JUndefined optionalProperty = optionalProperty"
| "isProtocolValue JNull _ = True"
| "isProtocolValue (JBool _) _ = True"
| "isProtocolValue (JNumber _) _ = True"
| "isProtocolValue (JString _) _ = True"
| "isProtocolValue (JArray vs) _ = (\<forall>v \<in> set vs. isProtocolValue v False)"
| "isProtocolValue (JObject flags es) _ =
     (\<not> nullPrototype flags \<and> (\<forall>v \<in> snd ` set es. isProtocolValue v True))"
| "isProtocolValue (JBytes _) _ = False"
| "isProtocolValue JOther _ = False"

definition parseMessage :: "(js_value \<Rightarrow> bool) \<Rightarrow> message_kind \<Rightarrow> js_value \<Rightarrow> codec_error + js_value" where
  "parseMessage check kind value =
     (if \<not> isProtocolValue value False \<or> \<not> check value then Inl (InvalidMessage kind) else Inr value)"

definition boundedErrorMessage :: "js_string \<Rightarrow> js_string" where
  "boundedErrorMessage message =
     (if length message \<le> 500 then message else take 497 message @ js ''...'')"

definition frame_options :: "js_number \<Rightarrow> cbor_options" where
  "frame_options m = \<lparr>maxByteLength = Some m, maxContainerLength = None, maxDepth = None\<rparr>"

definition default_frame_length :: "js_number option \<Rightarrow> js_number" where
  "default_frame_length options =
     (case options of None \<Rightarrow> number_of_int (int DEFAULT_MAX_FRAME_LENGTH) | Some m \<Rightarrow> m)"

definition encodeProtocolMessage ::
  "(js_value \<Rightarrow> bool) \<Rightarrow> message_kind \<Rightarrow> js_number option \<Rightarrow> js_value \<Rightarrow> codec_error + byte list" where
  "encodeProtocolMessage check kind options value =
     and_then (parseMessage check kind value) (\<lambda>validated.
     let maxFrameLength = default_frame_length options in
     case encodeCbor (frame_options maxFrameLength) validated of
       Inl e \<Rightarrow> Inl (UnableToEncode kind (CborE e))
     | Inr payload \<Rightarrow>
         (case encodeFrame payload of
            Inl e \<Rightarrow> Inl (UnableToEncode kind (FrameE e))
          | Inr frame \<Rightarrow>
              (case assertCompleteFrame frame (Some maxFrameLength) of
                 Inl e \<Rightarrow> Inl (UnableToEncode kind (FrameE e))
               | Inr _ \<Rightarrow> Inr frame)))"

record message_decoder =
  failed :: bool
  frames :: frame_decoder
  kind :: message_kind
  frameLimit :: js_number

definition new_MessageDecoder :: "message_kind \<Rightarrow> js_number option \<Rightarrow> frame_error + message_decoder" where
  "new_MessageDecoder k options =
     and_then (new_FrameDecoder options) (\<lambda>fd.
     Inr \<lparr>failed = False, frames = fd, kind = k, frameLimit = default_frame_length options\<rparr>)"

fun decode_frames ::
  "(js_value \<Rightarrow> bool) \<Rightarrow> message_kind \<Rightarrow> js_number \<Rightarrow> byte list list \<Rightarrow> codec_error + js_value list" where
  "decode_frames check k m [] = Inr []"
| "decode_frames check k m (f # fs) =
     (case decodeCbor (frame_options m) f of
        Inl e \<Rightarrow> Inl (InvalidFrame k (CborE e))
      | Inr v \<Rightarrow>
          and_then (parseMessage check k v) (\<lambda>message.
          and_then (decode_frames check k m fs) (\<lambda>messages. Inr (message # messages))))"

definition message_push ::
  "(js_value \<Rightarrow> bool) \<Rightarrow> byte list \<Rightarrow> message_decoder
     \<Rightarrow> ((codec_error + js_value list) \<times> message_decoder) option" where
  "message_push check chunk d =
     (if failed d then Some (Inl (DecoderHasFailed (kind d)), d)
      else case frame_push chunk (frames d) of
        None \<Rightarrow> None
      | Some (Inl e, fd) \<Rightarrow>
          Some (Inl (InvalidFrame (kind d) (FrameE e)), d\<lparr>frames := fd, failed := True\<rparr>)
      | Some (Inr fs, fd) \<Rightarrow>
          (case decode_frames check (kind d) (frameLimit d) fs of
             Inl e \<Rightarrow> Some (Inl e, d\<lparr>frames := fd, failed := True\<rparr>)
           | Inr messages \<Rightarrow> Some (Inr messages, d\<lparr>frames := fd\<rparr>)))"

definition message_end :: "message_decoder \<Rightarrow> (codec_error + unit) \<times> message_decoder" where
  "message_end d =
     (if failed d then (Inl (DecoderHasFailed (kind d)), d)
      else case frame_end (frames d) of
        (Inl e, fd) \<Rightarrow> (Inl (InvalidFraming (kind d) (FrameE e)), d\<lparr>frames := fd, failed := True\<rparr>)
      | (Inr _, fd) \<Rightarrow> (Inr (), d\<lparr>frames := fd\<rparr>))"

definition PROTOCOL_VERSION :: int where "PROTOCOL_VERSION = 1"

definition isSupportedProtocolVersion :: "js_number \<Rightarrow> bool" where
  "isSupportedProtocolVersion version \<longleftrightarrow>
     isInteger version \<and> version = number_of_int PROTOCOL_VERSION"

subsection \<open>The abstract message decoder\<close>

definition split_messages ::
  "(js_value \<Rightarrow> bool) \<Rightarrow> message_kind \<Rightarrow> js_number \<Rightarrow> nat \<Rightarrow> byte list
     \<Rightarrow> codec_error + (js_value list \<times> byte list)" where
  "split_messages check k ml m bs =
     (case split_frames m bs of
        Inl e \<Rightarrow> Inl (InvalidFrame k (FrameE e))
      | Inr (fs, r) \<Rightarrow> and_then (decode_frames check k ml fs) (\<lambda>messages. Inr (messages, r)))"

definition message_decoder_ok :: "message_kind \<Rightarrow> js_number \<Rightarrow> nat \<Rightarrow> message_decoder \<Rightarrow> bool" where
  "message_decoder_ok k ml m d \<longleftrightarrow>
     \<not> failed d \<and> decoder_ok m (frames d) \<and> kind d = k \<and> frameLimit d = ml"

lemma decode_frames_append:
  "decode_frames check k m (fs @ gs) =
     and_then (decode_frames check k m fs) (\<lambda>a.
     and_then (decode_frames check k m gs) (\<lambda>b. Inr (a @ b)))"
proof (induction fs)
  case Nil
  show ?case by (cases "decode_frames check k m gs") auto
next
  case (Cons f fs)
  then show ?case
    by (auto simp: and_then_def split: sum.splits)
qed

interpretation md: resumable_decoder "message_push check" "message_decoder_ok k ml m"
  "\<lambda>d. pending (frames d)" "split_messages check k ml m" for check k ml m
proof unfold_locales
  show "split_messages check k ml m (a @ b) = (case split_messages check k ml m (r @ b) of
      Inl e \<Rightarrow> Inl e | Inr (gs, r') \<Rightarrow> Inr (fs @ gs, r'))"
    if "split_messages check k ml m a = Inr (fs, r)" for a b fs r
    using that
    by (auto simp: split_messages_def and_then_def decode_frames_append split_frames_resume split: sum.splits)
  show "\<exists>fs r. split_messages check k ml m a = Inr (fs, r)"
    if "split_messages check k ml m (a @ b) = Inr x" for a b x
  proof (cases "split_frames m a")
    case (Inl e)
    then show ?thesis using that split_frames_error [OF Inl, of b] by (simp add: split_messages_def)
  next
    case (Inr p)
    obtain fs r where "split_frames m a = Inr (fs, r)" using Inr by (cases p) auto
    then show ?thesis
      using that split_frames_resume [of m a fs r b]
      by (auto simp: split_messages_def and_then_def decode_frames_append split: sum.splits)
  qed
  show "\<exists>d'. message_push check c d = Some (Inr fs, d') \<and> message_decoder_ok k ml m d'
      \<and> pending (frames d') = r"
    if ok: "message_decoder_ok k ml m d"
      and s: "split_messages check k ml m (pending (frames d) @ c) = Inr (fs, r)" for d c fs r
  proof -
    obtain fr where fr: "split_frames m (pending (frames d) @ c) = Inr (fr, r)"
      and dec: "decode_frames check k ml fr = Inr fs"
      using s by (auto simp: split_messages_def and_then_eq_Inr split: sum.splits)
    obtain fd where "frame_push c (frames d) = Some (Inr fr, fd)" "decoder_ok m fd" "pending fd = r"
      using fd.push_ok [OF _ fr] ok by (auto simp: message_decoder_ok_def)
    then show ?thesis using ok dec by (auto simp: message_push_def message_decoder_ok_def)
  qed
qed

subsection \<open>Properties\<close>

lemma isProtocolValue_prune: "isProtocolValue v opt \<Longrightarrow> isProtocolValue (prune v) opt"
  by (induction v opt rule: isProtocolValue.induct) (fastforce simp: defined_entries_def)+

lemma resolve_default:
  "resolveMaxFrameLength (Some (default_frame_length options)) = resolveMaxFrameLength options"
  by (cases options) (simp_all add: resolveMaxFrameLength_def default_frame_length_def)

lemma encodeProtocolMessage_frame:
  assumes "encodeProtocolMessage check k options v = Inr frame"
    and m: "resolveMaxFrameLength options = Inr m"
  shows "\<exists>payload. encodeCbor (frame_options (default_frame_length options)) v = Inr payload
    \<and> encodeFrame payload = Inr frame \<and> length payload \<le> m \<and> parseMessage check k v = Inr v"
proof -
  have v: "parseMessage check k v = Inr v"
    using assms(1) by (simp add: encodeProtocolMessage_def parseMessage_def split: if_splits)
  obtain payload where p: "encodeCbor (frame_options (default_frame_length options)) v = Inr payload"
    using assms(1) v
    by (cases "encodeCbor (frame_options (default_frame_length options)) v")
      (simp_all add: encodeProtocolMessage_def Let_def)
  have f: "encodeFrame payload = Inr frame"
    and a: "assertCompleteFrame frame (Some (default_frame_length options)) = Inr ()"
    using assms(1) v p by (simp_all add: encodeProtocolMessage_def Let_def split: sum.split_asm)
  have "length payload \<le> m"
    using assertComplete_encoded [OF f, of "Some (default_frame_length options)" m] m a
    by (simp add: resolve_default split: if_splits)
  then show ?thesis using p f v by blast
qed

lemma message_end_iff:
  assumes "message_decoder_ok k ml m d"
  shows "fst (message_end d) =
    (if pending (frames d) = [] then Inr () else Inl (InvalidFraming k (FrameE TruncatedFrame)))"
  using assms frame_end_iff [of m "frames d"]
  by (auto simp: message_end_def message_decoder_ok_def)

lemma split_messages_stream:
  assumes "list_all2 (\<lambda>v frame. \<exists>payload. encodeFrame payload = Inr frame \<and> length payload \<le> m
      \<and> decodeCbor (frame_options ml) payload = Inr (prune v)
      \<and> parseMessage check k (prune v) = Inr (prune v)) ms fs"
    and m: "m < 2 ^ 32"
  shows "split_messages check k ml m (concat fs) = Inr (map prune ms, [])"
proof -
  have "\<exists>ps. concat fs = concat (map (\<lambda>f. be_bytes 4 (length f) @ f) ps)
      \<and> (\<forall>p \<in> set ps. length p \<le> m) \<and> decode_frames check k ml ps = Inr (map prune ms)"
    using assms(1)
  proof (induction rule: list_all2_induct)
    case Nil
    show ?case by (rule exI [of _ "[]"]) simp
  next
    case (Cons v ms frame fs)
    from Cons.IH obtain ps where
      ps: "concat fs = concat (map (\<lambda>f. be_bytes 4 (length f) @ f) ps)" "\<forall>p \<in> set ps. length p \<le> m"
      "decode_frames check k ml ps = Inr (map prune ms)" by blast
    from Cons.hyps obtain payload where
      payload: "encodeFrame payload = Inr frame" "length payload \<le> m"
      "decodeCbor (frame_options ml) payload = Inr (prune v)"
      "parseMessage check k (prune v) = Inr (prune v)" by blast
    have "frame = be_bytes 4 (length payload) @ payload"
      using payload(1) by (simp add: encodeFrame_eq split: if_splits)
    then show ?case using ps payload(2-4) by (intro exI [of _ "payload # ps"]) simp
  qed
  then show ?thesis using split_frames_stream [OF m] by (auto simp: split_messages_def)
qed

text \<open>Property C1. End to end: messages encoded by \<open>encodeClientMessage\<close> or \<open>encodeServerMessage\<close> and sent
  over a transport that cuts the bytes anywhere arrive, all of them and in order, at the message decoder
  of the same kind and options, with their \<open>undefined\<close> properties left out, and the end of the stream is
  accepted. Of the schema check the statement needs that it also accepts these messages without their
  \<open>undefined\<close> properties.\<close>

theorem message_stream_roundtrip:
  assumes "new_MessageDecoder k options = Inr d"
    and sent: "map Inr fs = map (encodeProtocolMessage check k options) ms"
    and wf: "\<forall>v \<in> set ms. wf_value v"
    and optional_undefined: "\<forall>v \<in> set ms. check v \<longrightarrow> check (prune v)"
    and chunks: "concat chunks = concat fs"
  shows "\<exists>d'. push_all (message_push check) chunks d = Some (Inr (map prune ms), d')
    \<and> fst (message_end d') = Inr ()"
proof -
  let ?ml = "default_frame_length options"
  obtain fd where fd: "new_FrameDecoder options = Inr fd" "frames d = fd"
    and d: "\<not> failed d" "kind d = k" "frameLimit d = ?ml"
    using assms(1) by (auto simp: new_MessageDecoder_def and_then_eq_Inr)
  define m where "m = maxFrameLength fd"
  have m: "resolveMaxFrameLength options = Inr m" "m < 2 ^ 32"
    using fd(1) resolve_bound by (auto simp: new_FrameDecoder_def m_def fresh_decoder_def split: sum.splits)
  have ok: "message_decoder_ok k ?ml m d" and p: "pending (frames d) = []"
    using new_FrameDecoder_ok [OF fd(1)] fd(2) d by (auto simp: message_decoder_ok_def m_def)
  have "list_all2 (\<lambda>v frame. \<exists>payload. encodeFrame payload = Inr frame \<and> length payload \<le> m
      \<and> decodeCbor (frame_options ?ml) payload = Inr (prune v)
      \<and> parseMessage check k (prune v) = Inr (prune v)) ms fs"
  proof (rule list_all2_all_nthI)
    show len: "length ms = length fs" using sent by (metis length_map)
    fix i assume i: "i < length ms"
    then have "encodeProtocolMessage check k options (ms ! i) = Inr (fs ! i)"
      using arg_cong [OF sent, of "\<lambda>xs. xs ! i"] len by simp
    from encodeProtocolMessage_frame [OF this m(1)] obtain payload where
      pl: "encodeCbor (frame_options ?ml) (ms ! i) = Inr payload" "encodeFrame payload = Inr (fs ! i)"
      "length payload \<le> m" "parseMessage check k (ms ! i) = Inr (ms ! i)" by blast
    have "decodeCbor (frame_options ?ml) payload = Inr (prune (ms ! i))"
      using decode_encoded [OF pl(1)] wf i by simp
    moreover have "parseMessage check k (prune (ms ! i)) = Inr (prune (ms ! i))"
      using pl(4) optional_undefined i isProtocolValue_prune [of "ms ! i" False]
      by (auto simp: parseMessage_def split: if_splits)
    ultimately show "\<exists>payload. encodeFrame payload = Inr (fs ! i) \<and> length payload \<le> m
      \<and> decodeCbor (frame_options ?ml) payload = Inr (prune (ms ! i))
      \<and> parseMessage check k (prune (ms ! i)) = Inr (prune (ms ! i))"
      using pl by blast
  qed
  from split_messages_stream [OF this m(2)]
  have "split_messages check k ?ml m (pending (frames d) @ concat chunks) = Inr (map prune ms, [])"
    using chunks p by simp
  then obtain d' where "push_all (message_push check) chunks d = Some (Inr (map prune ms), d')"
    "message_decoder_ok k ?ml m d'" "pending (frames d') = []"
    using md.push_all_ok [OF ok, of check chunks "map prune ms" "[]"] p
    by (auto simp: split_messages_def split_frames_short)
  then show ?thesis using message_end_iff by auto
qed

theorem message_stream_roundtrip_witness:
  "\<exists>d'. push_all (message_push (\<lambda>v. v \<noteq> JNull)) [[0, 0], [0, 4, 0xa1, 0x61], [0x61, 0xf5]]
        \<lparr>failed = False, frames = fresh_decoder 64, kind = Client, frameLimit = number_of_int 64\<rparr>
      = Some (Inr [JObject plain_object [(js ''a'', JBool True)]], d')
    \<and> fst (message_end d') = Inr ()"
proof -
  let ?check = "\<lambda>v. v \<noteq> JNull"
  let ?m = "number_of_int 64"
  let ?v = "JObject plain_object [(js ''a'', JBool True), (js ''b'', JUndefined)]"
  have a: "js ''a'' = [97]" "js ''b'' = [98]" by (simp_all add: js_def)
  have t: "textEncoder_encode [97] = [97]"
    by (simp add: textEncoder_encode_def high_surrogate_def low_surrogate_def scalar_utf8_def)
  have r: "resolveOptions (frame_options ?m)
      = Inr \<lparr>rMaxByteLength = 64, rMaxContainerLength = 1000000, rMaxDepth = 64\<rparr>"
    by (simp add: resolveOptions_def frame_options_def resolveLimit_def number_of_int_safe
        DEFAULT_MAX_CBOR_BYTE_LENGTH_def DEFAULT_MAX_CBOR_CONTAINER_LENGTH_def DEFAULT_MAX_CBOR_DEPTH_def
        CBOR_MAX_UINT32_def MAX_CONFIGURED_DEPTH_def)
  have c: "encodeCbor (frame_options ?m) ?v = Inr [0xa1, 0x61, 0x61, 0xf5]"
    unfolding encodeCbor_iff [OF r]
    by (simp add: a t defined_entries_def text_ok_def text_bytes_def arg_bytes_def
        high_surrogate_def low_surrogate_def)
  have rm: "resolveMaxFrameLength (Some ?m) = Inr 64"
    by (simp add: resolveMaxFrameLength_def number_of_int_safe MAX_UINT32_def)
  have "encodeProtocolMessage ?check Client (Some ?m) ?v = Inr [0, 0, 0, 4, 0xa1, 0x61, 0x61, 0xf5]"
    by (simp add: encodeProtocolMessage_def parseMessage_def default_frame_length_def c encodeFrame_def
        ushr_def MAX_UINT32_def assertCompleteFrame_def rm FRAME_HEADER_LENGTH_def header_value_def)
  moreover have "wf_value ?v"
    by (simp add: a keys_ordered_def key_before_def array_index_def digit_def defined_entries_def)
  moreover have "new_MessageDecoder Client (Some ?m) =
      Inr \<lparr>failed = False, frames = fresh_decoder 64, kind = Client, frameLimit = ?m\<rparr>"
    by (simp add: new_MessageDecoder_def new_FrameDecoder_def rm default_frame_length_def)
  ultimately show ?thesis
    using message_stream_roundtrip [of Client "Some ?m" _ "[[0, 0, 0, 4, 0xa1, 0x61, 0x61, 0xf5]]" ?check "[?v]"
        "[[0, 0], [0, 4, 0xa1, 0x61], [0x61, 0xf5]]"]
    by (simp add: defined_entries_def)
qed

lemma decode_frames_valid:
  "decode_frames check k m fs = Inr ms \<Longrightarrow> v \<in> set ms \<Longrightarrow> isProtocolValue v False \<and> check v"
  by (induction check k m fs arbitrary: ms rule: decode_frames.induct)
    (auto simp: and_then_eq_Inr parseMessage_def split: sum.splits if_splits)

text \<open>Property C28. Whatever bytes arrive, a message decoder only hands out values that passed validation,
  and once it has thrown it refuses every later push and end.\<close>

theorem message_push_validated:
  assumes "message_push check chunk d = Some (res, d')"
  shows "case res of
      Inr ms \<Rightarrow> \<not> failed d' \<and> (\<forall>v \<in> set ms. isProtocolValue v False \<and> check v)
    | Inl e \<Rightarrow> failed d' \<and> message_push check chunk' d' = Some (Inl (DecoderHasFailed (kind d)), d')
        \<and> message_end d' = (Inl (DecoderHasFailed (kind d)), d')"
  using assms decode_frames_valid [of check "kind d" "frameLimit d"]
  by (auto simp: message_push_def message_end_def split: if_splits option.splits sum.splits)

theorem message_push_validated_witness:
  "\<exists>d'. message_push (\<lambda>v. v = JNull) [0, 0, 0, 5]
      \<lparr>failed = False, frames = fresh_decoder 4, kind = Client, frameLimit = number_of_int 4\<rparr>
      = Some (Inl (InvalidFrame Client (FrameE (FrameLimit 5 4))), d')
    \<and> failed d' \<and> message_push (\<lambda>v. v = JNull) [7] d' = Some (Inl (DecoderHasFailed Client), d')
    \<and> message_end d' = (Inl (DecoderHasFailed Client), d')"
proof -
  let ?d = "\<lparr>failed = False, frames = fresh_decoder 4, kind = Client, frameLimit = number_of_int 4\<rparr>"
  have "frame_push [0, 0, 0, 5] (fresh_decoder 4)
      = Some (Inl (FrameLimit 5 4), fail ((fresh_decoder 4)\<lparr>header := [0, 0, 0, 5]\<rparr>))"
    by (simp add: frame_push_def fresh_decoder_def push_loop.simps push_iteration_def
        FRAME_HEADER_LENGTH_def set_at_def header_value_def Let_def)
  then have push: "message_push (\<lambda>v. v = JNull) [0, 0, 0, 5] ?d
      = Some (Inl (InvalidFrame Client (FrameE (FrameLimit 5 4))),
          ?d\<lparr>frames := fail ((fresh_decoder 4)\<lparr>header := [0, 0, 0, 5]\<rparr>), failed := True\<rparr>)"
    by (simp add: message_push_def)
  then show ?thesis using message_push_validated [OF push, of "[7]"] by simp
qed

end
