(* ===== verification/KeyedQueue.thy ===== *)
theory KeyedQueue
  imports Prelude
begin

text \<open>
  \<^verbatim>\<open>packages/agent/src/harness/session/keyed-operation-queue.ts\<close>: operations run one after the other per
  key, a barrier runs alone, and at most \<open>maxConcurrentOperations\<close> run at once. The promises are made
  explicit: an operation is a record of what it waits for and how far it has come, and each turn of the
  event loop that the code waits for is a step. An operation is numbered by its position in the order of
  the calls. That an operation fails or succeeds makes no difference here, as in the code.
\<close>

datatype status = Waiting | PermitWait | Running | Settled

record 'k op =
  opKey :: "'k option"
  deps :: "nat list"
  status :: status

record 'k queue =
  ops :: "'k op list"
  tails :: "'k \<rightharpoonup> nat"
  barrier :: "nat option"
  activeOperations :: nat
  permitWaiters :: "nat list"
  maxConcurrent :: "nat option"

definition new_queue :: "nat option \<Rightarrow> 'k queue option" where
  "new_queue m =
     (if m = Some 0 then None
      else Some \<lparr>ops = [], tails = Map.empty, barrier = None, activeOperations = 0, permitWaiters = [],
                 maxConcurrent = m\<rparr>)"

definition opt_list :: "'a option \<Rightarrow> 'a list" where
  "opt_list x = (case x of None \<Rightarrow> [] | Some y \<Rightarrow> [y])"

text \<open>\<open>keys\<close> are the keys of the map \<open>tails\<close> in some order.\<close>

definition q_enqueue :: "'k \<Rightarrow> 'k queue \<Rightarrow> 'k queue" where
  "q_enqueue k q =
     q\<lparr>ops := ops q @ [\<lparr>opKey = Some k, deps = opt_list (barrier q) @ opt_list (tails q k), status = Waiting\<rparr>],
       tails := (tails q)(k \<mapsto> length (ops q))\<rparr>"

definition q_enqueueBarrier :: "'k list \<Rightarrow> 'k queue \<Rightarrow> 'k queue" where
  "q_enqueueBarrier keys q =
     q\<lparr>ops := ops q @ [\<lparr>opKey = None,
          deps = opt_list (barrier q) @ concat (map (\<lambda>k. opt_list (tails q k)) keys), status = Waiting\<rparr>],
       barrier := Some (length (ops q))\<rparr>"

definition set_status :: "nat \<Rightarrow> status \<Rightarrow> 'k queue \<Rightarrow> 'k queue" where
  "set_status n st q = q\<lparr>ops := (ops q)[n := (ops q ! n)\<lparr>status := st\<rparr>]\<rparr>"

abbreviation op_status :: "'k queue \<Rightarrow> nat \<Rightarrow> status" where
  "op_status q n \<equiv> status (ops q ! n)"

definition settled :: "'k queue \<Rightarrow> nat \<Rightarrow> bool" where
  "settled q n \<longleftrightarrow> op_status q n = Settled"

text \<open>\<open>runOperation\<close> up to the call of the operation: \<open>acquirePermit\<close>.\<close>

definition acquirePermit :: "nat \<Rightarrow> 'k queue \<Rightarrow> 'k queue" where
  "acquirePermit n q =
     (case maxConcurrent q of
        None \<Rightarrow> set_status n Running q
      | Some m \<Rightarrow>
          if activeOperations q < m
          then set_status n Running (q\<lparr>activeOperations := activeOperations q + 1\<rparr>)
          else set_status n PermitWait (q\<lparr>permitWaiters := permitWaiters q @ [n]\<rparr>))"

definition releasePermit :: "'k queue \<Rightarrow> 'k queue" where
  "releasePermit q =
     (case maxConcurrent q of
        None \<Rightarrow> q
      | Some m \<Rightarrow>
          (case permitWaiters q of
             w # ws \<Rightarrow> set_status w Running (q\<lparr>permitWaiters := ws\<rparr>)
           | [] \<Rightarrow> q\<lparr>activeOperations := activeOperations q - 1\<rparr>))"

definition q_start :: "nat \<Rightarrow> 'k queue \<Rightarrow> 'k queue option" where
  "q_start n q =
     (if n < length (ops q) \<and> op_status q n = Waiting \<and> (\<forall>d \<in> set (deps (ops q ! n)). settled q d)
      then Some (acquirePermit n q) else None)"

definition q_finish :: "nat \<Rightarrow> 'k queue \<Rightarrow> 'k queue option" where
  "q_finish n q =
     (if n < length (ops q) \<and> op_status q n = Running then Some (releasePermit (set_status n Settled q))
      else None)"

text \<open>The clean-up that follows a settled operation: its key's tail is removed if it is still the tail.\<close>

definition q_cleanup :: "nat \<Rightarrow> 'k queue \<Rightarrow> 'k queue option" where
  "q_cleanup n q =
     (if n < length (ops q) \<and> settled q n
      then (case opKey (ops q ! n) of
              None \<Rightarrow> None
            | Some k \<Rightarrow> Some (if tails q k = Some n then q\<lparr>tails := (tails q)(k := None)\<rparr> else q))
      else None)"

inductive queue_step :: "'k queue \<Rightarrow> 'k queue \<Rightarrow> bool" where
  enqueue: "queue_step q (q_enqueue k q)"
| enqueue_barrier: "set keys = dom (tails q) \<Longrightarrow> queue_step q (q_enqueueBarrier keys q)"
| start: "q_start n q = Some q' \<Longrightarrow> queue_step q q'"
| finish: "q_finish n q = Some q' \<Longrightarrow> queue_step q q'"
| cleanup: "q_cleanup n q = Some q' \<Longrightarrow> queue_step q q'"

subsection \<open>Ordering\<close>

text \<open>Two operations must not overlap if one is a barrier or they have the same key.\<close>

definition conflict :: "'k queue \<Rightarrow> nat \<Rightarrow> nat \<Rightarrow> bool" where
  "conflict q m n \<longleftrightarrow> opKey (ops q ! m) = None \<or> opKey (ops q ! n) = None
     \<or> opKey (ops q ! m) = opKey (ops q ! n)"

definition ordered :: "'k queue \<Rightarrow> bool" where
  "ordered q \<longleftrightarrow>
     (\<forall>n < length (ops q). \<forall>m < n. conflict q m n \<longrightarrow> op_status q n \<noteq> Waiting \<longrightarrow> settled q m)"

text \<open>What a waiting operation waits for covers every earlier conflicting one.\<close>

definition covered :: "'k queue \<Rightarrow> bool" where
  "covered q \<longleftrightarrow>
     (\<forall>n < length (ops q). (\<forall>d \<in> set (deps (ops q ! n)). d < n) \<and>
       (\<forall>m < n. conflict q m n \<longrightarrow> op_status q n = Waiting \<longrightarrow> \<not> settled q m \<longrightarrow>
          (\<exists>d \<in> set (deps (ops q ! n)). m = d \<or> m < d \<and> conflict q m d)))"

text \<open>The tails and the barrier cover every operation that is not settled.\<close>

definition tails_cover :: "'k queue \<Rightarrow> bool" where
  "tails_cover q \<longleftrightarrow>
     (\<forall>k t. tails q k = Some t \<longrightarrow> t < length (ops q) \<and> opKey (ops q ! t) = Some k) \<and>
     (\<forall>b. barrier q = Some b \<longrightarrow> b < length (ops q) \<and> opKey (ops q ! b) = None) \<and>
     (\<forall>m < length (ops q). \<not> settled q m \<longrightarrow>
        (case opKey (ops q ! m) of
           Some k \<Rightarrow> (\<exists>t. tails q k = Some t \<and> m \<le> t)
         | None \<Rightarrow> (\<exists>b. barrier q = Some b \<and> m \<le> b)))"

text \<open>The permits: with a limit, the active ones are the running ones, and someone waits for a permit only
  when all are taken.\<close>

definition running :: "'k queue \<Rightarrow> nat set" where
  "running q = {n. n < length (ops q) \<and> op_status q n = Running}"

definition permits_ok :: "'k queue \<Rightarrow> bool" where
  "permits_ok q \<longleftrightarrow>
     distinct (permitWaiters q) \<and>
     (\<forall>n. n \<in> set (permitWaiters q) \<longleftrightarrow> n < length (ops q) \<and> op_status q n = PermitWait) \<and>
     (case maxConcurrent q of
        None \<Rightarrow> permitWaiters q = []
      | Some m \<Rightarrow> 0 < m \<and> activeOperations q = card (running q) \<and> activeOperations q \<le> m \<and>
          (permitWaiters q \<noteq> [] \<longrightarrow> activeOperations q = m))"

definition queue_ok :: "'k queue \<Rightarrow> bool" where
  "queue_ok q \<longleftrightarrow> ordered q \<and> covered q \<and> tails_cover q \<and> permits_ok q"

lemma set_status_simps [simp]:
  "length (ops (set_status n st q)) = length (ops q)"
  "tails (set_status n st q) = tails q" "barrier (set_status n st q) = barrier q"
  "maxConcurrent (set_status n st q) = maxConcurrent q"
  "activeOperations (set_status n st q) = activeOperations q"
  "permitWaiters (set_status n st q) = permitWaiters q"
  by (simp_all add: set_status_def)

lemma set_status_op:
  "n < length (ops q) \<Longrightarrow> m < length (ops q) \<Longrightarrow>
     ops (set_status n st q) ! m = (if m = n then (ops q ! m)\<lparr>status := st\<rparr> else ops q ! m)"
  by (simp add: set_status_def nth_list_update)

text \<open>Steps that only change statuses.\<close>

definition same_shape :: "'k queue \<Rightarrow> 'k queue \<Rightarrow> bool" where
  "same_shape q q' \<longleftrightarrow> length (ops q') = length (ops q) \<and> tails q' = tails q \<and> barrier q' = barrier q
     \<and> maxConcurrent q' = maxConcurrent q
     \<and> (\<forall>n < length (ops q). opKey (ops q' ! n) = opKey (ops q ! n) \<and> deps (ops q' ! n) = deps (ops q ! n))"

definition progresses :: "'k queue \<Rightarrow> 'k queue \<Rightarrow> bool" where
  "progresses q q' \<longleftrightarrow> same_shape q q' \<and>
     (\<forall>n < length (ops q). (settled q n \<longrightarrow> settled q' n) \<and> (op_status q' n = Waiting \<longrightarrow> op_status q n = Waiting) \<and>
        (op_status q n = Waiting \<longrightarrow> op_status q' n \<noteq> Waiting \<longrightarrow> (\<forall>d \<in> set (deps (ops q ! n)). settled q d)))"

lemma started_after_conflicts:
  assumes "ordered q" "covered q" "n < length (ops q)" "m < n" "conflict q m n"
    and "\<forall>d \<in> set (deps (ops q ! n)). settled q d"
  shows "settled q m"
proof (rule ccontr)
  assume ns: "\<not> settled q m"
  show False
  proof (cases "op_status q n = Waiting")
    case True
    then obtain d where d: "d \<in> set (deps (ops q ! n))" "m = d \<or> m < d \<and> conflict q m d" "d < n"
      using assms(2-5) ns unfolding covered_def by blast
    then have "settled q d" using assms(6) by blast
    moreover from this have "op_status q d \<noteq> Waiting" by (simp add: settled_def)
    ultimately show False using d ns assms(1,3) unfolding ordered_def by (metis less_trans)
  next
    case False
    then show False using assms(1,3-5) ns unfolding ordered_def by blast
  qed
qed

lemma progresses_keeps:
  assumes "progresses q q'" "ordered q" "covered q" "tails_cover q"
  shows "ordered q'" "covered q'" "tails_cover q'"
proof -
  have len: "length (ops q') = length (ops q)"
    and key: "\<And>n. n < length (ops q) \<Longrightarrow> opKey (ops q' ! n) = opKey (ops q ! n)"
    and dep: "\<And>n. n < length (ops q) \<Longrightarrow> deps (ops q' ! n) = deps (ops q ! n)"
    and more: "\<And>n. n < length (ops q) \<Longrightarrow> settled q n \<Longrightarrow> settled q' n"
    and wait: "\<And>n. n < length (ops q) \<Longrightarrow> op_status q' n = Waiting \<Longrightarrow> op_status q n = Waiting"
    and ready: "\<And>n. n < length (ops q) \<Longrightarrow> op_status q n = Waiting \<Longrightarrow> op_status q' n \<noteq> Waiting \<Longrightarrow>
      \<forall>d \<in> set (deps (ops q ! n)). settled q d"
    and tb: "tails q' = tails q" "barrier q' = barrier q"
    using assms(1) unfolding progresses_def same_shape_def by blast+
  have conf: "conflict q' m n = conflict q m n" if "m < length (ops q)" "n < length (ops q)" for m n
    using that key by (simp add: conflict_def)
  show "ordered q'"
    unfolding ordered_def
  proof (intro allI impI)
    fix n m
    assume n: "n < length (ops q')" "m < n" "conflict q' m n" "op_status q' n \<noteq> Waiting"
    then have c: "n < length (ops q)" "m < length (ops q)" "conflict q m n" using len conf by auto
    have "settled q m"
    proof (cases "op_status q n = Waiting")
      case True
      then show ?thesis
        using started_after_conflicts [OF assms(2,3) c(1) n(2) c(3)] ready [OF c(1)] n(4) by blast
    next
      case False
      then show ?thesis using assms(2) n(2) c unfolding ordered_def by blast
    qed
    then show "settled q' m" using more c(2) by blast
  qed
  show "covered q'"
    unfolding covered_def
  proof (intro allI impI conjI)
    fix n assume n: "n < length (ops q')"
    then show "\<forall>d \<in> set (deps (ops q' ! n)). d < n"
      using assms(3) dep len unfolding covered_def by simp
    fix m assume m: "m < n" "conflict q' m n" "op_status q' n = Waiting" "\<not> settled q' m"
    then obtain d where "d \<in> set (deps (ops q ! n))" "m = d \<or> m < d \<and> conflict q m d" "d < n"
      using n len assms(3) conf [of m n] wait [of n] more [of m] unfolding covered_def by (metis less_trans)
    then show "\<exists>d \<in> set (deps (ops q' ! n)). m = d \<or> m < d \<and> conflict q' m d"
      using n m(1) len dep [of n] conf [of m] by auto
  qed
  show "tails_cover q'"
    using assms(4) key more tb unfolding tails_cover_def len
    by (fastforce split: option.splits)
qed

lemma acquire_progresses:
  assumes "q_start n q = Some q'"
  shows "progresses q q'"
  using assms
  by (auto simp: q_start_def acquirePermit_def progresses_def same_shape_def settled_def set_status_def
      nth_list_update split: if_splits option.splits)

lemma finish_progresses:
  assumes "q_finish n q = Some q'" "permits_ok q"
  shows "progresses q q'"
proof -
  have w: "w < length (ops q) \<and> op_status q w = PermitWait" if "w \<in> set (permitWaiters q)" for w
    using assms(2) that by (simp add: permits_ok_def)
  show ?thesis
    using assms(1) w
    by (auto simp: q_finish_def releasePermit_def progresses_def same_shape_def settled_def set_status_def
        nth_list_update split: if_splits option.splits list.splits)
qed

lemma append_op_keeps:
  fixes q :: "'k queue"
  assumes "ordered q" "covered q" "ops q' = ops q @ [new]" "status new = Waiting"
    and "\<forall>d \<in> set (deps new). d < length (ops q)"
    and cover: "\<And>m. m < length (ops q) \<Longrightarrow> \<not> settled q m \<Longrightarrow> conflict q' m (length (ops q)) \<Longrightarrow>
      \<exists>d \<in> set (deps new). m = d \<or> m < d \<and> conflict q m d"
  shows "ordered q'" "covered q'"
proof -
  have old: "ops q' ! i = ops q ! i" if "i < length (ops q)" for i
    using that assms(3) by (simp add: nth_append)
  have new: "ops q' ! length (ops q) = new" using assms(3) by simp
  have conf: "conflict q' m n = conflict q m n" if "m < length (ops q)" "n < length (ops q)" for m n
    using that by (simp add: conflict_def old)
  show "ordered q'"
    unfolding ordered_def
  proof (intro allI impI)
    fix n m
    assume n: "n < length (ops q')" "m < n" "conflict q' m n" "op_status q' n \<noteq> Waiting"
    have "n \<noteq> length (ops q)" using n(4) new assms(4) by auto
    then have "n < length (ops q)" using n(1) assms(3) by simp
    moreover from this n have "conflict q m n" "op_status q n \<noteq> Waiting" by (simp_all add: conf old)
    ultimately have "settled q m" using assms(1) n(2) unfolding ordered_def by blast
    then show "settled q' m" using n(2) \<open>n < length (ops q)\<close> by (simp add: settled_def old)
  qed
  show "covered q'"
    unfolding covered_def
  proof (intro allI impI conjI)
    fix n assume n: "n < length (ops q')"
    show "\<forall>d \<in> set (deps (ops q' ! n)). d < n"
    proof (cases "n = length (ops q)")
      case True
      then show ?thesis using assms(5) new by simp
    next
      case False
      then show ?thesis using n assms(2,3) old unfolding covered_def by simp
    qed
    fix m assume m: "m < n" "conflict q' m n" "op_status q' n = Waiting" "\<not> settled q' m"
    show "\<exists>d \<in> set (deps (ops q' ! n)). m = d \<or> m < d \<and> conflict q' m d"
    proof (cases "n = length (ops q)")
      case True
      then have "\<not> settled q m" using m by (simp add: settled_def old)
      with cover [of m] True m(1,2) obtain d where "d \<in> set (deps new)" "m = d \<or> m < d \<and> conflict q m d"
        by auto
      then show ?thesis using True new assms(5) conf [of m] m(1) by auto
    next
      case False
      then have l: "n < length (ops q)" using n assms(3) by simp
      with m have "conflict q m n" "op_status q n = Waiting" "\<not> settled q m"
        by (simp_all add: conf old settled_def)
      then obtain d where "d \<in> set (deps (ops q ! n))" "m = d \<or> m < d \<and> conflict q m d" "d < n"
        using assms(2) l m(1) unfolding covered_def by metis
      then show ?thesis using l m(1) old conf [of m d] by auto
    qed
  qed
qed

subsection \<open>Permits\<close>

lemma finite_running [simp]: "finite (running q)"
  by (simp add: running_def)

lemma set_status_status:
  "n < length (ops q) \<Longrightarrow> m < length (ops q) \<Longrightarrow>
     op_status (set_status n st q) m = (if m = n then st else op_status q m)"
  by (simp add: set_status_op)

lemma running_set_status:
  "n < length (ops q) \<Longrightarrow>
     running (set_status n st q) = (if st = Running then insert n (running q) else running q - {n})"
proof (rule set_eqI)
  fix i
  assume "n < length (ops q)"
  then show "i \<in> running (set_status n st q) \<longleftrightarrow> i \<in> (if st = Running then insert n (running q) else running q - {n})"
    by (cases "i = n"; cases "i < length (ops q)") (simp_all add: running_def set_status_status)
qed

lemma running_other [simp]:
  "running (q\<lparr>activeOperations := a\<rparr>) = running q" "running (q\<lparr>permitWaiters := w\<rparr>) = running q"
  "running (q\<lparr>tails := t\<rparr>) = running q"
  by (simp_all add: running_def)

lemma set_status_other:
  "set_status n st (q\<lparr>activeOperations := a\<rparr>) = (set_status n st q)\<lparr>activeOperations := a\<rparr>"
  "set_status n st (q\<lparr>permitWaiters := w\<rparr>) = (set_status n st q)\<lparr>permitWaiters := w\<rparr>"
  by (simp_all add: set_status_def)

text \<open>The two halves of \<open>permits_ok\<close>.\<close>

definition waiters_ok :: "'k queue \<Rightarrow> bool" where
  "waiters_ok q \<longleftrightarrow> distinct (permitWaiters q) \<and>
     (\<forall>n. n \<in> set (permitWaiters q) \<longleftrightarrow> n < length (ops q) \<and> op_status q n = PermitWait)"

definition counts_ok :: "nat option \<Rightarrow> nat \<Rightarrow> nat \<Rightarrow> bool \<Rightarrow> bool" where
  "counts_ok limit active run waiting =
     (case limit of None \<Rightarrow> \<not> waiting | Some m \<Rightarrow> 0 < m \<and> active = run \<and> active \<le> m \<and> (waiting \<longrightarrow> active = m))"

lemma permits_ok_iff:
  "permits_ok q \<longleftrightarrow>
     waiters_ok q \<and> counts_ok (maxConcurrent q) (activeOperations q) (card (running q)) (permitWaiters q \<noteq> [])"
  by (cases "maxConcurrent q") (simp_all add: permits_ok_def waiters_ok_def counts_ok_def)

lemma waiters_okD: "waiters_ok q \<Longrightarrow> n \<in> set (permitWaiters q) \<longleftrightarrow> n < length (ops q) \<and> op_status q n = PermitWait"
  by (simp add: waiters_ok_def)

lemma waiters_active [simp]: "waiters_ok (q\<lparr>activeOperations := a\<rparr>) = waiters_ok q"
  by (simp add: waiters_ok_def)

lemma waiters_set_status:
  assumes "waiters_ok q" "n < length (ops q)" "n \<notin> set (permitWaiters q)" "st \<noteq> PermitWait"
  shows "waiters_ok (set_status n st q)"
proof -
  have mem: "i \<in> set (permitWaiters q) \<longleftrightarrow> i < length (ops q) \<and> op_status q i = PermitWait" for i
    using assms(1) by (simp add: waiters_ok_def)
  have "i \<in> set (permitWaiters q) \<longleftrightarrow> i < length (ops q) \<and> op_status (set_status n st q) i = PermitWait" for i
    using mem [of i] assms(2-4) by (cases "i = n"; cases "i < length (ops q)") (simp_all add: set_status_status)
  then show ?thesis using assms(1) by (simp add: waiters_ok_def)
qed

lemma waiters_push:
  assumes "waiters_ok q" "n < length (ops q)" "n \<notin> set (permitWaiters q)"
  shows "waiters_ok ((set_status n PermitWait q)\<lparr>permitWaiters := permitWaiters q @ [n]\<rparr>)"
proof -
  have mem: "i \<in> set (permitWaiters q) \<longleftrightarrow> i < length (ops q) \<and> op_status q i = PermitWait" for i
    using assms(1) by (simp add: waiters_ok_def)
  have "i \<in> set (permitWaiters q @ [n]) \<longleftrightarrow>
      i < length (ops q) \<and> op_status (set_status n PermitWait q) i = PermitWait" for i
    using mem [of i] assms(2,3) by (cases "i = n"; cases "i < length (ops q)") (simp_all add: set_status_status)
  moreover have "distinct (permitWaiters q @ [n])" using assms by (simp add: waiters_ok_def)
  ultimately show ?thesis by (simp add: waiters_ok_def)
qed

lemma waiters_pop:
  assumes "waiters_ok q" "permitWaiters q = w # ws"
  shows "waiters_ok ((set_status w Running q)\<lparr>permitWaiters := ws\<rparr>)"
proof -
  have w: "w < length (ops q)" "w \<notin> set ws" "distinct ws" using assms by (auto simp: waiters_ok_def)
  have mem: "i \<in> set (w # ws) \<longleftrightarrow> i < length (ops q) \<and> op_status q i = PermitWait" for i
    using assms by (simp add: waiters_ok_def)
  have "i \<in> set ws \<longleftrightarrow> i < length (ops q) \<and> op_status (set_status w Running q) i = PermitWait" for i
    using mem [of i] w by (cases "i = w") (auto simp: set_status_status)
  then show ?thesis using w by (simp add: waiters_ok_def)
qed

lemma q_start_permits:
  assumes "permits_ok q" "q_start n q = Some q'"
  shows "permits_ok q'"
proof -
  have n: "n < length (ops q)" "op_status q n = Waiting" and q': "q' = acquirePermit n q"
    using assms(2) by (auto simp: q_start_def split: if_splits)
  have w: "waiters_ok q" and c: "counts_ok (maxConcurrent q) (activeOperations q) (card (running q)) (permitWaiters q \<noteq> [])"
    using assms(1) by (auto simp: permits_ok_iff)
  have nr: "n \<notin> running q" and nw: "n \<notin> set (permitWaiters q)"
    using n w by (auto simp: running_def waiters_ok_def)
  show ?thesis
  proof (cases "maxConcurrent q")
    case None
    then show ?thesis
      using c waiters_set_status [OF w n(1) nw, of Running]
      by (simp add: q' acquirePermit_def permits_ok_iff counts_ok_def)
  next
    case (Some m)
    show ?thesis
    proof (cases "activeOperations q < m")
      case True
      then have "q' = (set_status n Running q)\<lparr>activeOperations := activeOperations q + 1\<rparr>"
        using Some by (simp add: q' acquirePermit_def set_status_other)
      moreover have "waiters_ok (set_status n Running q)" using waiters_set_status [OF w n(1) nw] by simp
      ultimately show ?thesis
        using c Some True nr n(1)
        by (auto simp: permits_ok_iff counts_ok_def running_set_status)
    next
      case False
      then have "q' = (set_status n PermitWait q)\<lparr>permitWaiters := permitWaiters q @ [n]\<rparr>"
        using Some by (simp add: q' acquirePermit_def set_status_other)
      then show ?thesis
        using c Some False nr n(1) waiters_push [OF w n(1) nw]
        by (simp add: permits_ok_iff counts_ok_def running_set_status)
    qed
  qed
qed

lemma q_finish_permits:
  assumes "permits_ok q" "q_finish n q = Some q'"
  shows "permits_ok q'"
proof -
  have n: "n < length (ops q)" "op_status q n = Running" and q': "q' = releasePermit (set_status n Settled q)"
    using assms(2) by (auto simp: q_finish_def split: if_splits)
  let ?s = "set_status n Settled q"
  have w: "waiters_ok q" and c: "counts_ok (maxConcurrent q) (activeOperations q) (card (running q)) (permitWaiters q \<noteq> [])"
    using assms(1) by (auto simp: permits_ok_iff)
  have r: "n \<in> running q" and nw: "n \<notin> set (permitWaiters q)" using n w by (auto simp: running_def waiters_ok_def)
  have ws: "waiters_ok ?s" using waiters_set_status [OF w n(1) nw] by simp
  have rs: "running ?s = running q - {n}" "card (running ?s) = card (running q) - 1"
    using n(1) r by (simp_all add: running_set_status)
  show ?thesis
  proof (cases "maxConcurrent q")
    case None
    then show ?thesis using c ws by (simp add: q' releasePermit_def permits_ok_iff counts_ok_def)
  next
    case (Some m)
    show ?thesis
    proof (cases "permitWaiters q")
      case Nil
      have q1: "q' = ?s\<lparr>activeOperations := activeOperations q - 1\<rparr>"
        using Some Nil by (simp add: q' releasePermit_def)
      have "activeOperations q = card (running q)" "activeOperations q \<le> m" "0 < m"
        using c Some by (simp_all add: counts_ok_def)
      then show ?thesis using ws rs(2) Some Nil unfolding q1 permits_ok_iff counts_ok_def by simp
    next
      case (Cons v vs)
      then have v: "v < length (ops q)" "v \<notin> running q" "v \<noteq> n"
        using waiters_okD [OF w, of v] n by (auto simp: running_def)
      have q2: "q' = (set_status v Running ?s)\<lparr>permitWaiters := vs\<rparr>"
        using Some Cons by (simp add: q' releasePermit_def set_status_other)
      have "card (running (set_status v Running ?s)) = card (running q)"
        using v r rs card_Suc_Diff1 [OF finite_running r] by (simp add: running_set_status)
      then show ?thesis
        using c Some Cons waiters_pop [OF ws, of v vs] by (auto simp: q2 permits_ok_iff counts_ok_def)
    qed
  qed
qed

lemma append_op_permits:
  assumes "permits_ok q" "ops q' = ops q @ [new]" "status new = Waiting" "permitWaiters q' = permitWaiters q"
    "activeOperations q' = activeOperations q" "maxConcurrent q' = maxConcurrent q"
  shows "permits_ok q'"
proof -
  have "running q' = running q"
    using assms(2,3) by (auto simp: running_def nth_append less_Suc_eq)
  then show ?thesis
    using assms by (auto simp: permits_ok_def nth_append less_Suc_eq split: option.splits)
qed

subsection \<open>Every step keeps the invariant\<close>

lemma tails_coverD:
  assumes "tails_cover q" "m < length (ops q)" "\<not> settled q m"
  shows "opKey (ops q ! m) = Some k \<Longrightarrow> \<exists>t. tails q k = Some t \<and> m \<le> t \<and> t < length (ops q) \<and> opKey (ops q ! t) = Some k"
    and "opKey (ops q ! m) = None \<Longrightarrow> \<exists>b. barrier q = Some b \<and> m \<le> b \<and> b < length (ops q) \<and> opKey (ops q ! b) = None"
proof -
  have t: "tails q k = Some t \<Longrightarrow> t < length (ops q) \<and> opKey (ops q ! t) = Some k"
    and b: "barrier q = Some b \<Longrightarrow> b < length (ops q) \<and> opKey (ops q ! b) = None" for k t b
    using assms(1) by (simp_all add: tails_cover_def)
  have c: "case opKey (ops q ! m) of Some k \<Rightarrow> \<exists>t. tails q k = Some t \<and> m \<le> t
      | None \<Rightarrow> \<exists>b. barrier q = Some b \<and> m \<le> b"
    using assms by (simp add: tails_cover_def)
  show "\<exists>t. tails q k = Some t \<and> m \<le> t \<and> t < length (ops q) \<and> opKey (ops q ! t) = Some k"
    if "opKey (ops q ! m) = Some k"
    using c t that by auto
  show "\<exists>b. barrier q = Some b \<and> m \<le> b \<and> b < length (ops q) \<and> opKey (ops q ! b) = None"
    if "opKey (ops q ! m) = None"
    using c b that by auto
qed

lemma append_op_tails:
  assumes "tails_cover q" "ops q' = ops q @ [new]"
    and "opKey new = Some k \<and> tails q' = (tails q)(k \<mapsto> length (ops q)) \<and> barrier q' = barrier q
      \<or> opKey new = None \<and> tails q' = tails q \<and> barrier q' = Some (length (ops q))"
  shows "tails_cover q'"
  unfolding tails_cover_def
proof (intro conjI allI impI)
  have old: "ops q' ! i = ops q ! i" if "i < length (ops q)" for i using that assms(2) by (simp add: nth_append)
  have new: "ops q' ! length (ops q) = new" "length (ops q') = Suc (length (ops q))" using assms(2) by simp_all
  have t: "tails q k = Some t \<Longrightarrow> t < length (ops q) \<and> opKey (ops q ! t) = Some k"
    and b: "barrier q = Some b \<Longrightarrow> b < length (ops q) \<and> opKey (ops q ! b) = None" for k t b
    using assms(1) by (simp_all add: tails_cover_def)
  fix k' t' assume t': "tails q' k' = Some t'"
  show "t' < length (ops q')" "opKey (ops q' ! t') = Some k'"
    using t' t [of k' t'] assms(3) new by (auto simp: old split: if_splits)
next
  have old: "ops q' ! i = ops q ! i" if "i < length (ops q)" for i using that assms(2) by (simp add: nth_append)
  have new: "ops q' ! length (ops q) = new" "length (ops q') = Suc (length (ops q))" using assms(2) by simp_all
  have b: "barrier q = Some b \<Longrightarrow> b < length (ops q) \<and> opKey (ops q ! b) = None" for b
    using assms(1) by (simp add: tails_cover_def)
  fix b' assume b': "barrier q' = Some b'"
  show "b' < length (ops q')" "opKey (ops q' ! b') = None"
    using b' b assms(3) new by (auto simp: old dest: sym)
next
  have old: "ops q' ! i = ops q ! i" if "i < length (ops q)" for i using that assms(2) by (simp add: nth_append)
  have new: "ops q' ! length (ops q) = new" "length (ops q') = Suc (length (ops q))" using assms(2) by simp_all
  fix m assume m: "m < length (ops q')" "\<not> settled q' m"
  show "case opKey (ops q' ! m) of Some k \<Rightarrow> \<exists>t. tails q' k = Some t \<and> m \<le> t
      | None \<Rightarrow> \<exists>b. barrier q' = Some b \<and> m \<le> b"
  proof (cases "m = length (ops q)")
    case True
    then show ?thesis using assms(3) new by auto
  next
    case False
    then have l: "m < length (ops q)" using m(1) new by simp
    then have "\<not> settled q m" using m(2) by (simp add: settled_def old)
    from tails_coverD [OF assms(1) l this] show ?thesis
      using assms(3) l by (cases "opKey (ops q ! m)") (auto simp: old)
  qed
qed

lemma q_enqueue_ok:
  assumes "queue_ok q"
  shows "queue_ok (q_enqueue k q)"
proof -
  let ?q = "q_enqueue k q"
  have inv: "ordered q" "covered q" "tails_cover q" "permits_ok q" using assms by (auto simp: queue_ok_def)
  note op = append_op_keeps [of q ?q "\<lparr>opKey = Some k, deps = opt_list (barrier q) @ opt_list (tails q k), status = Waiting\<rparr>",
      OF inv(1,2)]
  have less: "\<forall>d \<in> set (opt_list (barrier q) @ opt_list (tails q k)). d < length (ops q)"
    using inv(3) by (auto simp: tails_cover_def opt_list_def split: option.splits)
  have cover: "\<exists>d \<in> set (opt_list (barrier q) @ opt_list (tails q k)). m = d \<or> m < d \<and> conflict q m d"
    if m: "m < length (ops q)" "\<not> settled q m" "conflict ?q m (length (ops q))" for m
  proof (cases "opKey (ops q ! m)")
    case None
    then obtain b where "barrier q = Some b" "m \<le> b" using tails_coverD(2) [OF inv(3) m(1,2)] by auto
    then show ?thesis using None by (auto simp: opt_list_def conflict_def)
  next
    case (Some k')
    then have "k' = k" using m by (simp add: conflict_def q_enqueue_def nth_append)
    then obtain t where "tails q k = Some t" "m \<le> t" "opKey (ops q ! t) = Some k"
      using tails_coverD(1) [OF inv(3) m(1,2)] Some by auto
    then show ?thesis using Some \<open>k' = k\<close> by (cases "m = t") (auto simp: opt_list_def conflict_def)
  qed
  have "tails_cover ?q"
    by (rule append_op_tails [OF inv(3), where k = k and new =
          "\<lparr>opKey = Some k, deps = opt_list (barrier q) @ opt_list (tails q k), status = Waiting\<rparr>"])
      (simp_all add: q_enqueue_def)
  moreover have "ordered ?q" "covered ?q"
    using op less cover by (simp_all add: q_enqueue_def)
  moreover have "permits_ok ?q"
    using append_op_permits [OF inv(4), of ?q] by (simp add: q_enqueue_def)
  ultimately show ?thesis by (simp add: queue_ok_def)
qed

lemma q_enqueueBarrier_ok:
  assumes "queue_ok q" "set keys = dom (tails q)"
  shows "queue_ok (q_enqueueBarrier keys q)"
proof -
  let ?q = "q_enqueueBarrier keys q"
  let ?deps = "opt_list (barrier q) @ concat (map (\<lambda>k. opt_list (tails q k)) keys)"
  have inv: "ordered q" "covered q" "tails_cover q" "permits_ok q" using assms by (auto simp: queue_ok_def)
  note op = append_op_keeps [of q ?q "\<lparr>opKey = None, deps = ?deps, status = Waiting\<rparr>", OF inv(1,2)]
  have less: "\<forall>d \<in> set ?deps. d < length (ops q)"
    using inv(3) by (auto simp: tails_cover_def opt_list_def split: option.splits)
  have cover: "\<exists>d \<in> set ?deps. m = d \<or> m < d \<and> conflict q m d"
    if m: "m < length (ops q)" "\<not> settled q m" for m
  proof (cases "opKey (ops q ! m)")
    case None
    then obtain b where "barrier q = Some b" "m \<le> b" using tails_coverD(2) [OF inv(3) m] by auto
    then show ?thesis using None by (auto simp: opt_list_def conflict_def)
  next
    case (Some k)
    then obtain t where t: "tails q k = Some t" "m \<le> t" "opKey (ops q ! t) = Some k"
      using tails_coverD(1) [OF inv(3) m] by auto
    then have "k \<in> set keys" using assms(2) by auto
    then have "t \<in> set ?deps" using t(1) by (force simp: opt_list_def)
    moreover have "m = t \<or> m < t \<and> conflict q m t" using t Some by (auto simp: conflict_def)
    ultimately show ?thesis by blast
  qed
  have "tails_cover ?q"
    by (rule append_op_tails [OF inv(3), where new = "\<lparr>opKey = None, deps = ?deps, status = Waiting\<rparr>"])
      (simp_all add: q_enqueueBarrier_def)
  moreover have "ordered ?q" "covered ?q"
    using op less cover by (simp_all add: q_enqueueBarrier_def)
  moreover have "permits_ok ?q"
    using append_op_permits [OF inv(4), of ?q] by (simp add: q_enqueueBarrier_def)
  ultimately show ?thesis by (simp add: queue_ok_def)
qed

lemma tails_irrelevant [simp]:
  "ordered (q\<lparr>tails := t\<rparr>) = ordered q" "covered (q\<lparr>tails := t\<rparr>) = covered q"
  "permits_ok (q\<lparr>tails := t\<rparr>) = permits_ok q"
  by (simp_all add: ordered_def covered_def conflict_def settled_def permits_ok_iff waiters_ok_def)

lemma q_cleanup_ok:
  assumes "queue_ok q" "q_cleanup n q = Some q'"
  shows "queue_ok q'"
proof -
  have inv: "ordered q" "covered q" "tails_cover q" "permits_ok q" using assms(1) by (auto simp: queue_ok_def)
  obtain k where n: "n < length (ops q)" "settled q n" "opKey (ops q ! n) = Some k"
    and q': "q' = (if tails q k = Some n then q\<lparr>tails := (tails q)(k := None)\<rparr> else q)"
    using assms(2) by (auto simp: q_cleanup_def split: if_splits option.splits)
  have earlier: "settled q m" if "m < length (ops q)" "m \<le> n" "opKey (ops q ! m) = Some k" for m
    using that n inv(1) unfolding ordered_def conflict_def settled_def
    by (cases "m = n") (auto simp: le_less)
  have "tails_cover q'" if "tails q k = Some n"
    using inv(3) earlier that q' unfolding tails_cover_def
    by (auto simp: settled_def split: option.splits) fastforce+
  then show ?thesis using inv q' by (auto simp: queue_ok_def)
qed

lemma queue_step_ok: "queue_step q q' \<Longrightarrow> queue_ok q \<Longrightarrow> queue_ok q'"
proof (induction rule: queue_step.induct)
  case (start n q q')
  then show ?case
    using progresses_keeps [OF acquire_progresses [OF start.hyps]] q_start_permits by (auto simp: queue_ok_def)
next
  case (finish n q q')
  then show ?case
    using progresses_keeps [OF finish_progresses [OF finish.hyps]] q_finish_permits by (auto simp: queue_ok_def)
qed (simp_all add: q_enqueue_ok q_enqueueBarrier_ok q_cleanup_ok)

lemma new_queue_ok: "new_queue m = Some q \<Longrightarrow> queue_ok q"
  by (auto simp: new_queue_def queue_ok_def ordered_def covered_def tails_cover_def permits_ok_def running_def
      split: if_splits option.splits)

lemma reachable_ok: "new_queue m = Some q0 \<Longrightarrow> queue_step\<^sup>*\<^sup>* q0 q \<Longrightarrow> queue_ok q"
  by (rotate_tac, induction rule: rtranclp_induct) (auto intro: new_queue_ok queue_step_ok)

subsection \<open>Properties\<close>

text \<open>Property C19. Operations of one key run one after the other in the order they were enqueued, and a
  barrier runs after everything enqueued before it and before everything enqueued after it: when an
  operation has left its wait, every earlier one it conflicts with is settled.\<close>

theorem queue_order:
  assumes "new_queue m = Some q0" "queue_step\<^sup>*\<^sup>* q0 q"
    and "j < length (ops q)" "i < j" "conflict q i j" "op_status q j \<noteq> Waiting"
  shows "op_status q i = Settled"
  using reachable_ok [OF assms(1,2)] assms(3-6)
  unfolding queue_ok_def ordered_def settled_def by blast

lemma step_keeps_limit: "queue_step q q' \<Longrightarrow> maxConcurrent q' = maxConcurrent q"
proof (induction rule: queue_step.induct)
  case (start n q q')
  then show ?case
    by (simp add: q_start_def acquirePermit_def split: if_splits option.splits)
      (auto split: if_splits)
next
  case (finish n q q')
  then show ?case
    by (auto simp: q_finish_def releasePermit_def split: if_split_asm option.split list.split)
next
  case (cleanup n q q')
  then show ?case by (auto simp: q_cleanup_def split: if_split_asm option.split_asm)
qed (simp_all add: q_enqueue_def q_enqueueBarrier_def)

text \<open>With a limit, at most that many operations run at once, and an operation waits for a
  permit only while all permits are taken.\<close>

theorem queue_limit:
  assumes "new_queue (Some m) = Some q0" "queue_step\<^sup>*\<^sup>* q0 q"
  shows "card (running q) \<le> the (maxConcurrent q)
    \<and> (permitWaiters q \<noteq> [] \<longrightarrow> card (running q) = the (maxConcurrent q))"
proof -
  have "maxConcurrent q = Some m"
    using assms(2)
  proof (induction rule: rtranclp_induct)
    case base
    then show ?case using assms(1) by (auto simp: new_queue_def split: if_splits)
  next
    case (step y z)
    from step(2) have "maxConcurrent z = maxConcurrent y" by (rule step_keeps_limit)
    then show ?case using step(3) by simp
  qed
  then show ?thesis
    using reachable_ok [OF assms] by (auto simp: queue_ok_def permits_ok_iff counts_ok_def)
qed

lemma first_unsettled:
  assumes "queue_ok q" "n < length (ops q)" "\<not> settled q n"
  shows "\<exists>q'. (\<exists>i. q_start i q = Some q') \<or> (\<exists>i. q_finish i q = Some q')"
proof -
  define i where "i = (LEAST i. i < length (ops q) \<and> \<not> settled q i)"
  have i: "i < length (ops q)" "\<not> settled q i" and least: "\<And>j. j < i \<Longrightarrow> settled q j"
    using assms(2,3) LeastI [of "\<lambda>i. i < length (ops q) \<and> \<not> settled q i" n]
      not_less_Least [of _ "\<lambda>i. i < length (ops q) \<and> \<not> settled q i"] less_trans
    unfolding i_def by blast+
  have inv: "covered q" "permits_ok q" using assms(1) by (auto simp: queue_ok_def)
  show ?thesis
  proof (cases "op_status q i")
    case Waiting
    then have "\<forall>d \<in> set (deps (ops q ! i)). settled q d" using inv(1) i(1) least by (simp add: covered_def)
    then show ?thesis using Waiting i(1) by (auto simp: q_start_def)
  next
    case PermitWait
    then have "i \<in> set (permitWaiters q)" using inv(2) i(1) waiters_okD by (auto simp: permits_ok_iff)
    then obtain m where "maxConcurrent q = Some m" "0 < m" "card (running q) = m"
      using inv(2) by (cases "maxConcurrent q") (auto simp: permits_ok_iff counts_ok_def)
    then obtain r where "r \<in> running q" by (metis card.empty equals0I less_irrefl)
    then show ?thesis by (auto simp: running_def q_finish_def)
  next
    case Running
    then show ?thesis using i(1) by (auto simp: q_finish_def)
  next
    case Settled
    then show ?thesis using i(2) by (simp add: settled_def)
  qed
qed

text \<open>The queue never deadlocks: while an operation is not settled, one can start or a running
  one can finish.\<close>

theorem queue_not_stuck:
  assumes "new_queue m = Some q0" "queue_step\<^sup>*\<^sup>* q0 q" "n < length (ops q)" "op_status q n \<noteq> Settled"
  shows "\<exists>q'. (\<exists>i. q_start i q = Some q') \<or> (\<exists>i. q_finish i q = Some q')"
  using first_unsettled [OF reachable_ok [OF assms(1,2)] assms(3)] assms(4) by (simp add: settled_def)

text \<open>Two operations of one key under a limit of one, the first of them running.\<close>

definition two_ops :: "nat queue" where
  "two_ops = acquirePermit 0 (q_enqueue 7 (q_enqueue 7 (the (new_queue (Some 1)))))"

lemma two_ops_reachable: "new_queue (Some 1) = Some (the (new_queue (Some 1)) :: nat queue)"
  "queue_step\<^sup>*\<^sup>* (the (new_queue (Some 1))) two_ops"
proof -
  let ?q = "q_enqueue 7 (q_enqueue 7 (the (new_queue (Some 1)))) :: nat queue"
  have "q_start 0 ?q = Some two_ops"
    by (simp add: two_ops_def q_start_def q_enqueue_def new_queue_def opt_list_def)
  then have "queue_step ?q two_ops" by (rule queue_step.start)
  then show "queue_step\<^sup>*\<^sup>* (the (new_queue (Some 1))) two_ops"
  proof -
    assume last: "queue_step ?q two_ops"
    let ?start = "the (new_queue (Some 1)) :: nat queue"
    have "queue_step\<^sup>*\<^sup>* ?start (q_enqueue 7 ?start)" by (rule r_into_rtranclp) (rule queue_step.enqueue)
    then have "queue_step\<^sup>*\<^sup>* ?start ?q" by (rule rtranclp.rtrancl_into_rtrancl [of queue_step, OF _ queue_step.enqueue])
    then show ?thesis using last by (rule rtranclp.rtrancl_into_rtrancl [of queue_step])
  qed
qed (simp add: new_queue_def)

lemma two_ops_eq: "two_ops = \<lparr>ops = [\<lparr>opKey = Some 7, deps = [], status = Running\<rparr>,
    \<lparr>opKey = Some 7, deps = [0], status = Waiting\<rparr>], tails = [7 \<mapsto> 1], barrier = None, activeOperations = 1,
    permitWaiters = [], maxConcurrent = Some 1\<rparr>"
  by (simp add: two_ops_def q_enqueue_def new_queue_def opt_list_def acquirePermit_def set_status_def)

theorem queue_order_witness:
  "op_status (the (q_start 1 (the (q_finish 0 two_ops)))) 0 = Settled"
proof -
  let ?q1 = "the (q_finish 0 two_ops)"
  let ?q2 = "the (q_start 1 ?q1)"
  have s: "q_finish 0 two_ops = Some ?q1" "q_start 1 ?q1 = Some ?q2"
    by (simp_all add: q_finish_def q_start_def two_ops_eq releasePermit_def set_status_def settled_def)
  have "queue_step\<^sup>*\<^sup>* (the (new_queue (Some 1))) ?q2"
    using two_ops_reachable(2) queue_step.finish [OF s(1)] queue_step.start [OF s(2)]
    by (rule rtranclp.rtrancl_into_rtrancl [OF rtranclp.rtrancl_into_rtrancl])
  from queue_order [OF two_ops_reachable(1) this, of 1 0] show ?thesis
    by (simp add: q_finish_def q_start_def two_ops_eq releasePermit_def set_status_def settled_def
        acquirePermit_def conflict_def)
qed

theorem queue_limit_witness: "card (running two_ops) \<le> 1"
  using queue_limit [OF two_ops_reachable] by (simp add: two_ops_eq)

theorem queue_not_stuck_witness:
  "\<exists>q'. (\<exists>i. q_start i two_ops = Some q') \<or> (\<exists>i. q_finish i two_ops = Some q')"
  by (rule queue_not_stuck [OF two_ops_reachable, of 0]) (simp_all add: two_ops_eq)

end
