(* ===== verification/JsText.thy ===== *)
theory JsText
  imports JsString JsNumber
begin

text \<open>
  The text operations of JavaScript that the session, compaction and truncation code uses:
  \<open>slice\<close> with its negative indices, \<open>trim\<close>, \<open>split\<close> and \<open>join\<close>, decimal printing, and the sum of
  two numbers as IEEE 754 defines it (the exact sum, rounded to the nearest double, ties to even).
\<close>

subsection \<open>Slices\<close>

text \<open>The position an index of \<open>slice\<close> stands for: a negative one counts from the end, and both
  ends are clamped.\<close>

definition slice_index :: "nat \<Rightarrow> int \<Rightarrow> nat" where
  "slice_index len i = (if i < 0 then nat (int len + i) else min (nat i) len)"

definition js_slice :: "int \<Rightarrow> int option \<Rightarrow> 'a list \<Rightarrow> 'a list" where
  "js_slice start end_index xs =
     (let from = slice_index (length xs) start;
          to = (case end_index of None \<Rightarrow> length xs | Some i \<Rightarrow> slice_index (length xs) i)
      in take (to - from) (drop from xs))"

lemma js_slice_nat [simp]:
  "js_slice (int a) (Some (int b)) xs = take (b - a) (drop a xs)"
  "js_slice (int a) None xs = drop a xs"
  by (auto simp: js_slice_def slice_index_def min_def)

lemma js_slice_all [simp]: "js_slice 0 None xs = xs"
  using js_slice_nat(2) [of 0 xs] by simp

lemma js_slice_head [simp]: "js_slice 0 (Some (int b)) xs = take b xs"
  using js_slice_nat(1) [of 0 b xs] by simp

lemma js_slice_last [simp]: "js_slice (- int (Suc n)) None xs = drop (length xs - Suc n) xs"
proof -
  have "slice_index (length xs) (- int (Suc n)) = length xs - Suc n"
    by (simp add: slice_index_def nat_diff_distrib')
  then show ?thesis by (simp add: js_slice_def Let_def)
qed

lemma set_js_slice: "set (js_slice a b xs) \<subseteq> set xs"
  by (auto simp: js_slice_def Let_def dest: in_set_takeD in_set_dropD)

subsection \<open>Trimming\<close>

text \<open>\<open>WhiteSpace\<close> and \<open>LineTerminator\<close> of ECMA-262.\<close>

definition whitespace :: "js_char \<Rightarrow> bool" where
  "whitespace c \<longleftrightarrow> c \<in> {0x9, 0xa, 0xb, 0xc, 0xd, 0x20, 0xa0, 0x1680, 0x2028, 0x2029, 0x202f, 0x205f,
      0x3000, 0xfeff} \<or> 0x2000 \<le> c \<and> c \<le> 0x200a"

definition trim_start :: "js_string \<Rightarrow> js_string" where
  "trim_start s = dropWhile whitespace s"

definition trim_end :: "js_string \<Rightarrow> js_string" where
  "trim_end s = rev (dropWhile whitespace (rev s))"

definition trim :: "js_string \<Rightarrow> js_string" where
  "trim s = trim_end (trim_start s)"

lemma trim_empty [simp]: "trim [] = []"
  by (simp add: trim_def trim_start_def trim_end_def)

subsection \<open>Joining and splitting\<close>

fun join :: "'a list \<Rightarrow> 'a list list \<Rightarrow> 'a list" where
  "join sep [] = []"
| "join sep [s] = s"
| "join sep (s # t # ss) = s @ sep @ join sep (t # ss)"

text \<open>\<open>s.split(c)\<close> for a separator of one character: never empty.\<close>

fun split_on :: "'a \<Rightarrow> 'a list \<Rightarrow> 'a list list" where
  "split_on c [] = [[]]"
| "split_on c (x # xs) =
     (if x = c then [] # split_on c xs
      else (x # hd (split_on c xs)) # tl (split_on c xs))"

lemma split_on_ne [simp]: "split_on c xs \<noteq> []"
  by (induction xs) auto

lemma join_cons: "join sep (s # ss) = (if ss = [] then s else s @ sep @ join sep ss)"
  by (cases ss) auto

lemma join_push: "join sep ((x # s) # ss) = x # join sep (s # ss)"
  by (simp add: join_cons)

lemma join_split_on: "join [c] (split_on c xs) = xs"
proof (induction xs)
  case (Cons x xs)
  then show ?case
    by (cases "split_on c xs") (auto simp: join_push)
qed simp

lemma split_on_free: "line \<in> set (split_on c xs) \<Longrightarrow> c \<notin> set line"
proof (induction xs arbitrary: line)
  case (Cons x xs)
  then show ?case by (cases "split_on c xs") (auto split: if_splits)
qed simp

lemma split_on_append:
  "c \<notin> set a \<Longrightarrow> split_on c (a @ c # b) = a # split_on c b"
  by (induction a) auto

lemma split_on_whole: "c \<notin> set a \<Longrightarrow> split_on c a = [a]"
  by (induction a) auto

lemma split_join:
  "ls \<noteq> [] \<Longrightarrow> \<forall>l \<in> set ls. c \<notin> set l \<Longrightarrow> split_on c (join [c] ls) = ls"
  by (induction "[c]" ls rule: join.induct) (auto simp: split_on_whole split_on_append)

lemma length_join:
  "length (join sep ls) = sum_list (map length ls) + (length ls - 1) * length sep"
proof (induction ls)
  case (Cons l ls)
  then show ?case by (cases ls) (auto simp: join_cons algebra_simps)
qed simp

subsection \<open>Decimal printing\<close>

fun decimal :: "nat \<Rightarrow> js_string" where
  "decimal n = (if n < 10 then [of_nat (48 + n)] else decimal (n div 10) @ [of_nat (48 + n mod 10)])"

declare decimal.simps [simp del]

definition decimal_int :: "int \<Rightarrow> js_string" where
  "decimal_int i = (if i < 0 then js ''-'' @ decimal (nat (- i)) else decimal (nat i))"

text \<open>The newline character, and a text literal of several lines.\<close>

abbreviation newline :: js_char where
  "newline \<equiv> 0xa"

definition js_lines :: "string list \<Rightarrow> js_string" where
  "js_lines ls = join [newline] (map js ls)"

subsection \<open>Adding numbers\<close>

text \<open>A finite double as a multiple of \<open>2 ^ -1074\<close>, the least positive double, and back: the double
  nearest to \<open>n * 2 ^ -1074\<close>, an even significand at ties, an infinity beyond the largest double.\<close>

definition scaled :: "js_number \<Rightarrow> int" where
  "scaled x = (if num_neg x then -1 else 1) * int (num_sig x * 2 ^ (max (num_expo x) 1 - 1))"

definition round_even :: "nat \<Rightarrow> nat \<Rightarrow> nat" where
  "round_even n k =
     (let q = n div 2 ^ k; r = n mod 2 ^ k in
      if k = 0 \<or> 2 * r < 2 ^ k then q else if 2 * r > 2 ^ k then Suc q else q + q mod 2)"

definition from_scaled :: "int \<Rightarrow> js_number" where
  "from_scaled n =
     (let m = nat \<bar>n\<bar>; k = floorlog 2 m - 53; q = round_even m k; bits = k * 2 ^ 52 + q
      in (if n < 0 then 2 ^ 63 else 0) + of_nat (min bits (2047 * 2 ^ 52)))"

definition num_add :: "js_number \<Rightarrow> js_number \<Rightarrow> js_number" where
  "num_add x y =
     (if \<not> isFinite x then (if \<not> isFinite y \<and> x \<noteq> y then 0x7ff8000000000000 else x)
      else if \<not> isFinite y then y
      else if is_neg_zero x \<and> is_neg_zero y then x
      else from_scaled (scaled x + scaled y))"

end
