(* ===== verification/Messages.thy ===== *)
theory Messages
  imports JsText Cbor
begin

text \<open>
  The messages of a conversation: \<^verbatim>\<open>packages/ai/src/types.ts\<close> (user, assistant and tool-result messages,
  their content and usage) and \<^verbatim>\<open>packages/agent/src/harness/messages.ts\<close> (the messages the harness adds and
  their conversion to what a model is sent). Token counts are natural numbers and costs are doubles.
  Provider-specific signatures and diagnostics, which this code never reads, are left out.
  \<open>new Date(s).getTime()\<close> is the parameter \<open>getTime\<close>.
\<close>

datatype text_block =
    TextContent js_string
  | ImageContent js_string js_string

datatype message_content = ContentString js_string | ContentBlocks "text_block list"

datatype assistant_block =
    TextBlock js_string
  | ThinkingBlock js_string
  | ToolCall js_string js_string "(js_string \<times> js_value) list"

record usage_cost =
  cost_input :: js_number
  cost_output :: js_number
  cost_cacheRead :: js_number
  cost_cacheWrite :: js_number
  cost_total :: js_number

record usage =
  u_input :: nat
  u_output :: nat
  u_cacheRead :: nat
  u_cacheWrite :: nat
  u_cacheWrite1h :: "nat option"
  u_reasoning :: "nat option"
  u_totalTokens :: nat
  u_cost :: usage_cost

datatype stop_reason = Pending | Stop | Length | ToolUse | Error | Aborted

record assistant_message =
  a_content :: "assistant_block list"
  a_provider :: js_string
  a_model :: js_string
  a_usage :: "usage option"
  a_stopReason :: stop_reason
  a_errorMessage :: "js_string option"
  a_timestamp :: int

record bash_execution =
  command :: js_string
  b_output :: js_string
  exitCode :: "int option"
  cancelled :: bool
  b_truncated :: bool
  fullOutputPath :: "js_string option"
  b_timestamp :: int
  excludeFromContext :: bool

datatype agent_message =
    UserMessage message_content int
  | AssistantMessage assistant_message
  | ToolResultMessage js_string js_string "text_block list" bool int
  | BashExecutionMessage bash_execution
  | CustomMessage js_string message_content bool "js_value option" int
  | BranchSummaryMessage js_string js_string int
  | CompactionSummaryMessage js_string nat int

datatype role = User | Assistant | ToolResult | BashExecution | CustomRole | BranchSummaryRole
  | CompactionSummaryRole

fun message_role :: "agent_message \<Rightarrow> role" where
  "message_role (UserMessage _ _) = User"
| "message_role (AssistantMessage _) = Assistant"
| "message_role (ToolResultMessage _ _ _ _ _) = ToolResult"
| "message_role (BashExecutionMessage _) = BashExecution"
| "message_role (CustomMessage _ _ _ _ _) = CustomRole"
| "message_role (BranchSummaryMessage _ _ _) = BranchSummaryRole"
| "message_role (CompactionSummaryMessage _ _ _) = CompactionSummaryRole"

text \<open>\<open>contentText\<close> of \<^verbatim>\<open>packages/ai/src/utils/text.ts\<close>, for the two kinds of content.\<close>

definition block_texts :: "text_block list \<Rightarrow> js_string list" where
  "block_texts bs = List.map_filter (\<lambda>b. case b of TextContent t \<Rightarrow> Some t | _ \<Rightarrow> None) bs"

definition assistant_texts :: "assistant_block list \<Rightarrow> js_string list" where
  "assistant_texts bs = List.map_filter (\<lambda>b. case b of TextBlock t \<Rightarrow> Some t | _ \<Rightarrow> None) bs"

fun contentText :: "js_string \<Rightarrow> message_content \<Rightarrow> js_string" where
  "contentText separator (ContentString s) = s"
| "contentText separator (ContentBlocks bs) = join separator (block_texts bs)"

definition assistantText :: "js_string \<Rightarrow> assistant_block list \<Rightarrow> js_string" where
  "assistantText separator bs = join separator (assistant_texts bs)"

subsection \<open>Harness messages\<close>

definition COMPACTION_SUMMARY_PREFIX :: js_string where
  "COMPACTION_SUMMARY_PREFIX = js_lines
     [''The conversation history before this point was compacted into the following summary:'',
      '''', ''<summary>'', '''']"

definition COMPACTION_SUMMARY_SUFFIX :: js_string where
  "COMPACTION_SUMMARY_SUFFIX = js_lines ['''', ''</summary>'']"

definition BRANCH_SUMMARY_PREFIX :: js_string where
  "BRANCH_SUMMARY_PREFIX = js_lines
     [''The following is a summary of a branch that this conversation came back from:'',
      '''', ''<summary>'', '''']"

definition BRANCH_SUMMARY_SUFFIX :: js_string where
  "BRANCH_SUMMARY_SUFFIX = js ''</summary>''"

definition bashExecutionToText :: "bash_execution \<Rightarrow> js_string" where
  "bashExecutionToText msg =
     (let ran = js ''Ran `'' @ command msg @ js ''`'' @ [newline];
          shown = ran @ (if b_output msg \<noteq> []
            then js ''```'' @ [newline] @ b_output msg @ [newline] @ js ''```''
            else js ''(no output)'');
          ended = shown @ (if cancelled msg then [newline, newline] @ js ''(command cancelled)''
            else case exitCode msg of
              None \<Rightarrow> []
            | Some code \<Rightarrow> if code \<noteq> 0
                then [newline, newline] @ js ''Command exited with code '' @ decimal_int code else [])
      in ended @ (case fullOutputPath msg of
            None \<Rightarrow> []
          | Some path \<Rightarrow> if b_truncated msg \<and> path \<noteq> []
              then [newline, newline] @ js ''[Output truncated. Full output: '' @ path @ js '']'' else []))"

definition createBranchSummaryMessage ::
  "(js_string \<Rightarrow> int) \<Rightarrow> js_string \<Rightarrow> js_string \<Rightarrow> js_string \<Rightarrow> agent_message" where
  "createBranchSummaryMessage getTime summary fromId timestamp =
     BranchSummaryMessage summary fromId (getTime timestamp)"

definition createCompactionSummaryMessage ::
  "(js_string \<Rightarrow> int) \<Rightarrow> js_string \<Rightarrow> nat \<Rightarrow> js_string \<Rightarrow> agent_message" where
  "createCompactionSummaryMessage getTime summary tokensBefore timestamp =
     CompactionSummaryMessage summary tokensBefore (getTime timestamp)"

definition createCustomMessage ::
  "(js_string \<Rightarrow> int) \<Rightarrow> js_string \<Rightarrow> message_content \<Rightarrow> bool \<Rightarrow> js_value option \<Rightarrow> js_string
     \<Rightarrow> agent_message" where
  "createCustomMessage getTime customType content display details timestamp =
     CustomMessage customType content display details (getTime timestamp)"

definition user_text :: "js_string \<Rightarrow> int \<Rightarrow> agent_message" where
  "user_text s t = UserMessage (ContentBlocks [TextContent s]) t"

fun llm_message :: "agent_message \<Rightarrow> agent_message option" where
  "llm_message (BashExecutionMessage m) =
     (if excludeFromContext m then None else Some (user_text (bashExecutionToText m) (b_timestamp m)))"
| "llm_message (CustomMessage _ content _ _ t) =
     Some (case content of
       ContentString s \<Rightarrow> user_text s t
     | ContentBlocks bs \<Rightarrow> UserMessage (ContentBlocks bs) t)"
| "llm_message (BranchSummaryMessage summary _ t) =
     Some (user_text (BRANCH_SUMMARY_PREFIX @ summary @ BRANCH_SUMMARY_SUFFIX) t)"
| "llm_message (CompactionSummaryMessage summary _ t) =
     Some (user_text (COMPACTION_SUMMARY_PREFIX @ summary @ COMPACTION_SUMMARY_SUFFIX) t)"
| "llm_message m = Some m"

definition convertToLlm :: "agent_message list \<Rightarrow> agent_message list" where
  "convertToLlm messages = List.map_filter llm_message messages"

lemma convertToLlm_append [simp]: "convertToLlm (a @ b) = convertToLlm a @ convertToLlm b"
  by (simp add: convertToLlm_def map_filter_def)

lemma convertToLlm_simps [simp]:
  "convertToLlm [] = []"
  "convertToLlm (m # ms) = (case llm_message m of None \<Rightarrow> [] | Some l \<Rightarrow> [l]) @ convertToLlm ms"
  by (simp_all add: convertToLlm_def map_filter_def split: option.split)

lemma llm_roles: "llm_message m = Some l \<Longrightarrow> message_role l \<in> {User, Assistant, ToolResult}"
  by (cases m) (auto simp: user_text_def split: if_splits message_content.splits)

lemma llm_message_idem: "llm_message m = Some l \<Longrightarrow> llm_message l = Some l"
  by (cases m) (auto simp: user_text_def split: if_splits message_content.splits)

text \<open>What a model is sent are user, assistant and tool-result messages only, and converting
  them again changes nothing.\<close>

theorem convertToLlm_roles:
  "message_role ` set (convertToLlm ms) \<subseteq> {User, Assistant, ToolResult}
   \<and> convertToLlm (convertToLlm ms) = convertToLlm ms"
  by (induction ms) (auto dest: llm_roles simp: llm_message_idem split: option.splits)

end
