(* ===== verification/SessionIndex.thy ===== *)
theory SessionIndex
  imports Messages
begin

text \<open>
  The session tree: the entries of \<^verbatim>\<open>packages/agent/src/harness/types.ts\<close> and the array-backed index of
  \<^verbatim>\<open>packages/agent/src/harness/session/array-session-index.ts\<close>. An entry is a node with a link to its
  parent; the index keeps the entries in append order, a map by id, the active leaf and the projections
  (name, labels, statistics). A message without usage has none; the source's \<open>typeof\<close> checks on its
  fields guard against ill-typed data, which the types exclude here. The walk to the root may meet a
  cycle of parent links, so its loop is a partial function: not returning is \<open>None\<close>.
\<close>

subsection \<open>Entries\<close>

record file_details =
  d_readFiles :: "js_string list option"
  d_modifiedFiles :: "js_string list option"

record compaction_data =
  c_summary :: js_string
  firstKeptEntryId :: "js_string option"
  c_tokensBefore :: nat
  retainedTail :: "agent_message list option"
  c_details :: "file_details option"
  c_usage :: "usage option"
  c_fromHook :: bool

record branch_summary_data =
  fromId :: js_string
  s_summary :: js_string
  s_details :: "file_details option"
  s_usage :: "usage option"
  s_fromHook :: bool

datatype entry_body =
    MessageBody agent_message
  | ThinkingLevelChange js_string
  | ModelChange js_string js_string
  | ActiveToolsChange "js_string list"
  | Compaction compaction_data
  | BranchSummary branch_summary_data
  | Custom js_string "js_value option"
  | CustomMessageBody js_string message_content bool "js_value option"
  | Label js_string "js_string option"
  | SessionInfo "js_string option"
  | Leaf "js_string option"

record tree_entry =
  eid :: js_string
  parentId :: "js_string option"
  timestamp :: js_string
  body :: entry_body

datatype entry_type = TMessage | TThinkingLevelChange | TModelChange | TActiveToolsChange | TCompaction
  | TBranchSummary | TCustom | TCustomMessage | TLabel | TSessionInfo | TLeaf

fun body_type :: "entry_body \<Rightarrow> entry_type" where
  "body_type (MessageBody _) = TMessage"
| "body_type (ThinkingLevelChange _) = TThinkingLevelChange"
| "body_type (ModelChange _ _) = TModelChange"
| "body_type (ActiveToolsChange _) = TActiveToolsChange"
| "body_type (Compaction _) = TCompaction"
| "body_type (BranchSummary _) = TBranchSummary"
| "body_type (Custom _ _) = TCustom"
| "body_type (CustomMessageBody _ _ _ _) = TCustomMessage"
| "body_type (Label _ _) = TLabel"
| "body_type (SessionInfo _) = TSessionInfo"
| "body_type (Leaf _) = TLeaf"

abbreviation entry_type :: "tree_entry \<Rightarrow> entry_type" where
  "entry_type e \<equiv> body_type (body e)"

datatype session_error =
    InvalidEntry js_string
  | InvalidSession js_string
  | BranchCycle js_string
  | NotFound js_string
  | SessionNotFound js_string
  | InvalidForkTarget js_string
  | NotAUserMessage js_string
  | StorageDisposed
  | LimitRange

subsection \<open>Projections\<close>

record session_stats =
  messageCount :: nat
  cachedTokens :: nat
  uncachedTokens :: nat
  totalTokens :: nat
  costTotal :: js_number

record projection =
  name :: "js_string option"
  labelsById :: "js_string \<rightharpoonup> js_string"
  stats :: session_stats

definition createProjection :: projection where
  "createProjection = \<lparr>name = None, labelsById = Map.empty,
     stats = \<lparr>messageCount = 0, cachedTokens = 0, uncachedTokens = 0, totalTokens = 0, costTotal = 0\<rparr>\<rparr>"

text \<open>\<open>s?.trim() || undefined\<close>: what is left of a text that may be missing.\<close>

definition trimmed :: "js_string option \<Rightarrow> js_string option" where
  "trimmed s = (case s of None \<Rightarrow> None | Some t \<Rightarrow> if trim t = [] then None else Some (trim t))"

fun project_text :: "entry_body \<Rightarrow> projection \<Rightarrow> projection" where
  "project_text (SessionInfo n) p = p\<lparr>name := trimmed n\<rparr>"
| "project_text (Label target label) p = p\<lparr>labelsById := (labelsById p)(target := trimmed label)\<rparr>"
| "project_text _ p = p"

fun entry_usage :: "entry_body \<Rightarrow> usage option" where
  "entry_usage (MessageBody (AssistantMessage a)) = a_usage a"
| "entry_usage (Compaction c) = c_usage c"
| "entry_usage (BranchSummary s) = s_usage s"
| "entry_usage _ = None"

definition add_usage :: "usage \<Rightarrow> session_stats \<Rightarrow> session_stats" where
  "add_usage u s = s\<lparr>
     cachedTokens := cachedTokens s + u_cacheRead u,
     uncachedTokens := uncachedTokens s + (u_input u + u_cacheWrite u),
     totalTokens := totalTokens s + (u_input u + u_output u + u_cacheRead u + u_cacheWrite u),
     costTotal := num_add (costTotal s) (cost_total (u_cost u))\<rparr>"

definition applyProjection :: "tree_entry \<Rightarrow> projection \<Rightarrow> projection" where
  "applyProjection entry p =
     (let p1 = project_text (body entry) p;
          p2 = (if entry_type entry = TMessage
                then p1\<lparr>stats := (stats p1)\<lparr>messageCount := messageCount (stats p1) + 1\<rparr>\<rparr> else p1)
      in case entry_usage (body entry) of
           None \<Rightarrow> p2
         | Some u \<Rightarrow> p2\<lparr>stats := add_usage u (stats p2)\<rparr>)"

subsection \<open>The index\<close>

record session_index =
  entries :: "tree_entry list"
  byId :: "js_string \<rightharpoonup> tree_entry"
  leafId :: "js_string option"
  proj :: projection

definition empty_index :: session_index where
  "empty_index = \<lparr>entries = [], byId = Map.empty, leafId = None, proj = createProjection\<rparr>"

definition has :: "session_index \<Rightarrow> js_string \<Rightarrow> bool" where
  "has s i \<longleftrightarrow> byId s i \<noteq> None"

definition next_leaf :: "tree_entry \<Rightarrow> js_string option" where
  "next_leaf entry = (case body entry of Leaf target \<Rightarrow> target | _ \<Rightarrow> Some (eid entry))"

definition index_append :: "tree_entry \<Rightarrow> session_index \<Rightarrow> session_error + session_index" where
  "index_append entry s =
     (if has s (eid entry) then Inl (InvalidEntry (eid entry))
      else Inr \<lparr>entries = entries s @ [entry], byId = (byId s)(eid entry \<mapsto> entry),
                leafId = next_leaf entry, proj = applyProjection entry (proj s)\<rparr>)"

text \<open>The loop of \<open>replace\<close> over the next map, leaf and projection.\<close>

fun replace_loop ::
  "tree_entry list \<Rightarrow> (js_string \<rightharpoonup> tree_entry) \<Rightarrow> js_string option \<Rightarrow> projection
     \<Rightarrow> session_error + ((js_string \<rightharpoonup> tree_entry) \<times> js_string option \<times> projection)" where
  "replace_loop [] nextById nextLeafId nextProjection = Inr (nextById, nextLeafId, nextProjection)"
| "replace_loop (entry # es) nextById nextLeafId nextProjection =
     (if nextById (eid entry) \<noteq> None then Inl (InvalidEntry (eid entry))
      else replace_loop es (nextById(eid entry \<mapsto> entry)) (next_leaf entry)
             (applyProjection entry nextProjection))"

definition index_replace :: "tree_entry list \<Rightarrow> session_index \<Rightarrow> session_error + session_index" where
  "index_replace es s =
     and_then (replace_loop es Map.empty None createProjection) (\<lambda>(m, l, p).
     Inr (s\<lparr>entries := es, byId := m, leafId := l, proj := p\<rparr>))"

definition new_ArraySessionIndex :: "tree_entry list \<Rightarrow> session_error + session_index" where
  "new_ArraySessionIndex es = index_replace es empty_index"

definition readHead :: "session_index \<Rightarrow> session_error + js_string option" where
  "readHead s =
     (case leafId s of
        Some l \<Rightarrow> if has s l then Inr (Some l) else Inl (InvalidSession l)
      | None \<Rightarrow> Inr None)"

definition readEntry :: "session_index \<Rightarrow> js_string \<Rightarrow> tree_entry option" where
  "readEntry s i = byId s i"

record entry_cursor =
  afterEntrySeq :: "int option"
  cursorLimit :: "int option"

definition readEntries :: "entry_cursor \<Rightarrow> session_index \<Rightarrow> tree_entry list" where
  "readEntries options s =
     (let start = (case afterEntrySeq options of None \<Rightarrow> 0 | Some n \<Rightarrow> n);
          stop = map_option (\<lambda>n. start + n) (cursorLimit options)
      in js_slice start stop (entries s))"

definition all_entries :: entry_cursor where
  "all_entries = \<lparr>afterEntrySeq = None, cursorLimit = None\<rparr>"

definition getLabel :: "session_index \<Rightarrow> js_string \<Rightarrow> js_string option" where
  "getLabel s i = labelsById (proj s) i"

definition getName :: "session_index \<Rightarrow> js_string option" where
  "getName s = name (proj s)"

definition getStats :: "session_index \<Rightarrow> session_stats" where
  "getStats s = stats (proj s)"

subsection \<open>Walking a branch\<close>

text \<open>\<open>!current.parentId\<close>: there is no parent to go to when the link is \<open>null\<close> or the empty string.\<close>

definition parent_link :: "tree_entry \<Rightarrow> js_string option" where
  "parent_link e = (case parentId e of None \<Rightarrow> None | Some p \<Rightarrow> if p = [] then None else Some p)"

record branch_query =
  start :: "js_string option"
  stopAtType :: "entry_type option"
  stopAtId :: "js_string option"
  q_type :: "entry_type option"
  customType :: "js_string option"
  oldestFirst :: bool
  q_limit :: "js_number option"

definition stops_at :: "branch_query \<Rightarrow> tree_entry \<Rightarrow> bool" where
  "stops_at q e \<longleftrightarrow> Some (eid e) = stopAtId q \<or> Some (entry_type e) = stopAtType q"

partial_function (option) branch_walk ::
  "session_index \<Rightarrow> branch_query \<Rightarrow> tree_entry \<Rightarrow> js_string list \<Rightarrow> tree_entry list
     \<Rightarrow> (session_error + tree_entry list) option" where
  "branch_walk s q current visited path =
     (if eid current \<in> set visited then Some (Inl (BranchCycle (eid current)))
      else let path' = path @ [current] in
        if \<not> oldestFirst q \<and> stops_at q current then Some (Inr path')
        else case parent_link current of
          None \<Rightarrow> Some (Inr path')
        | Some p \<Rightarrow>
            (case byId s p of
               None \<Rightarrow> Some (Inl (InvalidSession p))
             | Some parent \<Rightarrow> branch_walk s q parent (eid current # visited) path'))"

definition query_matches :: "branch_query \<Rightarrow> tree_entry \<Rightarrow> bool" where
  "query_matches q e \<longleftrightarrow>
     (q_type q = None \<or> Some (entry_type e) = q_type q) \<and>
     (case customType q of
        None \<Rightarrow> True
      | Some t \<Rightarrow> (case body e of Custom c _ \<Rightarrow> c = t | _ \<Rightarrow> False))"

text \<open>The prefix up to and including the first element that satisfies \<open>p\<close>, all of the list if none does.\<close>

fun take_through :: "('a \<Rightarrow> bool) \<Rightarrow> 'a list \<Rightarrow> 'a list" where
  "take_through p [] = []"
| "take_through p (x # xs) = x # (if p x then [] else take_through p xs)"

definition findEntriesOnBranch ::
  "branch_query \<Rightarrow> session_index \<Rightarrow> (session_error + tree_entry list) option" where
  "findEntriesOnBranch q s =
     (if (case q_limit q of None \<Rightarrow> False | Some l \<Rightarrow> \<not> isInteger l \<or> intValue l \<le> 0)
      then Some (Inl LimitRange)
      else case start q of
        None \<Rightarrow> Some (Inr [])
      | Some i \<Rightarrow>
          (case byId s i of
             None \<Rightarrow> Some (Inl (NotFound i))
           | Some current \<Rightarrow>
               (case branch_walk s q current [] [] of
                  None \<Rightarrow> None
                | Some (Inl e) \<Rightarrow> Some (Inl e)
                | Some (Inr path) \<Rightarrow>
                    let bounded = (if oldestFirst q then take_through (stops_at q) (rev path) else path);
                        found = filter (query_matches q) bounded
                    in Some (Inr (case q_limit q of
                         None \<Rightarrow> found
                       | Some l \<Rightarrow> js_slice 0 (Some (intValue l)) found)))))"

partial_function (option) path_walk ::
  "session_index \<Rightarrow> tree_entry \<Rightarrow> js_string option \<Rightarrow> tree_entry list
     \<Rightarrow> (session_error + tree_entry list) option" where
  "path_walk s current stopAtEntryId path =
     (let path' = path @ [current] in
      if stopAtEntryId = Some (eid current) then Some (Inr path')
      else if (case body current of Compaction c \<Rightarrow> retainedTail c \<noteq> None | _ \<Rightarrow> False) then Some (Inr path')
      else let stop = (case body current of Compaction c \<Rightarrow> firstKeptEntryId c | _ \<Rightarrow> stopAtEntryId) in
        case parent_link current of
          None \<Rightarrow> Some (Inr path')
        | Some p \<Rightarrow>
            (case byId s p of
               None \<Rightarrow> Some (Inl (InvalidSession p))
             | Some parent \<Rightarrow> path_walk s parent stop path'))"

definition readPathToRootOrCompaction ::
  "session_index \<Rightarrow> js_string option \<Rightarrow> (session_error + tree_entry list) option" where
  "readPathToRootOrCompaction s requestedLeafId =
     (case requestedLeafId of
        None \<Rightarrow> Some (Inr [])
      | Some i \<Rightarrow>
          (case byId s i of
             None \<Rightarrow> Some (Inl (NotFound i))
           | Some current \<Rightarrow>
               (case path_walk s current None [] of
                  None \<Rightarrow> None
                | Some (Inl e) \<Rightarrow> Some (Inl e)
                | Some (Inr path) \<Rightarrow> Some (Inr (rev path)))))"

subsection \<open>The index as a view of the appended entries\<close>

definition ids_of :: "tree_entry list \<Rightarrow> js_string set" where
  "ids_of es = eid ` set es"

definition lookup_in :: "tree_entry list \<Rightarrow> js_string \<rightharpoonup> tree_entry" where
  "lookup_in es = map_of (map (\<lambda>e. (eid e, e)) (rev es))"

definition index_view :: "tree_entry list \<Rightarrow> session_index" where
  "index_view es =
     \<lparr>entries = es, byId = lookup_in es,
      leafId = (if es = [] then None else next_leaf (last es)),
      proj = fold applyProjection es createProjection\<rparr>"

lemma index_view_simps [simp]:
  "entries (index_view es) = es" "byId (index_view es) = lookup_in es"
  by (simp_all add: index_view_def)

lemma ids_of_simps [simp]:
  "ids_of [] = {}" "ids_of (e # es) = insert (eid e) (ids_of es)" "ids_of (es @ es') = ids_of es \<union> ids_of es'"
  "ids_of (rev es) = ids_of es"
  by (auto simp: ids_of_def)

lemma lookup_in_snoc [simp]: "lookup_in (es @ [e]) = (lookup_in es)(eid e \<mapsto> e)"
  by (simp add: lookup_in_def)

lemma lookup_in_empty [simp]: "lookup_in [] = Map.empty"
  by (simp add: lookup_in_def)

lemma lookup_in_None [simp]: "lookup_in es i = None \<longleftrightarrow> i \<notin> ids_of es"
  by (induction es rule: rev_induct) auto

lemma lookup_in_Some: "lookup_in es i = Some e \<Longrightarrow> e \<in> set es \<and> eid e = i"
  by (induction es rule: rev_induct) (auto split: if_splits)

lemma lookup_in_mem: "distinct (map eid es) \<Longrightarrow> e \<in> set es \<Longrightarrow> lookup_in es (eid e) = Some e"
  by (induction es rule: rev_induct) (auto simp: image_iff)

lemma index_append_view:
  "index_append e (index_view es) =
     (if eid e \<in> ids_of es then Inl (InvalidEntry (eid e)) else Inr (index_view (es @ [e])))"
  by (simp add: index_append_def has_def index_view_def)

lemma replace_loop_append:
  "replace_loop (es @ fs) m l p =
     and_then (replace_loop es m l p) (\<lambda>(m', l', p'). replace_loop fs m' l' p')"
  by (induction es arbitrary: m l p) auto

lemma replace_loop_ok:
  "distinct (map eid es) \<Longrightarrow>
     replace_loop es Map.empty None createProjection =
       Inr (lookup_in es, leafId (index_view es), proj (index_view es))"
proof (induction es rule: rev_induct)
  case (snoc e es)
  then show ?case
    by (auto simp: replace_loop_append index_view_def ids_of_def)
qed (simp add: index_view_def)

lemma replace_loop_duplicate:
  "\<not> distinct (map eid es) \<Longrightarrow> \<exists>i. replace_loop es Map.empty None createProjection = Inl (InvalidEntry i)"
proof (induction es rule: rev_induct)
  case (snoc e es)
  show ?case
  proof (cases "distinct (map eid es)")
    case True
    with snoc.prems have "eid e \<in> ids_of es" by (auto simp: ids_of_def)
    then show ?thesis using replace_loop_ok [OF True] by (auto simp: replace_loop_append)
  next
    case False
    then show ?thesis using snoc.IH by (auto simp: replace_loop_append)
  qed
qed simp

lemma new_index_view:
  "distinct (map eid es) \<Longrightarrow> new_ArraySessionIndex es = Inr (index_view es)"
  by (simp add: new_ArraySessionIndex_def index_replace_def replace_loop_ok empty_index_def index_view_def)

lemma new_index_duplicate:
  "\<not> distinct (map eid es) \<Longrightarrow> \<exists>i. new_ArraySessionIndex es = Inl (InvalidEntry i)"
  using replace_loop_duplicate [of es] by (auto simp: new_ArraySessionIndex_def index_replace_def)

lemma new_index_eq:
  "new_ArraySessionIndex es = Inr s \<longleftrightarrow> distinct (map eid es) \<and> s = index_view es"
  using new_index_view [of es] new_index_duplicate [of es] by (cases "distinct (map eid es)") auto

text \<open>Property C36. Rebuilding the index from a list of entries and appending them one by one are the same:
  the map, the active leaf, the projections and the duplicate error agree.\<close>

theorem index_append_is_rebuild:
  "new_ArraySessionIndex (es @ [e]) = and_then (new_ArraySessionIndex es) (index_append e)"
proof (cases "distinct (map eid es)")
  case True
  show ?thesis
  proof (cases "eid e \<in> ids_of es")
    case True
    then have "new_ArraySessionIndex (es @ [e]) = Inl (InvalidEntry (eid e))"
      using replace_loop_ok [OF \<open>distinct (map eid es)\<close>]
      by (auto simp: new_ArraySessionIndex_def index_replace_def replace_loop_append)
    then show ?thesis
      using True \<open>distinct (map eid es)\<close> by (simp add: new_index_view index_append_view)
  next
    case False
    then have "distinct (map eid (es @ [e]))" using \<open>distinct (map eid es)\<close> by (auto simp: ids_of_def)
    then show ?thesis
      using False \<open>distinct (map eid es)\<close> by (simp add: new_index_view index_append_view)
  qed
next
  case False
  then show ?thesis
    using replace_loop_duplicate [OF False]
    by (auto simp: new_ArraySessionIndex_def index_replace_def replace_loop_append)
qed

subsection \<open>Walks over linked entries\<close>

text \<open>Every parent link goes to an entry appended before: how a session appends. On such entries, and
  newest first, the walk of \<open>readPathToRootOrCompaction\<close> is a scan of the log.\<close>

definition parent_in :: "js_string set \<Rightarrow> tree_entry \<Rightarrow> bool" where
  "parent_in known e = (case parent_link e of None \<Rightarrow> True | Some p \<Rightarrow> p \<in> known)"

fun linked_from :: "js_string list \<Rightarrow> tree_entry list \<Rightarrow> bool" where
  "linked_from seen [] = True"
| "linked_from seen (e # es) = (parent_in (set seen) e \<and> linked_from (eid e # seen) es)"

definition linked :: "tree_entry list \<Rightarrow> bool" where
  "linked es = linked_from [] es"

definition tail_kept :: "tree_entry \<Rightarrow> bool" where
  "tail_kept e = (case body e of Compaction c \<Rightarrow> retainedTail c \<noteq> None | _ \<Rightarrow> False)"

definition stop_after :: "tree_entry \<Rightarrow> js_string option \<Rightarrow> js_string option" where
  "stop_after e stop = (case body e of Compaction c \<Rightarrow> firstKeptEntryId c | _ \<Rightarrow> stop)"

fun up_path :: "tree_entry list \<Rightarrow> js_string \<Rightarrow> js_string option \<Rightarrow> tree_entry list" where
  "up_path [] i stop = []"
| "up_path (e # older) i stop =
     (if eid e \<noteq> i then up_path older i stop
      else e # (if stop = Some i \<or> tail_kept e then []
                else case parent_link e of None \<Rightarrow> [] | Some p \<Rightarrow> up_path older p (stop_after e stop)))"

lemma linked_from_snoc:
  "linked_from seen (es @ [e]) \<longleftrightarrow>
     linked_from seen es \<and> parent_in (set seen \<union> ids_of es) e"
  by (induction es arbitrary: seen) auto

lemma linked_snoc:
  "linked (es @ [e]) \<longleftrightarrow> linked es \<and> parent_in (ids_of es) e"
  by (simp add: linked_def linked_from_snoc)

lemma linked_Nil [simp]: "linked []"
  by (simp add: linked_def)

lemma ids_ofE: "i \<in> ids_of es \<Longrightarrow> (\<And>e. e \<in> set es \<Longrightarrow> eid e = i \<Longrightarrow> thesis) \<Longrightarrow> thesis"
  by (auto simp: ids_of_def)

lemma path_walk_linked:
  assumes "linked (rev older)" "distinct (map eid older)" "\<forall>e \<in> set older. byId s (eid e) = Some e"
    and "current \<in> set older"
  shows "path_walk s current stop path = Some (Inr (path @ up_path older (eid current) stop))"
  using assms
proof (induction older arbitrary: current stop path)
  case (Cons e older)
  have l: "linked (rev older)" and p: "parent_in (ids_of older) e"
    using Cons.prems(1) by (auto simp: linked_snoc)
  show ?case
  proof (cases "current \<in> set older")
    case True
    moreover from this have "eid e \<noteq> eid current" using Cons.prems(2) by auto
    ultimately show ?thesis using Cons.IH [OF l] Cons.prems by simp
  next
    case False
    then have c: "current = e" using Cons.prems(4) by simp
    show ?thesis
    proof (cases "parent_link e")
      case None
      then show ?thesis by (subst path_walk.simps) (simp add: c tail_kept_def Let_def)
    next
      case (Some q)
      then obtain parent where "parent \<in> set older" "eid parent = q"
        using p by (auto simp: parent_in_def elim: ids_ofE)
      moreover from this have "byId s q = Some parent" using Cons.prems(3) by auto
      ultimately show ?thesis
        using Cons.IH [OF l, of parent] Cons.prems(2,3) Some
        by (subst path_walk.simps) (simp add: c tail_kept_def stop_after_def Let_def)
    qed
  qed
qed simp

lemma readPath_view:
  assumes "linked es" "distinct (map eid es)" "i \<in> ids_of es"
  shows "readPathToRootOrCompaction (index_view es) (Some i) = Some (Inr (rev (up_path (rev es) i None)))"
proof -
  obtain e where e: "e \<in> set es" "eid e = i" using assms(3) by (rule ids_ofE)
  then have "lookup_in es i = Some e" using lookup_in_mem [OF assms(2)] by auto
  moreover have "path_walk (index_view es) e None [] = Some (Inr (up_path (rev es) i None))"
    using path_walk_linked [of "rev es" "index_view es" e None "[]"] assms e
    by (simp add: lookup_in_mem rev_map [symmetric])
  ultimately show ?thesis by (simp add: readPathToRootOrCompaction_def)
qed

text \<open>The whole branch of an entry, newest first.\<close>

fun chain :: "tree_entry list \<Rightarrow> js_string \<Rightarrow> tree_entry list" where
  "chain [] i = []"
| "chain (e # older) i =
     (if eid e \<noteq> i then chain older i
      else e # (case parent_link e of None \<Rightarrow> [] | Some p \<Rightarrow> chain older p))"

definition walk_bound :: "branch_query \<Rightarrow> tree_entry list \<Rightarrow> tree_entry list" where
  "walk_bound q path = (if oldestFirst q then path else take_through (stops_at q) path)"

lemma branch_walk_linked:
  assumes "linked (rev older)" "distinct (map eid older)" "\<forall>e \<in> set older. byId s (eid e) = Some e"
    and "current \<in> set older" "set visited \<inter> ids_of older = {}"
  shows "branch_walk s q current visited path =
    Some (Inr (path @ walk_bound q (chain older (eid current))))"
  using assms
proof (induction older arbitrary: current visited path)
  case (Cons e older)
  have l: "linked (rev older)" and p: "parent_in (ids_of older) e"
    using Cons.prems(1) by (auto simp: linked_snoc)
  have new: "eid e \<notin> ids_of older" using Cons.prems(2) by (auto simp: ids_of_def)
  show ?case
  proof (cases "current \<in> set older")
    case True
    moreover from this have "eid e \<noteq> eid current" using Cons.prems(2) by auto
    ultimately show ?thesis using Cons.IH [OF l] Cons.prems by simp
  next
    case False
    then have c: "current = e" using Cons.prems(4) by simp
    have unseen: "eid e \<notin> set visited" using Cons.prems(5) by auto
    show ?thesis
    proof (cases "parent_link e")
      case None
      then show ?thesis using unseen
        by (subst branch_walk.simps) (simp add: c walk_bound_def Let_def)
    next
      case (Some r)
      then obtain parent where "parent \<in> set older" "eid parent = r"
        using p by (auto simp: parent_in_def elim: ids_ofE)
      moreover from this have "byId s r = Some parent" using Cons.prems(3) by auto
      ultimately show ?thesis
        using Cons.IH [OF l, of parent "eid e # visited"] Cons.prems(2,3,5) Some unseen new
        by (subst branch_walk.simps) (simp add: c walk_bound_def Let_def)
    qed
  qed
qed simp

text \<open>On any entries, cyclic or dangling, the walk with the visited set returns: each step visits a
  new entry.\<close>

lemma branch_walk_returns:
  "current \<in> set es \<Longrightarrow> \<exists>r. branch_walk (index_view es) q current visited path = Some r"
proof (induction "card (ids_of es - set visited)" arbitrary: current visited path rule: less_induct)
  case less
  have fin: "finite (ids_of es)" by (simp add: ids_of_def)
  show ?case
  proof (cases "eid current \<in> set visited")
    case True
    then show ?thesis by (subst branch_walk.simps) (simp add: Let_def)
  next
    case False
    then have smaller: "card (ids_of es - set (eid current # visited)) < card (ids_of es - set visited)"
      using fin less.prems by (intro psubset_card_mono) (auto simp: ids_of_def)
    have "\<exists>r. branch_walk (index_view es) q e (eid current # visited) (path @ [current]) = Some r"
      if "lookup_in es p = Some e" for p e
      using less.hyps [OF smaller] lookup_in_Some [OF that] by blast
    then show ?thesis
      by (subst branch_walk.simps) (auto simp: Let_def simp del: lookup_in_None split: option.split)
  qed
qed

subsection \<open>Properties\<close>

text \<open>Property C37. On the entries of a session whose parent links go to earlier entries, reading the path
  to the root or to the last compaction returns, with exactly the entries that a scan of the log from
  the requested entry towards the oldest one meets: up to a root, a compaction that kept its tail, or
  the first entry a compaction kept.\<close>

theorem readPath_is_log_scan:
  assumes "new_ArraySessionIndex es = Inr s" "linked es" "i \<in> ids_of es"
  shows "readPathToRootOrCompaction s (Some i) = Some (Inr (rev (up_path (rev es) i None)))"
  using assms readPath_view by (simp add: new_index_eq)

text \<open>An entry with the given id and parent that holds a session name, for small examples.\<close>

definition node :: "string \<Rightarrow> string option \<Rightarrow> entry_body \<Rightarrow> tree_entry" where
  "node i p b = \<lparr>eid = js i, parentId = map_option js p, timestamp = [], body = b\<rparr>"

theorem readPath_is_log_scan_witness:
  "readPathToRootOrCompaction
     (index_view [node ''a'' None (SessionInfo None), node ''b'' (Some ''a'') (SessionInfo None),
        node ''c'' (Some ''a'') (SessionInfo None)]) (Some (js ''c''))
   = Some (Inr [node ''a'' None (SessionInfo None), node ''c'' (Some ''a'') (SessionInfo None)])"
proof -
  let ?es = "[node ''a'' None (SessionInfo None), node ''b'' (Some ''a'') (SessionInfo None),
    node ''c'' (Some ''a'') (SessionInfo None)]"
  have "new_ArraySessionIndex ?es = Inr (index_view ?es)"
    by (rule new_index_view) (simp add: node_def js_def)
  from readPath_is_log_scan [OF this, of "js ''c''"] show ?thesis
    by (simp add: linked_def node_def js_def parent_in_def parent_link_def tail_kept_def stop_after_def)
qed

lemma find_spec:
  assumes "new_ArraySessionIndex es = Inr s" "linked es" "start q = Some i" "i \<in> ids_of es"
    and "\<forall>l. q_limit q = Some l \<longrightarrow> isInteger l \<and> 0 < intValue l"
  shows "findEntriesOnBranch q s = Some (Inr (
      let branch = chain (rev es) i;
          bounded = take_through (stops_at q) (if oldestFirst q then rev branch else branch);
          found = filter (query_matches q) bounded
      in (case q_limit q of None \<Rightarrow> found | Some l \<Rightarrow> take (nat (intValue l)) found)))"
proof -
  have d: "distinct (map eid es)" and s: "s = index_view es" using assms(1) by (auto simp: new_index_eq)
  obtain e where e: "e \<in> set es" "eid e = i" using assms(4) by (rule ids_ofE)
  then have look: "lookup_in es i = Some e" using lookup_in_mem [OF d] by auto
  have walk: "branch_walk s q e [] [] = Some (Inr (walk_bound q (chain (rev es) i)))"
    using branch_walk_linked [of "rev es" s e "[]" q "[]"] assms(2) d e
    by (simp add: s lookup_in_mem rev_map [symmetric])
  have lim: "js_slice 0 (Some (intValue l)) xs = take (nat (intValue l)) xs" if "q_limit q = Some l" for l xs
    using assms(5) that js_slice_head [of "nat (intValue l)" xs] by (simp add: order_less_imp_le)
  show ?thesis
    using assms(3,5) walk look lim
    by (auto simp: findEntriesOnBranch_def s walk_bound_def Let_def split: option.splits)
qed

text \<open>A branch query on linked entries returns what its documentation says: the entries from
  the start towards the root in the requested order, cut after the first entry that stops it, then
  filtered by type and custom type, then limited.\<close>

theorem findEntriesOnBranch_spec:
  assumes "new_ArraySessionIndex es = Inr s" "linked es" "start q = Some i" "i \<in> ids_of es"
    and "\<forall>l. q_limit q = Some l \<longrightarrow> isInteger l \<and> 0 < intValue l"
  shows "findEntriesOnBranch q s = Some (Inr (
      let branch = chain (rev es) i;
          bounded = take_through (stops_at q) (if oldestFirst q then rev branch else branch);
          found = filter (query_matches q) bounded
      in (case q_limit q of None \<Rightarrow> found | Some l \<Rightarrow> take (nat (intValue l)) found)))"
  using assms by (rule find_spec)

theorem findEntriesOnBranch_spec_witness:
  "findEntriesOnBranch \<lparr>start = Some (js ''c''), stopAtType = None, stopAtId = Some (js ''b''), q_type = None,
       customType = None, oldestFirst = True, q_limit = Some (number_of_int 1)\<rparr>
     (index_view [node ''a'' None (SessionInfo None), node ''b'' (Some ''a'') (SessionInfo None),
        node ''c'' (Some ''b'') (SessionInfo None)])
   = Some (Inr [node ''a'' None (SessionInfo None)])"
proof -
  let ?es = "[node ''a'' None (SessionInfo None), node ''b'' (Some ''a'') (SessionInfo None),
    node ''c'' (Some ''b'') (SessionInfo None)]"
  have new: "new_ArraySessionIndex ?es = Inr (index_view ?es)"
    by (rule new_index_view) (simp add: node_def js_def)
  have n: "isInteger (number_of_int 1)" "intValue (number_of_int 1) = 1"
    using number_of_int_safe [of 1] by (auto simp: isSafeInteger_def)
  show ?thesis
    using findEntriesOnBranch_spec [OF new, of
        "\<lparr>start = Some (js ''c''), stopAtType = None, stopAtId = Some (js ''b''), q_type = None,
          customType = None, oldestFirst = True, q_limit = Some (number_of_int 1)\<rparr>" "js ''c''"]
    by (simp add: linked_def node_def js_def parent_in_def parent_link_def stops_at_def query_matches_def n)
qed

text \<open>A branch query returns on any entries an index can hold, whatever their parent links:
  it gives entries or an error, and never loops.\<close>

theorem findEntriesOnBranch_returns:
  assumes "new_ArraySessionIndex es = Inr s"
  shows "\<exists>r. findEntriesOnBranch q s = Some r"
proof -
  have s: "s = index_view es" using assms by (simp add: new_index_eq)
  have "\<exists>r. branch_walk s q e [] [] = Some r" if "byId s i = Some e" for i e
    using branch_walk_returns [of e es q "[]" "[]"] lookup_in_Some [of es i e] that by (simp add: s)
  then show ?thesis
    by (auto simp: findEntriesOnBranch_def Let_def split: option.split sum.split) (metis option.distinct(1))+
qed

theorem findEntriesOnBranch_returns_witness:
  "\<exists>r. findEntriesOnBranch \<lparr>start = Some (js ''a''), stopAtType = None, stopAtId = None, q_type = None,
       customType = None, oldestFirst = True, q_limit = None\<rparr>
     (index_view [node ''a'' (Some ''b'') (SessionInfo None), node ''b'' (Some ''a'') (SessionInfo None)]) = Some r"
  by (rule findEntriesOnBranch_returns [OF new_index_view]) (simp add: node_def js_def)

lemma path_walk_self_parent:
  assumes "byId s (eid e) = Some e" "parent_link e = Some (eid e)" "\<forall>c. body e \<noteq> Compaction c"
  shows "path_walk s e None path = None"
proof -
  have "\<not> (s' = s \<and> e' = e \<and> stop = None)" if "path_walk s' e' stop path = Some y" for s' e' stop path y
    using that
    by (rule path_walk.raw_induct [rotated])
      (use assms in \<open>fastforce simp: Let_def split: if_splits option.splits entry_body.splits\<close>)
  from this [of s e None path] show ?thesis by (cases "path_walk s e None path") auto
qed

text \<open>On an entry that is its own parent the two walks differ: a branch query reports the cycle,
  and reading the path to the root never returns.\<close>

theorem readPath_self_parent_diverges:
  assumes "parent_link e = Some (eid e)" "\<forall>c. body e \<noteq> Compaction c"
    and "start q = Some (eid e)" "q_limit q = None" "stopAtId q = None" "stopAtType q = None"
  shows "readPathToRootOrCompaction (index_view [e]) (Some (eid e)) = None
    \<and> findEntriesOnBranch q (index_view [e]) = Some (Inl (BranchCycle (eid e)))"
proof
  have look: "lookup_in [e] (eid e) = Some e" by (rule lookup_in_mem) simp_all
  show "readPathToRootOrCompaction (index_view [e]) (Some (eid e)) = None"
    using path_walk_self_parent [of "index_view [e]" e "[]"] assms(1,2) look
    by (simp add: readPathToRootOrCompaction_def)
  have "branch_walk (index_view [e]) q e [] [] = Some (Inl (BranchCycle (eid e)))"
    using assms look by (simp add: branch_walk.simps stops_at_def Let_def)
  then show "findEntriesOnBranch q (index_view [e]) = Some (Inl (BranchCycle (eid e)))"
    using assms look by (simp add: findEntriesOnBranch_def)
qed

theorem readPath_self_parent_diverges_witness:
  "readPathToRootOrCompaction (index_view [node ''a'' (Some ''a'') (SessionInfo None)]) (Some (js ''a'')) = None
   \<and> findEntriesOnBranch \<lparr>start = Some (js ''a''), stopAtType = None, stopAtId = None, q_type = None,
        customType = None, oldestFirst = False, q_limit = None\<rparr>
       (index_view [node ''a'' (Some ''a'') (SessionInfo None)]) = Some (Inl (BranchCycle (js ''a'')))"
  using readPath_self_parent_diverges [of "node ''a'' (Some ''a'') (SessionInfo None)"
      "\<lparr>start = Some (js ''a''), stopAtType = None, stopAtId = None, q_type = None,
        customType = None, oldestFirst = False, q_limit = None\<rparr>"]
  by (simp add: node_def js_def parent_link_def)

text \<open>The statistics as sums over the entries.\<close>

definition usages :: "tree_entry list \<Rightarrow> usage list" where
  "usages es = List.map_filter (\<lambda>e. entry_usage (body e)) es"

lemma stats_project_text [simp]: "stats (project_text b p) = stats p"
  by (cases b) simp_all

lemma applyProjection_stats:
  "stats (applyProjection e p) =
     (let s = (if entry_type e = TMessage then (stats p)\<lparr>messageCount := messageCount (stats p) + 1\<rparr> else stats p)
      in case entry_usage (body e) of None \<Rightarrow> s | Some u \<Rightarrow> add_usage u s)"
  by (simp add: applyProjection_def Let_def split: option.split)

lemma usages_snoc:
  "usages (es @ [e]) = usages es @ (case entry_usage (body e) of None \<Rightarrow> [] | Some u \<Rightarrow> [u])"
  by (simp add: usages_def map_filter_def split: option.split)

text \<open>The statistics of an index are the number of its messages and the sums of the usages
  its assistant messages, compactions and branch summaries report; the cost is added up in the order of
  the entries.\<close>

theorem getStats_sums:
  assumes "new_ArraySessionIndex es = Inr s"
  shows "getStats s =
    \<lparr>messageCount = length (filter (\<lambda>e. entry_type e = TMessage) es),
     cachedTokens = sum_list (map u_cacheRead (usages es)),
     uncachedTokens = sum_list (map (\<lambda>u. u_input u + u_cacheWrite u) (usages es)),
     totalTokens = sum_list (map (\<lambda>u. u_input u + u_output u + u_cacheRead u + u_cacheWrite u) (usages es)),
     costTotal = foldl num_add 0 (map (\<lambda>u. cost_total (u_cost u)) (usages es))\<rparr>"
proof -
  have "stats (fold applyProjection es createProjection) =
    \<lparr>messageCount = length (filter (\<lambda>e. entry_type e = TMessage) es),
     cachedTokens = sum_list (map u_cacheRead (usages es)),
     uncachedTokens = sum_list (map (\<lambda>u. u_input u + u_cacheWrite u) (usages es)),
     totalTokens = sum_list (map (\<lambda>u. u_input u + u_output u + u_cacheRead u + u_cacheWrite u) (usages es)),
     costTotal = foldl num_add 0 (map (\<lambda>u. cost_total (u_cost u)) (usages es))\<rparr>"
  proof (induction es rule: rev_induct)
    case Nil
    show ?case by (simp add: createProjection_def usages_def map_filter_def)
  next
    case (snoc e es)
    then show ?case
      by (cases "entry_usage (body e)")
        (simp_all add: applyProjection_stats usages_snoc add_usage_def Let_def)
  qed
  then show ?thesis using assms by (simp add: new_index_eq getStats_def index_view_def)
qed

theorem getStats_sums_witness:
  "getStats (index_view [node ''a'' None (MessageBody (UserMessage (ContentString []) 0))])
   = \<lparr>messageCount = 1, cachedTokens = 0, uncachedTokens = 0, totalTokens = 0, costTotal = 0\<rparr>"
  using getStats_sums [OF new_index_view, of "[node ''a'' None (MessageBody (UserMessage (ContentString []) 0))]"]
  by (simp add: node_def usages_def map_filter_def)

end
