(* ===== verification/Session.thy ===== *)
theory Session
  imports SessionIndex
begin

text \<open>
  \<^verbatim>\<open>packages/agent/src/harness/session/session.ts\<close>: what a model is sent for a branch (the functions
  that derive it from the entries of a path) and the class \<open>Session\<close>, which appends entries under the
  active leaf and moves it. Appends are serialised by the promise \<open>appendTail\<close>, so they are state-passing
  steps here; \<open>moveTo\<close>, which queues the leaf entry and the branch summary one after the other, is one step. \<open>uuid n\<close> is the \<open>n\<close>-th result of \<open>uuidv7()\<close> and \<open>now\<close> the time of the call, both
  parameters; the locale \<open>session_storage\<close> states what a session needs of its storage, and the array
  index provides it.
\<close>

subsection \<open>The context of a path\<close>

record model_ref =
  provider :: js_string
  modelId :: js_string

record context_state =
  thinkingLevel :: js_string
  model :: "model_ref option"
  activeToolNames :: "js_string list option"

record session_context = context_state +
  messages :: "agent_message list"

record context_options =
  entryTransforms :: "(tree_entry list \<Rightarrow> tree_entry list) list"
  entryProjectors :: "js_string \<rightharpoonup> (tree_entry \<Rightarrow> nat \<Rightarrow> tree_entry list \<Rightarrow> agent_message list option)"

fun derive_step :: "entry_body \<Rightarrow> context_state \<Rightarrow> context_state" where
  "derive_step (ThinkingLevelChange l) s = s\<lparr>thinkingLevel := l\<rparr>"
| "derive_step (ModelChange p m) s = s\<lparr>model := Some \<lparr>provider = p, modelId = m\<rparr>\<rparr>"
| "derive_step (MessageBody (AssistantMessage a)) s =
     s\<lparr>model := Some \<lparr>provider = a_provider a, modelId = a_model a\<rparr>\<rparr>"
| "derive_step (ActiveToolsChange ts) s = s\<lparr>activeToolNames := Some ts\<rparr>"
| "derive_step _ s = s"

definition deriveSessionContextState :: "tree_entry list \<Rightarrow> context_state" where
  "deriveSessionContextState pathEntries =
     fold (\<lambda>e. derive_step (body e)) pathEntries
       \<lparr>thinkingLevel = js ''off'', model = None, activeToolNames = None\<rparr>"

fun last_compaction :: "tree_entry list \<Rightarrow> (tree_entry \<times> compaction_data) option" where
  "last_compaction [] = None"
| "last_compaction (e # es) =
     (case last_compaction es of
        Some c \<Rightarrow> Some c
      | None \<Rightarrow> (case body e of Compaction c \<Rightarrow> Some (e, c) | _ \<Rightarrow> None))"

definition compaction_index :: "js_string \<Rightarrow> tree_entry list \<Rightarrow> nat" where
  "compaction_index i es = length (takeWhile (\<lambda>e. \<not> (entry_type e = TCompaction \<and> eid e = i)) es)"

definition defaultContextEntryTransform :: "tree_entry list \<Rightarrow> tree_entry list" where
  "defaultContextEntryTransform pathEntries =
     (case last_compaction pathEntries of
        None \<Rightarrow> pathEntries
      | Some (entry, c) \<Rightarrow>
          let idx = compaction_index (eid entry) pathEntries;
              kept = (case firstKeptEntryId c of
                        None \<Rightarrow> []
                      | Some k \<Rightarrow> if k = [] then [] else dropWhile (\<lambda>e. eid e \<noteq> k) (take idx pathEntries))
          in if retainedTail c \<noteq> None then entry # drop (idx + 1) pathEntries
             else entry # kept @ drop (idx + 1) pathEntries)"

definition buildContextEntries :: "context_options \<Rightarrow> tree_entry list \<Rightarrow> tree_entry list" where
  "buildContextEntries options pathEntries =
     fold (\<lambda>transform es. transform es) (entryTransforms options) (defaultContextEntryTransform pathEntries)"

fun sessionEntryToContextMessages ::
  "(js_string \<Rightarrow> int) \<Rightarrow> context_options \<Rightarrow> tree_entry list \<Rightarrow> nat \<Rightarrow> tree_entry \<Rightarrow> agent_message list" where
  "sessionEntryToContextMessages getTime options es index entry =
     (case body entry of
        MessageBody m \<Rightarrow> [m]
      | CustomMessageBody t content display details \<Rightarrow>
          [createCustomMessage getTime t content display details (timestamp entry)]
      | Compaction c \<Rightarrow>
          createCompactionSummaryMessage getTime (c_summary c) (c_tokensBefore c) (timestamp entry)
            # (case retainedTail c of None \<Rightarrow> [] | Some kept \<Rightarrow> kept)
      | BranchSummary b \<Rightarrow>
          if s_summary b \<noteq> []
          then [createBranchSummaryMessage getTime (s_summary b) (fromId b) (timestamp entry)] else []
      | Custom t _ \<Rightarrow>
          (case entryProjectors options t of
             None \<Rightarrow> []
           | Some projector \<Rightarrow> (case projector entry index es of None \<Rightarrow> [] | Some ms \<Rightarrow> ms))
      | _ \<Rightarrow> [])"

declare sessionEntryToContextMessages.simps [simp del]

definition context_messages ::
  "(js_string \<Rightarrow> int) \<Rightarrow> context_options \<Rightarrow> tree_entry list \<Rightarrow> agent_message list" where
  "context_messages getTime options es =
     concat (map (\<lambda>(i, e). sessionEntryToContextMessages getTime options es i e) (enumerate 0 es))"

definition buildSessionContext ::
  "(js_string \<Rightarrow> int) \<Rightarrow> context_options \<Rightarrow> tree_entry list \<Rightarrow> session_context" where
  "buildSessionContext getTime options pathEntries =
     (let state = deriveSessionContextState pathEntries in
      \<lparr>thinkingLevel = thinkingLevel state, model = model state, activeToolNames = activeToolNames state,
       messages = context_messages getTime options (buildContextEntries options pathEntries)\<rparr>)"

subsection \<open>The session\<close>

record session =
  storage :: session_index
  sleaf :: "js_string option"
  contextBuildOptions :: context_options
  uuidCount :: nat

definition no_options :: context_options where
  "no_options = \<lparr>entryTransforms = [], entryProjectors = Map.empty\<rparr>"

definition createSession :: "session_index \<Rightarrow> context_options \<Rightarrow> nat \<Rightarrow> session_error + session" where
  "createSession st options n =
     and_then (readHead st) (\<lambda>l. Inr \<lparr>storage = st, sleaf = l, contextBuildOptions = options, uuidCount = n\<rparr>)"

definition getEntry :: "session \<Rightarrow> js_string \<Rightarrow> tree_entry option" where
  "getEntry s i = readEntry (storage s) i"

definition getEntries :: "entry_cursor \<Rightarrow> session \<Rightarrow> tree_entry list" where
  "getEntries options s = readEntries options (storage s)"

text \<open>An argument that may be \<open>undefined\<close>, \<open>null\<close> or an id: \<open>undefined\<close> stands for the active leaf.\<close>

definition from_leaf :: "js_string option option \<Rightarrow> session \<Rightarrow> js_string option" where
  "from_leaf given s = (case given of None \<Rightarrow> sleaf s | Some i \<Rightarrow> i)"

definition getBranch :: "js_string option option \<Rightarrow> session \<Rightarrow> (session_error + tree_entry list) option" where
  "getBranch given s = readPathToRootOrCompaction (storage s) (from_leaf given s)"

definition session_findEntriesOnBranch ::
  "js_string option option \<Rightarrow> branch_query \<Rightarrow> session \<Rightarrow> (session_error + tree_entry list) option" where
  "session_findEntriesOnBranch given q s = findEntriesOnBranch (q\<lparr>start := from_leaf given s\<rparr>) (storage s)"

definition findEntryOnBranch ::
  "js_string option option \<Rightarrow> branch_query \<Rightarrow> session \<Rightarrow> (session_error + tree_entry option) option" where
  "findEntryOnBranch given q s =
     (case session_findEntriesOnBranch given (q\<lparr>q_limit := Some (number_of_int 1)\<rparr>) s of
        None \<Rightarrow> None
      | Some (Inl e) \<Rightarrow> Some (Inl e)
      | Some (Inr es) \<Rightarrow> Some (Inr (case es of [] \<Rightarrow> None | e # _ \<Rightarrow> Some e)))"

definition mergeContextBuildOptions :: "session \<Rightarrow> context_options \<Rightarrow> context_options" where
  "mergeContextBuildOptions s options =
     \<lparr>entryTransforms = entryTransforms (contextBuildOptions s) @ entryTransforms options,
      entryProjectors = entryProjectors (contextBuildOptions s) ++ entryProjectors options\<rparr>"

definition session_buildContextEntries ::
  "context_options \<Rightarrow> session \<Rightarrow> (session_error + tree_entry list) option" where
  "session_buildContextEntries options s =
     map_option (map_sum id (buildContextEntries (mergeContextBuildOptions s options))) (getBranch None s)"

definition buildContext ::
  "(js_string \<Rightarrow> int) \<Rightarrow> context_options \<Rightarrow> session \<Rightarrow> (session_error + session_context) option" where
  "buildContext getTime options s =
     map_option (map_sum id (buildSessionContext getTime (mergeContextBuildOptions s options)))
       (getBranch None s)"

subsection \<open>Appending\<close>

fun entry_id_loop :: "(nat \<Rightarrow> js_string) \<Rightarrow> nat \<Rightarrow> session \<Rightarrow> js_string \<times> session" where
  "entry_id_loop uuid 0 s = (uuid (uuidCount s), s\<lparr>uuidCount := uuidCount s + 1\<rparr>)"
| "entry_id_loop uuid (Suc n) s =
     (let i = js_slice (-8) None (uuid (uuidCount s)); s' = s\<lparr>uuidCount := uuidCount s + 1\<rparr>
      in if getEntry s i = None then (i, s') else entry_id_loop uuid n s')"

definition createEntryId :: "(nat \<Rightarrow> js_string) \<Rightarrow> session \<Rightarrow> js_string \<times> session" where
  "createEntryId uuid s = entry_id_loop uuid 100 s"

definition enqueueAppend ::
  "(nat \<Rightarrow> js_string) \<Rightarrow> js_string \<Rightarrow> entry_body \<Rightarrow> session \<Rightarrow> (session_error + tree_entry) \<times> session" where
  "enqueueAppend uuid now b s =
     (let (i, s') = createEntryId uuid s;
          entry = \<lparr>eid = i, parentId = sleaf s', timestamp = now, body = b\<rparr>
      in case index_append entry (storage s') of
           Inl e \<Rightarrow> (Inl e, s')
         | Inr st \<Rightarrow> (Inr entry, s'\<lparr>storage := st, sleaf := next_leaf entry\<rparr>))"

definition appendTypedEntry ::
  "(nat \<Rightarrow> js_string) \<Rightarrow> js_string \<Rightarrow> entry_body \<Rightarrow> session \<Rightarrow> (session_error + js_string) \<times> session" where
  "appendTypedEntry uuid now b s =
     (let (r, s') = enqueueAppend uuid now b s in (map_sum id eid r, s'))"

definition missing :: "session \<Rightarrow> js_string option \<Rightarrow> bool" where
  "missing s target = (case target of None \<Rightarrow> False | Some i \<Rightarrow> getEntry s i = None)"

definition setLeafId ::
  "(nat \<Rightarrow> js_string) \<Rightarrow> js_string \<Rightarrow> js_string option \<Rightarrow> session \<Rightarrow> (session_error + tree_entry) \<times> session" where
  "setLeafId uuid now target s =
     (if missing s target then (Inl (NotFound (the target)), s) else enqueueAppend uuid now (Leaf target) s)"

definition appendMessage where
  "appendMessage uuid now m s = appendTypedEntry uuid now (MessageBody m) s"

definition appendThinkingLevelChange where
  "appendThinkingLevelChange uuid now l s = appendTypedEntry uuid now (ThinkingLevelChange l) s"

definition appendModelChange where
  "appendModelChange uuid now p m s = appendTypedEntry uuid now (ModelChange p m) s"

definition appendActiveToolsChange where
  "appendActiveToolsChange uuid now ts s = appendTypedEntry uuid now (ActiveToolsChange ts) s"

definition appendCompaction where
  "appendCompaction uuid now c s = appendTypedEntry uuid now (Compaction c) s"

definition appendCustomEntry where
  "appendCustomEntry uuid now t v s = appendTypedEntry uuid now (Custom t v) s"

definition appendCustomMessageEntry where
  "appendCustomMessageEntry uuid now t content display details s =
     appendTypedEntry uuid now (CustomMessageBody t content display details) s"

definition appendLabel where
  "appendLabel uuid now targetId label s =
     (if getEntry s targetId = None then (Inl (NotFound targetId), s)
      else appendTypedEntry uuid now (Label targetId label) s)"

text \<open>\<open>name.replace(/[\r\n]+/g, " ")\<close>.\<close>

abbreviation line_break :: "js_char \<Rightarrow> bool" where
  "line_break c \<equiv> c = 0xd \<or> c = 0xa"

function replace_line_breaks :: "js_string \<Rightarrow> js_string" where
  "replace_line_breaks [] = []"
| "replace_line_breaks (c # cs) =
     (if line_break c then 0x20 # replace_line_breaks (dropWhile line_break cs)
      else c # replace_line_breaks cs)"
  by pat_completeness auto
termination
  by (relation "measure length") (auto simp: le_imp_less_Suc length_dropWhile_le)

definition appendSessionName where
  "appendSessionName uuid now n s =
     appendTypedEntry uuid now (SessionInfo (Some (trim (replace_line_breaks n)))) s"

record branch_summary_arg =
  g_summary :: js_string
  g_details :: "file_details option"
  g_usage :: "usage option"
  g_fromHook :: bool


definition moveTo ::
  "(nat \<Rightarrow> js_string) \<Rightarrow> js_string \<Rightarrow> js_string option \<Rightarrow> branch_summary_arg option \<Rightarrow> session
     \<Rightarrow> (session_error + js_string option) \<times> session" where
  "moveTo uuid now entryId summary s =
     (if missing s entryId then (Inl (NotFound (the entryId)), s)
      else case setLeafId uuid now entryId s of
        (Inl e, s') \<Rightarrow> (Inl e, s')
      | (Inr _, s') \<Rightarrow>
          (case summary of
             None \<Rightarrow> (Inr None, s')
           | Some b \<Rightarrow>
               let (r, s'') = appendTypedEntry uuid now (BranchSummary
                     \<lparr>fromId = (case entryId of None \<Rightarrow> js ''root'' | Some i \<Rightarrow> i), s_summary = g_summary b,
                      s_details = g_details b, s_usage = g_usage b, s_fromHook = g_fromHook b\<rparr>) s'
               in (map_sum id Some r, s'')))"

end
