(* ===== verification/SessionHistory.thy ===== *)
theory SessionHistory
  imports Session
begin

text \<open>
  What a session promises about its history: the contract of a session storage as a locale, its
  interpretation on the array index, the invariant of \<open>Session\<close> and that every operation keeps it
  (a step relation over all operations), and what each append does to the context a model is sent.
\<close>

subsection \<open>The storage contract\<close>

locale session_storage =
  fixes append :: "tree_entry \<Rightarrow> 's \<Rightarrow> session_error + 's"
    and lookup :: "'s \<Rightarrow> js_string \<Rightarrow> tree_entry option"
    and path :: "'s \<Rightarrow> js_string option \<Rightarrow> (session_error + tree_entry list) option"
    and ok :: "'s \<Rightarrow> bool"
  assumes append_new:
      "ok s \<Longrightarrow> lookup s (eid e) = None \<Longrightarrow> eid e \<noteq> [] \<Longrightarrow> parent_in (dom (lookup s)) e \<Longrightarrow>
         \<exists>s'. append e s = Inr s' \<and> ok s' \<and> lookup s' = (lookup s)(eid e \<mapsto> e)"
    and append_duplicate: "ok s \<Longrightarrow> lookup s (eid e) \<noteq> None \<Longrightarrow> append e s = Inl (InvalidEntry (eid e))"
    and path_root: "path s None = Some (Inr [])"
    and path_returns: "ok s \<Longrightarrow> lookup s i \<noteq> None \<Longrightarrow> \<exists>es. path s (Some i) = Some (Inr es)"
    and path_new:
      "ok s \<Longrightarrow> append e s = Inr s' \<Longrightarrow> eid e \<noteq> [] \<Longrightarrow> parent_in (dom (lookup s)) e \<Longrightarrow>
         entry_type e \<noteq> TCompaction \<Longrightarrow> parentId e \<noteq> Some [] \<Longrightarrow>
         path s (parentId e) = Some (Inr es) \<Longrightarrow> path s' (Some (eid e)) = Some (Inr (es @ [e]))"
    and path_compacted:
      "ok s \<Longrightarrow> append e s = Inr s' \<Longrightarrow> eid e \<noteq> [] \<Longrightarrow> parent_in (dom (lookup s)) e \<Longrightarrow>
         tail_kept e \<Longrightarrow> path s' (Some (eid e)) = Some (Inr [e])"
    and path_kept:
      "ok s \<Longrightarrow> append e s = Inr s' \<Longrightarrow> eid e \<noteq> [] \<Longrightarrow> parent_in (dom (lookup s)) e \<Longrightarrow>
         lookup s i \<noteq> None \<Longrightarrow> path s' (Some i) = path s (Some i)"
begin

text \<open>A run of appends, each under the entry before it: how a conversation grows.\<close>

fun follows :: "js_string option \<Rightarrow> tree_entry list \<Rightarrow> bool" where
  "follows p [] = True"
| "follows p (e # es) =
     (parentId e = p \<and> eid e \<noteq> [] \<and> entry_type e \<noteq> TCompaction \<and> follows (Some (eid e)) es)"

lemma append_ok:
  assumes "ok s" "append e s = Inr s'" "eid e \<noteq> []" "parent_in (dom (lookup s)) e"
  shows "ok s' \<and> lookup s' = (lookup s)(eid e \<mapsto> e) \<and> lookup s (eid e) = None"
  using assms append_new [of s e] append_duplicate [of s e] by (cases "lookup s (eid e)") auto

lemma parent_known: "parentId e = p \<Longrightarrow> (\<forall>i. p = Some i \<longrightarrow> i \<in> A) \<Longrightarrow> parent_in A e"
  by (auto simp: parent_in_def parent_link_def split: option.split)

lemma run_extends_path:
  assumes "ok s" "for_each append es s = Inr s'" "follows p es" "p \<noteq> Some []"
    and "\<forall>i. p = Some i \<longrightarrow> i \<in> dom (lookup s)" "path s p = Some (Inr base)" "es \<noteq> []"
  shows "ok s' \<and> path s' (Some (eid (last es))) = Some (Inr (base @ es))"
  using assms
proof (induction es arbitrary: s p base)
  case (Cons e es)
  obtain s1 where s1: "append e s = Inr s1" "for_each append es s1 = Inr s'"
    using Cons.prems(2) by (auto simp: and_then_eq_Inr)
  have e: "parentId e = p" "eid e \<noteq> []" "entry_type e \<noteq> TCompaction" "follows (Some (eid e)) es"
    using Cons.prems(3) by auto
  have pin: "parent_in (dom (lookup s)) e" using parent_known [OF e(1)] Cons.prems(5) by auto
  have ok1: "ok s1" "lookup s1 = (lookup s)(eid e \<mapsto> e)"
    using append_ok [OF Cons.prems(1) s1(1) e(2) pin] by auto
  have p1: "path s1 (Some (eid e)) = Some (Inr (base @ [e]))"
    using path_new [OF Cons.prems(1) s1(1) e(2) pin e(3)] Cons.prems(4,6) e(1) by simp
  show ?case
  proof (cases "es = []")
    case True
    then show ?thesis using s1 ok1 p1 by simp
  next
    case False
    have "eid e \<in> dom (lookup s1)" using ok1(2) by (simp add: dom_def)
    with False show ?thesis
      using Cons.IH [OF ok1(1) s1(2) e(4) _ _ p1] e(2) by simp
  qed
qed simp

text \<open>Appending never changes a branch that exists.\<close>

lemma run_keeps_paths:
  assumes "ok s" "for_each append es s = Inr s'"
    and "\<forall>e \<in> set es. eid e \<noteq> [] \<and> parent_in (dom (lookup s)) e" "lookup s i \<noteq> None"
  shows "path s' (Some i) = path s (Some i)"
  using assms
proof (induction es arbitrary: s)
  case (Cons e es)
  obtain s1 where s1: "append e s = Inr s1" "for_each append es s1 = Inr s'"
    using Cons.prems(2) by (auto simp: and_then_eq_Inr)
  have e: "eid e \<noteq> []" "parent_in (dom (lookup s)) e" using Cons.prems(3) by auto
  have ok1: "ok s1" "lookup s1 = (lookup s)(eid e \<mapsto> e)"
    using append_ok [OF Cons.prems(1) s1(1) e] by auto
  have "\<forall>f \<in> set es. eid f \<noteq> [] \<and> parent_in (dom (lookup s1)) f"
    using Cons.prems(3) ok1(2) by (auto simp: parent_in_def split: option.splits)
  then have "path s' (Some i) = path s1 (Some i)"
  proof (rule Cons.IH [OF ok1(1) s1(2)])
    show "lookup s1 i \<noteq> None" using Cons.prems(4) ok1(2) by simp
  qed
  also have "\<dots> = path s (Some i)"
    using path_kept [OF Cons.prems(1) s1(1) e Cons.prems(4)] .
  finally show ?case .
qed simp

end

subsection \<open>The array index provides it\<close>

definition storage_ok :: "session_index \<Rightarrow> bool" where
  "storage_ok st \<longleftrightarrow> st = index_view (entries st) \<and> distinct (map eid (entries st)) \<and> linked (entries st)
     \<and> [] \<notin> ids_of (entries st)"

lemma dom_lookup_in [simp]: "dom (lookup_in es) = ids_of es"
  by (rule set_eqI) (metis domIff lookup_in_None)

lemma storage_ok_view:
  "storage_ok (index_view es) \<longleftrightarrow> distinct (map eid es) \<and> linked es \<and> [] \<notin> ids_of es"
  by (simp add: storage_ok_def)

lemma storage_okE:
  assumes "storage_ok st"
  obtains es where "st = index_view es" "distinct (map eid es)" "linked es" "[] \<notin> ids_of es"
  using assms by (auto simp: storage_ok_def)

lemma up_path_other: "eid e \<noteq> i \<Longrightarrow> up_path (rev (es @ [e])) i stop = up_path (rev es) i stop"
  by simp

lemma append_view_Inr:
  assumes "index_append e (index_view es) = Inr st'"
  shows "st' = index_view (es @ [e])" "eid e \<notin> ids_of es"
  using assms by (auto simp: index_append_view split: if_splits)

lemma storage_ok_snoc:
  assumes "storage_ok (index_view es)" "eid e \<notin> ids_of es" "eid e \<noteq> []" "parent_in (ids_of es) e"
  shows "storage_ok (index_view (es @ [e]))"
  using assms by (auto simp: storage_ok_view linked_snoc ids_of_def)

lemma readPath_None [simp]: "readPathToRootOrCompaction st None = Some (Inr [])"
  by (simp add: readPathToRootOrCompaction_def)

lemma readPath_storage:
  assumes "storage_ok (index_view es)" "i \<in> ids_of es"
  shows "readPathToRootOrCompaction (index_view es) (Some i) = Some (Inr (rev (up_path (rev es) i None)))"
  using assms readPath_view by (simp add: storage_ok_view)

interpretation si: session_storage index_append byId readPathToRootOrCompaction storage_ok
proof unfold_locales
  fix st e
  assume ok: "storage_ok st"
  then obtain es where st: "st = index_view es" by (rule storage_okE)
  note ok' = ok [unfolded st]
  show "\<exists>s'. index_append e st = Inr s' \<and> storage_ok s' \<and> byId s' = (byId st)(eid e \<mapsto> e)"
    if "byId st (eid e) = None" "eid e \<noteq> []" "parent_in (dom (byId st)) e"
    using that storage_ok_snoc [OF ok'] by (simp add: st index_append_view)
  show "index_append e st = Inl (InvalidEntry (eid e))" if "byId st (eid e) \<noteq> None"
    using that by (simp add: st index_append_view)
  show "\<exists>es. readPathToRootOrCompaction st (Some i) = Some (Inr es)" if "byId st i \<noteq> None" for i
    using that readPath_storage [OF ok'] by (simp add: st)
  fix st'
  assume app: "index_append e st = Inr st'" and ne: "eid e \<noteq> []" and pin: "parent_in (dom (byId st)) e"
  have st': "st' = index_view (es @ [e])" "eid e \<notin> ids_of es"
    using append_view_Inr [OF app [unfolded st]] by auto
  have ok2: "storage_ok (index_view (es @ [e]))"
    using storage_ok_snoc [OF ok' st'(2) ne] pin by (simp add: st)
  have new: "readPathToRootOrCompaction st' (Some (eid e)) = Some (Inr (rev (up_path (e # rev es) (eid e) None)))"
    using readPath_storage [OF ok2, of "eid e"] by (simp add: st'(1) del: up_path.simps)
  show "readPathToRootOrCompaction st' (Some (eid e)) = Some (Inr [e])" if "tail_kept e"
    using new that by simp
  show "readPathToRootOrCompaction st' (Some i) = readPathToRootOrCompaction st (Some i)"
    if "byId st i \<noteq> None" for i
    using that readPath_storage [OF ok', of i] readPath_storage [OF ok2, of i] st'(2)
    by (auto simp: st st'(1))
  show "readPathToRootOrCompaction st' (Some (eid e)) = Some (Inr (fs @ [e]))"
    if "entry_type e \<noteq> TCompaction" "parentId e \<noteq> Some []"
      "readPathToRootOrCompaction st (parentId e) = Some (Inr fs)" for fs
  proof -
    have nc: "\<not> tail_kept e" "stop_after e None = None"
      using that(1) by (auto simp: tail_kept_def stop_after_def split: entry_body.splits)
    show ?thesis
    proof (cases "parentId e")
      case None
      then show ?thesis using new nc that(3) by (simp add: parent_link_def)
    next
      case (Some p)
      then have "p \<in> ids_of es" using pin that(2) by (simp add: parent_in_def parent_link_def st split: if_splits)
      then show ?thesis
        using new nc that(2,3) Some readPath_storage [OF ok', of p] by (simp add: parent_link_def st)
    qed
  qed
qed simp

subsection \<open>The invariant of a session\<close>

definition session_ok :: "session \<Rightarrow> bool" where
  "session_ok s \<longleftrightarrow> storage_ok (storage s) \<and> leafId (storage s) = sleaf s
     \<and> (\<forall>l. sleaf s = Some l \<longrightarrow> l \<in> ids_of (entries (storage s)))"

lemma session_okE:
  assumes "session_ok s"
  obtains es where "storage s = index_view es" "storage_ok (index_view es)"
    "leafId (index_view es) = sleaf s" "\<forall>l. sleaf s = Some l \<longrightarrow> l \<in> ids_of es"
  using assms unfolding session_ok_def by (metis index_view_simps(1) storage_ok_def)

text \<open>What a session can be asked to append: a leaf entry only with a target that exists.\<close>

definition body_ok :: "session \<Rightarrow> entry_body \<Rightarrow> bool" where
  "body_ok s b = (case b of Leaf target \<Rightarrow> \<not> missing s target | _ \<Rightarrow> True)"

lemma entry_id_loop_result:
  assumes "entry_id_loop uuid n s = (i, s')" "\<forall>n. uuid n \<noteq> []"
  shows "i \<noteq> [] \<and> storage s' = storage s \<and> sleaf s' = sleaf s \<and> contextBuildOptions s' = contextBuildOptions s"
  using assms
proof (induction uuid n s rule: entry_id_loop.induct)
  case (2 uuid n s)
  have "js_slice (-8) None (uuid (uuidCount s)) \<noteq> []"
    using js_slice_last [of 7 "uuid (uuidCount s)"] "2.prems"(2) by (simp add: not_le)
  then show ?case using 2 by (auto simp: Let_def split: if_splits)
qed auto

lemma parent_is_leaf:
  assumes "\<forall>l. sleaf s = Some l \<longrightarrow> l \<in> A"
  shows "parent_in A \<lparr>eid = i, parentId = sleaf s, timestamp = t, body = b\<rparr>"
  using assms by (auto simp: parent_in_def parent_link_def split: option.split)

lemma next_leaf_known:
  assumes "body_ok s (body e)" "storage s = index_view es"
  shows "\<forall>l. next_leaf e = Some l \<longrightarrow> l \<in> ids_of (es @ [e])"
  using assms
  by (auto simp: next_leaf_def body_ok_def missing_def getEntry_def readEntry_def
      simp del: lookup_in_None split: entry_body.splits option.splits)
    (metis domI dom_lookup_in)

text \<open>Appending one entry: an error leaves the history as it was; otherwise the entry is under the
  leaf, the leaf moves to it (or to the target of a leaf entry), and the invariant holds again.\<close>

lemma enqueueAppend_ok:
  assumes "session_ok s" "body_ok s b" "\<forall>n. uuid n \<noteq> []" "enqueueAppend uuid now b s = (r, s')"
  shows "session_ok s' \<and> contextBuildOptions s' = contextBuildOptions s
    \<and> (case r of
         Inl _ \<Rightarrow> storage s' = storage s \<and> sleaf s' = sleaf s
       | Inr e \<Rightarrow> index_append e (storage s) = Inr (storage s') \<and> parentId e = sleaf s \<and> body e = b
           \<and> timestamp e = now \<and> eid e \<noteq> [] \<and> sleaf s' = next_leaf e)"
proof -
  obtain es where es: "storage s = index_view es" "storage_ok (index_view es)"
    "\<forall>l. sleaf s = Some l \<longrightarrow> l \<in> ids_of es" "leafId (index_view es) = sleaf s"
    using assms(1) by (rule session_okE)
  obtain i s1 where i: "createEntryId uuid s = (i, s1)" by (cases "createEntryId uuid s")
  have s1: "i \<noteq> []" "storage s1 = storage s" "sleaf s1 = sleaf s"
    "contextBuildOptions s1 = contextBuildOptions s"
    using entry_id_loop_result [OF _ assms(3)] i by (auto simp: createEntryId_def)
  define e where "e = \<lparr>eid = i, parentId = sleaf s, timestamp = now, body = b\<rparr>"
  have pin: "parent_in (ids_of es) e" unfolding e_def by (rule parent_is_leaf) (fact es(3))
  show ?thesis
  proof (cases "i \<in> ids_of es")
    case True
    then have "r = Inl (InvalidEntry i)" "s' = s1"
      using assms(4) i s1 es(1) by (auto simp: enqueueAppend_def index_append_view)
    then show ?thesis using s1 assms(1) by (simp add: session_ok_def)
  next
    case False
    then have r: "r = Inr e" "s' = s1\<lparr>storage := index_view (es @ [e]), sleaf := next_leaf e\<rparr>"
      using assms(4) i s1 es(1) by (auto simp: enqueueAppend_def index_append_view e_def Let_def)
    have "storage_ok (index_view (es @ [e]))"
      using storage_ok_snoc [OF es(2) _ _ pin] False s1(1) by (simp add: e_def)
    moreover have "\<forall>l. next_leaf e = Some l \<longrightarrow> l \<in> ids_of (es @ [e])"
      using next_leaf_known [of s e] assms(2) es(1) by (simp add: e_def)
    moreover have "leafId (index_view (es @ [e])) = next_leaf e" by (simp add: index_view_def)
    ultimately have "session_ok s'" by (simp add: session_ok_def r)
    then show ?thesis using r s1 False es(1) by (simp add: index_append_view e_def)
  qed
qed

lemma appendTypedEntry_eq:
  "appendTypedEntry uuid now b s = (map_sum id eid (fst (enqueueAppend uuid now b s)), snd (enqueueAppend uuid now b s))"
  by (simp add: appendTypedEntry_def split: prod.split)

lemma appendTypedEntry_ok:
  assumes "appendTypedEntry uuid now b s = (r, s')" "session_ok s" "body_ok s b" "\<forall>n. uuid n \<noteq> []"
  shows "session_ok s'"
  using assms enqueueAppend_ok [OF assms(2-4)] by (auto simp: appendTypedEntry_eq prod_eq_iff)

lemma body_ok_simps [simp]:
  "body_ok s (MessageBody m)" "body_ok s (ThinkingLevelChange l)" "body_ok s (ModelChange p md)"
  "body_ok s (ActiveToolsChange ts)" "body_ok s (Compaction c)" "body_ok s (BranchSummary b)"
  "body_ok s (Custom t v)" "body_ok s (CustomMessageBody t ct di de)" "body_ok s (Label i lb)"
  "body_ok s (SessionInfo n)" "body_ok s (Leaf target) = (\<not> missing s target)"
  by (simp_all add: body_ok_def)

lemma setLeafId_ok:
  assumes "session_ok s" "\<forall>n. uuid n \<noteq> []" "setLeafId uuid now target s = (r, s')"
  shows "session_ok s'"
  using assms enqueueAppend_ok [OF assms(1) _ assms(2), of "Leaf target"]
  by (auto simp: setLeafId_def split: if_splits)

lemma moveTo_ok:
  assumes "session_ok s" "\<forall>n. uuid n \<noteq> []" "moveTo uuid now entryId summary s = (r, s')"
  shows "session_ok s'"
proof -
  obtain r1 s1 where r1: "setLeafId uuid now entryId s = (r1, s1)" by (cases "setLeafId uuid now entryId s")
  have "session_ok s1" by (rule setLeafId_ok [OF assms(1,2) r1])
  then show ?thesis
    using assms r1
    by (auto simp: moveTo_def Let_def intro: appendTypedEntry_ok
        split: if_splits sum.splits option.splits prod.splits)
qed

subsection \<open>All operations as steps\<close>

inductive session_step :: "(nat \<Rightarrow> js_string) \<Rightarrow> session \<Rightarrow> session \<Rightarrow> bool" for uuid where
  message: "appendMessage uuid now m s = (r, s') \<Longrightarrow> session_step uuid s s'"
| thinking_level: "appendThinkingLevelChange uuid now l s = (r, s') \<Longrightarrow> session_step uuid s s'"
| model_change: "appendModelChange uuid now p m s = (r, s') \<Longrightarrow> session_step uuid s s'"
| active_tools: "appendActiveToolsChange uuid now ts s = (r, s') \<Longrightarrow> session_step uuid s s'"
| compaction: "appendCompaction uuid now c s = (r, s') \<Longrightarrow> session_step uuid s s'"
| custom: "appendCustomEntry uuid now t v s = (r, s') \<Longrightarrow> session_step uuid s s'"
| custom_message: "appendCustomMessageEntry uuid now t ct di de s = (r, s') \<Longrightarrow> session_step uuid s s'"
| label: "appendLabel uuid now i lb s = (r, s') \<Longrightarrow> session_step uuid s s'"
| session_name: "appendSessionName uuid now n s = (r, s') \<Longrightarrow> session_step uuid s s'"
| move: "moveTo uuid now i summary s = (r, s') \<Longrightarrow> session_step uuid s s'"

lemmas append_ops = appendMessage_def appendThinkingLevelChange_def appendModelChange_def
  appendActiveToolsChange_def appendCompaction_def appendCustomEntry_def appendCustomMessageEntry_def
  appendLabel_def appendSessionName_def

lemma session_step_ok:
  assumes "session_step uuid s s'" "session_ok s" "\<forall>n. uuid n \<noteq> []"
  shows "session_ok s'"
  using assms(1)
proof cases
  case (label now i lb r)
  then show ?thesis
    using assms by (auto simp: appendLabel_def intro: appendTypedEntry_ok split: if_splits)
next
  case (move now i summary r)
  then show ?thesis using assms moveTo_ok by blast
qed (use assms in \<open>auto simp: append_ops intro: appendTypedEntry_ok\<close>)

lemma createSession_ok:
  assumes "new_ArraySessionIndex es = Inr st" "linked es" "[] \<notin> ids_of es" "createSession st options n = Inr s"
  shows "session_ok s"
proof -
  have st: "st = index_view es" "distinct (map eid es)" using assms(1) by (auto simp: new_index_eq)
  have s: "storage s = st" "sleaf s = leafId st" "\<forall>l. leafId st = Some l \<longrightarrow> l \<in> ids_of es"
    using assms(4) lookup_in_None [of es]
    by (auto simp: createSession_def readHead_def and_then_eq_Inr has_def st(1)
        simp del: lookup_in_None split: option.splits if_splits)
  then show ?thesis using assms(2,3) st by (simp add: session_ok_def storage_ok_view)
qed

text \<open>Property C8. Every state a session reaches by its operations, from any stored entries whose links go
  backwards, is sound: ids are unique, each entry hangs under an earlier one, the active leaf is the
  storage's head and an entry of the session, so that the head is always readable and the active branch
  always readable in finite time.\<close>

theorem session_reachable_sound:
  assumes "new_ArraySessionIndex es = Inr st" "linked es" "[] \<notin> ids_of es"
    and "createSession st options n = Inr s0" "(session_step uuid)\<^sup>*\<^sup>* s0 s"
    and uuid_nonempty: "\<forall>n. uuid n \<noteq> []"
  shows "session_ok s \<and> readHead (storage s) = Inr (sleaf s) \<and> (\<exists>path. getBranch None s = Some (Inr path))"
proof -
  have ok: "session_ok s"
    using assms(5)
  proof (induction rule: rtranclp_induct)
    case base
    show ?case by (rule createSession_ok [OF assms(1-4)])
  next
    case (step y z)
    then show ?case using session_step_ok uuid_nonempty by blast
  qed
  then obtain fs where fs: "storage s = index_view fs" "storage_ok (index_view fs)"
    "leafId (index_view fs) = sleaf s" "\<forall>l. sleaf s = Some l \<longrightarrow> l \<in> ids_of fs"
    by (rule session_okE)
  then have "readHead (storage s) = Inr (sleaf s)"
    by (auto simp: readHead_def has_def split: option.splits)
  moreover have "\<exists>path. getBranch None s = Some (Inr path)"
    using readPath_storage [OF fs(2)] fs(4) by (cases "sleaf s") (auto simp: getBranch_def from_leaf_def fs(1))
  ultimately show ?thesis using ok by simp
qed

text \<open>A small session to apply the properties to: one user message, and ids counted up.\<close>

definition first_message :: tree_entry where
  "first_message = \<lparr>eid = js ''root'', parentId = None, timestamp = js ''t0'',
     body = MessageBody (UserMessage (ContentString (js ''hi'')) 0)\<rparr>"

definition small_session :: session where
  "small_session = \<lparr>storage = index_view [first_message], sleaf = Some (js ''root''),
     contextBuildOptions = no_options, uuidCount = 0\<rparr>"

definition counted :: "nat \<Rightarrow> js_string" where
  "counted n = js ''id'' @ decimal n"

lemma small_session_created:
  "new_ArraySessionIndex [first_message] = Inr (index_view [first_message])" "linked [first_message]"
  "[] \<notin> ids_of [first_message]" "createSession (index_view [first_message]) no_options 0 = Inr small_session"
  by (simp_all add: new_index_view linked_def parent_in_def parent_link_def first_message_def js_def
      createSession_def readHead_def index_view_def next_leaf_def has_def lookup_in_def small_session_def)

lemma small_session_ok: "session_ok small_session"
  by (rule createSession_ok [OF small_session_created])

lemma counted_nonempty: "\<forall>n. counted n \<noteq> []"
  by (simp add: counted_def js_def)

lemma small_session_simps:
  "storage small_session = index_view [first_message]" "sleaf small_session = Some (js ''root'')"
  "contextBuildOptions small_session = no_options" "uuidCount small_session = 0"
  by (simp_all add: small_session_def)

lemma small_append:
  fixes b :: entry_body
  defines "e \<equiv> \<lparr>eid = js ''id0'', parentId = Some (js ''root''), timestamp = js ''t1'', body = b\<rparr>"
  shows "enqueueAppend counted (js ''t1'') b small_session =
    (Inr e, small_session\<lparr>storage := index_view [first_message, e], sleaf := next_leaf e, uuidCount := 1\<rparr>)"
proof -
  have d: "decimal 0 = js ''0''" by (simp add: decimal.simps js_def)
  have c: "counted 0 = js ''id0''" by (simp add: counted_def d) (simp add: js_def)
  have slice: "js_slice (-8) None (js ''id0'') = js ''id0''"
    by (simp add: js_slice_def slice_index_def js_def)
  have nr: "js ''id0'' \<noteq> js ''root''" by (simp add: js_def)
  have i: "createEntryId counted small_session = (js ''id0'', small_session\<lparr>uuidCount := 1\<rparr>)"
    by (simp add: createEntryId_def entry_id_loop.simps numeral_eq_Suc getEntry_def readEntry_def
        small_session_simps c slice lookup_in_def first_message_def nr)
  have fresh: "js ''id0'' \<notin> ids_of [first_message]" by (simp add: first_message_def nr)
  show ?thesis
    using index_append_view [of e "[first_message]"] fresh
    by (simp add: enqueueAppend_def i small_session_simps e_def Let_def)
qed

theorem session_reachable_sound_witness:
  "session_ok (snd (appendMessage counted (js ''t1'') (UserMessage (ContentString []) 1) small_session))"
proof -
  let ?r = "appendMessage counted (js ''t1'') (UserMessage (ContentString []) 1) small_session"
  have "(session_step counted)\<^sup>*\<^sup>* small_session (snd ?r)"
    by (rule r_into_rtranclp, rule session_step.message [of counted _ _ _ "fst ?r"]) simp
  then show ?thesis
    using session_reachable_sound [OF small_session_created _ counted_nonempty] by blast
qed

subsection \<open>What a model is sent\<close>

definition entry_messages :: "(js_string \<Rightarrow> int) \<Rightarrow> tree_entry \<Rightarrow> agent_message list" where
  "entry_messages getTime e = sessionEntryToContextMessages getTime no_options [] 0 e"

lemma context_messages_plain:
  "context_messages getTime no_options es = concat (map (entry_messages getTime) es)"
proof -
  have "sessionEntryToContextMessages getTime no_options es i e = entry_messages getTime e" for i e
    by (simp add: entry_messages_def sessionEntryToContextMessages.simps no_options_def split: entry_body.split)
  then have "map (\<lambda>(i, e). sessionEntryToContextMessages getTime no_options es i e) (enumerate 0 es)
      = map (entry_messages getTime \<circ> snd) (enumerate 0 es)" by (simp add: case_prod_beta comp_def)
  then show ?thesis by (simp add: context_messages_def flip: map_map)
qed

lemma last_compaction_snoc:
  "last_compaction (es @ [e]) = (case body e of Compaction c \<Rightarrow> Some (e, c) | _ \<Rightarrow> last_compaction es)"
  by (induction es) (auto split: entry_body.splits option.splits)

lemma last_compaction_mem:
  "last_compaction es = Some (e, c) \<Longrightarrow> e \<in> set es \<and> body e = Compaction c"
  by (induction es) (auto split: option.splits entry_body.splits)

lemma compaction_index_less:
  assumes "last_compaction es = Some (e, c)"
  shows "compaction_index (eid e) es < length es"
    "compaction_index (eid e) (es @ fs) = compaction_index (eid e) es"
proof -
  have mem: "e \<in> set es" "entry_type e = TCompaction" using last_compaction_mem [OF assms] by auto
  then show "compaction_index (eid e) es < length es"
    unfolding compaction_index_def
    by (metis (mono_tags, lifting) length_takeWhile_le nat_less_le takeWhile_eq_all_conv takeWhile_eq_take take_all_iff order_refl)
  show "compaction_index (eid e) (es @ fs) = compaction_index (eid e) es"
    unfolding compaction_index_def using mem by (subst takeWhile_append1 [of e]) auto
qed

lemma transform_snoc:
  assumes "entry_type e \<noteq> TCompaction"
  shows "defaultContextEntryTransform (es @ [e]) = defaultContextEntryTransform es @ [e]"
proof -
  have l: "last_compaction (es @ [e]) = last_compaction es"
    using assms by (auto simp: last_compaction_snoc split: entry_body.split)
  show ?thesis
  proof (cases "last_compaction es")
    case None
    then show ?thesis using l by (simp add: defaultContextEntryTransform_def)
  next
    case (Some p)
    obtain f c where p: "p = (f, c)" by (cases p)
    have "last_compaction es = Some (f, c)" using Some p by simp
    from compaction_index_less [OF this] show ?thesis
      using l Some p by (auto simp: defaultContextEntryTransform_def Let_def split: option.splits)
  qed
qed

lemma buildContextEntries_plain [simp]: "buildContextEntries no_options es = defaultContextEntryTransform es"
  by (simp add: buildContextEntries_def no_options_def)

lemma buildContext_plain:
  assumes "contextBuildOptions s = no_options"
  shows "buildContext getTime no_options s = map_option (map_sum id (buildSessionContext getTime no_options)) (getBranch None s)"
  using assms by (simp add: buildContext_def mergeContextBuildOptions_def no_options_def)

lemma branch_after_append:
  assumes "session_ok s" "\<forall>n. uuid n \<noteq> []" "enqueueAppend uuid now b s = (Inr e, s')"
    and "getBranch None s = Some (Inr path)" "body_type b \<noteq> TCompaction" "body_type b \<noteq> TLeaf"
  shows "getBranch None s' = Some (Inr (path @ [e])) \<and> body e = b \<and> contextBuildOptions s' = contextBuildOptions s"
proof -
  have "body_ok s b" using assms(6) by (cases b) auto
  from enqueueAppend_ok [OF assms(1) this assms(2,3)]
  have e: "index_append e (storage s) = Inr (storage s')" "parentId e = sleaf s" "body e = b" "eid e \<noteq> []"
    "sleaf s' = next_leaf e" "contextBuildOptions s' = contextBuildOptions s" by auto
  have ok: "storage_ok (storage s)" using assms(1) by (simp add: session_ok_def)
  obtain es where es: "storage s = index_view es" "storage_ok (index_view es)"
    "\<forall>l. sleaf s = Some l \<longrightarrow> l \<in> ids_of es" using assms(1) by (rule session_okE)
  have "sleaf s \<noteq> Some []" using es by (auto simp: storage_ok_view)
  moreover have "parent_in (dom (byId (storage s))) e"
    using es(1,3) by (intro si.parent_known [OF e(2)]) simp
  ultimately have "readPathToRootOrCompaction (storage s') (Some (eid e)) = Some (Inr (path @ [e]))"
    using si.path_new [OF ok e(1) e(4)] assms(4,5) e(2,3) by (simp add: getBranch_def from_leaf_def)
  moreover have "sleaf s' = Some (eid e)" using e(3,5) assms(6) by (cases b) (auto simp: next_leaf_def)
  ultimately show ?thesis using e by (simp add: getBranch_def from_leaf_def)
qed

text \<open>Property C14. Appending a message adds exactly that message at the end of what the model is sent; the
  thinking level and the active tools stay, and the model is that of the message when it is an
  assistant's.\<close>

theorem appendMessage_extends_context:
  assumes "session_ok s" "contextBuildOptions s = no_options"
    and "buildContext getTime no_options s = Some (Inr c)" "appendMessage uuid now m s = (Inr i, s')"
    and uuid_nonempty: "\<forall>n. uuid n \<noteq> []"
  shows "buildContext getTime no_options s' = Some (Inr
    \<lparr>thinkingLevel = thinkingLevel c,
     model = (case m of AssistantMessage a \<Rightarrow> Some \<lparr>provider = a_provider a, modelId = a_model a\<rparr> | _ \<Rightarrow> model c),
     activeToolNames = activeToolNames c,
     messages = messages c @ [m]\<rparr>)"
proof -
  obtain path where path: "getBranch None s = Some (Inr path)" "c = buildSessionContext getTime no_options path"
    using assms(2,3) by (auto simp: buildContext_plain map_sum_Inr)
  obtain e where e: "enqueueAppend uuid now (MessageBody m) s = (Inr e, s')"
    using assms(4) by (auto simp: appendMessage_def appendTypedEntry_eq prod_eq_iff map_sum_Inr)
  have "getBranch None s' = Some (Inr (path @ [e]))" "body e = MessageBody m" "contextBuildOptions s' = no_options"
    using branch_after_append [OF assms(1) uuid_nonempty e path(1)] assms(2) by auto
  then show ?thesis
    using path(2)
    by (cases m) (simp_all add: buildContext_plain buildSessionContext_def Let_def context_messages_plain
        transform_snoc deriveSessionContextState_def entry_messages_def sessionEntryToContextMessages.simps)
qed

theorem appendMessage_extends_context_witness:
  "buildContext (\<lambda>_. 0) no_options
     (snd (appendMessage counted (js ''t1'') (UserMessage (ContentString (js ''more'')) 1) small_session))
   = Some (Inr \<lparr>thinkingLevel = js ''off'', model = None, activeToolNames = None,
       messages = [UserMessage (ContentString (js ''hi'')) 0, UserMessage (ContentString (js ''more'')) 1]\<rparr>)"
proof -
  let ?m = "UserMessage (ContentString (js ''more'')) 1"
  have path: "getBranch None small_session = Some (Inr [first_message])"
  proof -
    have "up_path [first_message] (js ''root'') None = [first_message]"
      by (simp add: first_message_def tail_kept_def parent_link_def)
    moreover have "storage_ok (index_view [first_message])"
      using small_session_ok by (simp only: session_ok_def small_session_simps)
    moreover have "js ''root'' \<in> ids_of [first_message]" by (simp add: first_message_def)
    ultimately show ?thesis
      using readPath_storage [of "[first_message]" "js ''root''"]
      by (simp add: getBranch_def from_leaf_def small_session_simps del: up_path.simps)
  qed
  then have ctx: "buildContext (\<lambda>_. 0) no_options small_session = Some (Inr
      \<lparr>thinkingLevel = js ''off'', model = None, activeToolNames = None,
       messages = [UserMessage (ContentString (js ''hi'')) 0]\<rparr>)"
    by (simp add: buildContext_plain small_session_simps buildSessionContext_def deriveSessionContextState_def
        defaultContextEntryTransform_def context_messages_plain entry_messages_def
        sessionEntryToContextMessages.simps first_message_def Let_def)
  have "appendMessage counted (js ''t1'') ?m small_session =
      (Inr (js ''id0''), snd (appendMessage counted (js ''t1'') ?m small_session))"
    using small_append [of "MessageBody ?m"] by (simp add: appendMessage_def appendTypedEntry_eq)
  from appendMessage_extends_context [OF small_session_ok _ ctx this counted_nonempty]
  show ?thesis by (simp add: small_session_simps)
qed

lemma compaction_restarts:
  assumes "session_ok s" "\<forall>n. uuid n \<noteq> []" "enqueueAppend uuid now (Compaction c) s = (Inr e, s')"
    and "retainedTail c \<noteq> None"
  shows "getBranch None s' = Some (Inr [e]) \<and> body e = Compaction c \<and> timestamp e = now
    \<and> contextBuildOptions s' = contextBuildOptions s"
proof -
  from enqueueAppend_ok [OF assms(1) _ assms(2,3)]
  have e: "index_append e (storage s) = Inr (storage s')" "parentId e = sleaf s" "body e = Compaction c" "eid e \<noteq> []"
    "sleaf s' = next_leaf e" "contextBuildOptions s' = contextBuildOptions s" "timestamp e = now" by auto
  have ok: "storage_ok (storage s)" using assms(1) by (simp add: session_ok_def)
  obtain es where es: "storage s = index_view es" "\<forall>l. sleaf s = Some l \<longrightarrow> l \<in> ids_of es"
    using assms(1) by (rule session_okE)
  have "parent_in (dom (byId (storage s))) e"
    using es by (intro si.parent_known [OF e(2)]) simp
  moreover have "tail_kept e" using e(3) assms(4) by (simp add: tail_kept_def)
  ultimately have "readPathToRootOrCompaction (storage s') (Some (eid e)) = Some (Inr [e])"
    using si.path_compacted [OF ok e(1) e(4)] by simp
  then show ?thesis using e by (simp add: getBranch_def from_leaf_def next_leaf_def)
qed

text \<open>After a compaction that stores its tail the model is sent the summary followed by exactly
  the stored tail. The path starts over at the compaction, so the thinking level, the model and the
  active tools of the context are the defaults, whatever was set before.\<close>

theorem appendCompaction_context:
  assumes "session_ok s" "contextBuildOptions s = no_options" "retainedTail c = Some kept"
    and "appendCompaction uuid now c s = (Inr i, s')" and uuid_nonempty: "\<forall>n. uuid n \<noteq> []"
  shows "buildContext getTime no_options s' = Some (Inr
    \<lparr>thinkingLevel = js ''off'', model = None, activeToolNames = None,
     messages = CompactionSummaryMessage (c_summary c) (c_tokensBefore c) (getTime now) # kept\<rparr>)"
proof -
  obtain e where "enqueueAppend uuid now (Compaction c) s = (Inr e, s')"
    using assms(4) by (auto simp: appendCompaction_def appendTypedEntry_eq prod_eq_iff map_sum_Inr)
  from compaction_restarts [OF assms(1) uuid_nonempty this] assms(3)
  have "getBranch None s' = Some (Inr [e])" "body e = Compaction c" "timestamp e = now"
    "contextBuildOptions s' = no_options" using assms(2) by auto
  then show ?thesis
    using assms(3)
    by (simp add: buildContext_plain buildSessionContext_def deriveSessionContextState_def Let_def
        defaultContextEntryTransform_def compaction_index_def context_messages_plain entry_messages_def
        sessionEntryToContextMessages.simps createCompactionSummaryMessage_def)
qed

definition small_compaction :: compaction_data where
  "small_compaction = \<lparr>c_summary = js ''sum'', firstKeptEntryId = Some (js ''root''), c_tokensBefore = 7,
     retainedTail = Some [UserMessage (ContentString (js ''hi'')) 0], c_details = None, c_usage = None,
     c_fromHook = False\<rparr>"

theorem appendCompaction_context_witness:
  "buildContext (\<lambda>_. 5) no_options (snd (appendCompaction counted (js ''t1'') small_compaction small_session))
   = Some (Inr \<lparr>thinkingLevel = js ''off'', model = None, activeToolNames = None,
       messages = [CompactionSummaryMessage (js ''sum'') 7 5, UserMessage (ContentString (js ''hi'')) 0]\<rparr>)"
proof -
  have "appendCompaction counted (js ''t1'') small_compaction small_session =
      (Inr (js ''id0''), snd (appendCompaction counted (js ''t1'') small_compaction small_session))"
    using small_append [of "Compaction small_compaction"] by (simp add: appendCompaction_def appendTypedEntry_eq)
  from appendCompaction_context [OF small_session_ok _ _ this counted_nonempty]
  show ?thesis by (simp add: small_session_simps small_compaction_def)
qed

text \<open>Moving the leaf to an entry makes that entry's branch the active one, and neither the move
  nor the leaf entry it records changes any branch that existed.\<close>

theorem moveTo_selects_branch:
  assumes "session_ok s" "getEntry s i \<noteq> None" "moveTo uuid now (Some i) None s = (Inr r, s')"
    and uuid_nonempty: "\<forall>n. uuid n \<noteq> []"
  shows "sleaf s' = Some i \<and> getBranch None s' = getBranch (Some (Some i)) s
    \<and> (\<forall>j. getEntry s j \<noteq> None \<longrightarrow> getBranch (Some (Some j)) s' = getBranch (Some (Some j)) s)"
proof -
  have nm: "\<not> missing s (Some i)" using assms(2) by (simp add: missing_def)
  obtain e where "enqueueAppend uuid now (Leaf (Some i)) s = (Inr e, s')"
    using assms(3) nm by (auto simp: moveTo_def setLeafId_def split: sum.splits prod.splits)
  from enqueueAppend_ok [OF assms(1) _ uuid_nonempty this] nm
  have e: "index_append e (storage s) = Inr (storage s')" "parentId e = sleaf s" "body e = Leaf (Some i)"
    "eid e \<noteq> []" "sleaf s' = next_leaf e" by auto
  obtain es where es: "storage s = index_view es" "\<forall>l. sleaf s = Some l \<longrightarrow> l \<in> ids_of es"
    using assms(1) by (rule session_okE)
  have pin: "parent_in (dom (byId (storage s))) e" using es by (intro si.parent_known [OF e(2)]) simp
  have ok: "storage_ok (storage s)" using assms(1) by (simp add: session_ok_def)
  have kept: "readPathToRootOrCompaction (storage s') (Some j) = readPathToRootOrCompaction (storage s) (Some j)"
    if "getEntry s j \<noteq> None" for j
    using si.path_kept [OF ok e(1) e(4) pin] that by (simp add: getEntry_def readEntry_def)
  have "sleaf s' = Some i" using e(3,5) by (simp add: next_leaf_def)
  then show ?thesis using kept assms(2) by (simp add: getBranch_def from_leaf_def)
qed

theorem moveTo_selects_branch_witness:
  "sleaf (snd (moveTo counted (js ''t1'') (Some (js ''root'')) None small_session)) = Some (js ''root'')"
proof -
  have g: "getEntry small_session (js ''root'') \<noteq> None"
    by (simp add: getEntry_def readEntry_def small_session_simps first_message_def)
  have "moveTo counted (js ''t1'') (Some (js ''root'')) None small_session =
      (Inr None, snd (moveTo counted (js ''t1'') (Some (js ''root'')) None small_session))"
    using g small_append [of "Leaf (Some (js ''root''))"]
    by (simp add: moveTo_def setLeafId_def missing_def)
  from moveTo_selects_branch [OF small_session_ok g this counted_nonempty] show ?thesis by simp
qed

end
