(* ===== verification/JsMap.thy ===== *)
theory JsMap
  imports Main
begin

text \<open>
  JavaScript's \<open>Map\<close>: an association list in insertion order, without duplicate keys. \<open>Map.set\<close> keeps
  the place of a key that is there and appends one that is not; \<open>Map.get\<close> is \<open>map_of\<close>.
\<close>

fun map_set :: "'k \<Rightarrow> 'v \<Rightarrow> ('k \<times> 'v) list \<Rightarrow> ('k \<times> 'v) list" where
  "map_set k v [] = [(k, v)]"
| "map_set k v ((k', v') # kvs) = (if k' = k then (k, v) # kvs else (k', v') # map_set k v kvs)"

definition map_delete :: "'k \<Rightarrow> ('k \<times> 'v) list \<Rightarrow> ('k \<times> 'v) list" where
  "map_delete k kvs = filter (\<lambda>kv. fst kv \<noteq> k) kvs"

lemma map_of_map_set [simp]: "map_of (map_set k v kvs) = (map_of kvs)(k \<mapsto> v)"
  by (induction k v kvs rule: map_set.induct) auto

lemma map_of_map_delete [simp]: "map_of (map_delete k kvs) = (map_of kvs)(k := None)"
  by (induction kvs) (auto simp: map_delete_def)

text \<open>The keys of a map: distinct, and changed as a set would be.\<close>

definition js_map :: "('k \<times> 'v) list \<Rightarrow> bool" where
  "js_map kvs \<longleftrightarrow> distinct (map fst kvs)"

lemma js_map_Nil [simp]: "js_map []"
  by (simp add: js_map_def)

lemma keys_map_set [simp]: "fst ` set (map_set k v kvs) = insert k (fst ` set kvs)"
  by (induction k v kvs rule: map_set.induct) auto

lemma keys_map_delete [simp]: "fst ` set (map_delete k kvs) = fst ` set kvs - {k}"
  by (auto simp: map_delete_def)

lemma js_map_map_set [simp]: "js_map kvs \<Longrightarrow> js_map (map_set k v kvs)"
  unfolding js_map_def by (induction k v kvs rule: map_set.induct) auto

lemma js_map_map_delete [simp]: "js_map kvs \<Longrightarrow> js_map (map_delete k kvs)"
  by (auto simp: js_map_def map_delete_def distinct_map_filter)

lemma js_map_mem_iff: "js_map kvs \<Longrightarrow> (k, v) \<in> set kvs \<longleftrightarrow> map_of kvs k = Some v"
  by (auto simp: js_map_def dest: map_of_SomeD)

lemma map_set_keys: "map fst (map_set k v kvs) = (if k \<in> fst ` set kvs then map fst kvs else map fst kvs @ [k])"
  by (induction k v kvs rule: map_set.induct) auto

lemma map_of_None_iff: "map_of kvs k = None \<longleftrightarrow> k \<notin> fst ` set kvs"
  by (rule map_of_eq_None_iff)

lemma length_map_set: "length (map_set k v kvs) = (if k \<in> fst ` set kvs then length kvs else length kvs + 1)"
  by (metis length_map length_append_singleton map_set_keys Suc_eq_plus1)

lemma length_map_delete:
  assumes "js_map kvs"
  shows "length (map_delete k kvs) = (if k \<in> fst ` set kvs then length kvs - 1 else length kvs)"
  using assms
proof (induction kvs)
  case (Cons kv kvs)
  then have IH: "length (map_delete k kvs) = (if k \<in> fst ` set kvs then length kvs - 1 else length kvs)"
    by (simp add: js_map_def)
  have "0 < length kvs" if "k \<in> fst ` set kvs" using that by auto
  with Cons.prems IH show ?case by (auto simp: map_delete_def js_map_def)
qed (simp add: map_delete_def)

text \<open>A keyed store as its clients see it: what a lookup returns after an insertion or a removal, and
  that an insertion keeps one value per key.\<close>

locale keyed_store =
  fixes look :: "'s \<Rightarrow> 'k \<Rightarrow> 'v option"
    and put :: "'k \<Rightarrow> 'v \<Rightarrow> 's \<Rightarrow> 's"
    and drop_key :: "'k \<Rightarrow> 's \<Rightarrow> 's"
    and values_of :: "'s \<Rightarrow> 'v list"
    and ok :: "'s \<Rightarrow> bool"
  assumes look_put: "look (put k v s) k' = (if k' = k then Some v else look s k')"
    and look_drop: "look (drop_key k s) k' = (if k' = k then None else look s k')"
    and ok_put: "ok s \<Longrightarrow> ok (put k v s)"
    and ok_drop: "ok s \<Longrightarrow> ok (drop_key k s)"
    and values_look: "ok s \<Longrightarrow> v \<in> set (values_of s) \<longleftrightarrow> (\<exists>k. look s k = Some v)"
begin

lemma put_again: "look (put k v (put k w s)) = look (put k v s)"
  by (auto simp: look_put)

lemma drop_put: "look (drop_key k (put k v s)) = look (drop_key k s)"
  by (auto simp: look_put look_drop)

lemma values_put:
  assumes "ok s"
  shows "w \<in> set (values_of (put k v s)) \<longleftrightarrow> w = v \<or> (\<exists>k'. k' \<noteq> k \<and> look s k' = Some w)"
  using assms by (auto simp: values_look ok_put look_put)

lemma values_drop:
  assumes "ok s"
  shows "w \<in> set (values_of (drop_key k s)) \<longleftrightarrow> (\<exists>k'. k' \<noteq> k \<and> look s k' = Some w)"
  using assms by (auto simp: values_look ok_drop look_drop)

end

interpretation jm: keyed_store map_of map_set map_delete "map snd" js_map
  by unfold_locales (force simp: js_map_mem_iff [symmetric])+

end
