(* ===== verification/MemoryRepo.thy ===== *)
theory MemoryRepo
  imports SessionHistory JsMap
begin

text \<open>
  \<^verbatim>\<open>packages/agent/src/harness/session/memory-repo.ts\<close> and the fork helpers of \<^verbatim>\<open>repository.ts\<close>. The backend keeps
  a JavaScript map of sessions, an association list in insertion order here, and a disposed flag; its
  operations run one after the other per session (\<open>KeyedQueue\<close>), so each is one state-passing step.
  \<open>fresh\<close> is the result of \<open>createSessionId()\<close> and \<open>now\<close> that of \<open>createTimestamp()\<close>, both parameters. A fork
  is its two queued operations in their order.
\<close>

record session_metadata =
  m_id :: js_string
  createdAt :: js_string

record mem_state =
  meta :: session_metadata
  index :: session_index

record backend =
  sessions :: "(js_string \<times> mem_state) list"
  disposed :: bool

definition new_backend :: backend where
  "new_backend = \<lparr>sessions = [], disposed = False\<rparr>"

definition assertOpen :: "backend \<Rightarrow> session_error + unit" where
  "assertOpen b = (if disposed b then Inl StorageDisposed else Inr ())"

definition getState :: "session_metadata \<Rightarrow> backend \<Rightarrow> session_error + mem_state" where
  "getState m b =
     (case map_of (sessions b) (m_id m) of None \<Rightarrow> Inl (SessionNotFound (m_id m)) | Some st \<Rightarrow> Inr st)"

definition put_session :: "mem_state \<Rightarrow> backend \<Rightarrow> backend" where
  "put_session st b = b\<lparr>sessions := map_set (m_id (meta st)) st (sessions b)\<rparr>"

definition backend_create ::
  "js_string option \<Rightarrow> js_string \<Rightarrow> js_string \<Rightarrow> backend \<Rightarrow> session_error + (session_metadata \<times> backend)" where
  "backend_create given fresh now b =
     and_then (assertOpen b) (\<lambda>_.
     let i = (case given of None \<Rightarrow> fresh | Some i \<Rightarrow> i);
         st = \<lparr>meta = \<lparr>m_id = i, createdAt = now\<rparr>, index = empty_index\<rparr>
     in Inr (meta st, put_session st b))"

definition backend_open :: "session_metadata \<Rightarrow> backend \<Rightarrow> session_error + session_metadata" where
  "backend_open m b = and_then (assertOpen b) (\<lambda>_. and_then (getState m b) (\<lambda>st. Inr (meta st)))"

definition backend_list :: "backend \<Rightarrow> session_error + session_metadata list" where
  "backend_list b = and_then (assertOpen b) (\<lambda>_. Inr (map (meta \<circ> snd) (sessions b)))"

definition backend_delete :: "session_metadata \<Rightarrow> backend \<Rightarrow> session_error + backend" where
  "backend_delete m b =
     and_then (assertOpen b) (\<lambda>_. Inr (b\<lparr>sessions := map_delete (m_id m) (sessions b)\<rparr>))"

definition backend_dispose :: "backend \<Rightarrow> backend" where
  "backend_dispose b = b\<lparr>disposed := True\<rparr>"

text \<open>The reads of an opened storage, and its append.\<close>

definition storage_read :: "session_metadata \<Rightarrow> (session_index \<Rightarrow> 'a) \<Rightarrow> backend \<Rightarrow> session_error + 'a" where
  "storage_read m operation b =
     and_then (assertOpen b) (\<lambda>_. and_then (getState m b) (\<lambda>st. Inr (operation (index st))))"

definition storage_appendEntry :: "session_metadata \<Rightarrow> tree_entry \<Rightarrow> backend \<Rightarrow> session_error + backend" where
  "storage_appendEntry m entry b =
     and_then (assertOpen b) (\<lambda>_.
     and_then (getState m b) (\<lambda>st.
     and_then (index_append entry (index st)) (\<lambda>idx.
     Inr (b\<lparr>sessions := map_set (m_id m) (st\<lparr>index := idx\<rparr>) (sessions b)\<rparr>))))"

subsection \<open>Forks\<close>

datatype fork_position = Before | At

record fork_options =
  entryId :: "js_string option"
  position :: "fork_position option"

datatype fork_selection = AllEntries | BeforeUserMessage js_string | ThroughEntry js_string

definition createSessionForkSelection :: "fork_options \<Rightarrow> fork_selection" where
  "createSessionForkSelection options =
     (case entryId options of
        None \<Rightarrow> AllEntries
      | Some i \<Rightarrow>
          if i = [] then AllEntries
          else if position options = Some At then ThroughEntry i else BeforeUserMessage i)"

definition readSessionEntriesForFork ::
  "session_index \<Rightarrow> fork_selection \<Rightarrow> (session_error + tree_entry list) option" where
  "readSessionEntriesForFork source selection =
     (case selection of
        AllEntries \<Rightarrow> Some (Inr (readEntries all_entries source))
      | ThroughEntry i \<Rightarrow>
          (case readEntry source i of
             None \<Rightarrow> Some (Inl (InvalidForkTarget i))
           | Some target \<Rightarrow> readPathToRootOrCompaction source (Some (eid target)))
      | BeforeUserMessage i \<Rightarrow>
          (case readEntry source i of
             None \<Rightarrow> Some (Inl (InvalidForkTarget i))
           | Some target \<Rightarrow>
               (case body target of
                  MessageBody (UserMessage _ _) \<Rightarrow> readPathToRootOrCompaction source (parentId target)
                | _ \<Rightarrow> Some (Inl (NotAUserMessage i)))))"

definition backend_fork ::
  "session_metadata \<Rightarrow> js_string option \<Rightarrow> fork_selection \<Rightarrow> js_string \<Rightarrow> js_string \<Rightarrow> backend
     \<Rightarrow> (session_error + (session_metadata \<times> backend)) option" where
  "backend_fork source given selection fresh now b =
     (case assertOpen b of
        Inl e \<Rightarrow> Some (Inl e)
      | Inr _ \<Rightarrow>
          (case getState source b of
             Inl e \<Rightarrow> Some (Inl e)
           | Inr st \<Rightarrow>
               map_option (\<lambda>r. and_then r (\<lambda>es.
                  and_then (new_ArraySessionIndex es) (\<lambda>idx.
                  let i = (case given of None \<Rightarrow> fresh | Some i \<Rightarrow> i);
                      st' = \<lparr>meta = \<lparr>m_id = i, createdAt = now\<rparr>, index = idx\<rparr>
                  in Inr (meta st', put_session st' b))))
                 (readSessionEntriesForFork (index st) selection)))"

text \<open>The repository wraps what the backend opens in a \<open>Session\<close>.\<close>

definition repo_session ::
  "context_options \<Rightarrow> nat \<Rightarrow> session_metadata \<Rightarrow> backend \<Rightarrow> session_error + session" where
  "repo_session options n m b =
     and_then (assertOpen b) (\<lambda>_. and_then (getState m b) (\<lambda>st. createSession (index st) options n))"

subsection \<open>A forked branch\<close>

text \<open>A walk only looks at the entries it returns, so a copy of them is walked in the same way.\<close>

lemma path_walk_copy:
  assumes "linked (rev older)" "distinct (map eid older)" "current \<in> set older"
    and "\<forall>e \<in> set (up_path older (eid current) stop). byId s (eid e) = Some e"
  shows "path_walk s current stop path = Some (Inr (path @ up_path older (eid current) stop))"
  using assms
proof (induction older arbitrary: current stop path)
  case (Cons e older)
  have l: "linked (rev older)" and p: "parent_in (ids_of older) e"
    using Cons.prems(1) by (auto simp: linked_snoc)
  show ?case
  proof (cases "current \<in> set older")
    case True
    moreover from this have "eid e \<noteq> eid current" using Cons.prems(2) by auto
    ultimately show ?thesis using Cons.IH [OF l] Cons.prems by simp
  next
    case False
    then have c: "current = e" using Cons.prems(3) by simp
    show ?thesis
    proof (cases "stop = Some (eid e) \<or> tail_kept e \<or> parent_link e = None")
      case True
      then show ?thesis by (subst path_walk.simps) (auto simp: c tail_kept_def Let_def)
    next
      case go: False
      then obtain q where q: "parent_link e = Some q" by auto
      then obtain parent where parent: "parent \<in> set older" "eid parent = q"
        using p by (auto simp: parent_in_def elim: ids_ofE)
      then have up: "up_path (e # older) (eid e) stop = e # up_path older (eid parent) (stop_after e stop)"
        using go q by simp
      have "parent \<in> set (up_path older (eid parent) (stop_after e stop))"
        using parent Cons.prems(2) by (induction older) auto
      then have "byId s q = Some parent" using Cons.prems(4) parent(2) unfolding c up by auto
      moreover have "path_walk s parent (stop_after e stop) (path @ [e]) =
          Some (Inr ((path @ [e]) @ up_path older (eid parent) (stop_after e stop)))"
        using Cons.IH [OF l _ parent(1)] Cons.prems(2,4) c up by simp
      ultimately show ?thesis
        using go q up by (subst path_walk.simps) (auto simp: c tail_kept_def stop_after_def Let_def)
    qed
  qed
qed simp

lemma up_path_subset: "set (up_path older i stop) \<subseteq> set older"
proof (induction older i stop rule: up_path.induct)
  case (2 e older i stop)
  then show ?case by (cases "parent_link e") auto
qed simp

lemma up_path_distinct: "distinct (map eid older) \<Longrightarrow> distinct (map eid (up_path older i stop))"
proof (induction older i stop rule: up_path.induct)
  case (2 e older i stop)
  have "eid e \<notin> eid ` set (up_path older p t)" for p t
    using "2.prems" up_path_subset [of older p t] by auto
  then show ?case using 2 by (cases "parent_link e") auto
qed simp

lemma up_path_head:
  assumes "e \<in> set older" "distinct (map eid older)"
  shows "\<exists>rest. up_path older (eid e) stop = e # rest"
  using assms by (induction older) auto

lemma linked_prefix: "linked (xs @ ys) \<Longrightarrow> linked xs"
proof (induction ys rule: rev_induct)
  case (snoc y ys)
  then show ?case using linked_snoc [of "xs @ ys" y] by simp
qed simp

lemma up_path_tail_kept:
  "e \<in> set older \<Longrightarrow> distinct (map eid older) \<Longrightarrow> tail_kept e \<Longrightarrow> up_path older (eid e) stop = [e]"
  by (induction older) auto

lemma fork_path:
  assumes "storage_ok (index_view es)" "e \<in> set es"
  defines "path \<equiv> rev (up_path (rev es) (eid e) None)"
  shows "distinct (map eid path)" "path \<noteq> []" "last path = e"
    "readPathToRootOrCompaction (index_view es) (Some (eid e)) = Some (Inr path)"
    "readPathToRootOrCompaction (index_view path) (Some (eid e)) = Some (Inr path)"
proof -
  have l: "linked es" and d: "distinct (map eid es)" using assms(1) by (simp_all add: storage_ok_view)
  have d': "distinct (map eid (rev es))" using d by (simp add: rev_map [symmetric])
  show dp: "distinct (map eid path)"
    using up_path_distinct [OF d', of "eid e" None] by (simp add: path_def rev_map [symmetric])
  obtain rest where u: "up_path (rev es) (eid e) None = e # rest"
    using up_path_head [of e "rev es" None] assms(2) d' by auto
  show ne: "path \<noteq> []" "last path = e" by (simp_all add: path_def u)
  show "readPathToRootOrCompaction (index_view es) (Some (eid e)) = Some (Inr path)"
    using readPath_storage [OF assms(1), of "eid e"] assms(2) by (simp add: path_def ids_of_def)
  have "e \<in> set path" using ne by (metis last_in_set)
  then have look: "lookup_in path (eid e) = Some e" using lookup_in_mem [OF dp] by simp
  have "\<forall>f \<in> set (up_path (rev es) (eid e) None). lookup_in path (eid f) = Some f"
    using lookup_in_mem [OF dp] by (auto simp: path_def)
  then have "path_walk (index_view path) e None [] = Some (Inr (up_path (rev es) (eid e) None))"
    using path_walk_copy [of "rev es" e None "index_view path" "[]"] l d' assms(2) by simp
  then show "readPathToRootOrCompaction (index_view path) (Some (eid e)) = Some (Inr path)"
    using look by (simp add: readPathToRootOrCompaction_def path_def)
qed

text \<open>Forking a session through one of its entries succeeds and gives a session whose active
  branch is the branch of that entry in the source; the source, when the fork has another id, is as it was.\<close>

theorem fork_through_entry:
  assumes "storage_ok (index st)" "getState source b = Inr st" "\<not> disposed b"
    and "readEntry (index st) i = Some target" "entry_type target \<noteq> TLeaf"
  shows "\<exists>m b' s. backend_fork source given (ThroughEntry i) fresh now b = Some (Inr (m, b'))
    \<and> repo_session options n m b' = Inr s
    \<and> getBranch None s = readPathToRootOrCompaction (index st) (Some i)
    \<and> (m_id m \<noteq> m_id source \<longrightarrow> getState source b' = getState source b)"
proof -
  obtain es where es: "index st = index_view es" "storage_ok (index_view es)"
    using assms(1) by (auto simp: storage_ok_def)
  have t: "target \<in> set es" "eid target = i"
    using assms(4) lookup_in_Some by (auto simp: readEntry_def es(1))
  define path where "path = rev (up_path (rev es) i None)"
  note fp = fork_path [OF es(2) t(1), unfolded t(2), folded path_def]
  define m where "m = \<lparr>m_id = (case given of None \<Rightarrow> fresh | Some i \<Rightarrow> i), createdAt = now\<rparr>"
  define b' where "b' = put_session \<lparr>meta = m, index = index_view path\<rparr> b"
  have fork: "backend_fork source given (ThroughEntry i) fresh now b = Some (Inr (m, b'))"
    using assms(2-4) fp(4) t(2) new_index_view [OF fp(1)]
    by (simp add: backend_fork_def assertOpen_def readSessionEntriesForFork_def es(1) b'_def m_def Let_def)
  have leaf: "leafId (index_view path) = Some i"
    using fp(2,3) t(2) assms(5) by (auto simp: index_view_def next_leaf_def split: entry_body.split)
  moreover have "i \<in> ids_of path" using fp(2,3) t(2) by (metis ids_of_def imageI last_in_set)
  ultimately have head: "readHead (index_view path) = Inr (Some i)"
    by (simp add: readHead_def has_def)
  define s where "s = \<lparr>storage = index_view path, sleaf = Some i, contextBuildOptions = options, uuidCount = n\<rparr>"
  have "repo_session options n m b' = Inr s"
    using head assms(3)
    by (simp add: repo_session_def assertOpen_def getState_def b'_def put_session_def createSession_def s_def)
  moreover have "getBranch None s = readPathToRootOrCompaction (index st) (Some i)"
    using fp(4,5) by (simp add: getBranch_def from_leaf_def s_def es(1))
  moreover have "getState source b' = getState source b" if "m_id m \<noteq> m_id source"
    using that by (simp add: getState_def b'_def put_session_def)
  ultimately show ?thesis using fork by blast
qed

definition small_backend :: backend where
  "small_backend = \<lparr>sessions = [(js ''s'', \<lparr>meta = \<lparr>m_id = js ''s'', createdAt = js ''t0''\<rparr>,
     index = index_view [first_message]\<rparr>)], disposed = False\<rparr>"

theorem fork_through_entry_witness:
  "\<exists>m b' s. backend_fork \<lparr>m_id = js ''s'', createdAt = js ''t0''\<rparr> None (ThroughEntry (js ''root'')) (js ''f'') (js ''t1'')
        small_backend = Some (Inr (m, b'))
    \<and> repo_session no_options 0 m b' = Inr s
    \<and> getBranch None s = readPathToRootOrCompaction (index_view [first_message]) (Some (js ''root''))
    \<and> (m_id m \<noteq> js ''s'' \<longrightarrow> getState \<lparr>m_id = js ''s'', createdAt = js ''t0''\<rparr> b'
        = getState \<lparr>m_id = js ''s'', createdAt = js ''t0''\<rparr> small_backend)"
proof -
  have "storage_ok (index_view [first_message])"
    using small_session_ok by (simp only: session_ok_def small_session_simps)
  moreover have "readEntry (index_view [first_message]) (js ''root'') = Some first_message"
    by (simp add: readEntry_def lookup_in_def first_message_def)
  moreover have "entry_type first_message \<noteq> TLeaf" by (simp add: first_message_def)
  ultimately show ?thesis
    using fork_through_entry [of "\<lparr>meta = \<lparr>m_id = js ''s'', createdAt = js ''t0''\<rparr>, index = index_view [first_message]\<rparr>"
        "\<lparr>m_id = js ''s'', createdAt = js ''t0''\<rparr>" small_backend "js ''root''" first_message None "js ''f''" "js ''t1''"
        no_options 0]
    by (simp add: small_backend_def getState_def)
qed

text \<open>A fork through a compaction that stored its tail holds that compaction with a link to an
  entry it does not hold: a branch query to the root that the source answers fails in the fork.\<close>

theorem fork_breaks_branch_query:
  assumes "storage_ok (index_view es)" "c \<in> set es" "tail_kept c" "parent_link c = Some p"
    and "start q = Some (eid c)" "q_limit q = None" "stopAtId q = None" "stopAtType q = None"
  shows "readSessionEntriesForFork (index_view es) (ThroughEntry (eid c)) = Some (Inr [c])
    \<and> (\<exists>found. findEntriesOnBranch q (index_view es) = Some (Inr found))
    \<and> findEntriesOnBranch q (index_view [c]) = Some (Inl (InvalidSession p))"
proof (intro conjI)
  have d: "distinct (map eid es)" and l: "linked es" using assms(1) by (simp_all add: storage_ok_view)
  have mem: "eid c \<in> ids_of es" using assms(2) by (simp add: ids_of_def)
  obtain xs ys where es: "es = xs @ [c] @ ys" using split_list [OF assms(2)] by auto
  have "p \<in> ids_of xs" using l assms(4) linked_prefix [of "xs @ [c]" ys]
    by (simp add: es linked_snoc parent_in_def)
  moreover have "eid c \<notin> ids_of xs" using d by (simp add: es ids_of_def)
  ultimately have p: "p \<noteq> eid c" by auto
  have "up_path (rev es) (eid c) None = [c]"
    using up_path_tail_kept [of c "rev es" None] assms(2,3) d by (simp add: rev_map [symmetric])
  then show "readSessionEntriesForFork (index_view es) (ThroughEntry (eid c)) = Some (Inr [c])"
    using fork_path(4) [OF assms(1,2)] lookup_in_mem [OF d assms(2)]
    by (simp add: readSessionEntriesForFork_def readEntry_def)
  show "\<exists>found. findEntriesOnBranch q (index_view es) = Some (Inr found)"
    using find_spec [OF new_index_view [OF d] l assms(5) mem] assms(6) by auto
  have look: "lookup_in [c] (eid c) = Some c" "lookup_in [c] p = None"
    using p by (simp_all add: lookup_in_def)
  have "branch_walk (index_view [c]) q c [] [] = Some (Inl (InvalidSession p))"
    using assms look by (subst branch_walk.simps) (simp add: stops_at_def Let_def del: lookup_in_None)
  then show "findEntriesOnBranch q (index_view [c]) = Some (Inl (InvalidSession p))"
    using assms look by (simp add: findEntriesOnBranch_def)
qed

theorem fork_breaks_branch_query_witness:
  "findEntriesOnBranch \<lparr>start = Some (js ''c''), stopAtType = None, stopAtId = None, q_type = None,
      customType = None, oldestFirst = False, q_limit = None\<rparr>
     (index_view [node ''c'' (Some ''root'') (Compaction small_compaction)]) = Some (Inl (InvalidSession (js ''root'')))"
proof -
  let ?c = "node ''c'' (Some ''root'') (Compaction small_compaction)"
  have "storage_ok (index_view [first_message, ?c])"
    by (simp add: storage_ok_view first_message_def node_def js_def linked_def parent_in_def parent_link_def)
  from fork_breaks_branch_query [OF this, of ?c "js ''root''"
      "\<lparr>start = Some (js ''c''), stopAtType = None, stopAtId = None, q_type = None,
        customType = None, oldestFirst = False, q_limit = None\<rparr>"]
  show ?thesis
    by (simp add: node_def tail_kept_def small_compaction_def parent_link_def js_def)
qed

end
