(* ===== verification/Retry.thy ===== *)
theory Retry
  imports Messages
begin

text \<open>
  \<^verbatim>\<open>packages/ai/src/utils/retry.ts\<close>: which assistant errors are worth a retry, and the retry loop with
  exponential backoff. The provider is the parameter \<open>produce\<close> (the response of the \<open>n\<close>-th call) and the
  abort signal the parameter \<open>interrupted\<close> (whether the \<open>n\<close>-th backoff sleep is aborted); the callbacks are
  the events the loop reports, in order; callbacks that throw are left out.
\<close>

subsection \<open>Error patterns\<close>

definition lower :: "js_char \<Rightarrow> js_char" where
  "lower c = (if 0x41 \<le> c \<and> c \<le> 0x5a then c + 0x20 else c)"

definition char_matches :: "js_char \<Rightarrow> js_char \<Rightarrow> bool" where
  "char_matches p c =
     (if p = 0x2e then c \<notin> {0xa, 0xd, 0x2028, 0x2029} else lower p = lower c)"

text \<open>The patterns are made of characters, \<open>.\<close> for any character, and \<open>?\<close> after one that may be missing.\<close>

fun matches_here :: "js_string \<Rightarrow> js_string \<Rightarrow> bool" where
  "matches_here [] s = True"
| "matches_here (p # q # ps) s =
     (if q = 0x3f
      then matches_here ps s \<or> (case s of [] \<Rightarrow> False | c # cs \<Rightarrow> char_matches p c \<and> matches_here ps cs)
      else (case s of [] \<Rightarrow> False | c # cs \<Rightarrow> char_matches p c \<and> matches_here (q # ps) cs))"
| "matches_here [p] s = (case s of [] \<Rightarrow> False | c # cs \<Rightarrow> char_matches p c)"

fun matches_somewhere :: "js_string \<Rightarrow> js_string \<Rightarrow> bool" where
  "matches_somewhere p [] = matches_here p []"
| "matches_somewhere p (c # cs) = (matches_here p (c # cs) \<or> matches_somewhere p cs)"

definition test_patterns :: "string list \<Rightarrow> js_string \<Rightarrow> bool" where
  "test_patterns patterns s = list_ex (\<lambda>p. matches_somewhere (js p) s) patterns"

definition NON_RETRYABLE_PROVIDER_LIMIT_ERROR_PATTERN :: "string list" where
  "NON_RETRYABLE_PROVIDER_LIMIT_ERROR_PATTERN =
     [''GoUsageLimitError'', ''FreeUsageLimitError'', ''Monthly usage limit reached'',
      ''available balance'', ''insufficient_quota'', ''out of budget'', ''quota exceeded'',
      ''billing'']"

definition RETRYABLE_PROVIDER_ERROR_PATTERN :: "string list" where
  "RETRYABLE_PROVIDER_ERROR_PATTERN =
     [''overloaded'', ''rate.?limit'', ''too many requests'', ''429'', ''500'', ''502'', ''503'',
      ''504'', ''524'', ''service.?unavailable'', ''server.?error'', ''internal.?error'',
      ''provider.?returned.?error'', ''network.?error'', ''connection.?error'',
      ''connection.?refused'', ''connection.?lost'', ''other side closed'', ''fetch failed'',
      ''getaddrinfo'', ''ENOTFOUND'', ''EAI_AGAIN'', ''upstream.?connect'',
      ''reset before headers'', ''socket hang up'', ''socket connection was closed'',
      ''timed? out'', ''timeout'', ''terminated'', ''websocket.?closed'', ''websocket.?error'',
      ''ended without'', ''stream ended before message_stop'',
      ''stream ended before a terminal response event'', ''http2 request did not get a response'',
      ''retry delay'', ''you can retry your request'', ''try your request again'',
      ''please retry your request'', ''ResourceExhausted'']"

definition isRetryableAssistantError :: "assistant_message \<Rightarrow> bool" where
  "isRetryableAssistantError message =
     (case a_errorMessage message of
        None \<Rightarrow> False
      | Some errorMessage \<Rightarrow>
          a_stopReason message = Error \<and> errorMessage \<noteq> [] \<and>
          \<not> test_patterns NON_RETRYABLE_PROVIDER_LIMIT_ERROR_PATTERN errorMessage \<and>
          test_patterns RETRYABLE_PROVIDER_ERROR_PATTERN errorMessage)"

subsection \<open>The loop\<close>

record retry_policy =
  r_enabled :: bool
  maxRetries :: nat
  baseDelayMs :: nat

datatype retry_event =
    RetryScheduled nat nat nat js_string
  | RetryAttemptStart
  | RetryFinished bool nat "js_string option"

text \<open>\<open>text || fallback\<close> for a text that may be missing.\<close>

definition or_else :: "js_string option \<Rightarrow> js_string \<Rightarrow> js_string" where
  "or_else s d = (case s of None \<Rightarrow> d | Some t \<Rightarrow> if t = [] then d else t)"

definition finished :: "(nat \<times> js_string) option \<Rightarrow> bool \<Rightarrow> js_string option \<Rightarrow> retry_event list" where
  "finished lastRetry success e =
     (case lastRetry of None \<Rightarrow> [] | Some (attempt, _) \<Rightarrow> [RetryFinished success attempt e])"

function retry_loop ::
  "nat \<Rightarrow> nat \<Rightarrow> (nat \<Rightarrow> assistant_message) \<Rightarrow> (nat \<Rightarrow> bool) \<Rightarrow> nat \<Rightarrow> (nat \<times> js_string) option
     \<Rightarrow> retry_event list \<times> assistant_message" where
  "retry_loop maxAttempts baseDelay produce interrupted attempt lastRetry =
     (let response = produce attempt in
      if a_stopReason response = Aborted then (finished lastRetry False None, response)
      else if a_stopReason response \<noteq> Error then (finished lastRetry True None, response)
      else if attempt \<ge> maxAttempts \<or> \<not> isRetryableAssistantError response
        then (finished lastRetry False (a_errorMessage response), response)
      else
        let next = attempt + 1;
            message = or_else (a_errorMessage response) (js ''Unknown error'');
            scheduled = RetryScheduled next maxAttempts (baseDelay * 2 ^ (next - 1)) message
        in if interrupted next
           then ([scheduled, RetryFinished False next (Some message)],
                 response\<lparr>a_stopReason := Aborted, a_errorMessage := None\<rparr>)
           else let (events, r) = retry_loop maxAttempts baseDelay produce interrupted next (Some (next, message))
                in (scheduled # RetryAttemptStart # events, r))"
  by pat_completeness auto
termination
  by (relation "measure (\<lambda>(maxAttempts, _, _, _, attempt, _). maxAttempts - attempt)") auto

declare retry_loop.simps [simp del]

definition retry_limit :: "retry_policy option \<Rightarrow> nat" where
  "retry_limit policy = (case policy of None \<Rightarrow> 0 | Some p \<Rightarrow> if r_enabled p then maxRetries p else 0)"

definition base_delay :: "retry_policy option \<Rightarrow> nat" where
  "base_delay policy = (case policy of None \<Rightarrow> 0 | Some p \<Rightarrow> baseDelayMs p)"

definition retryAssistantCall ::
  "(nat \<Rightarrow> assistant_message) \<Rightarrow> retry_policy option \<Rightarrow> (nat \<Rightarrow> bool) \<Rightarrow> retry_event list \<times> assistant_message" where
  "retryAssistantCall produce policy interrupted =
     retry_loop (retry_limit policy) (base_delay policy) produce interrupted 0 None"

subsection \<open>Properties\<close>

fun is_scheduled :: "retry_event \<Rightarrow> bool" where
  "is_scheduled (RetryScheduled _ _ _ _) = True"
| "is_scheduled _ = False"

fun is_finished :: "retry_event \<Rightarrow> bool" where
  "is_finished (RetryFinished _ _ _) = True"
| "is_finished _ = False"

definition retries :: "retry_event list \<Rightarrow> nat" where
  "retries events = length (filter is_scheduled events)"

text \<open>The events of \<open>k\<close> retries from \<open>attempt\<close> on that were all made, before the last word.\<close>

definition retry_message :: "assistant_message \<Rightarrow> js_string" where
  "retry_message r = or_else (a_errorMessage r) (js ''Unknown error'')"

fun retry_trace :: "nat \<Rightarrow> nat \<Rightarrow> (nat \<Rightarrow> assistant_message) \<Rightarrow> nat \<Rightarrow> nat \<Rightarrow> retry_event list" where
  "retry_trace m base produce attempt 0 = []"
| "retry_trace m base produce attempt (Suc k) =
     RetryScheduled (attempt + 1) m (base * 2 ^ attempt) (retry_message (produce attempt))
     # RetryAttemptStart # retry_trace m base produce (attempt + 1) k"

definition settles :: "nat \<Rightarrow> nat \<Rightarrow> assistant_message \<Rightarrow> bool" where
  "settles m n r \<longleftrightarrow> a_stopReason r \<noteq> Error \<or> n \<ge> m \<or> \<not> isRetryableAssistantError r"

text \<open>The last event, when the response of call \<open>n\<close> settles the loop after at least one retry.\<close>

definition last_word :: "nat \<Rightarrow> assistant_message \<Rightarrow> retry_event" where
  "last_word n r = RetryFinished (a_stopReason r \<noteq> Error \<and> a_stopReason r \<noteq> Aborted) n
     (if a_stopReason r = Error then a_errorMessage r else None)"

lemma retry_loop_settled:
  assumes "settles m attempt (produce attempt)"
  shows "retry_loop m base produce interrupted attempt lastRetry =
    ((case lastRetry of None \<Rightarrow> [] | Some (n, _) \<Rightarrow> [last_word n (produce attempt)]), produce attempt)"
  using assms by (subst retry_loop.simps) (auto simp: Let_def last_word_def settles_def finished_def split: option.split)

lemma retry_loop_again:
  assumes "\<not> settles m attempt (produce attempt)"
  shows "retry_loop m base produce interrupted attempt lastRetry =
    (let scheduled = RetryScheduled (attempt + 1) m (base * 2 ^ attempt) (retry_message (produce attempt)) in
     if interrupted (attempt + 1)
     then ([scheduled, RetryFinished False (attempt + 1) (Some (retry_message (produce attempt)))],
           (produce attempt)\<lparr>a_stopReason := Aborted, a_errorMessage := None\<rparr>)
     else let (events, r) = retry_loop m base produce interrupted (attempt + 1) (Some (attempt + 1, retry_message (produce attempt)))
          in (scheduled # RetryAttemptStart # events, r))"
  using assms by (subst retry_loop.simps) (auto simp: Let_def settles_def retry_message_def)

text \<open>The loop goes on for \<open>k\<close> calls, and ends at the next one.\<close>

lemma retry_loop_shape:
  assumes "\<forall>i < k. \<not> settles m (attempt + i) (produce (attempt + i)) \<and> \<not> interrupted (attempt + i + 1)"
    and "settles m (attempt + k) (produce (attempt + k)) \<or> interrupted (attempt + k + 1)"
  shows "retry_loop m base produce interrupted attempt lastRetry =
    (let n = attempt + k; r = produce n in
     if settles m n r
     then (retry_trace m base produce attempt k
             @ (if k > 0 then [last_word n r] else case lastRetry of None \<Rightarrow> [] | Some (l, _) \<Rightarrow> [last_word l r]), r)
     else (retry_trace m base produce attempt k
             @ [RetryScheduled (n + 1) m (base * 2 ^ n) (retry_message r), RetryFinished False (n + 1) (Some (retry_message r))],
           r\<lparr>a_stopReason := Aborted, a_errorMessage := None\<rparr>))"
  using assms
proof (induction k arbitrary: attempt lastRetry)
  case 0
  show ?case
  proof (cases "settles m attempt (produce attempt)")
    case True
    then show ?thesis by (simp add: retry_loop_settled Let_def)
  next
    case False
    with 0 show ?thesis by (simp add: retry_loop_again Let_def)
  qed
next
  case (Suc k)
  have first: "\<not> settles m attempt (produce attempt)" "\<not> interrupted (attempt + 1)" using Suc.prems(1) by force+
  have "\<forall>i < k. \<not> settles m (attempt + 1 + i) (produce (attempt + 1 + i)) \<and> \<not> interrupted (attempt + 1 + i + 1)"
  proof (intro allI impI)
    fix i assume "i < k"
    then show "\<not> settles m (attempt + 1 + i) (produce (attempt + 1 + i)) \<and> \<not> interrupted (attempt + 1 + i + 1)"
      using Suc.prems(1) [rule_format, of "Suc i"] by simp
  qed
  moreover have "settles m (attempt + 1 + k) (produce (attempt + 1 + k)) \<or> interrupted (attempt + 1 + k + 1)"
    using Suc.prems(2) by simp
  ultimately have "retry_loop m base produce interrupted (attempt + 1) l = (let n = attempt + 1 + k; r = produce n in
     if settles m n r
     then (retry_trace m base produce (attempt + 1) k
             @ (if k > 0 then [last_word n r] else case l of None \<Rightarrow> [] | Some (l, _) \<Rightarrow> [last_word l r]), r)
     else (retry_trace m base produce (attempt + 1) k
             @ [RetryScheduled (n + 1) m (base * 2 ^ n) (retry_message r), RetryFinished False (n + 1) (Some (retry_message r))],
           r\<lparr>a_stopReason := Aborted, a_errorMessage := None\<rparr>))" for l
    by (rule Suc.IH)
  with first show ?case by (simp add: retry_loop_again Let_def)
qed

text \<open>Property C39. A call with retries always returns, and what it returns and reports is fixed by the responses: with the first
  response that settles it, at the latest that of call \<open>maxRetries\<close> (the first call is number 0; none is repeated without an
  enabled policy), returned as it is, or, when the backoff before the next call is interrupted first, with that error turned into an
  aborted message. Only retryable errors come before. The events are those of each retry in order, with its number, its
  delay (doubled each time) and the error, and then, if there was a retry, one last word with the success, the number of the last retry
  and the final error.\<close>

theorem retryAssistantCall_outcome:
  "\<exists>k \<le> retry_limit policy. (\<forall>i < k. isRetryableAssistantError (produce i) \<and> \<not> interrupted (i + 1))
    \<and> (if settles (retry_limit policy) k (produce k)
       then retryAssistantCall produce policy interrupted =
         (retry_trace (retry_limit policy) (base_delay policy) produce 0 k @ (if k > 0 then [last_word k (produce k)] else []), produce k)
       else interrupted (k + 1) \<and> retryAssistantCall produce policy interrupted =
         (retry_trace (retry_limit policy) (base_delay policy) produce 0 k
            @ [RetryScheduled (k + 1) (retry_limit policy) (base_delay policy * 2 ^ k) (retry_message (produce k)),
               RetryFinished False (k + 1) (Some (retry_message (produce k)))],
          (produce k)\<lparr>a_stopReason := Aborted, a_errorMessage := None\<rparr>))"
proof -
  let ?m = "retry_limit policy" and ?b = "base_delay policy"
  let ?stop = "\<lambda>k. settles ?m k (produce k) \<or> interrupted (k + 1)"
  have "?stop ?m" by (simp add: settles_def)
  define k where "k = (LEAST k. ?stop k)"
  have k: "?stop k" "k \<le> ?m" "\<forall>i < k. \<not> ?stop i"
    unfolding k_def using LeastI [of ?stop ?m] Least_le [of ?stop ?m] not_less_Least [of _ ?stop] \<open>?stop ?m\<close> by blast+
  then have retryable: "\<forall>i < k. isRetryableAssistantError (produce i) \<and> \<not> interrupted (i + 1)" by (auto simp: settles_def)
  have "retryAssistantCall produce policy interrupted = retry_loop ?m ?b produce interrupted 0 None"
    by (simp add: retryAssistantCall_def)
  also have "\<dots> = (if settles ?m k (produce k)
       then (retry_trace ?m ?b produce 0 k @ (if k > 0 then [last_word k (produce k)] else []), produce k)
       else (retry_trace ?m ?b produce 0 k
            @ [RetryScheduled (k + 1) ?m (?b * 2 ^ k) (retry_message (produce k)),
               RetryFinished False (k + 1) (Some (retry_message (produce k)))],
          (produce k)\<lparr>a_stopReason := Aborted, a_errorMessage := None\<rparr>))"
    using retry_loop_shape [of k ?m 0 produce interrupted ?b None] k by (simp add: Let_def)
  finally show ?thesis using k(1,2) retryable by (intro exI [of _ k]) auto
qed

text \<open>A provider that is overloaded twice and then answers.\<close>

definition failed_reply :: assistant_message where
  "failed_reply = \<lparr>a_content = [], a_provider = [], a_model = [], a_usage = None, a_stopReason = Error,
     a_errorMessage = Some (js ''HTTP 503''), a_timestamp = 0\<rparr>"

lemma failed_reply_retryable: "isRetryableAssistantError failed_reply"
  by (simp add: isRetryableAssistantError_def failed_reply_def test_patterns_def RETRYABLE_PROVIDER_ERROR_PATTERN_def
      NON_RETRYABLE_PROVIDER_LIMIT_ERROR_PATTERN_def js_def char_matches_def lower_def)

definition third_time_lucky :: "nat \<Rightarrow> assistant_message" where
  "third_time_lucky n = (if n < 2 then failed_reply else failed_reply\<lparr>a_stopReason := Stop, a_errorMessage := None\<rparr>)"

theorem retryAssistantCall_outcome_witness:
  "retryAssistantCall third_time_lucky (Some \<lparr>r_enabled = True, maxRetries = 3, baseDelayMs = 10\<rparr>) (\<lambda>_. False)
   = ([RetryScheduled 1 3 10 (js ''HTTP 503''), RetryAttemptStart, RetryScheduled 2 3 20 (js ''HTTP 503''), RetryAttemptStart,
       RetryFinished True 2 None], failed_reply\<lparr>a_stopReason := Stop, a_errorMessage := None\<rparr>)"
proof -
  let ?policy = "Some \<lparr>r_enabled = True, maxRetries = 3, baseDelayMs = 10\<rparr>"
  have limits: "retry_limit ?policy = 3" "base_delay ?policy = 10" by (simp_all add: retry_limit_def base_delay_def)
  have error: "a_stopReason failed_reply = Error" "retry_message failed_reply = js ''HTTP 503''"
    by (simp_all add: failed_reply_def retry_message_def or_else_def js_def)
  let ?run = "retryAssistantCall third_time_lucky ?policy (\<lambda>_. False)"
  obtain k where k0: "k \<le> 3" "(\<forall>i < k. isRetryableAssistantError (third_time_lucky i) \<and> \<not> False) \<and> (if settles 3 k (third_time_lucky k)
      then ?run = (retry_trace 3 10 third_time_lucky 0 k @ (if k > 0 then [last_word k (third_time_lucky k)] else []), third_time_lucky k)
      else False \<and> ?run = (retry_trace 3 10 third_time_lucky 0 k
        @ [RetryScheduled (k + 1) 3 (10 * 2 ^ k) (retry_message (third_time_lucky k)),
           RetryFinished False (k + 1) (Some (retry_message (third_time_lucky k)))],
        (third_time_lucky k)\<lparr>a_stopReason := Aborted, a_errorMessage := None\<rparr>))"
    using retryAssistantCall_outcome [of ?policy third_time_lucky "\<lambda>_. False"] unfolding limits by blast
  then have settled: "settles 3 k (third_time_lucky k)" by metis
  with k0 have k: "\<forall>i < k. isRetryableAssistantError (third_time_lucky i)" "settles 3 k (third_time_lucky k)"
    "?run = (retry_trace 3 10 third_time_lucky 0 k @ (if k > 0 then [last_word k (third_time_lucky k)] else []), third_time_lucky k)"
    by simp_all
  have "\<not> isRetryableAssistantError (third_time_lucky 2)" by (simp add: third_time_lucky_def isRetryableAssistantError_def)
  with k(1) have "k \<le> 2" by (metis not_le)
  moreover have "\<not> k < 2" using k(2) error failed_reply_retryable by (auto simp: settles_def third_time_lucky_def)
  ultimately have "k = 2" by simp
  with k(3) error show ?thesis by (simp add: third_time_lucky_def last_word_def numeral_2_eq_2)
qed

end
