(* ===== verification/Summary.thy ===== *)
theory Summary
  imports SessionIndex Retry "HOL-Library.List_Lexorder"
begin

text \<open>
  What compaction and branch summaries share: the file operations and the serialisation of
  \<^verbatim>\<open>packages/agent/src/harness/compaction/utils.ts\<close>, the prompts, and the summarisation request. JavaScript
  sets are lists without repetitions in insertion order, and \<open>sort()\<close> sorts texts by their UTF-16
  code units, which is the order of lists of words here. \<open>safeJsonStringify\<close> is the parameter \<open>stringify\<close>
  (\<open>JSON.stringify\<close> with its two fallbacks), and the provider is the parameter of \<open>Retry\<close>.
\<close>

subsection \<open>File operations\<close>

record file_operations =
  f_read :: "js_string list"
  f_written :: "js_string list"
  f_edited :: "js_string list"

definition createFileOps :: file_operations where
  "createFileOps = \<lparr>f_read = [], f_written = [], f_edited = []\<rparr>"

definition set_add :: "'a \<Rightarrow> 'a list \<Rightarrow> 'a list" where
  "set_add x xs = (if x \<in> set xs then xs else xs @ [x])"

definition tool_path :: "(js_string \<times> js_value) list \<Rightarrow> js_string option" where
  "tool_path args =
     (case map_of args (js ''path'') of
        Some (JString p) \<Rightarrow> if p = [] then None else Some p
      | _ \<Rightarrow> None)"

fun extract_block :: "assistant_block \<Rightarrow> file_operations \<Rightarrow> file_operations" where
  "extract_block (ToolCall _ tool args) ops =
     (case tool_path args of
        None \<Rightarrow> ops
      | Some path \<Rightarrow>
          if tool = js ''read'' then ops\<lparr>f_read := set_add path (f_read ops)\<rparr>
          else if tool = js ''write'' then ops\<lparr>f_written := set_add path (f_written ops)\<rparr>
          else if tool = js ''edit'' then ops\<lparr>f_edited := set_add path (f_edited ops)\<rparr>
          else ops)"
| "extract_block _ ops = ops"

fun extractFileOpsFromMessage :: "agent_message \<Rightarrow> file_operations \<Rightarrow> file_operations" where
  "extractFileOpsFromMessage (AssistantMessage a) ops = fold extract_block (a_content a) ops"
| "extractFileOpsFromMessage _ ops = ops"

definition computeFileLists :: "file_operations \<Rightarrow> js_string list \<times> js_string list" where
  "computeFileLists ops =
     (let modified = fold set_add (f_edited ops @ f_written ops) [];
          readOnly = sort (filter (\<lambda>f. f \<notin> set modified) (f_read ops))
      in (readOnly, sort modified))"

definition formatFileOperations :: "js_string list \<Rightarrow> js_string list \<Rightarrow> js_string" where
  "formatFileOperations readFiles modifiedFiles =
     (let sections =
        (if readFiles \<noteq> []
         then [js ''<read-files>'' @ [newline] @ join [newline] readFiles @ [newline] @ js ''</read-files>'']
         else []) @
        (if modifiedFiles \<noteq> []
         then [js ''<modified-files>'' @ [newline] @ join [newline] modifiedFiles @ [newline] @ js ''</modified-files>'']
         else [])
      in if sections = [] then [] else [newline, newline] @ join [newline, newline] sections)"

text \<open>The files of an earlier summary that no hook made.\<close>

definition add_details :: "bool \<Rightarrow> file_details option \<Rightarrow> file_operations \<Rightarrow> file_operations" where
  "add_details fromHook details ops =
     (case details of
        None \<Rightarrow> ops
      | Some d \<Rightarrow>
          if fromHook then ops
          else let ops1 = (case d_readFiles d of None \<Rightarrow> ops
                             | Some fs \<Rightarrow> ops\<lparr>f_read := fold set_add fs (f_read ops)\<rparr>)
               in (case d_modifiedFiles d of None \<Rightarrow> ops1
                     | Some fs \<Rightarrow> ops1\<lparr>f_edited := fold set_add fs (f_edited ops1)\<rparr>))"

subsection \<open>Serialising a conversation\<close>

definition TOOL_RESULT_MAX_CHARS :: nat where "TOOL_RESULT_MAX_CHARS = 2000"

definition truncateForSummary :: "js_string \<Rightarrow> nat \<Rightarrow> js_string" where
  "truncateForSummary text maxChars =
     (if length text \<le> maxChars then text
      else take maxChars text @ [newline, newline] @ js ''[... '' @ decimal (length text - maxChars)
             @ js '' more characters truncated]'')"

definition is_text_block :: "assistant_block \<Rightarrow> bool" where
  "is_text_block b = (case b of TextBlock _ \<Rightarrow> True | _ \<Rightarrow> False)"

definition thinking_parts :: "assistant_block list \<Rightarrow> js_string list" where
  "thinking_parts bs = List.map_filter (\<lambda>b. case b of ThinkingBlock t \<Rightarrow> Some t | _ \<Rightarrow> None) bs"

definition tool_call_parts :: "(js_value \<Rightarrow> js_string) \<Rightarrow> assistant_block list \<Rightarrow> js_string list" where
  "tool_call_parts stringify bs =
     List.map_filter (\<lambda>b. case b of
        ToolCall _ tool args \<Rightarrow>
          Some (tool @ js ''('' @ join (js '', '') (map (\<lambda>(k, v). k @ js ''='' @ stringify v) args) @ js '')'')
      | _ \<Rightarrow> None) bs"

fun serialize_message :: "(js_value \<Rightarrow> js_string) \<Rightarrow> agent_message \<Rightarrow> js_string list" where
  "serialize_message stringify (UserMessage content _) =
     (let text = contentText [] content in if text \<noteq> [] then [js ''[User]: '' @ text] else [])"
| "serialize_message stringify (AssistantMessage a) =
     (if thinking_parts (a_content a) \<noteq> []
      then [js ''[Assistant thinking]: '' @ join [newline] (thinking_parts (a_content a))] else []) @
     (if list_ex is_text_block (a_content a)
      then [js ''[Assistant]: '' @ assistantText [newline] (a_content a)] else []) @
     (if tool_call_parts stringify (a_content a) \<noteq> []
      then [js ''[Assistant tool calls]: '' @ join (js ''; '') (tool_call_parts stringify (a_content a))] else [])"
| "serialize_message stringify (ToolResultMessage _ _ content _ _) =
     (let text = contentText [] (ContentBlocks content)
      in if text \<noteq> [] then [js ''[Tool result]: '' @ truncateForSummary text TOOL_RESULT_MAX_CHARS] else [])"
| "serialize_message stringify _ = []"

definition serializeConversation :: "(js_value \<Rightarrow> js_string) \<Rightarrow> agent_message list \<Rightarrow> js_string" where
  "serializeConversation stringify messages =
     join [newline, newline] (concat (map (serialize_message stringify) messages))"

subsection \<open>Prompts and the request\<close>

definition SUMMARIZATION_SYSTEM_PROMPT :: js_string where
  \<open>SUMMARIZATION_SYSTEM_PROMPT = js_lines [
     ''You are a context summarization assistant. Your task is to read a conversation between a user and an AI assistant, then produce a structured summary following the exact format specified.'',
     '''',
     ''Do NOT continue the conversation. Do NOT respond to any questions in the conversation. ONLY output the structured summary.'']\<close>

definition SUMMARIZATION_PROMPT :: js_string where
  \<open>SUMMARIZATION_PROMPT = js_lines [
     ''The messages above are a conversation to summarize. Create a structured context checkpoint summary that another LLM will use to continue the work.'',
     '''',
     ''Use this EXACT format:'',
     '''',
     ''## Goal'',
     ''[What is the user trying to accomplish? Can be multiple items if the session covers different tasks.]'',
     '''',
     ''## Constraints & Preferences'',
     ''- [Any constraints, preferences, or requirements mentioned by user]'',
     ''- [Or "(none)" if none were mentioned]'',
     '''',
     ''## Progress'',
     ''### Done'',
     ''- [x] [Completed tasks/changes]'',
     '''',
     ''### In Progress'',
     ''- [ ] [Current work]'',
     '''',
     ''### Blocked'',
     ''- [Issues preventing progress, if any]'',
     '''',
     ''## Key Decisions'',
     ''- **[Decision]**: [Brief rationale]'',
     '''',
     ''## Next Steps'',
     ''1. [Ordered list of what should happen next]'',
     '''',
     ''## Critical Context'',
     ''- [Any data, examples, or references needed to continue]'',
     ''- [Or "(none)" if not applicable]'',
     '''',
     ''Keep each section concise. Preserve exact file paths, function names, and error messages.'']\<close>

definition UPDATE_SUMMARIZATION_PROMPT :: js_string where
  \<open>UPDATE_SUMMARIZATION_PROMPT = js_lines [
     ''The messages above are NEW conversation messages to incorporate into the existing summary provided in <previous-summary> tags.'',
     '''',
     ''Update the existing structured summary with new information. RULES:'',
     ''- PRESERVE all existing information from the previous summary'',
     ''- ADD new progress, decisions, and context from the new messages'',
     ''- UPDATE the Progress section: move items from "In Progress" to "Done" when completed'',
     ''- UPDATE "Next Steps" based on what was accomplished'',
     ''- PRESERVE exact file paths, function names, and error messages'',
     ''- If something is no longer relevant, you may remove it'',
     '''',
     ''Use this EXACT format:'',
     '''',
     ''## Goal'',
     ''[Preserve existing goals, add new ones if the task expanded]'',
     '''',
     ''## Constraints & Preferences'',
     ''- [Preserve existing, add new ones discovered]'',
     '''',
     ''## Progress'',
     ''### Done'',
     ''- [x] [Include previously done items AND newly completed items]'',
     '''',
     ''### In Progress'',
     ''- [ ] [Current work - update based on progress]'',
     '''',
     ''### Blocked'',
     ''- [Current blockers - remove if resolved]'',
     '''',
     ''## Key Decisions'',
     ''- **[Decision]**: [Brief rationale] (preserve all previous, add new)'',
     '''',
     ''## Next Steps'',
     ''1. [Update based on current state]'',
     '''',
     ''## Critical Context'',
     ''- [Preserve important context, add new if needed]'',
     '''',
     ''Keep each section concise. Preserve exact file paths, function names, and error messages.'']\<close>

definition TURN_PREFIX_SUMMARIZATION_PROMPT :: js_string where
  \<open>TURN_PREFIX_SUMMARIZATION_PROMPT = js_lines [
     ''This is the PREFIX of a turn that was too large to keep. The SUFFIX (recent work) is retained.'',
     '''',
     ''Summarize the prefix to provide context for the retained suffix:'',
     '''',
     ''## Original Request'',
     ''[What did the user ask for in this turn?]'',
     '''',
     ''## Early Progress'',
     ''- [Key decisions and work done in the prefix]'',
     '''',
     ''## Context for Suffix'',
     ''- [Information needed to understand the retained recent work]'',
     '''',
     ''Be concise. Focus on what's needed to understand the kept suffix.'']\<close>

definition BRANCH_SUMMARY_PREAMBLE :: js_string where
  \<open>BRANCH_SUMMARY_PREAMBLE = js_lines [
     ''The user explored a different conversation branch before returning here.'',
     ''Summary of that exploration:'',
     '''',
     '''']\<close>

definition BRANCH_SUMMARY_PROMPT :: js_string where
  \<open>BRANCH_SUMMARY_PROMPT = js_lines [
     ''Create a structured summary of this conversation branch for context when returning later.'',
     '''',
     ''Use this EXACT format:'',
     '''',
     ''## Goal'',
     ''[What was the user trying to accomplish in this branch?]'',
     '''',
     ''## Constraints & Preferences'',
     ''- [Any constraints, preferences, or requirements mentioned]'',
     ''- [Or "(none)" if none were mentioned]'',
     '''',
     ''## Progress'',
     ''### Done'',
     ''- [x] [Completed tasks/changes]'',
     '''',
     ''### In Progress'',
     ''- [ ] [Work that was started but not finished]'',
     '''',
     ''### Blocked'',
     ''- [Issues preventing progress, if any]'',
     '''',
     ''## Key Decisions'',
     ''- **[Decision]**: [Brief rationale]'',
     '''',
     ''## Next Steps'',
     ''1. [What should happen next to continue this work]'',
     '''',
     ''Keep each section concise. Preserve exact file paths, function names, and error messages.'']\<close>

record llm_model =
  contextWindow :: nat
  maxTokens :: nat
  reasoning :: bool

record llm_request =
  systemPrompt :: js_string
  promptText :: js_string
  requestMaxTokens :: nat
  requestReasoning :: "js_string option"

text \<open>\<open>models.completeSimple\<close> with the retries around it: what the provider answers to a request, call by
  call, whether a backoff is interrupted, and the policy.\<close>

record llm_provider =
  answers :: "llm_request \<Rightarrow> nat \<Rightarrow> assistant_message"
  aborts :: "nat \<Rightarrow> bool"
  policy :: "retry_policy option"

definition completeSimpleWithRetries :: "llm_provider \<Rightarrow> llm_request \<Rightarrow> assistant_message" where
  "completeSimpleWithRetries p request = snd (retryAssistantCall (answers p request) (policy p) (aborts p))"

datatype summary_error =
    SummaryAborted js_string
  | SummarizationFailed js_string
  | InvalidCompactionSession

definition conversation_prompt :: "js_string \<Rightarrow> js_string" where
  "conversation_prompt conversationText =
     js ''<conversation>'' @ [newline] @ conversationText @ [newline] @ js ''</conversation>'' @ [newline, newline]"

text \<open>\<open>Math.min(limit, model.maxTokens > 0 ? model.maxTokens : Infinity)\<close>.\<close>

definition bounded_tokens :: "nat \<Rightarrow> llm_model \<Rightarrow> nat" where
  "bounded_tokens tokens m = (if maxTokens m > 0 then min tokens (maxTokens m) else tokens)"

definition request_reasoning :: "llm_model \<Rightarrow> js_string option \<Rightarrow> js_string option" where
  "request_reasoning m level =
     (case level of
        None \<Rightarrow> None
      | Some l \<Rightarrow> if reasoning m \<and> l \<noteq> [] \<and> l \<noteq> js ''off'' then Some l else None)"

text \<open>How a response is read: the text and usage of an answer, or the error it stands for.\<close>

definition summary_response ::
  "js_string \<Rightarrow> js_string \<Rightarrow> assistant_message \<Rightarrow> summary_error + (js_string \<times> usage option)" where
  "summary_response aborted failed response =
     (if a_stopReason response = Aborted then Inl (SummaryAborted (or_else (a_errorMessage response) aborted))
      else if a_stopReason response = Error
        then Inl (SummarizationFailed (failed @ or_else (a_errorMessage response) (js ''Unknown error'')))
      else Inr (assistantText [newline] (a_content response), a_usage response))"

end
