(* ===== verification/Compaction.thy ===== *)
theory Compaction
  imports Summary Session
begin

text \<open>
  \<^verbatim>\<open>packages/agent/src/harness/compaction/compaction.ts\<close>: the token estimate, the choice of the cut point,
  the preparation of a compaction and its run. An index \<open>-1\<close> for ``none'' is \<open>None\<close> here; token counts
  are natural numbers, and \<open>Math.floor(0.8 * n)\<close> is \<open>4 * n div 5\<close>. The shared parameters are those of
  \<open>Summary\<close> and \<open>getTime\<close>.
\<close>

subsection \<open>Messages of entries\<close>

fun entry_message :: "(js_string \<Rightarrow> int) \<Rightarrow> js_string \<Rightarrow> entry_body \<Rightarrow> agent_message option" where
  "entry_message getTime t (MessageBody m) = Some m"
| "entry_message getTime t (CustomMessageBody c content display details) =
     Some (createCustomMessage getTime c content display details t)"
| "entry_message getTime t (BranchSummary b) =
     Some (createBranchSummaryMessage getTime (s_summary b) (fromId b) t)"
| "entry_message getTime t (Compaction c) =
     Some (createCompactionSummaryMessage getTime (c_summary c) (c_tokensBefore c) t)"
| "entry_message getTime t _ = None"

definition getMessageFromEntry :: "(js_string \<Rightarrow> int) \<Rightarrow> tree_entry \<Rightarrow> agent_message option" where
  "getMessageFromEntry getTime e = entry_message getTime (timestamp e) (body e)"

definition getMessageFromEntryForCompaction :: "(js_string \<Rightarrow> int) \<Rightarrow> tree_entry \<Rightarrow> agent_message option" where
  "getMessageFromEntryForCompaction getTime e =
     (if entry_type e = TCompaction then None else getMessageFromEntry getTime e)"

definition entries_messages :: "(js_string \<Rightarrow> int) \<Rightarrow> tree_entry list \<Rightarrow> agent_message list" where
  "entries_messages getTime es = List.map_filter (getMessageFromEntryForCompaction getTime) es"

definition combineUsage :: "usage \<Rightarrow> usage \<Rightarrow> usage" where
  "combineUsage first second =
     (let both = (\<lambda>a b. if a \<noteq> None \<or> b \<noteq> None
                          then Some (case_option 0 id a + case_option 0 id b) else None)
      in \<lparr>u_input = u_input first + u_input second,
          u_output = u_output first + u_output second,
          u_cacheRead = u_cacheRead first + u_cacheRead second,
          u_cacheWrite = u_cacheWrite first + u_cacheWrite second,
          u_cacheWrite1h = both (u_cacheWrite1h first) (u_cacheWrite1h second),
          u_reasoning = both (u_reasoning first) (u_reasoning second),
          u_totalTokens = u_totalTokens first + u_totalTokens second,
          u_cost = \<lparr>cost_input = num_add (cost_input (u_cost first)) (cost_input (u_cost second)),
             cost_output = num_add (cost_output (u_cost first)) (cost_output (u_cost second)),
             cost_cacheRead = num_add (cost_cacheRead (u_cost first)) (cost_cacheRead (u_cost second)),
             cost_cacheWrite = num_add (cost_cacheWrite (u_cost first)) (cost_cacheWrite (u_cost second)),
             cost_total = num_add (cost_total (u_cost first)) (cost_total (u_cost second))\<rparr>\<rparr>)"

record compaction_settings =
  enabled :: bool
  reserveTokens :: nat
  keepRecentTokens :: nat

definition DEFAULT_COMPACTION_SETTINGS :: compaction_settings where
  "DEFAULT_COMPACTION_SETTINGS = \<lparr>enabled = True, reserveTokens = 16384, keepRecentTokens = 20000\<rparr>"

subsection \<open>Token estimates\<close>

definition calculateContextTokens :: "usage \<Rightarrow> nat" where
  "calculateContextTokens u =
     (if u_totalTokens u \<noteq> 0 then u_totalTokens u
      else u_input u + u_output u + u_cacheRead u + u_cacheWrite u)"

definition getAssistantUsage :: "agent_message \<Rightarrow> usage option" where
  "getAssistantUsage m =
     (case m of
        AssistantMessage a \<Rightarrow>
          (case a_usage a of
             None \<Rightarrow> None
           | Some u \<Rightarrow>
               if a_stopReason a \<noteq> Aborted \<and> a_stopReason a \<noteq> Error \<and> calculateContextTokens u > 0
               then Some u else None)
      | _ \<Rightarrow> None)"

definition getLastAssistantUsage :: "tree_entry list \<Rightarrow> usage option" where
  "getLastAssistantUsage es =
     (case List.map_filter (\<lambda>e. case body e of MessageBody m \<Rightarrow> getAssistantUsage m | _ \<Rightarrow> None) (rev es) of
        [] \<Rightarrow> None
      | u # _ \<Rightarrow> Some u)"

fun last_usage_from :: "nat \<Rightarrow> agent_message list \<Rightarrow> (usage \<times> nat) option" where
  "last_usage_from i [] = None"
| "last_usage_from i (m # ms) =
     (case last_usage_from (i + 1) ms of
        Some r \<Rightarrow> Some r
      | None \<Rightarrow> map_option (\<lambda>u. (u, i)) (getAssistantUsage m))"

definition getLastAssistantUsageInfo :: "agent_message list \<Rightarrow> (usage \<times> nat) option" where
  "getLastAssistantUsageInfo ms = last_usage_from 0 ms"

definition ESTIMATED_IMAGE_CHARS :: nat where "ESTIMATED_IMAGE_CHARS = 4800"

fun estimateTextAndImageContentChars :: "message_content \<Rightarrow> nat" where
  "estimateTextAndImageContentChars (ContentString s) = length s"
| "estimateTextAndImageContentChars (ContentBlocks bs) =
     sum_list (map (\<lambda>b. case b of TextContent t \<Rightarrow> length t | ImageContent _ _ \<Rightarrow> ESTIMATED_IMAGE_CHARS) bs)"

definition block_chars :: "(js_value \<Rightarrow> js_string) \<Rightarrow> assistant_block \<Rightarrow> nat" where
  "block_chars stringify b =
     (case b of
        TextBlock t \<Rightarrow> length t
      | ThinkingBlock t \<Rightarrow> length t
      | ToolCall _ tool args \<Rightarrow> length tool + length (stringify (JObject plain_object args)))"

fun message_chars :: "(js_value \<Rightarrow> js_string) \<Rightarrow> agent_message \<Rightarrow> nat" where
  "message_chars stringify (UserMessage content _) = estimateTextAndImageContentChars content"
| "message_chars stringify (AssistantMessage a) = sum_list (map (block_chars stringify) (a_content a))"
| "message_chars stringify (CustomMessage _ content _ _ _) = estimateTextAndImageContentChars content"
| "message_chars stringify (ToolResultMessage _ _ content _ _) =
     estimateTextAndImageContentChars (ContentBlocks content)"
| "message_chars stringify (BashExecutionMessage b) = length (command b) + length (b_output b)"
| "message_chars stringify (BranchSummaryMessage summary _ _) = length summary"
| "message_chars stringify (CompactionSummaryMessage summary _ _) = length summary"

text \<open>\<open>Math.ceil(chars / 4)\<close>.\<close>

definition estimateTokens :: "(js_value \<Rightarrow> js_string) \<Rightarrow> agent_message \<Rightarrow> nat" where
  "estimateTokens stringify m = (message_chars stringify m + 3) div 4"

record context_usage_estimate =
  e_tokens :: nat
  e_usageTokens :: nat
  e_trailingTokens :: nat
  e_lastUsageIndex :: "nat option"

definition estimateContextTokens :: "(js_value \<Rightarrow> js_string) \<Rightarrow> agent_message list \<Rightarrow> context_usage_estimate" where
  "estimateContextTokens stringify ms =
     (case getLastAssistantUsageInfo ms of
        None \<Rightarrow>
          let estimated = sum_list (map (estimateTokens stringify) ms)
          in \<lparr>e_tokens = estimated, e_usageTokens = 0, e_trailingTokens = estimated, e_lastUsageIndex = None\<rparr>
      | Some (u, i) \<Rightarrow>
          let usageTokens = calculateContextTokens u;
              trailing = sum_list (map (estimateTokens stringify) (drop (i + 1) ms))
          in \<lparr>e_tokens = usageTokens + trailing, e_usageTokens = usageTokens, e_trailingTokens = trailing,
              e_lastUsageIndex = Some i\<rparr>)"

definition shouldCompact :: "nat \<Rightarrow> nat \<Rightarrow> compaction_settings \<Rightarrow> bool" where
  "shouldCompact contextTokens window settings \<longleftrightarrow>
     enabled settings \<and> int contextTokens > int window - int (reserveTokens settings)"

subsection \<open>Cut points\<close>

definition valid_cut :: "tree_entry \<Rightarrow> bool" where
  "valid_cut e =
     (case body e of
        MessageBody m \<Rightarrow> message_role m \<noteq> ToolResult
      | BranchSummary _ \<Rightarrow> True
      | CustomMessageBody _ _ _ _ \<Rightarrow> True
      | _ \<Rightarrow> False)"

definition findValidCutPoints :: "tree_entry list \<Rightarrow> nat \<Rightarrow> nat \<Rightarrow> nat list" where
  "findValidCutPoints es startIndex endIndex = filter (\<lambda>i. valid_cut (es ! i)) [startIndex..<endIndex]"

definition starts_turn :: "tree_entry \<Rightarrow> bool" where
  "starts_turn e =
     (case body e of
        BranchSummary _ \<Rightarrow> True
      | CustomMessageBody _ _ _ _ \<Rightarrow> True
      | MessageBody m \<Rightarrow> message_role m \<in> {User, BashExecution}
      | _ \<Rightarrow> False)"

definition findTurnStartIndex :: "tree_entry list \<Rightarrow> nat \<Rightarrow> nat \<Rightarrow> nat option" where
  "findTurnStartIndex es entryIndex startIndex =
     List.find (\<lambda>i. starts_turn (es ! i)) (rev [startIndex..<entryIndex + 1])"

record cut_point_result =
  firstKeptEntryIndex :: nat
  turnStartIndex :: "nat option"
  isSplitTurn :: bool

text \<open>The loop from the newest entry backwards: \<open>Some i\<close> where the budget is reached.\<close>

fun budget_index ::
  "(js_value \<Rightarrow> js_string) \<Rightarrow> tree_entry list \<Rightarrow> nat \<Rightarrow> nat \<Rightarrow> nat list \<Rightarrow> nat option" where
  "budget_index stringify es keep accumulated [] = None"
| "budget_index stringify es keep accumulated (i # is) =
     (case body (es ! i) of
        MessageBody m \<Rightarrow>
          let accumulated' = accumulated + estimateTokens stringify m
          in if accumulated' \<ge> keep then Some i else budget_index stringify es keep accumulated' is
      | _ \<Rightarrow> budget_index stringify es keep accumulated is)"

text \<open>The loop that takes entries without a message before the cut along.\<close>

fun settle_cut :: "tree_entry list \<Rightarrow> nat \<Rightarrow> nat \<Rightarrow> nat" where
  "settle_cut es startIndex 0 = 0"
| "settle_cut es startIndex (Suc i) =
     (if Suc i > startIndex \<and> entry_type (es ! i) \<notin> {TCompaction, TMessage}
      then settle_cut es startIndex i else Suc i)"

definition findCutPoint ::
  "(js_value \<Rightarrow> js_string) \<Rightarrow> tree_entry list \<Rightarrow> nat \<Rightarrow> nat \<Rightarrow> nat \<Rightarrow> cut_point_result" where
  "findCutPoint stringify es startIndex endIndex keep =
     (let cutPoints = findValidCutPoints es startIndex endIndex in
      if cutPoints = []
      then \<lparr>firstKeptEntryIndex = startIndex, turnStartIndex = None, isSplitTurn = False\<rparr>
      else
        let chosen = (case budget_index stringify es keep 0 (rev [startIndex..<endIndex]) of
                        None \<Rightarrow> hd cutPoints
                      | Some i \<Rightarrow> (case List.find (\<lambda>c. c \<ge> i) cutPoints of None \<Rightarrow> hd cutPoints | Some c \<Rightarrow> c));
            cutIndex = settle_cut es startIndex chosen;
            isUserMessage = (case body (es ! cutIndex) of MessageBody m \<Rightarrow> message_role m = User | _ \<Rightarrow> False);
            turnStart = (if isUserMessage then None else findTurnStartIndex es cutIndex startIndex)
        in \<lparr>firstKeptEntryIndex = cutIndex, turnStartIndex = turnStart,
            isSplitTurn = (\<not> isUserMessage \<and> turnStart \<noteq> None)\<rparr>)"

subsection \<open>Preparing a compaction\<close>

record compaction_preparation =
  p_firstKeptEntryId :: js_string
  messagesToSummarize :: "agent_message list"
  turnPrefixMessages :: "agent_message list"
  p_retainedTail :: "agent_message list"
  p_isSplitTurn :: bool
  p_tokensBefore :: nat
  previousSummary :: "js_string option"
  fileOps :: file_operations
  settings :: compaction_settings

definition extractFileOperations ::
  "agent_message list \<Rightarrow> compaction_data option \<Rightarrow> file_operations" where
  "extractFileOperations ms prevCompaction =
     fold extractFileOpsFromMessage ms
       (case prevCompaction of
          None \<Rightarrow> createFileOps
        | Some c \<Rightarrow> add_details (c_fromHook c) (c_details c) createFileOps)"

fun last_compaction_at :: "nat \<Rightarrow> tree_entry list \<Rightarrow> (nat \<times> compaction_data) option" where
  "last_compaction_at i [] = None"
| "last_compaction_at i (e # es) =
     (case last_compaction_at (i + 1) es of
        Some r \<Rightarrow> Some r
      | None \<Rightarrow> (case body e of Compaction c \<Rightarrow> Some (i, c) | _ \<Rightarrow> None))"

definition index_of_id :: "js_string \<Rightarrow> tree_entry list \<Rightarrow> nat option" where
  "index_of_id k es =
     (let i = length (takeWhile (\<lambda>e. eid e \<noteq> k) es) in if i < length es then Some i else None)"

definition boundary_start :: "tree_entry list \<Rightarrow> (nat \<times> compaction_data) option \<Rightarrow> nat" where
  "boundary_start path prev =
     (case prev of
        None \<Rightarrow> 0
      | Some (i, c) \<Rightarrow>
          (case firstKeptEntryId c of
             None \<Rightarrow> i + 1
           | Some k \<Rightarrow> if k = [] then i + 1
               else (case index_of_id k path of None \<Rightarrow> i + 1 | Some j \<Rightarrow> j)))"

definition segment :: "nat \<Rightarrow> nat \<Rightarrow> 'a list \<Rightarrow> 'a list" where
  "segment a b xs = take (b - a) (drop a xs)"

definition prepareCompaction ::
  "(js_value \<Rightarrow> js_string) \<Rightarrow> (js_string \<Rightarrow> int) \<Rightarrow> tree_entry list \<Rightarrow> compaction_settings
     \<Rightarrow> summary_error + compaction_preparation option" where
  "prepareCompaction stringify getTime path stt =
     (if path = [] \<or> entry_type (last path) = TCompaction then Inr None
      else
        let prev = last_compaction_at 0 path;
            boundaryStart = boundary_start path prev;
            tokensBefore = e_tokens (estimateContextTokens stringify (messages (buildSessionContext getTime no_options path)));
            cut = findCutPoint stringify path boundaryStart (length path) (keepRecentTokens stt);
            first = firstKeptEntryIndex cut
        in if first \<ge> length path \<or> eid (path ! first) = [] then Inl InvalidCompactionSession
           else
             let historyEnd = (if isSplitTurn cut then the (turnStartIndex cut) else first);
                 toSummarize = entries_messages getTime (segment boundaryStart historyEnd path);
                 turnPrefix = (if isSplitTurn cut
                   then entries_messages getTime (segment (the (turnStartIndex cut)) first path) else []);
                 kept = entries_messages getTime (segment first (length path) path);
                 ops = extractFileOperations toSummarize (map_option snd prev);
                 ops' = (if isSplitTurn cut then fold extractFileOpsFromMessage turnPrefix ops else ops)
             in Inr (Some \<lparr>p_firstKeptEntryId = eid (path ! first), messagesToSummarize = toSummarize,
                  turnPrefixMessages = turnPrefix, p_retainedTail = kept, p_isSplitTurn = isSplitTurn cut,
                  p_tokensBefore = tokensBefore, previousSummary = map_option (c_summary \<circ> snd) prev,
                  fileOps = ops', settings = stt\<rparr>))"

subsection \<open>Summaries\<close>

definition base_prompt :: "js_string option \<Rightarrow> js_string option \<Rightarrow> js_string" where
  "base_prompt customInstructions previous =
     (let prompt = (if or_else previous [] \<noteq> [] then UPDATE_SUMMARIZATION_PROMPT else SUMMARIZATION_PROMPT)
      in if or_else customInstructions [] \<noteq> []
         then prompt @ [newline, newline] @ js ''Additional focus: '' @ or_else customInstructions [] else prompt)"

definition generateSummaryWithUsage ::
  "(js_value \<Rightarrow> js_string) \<Rightarrow> llm_provider \<Rightarrow> llm_model \<Rightarrow> nat \<Rightarrow> js_string option \<Rightarrow> js_string option
     \<Rightarrow> js_string option \<Rightarrow> agent_message list \<Rightarrow> summary_error + (js_string \<times> usage option)" where
  "generateSummaryWithUsage stringify models m reserve customInstructions previous level currentMessages =
     (let conversationText = serializeConversation stringify (convertToLlm currentMessages);
          prior = or_else previous [];
          prompt = conversation_prompt conversationText
            @ (if prior \<noteq> [] then js ''<previous-summary>'' @ [newline] @ prior @ [newline]
                 @ js ''</previous-summary>'' @ [newline, newline] else [])
            @ base_prompt customInstructions previous
      in summary_response (js ''Summarization aborted'') (js ''Summarization failed: '')
           (completeSimpleWithRetries models
              \<lparr>systemPrompt = SUMMARIZATION_SYSTEM_PROMPT, promptText = prompt,
               requestMaxTokens = bounded_tokens (4 * reserve div 5) m, requestReasoning = request_reasoning m level\<rparr>))"

definition generateSummary ::
  "(js_value \<Rightarrow> js_string) \<Rightarrow> llm_provider \<Rightarrow> llm_model \<Rightarrow> nat \<Rightarrow> js_string option \<Rightarrow> js_string option
     \<Rightarrow> js_string option \<Rightarrow> agent_message list \<Rightarrow> summary_error + js_string" where
  "generateSummary stringify models m reserve customInstructions previous level currentMessages =
     map_sum id fst (generateSummaryWithUsage stringify models m reserve customInstructions previous level currentMessages)"

definition generateTurnPrefixSummary ::
  "(js_value \<Rightarrow> js_string) \<Rightarrow> llm_provider \<Rightarrow> llm_model \<Rightarrow> nat \<Rightarrow> js_string option \<Rightarrow> agent_message list
     \<Rightarrow> summary_error + (js_string \<times> usage option)" where
  "generateTurnPrefixSummary stringify models m reserve level ms =
     summary_response (js ''Turn prefix summarization aborted'') (js ''Turn prefix summarization failed: '')
       (completeSimpleWithRetries models
          \<lparr>systemPrompt = SUMMARIZATION_SYSTEM_PROMPT,
           promptText = conversation_prompt (serializeConversation stringify (convertToLlm ms))
             @ TURN_PREFIX_SUMMARIZATION_PROMPT,
           requestMaxTokens = bounded_tokens (reserve div 2) m, requestReasoning = request_reasoning m level\<rparr>)"

record compaction_result =
  r_summary :: js_string
  r_firstKeptEntryId :: js_string
  r_tokensBefore :: nat
  r_usage :: "usage option"
  r_retainedTail :: "agent_message list"
  r_details :: file_details

definition combined_usage :: "usage option \<Rightarrow> usage option \<Rightarrow> usage option" where
  "combined_usage history prefix =
     (case (history, prefix) of (Some a, Some b) \<Rightarrow> Some (combineUsage a b) | _ \<Rightarrow> prefix)"

definition split_turn_summary :: "js_string \<Rightarrow> js_string \<Rightarrow> js_string" where
  "split_turn_summary historyText prefixText =
     historyText @ [newline, newline] @ js ''---'' @ [newline, newline]
       @ js ''**Turn Context (split turn):**'' @ [newline, newline] @ prefixText"

definition compact_summary ::
  "(js_value \<Rightarrow> js_string) \<Rightarrow> llm_provider \<Rightarrow> llm_model \<Rightarrow> js_string option \<Rightarrow> js_string option
     \<Rightarrow> compaction_preparation \<Rightarrow> summary_error + (js_string \<times> usage option)" where
  "compact_summary stringify models m customInstructions level p =
     (let summarize = generateSummaryWithUsage stringify models m (reserveTokens (settings p)) customInstructions
            (previousSummary p) level (messagesToSummarize p)
      in if p_isSplitTurn p \<and> turnPrefixMessages p \<noteq> []
         then and_then (if messagesToSummarize p \<noteq> [] then summarize else Inr (js ''No prior history.'', None))
                (\<lambda>(historyText, historyUsage).
              and_then (generateTurnPrefixSummary stringify models m (reserveTokens (settings p)) level
                  (turnPrefixMessages p)) (\<lambda>(prefixText, prefixUsage).
              Inr (split_turn_summary historyText prefixText, combined_usage historyUsage prefixUsage)))
         else summarize)"

definition compact ::
  "(js_value \<Rightarrow> js_string) \<Rightarrow> llm_provider \<Rightarrow> llm_model \<Rightarrow> js_string option \<Rightarrow> js_string option
     \<Rightarrow> compaction_preparation \<Rightarrow> summary_error + compaction_result" where
  "compact stringify models m customInstructions level p =
     (if p_firstKeptEntryId p = [] then Inl InvalidCompactionSession
      else and_then (compact_summary stringify models m customInstructions level p) (\<lambda>(summary, u).
        let (readFiles, modifiedFiles) = computeFileLists (fileOps p)
        in Inr \<lparr>r_summary = summary @ formatFileOperations readFiles modifiedFiles,
             r_firstKeptEntryId = p_firstKeptEntryId p, r_tokensBefore = p_tokensBefore p, r_usage = u,
             r_retainedTail = p_retainedTail p,
             r_details = \<lparr>d_readFiles = Some readFiles, d_modifiedFiles = Some modifiedFiles\<rparr>\<rparr>))"

end
