(* ===== verification/CompactionFacts.thy ===== *)
theory CompactionFacts
  imports Compaction
begin

text \<open>
  What the preparation of a compaction guarantees: it divides the messages since the last boundary into
  the summarised history, the prefix of a split turn and the retained tail without losing or repeating
  one; the tail never begins with a tool result and keeps to the token budget up to its first message;
  the file lists of the result are those of the tool calls.
\<close>

subsection \<open>Ranges and message lists\<close>

lemma segment_append: "a \<le> b \<Longrightarrow> b \<le> c \<Longrightarrow> segment a b xs @ segment b c xs = segment a c xs"
proof -
  assume "a \<le> b" "b \<le> c"
  then have "take (c - a) (drop a xs) = take (b - a) (drop a xs) @ take (c - b) (drop (b - a) (drop a xs))"
    using take_add [of "b - a" "c - b" "drop a xs"] by simp
  with \<open>a \<le> b\<close> show ?thesis by (simp add: segment_def)
qed

lemma segment_Suc: "a \<le> b \<Longrightarrow> b < length xs \<Longrightarrow> segment a (Suc b) xs = segment a b xs @ [xs ! b]"
  using segment_append [of a b "Suc b" xs] by (simp add: segment_def flip: Cons_nth_drop_Suc)

lemma segment_to_end [simp]: "segment a (length xs) xs = drop a xs"
  by (simp add: segment_def)

lemma entries_messages_append [simp]:
  "entries_messages getTime (xs @ ys) = entries_messages getTime xs @ entries_messages getTime ys"
  by (simp add: entries_messages_def List.map_filter_def)

lemma entries_messages_Nil [simp]: "entries_messages getTime [] = []"
  by (simp add: entries_messages_def List.map_filter_def)

lemma entries_messages_Cons:
  "entries_messages getTime (e # es) =
     (case getMessageFromEntryForCompaction getTime e of None \<Rightarrow> [] | Some m \<Rightarrow> [m]) @ entries_messages getTime es"
  by (simp add: entries_messages_def List.map_filter_def split: option.split)

lemma entries_messages_segment:
  "a \<le> b \<Longrightarrow> b \<le> c \<Longrightarrow>
     entries_messages getTime (segment a b xs) @ entries_messages getTime (segment b c xs)
       = entries_messages getTime (segment a c xs)"
  by (simp add: segment_append flip: entries_messages_append)

subsection \<open>Where the cut falls\<close>

lemma valid_cut_points:
  "i \<in> set (findValidCutPoints es a b) \<longleftrightarrow> a \<le> i \<and> i < b \<and> valid_cut (es ! i)"
  by (auto simp: findValidCutPoints_def)

lemma settle_cut_bounds: "a \<le> i \<Longrightarrow> a \<le> settle_cut es a i \<and> settle_cut es a i \<le> i"
  by (induction es a i rule: settle_cut.induct) auto

lemma settle_cut_passed:
  "settle_cut es a i \<le> j \<Longrightarrow> j < i \<Longrightarrow> entry_type (es ! j) \<notin> {TCompaction, TMessage}"
proof (induction es a i rule: settle_cut.induct)
  case (2 es a i)
  show ?case
  proof (cases "j = i")
    case True
    with 2(2,3) show ?thesis by (auto split: if_splits)
  next
    case False
    with 2 show ?thesis by (auto split: if_splits)
  qed
qed simp

lemma findTurnStartIndex_bounds: "findTurnStartIndex es i a = Some t \<Longrightarrow> a \<le> t \<and> t \<le> i"
  unfolding findTurnStartIndex_def by (drule find_SomeD) (auto split: if_splits)

text \<open>The cut point before the step back over entries without a message.\<close>

definition chosen_cut :: "(js_value \<Rightarrow> js_string) \<Rightarrow> tree_entry list \<Rightarrow> nat \<Rightarrow> nat \<Rightarrow> nat \<Rightarrow> nat" where
  "chosen_cut stringify es a b keep =
     (let cutPoints = findValidCutPoints es a b in
      case budget_index stringify es keep 0 (rev [a..<b]) of
        None \<Rightarrow> hd cutPoints
      | Some i \<Rightarrow> (case List.find (\<lambda>c. c \<ge> i) cutPoints of None \<Rightarrow> hd cutPoints | Some c \<Rightarrow> c))"

lemma chosen_cut_valid:
  assumes "findValidCutPoints es a b \<noteq> []"
  shows "chosen_cut stringify es a b keep \<in> set (findValidCutPoints es a b)"
  using assms by (auto simp: chosen_cut_def Let_def dest: find_SomeD split: option.split)

lemma findCutPoint_first:
  "firstKeptEntryIndex (findCutPoint stringify es a b keep) =
     (if findValidCutPoints es a b = [] then a else settle_cut es a (chosen_cut stringify es a b keep))"
  by (simp add: findCutPoint_def chosen_cut_def Let_def)

lemma findCutPoint_first_bounds:
  "a \<le> b \<Longrightarrow> a \<le> firstKeptEntryIndex (findCutPoint stringify es a b keep)
     \<and> firstKeptEntryIndex (findCutPoint stringify es a b keep) \<le> b"
  using chosen_cut_valid [of es a b stringify keep] settle_cut_bounds [of a "chosen_cut stringify es a b keep" es]
  by (auto simp: findCutPoint_first valid_cut_points)

lemma findCutPoint_split:
  "isSplitTurn (findCutPoint stringify es a b keep) \<Longrightarrow>
     \<exists>t. turnStartIndex (findCutPoint stringify es a b keep) = Some t \<and> a \<le> t
       \<and> t \<le> firstKeptEntryIndex (findCutPoint stringify es a b keep)"
  by (auto simp: findCutPoint_def Let_def dest: findTurnStartIndex_bounds split: if_splits)

lemma index_of_id_less: "index_of_id k es = Some i \<Longrightarrow> i < length es"
  by (auto simp: index_of_id_def Let_def split: if_splits)

lemma last_compaction_at_bound: "last_compaction_at n es = Some (i, c) \<Longrightarrow> n \<le> i \<and> i < n + length es"
  by (induction n es rule: last_compaction_at.induct) (fastforce split: option.splits entry_body.splits)+

lemma boundary_start_le: "boundary_start path (last_compaction_at 0 path) \<le> length path"
proof (cases "last_compaction_at 0 path")
  case (Some r)
  then obtain i c where r: "r = (i, c)" and "i < length path"
    using last_compaction_at_bound [of 0 path] by (cases r) auto
  with Some show ?thesis
    by (auto simp: boundary_start_def dest: index_of_id_less split: option.split)
qed (simp add: boundary_start_def)


subsection \<open>The division of the messages\<close>

lemma prepareCompaction_SomeE:
  assumes "prepareCompaction stringify getTime path stt = Inr (Some p)"
  obtains start cut where
    "start = boundary_start path (last_compaction_at 0 path)"
    "cut = findCutPoint stringify path start (length path) (keepRecentTokens stt)"
    "path \<noteq> []" "entry_type (last path) \<noteq> TCompaction"
    "firstKeptEntryIndex cut < length path" "eid (path ! firstKeptEntryIndex cut) = p_firstKeptEntryId p"
    "p_isSplitTurn p = isSplitTurn cut" "settings p = stt"
    "messagesToSummarize p = entries_messages getTime
       (segment start (if isSplitTurn cut then the (turnStartIndex cut) else firstKeptEntryIndex cut) path)"
    "turnPrefixMessages p = (if isSplitTurn cut
       then entries_messages getTime (segment (the (turnStartIndex cut)) (firstKeptEntryIndex cut) path) else [])"
    "p_retainedTail p = entries_messages getTime (drop (firstKeptEntryIndex cut) path)"
    "fileOps p = fold extractFileOpsFromMessage (messagesToSummarize p @ turnPrefixMessages p)
       (extractFileOperations [] (map_option snd (last_compaction_at 0 path)))"
proof -
  let ?start = "boundary_start path (last_compaction_at 0 path)"
  let ?cut = "findCutPoint stringify path ?start (length path) (keepRecentTokens stt)"
  show thesis
    using assms by (intro that [of ?start ?cut])
      (auto simp: prepareCompaction_def Let_def extractFileOperations_def segment_def split: if_splits)
qed

lemma prepared_tail:
  assumes "prepareCompaction stringify getTime path stt = Inr (Some p)"
  shows "p_retainedTail p = entries_messages getTime (drop (firstKeptEntryIndex (findCutPoint stringify path
    (boundary_start path (last_compaction_at 0 path)) (length path) (keepRecentTokens stt))) path)"
  using assms by (rule prepareCompaction_SomeE) simp

lemma prepared_partition:
  assumes "prepareCompaction stringify getTime path stt = Inr (Some p)"
  shows "messagesToSummarize p @ turnPrefixMessages p @ p_retainedTail p =
    entries_messages getTime (drop (boundary_start path (last_compaction_at 0 path)) path)"
proof -
  from assms obtain start cut where start: "start = boundary_start path (last_compaction_at 0 path)"
    and cut: "cut = findCutPoint stringify path start (length path) (keepRecentTokens stt)"
    and parts: "messagesToSummarize p = entries_messages getTime
       (segment start (if isSplitTurn cut then the (turnStartIndex cut) else firstKeptEntryIndex cut) path)"
    "turnPrefixMessages p = (if isSplitTurn cut
       then entries_messages getTime (segment (the (turnStartIndex cut)) (firstKeptEntryIndex cut) path) else [])"
    "p_retainedTail p = entries_messages getTime (drop (firstKeptEntryIndex cut) path)"
    by (rule prepareCompaction_SomeE)
  have bounds: "start \<le> firstKeptEntryIndex cut" "firstKeptEntryIndex cut \<le> length path"
    using findCutPoint_first_bounds boundary_start_le start cut by auto
  show ?thesis
  proof (cases "isSplitTurn cut")
    case True
    then obtain t where "turnStartIndex cut = Some t" "start \<le> t" "t \<le> firstKeptEntryIndex cut"
      using findCutPoint_split cut by blast
    with True bounds show ?thesis
      by (simp add: parts entries_messages_segment flip: segment_to_end append_assoc start)
  next
    case False
    with bounds show ?thesis by (simp add: parts entries_messages_segment flip: segment_to_end start)
  qed
qed

subsection \<open>The context a compaction starts from\<close>

text \<open>Entries that are neither a compaction nor an empty branch summary.\<close>

definition plain_entry :: "tree_entry \<Rightarrow> bool" where
  "plain_entry e = (case body e of Compaction _ \<Rightarrow> False | BranchSummary b \<Rightarrow> s_summary b \<noteq> [] | _ \<Rightarrow> True)"

lemma plain_entry_messages:
  "plain_entry e \<Longrightarrow> sessionEntryToContextMessages getTime no_options es i e = entries_messages getTime [e]"
  by (auto simp: plain_entry_def sessionEntryToContextMessages.simps entries_messages_Cons no_options_def
      getMessageFromEntryForCompaction_def getMessageFromEntry_def split: entry_body.splits)

lemma context_messages_entries:
  "list_all plain_entry xs \<Longrightarrow>
     concat (map (\<lambda>(i, e). sessionEntryToContextMessages getTime no_options es i e) (enumerate n xs))
       = entries_messages getTime xs"
  by (induction xs arbitrary: n) (simp_all add: plain_entry_messages flip: entries_messages_append)

lemma plain_no_compaction:
  "list_all plain_entry xs \<Longrightarrow> last_compaction xs = None \<and> last_compaction_at n xs = None"
  by (induction xs arbitrary: n) (auto simp: plain_entry_def split: entry_body.splits)

lemma plain_context:
  "list_all plain_entry path \<Longrightarrow>
     messages (buildSessionContext getTime no_options path) = entries_messages getTime path"
  by (simp add: buildSessionContext_def Let_def buildContextEntries_def defaultContextEntryTransform_def
      plain_no_compaction context_messages_def context_messages_entries)
    (simp add: no_options_def context_messages_entries [unfolded no_options_def])

subsection \<open>A small branch\<close>

text \<open>A request, a call of \<open>read\<close>, its result and an answer, to apply the properties to.\<close>

definition answer :: "assistant_block \<Rightarrow> assistant_message" where
  "answer b = \<lparr>a_content = [b], a_provider = js ''p'', a_model = js ''m'', a_usage = None, a_stopReason = Stop,
     a_errorMessage = None, a_timestamp = 0\<rparr>"

definition sample_entry :: "string \<Rightarrow> entry_body \<Rightarrow> tree_entry" where
  "sample_entry i b = \<lparr>eid = js i, parentId = None, timestamp = js ''t'', body = b\<rparr>"

definition request_body :: entry_body where
  "request_body = MessageBody (UserMessage (ContentString (js ''show f'')) 0)"

definition call_body :: entry_body where
  "call_body = MessageBody (AssistantMessage (answer (ToolCall (js ''c'') (js ''read'') [(js ''path'', JString (js ''f''))])))"

definition result_body :: entry_body where
  "result_body = MessageBody (ToolResultMessage (js ''c'') (js ''read'') [TextContent (js ''text'')] False 0)"

definition answer_body :: entry_body where
  "answer_body = MessageBody (AssistantMessage (answer (TextBlock (js ''done''))))"

definition sample_path :: "tree_entry list" where
  "sample_path = [sample_entry ''e0'' request_body, sample_entry ''e1'' call_body, sample_entry ''e2'' result_body,
     sample_entry ''e3'' answer_body]"

definition tight :: compaction_settings where
  "tight = \<lparr>enabled = True, reserveTokens = 100, keepRecentTokens = 1\<rparr>"

lemmas sample_defs = sample_path_def sample_entry_def request_body_def call_body_def result_body_def
  answer_body_def answer_def tight_def

lemma sample_path_simps:
  "length sample_path = 4" "last sample_path = sample_entry ''e3'' answer_body"
  "last_compaction_at 0 sample_path = None" "list_all plain_entry sample_path"
  "findValidCutPoints sample_path 0 4 = [0, 1, 3]"
  by (simp_all add: sample_defs plain_entry_def findValidCutPoints_def valid_cut_def upt_rec numeral_eq_Suc)

lemma sample_budget: "budget_index (\<lambda>_. []) sample_path (Suc 0) 0 (rev [0..<4]) = Some 3"
proof -
  have "body (sample_path ! 3) = answer_body" by (simp add: sample_path_def sample_entry_def)
  moreover have "rev [0..<4] = [3, 2, 1, 0 :: nat]" by (simp add: upt_rec)
  ultimately show ?thesis
    by (simp add: answer_body_def answer_def estimateTokens_def block_chars_def js_def)
qed

lemma sample_cut: "firstKeptEntryIndex (findCutPoint (\<lambda>_. []) sample_path 0 4 (Suc 0)) = 3"
proof -
  have "chosen_cut (\<lambda>_. []) sample_path 0 4 (Suc 0) = 3"
    by (simp add: chosen_cut_def sample_budget sample_path_simps)
  moreover have "settle_cut sample_path 0 3 = 3" by (simp add: sample_defs numeral_eq_Suc)
  ultimately show ?thesis by (simp add: findCutPoint_first sample_path_simps)
qed

lemma sample_prepared:
  "\<exists>p. prepareCompaction (\<lambda>_. []) (\<lambda>_. 0) sample_path tight = Inr (Some p)"
proof -
  have "sample_path \<noteq> []" "entry_type (last sample_path) \<noteq> TCompaction" "eid (sample_path ! 3) \<noteq> []"
    by (simp_all add: sample_defs js_def numeral_eq_Suc)
  then show ?thesis
    by (simp add: prepareCompaction_def Let_def sample_path_simps(1,3) boundary_start_def tight_def
        sample_cut)
qed

text \<open>Property C18. When a compaction is prepared, the messages since the boundary of the previous
  one are divided, in order and without loss or repetition, into the history to summarise, the prefix
  of a split turn and the retained tail; and when no compaction precedes, these are exactly the messages
  the model was being sent (branch summaries being non-empty).\<close>

theorem prepareCompaction_conserves:
  assumes "prepareCompaction stringify getTime path stt = Inr (Some p)"
  shows "messagesToSummarize p @ turnPrefixMessages p @ p_retainedTail p =
      entries_messages getTime (drop (boundary_start path (last_compaction_at 0 path)) path)
    \<and> (list_all plain_entry path \<longrightarrow>
         messagesToSummarize p @ turnPrefixMessages p @ p_retainedTail p =
         messages (buildSessionContext getTime no_options path))"
  using prepared_partition [OF assms] plain_context by (simp add: plain_no_compaction boundary_start_def)


theorem prepareCompaction_conserves_witness:
  "\<exists>p. prepareCompaction (\<lambda>_. []) (\<lambda>_. 0) sample_path tight = Inr (Some p) \<and>
     messagesToSummarize p @ turnPrefixMessages p @ p_retainedTail p =
       messages (buildSessionContext (\<lambda>_. 0) no_options sample_path)"
proof -
  from sample_prepared obtain p where p: "prepareCompaction (\<lambda>_. []) (\<lambda>_. 0) sample_path tight = Inr (Some p)" ..
  from prepareCompaction_conserves [OF p] sample_path_simps(4) p show ?thesis by auto
qed

subsection \<open>The retained tail\<close>

lemma valid_cut_message:
  "valid_cut e \<Longrightarrow> \<exists>m. getMessageFromEntryForCompaction getTime e = Some m \<and> message_role m \<noteq> ToolResult"
  by (auto simp: valid_cut_def getMessageFromEntryForCompaction_def getMessageFromEntry_def
      createCustomMessage_def createBranchSummaryMessage_def split: entry_body.splits)

lemma other_entry_message:
  "entry_type e \<notin> {TCompaction, TMessage} \<Longrightarrow> getMessageFromEntryForCompaction getTime e = Some m \<Longrightarrow>
     message_role m \<noteq> ToolResult"
  by (auto simp: getMessageFromEntryForCompaction_def getMessageFromEntry_def
      createCustomMessage_def createBranchSummaryMessage_def elim: entry_message.elims)

text \<open>From an entry on that is a valid cut point, or that is followed by one with only entries without a
  stored message between, the messages do not begin with a tool result.\<close>

lemma tail_starts_well:
  "i \<le> c \<Longrightarrow> c < length es \<Longrightarrow> valid_cut (es ! c) \<Longrightarrow>
     (\<And>j. i \<le> j \<Longrightarrow> j < c \<Longrightarrow> entry_type (es ! j) \<notin> {TCompaction, TMessage}) \<Longrightarrow>
     \<exists>m ms. entries_messages getTime (drop i es) = m # ms \<and> message_role m \<noteq> ToolResult"
proof (induction "c - i" arbitrary: i)
  case 0
  then have "drop i es = es ! c # drop (Suc c) es" by (simp add: Cons_nth_drop_Suc)
  with valid_cut_message [OF 0(4), of getTime] show ?case by (auto simp: entries_messages_Cons)
next
  case (Suc d)
  from Suc(2,4) have es: "drop i es = es ! i # drop (Suc i) es" by (simp add: Cons_nth_drop_Suc)
  have "\<exists>m ms. entries_messages getTime (drop (Suc i) es) = m # ms \<and> message_role m \<noteq> ToolResult"
    using Suc by (intro Suc(1)) auto
  moreover have "entry_type (es ! i) \<notin> {TCompaction, TMessage}" using Suc(2,6) by auto
  ultimately show ?case
    using other_entry_message [of "es ! i" getTime] by (auto simp: es entries_messages_Cons split: option.split)
qed

text \<open>The retained tail of a prepared compaction begins with a message that is not a tool
  result (whose call would be missing from what the model is sent), whenever there is an entry to cut
  at.\<close>

theorem retainedTail_starts_well:
  assumes "prepareCompaction stringify getTime path stt = Inr (Some p)"
    and "findValidCutPoints path (boundary_start path (last_compaction_at 0 path)) (length path) \<noteq> []"
  shows "p_retainedTail p \<noteq> [] \<and> message_role (hd (p_retainedTail p)) \<noteq> ToolResult"
proof -
  let ?start = "boundary_start path (last_compaction_at 0 path)"
  let ?c = "chosen_cut stringify path ?start (length path) (keepRecentTokens stt)"
  have "valid_cut (path ! ?c)" "?c < length path" "?start \<le> ?c"
    using chosen_cut_valid [OF assms(2)] by (auto simp: valid_cut_points)
  then have "\<exists>m ms. entries_messages getTime (drop (settle_cut path ?start ?c) path) = m # ms
      \<and> message_role m \<noteq> ToolResult"
    using settle_cut_bounds [of ?start ?c path] settle_cut_passed [of path ?start ?c]
    by (intro tail_starts_well [where c = ?c]) simp_all
  moreover have "p_retainedTail p = entries_messages getTime (drop (settle_cut path ?start ?c) path)"
    using prepared_tail [OF assms(1)] assms(2) by (simp add: findCutPoint_first)
  ultimately show ?thesis by auto
qed

theorem retainedTail_starts_well_witness:
  "\<exists>p. prepareCompaction (\<lambda>_. []) (\<lambda>_. 0) sample_path tight = Inr (Some p) \<and>
     message_role (hd (p_retainedTail p)) \<noteq> ToolResult"
proof -
  from sample_prepared obtain p where p: "prepareCompaction (\<lambda>_. []) (\<lambda>_. 0) sample_path tight = Inr (Some p)" ..
  have "findValidCutPoints sample_path (boundary_start sample_path (last_compaction_at 0 sample_path))
      (length sample_path) \<noteq> []"
    by (simp add: sample_path_simps boundary_start_def)
  from retainedTail_starts_well [OF p this] p show ?thesis by auto
qed

subsection \<open>The token budget\<close>

definition stored_messages :: "tree_entry list \<Rightarrow> agent_message list" where
  "stored_messages es = List.map_filter (\<lambda>e. case body e of MessageBody m \<Rightarrow> Some m | _ \<Rightarrow> None) es"

abbreviation tokens_of :: "(js_value \<Rightarrow> js_string) \<Rightarrow> agent_message list \<Rightarrow> nat" where
  "tokens_of stringify ms \<equiv> sum_list (map (estimateTokens stringify) ms)"

lemma stored_messages_Cons:
  "stored_messages (e # es) = (case body e of MessageBody m \<Rightarrow> [m] | _ \<Rightarrow> []) @ stored_messages es"
  by (simp add: stored_messages_def List.map_filter_def split: entry_body.split)

lemma stored_messages_simps [simp]:
  "stored_messages [] = []" "stored_messages (xs @ ys) = stored_messages xs @ stored_messages ys"
  by (simp_all add: stored_messages_def List.map_filter_def)

text \<open>The loop over the entries from the end stops at the first one where the messages from it on
  reach the budget.\<close>

lemma budget_index_spec:
  assumes "b \<le> length es" "acc < keep"
  shows "case budget_index stringify es keep acc (rev [a..<b]) of
      None \<Rightarrow> acc + tokens_of stringify (stored_messages (segment a b es)) < keep
    | Some i \<Rightarrow> a \<le> i \<and> i < b \<and> (\<exists>m. body (es ! i) = MessageBody m)
        \<and> acc + tokens_of stringify (stored_messages (segment (Suc i) b es)) < keep"
  using assms
proof (induction b arbitrary: acc)
  case (Suc b)
  have step: "segment i (Suc b) es = segment i b es @ [es ! b]" if "i \<le> b" for i
    using that Suc.prems(1) by (intro segment_Suc) simp_all
  show ?case
  proof (cases "a \<le> b")
    case True
    show ?thesis
    proof (cases "body (es ! b)")
      case (MessageBody m)
      let ?acc = "acc + estimateTokens stringify m"
      show ?thesis
      proof (cases "?acc \<ge> keep")
        case True
        with \<open>a \<le> b\<close> MessageBody Suc.prems show ?thesis by (simp add: segment_def)
      next
        case False
        then have "?acc < keep" by simp
        note IH = Suc.IH [OF Suc_leD [OF Suc.prems(1)] this]
        from False MessageBody IH \<open>a \<le> b\<close> show ?thesis
          by (auto simp: step stored_messages_Cons add.commute add.left_commute split: option.splits)
      qed
    qed (use \<open>a \<le> b\<close> Suc.IH [OF Suc_leD [OF Suc.prems(1)] Suc.prems(2)] in
        \<open>auto simp: step stored_messages_Cons split: option.splits\<close>)
  qed (use Suc.prems in \<open>simp add: segment_def\<close>)
qed (simp add: segment_def)


lemma tokens_of_suffix:
  assumes "a \<le> b"
  shows "tokens_of stringify (stored_messages (drop b es)) \<le> tokens_of stringify (stored_messages (drop a es))"
proof -
  have "drop a es = take (b - a) (drop a es) @ drop b es"
    using assms append_take_drop_id [of "b - a" "drop a es"] by simp
  then have "stored_messages (drop a es) = stored_messages (take (b - a) (drop a es)) @ stored_messages (drop b es)"
    by (metis stored_messages_simps(2))
  then show ?thesis by simp
qed

lemma no_stored_messages: "\<forall>e \<in> set es. entry_type e \<noteq> TMessage \<Longrightarrow> stored_messages es = []"
  by (induction es) (auto simp: stored_messages_Cons split: entry_body.splits)

lemma tokens_of_tl: "tokens_of stringify (tl ms) \<le> tokens_of stringify ms"
  by (cases ms) auto

lemma stored_messages_settled:
  assumes "a \<le> c" "c \<le> length es"
  shows "stored_messages (drop (settle_cut es a c) es) = stored_messages (drop c es)"
proof -
  have "\<forall>e \<in> set (segment (settle_cut es a c) c es). entry_type e \<noteq> TMessage"
    using settle_cut_passed [of es a c] assms(2) by (auto simp: segment_def in_set_conv_nth)
  then have "stored_messages (segment (settle_cut es a c) c es) = []" by (rule no_stored_messages)
  moreover have "drop (settle_cut es a c) es = segment (settle_cut es a c) c es @ drop c es"
    using segment_append [of "settle_cut es a c" c "length es" es] settle_cut_bounds [OF assms(1), of es] assms(2)
    by simp
  ultimately show ?thesis by simp
qed

lemma newest_cut:
  assumes "valid_cut (last es)" "a < length es"
  shows "length es - 1 \<in> set (findValidCutPoints es a (length es))" "findValidCutPoints es a (length es) \<noteq> []"
proof -
  show "length es - 1 \<in> set (findValidCutPoints es a (length es))"
    using assms by (cases "es = []") (auto simp: valid_cut_points last_conv_nth)
  then show "findValidCutPoints es a (length es) \<noteq> []" by auto
qed

text \<open>The tokens of what follows the first message from the cut on, when the cut was made at or after
  the entry where the budget was reached.\<close>

lemma chosen_cut_budget:
  assumes last: "valid_cut (last es)" and a: "a < length es" and keep: "0 < keep"
  shows "tokens_of stringify (tl (stored_messages (drop (chosen_cut stringify es a (length es) keep) es))) < keep"
proof -
  let ?cuts = "findValidCutPoints es a (length es)"
  let ?c = "chosen_cut stringify es a (length es) keep"
  note newest = newest_cut [OF last a]
  have ac: "a \<le> ?c"
    using chosen_cut_valid [OF newest(2)] by (auto simp: valid_cut_points)
  show ?thesis
  proof (cases "budget_index stringify es keep 0 (rev [a..<length es])")
    case None
    then have "tokens_of stringify (stored_messages (drop a es)) < keep"
      using budget_index_spec [of "length es" es 0 keep stringify a] keep by simp
    with tokens_of_suffix [OF ac, of stringify es] tokens_of_tl [of stringify] show ?thesis
      by (meson le_less_trans)
  next
    case (Some i)
    then have i: "i < length es" "\<exists>m. body (es ! i) = MessageBody m"
      and after: "tokens_of stringify (stored_messages (drop (Suc i) es)) < keep"
      using budget_index_spec [of "length es" es 0 keep stringify a] keep by auto
    have "i \<le> length es - 1" using i(1) by simp
    with newest(1) have "List.find (\<lambda>c. i \<le> c) ?cuts \<noteq> None" unfolding find_None_iff by blast
    then have ic: "i \<le> ?c" by (auto simp: chosen_cut_def Some dest: find_SomeD)
    show ?thesis
    proof (cases "?c = i")
      case True
      with i have "stored_messages (drop ?c es) = stored_messages [es ! i] @ stored_messages (drop (Suc i) es)"
        by (simp flip: Cons_nth_drop_Suc stored_messages_simps(2))
      with i after show ?thesis by (auto simp: stored_messages_Cons)
    next
      case False
      with ic have "Suc i \<le> ?c" by simp
      from tokens_of_suffix [OF this, of stringify es] after show ?thesis
        by (intro le_less_trans [OF tokens_of_tl]) simp
    qed
  qed
qed

text \<open>When the newest entry can be cut at (it is not a tool result), the messages from the cut on,
  its first one aside, are estimated below \<open>keepRecentTokens\<close>, so what stays exceeds the budget by at
  most one message.\<close>

theorem findCutPoint_budget:
  assumes "valid_cut (last es)" "startIndex < length es" "0 < keep"
  shows "tokens_of stringify
    (tl (stored_messages (drop (firstKeptEntryIndex (findCutPoint stringify es startIndex (length es) keep)) es))) < keep"
proof -
  note cuts = newest_cut(2) [OF assms(1,2)]
  have "startIndex \<le> chosen_cut stringify es startIndex (length es) keep"
    "chosen_cut stringify es startIndex (length es) keep \<le> length es"
    using chosen_cut_valid [OF cuts, of stringify keep] by (auto simp: valid_cut_points)
  with chosen_cut_budget [OF assms] cuts show ?thesis
    by (simp add: findCutPoint_first stored_messages_settled)
qed

theorem findCutPoint_budget_witness:
  "tokens_of (\<lambda>_. []) (tl (stored_messages (drop
     (firstKeptEntryIndex (findCutPoint (\<lambda>_. []) sample_path 0 (length sample_path) 2)) sample_path))) < 2"
  by (rule findCutPoint_budget) (simp_all add: sample_path_simps, simp add: sample_defs valid_cut_def)

text \<open>When the budget is reached inside tool results that end the path, so that no entry at
  or after that point can be cut at, the cut falls back to the oldest cut point: everything from the
  boundary's first message on is kept, however much that is.\<close>

theorem findCutPoint_falls_back:
  assumes "budget_index stringify es keep 0 (rev [startIndex..<length es]) = Some i"
    and "findValidCutPoints es i (length es) = []"
    and "findValidCutPoints es startIndex (length es) = oldest # cuts"
  shows "firstKeptEntryIndex (findCutPoint stringify es startIndex (length es) keep) = settle_cut es startIndex oldest"
proof -
  have "List.find (\<lambda>c. i \<le> c) (oldest # cuts) = None"
    using assms(2) unfolding assms(3) [symmetric] find_None_iff
    by (auto simp: valid_cut_points) (metis empty_iff list.set(1) valid_cut_points)
  with assms show ?thesis by (simp add: findCutPoint_first chosen_cut_def del: find.simps)
qed

text \<open>The same branch while the result is the newest entry.\<close>

definition waiting_path :: "tree_entry list" where
  "waiting_path = [sample_entry ''e0'' request_body, sample_entry ''e1'' call_body, sample_entry ''e2'' result_body]"

theorem findCutPoint_falls_back_witness:
  "firstKeptEntryIndex (findCutPoint (\<lambda>_. []) waiting_path 0 (length waiting_path) 1) = settle_cut waiting_path 0 0"
proof (rule findCutPoint_falls_back)
  have three: "length waiting_path = 3" "rev [0..<3] = [2, 1, 0 :: nat]"
    by (simp_all add: waiting_path_def upt_rec)
  have "body (waiting_path ! 2) = result_body" by (simp add: waiting_path_def sample_entry_def)
  then show "budget_index (\<lambda>_. []) waiting_path 1 0 (rev [0..<length waiting_path]) = Some 2"
    by (simp add: three result_body_def estimateTokens_def js_def)
  show "findValidCutPoints waiting_path 2 (length waiting_path) = []"
    "findValidCutPoints waiting_path 0 (length waiting_path) = 0 # [1]"
    unfolding three(1) findValidCutPoints_def
    by (simp_all add: upt_rec waiting_path_def sample_defs valid_cut_def)
qed

subsection \<open>A stored tail and the next compaction\<close>

text \<open>After a compaction that stored its retained tail, the branch starts at that
  compaction, which keeps the id of an entry that is no longer on the branch. The next compaction then divides only the
  messages appended since: the stored tail, which the model is still being sent, is neither summarised
  nor retained.\<close>

theorem prepareCompaction_drops_stored_tail:
  assumes "prepareCompaction stringify getTime (e # rest) stt = Inr (Some p)"
    and "body e = Compaction c" "retainedTail c = Some kept" "firstKeptEntryId c = Some k"
    and "\<forall>x \<in> set (e # rest). eid x \<noteq> k" "list_all plain_entry rest"
  shows "messages (buildSessionContext getTime no_options (e # rest)) =
      createCompactionSummaryMessage getTime (c_summary c) (c_tokensBefore c) (timestamp e)
        # kept @ entries_messages getTime rest
    \<and> messagesToSummarize p @ turnPrefixMessages p @ p_retainedTail p = entries_messages getTime rest"
proof
  have prev: "last_compaction_at 0 (e # rest) = Some (0, c)" "last_compaction (e # rest) = Some (e, c)"
    using assms(2,6) by (simp_all add: plain_no_compaction)
  have "index_of_id k (e # rest) = None"
    using assms(5) by (simp add: index_of_id_def takeWhile_eq_all_conv [THEN iffD2])
  then have "boundary_start (e # rest) (last_compaction_at 0 (e # rest)) = 1"
    unfolding prev by (simp add: boundary_start_def assms(4))
  with prepared_partition [OF assms(1)]
  show "messagesToSummarize p @ turnPrefixMessages p @ p_retainedTail p = entries_messages getTime rest" by simp
  have "compaction_index (eid e) (e # rest) = 0" using assms(2) by (simp add: compaction_index_def)
  then have "buildContextEntries no_options (e # rest) = e # rest"
    by (simp add: buildContextEntries_def defaultContextEntryTransform_def prev assms(3) no_options_def
        del: last_compaction.simps)
  then show "messages (buildSessionContext getTime no_options (e # rest)) =
      createCompactionSummaryMessage getTime (c_summary c) (c_tokensBefore c) (timestamp e)
        # kept @ entries_messages getTime rest"
    using assms(2,3,6)
    by (simp add: buildSessionContext_def Let_def context_messages_def context_messages_entries
        sessionEntryToContextMessages.simps [of _ _ _ _ e])
qed

text \<open>A branch after a compaction that stored a tail: the compaction and a request.\<close>

definition stored_compaction :: compaction_data where
  "stored_compaction = \<lparr>c_summary = js ''sum'', firstKeptEntryId = Some (js ''e0''), c_tokensBefore = 7,
     retainedTail = Some [UserMessage (ContentString (js ''hi'')) 0], c_details = None, c_usage = None,
     c_fromHook = False\<rparr>"

abbreviation compacted :: tree_entry where
  "compacted \<equiv> sample_entry ''c'' (Compaction stored_compaction)"

abbreviation request :: tree_entry where
  "request \<equiv> sample_entry ''e1'' request_body"

lemma compacted_prepared:
  "\<exists>p. prepareCompaction (\<lambda>_. []) (\<lambda>_. 0) [compacted, request] tight = Inr (Some p)"
proof -
  have "firstKeptEntryIndex (findCutPoint (\<lambda>_. []) [compacted, request] 1 2 (Suc 0)) = 1"
    using findCutPoint_first_bounds [of 1 2 "\<lambda>_. []" "[compacted, request]" "Suc 0"]
      chosen_cut_valid [of "[compacted, request]" 1 2 "\<lambda>_. []" "Suc 0"]
      settle_cut_bounds [of 1 "chosen_cut (\<lambda>_. []) [compacted, request] 1 2 (Suc 0)" "[compacted, request]"]
    by (fastforce simp: findCutPoint_first valid_cut_points)
  moreover have "boundary_start [compacted, request] (last_compaction_at 0 [compacted, request]) = 1"
    by (simp add: boundary_start_def sample_entry_def request_body_def stored_compaction_def index_of_id_def js_eq_iff)
  moreover have "entry_type request \<noteq> TCompaction" "eid request \<noteq> []"
    by (simp_all add: sample_entry_def request_body_def js_def)
  ultimately show ?thesis
    by (simp add: prepareCompaction_def Let_def tight_def numeral_2_eq_2 del: last_compaction_at.simps)
qed

theorem prepareCompaction_drops_stored_tail_witness:
  "\<exists>p. prepareCompaction (\<lambda>_. []) (\<lambda>_. 0) [compacted, request] tight = Inr (Some p) \<and>
     messages (buildSessionContext (\<lambda>_. 0) no_options [compacted, request]) =
       CompactionSummaryMessage (js ''sum'') 7 0 # [UserMessage (ContentString (js ''hi'')) 0]
         @ entries_messages (\<lambda>_. 0) [request] \<and>
     messagesToSummarize p @ turnPrefixMessages p @ p_retainedTail p = entries_messages (\<lambda>_. 0) [request]"
proof -
  from compacted_prepared obtain p
    where p: "prepareCompaction (\<lambda>_. []) (\<lambda>_. 0) [compacted, request] tight = Inr (Some p)" ..
  have "body compacted = Compaction stored_compaction" "list_all plain_entry [request]"
    "\<forall>x \<in> set [compacted, request]. eid x \<noteq> js ''e0''"
    by (simp_all add: sample_entry_def request_body_def plain_entry_def js_eq_iff)
  with prepareCompaction_drops_stored_tail [OF p, of stored_compaction _ "js ''e0''"] p show ?thesis
    by (auto simp: stored_compaction_def createCompactionSummaryMessage_def)
qed

subsection \<open>The files of a compaction\<close>

text \<open>The paths that calls of the given tools name in the messages.\<close>

definition block_path :: "string list \<Rightarrow> assistant_block \<Rightarrow> js_string option" where
  "block_path tools b =
     (case b of ToolCall _ tool args \<Rightarrow> if tool \<in> js ` set tools then tool_path args else None | _ \<Rightarrow> None)"

definition message_paths :: "string list \<Rightarrow> agent_message \<Rightarrow> js_string list" where
  "message_paths tools m =
     (case m of AssistantMessage a \<Rightarrow> List.map_filter (block_path tools) (a_content a) | _ \<Rightarrow> [])"

definition called_paths :: "string list \<Rightarrow> agent_message list \<Rightarrow> js_string set" where
  "called_paths tools ms = set (concat (map (message_paths tools) ms))"

lemma set_set_add [simp]: "set (set_add x xs) = insert x (set xs)"
  by (auto simp: set_add_def)

lemma distinct_set_add [simp]: "distinct (set_add x xs) = distinct xs"
  by (auto simp: set_add_def)

lemma set_fold_set_add [simp]: "set (fold set_add ys xs) = set ys \<union> set xs"
  by (induction ys arbitrary: xs) auto

lemma distinct_fold_set_add [simp]: "distinct (fold set_add ys xs) = distinct xs"
  by (induction ys arbitrary: xs) auto

definition touched :: "file_operations \<Rightarrow> js_string set" where
  "touched ops = set (f_edited ops) \<union> set (f_written ops)"

lemma extract_block_files:
  "set (f_read (extract_block b ops)) = set (f_read ops) \<union> set_option (block_path [''read''] b)"
  "touched (extract_block b ops) = touched ops \<union> set_option (block_path [''write'', ''edit''] b)"
  by (cases b; auto simp: touched_def block_path_def js_eq_iff split: option.splits)+

lemma extract_blocks_files:
  "set (f_read (fold extract_block bs ops)) = set (f_read ops) \<union> set (List.map_filter (block_path [''read'']) bs)"
  "touched (fold extract_block bs ops) = touched ops \<union> set (List.map_filter (block_path [''write'', ''edit'']) bs)"
  by (induction bs arbitrary: ops)
    (auto simp: extract_block_files List.map_filter_def split: option.splits)

lemma extract_message_files:
  "set (f_read (extractFileOpsFromMessage m ops)) = set (f_read ops) \<union> set (message_paths [''read''] m)"
  "touched (extractFileOpsFromMessage m ops) = touched ops \<union> set (message_paths [''write'', ''edit''] m)"
  by (cases m; simp add: message_paths_def extract_blocks_files)+

lemma extract_messages_files:
  "set (f_read (fold extractFileOpsFromMessage ms ops)) = set (f_read ops) \<union> called_paths [''read''] ms"
  "touched (fold extractFileOpsFromMessage ms ops) = touched ops \<union> called_paths [''write'', ''edit''] ms"
  by (induction ms arbitrary: ops) (auto simp: extract_message_files called_paths_def)

lemma computeFileLists_files:
  assumes "computeFileLists ops = (readFiles, modifiedFiles)"
  shows "set modifiedFiles = touched ops" "set readFiles = set (f_read ops) - touched ops"
    "sorted readFiles" "sorted modifiedFiles" "distinct modifiedFiles"
  using assms by (auto simp: computeFileLists_def Let_def touched_def)

text \<open>The files an earlier compaction on the path hands on.\<close>

definition inherited :: "tree_entry list \<Rightarrow> file_operations" where
  "inherited path = extractFileOperations [] (map_option snd (last_compaction_at 0 path))"

text \<open>A compaction that succeeds keeps the prepared tail and cut and lists, sorted, the files
  of the messages it summarises: as modified those that a \<open>write\<close> or \<open>edit\<close> call names, as read the others
  that a \<open>read\<close> call names, the lists of the previous compaction included.\<close>

theorem compact_files:
  assumes "prepareCompaction stringify getTime path stt = Inr (Some p)"
    and "compact stringify models m instructions level p = Inr r"
    and "r_details r = \<lparr>d_readFiles = Some readFiles, d_modifiedFiles = Some modifiedFiles\<rparr>"
  shows "set modifiedFiles = touched (inherited path)
      \<union> called_paths [''write'', ''edit''] (messagesToSummarize p @ turnPrefixMessages p)
    \<and> set readFiles = (set (f_read (inherited path))
      \<union> called_paths [''read''] (messagesToSummarize p @ turnPrefixMessages p)) - set modifiedFiles
    \<and> sorted readFiles \<and> sorted modifiedFiles \<and> distinct modifiedFiles
    \<and> r_retainedTail r = p_retainedTail p \<and> r_firstKeptEntryId r = p_firstKeptEntryId p"
proof -
  from assms(1) have ops: "fileOps p = fold extractFileOpsFromMessage (messagesToSummarize p @ turnPrefixMessages p)
       (inherited path)"
    unfolding inherited_def by (rule prepareCompaction_SomeE)
  from assms(2,3) have "computeFileLists (fileOps p) = (readFiles, modifiedFiles)"
    and kept: "r_retainedTail r = p_retainedTail p" "r_firstKeptEntryId r = p_firstKeptEntryId p"
    by (auto simp: compact_def and_then_def split: if_splits sum.splits prod.splits)
  note lists = computeFileLists_files [OF this(1), unfolded ops extract_messages_files]
  show ?thesis using lists kept by simp
qed

text \<open>A provider that answers at once.\<close>

definition ready_provider :: llm_provider where
  "ready_provider = \<lparr>answers = (\<lambda>_ _. answer (TextBlock (js ''sum''))), aborts = (\<lambda>_. False), policy = None\<rparr>"

definition plain_model :: llm_model where
  "plain_model = \<lparr>contextWindow = 1000, maxTokens = 100, reasoning = False\<rparr>"

lemma ready_answers: "completeSimpleWithRetries ready_provider q = answer (TextBlock (js ''sum''))"
  by (simp add: completeSimpleWithRetries_def ready_provider_def retryAssistantCall_def retry_loop.simps answer_def)

lemma ready_compacts:
  "p_firstKeptEntryId p \<noteq> [] \<Longrightarrow> \<exists>r readFiles modifiedFiles. compact stringify ready_provider plain_model None None p = Inr r
     \<and> r_details r = \<lparr>d_readFiles = Some readFiles, d_modifiedFiles = Some modifiedFiles\<rparr>"
  by (simp add: compact_def compact_summary_def generateSummaryWithUsage_def generateTurnPrefixSummary_def
      ready_answers summary_response_def Let_def answer_def split: prod.split)

theorem compact_files_witness:
  "\<exists>p r readFiles modifiedFiles. prepareCompaction (\<lambda>_. []) (\<lambda>_. 0) sample_path tight = Inr (Some p)
     \<and> compact (\<lambda>_. []) ready_provider plain_model None None p = Inr r
     \<and> r_details r = \<lparr>d_readFiles = Some readFiles, d_modifiedFiles = Some modifiedFiles\<rparr>
     \<and> set readFiles = {} \<union> called_paths [''read''] (messagesToSummarize p @ turnPrefixMessages p) - set modifiedFiles"
proof -
  from sample_prepared obtain p where p: "prepareCompaction (\<lambda>_. []) (\<lambda>_. 0) sample_path tight = Inr (Some p)" ..
  have "p_firstKeptEntryId p \<noteq> []"
    using p by (auto simp: prepareCompaction_def Let_def split: if_splits)
  from ready_compacts [OF this, of "\<lambda>_. []"] obtain r readFiles modifiedFiles
    where r: "compact (\<lambda>_. []) ready_provider plain_model None None p = Inr r"
      "r_details r = \<lparr>d_readFiles = Some readFiles, d_modifiedFiles = Some modifiedFiles\<rparr>" by blast
  have "f_read (inherited sample_path) = []"
    by (simp add: inherited_def sample_path_simps extractFileOperations_def createFileOps_def)
  with compact_files [OF p r] p r show ?thesis by (intro exI conjI) auto
qed

end
