(* ===== verification/BranchSummaries.thy ===== *)
theory BranchSummaries
  imports CompactionFacts SessionHistory "HOL-Library.Sublist"
begin

text \<open>
  \<^verbatim>\<open>packages/agent/src/harness/compaction/branch-summarization.ts\<close>: which entries are left behind when the
  leaf moves to another branch, which of their messages fit the budget of a summary, and the summary.
  The loop that follows the parent links may meet a cycle, so it is a partial function; the budget may be
  negative (a small context window), so it is an integer. \<open>totalTokens < tokenBudget * 0.9\<close> is
  \<open>10 * totalTokens < 9 * tokenBudget\<close>, which agrees with the product of doubles for all budgets below
  \<open>2 ^ 49\<close>.
\<close>

subsection \<open>Entries left behind\<close>

partial_function (option) collect_walk ::
  "session \<Rightarrow> js_string option \<Rightarrow> js_string option \<Rightarrow> tree_entry list
     \<Rightarrow> (session_error + tree_entry list) option" where
  "collect_walk s commonAncestorId current collected =
     (case current of
        None \<Rightarrow> Some (Inr collected)
      | Some i \<Rightarrow>
          if i = [] \<or> current = commonAncestorId then Some (Inr collected)
          else (case getEntry s i of
                  None \<Rightarrow> Some (Inl (InvalidSession i))
                | Some e \<Rightarrow> collect_walk s commonAncestorId (parentId e) (collected @ [e])))"

definition common_ancestor :: "tree_entry list \<Rightarrow> tree_entry list \<Rightarrow> js_string option" where
  "common_ancestor oldPath targetPath =
     map_option eid (List.find (\<lambda>e. eid e \<in> ids_of oldPath) (rev targetPath))"

definition collectEntriesForBranchSummary ::
  "session \<Rightarrow> js_string option \<Rightarrow> js_string \<Rightarrow> (session_error + (tree_entry list \<times> js_string option)) option" where
  "collectEntriesForBranchSummary s oldLeafId targetId =
     (if oldLeafId = None \<or> oldLeafId = Some [] then Some (Inr ([], None))
      else case getBranch (Some oldLeafId) s of
        None \<Rightarrow> None
      | Some (Inl e) \<Rightarrow> Some (Inl e)
      | Some (Inr oldPath) \<Rightarrow>
          (case getBranch (Some (Some targetId)) s of
             None \<Rightarrow> None
           | Some (Inl e) \<Rightarrow> Some (Inl e)
           | Some (Inr targetPath) \<Rightarrow>
               let commonAncestorId = common_ancestor oldPath targetPath in
               map_option (map_sum id (\<lambda>collected. (rev collected, commonAncestorId)))
                 (collect_walk s commonAncestorId oldLeafId [])))"

subsection \<open>Messages within a budget\<close>

definition branch_message :: "(js_string \<Rightarrow> int) \<Rightarrow> tree_entry \<Rightarrow> agent_message option" where
  "branch_message getTime e =
     (case body e of
        MessageBody m \<Rightarrow> if message_role m = ToolResult then None else Some m
      | b \<Rightarrow> entry_message getTime (timestamp e) b)"

record branch_preparation =
  b_messages :: "agent_message list"
  b_fileOps :: file_operations
  b_totalTokens :: nat

fun inherit_files :: "entry_body \<Rightarrow> file_operations \<Rightarrow> file_operations" where
  "inherit_files (BranchSummary b) ops = add_details (s_fromHook b) (s_details b) ops"
| "inherit_files _ ops = ops"

text \<open>The loop from the newest entry backwards.\<close>

fun take_within ::
  "(js_value \<Rightarrow> js_string) \<Rightarrow> (js_string \<Rightarrow> int) \<Rightarrow> int \<Rightarrow> tree_entry list \<Rightarrow> branch_preparation
     \<Rightarrow> branch_preparation" where
  "take_within stringify getTime tokenBudget [] p = p"
| "take_within stringify getTime tokenBudget (e # older) p =
     (case branch_message getTime e of
        None \<Rightarrow> take_within stringify getTime tokenBudget older p
      | Some m \<Rightarrow>
          let p1 = p\<lparr>b_fileOps := extractFileOpsFromMessage m (b_fileOps p)\<rparr>;
              tokens = estimateTokens stringify m;
              p2 = p1\<lparr>b_messages := m # b_messages p1, b_totalTokens := b_totalTokens p1 + tokens\<rparr>
          in if tokenBudget > 0 \<and> int (b_totalTokens p1 + tokens) > tokenBudget
             then if entry_type e \<in> {TCompaction, TBranchSummary}
                     \<and> 10 * int (b_totalTokens p1) < 9 * tokenBudget
                  then p2 else p1
             else take_within stringify getTime tokenBudget older p2)"

definition prepareBranchEntries ::
  "(js_value \<Rightarrow> js_string) \<Rightarrow> (js_string \<Rightarrow> int) \<Rightarrow> tree_entry list \<Rightarrow> int \<Rightarrow> branch_preparation" where
  "prepareBranchEntries stringify getTime es tokenBudget =
     take_within stringify getTime tokenBudget (rev es)
       \<lparr>b_messages = [], b_fileOps = fold (\<lambda>e. inherit_files (body e)) es createFileOps, b_totalTokens = 0\<rparr>"

subsection \<open>The summary\<close>

record branch_summary_options =
  o_customInstructions :: "js_string option"
  replaceInstructions :: bool
  o_reserveTokens :: "nat option"

record branch_summary_result =
  br_summary :: js_string
  br_usage :: "usage option"
  br_readFiles :: "js_string list"
  br_modifiedFiles :: "js_string list"

definition branch_instructions :: "branch_summary_options \<Rightarrow> js_string" where
  "branch_instructions options =
     (let custom = or_else (o_customInstructions options) [] in
      if replaceInstructions options \<and> custom \<noteq> [] then custom
      else if custom \<noteq> [] then BRANCH_SUMMARY_PROMPT @ [newline, newline] @ js ''Additional focus: '' @ custom
      else BRANCH_SUMMARY_PROMPT)"

definition branch_budget :: "llm_model \<Rightarrow> branch_summary_options \<Rightarrow> int" where
  "branch_budget m options =
     int (if contextWindow m = 0 then 128000 else contextWindow m)
       - int (case o_reserveTokens options of None \<Rightarrow> 16384 | Some r \<Rightarrow> r)"

definition generateBranchSummary ::
  "(js_value \<Rightarrow> js_string) \<Rightarrow> (js_string \<Rightarrow> int) \<Rightarrow> llm_provider \<Rightarrow> llm_model \<Rightarrow> branch_summary_options
     \<Rightarrow> tree_entry list \<Rightarrow> summary_error + branch_summary_result" where
  "generateBranchSummary stringify getTime models m options es =
     (let p = prepareBranchEntries stringify getTime es (branch_budget m options) in
      if b_messages p = []
      then Inr \<lparr>br_summary = js ''No content to summarize'', br_usage = None, br_readFiles = [], br_modifiedFiles = []\<rparr>
      else
        let conversationText = serializeConversation stringify (convertToLlm (b_messages p));
            response = completeSimpleWithRetries models
              \<lparr>systemPrompt = SUMMARIZATION_SYSTEM_PROMPT,
               promptText = conversation_prompt conversationText @ branch_instructions options,
               requestMaxTokens = 2048, requestReasoning = None\<rparr>
        in and_then (summary_response (js ''Branch summary aborted'') (js ''Branch summary failed: '') response)
             (\<lambda>(text, u).
                let (readFiles, modifiedFiles) = computeFileLists (b_fileOps p);
                    summary = BRANCH_SUMMARY_PREAMBLE @ text @ formatFileOperations readFiles modifiedFiles
                in Inr \<lparr>br_summary = (if summary = [] then js ''No summary generated'' else summary), br_usage = u,
                     br_readFiles = readFiles, br_modifiedFiles = modifiedFiles\<rparr>))"

subsection \<open>The branch that is left\<close>

lemma chain_ids: "ids_of (chain older i) \<subseteq> ids_of older"
  by (induction older i rule: chain.induct) (auto split: option.splits)

lemma chain_distinct: "distinct (map eid older) \<Longrightarrow> distinct (map eid (chain older i))"
proof (induction older i rule: chain.induct)
  case (2 e older i)
  have "eid e \<notin> ids_of (chain older q)" for q
    using 2(3) chain_ids [of older q] by (auto simp: ids_of_def)
  with 2 show ?case by (auto simp: ids_of_def split: option.split)
qed simp

text \<open>From an entry of a chain on, the chain is that entry's own.\<close>

lemma chain_suffix:
  "distinct (map eid older) \<Longrightarrow> c \<in> ids_of (chain older i) \<Longrightarrow>
     dropWhile (\<lambda>e. eid e \<noteq> c) (chain older i) = chain older c"
proof (induction older i rule: chain.induct)
  case (2 e older i)
  show ?case
  proof (cases "eid e = i")
    case True
    show ?thesis
    proof (cases "c = i")
      case False
      with 2 True chain_ids [of older] show ?thesis by (auto split: option.splits)
    qed (use True in simp)
  next
    case False
    with 2 chain_ids [of older i] have "eid e \<noteq> c" by (auto simp: ids_of_def)
    with False 2 show ?thesis by simp
  qed
qed simp

lemma up_path_chain:
  "\<forall>e \<in> set older. entry_type e \<noteq> TCompaction \<Longrightarrow> up_path older i None = chain older i"
  by (induction older i rule: chain.induct)
    (auto simp: tail_kept_def stop_after_def split: option.splits entry_body.splits)

lemma collect_walk_linked:
  assumes "linked (rev older)" "distinct (map eid older)" "\<forall>e \<in> set older. byId (storage s) (eid e) = Some e"
    and "i \<in> ids_of older" "[] \<notin> ids_of older"
  shows "collect_walk s common (Some i) collected =
    Some (Inr (collected @ takeWhile (\<lambda>e. Some (eid e) \<noteq> common) (chain older i)))"
  using assms
proof (induction older arbitrary: i collected)
  case (Cons e older)
  have l: "linked (rev older)" and p: "parent_in (ids_of older) e"
    using Cons.prems(1) by (auto simp: linked_snoc)
  show ?case
  proof (cases "eid e = i")
    case False
    with Cons l show ?thesis by simp
  next
    case True
    have found: "getEntry s i = Some e" using Cons.prems(3) True by (simp add: getEntry_def readEntry_def)
    have none: "collect_walk s common (parentId e) (collected @ [e]) =
      Some (Inr (collected @ [e]))" if "parent_link e = None"
      using that by (subst collect_walk.simps) (auto simp: parent_link_def split: option.splits if_splits)
    show ?thesis
    proof (cases "Some i = common \<or> parent_link e = None")
      case True
      with \<open>eid e = i\<close> Cons.prems(5) found none show ?thesis
        by (subst collect_walk.simps) auto
    next
      case False
      then obtain q where q: "parent_link e = Some q" "Some i \<noteq> common" by auto
      then have "parentId e = Some q" "q \<in> ids_of older"
        using p by (auto simp: parent_link_def parent_in_def split: option.splits if_splits)
      with Cons.IH [OF l, of q "collected @ [e]"] Cons.prems q \<open>eid e = i\<close> found show ?thesis
        by (subst collect_walk.simps) auto
    qed
  qed
qed simp

lemma up_path_in_chain: "set (up_path older i stop) \<subseteq> set (chain older i)"
proof (induction older i stop rule: up_path.induct)
  case (2 e older i stop)
  then show ?case by (cases "parent_link e") auto
qed simp

lemma up_path_stored_tail:
  "chain older i = newer @ c # rest \<Longrightarrow> tail_kept c \<Longrightarrow> \<forall>e \<in> set newer. entry_type e \<noteq> TCompaction \<Longrightarrow>
     up_path older i None = newer @ [c]"
proof (induction older i arbitrary: newer rule: chain.induct)
  case (2 e older i)
  show ?case
  proof (cases "eid e = i")
    case True
    show ?thesis
    proof (cases newer)
      case Nil
      with 2(3,4) True show ?thesis by simp
    next
      case (Cons x xs)
      with 2(3) True have "x = e" by simp
      with 2(5) Cons have "\<not> tail_kept e" "stop_after e None = None"
        by (auto simp: tail_kept_def stop_after_def split: entry_body.splits)
      with 2 True Cons \<open>x = e\<close> show ?thesis by (auto split: option.splits)
    qed
  qed (use 2 in simp)
qed simp

lemma getBranch_view:
  assumes "storage s = index_view es" "linked es" "distinct (map eid es)" "i \<in> ids_of es"
  shows "getBranch (Some (Some i)) s = Some (Inr (rev (up_path (rev es) i None)))"
  using readPath_view [OF assms(2-4)] assms(1) by (simp add: getBranch_def from_leaf_def)

lemma collect_view:
  assumes "storage s = index_view es" "linked es" "distinct (map eid es)" "[] \<notin> ids_of es"
    and "old \<in> ids_of es" "target \<in> ids_of es"
    and common: "common = common_ancestor (rev (up_path (rev es) old None)) (rev (up_path (rev es) target None))"
  shows "collectEntriesForBranchSummary s (Some old) target =
    Some (Inr (rev (takeWhile (\<lambda>e. Some (eid e) \<noteq> common) (chain (rev es) old)), common))"
proof -
  have "old \<noteq> []" using assms(4,5) by auto
  moreover have "collect_walk s common (Some old) [] =
      Some (Inr ([] @ takeWhile (\<lambda>e. Some (eid e) \<noteq> common) (chain (rev es) old)))"
    using assms by (intro collect_walk_linked) (simp_all add: lookup_in_mem rev_map [symmetric])
  ultimately show ?thesis
    using assms by (simp add: collectEntriesForBranchSummary_def getBranch_view Let_def)
qed

lemma find_takeWhile:
  "List.find P xs = Some x \<Longrightarrow> y \<in> set (takeWhile (\<lambda>z. f z \<noteq> f x) xs) \<Longrightarrow> \<not> P y"
proof (induction xs)
  case (Cons a xs)
  then show ?case by (cases "P a"; cases "f a = f x") auto
qed simp

text \<open>Two branches part at the first entry of the one that is on the other.\<close>

lemma branches_part:
  assumes "distinct (map eid older)"
    and "common = map_option eid (List.find (\<lambda>e. eid e \<in> ids_of (chain older old)) (chain older target))"
  shows "takeWhile (\<lambda>e. Some (eid e) \<noteq> common) (chain older old) =
    filter (\<lambda>e. eid e \<notin> ids_of (chain older target)) (chain older old)"
proof (cases common)
  case None
  then have "\<forall>e \<in> set (chain older target). eid e \<notin> ids_of (chain older old)"
    using assms(2) by (auto simp: find_None_iff)
  then have "\<forall>e \<in> set (chain older old). eid e \<notin> ids_of (chain older target)"
    unfolding ids_of_def image_iff by metis
  then show ?thesis by (simp add: None)
next
  case (Some c)
  let ?old = "chain older old" and ?target = "chain older target"
  obtain e where e: "List.find (\<lambda>e. eid e \<in> ids_of ?old) ?target = Some e" "eid e = c"
    using assms(2) [symmetric] unfolding Some map_option_eq_Some by blast
  then have c: "c \<in> ids_of ?old" "c \<in> ids_of ?target" by (auto simp: ids_of_def dest!: find_SomeD)
  let ?a = "takeWhile (\<lambda>e. eid e \<noteq> c) ?old" and ?b = "takeWhile (\<lambda>e. eid e \<noteq> c) ?target"
  have old: "?old = ?a @ chain older c" using chain_suffix [OF assms(1) c(1)] by (metis takeWhile_dropWhile_id)
  have target: "?target = ?b @ chain older c"
    using chain_suffix [OF assms(1) c(2)] by (metis takeWhile_dropWhile_id)
  have "ids_of ?a \<inter> ids_of (chain older c) = {}"
    using chain_distinct [OF assms(1), of old] by (subst (asm) old) (auto simp: ids_of_def)
  moreover have "ids_of ?b \<inter> ids_of ?old = {}"
    using find_takeWhile [OF e(1), of _ eid] e(2) by (auto simp: ids_of_def)
  moreover have "ids_of ?a \<subseteq> ids_of ?old" by (auto simp: ids_of_def dest: set_takeWhileD)
  ultimately have "ids_of ?a \<inter> ids_of ?target = {}" by (subst target) (simp only: ids_of_simps, blast)
  then have "\<forall>e \<in> set ?a. eid e \<notin> ids_of ?target" by (auto simp: ids_of_def)
  moreover have "\<forall>e \<in> set (chain older c). eid e \<in> ids_of ?target"
    by (subst target) (auto simp: ids_of_def)
  ultimately have "filter (\<lambda>e. eid e \<notin> ids_of ?target) (?a @ chain older c) = ?a" by simp
  with old Some show ?thesis by simp
qed

subsection \<open>What is summarised when the leaf moves\<close>

text \<open>Sessions of a few entries to apply the properties to.\<close>

definition session_of :: "tree_entry list \<Rightarrow> session" where
  "session_of es = \<lparr>storage = index_view es, sleaf = leafId (index_view es), contextBuildOptions = no_options,
     uuidCount = 0\<rparr>"

lemma session_of_ok:
  assumes "distinct (map eid es)" "linked es" "[] \<notin> ids_of es"
    "\<forall>l. leafId (index_view es) = Some l \<longrightarrow> l \<in> ids_of es"
  shows "session_ok (session_of es)"
  using assms by (simp add: session_of_def session_ok_def storage_ok_view)

definition forked :: "tree_entry list" where
  "forked = [node ''a'' None request_body, node ''b'' (Some ''a'') call_body, node ''c'' (Some ''a'') answer_body]"

definition past_compaction :: "tree_entry list" where
  "past_compaction = [node ''a'' None request_body, node ''k'' (Some ''a'') (Compaction stored_compaction),
     node ''b'' (Some ''k'') answer_body]"

lemmas branch_samples = forked_def past_compaction_def node_def request_body_def call_body_def answer_body_def

lemma branch_samples_ok: "session_ok (session_of forked)" "session_ok (session_of past_compaction)"
  by (rule session_of_ok; simp add: branch_samples js_eq_iff linked_def parent_in_def parent_link_def
      index_view_def next_leaf_def)+

text \<open>On a session without compactions, moving from one entry to another leaves behind exactly
  the entries of the old branch that are not on the new one, oldest first; the common ancestor is the
  newest entry on both, if there is one.\<close>

theorem collect_leaves_old_branch:
  assumes "session_ok s" "old \<in> ids_of (entries (storage s))" "target \<in> ids_of (entries (storage s))"
    and "\<forall>e \<in> set (entries (storage s)). entry_type e \<noteq> TCompaction"
  shows "\<exists>oldPath targetPath. getBranch (Some (Some old)) s = Some (Inr oldPath)
    \<and> getBranch (Some (Some target)) s = Some (Inr targetPath)
    \<and> collectEntriesForBranchSummary s (Some old) target =
        Some (Inr (filter (\<lambda>e. eid e \<notin> ids_of targetPath) oldPath, common_ancestor oldPath targetPath))"
proof -
  from assms(1) obtain es where es: "storage s = index_view es" "storage_ok (index_view es)"
    by (rule session_okE)
  then have ok: "linked es" "distinct (map eid es)" "[] \<notin> ids_of es"
    by (simp_all add: storage_ok_view)
  have paths: "up_path (rev es) i None = chain (rev es) i" for i
    using assms(4) es(1) by (intro up_path_chain) simp
  have "distinct (map eid (rev es))" using ok(2) by (simp add: rev_map [symmetric])
  note part = branches_part [OF this refl, of old target]
  have "collectEntriesForBranchSummary s (Some old) target =
      Some (Inr (filter (\<lambda>e. eid e \<notin> ids_of (rev (chain (rev es) target))) (rev (chain (rev es) old)),
        common_ancestor (rev (chain (rev es) old)) (rev (chain (rev es) target))))"
    using collect_view [OF es(1) ok, of old target] assms(2,3) es(1) part
    by (simp add: paths common_ancestor_def rev_filter)
  moreover have "getBranch (Some (Some i)) s = Some (Inr (rev (chain (rev es) i)))" if "i \<in> ids_of es" for i
    using getBranch_view [OF es(1) ok(1,2) that] by (simp add: paths)
  ultimately show ?thesis using assms(2,3) es(1) by auto
qed

theorem collect_leaves_old_branch_witness:
  "\<exists>oldPath targetPath. getBranch (Some (Some (js ''b''))) (session_of forked) = Some (Inr oldPath)
    \<and> getBranch (Some (Some (js ''c''))) (session_of forked) = Some (Inr targetPath)
    \<and> collectEntriesForBranchSummary (session_of forked) (Some (js ''b'')) (js ''c'') =
        Some (Inr (filter (\<lambda>e. eid e \<notin> ids_of targetPath) oldPath, common_ancestor oldPath targetPath))"
  by (rule collect_leaves_old_branch [OF branch_samples_ok(1)]) (simp_all add: session_of_def branch_samples)

text \<open>When the old branch passes a compaction that stored its tail and the target is older than
  that compaction on the same branch, no common ancestor is found: every entry from the root on is
  collected, those shared with the target, and the target itself, included.\<close>

theorem collect_ignores_shared_entries:
  assumes "session_ok s" "old \<in> ids_of (entries (storage s))"
    and "chain (rev (entries (storage s))) old = newer @ c # older"
    and "tail_kept c" "\<forall>e \<in> set newer. entry_type e \<noteq> TCompaction"
    and "target \<in> ids_of older"
  shows "collectEntriesForBranchSummary s (Some old) target = Some (Inr (rev (newer @ c # older), None))"
proof -
  from assms(1) obtain es where es: "storage s = index_view es" "storage_ok (index_view es)"
    by (rule session_okE)
  then have ok: "linked es" "distinct (map eid es)" "[] \<notin> ids_of es"
    by (simp_all add: storage_ok_view)
  have d: "distinct (map eid (rev es))" using ok(2) by (simp add: rev_map [symmetric])
  have old: "chain (rev es) old = newer @ c # older" using assms(3) es(1) by simp
  have parts: "ids_of (newer @ [c]) \<inter> ids_of older = {}"
    using chain_distinct [OF d, of old] by (auto simp: old ids_of_def)
  have "chain (rev es) target = dropWhile (\<lambda>e. eid e \<noteq> target) ((newer @ [c]) @ older)"
    using chain_suffix [OF d, of target old] assms(6) by (simp add: old)
  also have "\<dots> = dropWhile (\<lambda>e. eid e \<noteq> target) older"
    using parts assms(6) by (subst dropWhile_append2) (auto simp: ids_of_def)
  finally have "eid e \<in> ids_of older" if "e \<in> set (up_path (rev es) target None)" for e
    using up_path_in_chain [of "rev es" target None] that by (auto simp: ids_of_def dest!: set_dropWhileD)
  with parts have "eid e \<notin> ids_of (newer @ [c])" if "e \<in> set (up_path (rev es) target None)" for e
    using that by blast
  then have none: "common_ancestor (rev (up_path (rev es) old None)) (rev (up_path (rev es) target None)) = None"
    by (auto simp: common_ancestor_def up_path_stored_tail [OF old assms(4,5)] find_None_iff)
  have "target \<in> ids_of es" using assms(6) chain_ids [of "rev es" old] by (auto simp: old)
  from collect_view [OF es(1) ok _ this none [symmetric]] assms(2) es(1) show ?thesis by (simp add: old)
qed

theorem collect_ignores_shared_entries_witness:
  "collectEntriesForBranchSummary (session_of past_compaction) (Some (js ''b'')) (js ''a'') =
     Some (Inr (past_compaction, None))"
proof -
  have "collectEntriesForBranchSummary (session_of past_compaction) (Some (js ''b'')) (js ''a'') =
    Some (Inr (rev ([past_compaction ! 2] @ past_compaction ! 1 # [past_compaction ! 0]), None))"
    by (rule collect_ignores_shared_entries [OF branch_samples_ok(2)])
      (simp_all add: session_of_def branch_samples js_eq_iff parent_link_def tail_kept_def stored_compaction_def)
  then show ?thesis by (simp add: past_compaction_def)
qed

subsection \<open>Messages within the budget\<close>

abbreviation branch_messages :: "(js_string \<Rightarrow> int) \<Rightarrow> tree_entry list \<Rightarrow> agent_message list" where
  "branch_messages getTime es \<equiv> List.map_filter (branch_message getTime) es"

definition within_budget :: "(js_value \<Rightarrow> js_string) \<Rightarrow> int \<Rightarrow> agent_message list \<Rightarrow> bool" where
  "within_budget stringify tokenBudget ms \<longleftrightarrow>
     tokenBudget \<le> 0 \<or> int (tokens_of stringify ms) \<le> tokenBudget
     \<or> ms \<noteq> [] \<and> message_role (hd ms) \<in> {CompactionSummaryRole, BranchSummaryRole}
       \<and> 10 * int (tokens_of stringify (tl ms)) < 9 * tokenBudget"

lemma summary_entry_role:
  "branch_message getTime e = Some m \<Longrightarrow> entry_type e \<in> {TCompaction, TBranchSummary} \<Longrightarrow>
     message_role m \<in> {CompactionSummaryRole, BranchSummaryRole}"
  by (cases "body e") (auto simp: branch_message_def createCompactionSummaryMessage_def createBranchSummaryMessage_def)

lemma take_within_spec:
  fixes es :: "tree_entry list" and getTime :: "js_string \<Rightarrow> int"
  assumes "b_totalTokens p = tokens_of stringify (b_messages p)"
    and "tokenBudget \<le> 0 \<or> int (b_totalTokens p) \<le> tokenBudget"
  defines "r \<equiv> take_within stringify getTime tokenBudget es p"
  shows "b_totalTokens r = tokens_of stringify (b_messages r) \<and> within_budget stringify tokenBudget (b_messages r)
    \<and> (\<exists>taken. b_messages r = taken @ b_messages p
        \<and> suffix taken (branch_messages getTime (rev es))
        \<and> (tokenBudget \<le> 0 \<longrightarrow> taken = branch_messages getTime (rev es)))"
  using assms(1,2) unfolding r_def
proof (induction es arbitrary: p)
  case Nil
  then show ?case by (auto simp: within_budget_def List.map_filter_def)
next
  case (Cons e es)
  show ?case
  proof (cases "branch_message getTime e")
    case None
    with Cons show ?thesis by (simp add: List.map_filter_def)
  next
    case (Some m)
    let ?p1 = "p\<lparr>b_fileOps := extractFileOpsFromMessage m (b_fileOps p)\<rparr>"
    let ?p2 = "?p1\<lparr>b_messages := m # b_messages ?p1, b_totalTokens := b_totalTokens ?p1 + estimateTokens stringify m\<rparr>"
    have all: "branch_messages getTime (rev (e # es)) = branch_messages getTime (rev es) @ [m]"
      using Some by (simp add: List.map_filter_def)
    show ?thesis
    proof (cases "tokenBudget > 0 \<and> int (b_totalTokens p + estimateTokens stringify m) > tokenBudget")
      case True
      show ?thesis
      proof (cases "entry_type e \<in> {TCompaction, TBranchSummary} \<and> 10 * int (b_totalTokens p) < 9 * tokenBudget")
        case inner: True
        then have "take_within stringify getTime tokenBudget (e # es) p = ?p2" using Some True by simp
        with inner True Cons.prems summary_entry_role [OF Some] all show ?thesis
          by (auto simp: within_budget_def)
      next
        case False
        then have "take_within stringify getTime tokenBudget (e # es) p = ?p1" using Some True by auto
        with True Cons.prems show ?thesis by (auto simp: within_budget_def)
      qed
    next
      case False
      then have "take_within stringify getTime tokenBudget (e # es) p = take_within stringify getTime tokenBudget es ?p2"
        using Some by (auto simp: Let_def)
      moreover have "b_totalTokens ?p2 = tokens_of stringify (b_messages ?p2)"
        "tokenBudget \<le> 0 \<or> int (b_totalTokens ?p2) \<le> tokenBudget"
        using Cons.prems False by auto
      note IH = Cons.IH [OF this]
      then obtain taken where "b_messages (take_within stringify getTime tokenBudget es ?p2) = taken @ m # b_messages p"
        "suffix taken (branch_messages getTime (rev es))"
        "tokenBudget \<le> 0 \<longrightarrow> taken = branch_messages getTime (rev es)" by auto
      moreover from this(2) have "suffix (taken @ [m]) (branch_messages getTime (rev es) @ [m])"
        by (auto simp: suffix_def)
      ultimately show ?thesis using IH all by (auto intro!: exI [of _ "taken @ [m]"])
    qed
  qed
qed

text \<open>The messages prepared for a branch summary are the newest of the branch's messages, in
  order, tool results left out: all of them when the budget is not positive, and otherwise no more than the budget
  allows, except that one earlier summary may stand at the front when the rest stays below nine tenths
  of it. The token count reported is theirs.\<close>

theorem prepareBranchEntries_within:
  "let p = prepareBranchEntries stringify getTime es tokenBudget in
     suffix (b_messages p) (branch_messages getTime es)
     \<and> (tokenBudget \<le> 0 \<longrightarrow> b_messages p = branch_messages getTime es)
     \<and> within_budget stringify tokenBudget (b_messages p)
     \<and> b_totalTokens p = tokens_of stringify (b_messages p)"
  using take_within_spec [of "\<lparr>b_messages = [], b_fileOps = fold (\<lambda>e. inherit_files (body e)) es createFileOps,
      b_totalTokens = 0\<rparr>" stringify tokenBudget getTime "rev es"] linear [of tokenBudget 0]
  by (auto simp: prepareBranchEntries_def Let_def)

theorem prepareBranchEntries_within_witness:
  "b_messages (prepareBranchEntries (\<lambda>_. []) (\<lambda>_. 0) sample_path 0) = branch_messages (\<lambda>_. 0) sample_path"
  using prepareBranchEntries_within [of "\<lambda>_. []" "\<lambda>_. 0" sample_path 0] by (simp add: Let_def)

end
