(* ===== verification/Truncate.thy ===== *)
theory Truncate
  imports JsText
begin

text \<open>
  \<^verbatim>\<open>packages/agent/src/harness/utils/truncate.ts\<close>: the truncation of tool outputs to a number of lines and of
  UTF-8 bytes. \<open>Buffer.byteLength\<close> is the length of the UTF-8 encoding; the loop used where there is no
  \<open>Buffer\<close> is the definition \<open>count_bytes\<close>, and the parameter \<open>buffer\<close> says which of the two the
  runtime has. Limits are natural numbers. A quotient by a power of two is exact, so \<open>toFixed(1)\<close> rounds the exact value, halves up.
\<close>

definition DEFAULT_MAX_LINES :: nat where "DEFAULT_MAX_LINES = 2000"

definition DEFAULT_MAX_BYTES :: nat where "DEFAULT_MAX_BYTES = 50 * 1024"

definition GREP_MAX_LINE_LENGTH :: nat where "GREP_MAX_LINE_LENGTH = 500"

datatype limit_hit = ByLines | ByBytes

record truncation_result =
  t_content :: js_string
  truncated :: bool
  truncatedBy :: "limit_hit option"
  totalLines :: nat
  totalBytes :: nat
  outputLines :: nat
  outputBytes :: nat
  lastLinePartial :: bool
  firstLineExceedsLimit :: bool
  t_maxLines :: nat
  t_maxBytes :: nat

record truncation_options =
  o_maxLines :: "nat option"
  o_maxBytes :: "nat option"

definition max_lines :: "truncation_options \<Rightarrow> nat" where
  "max_lines options = (case o_maxLines options of None \<Rightarrow> DEFAULT_MAX_LINES | Some n \<Rightarrow> n)"

definition max_bytes :: "truncation_options \<Rightarrow> nat" where
  "max_bytes options = (case o_maxBytes options of None \<Rightarrow> DEFAULT_MAX_BYTES | Some n \<Rightarrow> n)"

subsection \<open>Byte lengths and lines\<close>

fun count_bytes :: "js_string \<Rightarrow> nat" where
  "count_bytes [] = 0"
| "count_bytes [u] = (if u \<le> 0x7f then 1 else if u \<le> 0x7ff then 2 else 3)"
| "count_bytes (u # v # us) =
     (if u \<le> 0x7f then 1 + count_bytes (v # us)
      else if u \<le> 0x7ff then 2 + count_bytes (v # us)
      else if high_surrogate u
        then (if low_surrogate v then 4 + count_bytes us else 3 + count_bytes (v # us))
      else 3 + count_bytes (v # us))"

definition utf8ByteLength :: "bool \<Rightarrow> js_string \<Rightarrow> nat" where
  "utf8ByteLength buffer content =
     (if buffer then length (textEncoder_encode content)
      else let firstNonAscii = length (takeWhile (\<lambda>u. u \<le> 0x7f) content)
           in if firstNonAscii = length content then length content
              else firstNonAscii + count_bytes (drop firstNonAscii content))"

definition splitLinesForCounting :: "js_string \<Rightarrow> js_string list" where
  "splitLinesForCounting content =
     (if content = [] then []
      else let ls = split_on newline content in if last content = newline then butlast ls else ls)"

fun replaceUnpairedSurrogates :: "js_string \<Rightarrow> js_string" where
  "replaceUnpairedSurrogates [] = []"
| "replaceUnpairedSurrogates [u] = (if high_surrogate u \<or> low_surrogate u then [0xfffd] else [u])"
| "replaceUnpairedSurrogates (u # v # us) =
     (if high_surrogate u
      then (if low_surrogate v then u # v # replaceUnpairedSurrogates us
            else 0xfffd # replaceUnpairedSurrogates (v # us))
      else if low_surrogate u then 0xfffd # replaceUnpairedSurrogates (v # us)
      else u # replaceUnpairedSurrogates (v # us))"

definition fixed1 :: "nat \<Rightarrow> nat \<Rightarrow> js_string" where
  "fixed1 a b = (let n = (20 * a + b) div (2 * b) in decimal (n div 10) @ js ''.'' @ decimal (n mod 10))"

definition formatSize :: "nat \<Rightarrow> js_string" where
  "formatSize bytes =
     (if bytes < 1024 then decimal bytes @ js ''B''
      else if bytes < 1024 * 1024 then fixed1 bytes 1024 @ js ''KB''
      else fixed1 bytes (1024 * 1024) @ js ''MB'')"

subsection \<open>The end of a line\<close>

text \<open>The character that ends before position \<open>i > 0\<close>: where it starts, its bytes in UTF-8, and
  whether it is a surrogate without its partner.\<close>

definition character_before :: "js_string \<Rightarrow> nat \<Rightarrow> nat \<times> nat \<times> bool" where
  "character_before str i =
     (let characterStart = i - 1; code = str ! characterStart in
      if low_surrogate code \<and> characterStart > 0
      then (if high_surrogate (str ! (characterStart - 1)) then (characterStart - 1, 4, False)
            else (characterStart, 3, True))
      else if high_surrogate code \<or> low_surrogate code then (characterStart, 3, True)
      else (characterStart, if code \<le> 0x7f then 1 else if code \<le> 0x7ff then 2 else 3, False))"

lemma character_before_less:
  "character_before str i = (j, b, f) \<Longrightarrow> 0 < i \<Longrightarrow> j < i"
  by (auto simp: character_before_def Let_def split: if_splits)

function from_end_loop :: "js_string \<Rightarrow> nat \<Rightarrow> nat \<Rightarrow> nat \<Rightarrow> nat \<Rightarrow> bool \<Rightarrow> nat \<times> bool" where
  "from_end_loop str limit i bytes start_at needsReplacement =
     (if i = 0 then (start_at, needsReplacement)
      else case character_before str i of
        (characterStart, characterBytes, unpairedSurrogate) \<Rightarrow>
          if bytes + characterBytes > limit then (start_at, needsReplacement)
          else from_end_loop str limit characterStart (bytes + characterBytes) characterStart
                 (needsReplacement \<or> unpairedSurrogate))"
  by pat_completeness auto
termination
  by (relation "measure (\<lambda>(_, _, i, _, _, _). i)") (auto dest: character_before_less [OF sym])

declare from_end_loop.simps [simp del]

definition truncateStringToBytesFromEnd :: "js_string \<Rightarrow> nat \<Rightarrow> js_string" where
  "truncateStringToBytesFromEnd str limit =
     (if limit = 0 then []
      else let (start_at, needsReplacement) = from_end_loop str limit (length str) 0 (length str) False;
               output = js_slice (int start_at) None str
           in if needsReplacement then replaceUnpairedSurrogates output else output)"

subsection \<open>Truncation\<close>

definition untruncated :: "js_string \<Rightarrow> nat \<Rightarrow> nat \<Rightarrow> nat \<Rightarrow> nat \<Rightarrow> truncation_result" where
  "untruncated content lineCount byteCount maxLines maxBytes =
     \<lparr>t_content = content, truncated = False, truncatedBy = None, totalLines = lineCount, totalBytes = byteCount,
      outputLines = lineCount, outputBytes = byteCount, lastLinePartial = False, firstLineExceedsLimit = False,
      t_maxLines = maxLines, t_maxBytes = maxBytes\<rparr>"

text \<open>The loop that collects lines from the start: \<open>n\<close> lines are collected, with the bytes so far.\<close>

fun head_lines :: "bool \<Rightarrow> nat \<Rightarrow> nat \<Rightarrow> js_string list \<Rightarrow> nat \<Rightarrow> nat \<Rightarrow> js_string list \<times> nat \<times> limit_hit" where
  "head_lines buffer maxLines maxBytes [] n bytes = ([], bytes, ByLines)"
| "head_lines buffer maxLines maxBytes (l # ls) n bytes =
     (if n \<ge> maxLines then ([], bytes, ByLines)
      else let lineBytes = utf8ByteLength buffer l + (if n > 0 then 1 else 0)
           in if bytes + lineBytes > maxBytes then ([], bytes, ByBytes)
              else let (out, total, hit) = head_lines buffer maxLines maxBytes ls (n + 1) (bytes + lineBytes)
                   in (l # out, total, hit))"

definition truncateHead :: "bool \<Rightarrow> js_string \<Rightarrow> truncation_options \<Rightarrow> truncation_result" where
  "truncateHead buffer content options =
     (let maxLines = max_lines options;
          maxBytes = max_bytes options;
          byteCount = utf8ByteLength buffer content;
          ls = splitLinesForCounting content;
          lineCount = length ls
      in if lineCount \<le> maxLines \<and> byteCount \<le> maxBytes
         then untruncated content lineCount byteCount maxLines maxBytes
         else if utf8ByteLength buffer (hd ls) > maxBytes
         then \<lparr>t_content = [], truncated = True, truncatedBy = Some ByBytes, totalLines = lineCount,
               totalBytes = byteCount, outputLines = 0, outputBytes = 0, lastLinePartial = False,
               firstLineExceedsLimit = True, t_maxLines = maxLines, t_maxBytes = maxBytes\<rparr>
         else
           let (out, bytes, hit) = head_lines buffer maxLines maxBytes ls 0 0;
               hit' = (if length out \<ge> maxLines \<and> bytes \<le> maxBytes then ByLines else hit);
               outputContent = join [newline] out
           in \<lparr>t_content = outputContent, truncated = True, truncatedBy = Some hit', totalLines = lineCount,
               totalBytes = byteCount, outputLines = length out, outputBytes = utf8ByteLength buffer outputContent,
               lastLinePartial = False, firstLineExceedsLimit = False, t_maxLines = maxLines,
               t_maxBytes = maxBytes\<rparr>)"

text \<open>The loop from the last line backwards; \<open>out\<close> holds the lines kept so far, oldest first. The
  result says whether its only line is the end of a line that was too long.\<close>

fun tail_lines ::
  "bool \<Rightarrow> nat \<Rightarrow> nat \<Rightarrow> js_string list \<Rightarrow> js_string list \<Rightarrow> nat \<Rightarrow> js_string list \<times> nat \<times> limit_hit \<times> bool" where
  "tail_lines buffer maxLines maxBytes [] out bytes = (out, bytes, ByLines, False)"
| "tail_lines buffer maxLines maxBytes (l # older) out bytes =
     (if length out \<ge> maxLines then (out, bytes, ByLines, False)
      else let lineBytes = utf8ByteLength buffer l + (if out \<noteq> [] then 1 else 0)
           in if bytes + lineBytes > maxBytes
              then if out = []
                   then let truncatedLine = truncateStringToBytesFromEnd l maxBytes
                        in ([truncatedLine], utf8ByteLength buffer truncatedLine, ByBytes, True)
                   else (out, bytes, ByBytes, False)
              else tail_lines buffer maxLines maxBytes older (l # out) (bytes + lineBytes))"

definition truncateTail :: "bool \<Rightarrow> js_string \<Rightarrow> truncation_options \<Rightarrow> truncation_result" where
  "truncateTail buffer content options =
     (let maxLines = max_lines options;
          maxBytes = max_bytes options;
          byteCount = utf8ByteLength buffer content;
          ls = splitLinesForCounting content;
          lineCount = length ls
      in if lineCount \<le> maxLines \<and> byteCount \<le> maxBytes
         then untruncated content lineCount byteCount maxLines maxBytes
         else
           let (out, bytes, hit, partial) = tail_lines buffer maxLines maxBytes (rev ls) [] 0;
               hit' = (if length out \<ge> maxLines \<and> bytes \<le> maxBytes then ByLines else hit);
               outputContent = join [newline] out
           in \<lparr>t_content = outputContent, truncated = True, truncatedBy = Some hit', totalLines = lineCount,
               totalBytes = byteCount, outputLines = length out, outputBytes = utf8ByteLength buffer outputContent,
               lastLinePartial = partial, firstLineExceedsLimit = False, t_maxLines = maxLines,
               t_maxBytes = maxBytes\<rparr>)"

definition truncateLine :: "js_string \<Rightarrow> nat option \<Rightarrow> js_string \<times> bool" where
  "truncateLine line maxChars =
     (let m = case_option GREP_MAX_LINE_LENGTH id maxChars in
      if length line \<le> m then (line, False) else (take m line @ js ''... [truncated]'', True))"

end
