(* ===== verification/TruncateFacts.thy ===== *)
theory TruncateFacts
  imports Truncate "HOL-Library.Sublist"
begin

text \<open>
  Truncation keeps as much as the limits allow and never more: the byte count of the loop is the length of the
  encoding, whole lines are kept maximally from either end, and the end of an overlong line is the
  longest run of whole characters that fits, as a refinement of the operation on scalar values.
\<close>

subsection \<open>Byte lengths\<close>

definition scalar_bytes :: "nat \<Rightarrow> nat" where
  "scalar_bytes c = (if c < 0x80 then 1 else if c < 0x800 then 2 else if c < 0x10000 then 3 else 4)"

lemma length_scalar_utf8 [simp]: "length (scalar_utf8 c) = scalar_bytes c"
  by (simp add: scalar_utf8_def scalar_bytes_def)

definition bytes_of :: "js_string \<Rightarrow> nat" where
  "bytes_of s = sum_list (map scalar_bytes (scalars s))"

lemma length_textEncoder [simp]: "length (textEncoder_encode s) = bytes_of s"
  by (simp add: textEncoder_encode_def bytes_of_def length_concat comp_def)

lemma js_char_le: "(u :: js_char) \<le> 0x7f \<longleftrightarrow> unat u < 0x80" "(u :: js_char) \<le> 0x7ff \<longleftrightarrow> unat u < 0x800"
  by (auto simp: word_le_nat_alt)

lemmas surrogate_defs = high_surrogate_def low_surrogate_def

lemma count_bytes_eq: "count_bytes s = bytes_of s"
proof (induction s rule: count_bytes.induct)
  case (2 u)
  then show ?case using unat_js_char_less [of u] by (auto simp: bytes_of_def scalar_bytes_def js_char_le surrogate_defs)
next
  case (3 u v us)
  then show ?case using unat_js_char_less [of u] by (auto simp: bytes_of_def scalar_bytes_def js_char_le surrogate_defs)
qed (simp add: bytes_of_def)

lemma bytes_of_ascii: "\<forall>u \<in> set a. u \<le> 0x7f \<Longrightarrow> bytes_of (a @ s) = length a + bytes_of s"
proof (induction a)
  case (Cons u a)
  then have u: "unat u < 0x80" by (simp add: js_char_le)
  show ?case
    using Cons u by (cases "a @ s") (auto simp: bytes_of_def scalar_bytes_def surrogate_defs)
qed simp

lemma utf8ByteLength_eq [simp]: "utf8ByteLength buffer s = bytes_of s"
proof -
  let ?n = "length (takeWhile (\<lambda>u. u \<le> 0x7f) s)"
  have s: "s = takeWhile (\<lambda>u. u \<le> 0x7f) s @ drop ?n s"
    by (simp flip: dropWhile_eq_drop)
  have "\<forall>u \<in> set (takeWhile (\<lambda>u. u \<le> 0x7f) s). u \<le> 0x7f" by (auto dest: set_takeWhileD)
  from bytes_of_ascii [OF this, of "drop ?n s"] s have "bytes_of s = ?n + bytes_of (drop ?n s)" by metis
  moreover have "bytes_of s = length s" if "?n = length s"
    using that calculation by (simp add: bytes_of_def)
  ultimately show ?thesis by (simp add: utf8ByteLength_def Let_def count_bytes_eq)
qed

subsection \<open>Characters\<close>

definition splits_pair :: "js_string \<Rightarrow> js_string \<Rightarrow> bool" where
  "splits_pair xs ys \<longleftrightarrow> xs \<noteq> [] \<and> ys \<noteq> [] \<and> high_surrogate (last xs) \<and> low_surrogate (hd ys)"

lemma scalars_append: "\<not> splits_pair xs ys \<Longrightarrow> scalars (xs @ ys) = scalars xs @ scalars ys"
proof (induction xs rule: scalars.induct)
  case (2 u)
  then show ?case by (cases ys) (auto simp: splits_pair_def surrogate_defs)
next
  case (3 u v us)
  then show ?case by (auto simp: splits_pair_def split: if_splits)
qed simp

lemma well_formed_append: "\<not> splits_pair xs ys \<Longrightarrow> well_formed (xs @ ys) \<longleftrightarrow> well_formed xs \<and> well_formed ys"
proof (induction xs rule: well_formed.induct)
  case (2 u)
  then show ?case by (cases ys) (auto simp: splits_pair_def surrogate_defs)
next
  case (3 u v us)
  then show ?case by (auto simp: splits_pair_def split: if_splits)
qed simp

lemma bytes_of_append: "\<not> splits_pair xs ys \<Longrightarrow> bytes_of (xs @ ys) = bytes_of xs + bytes_of ys"
  by (simp add: bytes_of_def scalars_append)

lemma plain_Cons:
  assumes "\<not> high_surrogate u" "\<not> low_surrogate u"
  shows "scalars (u # s) = unat u # scalars s" "well_formed (u # s) \<longleftrightarrow> well_formed s"
  using assms by (cases s; simp)+

lemma replacement_plain: "\<not> high_surrogate 0xfffd" "\<not> low_surrogate 0xfffd" "unat (0xfffd :: js_char) = 0xfffd"
  by (simp_all add: surrogate_defs)

lemma replaceUnpairedSurrogates_correct:
  "scalars (replaceUnpairedSurrogates s) = scalars s \<and> well_formed (replaceUnpairedSurrogates s)"
proof (induction s rule: replaceUnpairedSurrogates.induct)
  case (3 u v us)
  then show ?case by (auto simp: plain_Cons replacement_plain)
qed (auto simp: replacement_plain)

subsection \<open>The end of a line\<close>

text \<open>The abstract operation, on scalar values from the last one backwards.\<close>

fun fit :: "nat \<Rightarrow> nat list \<Rightarrow> nat list" where
  "fit n [] = []"
| "fit n (c # cs) = (if scalar_bytes c \<le> n then c # fit (n - scalar_bytes c) cs else [])"

definition keep_end :: "nat \<Rightarrow> nat list \<Rightarrow> nat list" where
  "keep_end n cs = rev (fit n (rev cs))"

lemma keep_end_snoc:
  "keep_end n (cs @ [c]) = (if scalar_bytes c \<le> n then keep_end (n - scalar_bytes c) cs @ [c] else [])"
  by (simp add: keep_end_def)

lemma keep_end_Nil [simp]: "keep_end n [] = []"
  by (simp add: keep_end_def)

lemma fit_prefix: "prefix (fit n cs) cs"
  by (induction n cs rule: fit.induct) auto

lemma fit_bytes: "sum_list (map scalar_bytes (fit n cs)) \<le> n"
  by (induction n cs rule: fit.induct) auto

text \<open>One step back in the code units is one scalar value, and does not split a pair.\<close>

lemma character_before_step:
  assumes "character_before (t @ u) (length t) = (j, b, lone)" "t \<noteq> []" "\<not> splits_pair t u"
  obtains t' c where "t = t' @ drop j t" "j = length t'" "\<not> splits_pair t' (drop j t @ u)"
    "scalars t = scalars t' @ [c]" "scalar_bytes c = b" "scalars (drop j t @ u) = c # scalars u"
    "well_formed (drop j t @ u) \<longleftrightarrow> \<not> lone \<and> well_formed u"
proof -
  obtain xs x where t: "t = xs @ [x]" using assms(2) by (cases t rule: rev_cases) auto
  show thesis
  proof (cases "xs \<noteq> [] \<and> high_surrogate (last xs) \<and> low_surrogate x")
    case True
    then obtain ys h where xs: "xs = ys @ [h]" by (cases xs rule: rev_cases) auto
    with True have h: "high_surrogate h" "low_surrogate x" "\<not> low_surrogate h" by (auto simp: surrogate_defs)
    let ?c = "0x10000 + (unat h - 0xD800) * 0x400 + (unat x - 0xDC00)"
    have j: "j = length ys" "b = 4" "\<not> lone"
      using assms(1) h by (auto simp: t xs character_before_def nth_append split: if_splits)
    have "\<not> splits_pair ys ([h, x] @ u)" "\<not> splits_pair ys [h, x]" using h by (auto simp: splits_pair_def)
    moreover from this(2) have "scalars t = scalars ys @ [?c]" by (simp add: t xs scalars_append h)
    ultimately show thesis using j h by (intro that [of ys ?c]) (auto simp: t xs scalar_bytes_def)
  next
    case False
    let ?c = "if high_surrogate x \<or> low_surrogate x then 0xFFFD else unat x"
    have j: "j = length xs" "lone \<longleftrightarrow> high_surrogate x \<or> low_surrogate x" "b = scalar_bytes ?c"
      using assms(1) False unat_js_char_less [of x]
      by (auto simp: t character_before_def Let_def nth_append last_conv_nth scalar_bytes_def js_char_le
          split: if_splits)
    have "\<not> splits_pair xs ([x] @ u)" "\<not> splits_pair xs [x]" "\<not> splits_pair [x] u"
      using False assms(3) by (auto simp: splits_pair_def t)
    then show thesis
      using j by (intro that [of xs ?c]) (auto simp: t scalars_append well_formed_append [of "[x]" u, simplified]
          scalars_append [of "[x]" u, simplified])
  qed
qed

lemma from_end_loop_spec:
  assumes "from_end_loop (t @ u) limit (length t) bytes (length t) (\<not> well_formed u) = (j, lone)"
    and "\<not> splits_pair t u" "bytes \<le> limit"
  shows "scalars (drop j (t @ u)) = keep_end (limit - bytes) (scalars t) @ scalars u
    \<and> (lone \<longleftrightarrow> \<not> well_formed (drop j (t @ u)))"
  using assms
proof (induction "length t" arbitrary: t u bytes rule: less_induct)
  case less
  show ?case
  proof (cases "t = []")
    case True
    with less.prems(1) show ?thesis by (auto simp: from_end_loop.simps)
  next
    case False
    obtain i b l where step: "character_before (t @ u) (length t) = (i, b, l)" by (metis prod_cases3)
    from character_before_step [OF step False less.prems(2)] obtain t' c
      where t': "t = t' @ drop i t" "i = length t'" "\<not> splits_pair t' (drop i t @ u)"
        and c: "scalars t = scalars t' @ [c]" "scalar_bytes c = b" "scalars (drop i t @ u) = c # scalars u"
        and wf: "well_formed (drop i t @ u) \<longleftrightarrow> \<not> l \<and> well_formed u" by blast
    show ?thesis
    proof (cases "bytes + b > limit")
      case True
      with less.prems(1) False step have "j = length t" "lone \<longleftrightarrow> \<not> well_formed u"
        by (auto simp: from_end_loop.simps [of _ _ "length t"])
      with True c less.prems(3) show ?thesis by (simp add: keep_end_snoc)
    next
      case fits: False
      have str: "t @ u = t' @ (drop i t @ u)" using t'(1) by (metis append.assoc)
      have "from_end_loop (t' @ (drop i t @ u)) limit (length t') (bytes + b) (length t')
          (\<not> well_formed (drop i t @ u)) = (j, lone)"
        using less.prems(1) False step fits wf t'(2)
        by (simp add: from_end_loop.simps [of _ _ "length t"] str disj_commute)
      moreover have "length t' < length t" using character_before_less [OF step] False t'(2) by simp
      moreover have "bytes + b \<le> limit" using fits by simp
      ultimately have "scalars (drop j (t @ u)) = keep_end (limit - (bytes + b)) (scalars t') @ c # scalars u
          \<and> (lone \<longleftrightarrow> \<not> well_formed (drop j (t @ u)))"
        using less.hyps [of t' "drop i t @ u" "bytes + b"] t'(3) unfolding str [symmetric] c(3) by blast
      with fits c show ?thesis by (simp add: keep_end_snoc)
    qed
  qed
qed

lemma end_refines:
  "scalars (truncateStringToBytesFromEnd str limit) = keep_end limit (scalars str)
    \<and> well_formed (truncateStringToBytesFromEnd str limit)"
proof -
  obtain j lone where loop: "from_end_loop str limit (length str) 0 (length str) False = (j, lone)" by fastforce
  then have spec: "scalars (drop j str) = keep_end limit (scalars str)" "lone \<longleftrightarrow> \<not> well_formed (drop j str)"
    using from_end_loop_spec [of str "[]" limit 0 j lone] by (auto simp: splits_pair_def)
  have "keep_end 0 cs = []" for cs
    by (cases cs rule: rev_cases) (simp_all add: keep_end_snoc scalar_bytes_def)
  with spec replaceUnpairedSurrogates_correct show ?thesis
    by (auto simp: truncateStringToBytesFromEnd_def loop)
qed

lemma end_within: "length (textEncoder_encode (truncateStringToBytesFromEnd str limit)) \<le> limit"
  using fit_bytes [of limit "rev (scalars str)"]
  by (simp add: bytes_of_def end_refines keep_end_def rev_map [symmetric])

text \<open>Cutting a line to its last bytes works on code units and refines the operation on
  characters: what remains is the longest end of the line, in whole characters, whose UTF-8 encoding fits
  the limit, with lone surrogates replaced as the encoding does, so it can be encoded and decoded again.\<close>

theorem truncateStringToBytesFromEnd_refines:
  "scalars (truncateStringToBytesFromEnd str limit) = keep_end limit (scalars str)
    \<and> well_formed (truncateStringToBytesFromEnd str limit)
    \<and> length (textEncoder_encode (truncateStringToBytesFromEnd str limit)) \<le> limit"
  using end_refines end_within by blast

subsection \<open>Whole lines\<close>

text \<open>Lines fit when neither their number nor the bytes of their text exceed the limits.\<close>

definition lines_fit :: "nat \<Rightarrow> nat \<Rightarrow> js_string list \<Rightarrow> bool" where
  "lines_fit maxLines maxBytes ls \<longleftrightarrow>
     length ls \<le> maxLines \<and> length (textEncoder_encode (join [newline] ls)) \<le> maxBytes"

lemma newline_plain: "\<not> high_surrogate newline" "\<not> low_surrogate newline" "bytes_of [newline] = 1"
  by (simp_all add: surrogate_defs bytes_of_def scalar_bytes_def)

lemma bytes_of_Nil [simp]: "bytes_of [] = 0"
  by (simp add: bytes_of_def)

lemma bytes_of_newline: "bytes_of (a @ newline # b) = bytes_of a + 1 + bytes_of b"
proof -
  have "bytes_of ([newline] @ b) = 1 + bytes_of b"
    using newline_plain by (subst bytes_of_append) (auto simp: splits_pair_def)
  moreover have "bytes_of (a @ (newline # b)) = bytes_of a + bytes_of (newline # b)"
    using newline_plain by (intro bytes_of_append) (auto simp: splits_pair_def)
  ultimately show ?thesis by simp
qed

lemma bytes_of_join_Cons:
  "bytes_of (join [newline] (l # ls)) = bytes_of l + (if ls \<noteq> [] then 1 else 0) + bytes_of (join [newline] ls)"
  by (simp add: join_cons bytes_of_newline)

lemma bytes_of_join_snoc:
  "bytes_of (join [newline] (ls @ [l])) = bytes_of (join [newline] ls) + bytes_of l + (if ls \<noteq> [] then 1 else 0)"
  by (induction ls) (simp_all add: bytes_of_join_Cons)

lemma head_lines_spec:
  assumes "head_lines buffer maxLines maxBytes ls (length kept) (bytes_of (join [newline] kept)) = (out, bs, hit)"
    and "lines_fit maxLines maxBytes kept"
  shows "lines_fit maxLines maxBytes (kept @ out)
    \<and> (\<exists>rest. ls = out @ rest \<and> (rest \<noteq> [] \<longrightarrow> \<not> lines_fit maxLines maxBytes (kept @ out @ [hd rest])))"
  using assms
proof (induction ls arbitrary: kept out bs hit)
  case (Cons l ls)
  show ?case
  proof (cases "lines_fit maxLines maxBytes (kept @ [l])")
    case True
    then obtain out' where out: "out = l # out'"
      "head_lines buffer maxLines maxBytes ls (length (kept @ [l])) (bytes_of (join [newline] (kept @ [l]))) = (out', bs, hit)"
      using Cons.prems(1)
      by (auto simp: lines_fit_def bytes_of_join_snoc Let_def add.assoc split: if_splits prod.splits)
    from Cons.IH [OF out(2) True] show ?thesis by (simp add: out(1))
  next
    case False
    with Cons.prems have "out = []"
      by (auto simp: lines_fit_def bytes_of_join_snoc Let_def add.assoc split: if_splits prod.splits)
    with False Cons.prems(2) show ?thesis by simp
  qed
qed simp

lemma tail_lines_spec:
  assumes "tail_lines buffer maxLines maxBytes older out (bytes_of (join [newline] out)) = (out', bs, hit, partial)"
    and "lines_fit maxLines maxBytes out"
  shows "if partial
    then out = [] \<and> (\<exists>l rest. older = l # rest \<and> out' = [truncateStringToBytesFromEnd l maxBytes] \<and> bytes_of l > maxBytes)
      \<and> 0 < maxLines
    else lines_fit maxLines maxBytes out'
      \<and> (\<exists>taken rest. older = taken @ rest \<and> out' = rev taken @ out
          \<and> (rest \<noteq> [] \<longrightarrow> \<not> lines_fit maxLines maxBytes (hd rest # out')))"
  using assms
proof (induction older arbitrary: out)
  case (Cons l older)
  show ?case
  proof (cases "lines_fit maxLines maxBytes (l # out)")
    case True
    then have "tail_lines buffer maxLines maxBytes older (l # out) (bytes_of (join [newline] (l # out))) =
        (out', bs, hit, partial)"
      using Cons.prems(1)
      by (auto simp: lines_fit_def bytes_of_join_Cons Let_def add.commute add.left_commute split: if_splits)
    note IH = Cons.IH [OF this True]
    then have "\<not> partial" by auto
    with IH obtain taken rest where "older = taken @ rest" "out' = rev taken @ l # out" "lines_fit maxLines maxBytes out'"
      "rest \<noteq> [] \<longrightarrow> \<not> lines_fit maxLines maxBytes (hd rest # out')" by auto
    then have "lines_fit maxLines maxBytes out' \<and> l # older = (l # taken) @ rest \<and> out' = rev (l # taken) @ out
      \<and> (rest \<noteq> [] \<longrightarrow> \<not> lines_fit maxLines maxBytes (hd rest # out'))" by simp
    with \<open>\<not> partial\<close> show ?thesis by (metis (no_types, lifting))
  next
    case False
    with Cons.prems show ?thesis
      by (auto simp: lines_fit_def bytes_of_join_Cons Let_def split: if_splits)
  qed
qed auto

text \<open>The longest prefix, and the longest suffix, that fits.\<close>

definition longest_prefix :: "nat \<Rightarrow> nat \<Rightarrow> js_string list \<Rightarrow> nat \<Rightarrow> bool" where
  "longest_prefix maxLines maxBytes ls k \<longleftrightarrow>
     k \<le> length ls \<and> lines_fit maxLines maxBytes (take k ls)
     \<and> (k < length ls \<longrightarrow> \<not> lines_fit maxLines maxBytes (take (Suc k) ls))"

definition longest_suffix :: "nat \<Rightarrow> nat \<Rightarrow> js_string list \<Rightarrow> nat \<Rightarrow> bool" where
  "longest_suffix maxLines maxBytes ls k \<longleftrightarrow>
     k \<le> length ls \<and> lines_fit maxLines maxBytes (drop (length ls - k) ls)
     \<and> (k < length ls \<longrightarrow> \<not> lines_fit maxLines maxBytes (drop (length ls - Suc k) ls))"

lemma lines_fit_Nil [simp]: "lines_fit maxLines maxBytes []"
  by (simp add: lines_fit_def)

lemma head_lines_longest:
  assumes "head_lines buffer maxLines maxBytes ls 0 0 = (out, bs, hit)"
  shows "take (length out) ls = out \<and> longest_prefix maxLines maxBytes ls (length out)"
proof -
  from head_lines_spec [of buffer maxLines maxBytes ls "[]" out bs hit] assms
  obtain rest where "ls = out @ rest" "lines_fit maxLines maxBytes out"
    "rest \<noteq> [] \<longrightarrow> \<not> lines_fit maxLines maxBytes (out @ [hd rest])" by auto
  then show ?thesis by (cases rest) (auto simp: longest_prefix_def)
qed

lemma tail_lines_longest:
  assumes "tail_lines buffer maxLines maxBytes (rev ls) [] 0 = (out, bs, hit, False)"
  shows "drop (length ls - length out) ls = out \<and> longest_suffix maxLines maxBytes ls (length out)"
proof -
  from tail_lines_spec [of buffer maxLines maxBytes "rev ls" "[]" out bs hit False] assms
  obtain taken rest where t: "rev ls = taken @ rest" "out = rev taken" "lines_fit maxLines maxBytes out"
    "rest \<noteq> [] \<longrightarrow> \<not> lines_fit maxLines maxBytes (hd rest # out)" by auto
  then have ls: "ls = rev rest @ out" by (metis rev_append rev_rev_ident)
  have "longest_suffix maxLines maxBytes ls (length out)"
  proof (cases rest)
    case (Cons l rest')
    then have "drop (length ls - Suc (length out)) ls = l # out" using ls by simp
    with t Cons ls show ?thesis by (simp add: longest_suffix_def)
  qed (use t ls in \<open>simp add: longest_suffix_def\<close>)
  then show ?thesis using ls by simp
qed

lemma tail_lines_partial:
  assumes "tail_lines buffer maxLines maxBytes (rev ls) [] 0 = (out, bs, hit, True)"
  shows "out = [truncateStringToBytesFromEnd (last ls) maxBytes] \<and> maxBytes < bytes_of (last ls) \<and> 0 < maxLines"
proof -
  have "tail_lines buffer maxLines maxBytes (rev ls) [] (bytes_of (join [newline] [])) = (out, bs, hit, True)"
    using assms by simp
  from tail_lines_spec [OF this] obtain l rest
    where "rev ls = l # rest" "out = [truncateStringToBytesFromEnd l maxBytes]" "maxBytes < bytes_of l" "0 < maxLines"
    by auto
  moreover from this(1) have "last ls = l" by (metis hd_rev list.sel(1))
  ultimately show ?thesis by simp
qed

lemma lines_nonempty: "content \<noteq> [] \<Longrightarrow> splitLinesForCounting content \<noteq> []"
proof -
  assume "content \<noteq> []"
  moreover have "butlast (split_on newline content) \<noteq> []" if "last content = newline" "content \<noteq> []"
  proof -
    have "split_on newline (xs @ [newline]) = split_on newline xs @ [[]]" for xs
      by (induction xs) auto
    with that show ?thesis by (metis append_butlast_last_id butlast_snoc split_on_ne)
  qed
  ultimately show ?thesis by (auto simp: splitLinesForCounting_def Let_def)
qed

text \<open>Property C38. Truncating from the head returns the content unchanged when it is within both limits, and
  otherwise the longest run of whole lines from the start that is: never part of a line and never more than
  either limit. The reported number of lines and of UTF-8 bytes are those of the result.\<close>

theorem truncateHead_longest:
  assumes "ls = splitLinesForCounting content" "r = truncateHead buffer content options"
  shows "(if truncated r
      then t_content r = join [newline] (take (outputLines r) ls)
        \<and> longest_prefix (t_maxLines r) (t_maxBytes r) ls (outputLines r)
      else t_content r = content \<and> outputLines r = length ls)
    \<and> outputBytes r = length (textEncoder_encode (t_content r))
    \<and> outputLines r \<le> t_maxLines r \<and> outputBytes r \<le> t_maxBytes r
    \<and> t_maxLines r = max_lines options
    \<and> t_maxBytes r = max_bytes options"
proof -
  define L where "L = max_lines options"
  define B where "B = max_bytes options"
  define whole where "whole \<longleftrightarrow> length ls \<le> L \<and> bytes_of content \<le> B"
  note r = assms(2) [unfolded truncateHead_def Let_def utf8ByteLength_eq, folded L_def B_def assms(1), folded whole_def]
  show ?thesis
  proof (cases whole)
    case True
    with r have "r = untruncated content (length ls) (bytes_of content) L B" by simp
    with True show ?thesis by (simp add: untruncated_def whole_def L_def B_def)
  next
    case False
    then have "ls \<noteq> []"
      using assms(1) lines_nonempty [of content] by (auto simp: splitLinesForCounting_def whole_def)
    show ?thesis
    proof (cases "B < bytes_of (hd ls)")
      case True
      then have "longest_prefix L B ls 0"
        using \<open>ls \<noteq> []\<close> by (cases ls) (auto simp: longest_prefix_def lines_fit_def)
      with True False r show ?thesis by (simp add: L_def B_def)
    next
      case inside: False
      obtain out bs hit where h: "head_lines buffer L B ls 0 0 = (out, bs, hit)" by (metis prod_cases3)
      note longest = head_lines_longest [OF h]
      then have "lines_fit L B out" by (metis longest_prefix_def)
      with False inside r h longest show ?thesis by (simp add: lines_fit_def flip: L_def B_def)
    qed
  qed
qed

theorem truncateHead_longest_witness:
  "outputLines (truncateHead True (js ''abc'') \<lparr>o_maxLines = Some 5, o_maxBytes = Some 2\<rparr>) \<le> 5"
  using truncateHead_longest [of "splitLinesForCounting (js ''abc'')" "js ''abc''"
      "truncateHead True (js ''abc'') \<lparr>o_maxLines = Some 5, o_maxBytes = Some 2\<rparr>" True
      "\<lparr>o_maxLines = Some 5, o_maxBytes = Some 2\<rparr>"] by (simp add: max_lines_def)

text \<open>Truncating from the tail returns the content unchanged when it is within both limits, and
  otherwise the longest run of whole lines up to the end that is; only when the last line alone exceeds the
  byte limit is it the end of that line, whole characters that fit.\<close>

theorem truncateTail_longest:
  assumes "ls = splitLinesForCounting content" "r = truncateTail buffer content options"
  shows "(if \<not> truncated r then t_content r = content \<and> outputLines r = length ls
      else if lastLinePartial r
      then t_content r = truncateStringToBytesFromEnd (last ls) (t_maxBytes r)
        \<and> length (textEncoder_encode (last ls)) > t_maxBytes r \<and> outputLines r = 1
      else t_content r = join [newline] (drop (length ls - outputLines r) ls)
        \<and> longest_suffix (t_maxLines r) (t_maxBytes r) ls (outputLines r))
    \<and> outputBytes r = length (textEncoder_encode (t_content r))
    \<and> outputLines r \<le> t_maxLines r \<and> outputBytes r \<le> t_maxBytes r
    \<and> t_maxLines r = max_lines options \<and> t_maxBytes r = max_bytes options"
proof -
  define L where "L = max_lines options"
  define B where "B = max_bytes options"
  define whole where "whole \<longleftrightarrow> length ls \<le> L \<and> bytes_of content \<le> B"
  note r = assms(2) [unfolded truncateTail_def Let_def utf8ByteLength_eq, folded L_def B_def assms(1), folded whole_def]
  show ?thesis
  proof (cases whole)
    case True
    with r have "r = untruncated content (length ls) (bytes_of content) L B" by simp
    with True show ?thesis by (simp add: untruncated_def whole_def L_def B_def)
  next
    case False
    obtain out bs hit partial where t: "tail_lines buffer L B (rev ls) [] 0 = (out, bs, hit, partial)"
      by (metis prod_cases4)
    show ?thesis
    proof (cases partial)
      case True
      then have "tail_lines buffer L B (rev ls) [] 0 = (out, bs, hit, True)" using t by simp
      note last = tail_lines_partial [OF this]
      moreover have "bytes_of (truncateStringToBytesFromEnd (last ls) B) \<le> B"
        using end_within [of "last ls" B] by simp
      ultimately show ?thesis using r False True t by (simp flip: L_def B_def)
    next
      case whole_lines: False
      then have "tail_lines buffer L B (rev ls) [] 0 = (out, bs, hit, False)" using t by simp
      note longest = tail_lines_longest [OF this]
      then have "lines_fit L B out" by (metis longest_suffix_def)
      with longest r False whole_lines t show ?thesis by (simp add: lines_fit_def flip: L_def B_def)
    qed
  qed
qed

theorem truncateTail_longest_witness:
  "outputBytes (truncateTail False (js ''abc'') \<lparr>o_maxLines = Some 5, o_maxBytes = Some 2\<rparr>) \<le> 2"
  using truncateTail_longest [of "splitLinesForCounting (js ''abc'')" "js ''abc''"
      "truncateTail False (js ''abc'') \<lparr>o_maxLines = Some 5, o_maxBytes = Some 2\<rparr>" False
      "\<lparr>o_maxLines = Some 5, o_maxBytes = Some 2\<rparr>"] by (simp add: max_bytes_def)

text \<open>A text of one line that fits the byte limit exactly, with a newline after it, is
  truncated (the newline is dropped), and the result says that the line limit was hit, although the one line is within
  it and only the bytes exceed their limit.\<close>

theorem newline_reported_as_line_limit:
  assumes "newline \<notin> set line" "maxBytes = length (textEncoder_encode line)" "0 < maxLines"
    and "options = \<lparr>o_maxLines = Some maxLines, o_maxBytes = Some maxBytes\<rparr>"
  shows "truncated (truncateHead buffer (line @ [newline]) options)
    \<and> truncatedBy (truncateHead buffer (line @ [newline]) options) = Some ByLines
    \<and> truncatedBy (truncateTail buffer (line @ [newline]) options) = Some ByLines
    \<and> totalLines (truncateHead buffer (line @ [newline]) options) = 1 \<and> 1 \<le> maxLines
    \<and> t_content (truncateHead buffer (line @ [newline]) options) = line"
proof -
  have ls: "splitLinesForCounting (line @ [newline]) = [line]"
    using split_on_append [OF assms(1), of "[]"] by (simp add: splitLinesForCounting_def)
  have bytes: "bytes_of (line @ [newline]) = bytes_of line + 1" using bytes_of_newline [of line "[]"] by simp
  show ?thesis
    using assms(2-4) by (simp add: truncateHead_def truncateTail_def Let_def ls bytes max_lines_def max_bytes_def)
qed

theorem newline_reported_as_line_limit_witness:
  "truncatedBy (truncateHead True (js ''abc'' @ [newline]) \<lparr>o_maxLines = Some 5, o_maxBytes = Some 3\<rparr>) = Some ByLines"
proof -
  have "newline \<notin> set (js ''abc'')" "3 = length (textEncoder_encode (js ''abc''))"
    by (simp_all add: js_def bytes_of_def scalar_bytes_def surrogate_defs)
  from newline_reported_as_line_limit [OF this, of 5] show ?thesis by simp
qed

end
