(* ===== verification/AgentLoop.thy ===== *)
theory AgentLoop
  imports Messages
begin

text \<open>
  \<^verbatim>\<open>packages/agent/src/agent-loop.ts\<close>: the loop that streams an assistant response, executes its tool calls
  and continues until nothing is left to do. Everything the loop awaits is a parameter, a field of
  \<open>agent_config\<close>: the provider, the tools, the hooks, the message queues and the abort signal. Each is asked at most
  once per turn and call, so it is a function of the number of the turn (and of the call), which covers
  any behaviour it may have over time, but not that a tool sees what another tool of the same message has done: the outcome of
  a call is the same in the sequential and in the parallel mode. What is emitted is the list of events. A hook that throws gives
  the text of the error on the left; the hooks that must not throw by their contract do not. The trace output and the
  resolution of the API key do not change what the loop does and are left out.
\<close>

subsection \<open>Tools and hooks\<close>

type_synonym tool_args = "(js_string \<times> js_value) list"

record tool_call =
  tc_id :: js_string
  tc_name :: js_string
  tc_arguments :: tool_args

record tool_result =
  tr_content :: "text_block list option"
  tr_details :: "js_value option"
  tr_usage :: "usage option"
  tr_addedToolNames :: "js_string list"
  tr_terminate :: "bool option"

datatype tool_execution_mode = Sequential | Concurrent

text \<open>A run of a tool: the updates it reports, grouped by the microtask that flushes them, and what it
  returns or throws.\<close>

record tool_run =
  run_updates :: "tool_result list list"
  run_outcome :: "js_string + tool_result"

record agent_tool =
  t_name :: js_string
  executionMode :: "tool_execution_mode option"
  prepareArguments :: "(tool_args \<Rightarrow> js_string + tool_args) option"
  validateArguments :: "tool_args \<Rightarrow> js_string + tool_args"
  execute :: "nat \<Rightarrow> nat \<Rightarrow> js_string \<Rightarrow> tool_args \<Rightarrow> tool_run"

record agent_context =
  x_systemPrompt :: js_string
  x_messages :: "agent_message list"
  x_tools :: "agent_tool list"

record before_result =
  block :: bool
  reason :: "js_string option"

record after_result =
  af_content :: "text_block list option"
  af_details :: "js_value option"
  af_isError :: "bool option"
  af_usage :: "usage option"
  af_terminate :: "bool option"

datatype agent_event =
    AgentStart
  | AgentEnd "agent_message list"
  | TurnStart
  | TurnEnd assistant_message "agent_message list"
  | MessageStart agent_message
  | MessageUpdate agent_message
  | MessageEnd agent_message
  | ToolExecutionStart tool_call
  | ToolExecutionUpdate tool_call tool_result
  | ToolExecutionEnd tool_call tool_result bool

text \<open>The events of a response: it starts with a partial message, the text, thinking and tool-call events replace
  it, and \<open>done\<close> or \<open>error\<close> closes it; \<open>result()\<close> is the final message.\<close>

datatype stream_event = StreamStart assistant_message | StreamPartial assistant_message | StreamClosed

record llm_stream =
  stream_events :: "stream_event list"
  stream_result :: assistant_message

record llm_context =
  lc_systemPrompt :: js_string
  lc_messages :: "agent_message list"
  lc_tools :: "agent_tool list"

record turn_update =
  n_context :: "agent_context option"
  n_model :: "js_string option"
  n_thinkingLevel :: "js_string option"

text \<open>Where the abort signal is read for a call: after the hook before it, before it is handed out, and
  after it in the loop over the calls.\<close>

datatype abort_point = AfterHook | BeforeRun | AfterCall

record agent_config =
  l_model :: js_string
  l_reasoning :: "js_string option"
  l_convertToLlm :: "agent_message list \<Rightarrow> agent_message list"
  transformContext :: "(nat \<Rightarrow> agent_message list \<Rightarrow> agent_message list) option"
  streamFn :: "nat \<Rightarrow> js_string \<Rightarrow> js_string option \<Rightarrow> llm_context \<Rightarrow> js_string + llm_stream"
  getSteeringMessages :: "nat \<Rightarrow> agent_message list"
  getFollowUpMessages :: "nat \<Rightarrow> agent_message list"
  prepareNextTurn :: "nat \<Rightarrow> assistant_message \<Rightarrow> agent_message list \<Rightarrow> agent_context \<Rightarrow> agent_message list
    \<Rightarrow> turn_update option"
  shouldStopAfterTurn :: "nat \<Rightarrow> assistant_message \<Rightarrow> agent_message list \<Rightarrow> agent_context \<Rightarrow> agent_message list \<Rightarrow> bool"
  toolExecution :: tool_execution_mode
  beforeToolCall :: "(nat \<Rightarrow> nat \<Rightarrow> tool_call \<Rightarrow> tool_args \<Rightarrow> js_string + before_result option) option"
  afterToolCall :: "(nat \<Rightarrow> nat \<Rightarrow> tool_call \<Rightarrow> tool_args \<Rightarrow> tool_result \<Rightarrow> bool \<Rightarrow> js_string + after_result option) option"
  aborted_at :: "nat \<Rightarrow> nat \<Rightarrow> abort_point \<Rightarrow> bool"
  interleave :: "nat \<Rightarrow> agent_event list list \<Rightarrow> agent_event list"
  clock :: "nat \<Rightarrow> nat \<Rightarrow> int"

subsection \<open>Streaming a response\<close>

definition set_last :: "'a \<Rightarrow> 'a list \<Rightarrow> 'a list" where
  "set_last x xs = xs[length xs - 1 := x]"

definition finish_response ::
  "bool \<Rightarrow> assistant_message \<Rightarrow> agent_message list \<Rightarrow> agent_event list \<times> agent_message list" where
  "finish_response addedPartial final messages =
     (if addedPartial then ([MessageEnd (AssistantMessage final)], set_last (AssistantMessage final) messages)
      else ([MessageStart (AssistantMessage final), MessageEnd (AssistantMessage final)],
            messages @ [AssistantMessage final]))"

fun consume :: "assistant_message \<Rightarrow> bool \<Rightarrow> stream_event list \<Rightarrow> agent_message list
     \<Rightarrow> agent_event list \<times> agent_message list" where
  "consume final addedPartial [] messages = finish_response addedPartial final messages"
| "consume final addedPartial (StreamStart m # es) messages =
     (let (events, messages') = consume final True es (messages @ [AssistantMessage m])
      in (MessageStart (AssistantMessage m) # events, messages'))"
| "consume final addedPartial (StreamPartial m # es) messages =
     (if addedPartial
      then let (events, messages') = consume final True es (set_last (AssistantMessage m) messages)
           in (MessageUpdate (AssistantMessage m) # events, messages')
      else consume final False es messages)"
| "consume final addedPartial (StreamClosed # es) messages = finish_response addedPartial final messages"

definition streamAssistantResponse ::
  "agent_config \<Rightarrow> nat \<Rightarrow> agent_context
     \<Rightarrow> js_string + (agent_event list \<times> agent_context \<times> assistant_message)" where
  "streamAssistantResponse config n context =
     (let messages = (case transformContext config of None \<Rightarrow> x_messages context | Some f \<Rightarrow> f n (x_messages context));
          llmContext = \<lparr>lc_systemPrompt = x_systemPrompt context, lc_messages = l_convertToLlm config messages,
            lc_tools = x_tools context\<rparr>
      in and_then (streamFn config n (l_model config) (l_reasoning config) llmContext) (\<lambda>response.
           let (events, messages') = consume (stream_result response) False (stream_events response) (x_messages context)
           in Inr (events, context\<lparr>x_messages := messages'\<rparr>, stream_result response)))"

subsection \<open>Tool calls\<close>

definition tool_calls :: "assistant_message \<Rightarrow> tool_call list" where
  "tool_calls m = List.map_filter (\<lambda>b. case b of
     ToolCall i name args \<Rightarrow> Some \<lparr>tc_id = i, tc_name = name, tc_arguments = args\<rparr> | _ \<Rightarrow> None) (a_content m)"

definition createErrorToolResult :: "js_string \<Rightarrow> tool_result" where
  "createErrorToolResult message =
     \<lparr>tr_content = Some [TextContent message], tr_details = Some (JObject plain_object []), tr_usage = None,
      tr_addedToolNames = [], tr_terminate = None\<rparr>"

record finalized_call =
  f_call :: tool_call
  f_result :: tool_result
  f_isError :: bool

definition createToolResultMessage :: "int \<Rightarrow> finalized_call \<Rightarrow> agent_message" where
  "createToolResultMessage now f =
     ToolResultMessage (tc_id (f_call f)) (tc_name (f_call f)) (case_option [] id (tr_content (f_result f)))
       (f_isError f) now"

definition emitToolExecutionEnd :: "finalized_call \<Rightarrow> agent_event list" where
  "emitToolExecutionEnd f = [ToolExecutionEnd (f_call f) (f_result f) (f_isError f)]"

definition emitToolResultMessage :: "agent_message \<Rightarrow> agent_event list" where
  "emitToolResultMessage m = [MessageStart m, MessageEnd m]"

definition shouldTerminateToolBatch :: "finalized_call list \<Rightarrow> bool" where
  "shouldTerminateToolBatch fs \<longleftrightarrow> fs \<noteq> [] \<and> list_all (\<lambda>f. tr_terminate (f_result f) = Some True) fs"

definition find_tool :: "agent_context \<Rightarrow> js_string \<Rightarrow> agent_tool option" where
  "find_tool context name = List.find (\<lambda>t. t_name t = name) (x_tools context)"

text \<open>What is prepared for a call: an outcome at once, or the tool and its arguments.\<close>

datatype preparation = Immediate tool_result bool | Prepared agent_tool tool_args

definition immediate_error :: "js_string \<Rightarrow> preparation" where
  "immediate_error message = Immediate (createErrorToolResult message) True"

definition prepareToolCallArguments :: "agent_tool \<Rightarrow> tool_call \<Rightarrow> js_string + tool_call" where
  "prepareToolCallArguments tool call =
     (case prepareArguments tool of
        None \<Rightarrow> Inr call
      | Some f \<Rightarrow> and_then (f (tc_arguments call)) (\<lambda>args. Inr (call\<lparr>tc_arguments := args\<rparr>)))"

definition prepareToolCall :: "agent_config \<Rightarrow> nat \<Rightarrow> agent_context \<Rightarrow> nat \<Rightarrow> tool_call \<Rightarrow> preparation" where
  "prepareToolCall config n context i call =
     (case find_tool context (tc_name call) of
        None \<Rightarrow> immediate_error (js ''Tool '' @ tc_name call @ js '' not found'')
      | Some tool \<Rightarrow>
          (case and_then (prepareToolCallArguments tool call) (\<lambda>prepared.
                and_then (validateArguments tool (tc_arguments prepared)) (\<lambda>args.
                case beforeToolCall config of
                  None \<Rightarrow> Inr (args, None)
                | Some hook \<Rightarrow> and_then (hook n i call args) (\<lambda>before. Inr (args, Some before)))) of
             Inl e \<Rightarrow> immediate_error e
           | Inr (args, hooked) \<Rightarrow>
               if hooked \<noteq> None \<and> aborted_at config n i AfterHook then immediate_error (js ''Operation aborted'')
               else case hooked of
                 Some (Some before) \<Rightarrow>
                   if block before
                   then immediate_error (case reason before of
                          None \<Rightarrow> js ''Tool execution was blocked''
                        | Some r \<Rightarrow> if r = [] then js ''Tool execution was blocked'' else r)
                   else if aborted_at config n i BeforeRun then immediate_error (js ''Operation aborted'')
                   else Prepared tool args
               | _ \<Rightarrow>
                   if aborted_at config n i BeforeRun then immediate_error (js ''Operation aborted'')
                   else Prepared tool args))"

text \<open>Of the updates that arrive before a flush only the latest is emitted.\<close>

definition update_events :: "tool_call \<Rightarrow> tool_result list list \<Rightarrow> agent_event list" where
  "update_events call groups = map (\<lambda>g. ToolExecutionUpdate call (last g)) (filter (\<lambda>g. g \<noteq> []) groups)"

definition executePreparedToolCall ::
  "nat \<Rightarrow> nat \<Rightarrow> tool_call \<Rightarrow> agent_tool \<Rightarrow> tool_args \<Rightarrow> agent_event list \<times> tool_result \<times> bool" where
  "executePreparedToolCall n i call tool args =
     (let run = execute tool n i (tc_id call) args
      in (update_events call (run_updates run),
          case run_outcome run of Inl e \<Rightarrow> (createErrorToolResult e, True) | Inr r \<Rightarrow> (r, False)))"

definition or_keep :: "'a option \<Rightarrow> 'a option \<Rightarrow> 'a option" where
  "or_keep new old = (case new of None \<Rightarrow> old | Some _ \<Rightarrow> new)"

definition finalizeExecutedToolCall ::
  "agent_config \<Rightarrow> nat \<Rightarrow> nat \<Rightarrow> tool_call \<Rightarrow> tool_args \<Rightarrow> tool_result \<Rightarrow> bool \<Rightarrow> finalized_call" where
  "finalizeExecutedToolCall config n i call args result isError =
     (case afterToolCall config of
        None \<Rightarrow> \<lparr>f_call = call, f_result = result, f_isError = isError\<rparr>
      | Some hook \<Rightarrow>
          (case hook n i call args result isError of
             Inl e \<Rightarrow> \<lparr>f_call = call, f_result = createErrorToolResult e, f_isError = True\<rparr>
           | Inr None \<Rightarrow> \<lparr>f_call = call, f_result = result, f_isError = isError\<rparr>
           | Inr (Some after) \<Rightarrow>
               \<lparr>f_call = call,
                f_result = result\<lparr>tr_content := or_keep (af_content after) (tr_content result),
                  tr_details := or_keep (af_details after) (tr_details result),
                  tr_usage := or_keep (af_usage after) (tr_usage result),
                  tr_terminate := or_keep (af_terminate after) (tr_terminate result)\<rparr>,
                f_isError = case_option isError id (af_isError after)\<rparr>))"

text \<open>A prepared call from its start to the end event: the events, and its outcome.\<close>

definition run_call ::
  "agent_config \<Rightarrow> nat \<Rightarrow> nat \<Rightarrow> tool_call \<Rightarrow> preparation \<Rightarrow> agent_event list \<times> finalized_call" where
  "run_call config n i call p =
     (case p of
        Immediate result isError \<Rightarrow>
          let f = \<lparr>f_call = call, f_result = result, f_isError = isError\<rparr> in (emitToolExecutionEnd f, f)
      | Prepared tool args \<Rightarrow>
          let (updates, result, isError) = executePreparedToolCall n i call tool args;
              f = finalizeExecutedToolCall config n i call args result isError
          in (updates @ emitToolExecutionEnd f, f))"

record tool_batch =
  b_messages :: "agent_message list"
  b_terminate :: bool

definition truncation_notice :: "js_string \<Rightarrow> js_string" where
  \<open>truncation_notice name =
     js ''Tool call "'' @ name @ js ''" was not executed: the response hit the output token limit, so its arguments may be truncated. Re-issue the tool call with complete arguments.''\<close>

fun fail_calls :: "agent_config \<Rightarrow> nat \<Rightarrow> nat \<Rightarrow> tool_call list \<Rightarrow> agent_event list \<times> agent_message list" where
  "fail_calls config n i [] = ([], [])"
| "fail_calls config n i (call # calls) =
     (let f = \<lparr>f_call = call, f_result = createErrorToolResult (truncation_notice (tc_name call)), f_isError = True\<rparr>;
          m = createToolResultMessage (clock config n i) f;
          (events, ms) = fail_calls config n (i + 1) calls
      in (ToolExecutionStart call # emitToolExecutionEnd f @ emitToolResultMessage m @ events, m # ms))"

definition failToolCallsFromTruncatedMessage ::
  "agent_config \<Rightarrow> nat \<Rightarrow> tool_call list \<Rightarrow> agent_event list \<times> tool_batch" where
  "failToolCallsFromTruncatedMessage config n calls =
     (let (events, ms) = fail_calls config n 0 calls in (events, \<lparr>b_messages = ms, b_terminate = False\<rparr>))"

fun sequential_calls ::
  "agent_config \<Rightarrow> nat \<Rightarrow> agent_context \<Rightarrow> nat \<Rightarrow> tool_call list
     \<Rightarrow> agent_event list \<times> agent_message list \<times> finalized_call list" where
  "sequential_calls config n context i [] = ([], [], [])"
| "sequential_calls config n context i (call # calls) =
     (let (events, f) = run_call config n i call (prepareToolCall config n context i call);
          m = createToolResultMessage (clock config n i) f;
          here = ToolExecutionStart call # events @ emitToolResultMessage m
      in if aborted_at config n i AfterCall then (here, [m], [f])
         else let (events', ms, fs) = sequential_calls config n context (i + 1) calls
              in (here @ events', m # ms, f # fs))"

definition executeToolCallsSequential ::
  "agent_config \<Rightarrow> nat \<Rightarrow> agent_context \<Rightarrow> tool_call list \<Rightarrow> agent_event list \<times> tool_batch" where
  "executeToolCallsSequential config n context calls =
     (let (events, ms, fs) = sequential_calls config n context 0 calls
      in (events, \<lparr>b_messages = ms, b_terminate = shouldTerminateToolBatch fs\<rparr>))"

text \<open>The loop over the prepared calls: the calls it reaches before the abort signal, in order.\<close>

fun reached :: "agent_config \<Rightarrow> nat \<Rightarrow> nat \<Rightarrow> 'a list \<Rightarrow> (nat \<times> 'a) list" where
  "reached config n i [] = []"
| "reached config n i (x # xs) =
     (i, x) # (if aborted_at config n i AfterCall then [] else reached config n (i + 1) xs)"

definition is_immediate :: "preparation \<Rightarrow> bool" where
  "is_immediate p = (case p of Immediate _ _ \<Rightarrow> True | _ \<Rightarrow> False)"

definition executeToolCallsParallel ::
  "agent_config \<Rightarrow> nat \<Rightarrow> agent_context \<Rightarrow> tool_call list \<Rightarrow> agent_event list \<times> tool_batch" where
  "executeToolCallsParallel config n context calls =
     (let preparations = map (\<lambda>(i, call). (call, prepareToolCall config n context i call)) (enumerate 0 calls);
          taken = map (\<lambda>(i, call, p). (i, p, run_call config n i call p)) (reached config n 0 preparations);
          immediate = concat (map (\<lambda>(i, p, events, f). if is_immediate p then events else []) taken);
          concurrent = interleave config n
            (map (\<lambda>(i, p, events, f). events) (filter (\<lambda>(i, p, events, f). \<not> is_immediate p) taken));
          ms = map (\<lambda>(i, p, events, f). createToolResultMessage (clock config n i) f) taken
      in (map ToolExecutionStart calls @ immediate @ concurrent @ concat (map emitToolResultMessage ms),
          \<lparr>b_messages = ms, b_terminate = shouldTerminateToolBatch (map (\<lambda>(i, p, events, f). f) taken)\<rparr>))"

definition has_sequential_call :: "agent_context \<Rightarrow> tool_call list \<Rightarrow> bool" where
  "has_sequential_call context calls =
     list_ex (\<lambda>call. case find_tool context (tc_name call) of
        None \<Rightarrow> False | Some t \<Rightarrow> executionMode t = Some Sequential) calls"

definition executeToolCalls ::
  "agent_config \<Rightarrow> nat \<Rightarrow> agent_context \<Rightarrow> tool_call list \<Rightarrow> agent_event list \<times> tool_batch" where
  "executeToolCalls config n context calls =
     (if toolExecution config = Sequential \<or> has_sequential_call context calls
      then executeToolCallsSequential config n context calls
      else executeToolCallsParallel config n context calls)"

subsection \<open>The loop\<close>

record loop_state =
  s_config :: agent_config
  s_context :: agent_context
  s_new :: "agent_message list"
  s_pending :: "agent_message list"
  s_firstTurn :: bool
  s_events :: "agent_event list"

datatype turn_result =
    NextTurn loop_state
  | LoopDone loop_state
  | LoopFailed js_string loop_state

definition message_events :: "agent_message list \<Rightarrow> agent_event list" where
  "message_events ms = concat (map (\<lambda>m. [MessageStart m, MessageEnd m]) ms)"

text \<open>The start of an iteration: the turn is announced and pending messages enter the context.\<close>

definition begin_turn :: "loop_state \<Rightarrow> loop_state" where
  "begin_turn s =
     s\<lparr>s_firstTurn := False, s_pending := [],
       s_context := (s_context s)\<lparr>x_messages := x_messages (s_context s) @ s_pending s\<rparr>,
       s_new := s_new s @ s_pending s,
       s_events := s_events s @ (if s_firstTurn s then [] else [TurnStart]) @ message_events (s_pending s)\<rparr>"

definition agent_end :: "loop_state \<Rightarrow> loop_state" where
  "agent_end s = s\<lparr>s_events := s_events s @ [AgentEnd (s_new s)]\<rparr>"

definition next_config :: "turn_update \<Rightarrow> agent_config \<Rightarrow> agent_config" where
  "next_config u config =
     config\<lparr>l_model := case_option (l_model config) id (n_model u),
       l_reasoning := (case n_thinkingLevel u of
          None \<Rightarrow> l_reasoning config
        | Some l \<Rightarrow> if l = js ''off'' then None else Some l)\<rparr>"

definition apply_update :: "turn_update option \<Rightarrow> loop_state \<Rightarrow> loop_state" where
  "apply_update u s =
     (case u of
        None \<Rightarrow> s
      | Some u' \<Rightarrow> s\<lparr>s_context := case_option (s_context s) id (n_context u'), s_config := next_config u' (s_config s)\<rparr>)"

text \<open>The tools of a message, run or refused.\<close>

definition run_tools :: "agent_config \<Rightarrow> nat \<Rightarrow> agent_context \<Rightarrow> assistant_message \<Rightarrow> agent_event list \<times> tool_batch" where
  "run_tools config n context message =
     (if a_stopReason message = Length
      then failToolCallsFromTruncatedMessage config n (tool_calls message)
      else executeToolCalls config n context (tool_calls message))"

text \<open>After a turn: more tool calls or steering messages keep the inner loop running; otherwise follow-up
  messages start the outer loop again, and without them the run ends.\<close>

definition end_of_turn :: "nat \<Rightarrow> bool \<Rightarrow> loop_state \<Rightarrow> turn_result" where
  "end_of_turn n hasMoreToolCalls s =
     (let steering = getSteeringMessages (s_config s) (n + 1) in
      if hasMoreToolCalls \<or> steering \<noteq> [] then NextTurn (s\<lparr>s_pending := steering\<rparr>)
      else let followUp = getFollowUpMessages (s_config s) n
           in if followUp \<noteq> [] then NextTurn (s\<lparr>s_pending := followUp\<rparr>) else LoopDone (agent_end s))"

text \<open>The state of a turn with the response, and with the results of its tools.\<close>

definition with_response :: "agent_event list \<Rightarrow> agent_context \<Rightarrow> assistant_message \<Rightarrow> loop_state \<Rightarrow> loop_state" where
  "with_response events ctx message s =
     s\<lparr>s_context := ctx, s_new := s_new s @ [AssistantMessage message], s_events := s_events s @ events\<rparr>"

definition with_results :: "agent_event list \<Rightarrow> agent_message list \<Rightarrow> assistant_message \<Rightarrow> loop_state \<Rightarrow> loop_state" where
  "with_results events results message s =
     s\<lparr>s_context := (s_context s)\<lparr>x_messages := x_messages (s_context s) @ results\<rparr>,
       s_new := s_new s @ results, s_events := s_events s @ events @ [TurnEnd message results]\<rparr>"

definition tools_of_turn :: "nat \<Rightarrow> assistant_message \<Rightarrow> loop_state \<Rightarrow> agent_event list \<times> tool_batch" where
  "tools_of_turn n message s =
     (if tool_calls message \<noteq> [] then run_tools (s_config s) n (s_context s) message
      else ([], \<lparr>b_messages = [], b_terminate = True\<rparr>))"

definition run_turn :: "nat \<Rightarrow> loop_state \<Rightarrow> turn_result" where
  "run_turn n s0 =
     (let s1 = begin_turn s0 in
      case streamAssistantResponse (s_config s1) n (s_context s1) of
        Inl e \<Rightarrow> LoopFailed e s1
      | Inr (events, ctx, message) \<Rightarrow>
          let s2 = with_response events ctx message s1 in
          if a_stopReason message = Error \<or> a_stopReason message = Aborted
          then LoopDone (agent_end (s2\<lparr>s_events := s_events s2 @ [TurnEnd message []]\<rparr>))
          else
            let (toolEvents, batch) = tools_of_turn n message s2;
                results = b_messages batch;
                s3 = with_results toolEvents results message s2;
                s4 = apply_update (prepareNextTurn (s_config s3) n message results (s_context s3) (s_new s3)) s3
            in if shouldStopAfterTurn (s_config s4) n message results (s_context s4) (s_new s4)
               then LoopDone (agent_end s4)
               else end_of_turn n (\<not> b_terminate batch) s4)"

partial_function (option) run_turns :: "nat \<Rightarrow> loop_state \<Rightarrow> ((js_string \<times> loop_state) + loop_state) option" where
  "run_turns n s =
     (case run_turn n s of
        NextTurn s' \<Rightarrow> run_turns (n + 1) s'
      | LoopDone s' \<Rightarrow> Some (Inr s')
      | LoopFailed e s' \<Rightarrow> Some (Inl (e, s')))"

definition runLoop ::
  "agent_config \<Rightarrow> agent_context \<Rightarrow> agent_message list \<Rightarrow> agent_event list
     \<Rightarrow> ((js_string \<times> loop_state) + loop_state) option" where
  "runLoop config context newMessages events =
     run_turns 0 \<lparr>s_config = config, s_context = context, s_new = newMessages,
       s_pending = getSteeringMessages config 0, s_firstTurn = True, s_events = events\<rparr>"

definition runAgentLoop ::
  "agent_message list \<Rightarrow> agent_context \<Rightarrow> agent_config \<Rightarrow> ((js_string \<times> loop_state) + loop_state) option" where
  "runAgentLoop prompts context config =
     runLoop config (context\<lparr>x_messages := x_messages context @ prompts\<rparr>) prompts
       ([AgentStart, TurnStart] @ message_events prompts)"

datatype continue_error = NoMessages | LastIsAssistant

definition runAgentLoopContinue ::
  "agent_context \<Rightarrow> agent_config \<Rightarrow> continue_error + ((js_string \<times> loop_state) + loop_state) option" where
  "runAgentLoopContinue context config =
     (if x_messages context = [] then Inl NoMessages
      else if message_role (last (x_messages context)) = Assistant then Inl LastIsAssistant
      else Inr (runLoop config context [] [AgentStart, TurnStart]))"

end
