(* ===== verification/AgentLoopFacts.thy ===== *)
theory AgentLoopFacts
  imports AgentLoop "HOL-Library.Multiset" "HOL-Library.Sublist"
begin

text \<open>
  What a run of the agent loop guarantees: its events are a complete log of the messages it adds, every tool
  call that is reached is answered once and in order, whichever way the calls are executed, and the run
  ends once the model stops asking for tools and the queues are empty.
\<close>

subsection \<open>The log of a run\<close>

text \<open>The messages whose end was announced.\<close>

definition ended :: "agent_event list \<Rightarrow> agent_message list" where
  "ended es = List.map_filter (\<lambda>e. case e of MessageEnd m \<Rightarrow> Some m | _ \<Rightarrow> None) es"

lemma ended_Nil [simp]: "ended [] = []"
  by (simp add: ended_def List.map_filter_def)

lemma ended_Cons [simp]: "ended (e # es) = (case e of MessageEnd m \<Rightarrow> m # ended es | _ \<Rightarrow> ended es)"
  by (simp add: ended_def List.map_filter_def split: agent_event.split)

lemma ended_append [simp]: "ended (es @ es') = ended es @ ended es'"
  by (simp add: ended_def List.map_filter_def)

lemma ended_message_events [simp]: "ended (message_events ms) = ms"
  by (induction ms) (auto simp: message_events_def)

definition tool_event :: "agent_event \<Rightarrow> bool" where
  "tool_event e = (case e of ToolExecutionStart _ \<Rightarrow> True | ToolExecutionUpdate _ _ \<Rightarrow> True
     | ToolExecutionEnd _ _ _ \<Rightarrow> True | _ \<Rightarrow> False)"

definition run_event :: "agent_event \<Rightarrow> bool" where
  "run_event e \<longleftrightarrow> e = AgentStart \<or> (\<exists>ms. e = AgentEnd ms)"

lemma ended_tool_events: "\<forall>e \<in> set es. tool_event e \<Longrightarrow> ended es = []"
  by (induction es) (auto simp: tool_event_def split: agent_event.splits)

text \<open>\<open>Promise.all\<close> runs the calls concurrently: their events are emitted in some common order, none is
  lost or added.\<close>

definition fair_interleave :: "agent_config \<Rightarrow> bool" where
  "fair_interleave config \<longleftrightarrow> (\<forall>n ess. mset (interleave config n ess) = mset (concat ess))"

lemma set_interleave: "fair_interleave config \<Longrightarrow> set (interleave config n ess) = \<Union> (set ` set ess)"
  by (metis fair_interleave_def set_concat set_mset_mset)

lemma consume_ended: "ended (fst (consume final added es ms)) = [AssistantMessage final]"
  by (induction final added es ms rule: consume.induct) (auto simp: finish_response_def split: prod.splits if_splits)

lemma consume_events: "e \<in> set (fst (consume final added es ms)) \<Longrightarrow> \<not> run_event e"
  by (induction final added es ms rule: consume.induct)
    (auto simp: finish_response_def run_event_def split: prod.splits if_splits)

text \<open>A response that starts at most once leaves exactly its final message in the context.\<close>

definition starts :: "stream_event list \<Rightarrow> nat" where
  "starts es = length (filter (\<lambda>e. case e of StreamStart _ \<Rightarrow> True | _ \<Rightarrow> False) es)"

lemma consume_added:
  "starts es = 0 \<Longrightarrow> snd (consume final True es (ms @ [p])) = ms @ [AssistantMessage final]"
proof (induction es arbitrary: p)
  case (Cons e es)
  then show ?case by (cases e) (auto simp: starts_def finish_response_def set_last_def case_prod_beta)
qed (simp add: finish_response_def set_last_def)

lemma consume_context:
  "starts es \<le> 1 \<Longrightarrow> snd (consume final False es ms) = ms @ [AssistantMessage final]"
proof (induction es)
  case (Cons e es)
  show ?case
  proof (cases e)
    case (StreamStart m)
    with Cons.prems have "starts es = 0" by (simp add: starts_def)
    from consume_added [OF this, of final ms "AssistantMessage m"] StreamStart show ?thesis
      by (simp add: case_prod_beta)
  qed (use Cons in \<open>auto simp: starts_def finish_response_def\<close>)
qed (simp add: finish_response_def)

subsection \<open>Tool batches\<close>

lemma run_call_events: "e \<in> set (fst (run_call config n i call p)) \<Longrightarrow> tool_event e"
  by (auto simp: run_call_def executePreparedToolCall_def update_events_def emitToolExecutionEnd_def tool_event_def Let_def
      split: preparation.splits prod.splits)

lemma run_call_call [simp]: "f_call (snd (run_call config n i call p)) = call"
  by (auto simp: run_call_def finalizeExecutedToolCall_def Let_def split: preparation.splits prod.splits option.splits sum.splits)

text \<open>The outcome of a call, and what is made of those that are reached.\<close>

definition outcome :: "agent_config \<Rightarrow> nat \<Rightarrow> agent_context \<Rightarrow> nat \<times> tool_call \<Rightarrow> finalized_call" where
  "outcome config n ctx = (\<lambda>(i, call). snd (run_call config n i call (prepareToolCall config n ctx i call)))"

definition batch_of :: "agent_config \<Rightarrow> nat \<Rightarrow> agent_context \<Rightarrow> tool_call list \<Rightarrow> tool_batch" where
  "batch_of config n ctx calls =
     (let taken = reached config n 0 calls in
      \<lparr>b_messages = map (\<lambda>(i, call). createToolResultMessage (clock config n i) (outcome config n ctx (i, call))) taken,
       b_terminate = shouldTerminateToolBatch (map (outcome config n ctx) taken)\<rparr>)"

lemma sequential_calls_reached:
  "fst (snd (sequential_calls config n ctx i calls)) =
     map (\<lambda>(i, call). createToolResultMessage (clock config n i) (outcome config n ctx (i, call))) (reached config n i calls)
   \<and> snd (snd (sequential_calls config n ctx i calls)) = map (outcome config n ctx) (reached config n i calls)"
  by (induction calls arbitrary: i) (auto simp: outcome_def Let_def case_prod_beta)

lemma sequential_batch: "snd (executeToolCallsSequential config n ctx calls) = batch_of config n ctx calls"
  using sequential_calls_reached [of config n ctx 0 calls]
  by (auto simp: executeToolCallsSequential_def batch_of_def Let_def split: prod.splits)

lemma reached_enumerate:
  "reached config n i (map g (enumerate i xs)) = map (\<lambda>p. (fst p, g p)) (reached config n i xs)"
  by (induction xs arbitrary: i) auto

lemma parallel_batch: "snd (executeToolCallsParallel config n ctx calls) = batch_of config n ctx calls"
  by (simp add: executeToolCallsParallel_def batch_of_def Let_def reached_enumerate outcome_def split_def comp_def)

text \<open>For fixed outcomes of the calls the two modes give the same batch, in the order of the calls.\<close>

theorem batch_independent_of_mode:
  "snd (executeToolCallsSequential config n ctx calls) = snd (executeToolCallsParallel config n ctx calls)
   \<and> snd (executeToolCalls config n ctx calls) = snd (executeToolCallsParallel config n ctx calls)"
  by (simp add: executeToolCalls_def sequential_batch parallel_batch)

text \<open>The calls that are reached are the first ones, and all of them without an abort.\<close>

lemma reached_prefix: "\<exists>k. map snd (reached config n i xs) = take k xs"
proof (induction xs arbitrary: i)
  case (Cons x xs)
  from Cons [of "i + 1"] obtain k where "map snd (reached config n (i + 1) xs) = take k xs" ..
  then have "map snd (reached config n i (x # xs)) = take (if aborted_at config n i AfterCall then 1 else Suc k) (x # xs)"
    by simp
  then show ?case by blast
qed simp

lemma reached_all: "\<forall>i. \<not> aborted_at config n i AfterCall \<Longrightarrow> map snd (reached config n i xs) = xs"
  by (induction xs arbitrary: i) auto

fun result_id :: "agent_message \<Rightarrow> js_string option" where
  "result_id (ToolResultMessage i _ _ _ _) = Some i"
| "result_id _ = None"

lemma batch_ids: "map result_id (b_messages (batch_of config n ctx calls)) = map (Some \<circ> tc_id) (map snd (reached config n 0 calls))"
  by (simp add: batch_of_def Let_def createToolResultMessage_def outcome_def case_prod_beta)

lemma executeToolCalls_batch: "snd (executeToolCalls config n ctx calls) = batch_of config n ctx calls"
  by (simp add: executeToolCalls_def sequential_batch parallel_batch)

lemma fail_calls_spec:
  "map result_id (snd (fail_calls config n i calls)) = map (Some \<circ> tc_id) calls
   \<and> list_all (\<lambda>m. \<exists>j t c now. m = ToolResultMessage j t c True now) (snd (fail_calls config n i calls))
   \<and> ended (fst (fail_calls config n i calls)) = snd (fail_calls config n i calls)
   \<and> (\<forall>e \<in> set (fst (fail_calls config n i calls)). \<not> run_event e \<and> (\<forall>c r. e \<noteq> ToolExecutionUpdate c r))"
  by (induction calls arbitrary: i)
    (auto simp: Let_def createToolResultMessage_def emitToolExecutionEnd_def emitToolResultMessage_def run_event_def case_prod_beta)

lemma sequential_events:
  "ended (fst (sequential_calls config n ctx i calls)) = fst (snd (sequential_calls config n ctx i calls))
   \<and> (\<forall>e \<in> set (fst (sequential_calls config n ctx i calls)). \<not> run_event e)"
proof (induction calls arbitrary: i)
  case (Cons call calls)
  let ?r = "run_call config n i call (prepareToolCall config n ctx i call)"
  have tools: "\<forall>e \<in> set (fst ?r). tool_event e" using run_call_events by blast
  then have "ended (fst ?r) = []" by (rule ended_tool_events)
  moreover have "\<forall>e \<in> set (fst ?r). \<not> run_event e"
    using tools by (auto simp: tool_event_def run_event_def)
  ultimately show ?case
    using Cons [of "i + 1"] by (auto simp: Let_def case_prod_beta emitToolResultMessage_def run_event_def)
qed simp

lemma parallel_events:
  assumes "fair_interleave config"
  shows "ended (fst (executeToolCallsParallel config n ctx calls)) = b_messages (snd (executeToolCallsParallel config n ctx calls))
    \<and> (\<forall>e \<in> set (fst (executeToolCallsParallel config n ctx calls)). \<not> run_event e)"
proof -
  define T where "T = map (\<lambda>(i, call, p). (i, p, run_call config n i call p)) (reached config n 0
    (map (\<lambda>(i, call). (call, prepareToolCall config n ctx i call)) (enumerate 0 calls)))"
  define imm where "imm = concat (map (\<lambda>(i, p, events, f). if is_immediate p then events else []) T)"
  define conc where "conc = interleave config n (map (\<lambda>(i, p, events, f). events) (filter (\<lambda>(i, p, events, f). \<not> is_immediate p) T))"
  define ms where "ms = map (\<lambda>(i, p, events, f). createToolResultMessage (clock config n i) f) T"
  define es where "es = map ToolExecutionStart calls @ imm @ conc"
  have all: "executeToolCallsParallel config n ctx calls = (es @ message_events ms,
      \<lparr>b_messages = ms, b_terminate = shouldTerminateToolBatch (map (\<lambda>(i, p, events, f). f) T)\<rparr>)"
    by (simp add: executeToolCallsParallel_def Let_def message_events_def emitToolResultMessage_def [abs_def]
        es_def imm_def conc_def ms_def T_def comp_assoc)
  have run: "tool_event e" if "(i, p, events, f) \<in> set T" "e \<in> set events" for i p events f e
  proof -
    from that(1) obtain call where "run_call config n i call p = (events, f)" by (auto simp: T_def)
    with that(2) run_call_events [of e config n i call p] show ?thesis by simp
  qed
  have "\<forall>e \<in> set imm. tool_event e" unfolding imm_def by (auto dest: run split: if_splits)
  moreover have "\<forall>e \<in> set conc. tool_event e" unfolding conc_def set_interleave [OF assms] by (auto dest: run)
  ultimately have tools: "\<forall>e \<in> set es. tool_event e" by (auto simp: es_def tool_event_def)
  then have "ended (es @ message_events ms) = ms" by (subst ended_append) (simp add: ended_tool_events)
  moreover have "\<not> run_event e" if "e \<in> set es \<or> e \<in> set (message_events ms)" for e
    using that tools by (auto simp: message_events_def tool_event_def run_event_def)
  ultimately show ?thesis unfolding all by auto
qed

lemma run_tools_events:
  assumes "fair_interleave config" "run_tools config n ctx m = (events, batch)"
  shows "ended events = b_messages batch \<and> (\<forall>e \<in> set events. \<not> run_event e)"
  using assms(2) fail_calls_spec [of config n 0 "tool_calls m"] sequential_events [of config n ctx 0 "tool_calls m"]
    parallel_events [OF assms(1), of n ctx "tool_calls m"]
  by (auto simp: run_tools_def failToolCallsFromTruncatedMessage_def executeToolCalls_def executeToolCallsSequential_def
      Let_def case_prod_beta split: if_splits)

subsection \<open>The invariant of the loop\<close>

definition logged :: "agent_message list \<Rightarrow> loop_state \<Rightarrow> bool" where
  "logged prompts s \<longleftrightarrow> fair_interleave (s_config s) \<and> ended (s_events s) = s_new s \<and> prefix prompts (s_new s)
     \<and> (\<exists>evs. s_events s = AgentStart # evs \<and> (\<forall>e \<in> set evs. \<not> run_event e))"

text \<open>The context the provider is given grows by what the run adds, as long as a hook that replaces it keeps its messages, and a
  response starts once, as the providers promise.\<close>

definition keeps_messages :: "agent_config \<Rightarrow> bool" where
  "keeps_messages config \<longleftrightarrow>
     (\<forall>n m r c ms u c'. prepareNextTurn config n m r c ms = Some u \<longrightarrow> n_context u = Some c' \<longrightarrow> x_messages c' = x_messages c)
     \<and> (\<forall>n m l c r. streamFn config n m l c = Inr r \<longrightarrow> starts (stream_events r) \<le> 1)"

lemma keeps_messagesD:
  "keeps_messages config \<Longrightarrow> prepareNextTurn config n m r c ms = Some u \<Longrightarrow> n_context u = Some c' \<Longrightarrow> x_messages c' = x_messages c"
  by (simp add: keeps_messages_def)

definition in_context :: "agent_message list \<Rightarrow> loop_state \<Rightarrow> bool" where
  "in_context base s \<longleftrightarrow> keeps_messages (s_config s) \<and> x_messages (s_context s) = base @ s_new s"

lemma logged_add:
  assumes "logged prompts s" "s_config s' = s_config s" "s_new s' = s_new s @ ms" "s_events s' = s_events s @ evs"
    and "ended evs = ms" "\<forall>e \<in> set evs. \<not> run_event e"
  shows "logged prompts s'"
proof -
  from assms(1) obtain old where "s_events s = AgentStart # old" "\<forall>e \<in> set old. \<not> run_event e"
    by (auto simp: logged_def)
  then have "s_events s' = AgentStart # (old @ evs)" "\<forall>e \<in> set (old @ evs). \<not> run_event e"
    using assms(4,6) by auto
  with assms show ?thesis unfolding logged_def by (auto simp: prefix_def)
qed

lemma logged_config:
  "logged prompts s \<Longrightarrow> fair_interleave (s_config s') \<Longrightarrow> s_new s' = s_new s \<Longrightarrow> s_events s' = s_events s \<Longrightarrow> logged prompts s'"
  by (simp add: logged_def)

lemma message_events_run: "e \<in> set (message_events ms) \<Longrightarrow> \<not> run_event e"
  by (auto simp: message_events_def run_event_def)

lemma begin_turn_logged: "logged prompts s \<Longrightarrow> logged prompts (begin_turn s)"
  by (erule logged_add [where ms = "s_pending s" and
        evs = "(if s_firstTurn s then [] else [TurnStart]) @ message_events (s_pending s)"])
    (auto simp: begin_turn_def run_event_def dest: message_events_run)

lemma apply_update_fair: "fair_interleave (s_config (apply_update u s)) \<longleftrightarrow> fair_interleave (s_config s)"
  by (simp add: apply_update_def fair_interleave_def next_config_def split: option.split)

lemma apply_update_simps [simp]:
  "s_new (apply_update u s) = s_new s" "s_events (apply_update u s) = s_events s"
  by (simp_all add: apply_update_def split: option.split)

lemma apply_update_logged: "logged prompts s \<Longrightarrow> logged prompts (apply_update u s)"
  by (simp add: logged_def apply_update_fair)

lemma stream_logged:
  assumes "streamAssistantResponse config n ctx = Inr (events, ctx', message)"
  shows "ended events = [AssistantMessage message] \<and> (\<forall>e \<in> set events. \<not> run_event e)
    \<and> (keeps_messages config \<longrightarrow> x_messages ctx' = x_messages ctx @ [AssistantMessage message])"
  using assms consume_ended consume_events consume_context
  by (fastforce simp: streamAssistantResponse_def Let_def and_then_eq_Inr keeps_messages_def case_prod_beta)

text \<open>What one turn keeps: an invariant of the states within a turn holds of the states it hands on, and of the
  state at whose end the run is over.\<close>

definition turn_keeps :: "(loop_state \<Rightarrow> bool) \<Rightarrow> turn_result \<Rightarrow> bool" where
  "turn_keeps I r =
     (case r of NextTurn s' \<Rightarrow> I s' | LoopDone s' \<Rightarrow> \<exists>s. I s \<and> s' = agent_end s | LoopFailed e s' \<Rightarrow> I s')"

lemma run_turn_keeps:
  assumes "I (begin_turn s)"
    and response: "\<And>events ctx message. streamAssistantResponse (s_config (begin_turn s)) n (s_context (begin_turn s))
        = Inr (events, ctx, message) \<Longrightarrow>
      I (with_response events ctx message (begin_turn s))"
    and results: "\<And>message events batch s'. I s' \<Longrightarrow> tools_of_turn n message s' = (events, batch) \<Longrightarrow>
      I (with_results events (b_messages batch) message s')"
    and ended: "\<And>message s'. I s' \<Longrightarrow> I (s'\<lparr>s_events := s_events s' @ [TurnEnd message []]\<rparr>)"
    and update: "\<And>m r s'. I s' \<Longrightarrow> I (apply_update (prepareNextTurn (s_config s') n m r (s_context s') (s_new s')) s')"
    and pending: "\<And>s' ms. I s' \<Longrightarrow> I (s'\<lparr>s_pending := ms\<rparr>)"
  shows "turn_keeps I (run_turn n s)"
proof -
  have finish: "turn_keeps I (end_of_turn n more s')" if "I s'" for s' more
    using that pending by (auto simp: turn_keeps_def end_of_turn_def Let_def)
  have over: "turn_keeps I (LoopDone (agent_end s'))" if "I s'" for s'
    using that by (auto simp: turn_keeps_def)
  show ?thesis
  proof (cases "streamAssistantResponse (s_config (begin_turn s)) n (s_context (begin_turn s))")
    case (Inl e)
    then show ?thesis using assms(1) by (simp add: run_turn_def Let_def turn_keeps_def)
  next
    case (Inr r)
    obtain events ctx message where r: "r = (events, ctx, message)" by (metis prod_cases3)
    let ?s2 = "with_response events ctx message (begin_turn s)"
    have s2: "I ?s2" using response Inr by (simp add: r)
    obtain toolEvents batch where t: "tools_of_turn n message ?s2 = (toolEvents, batch)" by fastforce
    show ?thesis
      by (simp add: run_turn_def Let_def Inr [unfolded r] t over finish ended [OF s2] update [OF results [OF s2 t]])
  qed
qed

lemma run_turn_logged:
  assumes "logged prompts s"
  shows "turn_keeps (logged prompts) (run_turn n s)"
proof (rule run_turn_keeps)
  have fair: "fair_interleave (s_config s')" if "logged prompts s'" for s' using that by (simp add: logged_def)
  show "logged prompts (begin_turn s)" by (rule begin_turn_logged [OF assms])
  then show "logged prompts (with_response events ctx message (begin_turn s))"
    if "streamAssistantResponse (s_config (begin_turn s)) n (s_context (begin_turn s)) = Inr (events, ctx, message)"
    for events ctx message
    using stream_logged [OF that] by (auto simp: with_response_def intro: logged_add)
  show "logged prompts (with_results events (b_messages batch) message s')"
    if "logged prompts s'" "tools_of_turn n message s' = (events, batch)" for message events batch s'
  proof (rule logged_add [OF that(1)])
    have "ended events = b_messages batch \<and> (\<forall>e \<in> set events. \<not> run_event e)"
      using that(2) run_tools_events [OF fair [OF that(1)]] by (auto simp: tools_of_turn_def split: if_splits)
    then show "ended (events @ [TurnEnd message (b_messages batch)]) = b_messages batch"
      "\<forall>e \<in> set (events @ [TurnEnd message (b_messages batch)]). \<not> run_event e"
      by (auto simp: run_event_def)
  qed (simp_all add: with_results_def)
  show "logged prompts (s'\<lparr>s_events := s_events s' @ [TurnEnd message []]\<rparr>)" if "logged prompts s'" for message s'
    by (rule logged_add [OF that, where ms = "[]" and evs = "[TurnEnd message []]"]) (simp_all add: run_event_def)
  show "logged prompts (apply_update (prepareNextTurn (s_config s') n m r (s_context s') (s_new s')) s')"
    if "logged prompts s'" for m r s' using that by (rule apply_update_logged)
  show "logged prompts (s'\<lparr>s_pending := ms\<rparr>)" if "logged prompts s'" for s' ms
    using that by (simp add: logged_def)
qed

lemma with_simps [simp]:
  "s_config (begin_turn s) = s_config s" "s_config (with_response events ctx message s) = s_config s"
  "s_config (with_results events results message s) = s_config s"
  by (simp_all add: begin_turn_def with_response_def with_results_def)

lemma keeps_next [simp]: "keeps_messages (next_config u config) \<longleftrightarrow> keeps_messages config"
  by (simp add: keeps_messages_def next_config_def)

lemma run_turn_in_context:
  assumes "in_context base s"
  shows "turn_keeps (in_context base) (run_turn n s)"
proof (rule run_turn_keeps)
  show first: "in_context base (begin_turn s)" using assms by (simp add: in_context_def begin_turn_def)
  show "in_context base (with_response events ctx message (begin_turn s))"
    if "streamAssistantResponse (s_config (begin_turn s)) n (s_context (begin_turn s)) = Inr (events, ctx, message)"
    for events ctx message
    using stream_logged [OF that] first by (simp add: in_context_def with_response_def)
  show "in_context base (with_results events (b_messages batch) message s')" if "in_context base s'" for message events batch s'
    using that by (simp add: in_context_def with_results_def)
  show "in_context base (apply_update (prepareNextTurn (s_config s') n m r (s_context s') (s_new s')) s')"
    if "in_context base s'" for m r s'
    using that by (auto simp: in_context_def apply_update_def dest: keeps_messagesD split: option.split)
qed (simp_all add: in_context_def)

lemma run_turns_keeps:
  assumes step: "\<And>n s. I s \<Longrightarrow> turn_keeps I (run_turn n s)"
    and "run_turns n s = Some r" "I s"
  shows "case r of Inl (e, s') \<Rightarrow> I s' | Inr s' \<Rightarrow> \<exists>s. I s \<and> s' = agent_end s"
proof -
  have "I s \<longrightarrow> (case r of Inl (e, s') \<Rightarrow> I s' | Inr s' \<Rightarrow> \<exists>s. I s \<and> s' = agent_end s)"
  proof (rule run_turns.raw_induct [OF _ assms(2)], rule impI)
    fix run n s r
    assume IH: "\<And>n s r. run n s = Some r \<Longrightarrow>
        I s \<longrightarrow> (case r of Inl (e, s') \<Rightarrow> I s' | Inr s' \<Rightarrow> \<exists>s. I s \<and> s' = agent_end s)"
      and body: "(case run_turn n s of NextTurn s' \<Rightarrow> run (n + 1) s' | LoopDone s' \<Rightarrow> Some (Inr s')
        | LoopFailed e s' \<Rightarrow> Some (Inl (e, s'))) = Some r"
      and "I s"
    from step [OF \<open>I s\<close>, of n] IH body show "case r of Inl (e, s') \<Rightarrow> I s' | Inr s' \<Rightarrow> \<exists>s. I s \<and> s' = agent_end s"
      by (cases "run_turn n s") (auto simp: turn_keeps_def)
  qed
  with assms(3) show ?thesis by blast
qed

text \<open>From turn \<open>k\<close> on the model asks for no more tools and both queues are empty.\<close>

definition quiet :: "nat \<Rightarrow> agent_config \<Rightarrow> bool" where
  "quiet k config \<longleftrightarrow>
     (\<forall>n \<ge> k. getSteeringMessages config (Suc n) = [] \<and> getFollowUpMessages config n = []
        \<and> (\<forall>m l c r. streamFn config n m l c = Inr r \<longrightarrow> tool_calls (stream_result r) = []))"

subsection \<open>A small run\<close>

text \<open>A provider that asks for a tool in its first response when \<open>asks\<close>, and answers otherwise; the tool
  is not known.\<close>

definition loop_answer :: "assistant_block \<Rightarrow> assistant_message" where
  "loop_answer b = \<lparr>a_content = [b], a_provider = js ''p'', a_model = js ''m'', a_usage = None, a_stopReason = Stop,
     a_errorMessage = None, a_timestamp = 0\<rparr>"

definition sample_config :: "bool \<Rightarrow> agent_config" where
  "sample_config asks = \<lparr>l_model = js ''m'', l_reasoning = None, l_convertToLlm = (\<lambda>ms. ms), transformContext = None,
     streamFn = (\<lambda>n _ _ _. Inr \<lparr>stream_events = [], stream_result = loop_answer
       (if n = 0 \<and> asks then ToolCall (js ''c'') (js ''read'') [] else TextBlock (js ''done''))\<rparr>),
     getSteeringMessages = (\<lambda>_. []), getFollowUpMessages = (\<lambda>_. []), prepareNextTurn = (\<lambda>_ _ _ _ _. None),
     shouldStopAfterTurn = (\<lambda>_ _ _ _ _. False), toolExecution = Concurrent, beforeToolCall = None, afterToolCall = None,
     aborted_at = (\<lambda>_ _ _. asks), interleave = (\<lambda>_. concat), clock = (\<lambda>_ _. 0)\<rparr>"

definition sample_context :: agent_context where
  "sample_context = \<lparr>x_systemPrompt = [], x_messages = [], x_tools = []\<rparr>"

definition sample_call :: "string \<Rightarrow> tool_call" where
  "sample_call i = \<lparr>tc_id = js i, tc_name = js ''read'', tc_arguments = []\<rparr>"

lemma sample_config_fair: "fair_interleave (sample_config asks)"
  by (simp add: fair_interleave_def sample_config_def)

lemma sample_tool_calls:
  "tool_calls (loop_answer (TextBlock t)) = []" "tool_calls (loop_answer (ToolCall i t a)) = [\<lparr>tc_id = i, tc_name = t, tc_arguments = a\<rparr>]"
  by (simp_all add: tool_calls_def loop_answer_def List.map_filter_def)

lemma sample_quiet: "quiet 1 (sample_config asks)"
  by (auto simp: quiet_def sample_config_def sample_tool_calls)

subsection \<open>Properties of a run\<close>

text \<open>The state a run starts in, and what holds where it ends.\<close>

abbreviation prompt_state :: "agent_message list \<Rightarrow> agent_context \<Rightarrow> agent_config \<Rightarrow> loop_state" where
  "prompt_state prompts ctx config \<equiv> \<lparr>s_config = config, s_context = ctx\<lparr>x_messages := x_messages ctx @ prompts\<rparr>,
     s_new = prompts, s_pending = getSteeringMessages config 0, s_firstTurn = True,
     s_events = [AgentStart, TurnStart] @ message_events prompts\<rparr>"

lemma runAgentLoop_turns: "runAgentLoop prompts ctx config = run_turns 0 (prompt_state prompts ctx config)"
  by (simp add: runAgentLoop_def runLoop_def)

lemma prompt_run_logged:
  assumes "fair_interleave config" "runAgentLoop prompts ctx config = Some r"
  shows "case r of Inl (e, s) \<Rightarrow> logged prompts s | Inr s \<Rightarrow> \<exists>s1. logged prompts s1 \<and> s = agent_end s1"
proof -
  have "logged prompts (prompt_state prompts ctx config)"
    using assms(1) by (auto simp: logged_def run_event_def dest: message_events_run)
  from run_turns_keeps [OF run_turn_logged _ this] assms(2) show ?thesis by (simp add: runAgentLoop_turns)
qed

lemma prompt_run_context:
  assumes "runAgentLoop prompts ctx config = Some (Inr s)" "keeps_messages config"
  shows "x_messages (s_context s) = x_messages ctx @ s_new s"
proof -
  have "in_context (x_messages ctx) (prompt_state prompts ctx config)" using assms(2) by (simp add: in_context_def)
  from run_turns_keeps [OF run_turn_in_context assms(1) [unfolded runAgentLoop_turns] this] show ?thesis
    by (auto simp: in_context_def agent_end_def)
qed

text \<open>The hook that \<open>AgentSession\<close> installs: it replaces the prompt, the tools, the model and the thinking level by the present ones, in
  the context of the hook before it or that of the turn. It keeps the messages.\<close>

definition refreshed_turn :: "agent_context \<Rightarrow> js_string \<Rightarrow> js_string \<Rightarrow> turn_update option \<Rightarrow> agent_context \<Rightarrow> turn_update" where
  "refreshed_turn present model level before turn_context =
     (let base = (case Option.bind before n_context of Some c \<Rightarrow> c | None \<Rightarrow> turn_context)
      in \<lparr>n_context = Some (base\<lparr>x_systemPrompt := x_systemPrompt present, x_tools := x_tools present\<rparr>),
          n_model = Some model, n_thinkingLevel = Some level\<rparr>)"

definition installAgentNextTurnRefresh ::
  "(nat \<Rightarrow> agent_context) \<Rightarrow> (nat \<Rightarrow> js_string) \<Rightarrow> (nat \<Rightarrow> js_string) \<Rightarrow> agent_config \<Rightarrow> agent_config" where
  "installAgentNextTurnRefresh present model level config =
     config\<lparr>prepareNextTurn := (\<lambda>n m r c ms. Some (refreshed_turn (present n) (model n) (level n) (prepareNextTurn config n m r c ms) c))\<rparr>"

lemma installed_keeps_messages: "keeps_messages config \<Longrightarrow> keeps_messages (installAgentNextTurnRefresh present model level config)"
  unfolding keeps_messages_def installAgentNextTurnRefresh_def
  by (auto simp: refreshed_turn_def Let_def split: option.split bind_splits)

lemma installed_fair [simp]:
  "fair_interleave (installAgentNextTurnRefresh present model level config) \<longleftrightarrow> fair_interleave config"
  by (simp add: fair_interleave_def installAgentNextTurnRefresh_def)

text \<open>Property C3. The events of a run that returns are a complete log: it starts with \<open>agent_start\<close> and ends with one
  \<open>agent_end\<close>, and the messages whose end it announces in between are, in order, exactly the messages that the run
  returns, the prompts first. When a \<open>prepareNextTurn\<close> hook that gives a context keeps its messages, as the one of \<open>AgentSession\<close>
  does, and responses start once, these are also exactly what the run added to the context the model is sent. (The agent harness gives a
  context that it builds anew from its session; for it the last clause says nothing.)\<close>

theorem runAgentLoop_log:
  assumes "fair_interleave config" "runAgentLoop prompts ctx config = Some (Inr s)"
  shows "ended (s_events s) = s_new s \<and> prefix prompts (s_new s)
    \<and> (\<exists>evs. s_events s = AgentStart # evs @ [AgentEnd (s_new s)] \<and> (\<forall>e \<in> set evs. \<not> run_event e))
    \<and> (keeps_messages config \<longrightarrow> x_messages (s_context s) = x_messages ctx @ s_new s)"
  using prompt_run_logged [OF assms] prompt_run_context [OF assms(2)]
  by (auto simp: logged_def agent_end_def)

lemma sample_run: "\<exists>s. runAgentLoop [] sample_context (sample_config False) = Some (Inr s)"
  by (simp add: runAgentLoop_def runLoop_def run_turns.simps run_turn_def begin_turn_def streamAssistantResponse_def
      sample_config_def tools_of_turn_def sample_tool_calls finish_response_def with_response_def with_results_def
      apply_update_def end_of_turn_def Let_def)

lemma sample_keeps: "keeps_messages (sample_config asks)"
  by (simp add: keeps_messages_def sample_config_def starts_def)

definition refreshed_config :: agent_config where
  "refreshed_config = installAgentNextTurnRefresh (\<lambda>_. sample_context\<lparr>x_systemPrompt := js ''new''\<rparr>) (\<lambda>_. js ''n'') (\<lambda>_. js ''off'')
     (sample_config False)"

lemma refreshed_run: "\<exists>s. runAgentLoop prompts sample_context refreshed_config = Some (Inr s)"
  by (simp add: runAgentLoop_def runLoop_def run_turns.simps run_turn_def begin_turn_def streamAssistantResponse_def refreshed_config_def
      installAgentNextTurnRefresh_def refreshed_turn_def sample_config_def tools_of_turn_def sample_tool_calls finish_response_def
      with_response_def with_results_def apply_update_def next_config_def end_of_turn_def Let_def)

theorem runAgentLoop_log_witness:
  "\<exists>s. runAgentLoop [] sample_context refreshed_config = Some (Inr s) \<and> ended (s_events s) = s_new s \<and> x_messages (s_context s) = s_new s"
proof -
  obtain s where s: "runAgentLoop [] sample_context refreshed_config = Some (Inr s)" using refreshed_run by blast
  have "fair_interleave refreshed_config" "keeps_messages refreshed_config"
    using sample_config_fair installed_keeps_messages [OF sample_keeps] by (simp_all add: refreshed_config_def)
  with runAgentLoop_log [OF _ s] s show ?thesis by (auto simp: sample_context_def)
qed

text \<open>Property C15. The tool calls of a message are answered in order, each at most once, by results with their ids: all of
  them unless the abort signal stops the batch, which still answers the first. When the message was cut off by the token limit, every
  call is answered by an error and the run goes on.\<close>

theorem tool_calls_answered:
  assumes "run_tools config n ctx message = (events, batch)" "tool_calls message \<noteq> []"
  shows "\<exists>k > 0. map result_id (b_messages batch) = map (Some \<circ> tc_id) (take k (tool_calls message))
    \<and> (a_stopReason message = Length \<or> (\<forall>i. \<not> aborted_at config n i AfterCall) \<longrightarrow> k = length (tool_calls message))
    \<and> (a_stopReason message = Length \<longrightarrow> \<not> b_terminate batch \<and>
        list_all (\<lambda>m. \<exists>j t c now. m = ToolResultMessage j t c True now) (b_messages batch))"
proof (cases "a_stopReason message = Length")
  case True
  with assms fail_calls_spec [of config n 0 "tool_calls message"] show ?thesis
    by (intro exI [of _ "length (tool_calls message)"])
      (auto simp: run_tools_def failToolCallsFromTruncatedMessage_def case_prod_beta)
next
  case False
  let ?k = "length (reached config n 0 (tool_calls message))"
  have batch: "batch = batch_of config n ctx (tool_calls message)"
    using assms(1) False executeToolCalls_batch [of config n ctx "tool_calls message"] by (simp add: run_tools_def)
  obtain k where "map snd (reached config n 0 (tool_calls message)) = take k (tool_calls message)"
    using reached_prefix by blast
  then have taken: "map snd (reached config n 0 (tool_calls message)) = take ?k (tool_calls message)"
    by (metis length_map length_take min.cobounded1 take_all_iff take_take min.commute min_def)
  have "?k > 0" using assms(2) by (cases "tool_calls message") auto
  moreover have "?k = length (tool_calls message)" if "\<forall>i. \<not> aborted_at config n i AfterCall"
    by (metis that reached_all length_map)
  ultimately show ?thesis
    using False taken by (intro exI [of _ ?k]) (simp add: batch batch_ids del: map_map)
qed

theorem tool_calls_answered_witness:
  "\<exists>events batch k. run_tools (sample_config True) 0 sample_context (loop_answer (ToolCall (js ''c'') (js ''read'') [])) = (events, batch)
     \<and> k > 0 \<and> map result_id (b_messages batch) = map (Some \<circ> tc_id) (take k [sample_call ''c''])"
proof -
  let ?m = "loop_answer (ToolCall (js ''c'') (js ''read'') [])"
  obtain events batch where run: "run_tools (sample_config True) 0 sample_context ?m = (events, batch)" by fastforce
  have "tool_calls ?m = [sample_call ''c'']" by (simp add: sample_tool_calls sample_call_def)
  with tool_calls_answered [OF run] run show ?thesis by auto
qed

lemma quiet_next [simp]: "quiet k (next_config u config) \<longleftrightarrow> quiet k config"
  by (simp add: quiet_def next_config_def)

lemma quiet_apply [simp]: "quiet k (s_config (apply_update u s)) \<longleftrightarrow> quiet k (s_config s)"
  by (simp add: apply_update_def split: option.split)

lemma run_turn_quiet: "quiet k (s_config s) \<Longrightarrow> turn_keeps (\<lambda>s. quiet k (s_config s)) (run_turn n s)"
  by (rule run_turn_keeps) simp_all

lemma stream_message:
  "streamAssistantResponse config n ctx = Inr (events, ctx', message) \<Longrightarrow>
     \<exists>m l c r. streamFn config n m l c = Inr r \<and> message = stream_result r"
  by (auto simp: streamAssistantResponse_def Let_def and_then_eq_Inr case_prod_beta)

lemma quiet_turn_stops:
  assumes "quiet k (s_config s)" "k \<le> n"
  shows "run_turn n s \<noteq> NextTurn s'"
proof (cases "streamAssistantResponse (s_config s) n (s_context (begin_turn s))")
  case (Inr r)
  obtain events ctx message where r: "r = (events, ctx, message)" by (metis prod_cases3)
  from stream_message [OF Inr [unfolded r]] assms have none: "tool_calls message = []"
    by (auto simp: quiet_def)
  have "end_of_turn n False s4 \<noteq> NextTurn s'" if "quiet k (s_config s4)" for s4
    using that assms(2) by (simp add: end_of_turn_def quiet_def)
  with Inr r none assms(1) show ?thesis by (auto simp: run_turn_def Let_def tools_of_turn_def)
qed (simp add: run_turn_def)

lemma quiet_returns:
  assumes "quiet k (s_config s)"
  shows "\<exists>r. run_turns n s = Some r"
  using assms
proof (induction "k - n" arbitrary: n s)
  case 0
  then show ?case
    using quiet_turn_stops [of k s n] by (cases "run_turn n s") (auto simp: run_turns.simps)
next
  case (Suc d)
  show ?case
  proof (cases "run_turn n s")
    case (NextTurn s')
    with run_turn_quiet [OF Suc.prems, of n] have "quiet k (s_config s')" by (simp add: turn_keeps_def)
    with Suc.hyps(1) [of "n + 1" s'] Suc.hyps(2) NextTurn show ?thesis by (simp add: run_turns.simps)
  qed (simp_all add: run_turns.simps)
qed

text \<open>Property C26. A run returns: when from some turn on the responses of the provider contain no tool calls and no
  steering or follow-up messages arrive, the loop ends, whatever happened before.\<close>

theorem runAgentLoop_returns:
  assumes "quiet k config"
  shows "\<exists>r. runAgentLoop prompts ctx config = Some r"
  using assms quiet_returns by (simp add: runAgentLoop_def runLoop_def)

theorem runAgentLoop_returns_witness: "\<exists>r. runAgentLoop [] sample_context (sample_config True) = Some r"
  by (rule runAgentLoop_returns [OF sample_quiet])

subsection \<open>Calls that are started but not ended\<close>

definition started_calls :: "agent_event list \<Rightarrow> tool_call list" where
  "started_calls es = List.map_filter (\<lambda>e. case e of ToolExecutionStart c \<Rightarrow> Some c | _ \<Rightarrow> None) es"

definition ended_calls :: "agent_event list \<Rightarrow> tool_call list" where
  "ended_calls es = List.map_filter (\<lambda>e. case e of ToolExecutionEnd c _ _ \<Rightarrow> Some c | _ \<Rightarrow> None) es"

lemma call_lists_append [simp]:
  "started_calls (xs @ ys) = started_calls xs @ started_calls ys" "ended_calls (xs @ ys) = ended_calls xs @ ended_calls ys"
  by (simp_all add: started_calls_def ended_calls_def List.map_filter_def)

lemma call_lists_simps [simp]:
  "started_calls [] = []" "ended_calls [] = []"
  "started_calls (e # es) = (case e of ToolExecutionStart c \<Rightarrow> c # started_calls es | _ \<Rightarrow> started_calls es)"
  "ended_calls (e # es) = (case e of ToolExecutionEnd c r b \<Rightarrow> c # ended_calls es | _ \<Rightarrow> ended_calls es)"
  by (simp_all add: started_calls_def ended_calls_def List.map_filter_def split: agent_event.split)

lemma call_lists_starts [simp]:
  "started_calls (map ToolExecutionStart calls) = calls" "ended_calls (map ToolExecutionStart calls) = []"
  by (induction calls) auto

lemma call_lists_messages [simp]: "started_calls (message_events ms) = []" "ended_calls (message_events ms) = []"
  by (induction ms) (auto simp: message_events_def)

lemma call_lists_updates [simp]: "started_calls (update_events c gs) = []" "ended_calls (update_events c gs) = []"
  by (induction gs) (auto simp: update_events_def)

lemma run_call_lists:
  "started_calls (fst (run_call config n i call p)) = []" "ended_calls (fst (run_call config n i call p)) = [call]"
  using run_call_call [of config n i call p]
  by (auto simp: run_call_def executePreparedToolCall_def emitToolExecutionEnd_def Let_def split: preparation.splits prod.splits)

lemma sequential_call_lists:
  "started_calls (fst (sequential_calls config n ctx i calls)) = map snd (reached config n i calls)
   \<and> ended_calls (fst (sequential_calls config n ctx i calls)) = map snd (reached config n i calls)"
  by (induction calls arbitrary: i)
    (auto simp: Let_def case_prod_beta emitToolResultMessage_def run_call_lists)

lemma call_lists_mset:
  "mset es = mset es' \<Longrightarrow> mset (started_calls es) = mset (started_calls es') \<and> mset (ended_calls es) = mset (ended_calls es')"
  by (auto simp: started_calls_def ended_calls_def List.map_filter_def)

text \<open>When calls run one by one, the calls whose start is announced are those whose end is, also when the
  abort signal stops the batch. When they run concurrently all starts are announced first: if the signal is aborted after the first
  call, the others are started but neither ended nor answered.\<close>

theorem aborted_calls_never_end:
  assumes "fair_interleave config" "aborted_at config n 0 AfterCall" "calls = call # others"
  shows "started_calls (fst (executeToolCallsSequential config n ctx calls)) = ended_calls (fst (executeToolCallsSequential config n ctx calls))
    \<and> started_calls (fst (executeToolCallsParallel config n ctx calls)) = calls
    \<and> ended_calls (fst (executeToolCallsParallel config n ctx calls)) = [call]
    \<and> length (b_messages (snd (executeToolCallsParallel config n ctx calls))) = 1"
proof -
  let ?p = "prepareToolCall config n ctx 0 call"
  let ?events = "fst (run_call config n 0 call ?p)"
  let ?conc = "interleave config n (if is_immediate ?p then [] else [?events])"
  have first: "reached config n 0 (map (\<lambda>(i, call). (call, prepareToolCall config n ctx i call)) (enumerate 0 calls))
      = [(0, call, ?p)]"
    using assms(2,3) by simp
  have "mset ?conc = mset (if is_immediate ?p then [] else ?events)"
    using assms(1) by (simp add: fair_interleave_def)
  note conc = call_lists_mset [OF this]
  have events: "fst (executeToolCallsParallel config n ctx calls) = map ToolExecutionStart calls
      @ (if is_immediate ?p then ?events else []) @ ?conc
      @ message_events (b_messages (snd (executeToolCallsParallel config n ctx calls)))"
    by (simp add: executeToolCallsParallel_def Let_def first message_events_def emitToolResultMessage_def case_prod_beta)
  have "started_calls ?conc = []" "ended_calls ?conc = (if is_immediate ?p then [] else [call])"
    using conc by (auto simp: run_call_lists split: if_splits)
  then have "started_calls (fst (executeToolCallsParallel config n ctx calls)) = calls"
    "ended_calls (fst (executeToolCallsParallel config n ctx calls)) = [call]"
    by (subst events, simp add: run_call_lists)+
  moreover have "length (b_messages (snd (executeToolCallsParallel config n ctx calls))) = 1"
    by (simp add: executeToolCallsParallel_def Let_def first case_prod_beta)
  ultimately show ?thesis
    using sequential_call_lists [of config n ctx 0 calls]
    by (simp add: executeToolCallsSequential_def case_prod_beta)
qed

theorem aborted_calls_never_end_witness:
  "started_calls (fst (executeToolCallsParallel (sample_config True) 0 sample_context [sample_call ''c'', sample_call ''d'']))
     = [sample_call ''c'', sample_call ''d'']
   \<and> ended_calls (fst (executeToolCallsParallel (sample_config True) 0 sample_context [sample_call ''c'', sample_call ''d'']))
     = [sample_call ''c'']"
proof -
  have "aborted_at (sample_config True) 0 0 AfterCall" by (simp add: sample_config_def)
  from aborted_calls_never_end [OF sample_config_fair this refl] show ?thesis by blast
qed

end
