(* ===== verification/Agent.thy ===== *)
theory Agent
  imports AgentLoopFacts
begin

text \<open>
  \<^verbatim>\<open>packages/agent/src/agent.ts\<close>: the queues of pending messages and the class \<open>Agent\<close>, which owns the
  transcript and reduces the events of a run to its state. Listeners observe the events and do not change the state.
  A run is the value of the loop (\<open>None\<close> when it never ends); what the hooks, the provider and
  the queues give it is the parameter \<open>hooks\<close>, an \<open>agent_config\<close> of which \<open>createLoopConfig\<close> sets the
  model, the reasoning level and the first poll of the steering queue. The provider's options that the loop only passes on are left out.
\<close>

subsection \<open>Pending messages\<close>

datatype queue_mode = DrainAll | OneAtATime

record pending_queue =
  pq_messages :: "agent_message list"
  pq_mode :: queue_mode

definition new_PendingMessageQueue :: "queue_mode \<Rightarrow> pending_queue" where
  "new_PendingMessageQueue mode = \<lparr>pq_messages = [], pq_mode = mode\<rparr>"

definition pq_enqueue :: "agent_message \<Rightarrow> pending_queue \<Rightarrow> pending_queue" where
  "pq_enqueue m q = q\<lparr>pq_messages := pq_messages q @ [m]\<rparr>"

definition pq_hasItems :: "pending_queue \<Rightarrow> bool" where
  "pq_hasItems q \<longleftrightarrow> pq_messages q \<noteq> []"

definition pq_drain :: "pending_queue \<Rightarrow> agent_message list \<times> pending_queue" where
  "pq_drain q =
     (case pq_mode q of
        DrainAll \<Rightarrow> (pq_messages q, q\<lparr>pq_messages := []\<rparr>)
      | OneAtATime \<Rightarrow>
          (case pq_messages q of [] \<Rightarrow> ([], q) | m # ms \<Rightarrow> ([m], q\<lparr>pq_messages := ms\<rparr>)))"

definition pq_clear :: "pending_queue \<Rightarrow> pending_queue" where
  "pq_clear q = q\<lparr>pq_messages := []\<rparr>"

subsection \<open>The agent\<close>

record agent =
  g_systemPrompt :: js_string
  g_model :: js_string
  g_provider :: js_string
  g_thinkingLevel :: js_string
  g_tools :: "agent_tool list"
  g_messages :: "agent_message list"
  isStreaming :: bool
  streamingMessage :: "agent_message option"
  pendingToolCalls :: "js_string set"
  g_errorMessage :: "js_string option"
  steeringQueue :: pending_queue
  followUpQueue :: pending_queue
  activeRun :: bool

definition steer :: "agent_message \<Rightarrow> agent \<Rightarrow> agent" where
  "steer m g = g\<lparr>steeringQueue := pq_enqueue m (steeringQueue g)\<rparr>"

definition followUp :: "agent_message \<Rightarrow> agent \<Rightarrow> agent" where
  "followUp m g = g\<lparr>followUpQueue := pq_enqueue m (followUpQueue g)\<rparr>"

definition clearSteeringQueue :: "agent \<Rightarrow> agent" where
  "clearSteeringQueue g = g\<lparr>steeringQueue := pq_clear (steeringQueue g)\<rparr>"

definition clearFollowUpQueue :: "agent \<Rightarrow> agent" where
  "clearFollowUpQueue g = g\<lparr>followUpQueue := pq_clear (followUpQueue g)\<rparr>"

definition clearAllQueues :: "agent \<Rightarrow> agent" where
  "clearAllQueues g = clearFollowUpQueue (clearSteeringQueue g)"

definition hasQueuedMessages :: "agent \<Rightarrow> bool" where
  "hasQueuedMessages g \<longleftrightarrow> pq_hasItems (steeringQueue g) \<or> pq_hasItems (followUpQueue g)"

definition agent_reset :: "agent \<Rightarrow> agent" where
  "agent_reset g =
     clearSteeringQueue (clearFollowUpQueue (g\<lparr>g_messages := [], isStreaming := False, streamingMessage := None,
       pendingToolCalls := {}, g_errorMessage := None\<rparr>))"

datatype prompt_input =
    PromptText js_string "text_block list"
  | PromptMessage agent_message
  | PromptMessages "agent_message list"

fun normalizePromptInput :: "int \<Rightarrow> prompt_input \<Rightarrow> agent_message list" where
  "normalizePromptInput now (PromptMessages ms) = ms"
| "normalizePromptInput now (PromptMessage m) = [m]"
| "normalizePromptInput now (PromptText t images) = [UserMessage (ContentBlocks (TextContent t # images)) now]"

definition createContextSnapshot :: "agent \<Rightarrow> agent_context" where
  "createContextSnapshot g = \<lparr>x_systemPrompt = g_systemPrompt g, x_messages = g_messages g, x_tools = g_tools g\<rparr>"

definition createLoopConfig :: "agent_config \<Rightarrow> bool \<Rightarrow> agent \<Rightarrow> agent_config" where
  "createLoopConfig hooks skipInitialSteeringPoll g =
     hooks\<lparr>l_model := g_model g,
       l_reasoning := (if g_thinkingLevel g = js ''off'' then None else Some (g_thinkingLevel g)),
       getSteeringMessages := (\<lambda>n. if n = 0 \<and> skipInitialSteeringPoll then [] else getSteeringMessages hooks n)\<rparr>"

fun processEvents :: "agent_event \<Rightarrow> agent \<Rightarrow> agent" where
  "processEvents (MessageStart m) g = g\<lparr>streamingMessage := Some m\<rparr>"
| "processEvents (MessageUpdate m) g = g\<lparr>streamingMessage := Some m\<rparr>"
| "processEvents (MessageEnd m) g = g\<lparr>streamingMessage := None, g_messages := g_messages g @ [m]\<rparr>"
| "processEvents (ToolExecutionStart c) g = g\<lparr>pendingToolCalls := insert (tc_id c) (pendingToolCalls g)\<rparr>"
| "processEvents (ToolExecutionEnd c _ _) g = g\<lparr>pendingToolCalls := pendingToolCalls g - {tc_id c}\<rparr>"
| "processEvents (TurnEnd m _) g =
     (case a_errorMessage m of
        None \<Rightarrow> g
      | Some e \<Rightarrow> if e = [] then g else g\<lparr>g_errorMessage := Some e\<rparr>)"
| "processEvents (AgentEnd _) g = g\<lparr>streamingMessage := None\<rparr>"
| "processEvents _ g = g"

definition EMPTY_USAGE :: usage where
  "EMPTY_USAGE = \<lparr>u_input = 0, u_output = 0, u_cacheRead = 0, u_cacheWrite = 0, u_cacheWrite1h = None, u_reasoning = None,
     u_totalTokens = 0, u_cost = \<lparr>cost_input = 0, cost_output = 0, cost_cacheRead = 0, cost_cacheWrite = 0, cost_total = 0\<rparr>\<rparr>"

definition failure_message :: "int \<Rightarrow> agent \<Rightarrow> js_string \<Rightarrow> bool \<Rightarrow> assistant_message" where
  "failure_message now g e wasAborted =
     \<lparr>a_content = [TextBlock []], a_provider = g_provider g, a_model = g_model g, a_usage = Some EMPTY_USAGE,
      a_stopReason = (if wasAborted then Aborted else Error), a_errorMessage = Some e, a_timestamp = now\<rparr>"

definition handleRunFailure :: "int \<Rightarrow> js_string \<Rightarrow> bool \<Rightarrow> agent \<Rightarrow> agent" where
  "handleRunFailure now e wasAborted g =
     (let m = failure_message now g e wasAborted in
      fold processEvents [MessageStart (AssistantMessage m), MessageEnd (AssistantMessage m), TurnEnd m [],
        AgentEnd [AssistantMessage m]] g)"

definition finishRun :: "agent \<Rightarrow> agent" where
  "finishRun g = g\<lparr>isStreaming := False, streamingMessage := None, pendingToolCalls := {}, activeRun := False\<rparr>"

definition startRun :: "agent \<Rightarrow> agent" where
  "startRun g = g\<lparr>activeRun := True, isStreaming := True, streamingMessage := None, g_errorMessage := None\<rparr>"

text \<open>What surrounds a run: the hooks, the time and the abort signal at a failure, and what the queues hold
  when it ends (what was not polled and what was queued meanwhile).\<close>

record run_env =
  e_hooks :: agent_config
  e_now :: int
  e_aborted :: bool
  e_steering :: pending_queue
  e_followUp :: pending_queue

text \<open>The events of a run of the loop, and the error it failed with.\<close>

fun run_outcome_of :: "(js_string \<times> loop_state) + loop_state \<Rightarrow> agent_event list \<times> js_string option" where
  "run_outcome_of (Inr s) = (s_events s, None)"
| "run_outcome_of (Inl (e, s)) = (s_events s, Some e)"

text \<open>A run under the agent: the events are reduced one by one, a failure becomes a message, and the
  run is over in any case.\<close>

definition runWithLifecycle ::
  "run_env \<Rightarrow> (agent \<Rightarrow> (agent_event list \<times> js_string option) option) \<Rightarrow> agent \<Rightarrow> agent option" where
  "runWithLifecycle env executor g =
     map_option (\<lambda>(events, failure).
       let g1 = (fold processEvents events (startRun g))\<lparr>steeringQueue := e_steering env, followUpQueue := e_followUp env\<rparr>
       in finishRun (case failure of None \<Rightarrow> g1 | Some e \<Rightarrow> handleRunFailure (e_now env) e (e_aborted env) g1))
       (executor g)"

definition runPromptMessages :: "run_env \<Rightarrow> agent_message list \<Rightarrow> bool \<Rightarrow> agent \<Rightarrow> agent option" where
  "runPromptMessages env ms skipInitialSteeringPoll g =
     runWithLifecycle env (\<lambda>g. map_option run_outcome_of
       (runAgentLoop ms (createContextSnapshot g) (createLoopConfig (e_hooks env) skipInitialSteeringPoll g))) g"

datatype agent_error = AlreadyProcessing | NothingToContinue | ContinueFromAssistant

definition prompt :: "run_env \<Rightarrow> prompt_input \<Rightarrow> agent \<Rightarrow> agent_error + agent option" where
  "prompt env input g =
     (if activeRun g then Inl AlreadyProcessing
      else Inr (runPromptMessages env (normalizePromptInput (e_now env) input) False g))"

fun continue_error_text :: "continue_error \<Rightarrow> js_string" where
  "continue_error_text NoMessages = js ''Cannot continue: no messages in context''"
| "continue_error_text LastIsAssistant = js ''Cannot continue from message role: assistant''"

definition runContinuation :: "run_env \<Rightarrow> agent \<Rightarrow> agent option" where
  "runContinuation env g =
     runWithLifecycle env (\<lambda>g.
       case runAgentLoopContinue (createContextSnapshot g) (createLoopConfig (e_hooks env) False g) of
         Inl e \<Rightarrow> Some ([], Some (continue_error_text e))
       | Inr r \<Rightarrow> map_option run_outcome_of r) g"

definition agent_continue :: "run_env \<Rightarrow> agent \<Rightarrow> agent_error + agent option" where
  "agent_continue env g =
     (if activeRun g then Inl AlreadyProcessing
      else if g_messages g = [] then Inl NothingToContinue
      else if message_role (last (g_messages g)) = Assistant
      then let (queuedSteering, steering') = pq_drain (steeringQueue g) in
           if queuedSteering \<noteq> []
           then Inr (runPromptMessages env queuedSteering True (g\<lparr>steeringQueue := steering'\<rparr>))
           else let (queuedFollowUps, followUp') = pq_drain (followUpQueue g) in
                if queuedFollowUps \<noteq> []
                then Inr (runPromptMessages env queuedFollowUps False (g\<lparr>followUpQueue := followUp'\<rparr>))
                else Inl ContinueFromAssistant
      else Inr (runContinuation env g))"

subsection \<open>The transcript\<close>

lemma process_messages: "g_messages (fold processEvents es g) = g_messages g @ ended es"
proof (induction es arbitrary: g)
  case (Cons e es)
  then show ?case by (cases e) (auto split: option.split)
qed simp

lemma finishRun_simps [simp]:
  "g_messages (finishRun g) = g_messages g" "activeRun (finishRun g) = False" "isStreaming (finishRun g) = False"
  "pendingToolCalls (finishRun g) = {}" "streamingMessage (finishRun g) = None" "g_errorMessage (finishRun g) = g_errorMessage g"
  by (simp_all add: finishRun_def)

lemma handleRunFailure_messages:
  "g_messages (handleRunFailure now e ab g) = g_messages g @ [AssistantMessage (failure_message now g e ab)]"
  by (simp add: handleRunFailure_def Let_def failure_message_def)

lemma createLoopConfig_simps [simp]:
  "fair_interleave (createLoopConfig hooks skip g) \<longleftrightarrow> fair_interleave hooks"
  "keeps_messages (createLoopConfig hooks skip g) \<longleftrightarrow> keeps_messages hooks"
  by (simp_all add: createLoopConfig_def fair_interleave_def keeps_messages_def)

definition idle :: "agent \<Rightarrow> bool" where
  "idle g \<longleftrightarrow> \<not> activeRun g \<and> \<not> isStreaming g \<and> streamingMessage g = None \<and> pendingToolCalls g = {}"

lemma logged_messages:
  assumes "fair_interleave config" "runAgentLoop prompts ctx config = Some r"
  shows "case r of Inl (e, s) \<Rightarrow> ended (s_events s) = s_new s | Inr s \<Rightarrow> ended (s_events s) = s_new s"
  using prompt_run_logged [OF assms] by (auto simp: logged_def agent_end_def split: sum.splits)

text \<open>Property C16. A prompt to an idle agent leaves it idle again with the transcript extended by exactly the messages of
  the run: when a hook that replaces the context of the next turn keeps its messages (the one of \<open>AgentSession\<close> does) and responses
  start once, the state that the agent builds from the events agrees with the context the loop sent to the
  model. When the run fails, the messages it made before are kept and the failure is recorded as an assistant message.\<close>

theorem prompt_transcript:
  assumes "\<not> activeRun g" "fair_interleave (e_hooks env)"
    and "runAgentLoop (normalizePromptInput (e_now env) input) (createContextSnapshot g)
      (createLoopConfig (e_hooks env) False g) = Some r"
  shows "\<exists>g'. prompt env input g = Inr (Some g') \<and> idle g' \<and>
    (case r of
       Inr s \<Rightarrow> g_messages g' = g_messages g @ s_new s
         \<and> (keeps_messages (e_hooks env) \<longrightarrow> g_messages g' = x_messages (s_context s))
     | Inl (e, s) \<Rightarrow> \<exists>m. g_messages g' = g_messages g @ s_new s @ [AssistantMessage m] \<and> a_errorMessage m = Some e)"
proof -
  obtain events failure where o: "run_outcome_of r = (events, failure)" by fastforce
  let ?g1 = "(fold processEvents events (startRun g))\<lparr>steeringQueue := e_steering env, followUpQueue := e_followUp env\<rparr>"
  let ?g = "finishRun (case failure of None \<Rightarrow> ?g1 | Some e \<Rightarrow> handleRunFailure (e_now env) e (e_aborted env) ?g1)"
  have "prompt env input g = Inr (Some ?g)"
    using assms(1,3) o by (simp add: prompt_def runPromptMessages_def runWithLifecycle_def Let_def)
  moreover have "idle ?g" by (simp add: idle_def)
  moreover have g1: "g_messages ?g1 = g_messages g @ ended events"
    by (simp add: process_messages) (simp add: startRun_def)
  moreover have "ended events = s_new (case r of Inr s \<Rightarrow> s | Inl (e, s) \<Rightarrow> s)"
    using logged_messages [OF _ assms(3)] assms(2) o by (auto split: sum.splits)
  moreover have "g_messages g @ s_new s = x_messages (s_context s)" if "r = Inr s" "keeps_messages (e_hooks env)" for s
    using prompt_run_context [OF assms(3) [unfolded that(1)]] that(2) by (simp add: createContextSnapshot_def)
  ultimately show ?thesis
    using o by (intro exI [of _ ?g]) (auto simp: handleRunFailure_messages failure_message_def split: sum.splits)
qed

text \<open>An idle agent and a provider that answers.\<close>

definition idle_agent :: agent where
  "idle_agent = \<lparr>g_systemPrompt = [], g_model = js ''m'', g_provider = js ''p'', g_thinkingLevel = js ''off'', g_tools = [],
     g_messages = [], isStreaming = False, streamingMessage = None, pendingToolCalls = {}, g_errorMessage = None,
     steeringQueue = new_PendingMessageQueue OneAtATime, followUpQueue = new_PendingMessageQueue OneAtATime, activeRun = False\<rparr>"

definition sample_env :: run_env where
  "sample_env = \<lparr>e_hooks = refreshed_config, e_now = 0, e_aborted = False, e_steering = new_PendingMessageQueue OneAtATime,
     e_followUp = new_PendingMessageQueue OneAtATime\<rparr>"

lemma sample_env_hooks: "fair_interleave (e_hooks sample_env)" "keeps_messages (e_hooks sample_env)"
  using sample_config_fair installed_keeps_messages [OF sample_keeps] by (simp_all add: sample_env_def refreshed_config_def)

lemma sample_env_run:
  "\<exists>s. runAgentLoop prompts (createContextSnapshot idle_agent) (createLoopConfig (e_hooks sample_env) False idle_agent) = Some (Inr s)"
  by (simp add: runAgentLoop_def runLoop_def run_turns.simps run_turn_def begin_turn_def streamAssistantResponse_def refreshed_config_def
      installAgentNextTurnRefresh_def refreshed_turn_def sample_config_def tools_of_turn_def sample_tool_calls finish_response_def
      with_response_def with_results_def apply_update_def next_config_def end_of_turn_def Let_def createLoopConfig_def sample_env_def
      createContextSnapshot_def idle_agent_def)

theorem prompt_transcript_witness:
  "\<exists>g' s. runAgentLoop (normalizePromptInput 0 (PromptText (js ''hi'') [])) (createContextSnapshot idle_agent)
        (createLoopConfig (e_hooks sample_env) False idle_agent) = Some (Inr s)
     \<and> prompt sample_env (PromptText (js ''hi'') []) idle_agent = Inr (Some g') \<and> idle g' \<and> g_messages g' = x_messages (s_context s)"
proof -
  obtain s where s: "runAgentLoop (normalizePromptInput (e_now sample_env) (PromptText (js ''hi'') []))
      (createContextSnapshot idle_agent) (createLoopConfig (e_hooks sample_env) False idle_agent) = Some (Inr s)"
    using sample_env_run by blast
  have "\<not> activeRun idle_agent" by (simp add: idle_agent_def)
  from prompt_transcript [OF this sample_env_hooks(1) s] sample_env_hooks(2) s show ?thesis
    by (auto simp: sample_env_def)
qed

text \<open>Queued messages come out in the order they were queued, none twice and none lost.\<close>

datatype queue_op = Enqueue agent_message | Drain

fun queue_run :: "queue_op list \<Rightarrow> pending_queue \<Rightarrow> agent_message list \<times> pending_queue" where
  "queue_run [] q = ([], q)"
| "queue_run (Enqueue m # ops) q = queue_run ops (pq_enqueue m q)"
| "queue_run (Drain # ops) q =
     (let (ms, q') = pq_drain q; (ms', q'') = queue_run ops q' in (ms @ ms', q''))"

definition enqueued :: "queue_op list \<Rightarrow> agent_message list" where
  "enqueued ops = List.map_filter (\<lambda>x. case x of Enqueue m \<Rightarrow> Some m | Drain \<Rightarrow> None) ops"

lemma pq_drain_split: "pq_drain q = (ms, q') \<Longrightarrow> pq_messages q = ms @ pq_messages q'"
  by (auto simp: pq_drain_def split: queue_mode.splits list.splits)

text \<open>Whatever the order of queueing and draining and whichever the mode, the messages drained from a queue and those
  still in it are, in order, exactly those that were queued.\<close>

theorem pending_queue_fifo:
  "queue_run ops q = (out, q') \<Longrightarrow> out @ pq_messages q' = pq_messages q @ enqueued ops"
proof (induction ops q arbitrary: out q' rule: queue_run.induct)
  case (3 ops q)
  obtain ms q1 where d: "pq_drain q = (ms, q1)" by fastforce
  obtain ms' q2 where r: "queue_run ops q1 = (ms', q2)" by fastforce
  from 3(2) d r have "out = ms @ ms'" "q' = q2" by simp_all
  with 3(1) [OF d [symmetric] refl r] pq_drain_split [OF d] show ?case
    by (simp add: enqueued_def List.map_filter_def)
qed (auto simp: enqueued_def List.map_filter_def pq_enqueue_def)

theorem pending_queue_fifo_witness:
  "[UserMessage (ContentString []) 1] @ pq_messages (snd (queue_run
      [Enqueue (UserMessage (ContentString []) 1), Drain, Enqueue (UserMessage (ContentString []) 2)]
      (new_PendingMessageQueue OneAtATime)))
   = [UserMessage (ContentString []) 1, UserMessage (ContentString []) 2]"
  using pending_queue_fifo [of "[Enqueue (UserMessage (ContentString []) 1), Drain, Enqueue (UserMessage (ContentString []) 2)]"
      "new_PendingMessageQueue OneAtATime" "[UserMessage (ContentString []) 1]"]
  by (simp add: pq_drain_def pq_enqueue_def new_PendingMessageQueue_def enqueued_def List.map_filter_def)

end
