(* ===== verification/LineDiff.thy ===== *)
theory LineDiff
  imports Prelude "HOL-Library.Sublist" "HOL-Library.Extended_Nat"
begin

text \<open>
  The number of changed lines between two texts
  (\<^verbatim>\<open>packages/coding-agent/src/core/piwpi/memory/diff.ts\<close>): a table of two rows that are swapped
  after each old line, kept in \<open>Uint32Array\<close>s, so an element is taken modulo \<open>2 ^ 32\<close>. \<open>Infinity\<close>
  is the value \<open>\<infinity>\<close>. The reference is the length of a longest common subsequence.
\<close>

definition MAX_LINES :: nat where
  "MAX_LINES = 3000"

text \<open>One row: \<open>cur[j]\<close> for \<open>j = 1, ..., m\<close> in place, over what the row held before.\<close>

definition diff_cell :: "'a \<Rightarrow> 'a list \<Rightarrow> nat list \<Rightarrow> nat list \<Rightarrow> nat \<Rightarrow> nat list" where
  "diff_cell a new_lines prev cur j =
     cur[j := (if a = new_lines ! (j - 1) then (prev ! (j - 1) + 1) mod 2 ^ 32
               else max (prev ! j) (cur ! (j - 1)))]"

definition diff_row :: "'a \<Rightarrow> 'a list \<Rightarrow> nat list \<Rightarrow> nat list \<Rightarrow> nat list" where
  "diff_row a new_lines prev cur = foldl (diff_cell a new_lines prev) cur [1..<length new_lines + 1]"

text \<open>All rows; the two arrays change roles after each one.\<close>

fun diff_rows :: "'a list \<Rightarrow> 'a list \<Rightarrow> nat list \<Rightarrow> nat list \<Rightarrow> nat list" where
  "diff_rows [] new_lines prev cur = prev"
| "diff_rows (a # old_lines) new_lines prev cur =
     diff_rows old_lines new_lines (diff_row a new_lines prev cur) prev"

definition countChangedLines :: "'a list \<Rightarrow> 'a list \<Rightarrow> enat" where
  "countChangedLines old_lines new_lines =
     (let n = length old_lines; m = length new_lines in
      if n > MAX_LINES \<or> m > MAX_LINES then \<infinity>
      else if n = 0 then enat m
      else if m = 0 then enat n
      else enat (n + m - 2 * diff_rows old_lines new_lines (replicate (m + 1) 0) (replicate (m + 1) 0) ! m))"

subsection \<open>Longest common subsequences\<close>

definition common :: "'a list \<Rightarrow> 'a list \<Rightarrow> 'a list set" where
  "common xs ys = {zs. subseq zs xs \<and> subseq zs ys}"

definition lcs_length :: "'a list \<Rightarrow> 'a list \<Rightarrow> nat" where
  "lcs_length xs ys = Max (length ` common xs ys)"

lemma common_lengths: "finite (length ` common xs ys)" "length ` common xs ys \<noteq> {}"
proof -
  have "length ` common xs ys \<subseteq> {..length xs}"
    by (auto simp: common_def dest: list_emb_length)
  then show "finite (length ` common xs ys)" by (rule finite_subset) simp
  show "length ` common xs ys \<noteq> {}" by (auto simp: common_def)
qed

lemma lcs_length_attained: "\<exists>zs \<in> common xs ys. length zs = lcs_length xs ys"
  using Max_in [OF common_lengths, of xs ys] by (auto simp: lcs_length_def)

lemma lcs_length_bound: "zs \<in> common xs ys \<Longrightarrow> length zs \<le> lcs_length xs ys"
  using common_lengths unfolding lcs_length_def by (intro Max_ge) auto

lemma lcs_length_eqI:
  "zs \<in> common xs ys \<Longrightarrow> length zs = k \<Longrightarrow> (\<And>ws. ws \<in> common xs ys \<Longrightarrow> length ws \<le> k)
     \<Longrightarrow> lcs_length xs ys = k"
  using lcs_length_attained [of xs ys] lcs_length_bound [of zs xs ys] by (metis le_antisym)

lemma lcs_length_le: "lcs_length xs ys \<le> length xs" "lcs_length xs ys \<le> length ys"
  using lcs_length_attained [of xs ys] by (auto simp: common_def dest: list_emb_length)

lemma lcs_length_Nil [simp]: "lcs_length [] ys = 0" "lcs_length xs [] = 0"
  using lcs_length_le [of "[]" ys] lcs_length_le [of xs "[]"] by simp_all

lemma subseq_snoc:
  "subseq zs (xs @ [a]) \<longleftrightarrow> subseq zs xs \<or> (\<exists>ws. zs = ws @ [a] \<and> subseq ws xs)"
proof
  assume "subseq zs (xs @ [a])"
  then obtain u v where "zs = u @ v" "subseq u xs" "subseq v [a]"
    by (auto simp: subseq_append_iff)
  moreover from this(3) have "v = [] \<or> v = [a]"
    by (cases v) (auto split: if_splits)
  ultimately show "subseq zs xs \<or> (\<exists>ws. zs = ws @ [a] \<and> subseq ws xs)" by auto
qed (auto intro: subseq_rev_drop_many)

lemma lcs_length_snoc_same: "lcs_length (xs @ [a]) (ys @ [a]) = lcs_length xs ys + 1"
proof -
  obtain zs where zs: "zs \<in> common xs ys" "length zs = lcs_length xs ys"
    using lcs_length_attained [of xs ys] by blast
  show ?thesis
  proof (rule lcs_length_eqI)
    show "zs @ [a] \<in> common (xs @ [a]) (ys @ [a])" using zs by (simp add: common_def)
    show "length (zs @ [a]) = lcs_length xs ys + 1" using zs by simp
    fix ws assume ws: "ws \<in> common (xs @ [a]) (ys @ [a])"
    have "butlast ws \<in> common xs ys"
    proof (cases ws rule: rev_cases)
      case (snoc vs b)
      have "subseq vs xs" if "subseq (vs @ [b]) (xs @ [a])" for xs
        using that subseq_snoc [of "vs @ [b]" xs a] list_emb_append_mono
        by (auto dest: subseq_order.trans [rotated] intro: subseq_order.trans [OF list_emb_prefix])
      with snoc ws show ?thesis by (auto simp: common_def)
    qed (use ws in \<open>simp add: common_def\<close>)
    then show "length ws \<le> lcs_length xs ys + 1"
      using lcs_length_bound by fastforce
  qed
qed

lemma lcs_length_mono:
  "subseq xs xs' \<Longrightarrow> subseq ys ys' \<Longrightarrow> lcs_length xs ys \<le> lcs_length xs' ys'"
proof -
  assume sub: "subseq xs xs'" "subseq ys ys'"
  obtain zs where zs: "zs \<in> common xs ys" "length zs = lcs_length xs ys"
    using lcs_length_attained [of xs ys] by blast
  with sub have "zs \<in> common xs' ys'"
    by (auto simp: common_def intro: subseq_order.trans)
  from lcs_length_bound [OF this] zs show ?thesis by simp
qed

lemma lcs_length_snoc_diff:
  assumes "a \<noteq> b"
  shows "lcs_length (xs @ [a]) (ys @ [b]) = max (lcs_length xs (ys @ [b])) (lcs_length (xs @ [a]) ys)"
proof (rule antisym)
  obtain zs where zs: "zs \<in> common (xs @ [a]) (ys @ [b])" "length zs = lcs_length (xs @ [a]) (ys @ [b])"
    using lcs_length_attained [of "xs @ [a]" "ys @ [b]"] by blast
  then have "zs \<in> common xs (ys @ [b]) \<or> zs \<in> common (xs @ [a]) ys"
    using assms by (auto simp: common_def subseq_snoc)
  with zs show "lcs_length (xs @ [a]) (ys @ [b]) \<le> max (lcs_length xs (ys @ [b])) (lcs_length (xs @ [a]) ys)"
    by (auto dest: lcs_length_bound)
qed (auto intro: lcs_length_mono simp: subseq_snoc)

lemma lcs_length_eq_iff: "length xs + length ys = 2 * lcs_length xs ys \<longleftrightarrow> xs = ys"
proof
  assume "length xs + length ys = 2 * lcs_length xs ys"
  then have l: "length xs = lcs_length xs ys" "length ys = lcs_length xs ys"
    using lcs_length_le [of xs ys] by linarith+
  obtain zs where "zs \<in> common xs ys" "length zs = lcs_length xs ys"
    using lcs_length_attained [of xs ys] by blast
  with l show "xs = ys" by (auto simp: common_def dest!: subseq_same_length)
next
  assume "xs = ys"
  then show "length xs + length ys = 2 * lcs_length xs ys"
    using lcs_length_bound [of xs xs xs] lcs_length_le [of xs xs] by (simp add: common_def)
qed

subsection \<open>The table\<close>

text \<open>The row that belongs to a prefix of the old lines.\<close>

definition lcs_row :: "'a list \<Rightarrow> 'a list \<Rightarrow> nat list" where
  "lcs_row olds news = map (\<lambda>j. lcs_length olds (take j news)) [0..<length news + 1]"

lemma length_lcs_row [simp]: "length (lcs_row olds news) = length news + 1"
  by (simp add: lcs_row_def)

lemma nth_lcs_row [simp]: "j \<le> length news \<Longrightarrow> lcs_row olds news ! j = lcs_length olds (take j news)"
  by (simp add: lcs_row_def nth_append less_Suc_eq_le del: upt_Suc)

lemma length_diff_cells [simp]: "length (foldl (diff_cell a news prev) cur js) = length cur"
  by (induction js arbitrary: cur) (auto simp: diff_cell_def)

lemma lcs_cell:
  assumes "0 < j" "j \<le> length news" "length olds + 1 < 2 ^ 32"
  shows "(if a = news ! (j - 1) then (lcs_length olds (take (j - 1) news) + 1) mod 2 ^ 32
          else max (lcs_length olds (take j news)) (lcs_length (olds @ [a]) (take (j - 1) news)))
       = lcs_length (olds @ [a]) (take j news)"
proof -
  have t: "take j news = take (j - 1) news @ [news ! (j - 1)]"
    using assms by (cases j) (auto simp: take_Suc_conv_app_nth)
  have "lcs_length olds (take (j - 1) news) + 1 < 2 ^ 32"
    using lcs_length_le(1) [of olds "take (j - 1) news"] assms(3) by linarith
  then show ?thesis
    unfolding t by (auto simp: lcs_length_snoc_same lcs_length_snoc_diff)
qed

lemma diff_row_correct:
  assumes "length cur = length news + 1" "cur ! 0 = 0" "length olds + 1 < 2 ^ 32"
  shows "diff_row a news (lcs_row olds news) cur = lcs_row (olds @ [a]) news"
proof -
  have "\<forall>i < k + 1. foldl (diff_cell a news (lcs_row olds news)) cur [1..<k + 1] ! i
          = lcs_length (olds @ [a]) (take i news)" if "k \<le> length news" for k
    using that
  proof (induction k)
    case (Suc k)
    define row where "row = foldl (diff_cell a news (lcs_row olds news)) cur [1..<k + 1]"
    have len: "length row = length news + 1" using assms(1) by (simp add: row_def)
    have IH: "\<forall>i < k + 1. row ! i = lcs_length (olds @ [a]) (take i news)"
      using Suc by (simp add: row_def)
    have "foldl (diff_cell a news (lcs_row olds news)) cur [1..<Suc k + 1]
            = diff_cell a news (lcs_row olds news) row (Suc k)" by (simp add: row_def)
    also have "\<dots> = row[Suc k := lcs_length (olds @ [a]) (take (Suc k) news)]"
      using lcs_cell [of "Suc k" news olds a] Suc.prems assms(3) IH
      by (cases "a = news ! k") (simp_all add: diff_cell_def)
    finally have eq: "foldl (diff_cell a news (lcs_row olds news)) cur [1..<Suc k + 1]
            = row[Suc k := lcs_length (olds @ [a]) (take (Suc k) news)]" .
    show ?case
      unfolding eq using Suc.prems len IH by (auto simp: nth_list_update less_Suc_eq_le)
  qed (use assms in simp)
  then show ?thesis
    unfolding diff_row_def using assms(1) by (intro nth_equalityI) auto
qed

lemma diff_rows_correct:
  "length cur = length news + 1 \<Longrightarrow> cur ! 0 = 0 \<Longrightarrow> length done_lines + length olds < 2 ^ 32
     \<Longrightarrow> diff_rows olds news (lcs_row done_lines news) cur = lcs_row (done_lines @ olds) news"
proof (induction olds arbitrary: done_lines cur)
  case (Cons a olds)
  then have "diff_row a news (lcs_row done_lines news) cur = lcs_row (done_lines @ [a]) news"
    by (intro diff_row_correct) auto
  with Cons.IH [of "lcs_row done_lines news" "done_lines @ [a]"] Cons.prems show ?case by simp
qed simp

lemma countChangedLines_lcs:
  assumes "length olds \<le> MAX_LINES" "length news \<le> MAX_LINES"
  shows "countChangedLines olds news = enat (length olds + length news - 2 * lcs_length olds news)"
proof -
  have zero: "replicate (length news + 1) 0 = lcs_row [] news"
    by (intro nth_equalityI) (auto simp del: replicate_Suc)
  have "diff_rows olds news (lcs_row [] news) (lcs_row [] news) ! length news = lcs_length olds news"
    using assms by (subst diff_rows_correct) (auto simp: MAX_LINES_def)
  then show ?thesis
    using assms unfolding countChangedLines_def Let_def zero by auto
qed

text \<open>Property C25. The changed lines between two texts: beyond 3000 lines on either side the answer is
  \<open>Infinity\<close>; otherwise the two-row table gives the number of lines outside a longest common
  subsequence, no \<open>Uint32Array\<close> element wraps around, and the number is zero exactly when the texts
  are equal.\<close>

theorem countChangedLines_correct:
  "countChangedLines olds news =
     (if length olds > 3000 \<or> length news > 3000 then \<infinity>
      else enat (length olds + length news - 2 * lcs_length olds news))
   \<and> (countChangedLines olds news = 0 \<longleftrightarrow> olds = news \<and> length olds \<le> 3000)"
proof (cases "length olds > 3000 \<or> length news > 3000")
  case True
  then have "countChangedLines olds news = \<infinity>" by (auto simp: countChangedLines_def MAX_LINES_def)
  with True show ?thesis by auto
next
  case False
  then have "countChangedLines olds news = enat (length olds + length news - 2 * lcs_length olds news)"
    by (intro countChangedLines_lcs) (auto simp: MAX_LINES_def)
  with False show ?thesis
    using lcs_length_eq_iff [of olds news] lcs_length_le [of olds news]
    by (auto simp: zero_enat_def)
qed

end
