(* ===== verification/Fingerprint.thy ===== *)
theory Fingerprint
  imports JsText LineDiff "HOL-Library.Multiset"
begin

text \<open>
  Content fingerprints (\<^verbatim>\<open>packages/coding-agent/src/core/piwpi/fingerprint.ts\<close>): the first four
  bytes of the SHA-256 of each line, or of each block of sixteen lines, the difference of two
  fingerprints as counted multisets, and their storage as base64 of big-endian words. SHA-256 is a
  parameter, the function from a string to the bytes of its digest; \<open>Buffer\<close>'s base64 is written out:
  decoding stops at \<open>=\<close>, skips characters outside the alphabet and drops an incomplete last group.
\<close>

type_synonym fingerprint = "32 word list"

definition readUInt32BE :: "byte list \<Rightarrow> nat \<Rightarrow> 32 word" where
  "readUInt32BE buf offset = word_of_nat (be_val (take 4 (drop offset buf)))"

definition writeUInt32BE :: "32 word \<Rightarrow> byte list" where
  "writeUInt32BE v = be_bytes 4 (unat v)"

definition lineFingerprint :: "(js_string \<Rightarrow> byte list) \<Rightarrow> js_string list \<Rightarrow> fingerprint" where
  "lineFingerprint sha256 lines = map (\<lambda>line. readUInt32BE (sha256 line) 0) lines"

definition ceil_div :: "nat \<Rightarrow> nat \<Rightarrow> nat" where
  "ceil_div n k = (n + k - 1) div k"

definition chunkFingerprint :: "(js_string \<Rightarrow> byte list) \<Rightarrow> nat \<Rightarrow> js_string list \<Rightarrow> fingerprint" where
  "chunkFingerprint sha256 chunkSize lines =
     map (\<lambda>b. let start_line = b * chunkSize; end_line = min (start_line + chunkSize) (length lines)
              in readUInt32BE (sha256 (join [newline] (take (end_line - start_line) (drop start_line lines)))) 0)
       [0..<ceil_div (length lines) chunkSize]"

text \<open>The two loops of \<open>countDelta\<close>: counting one side, then matching the other against the counts.\<close>

definition count_value :: "('a \<rightharpoonup> nat) \<Rightarrow> 'a \<Rightarrow> ('a \<rightharpoonup> nat)" where
  "count_value counts v = counts(v \<mapsto> (case counts v of None \<Rightarrow> 0 | Some c \<Rightarrow> c) + 1)"

definition match_value :: "('a \<rightharpoonup> nat) \<times> nat \<Rightarrow> 'a \<Rightarrow> ('a \<rightharpoonup> nat) \<times> nat" where
  "match_value = (\<lambda>(counts, matched) v.
     case counts v of
       None \<Rightarrow> (counts, matched)
     | Some c \<Rightarrow> if c > 0 then (counts(v \<mapsto> c - 1), matched + 1) else (counts, matched))"

definition countDelta :: "'a list \<Rightarrow> 'a list \<Rightarrow> nat" where
  "countDelta a b =
     (if a = [] then length b
      else if b = [] then length a
      else length a + length b - 2 * snd (foldl match_value (foldl count_value Map.empty a, 0) b))"

subsection \<open>Storage\<close>

definition base64_char :: "nat \<Rightarrow> js_char" where
  "base64_char n =
     of_nat (if n < 26 then 65 + n else if n < 52 then 97 + (n - 26)
             else if n < 62 then 48 + (n - 52) else if n = 62 then 43 else 47)"

definition base64_value :: "js_char \<Rightarrow> nat option" where
  "base64_value c =
     (let u = unat c in
      if 65 \<le> u \<and> u \<le> 90 then Some (u - 65)
      else if 97 \<le> u \<and> u \<le> 122 then Some (u - 97 + 26)
      else if 48 \<le> u \<and> u \<le> 57 then Some (u - 48 + 52)
      else if u = 43 \<or> u = 45 then Some 62
      else if u = 47 \<or> u = 95 then Some 63
      else None)"

abbreviation base64_pad :: js_char where
  "base64_pad \<equiv> 61"

fun sextets :: "byte list \<Rightarrow> nat list" where
  "sextets [] = []"
| "sextets [a] = [unat a div 4, unat a mod 4 * 16]"
| "sextets [a, b] = [unat a div 4, unat a mod 4 * 16 + unat b div 16, unat b mod 16 * 4]"
| "sextets (a # b # c # bs) =
     [unat a div 4, unat a mod 4 * 16 + unat b div 16, unat b mod 16 * 4 + unat c div 64, unat c mod 64]
     @ sextets bs"

fun unsextets :: "nat list \<Rightarrow> byte list" where
  "unsextets (p # q # r # s # ss) =
     [u8 (p * 4 + q div 16), u8 (q mod 16 * 16 + r div 4), u8 (r mod 4 * 64 + s)] @ unsextets ss"
| "unsextets [p, q, r] = [u8 (p * 4 + q div 16), u8 (q mod 16 * 16 + r div 4)]"
| "unsextets [p, q] = [u8 (p * 4 + q div 16)]"
| "unsextets [p] = []"
| "unsextets [] = []"

definition toString_base64 :: "byte list \<Rightarrow> js_string" where
  "toString_base64 bs =
     map base64_char (sextets bs) @ replicate ((3 - length bs mod 3) mod 3) base64_pad"

definition from_base64 :: "js_string \<Rightarrow> byte list" where
  "from_base64 s = unsextets (List.map_filter base64_value (takeWhile (\<lambda>c. c \<noteq> base64_pad) s))"

definition encodeFingerprint :: "fingerprint \<Rightarrow> js_string" where
  "encodeFingerprint a = toString_base64 (concat (map writeUInt32BE a))"

definition decodeFingerprint :: "js_string \<Rightarrow> fingerprint option" where
  "decodeFingerprint s =
     (if s = [] then None
      else let buf = from_base64 s in
        if length buf = 0 \<or> length buf mod 4 \<noteq> 0 then None
        else Some (map (\<lambda>i. readUInt32BE buf (i * 4)) [0..<length buf div 4]))"

lemma base64_value_char [simp]:
  assumes "n < 64"
  shows "base64_value (base64_char n) = Some n"
proof -
  define k where "k = (if n < 26 then 65 + n else if n < 52 then 97 + (n - 26)
             else if n < 62 then 48 + (n - 52) else if n = 62 then 43 else 47)"
  have "k < 65536" using assms by (auto simp: k_def)
  then have "unat (base64_char n) = k"
    by (simp add: base64_char_def unat_of_nat flip: k_def)
  then show ?thesis
    using assms by (auto simp: base64_value_def Let_def k_def)
qed

lemma base64_char_not_pad: "n < 64 \<Longrightarrow> base64_char n \<noteq> base64_pad"
  using base64_value_char [of n] by (auto simp: base64_value_def)

lemma byte_div: "unat (b :: byte) div 4 < 64" "unat b div 16 < 16" "unat b div 64 < 4"
  using unat_byte_less [of b] by (auto intro: less_mult_imp_div_less)

lemma sextet_bounds:
  "unat (a :: byte) mod 4 * 16 + unat (b :: byte) div 16 < 64"
  "unat b mod 16 * 4 + unat (c :: byte) div 64 < 64"
  using byte_div [of b] byte_div [of c] mod_less_divisor [of 4 "unat a"] mod_less_divisor [of 16 "unat b"]
  by linarith+

lemma sextets_less: "n \<in> set (sextets bs) \<Longrightarrow> n < 64"
proof (induction bs rule: sextets.induct)
  case (2 a)
  then show ?case using byte_div [of a] mod_less_divisor [of 4 "unat a"] by auto
next
  case (3 a b)
  then show ?case
    using byte_div [of a] sextet_bounds [of a b] mod_less_divisor [of 16 "unat b"] by auto
next
  case (4 a b c bs)
  then show ?case
    using byte_div [of a] sextet_bounds [of a b] sextet_bounds [of b c] by auto
qed simp

lemma group_simps:
  fixes a b c :: byte
  shows "u8 (unat a div 4 * 4 + (unat a mod 4 * 16 + unat b div 16) div 16) = a"
    and "u8 (unat a div 4 * 4 + unat a mod 4 * 16 div 16) = a"
    and "u8 ((unat a mod 4 * 16 + unat b div 16) mod 16 * 16 + (unat b mod 16 * 4 + unat c div 64) div 4) = b"
    and "u8 ((unat a mod 4 * 16 + unat b div 16) mod 16 * 16 + unat b mod 16 * 4 div 4) = b"
    and "u8 ((unat b mod 16 * 4 + unat c div 64) mod 4 * 64 + unat c mod 64) = c"
proof -
  note less = byte_div [of a] byte_div [of b] byte_div [of c]
  have "unat a div 4 * 4 + (unat a mod 4 * 16 + unat b div 16) div 16 = unat a"
    using less by simp
  then show "u8 (unat a div 4 * 4 + (unat a mod 4 * 16 + unat b div 16) div 16) = a"
    by (metis u8_unat)
  have "unat a div 4 * 4 + unat a mod 4 * 16 div 16 = unat a" by simp
  then show "u8 (unat a div 4 * 4 + unat a mod 4 * 16 div 16) = a"
    by (metis u8_unat)
  have "(unat a mod 4 * 16 + unat b div 16) mod 16 * 16 + (unat b mod 16 * 4 + unat c div 64) div 4 = unat b"
    using less by simp
  then show "u8 ((unat a mod 4 * 16 + unat b div 16) mod 16 * 16 + (unat b mod 16 * 4 + unat c div 64) div 4) = b"
    by (metis u8_unat)
  have "(unat a mod 4 * 16 + unat b div 16) mod 16 * 16 + unat b mod 16 * 4 div 4 = unat b"
    using less by simp
  then show "u8 ((unat a mod 4 * 16 + unat b div 16) mod 16 * 16 + unat b mod 16 * 4 div 4) = b"
    by (metis u8_unat)
  have "(unat b mod 16 * 4 + unat c div 64) mod 4 * 64 + unat c mod 64 = unat c"
    using less by simp
  then show "u8 ((unat b mod 16 * 4 + unat c div 64) mod 4 * 64 + unat c mod 64) = c"
    by (metis u8_unat)
qed

lemma unsextets_sextets: "unsextets (sextets bs) = bs"
  by (induction bs rule: sextets.induct)
     (simp_all only: sextets.simps unsextets.simps append.simps group_simps)

lemma from_base64_toString: "from_base64 (toString_base64 bs) = bs"
proof -
  have "takeWhile (\<lambda>c. c \<noteq> base64_pad) (toString_base64 bs) = map base64_char (sextets bs)"
    by (auto simp: toString_base64_def takeWhile_append base64_char_not_pad dest: sextets_less)
  moreover have "List.map_filter base64_value (map base64_char ns) = ns" if "\<forall>n \<in> set ns. n < 64" for ns
    using that by (induction ns) (auto simp: map_filter_simps)
  ultimately show ?thesis
    using sextets_less by (simp add: from_base64_def unsextets_sextets)
qed

lemma length_writeUInt32BE [simp]: "length (writeUInt32BE v) = 4"
  by (simp add: writeUInt32BE_def)

lemma length_words [simp]: "length (concat (map writeUInt32BE a)) = 4 * length a"
  by (induction a) auto

lemma readUInt32BE_words:
  "i < length a \<Longrightarrow> readUInt32BE (concat (map writeUInt32BE a)) (i * 4) = a ! i"
proof (induction a arbitrary: i)
  case (Cons v a)
  show ?case
  proof (cases i)
    case 0
    have "unat v < 2 ^ 32" using unsigned_less [of v] by simp
    then have "be_val (writeUInt32BE v) = unat v" by (simp add: writeUInt32BE_def be_simps)
    with 0 show ?thesis by (simp add: readUInt32BE_def)
  next
    case (Suc j)
    then have "drop (i * 4) (concat (map writeUInt32BE (v # a))) = drop (j * 4) (concat (map writeUInt32BE a))"
      by simp
    with Cons Suc show ?thesis by (simp add: readUInt32BE_def)
  qed
qed simp

text \<open>Storing a fingerprint as base64 of big-endian words and reading it back gives the
  same words; the empty fingerprint alone reads back as undefined.\<close>

theorem decodeFingerprint_encodeFingerprint:
  "decodeFingerprint (encodeFingerprint a) = (if a = [] then None else Some a)"
proof (cases "a = []")
  case True
  then show ?thesis by (simp add: encodeFingerprint_def decodeFingerprint_def toString_base64_def)
next
  case False
  have buf: "from_base64 (encodeFingerprint a) = concat (map writeUInt32BE a)"
    by (simp add: encodeFingerprint_def from_base64_toString)
  have "length (from_base64 (encodeFingerprint a)) \<noteq> 0" using False by (simp only: buf length_words) simp
  then have "encodeFingerprint a \<noteq> []" by (auto simp: from_base64_def map_filter_simps)
  moreover have "map (\<lambda>i. readUInt32BE (concat (map writeUInt32BE a)) (i * 4)) [0..<length a] = a"
    by (rule nth_equalityI) (auto simp: readUInt32BE_words)
  moreover have "writeUInt32BE v \<noteq> []" for v
    using length_writeUInt32BE [of v] by (metis list.size(3) zero_neq_numeral)
  ultimately show ?thesis
    using False by (simp add: decodeFingerprint_def buf Let_def)
qed

subsection \<open>Counting the difference\<close>

text \<open>The counts stand for a multiset.\<close>

definition counts_of :: "('a \<rightharpoonup> nat) \<Rightarrow> 'a multiset \<Rightarrow> bool" where
  "counts_of counts M \<longleftrightarrow> (\<forall>v. (case counts v of None \<Rightarrow> 0 | Some c \<Rightarrow> c) = count M v)"

lemma counts_of_count_value:
  "counts_of counts M \<Longrightarrow> counts_of (count_value counts v) (add_mset v M)"
  by (auto simp: counts_of_def count_value_def)

lemma counts_of_counted: "counts_of counts M \<Longrightarrow> counts_of (foldl count_value counts a) (M + mset a)"
proof (induction a arbitrary: counts M)
  case (Cons v a)
  from Cons.IH [OF counts_of_count_value [OF Cons.prems, of v]] show ?case by simp
qed simp

lemma match_value_counts:
  assumes "counts_of counts M"
  shows "counts_of (fst (match_value (counts, k) v)) (M - {#v#})
       \<and> snd (match_value (counts, k) v) = k + (if v \<in># M then 1 else 0)"
proof (cases "v \<in># M")
  case True
  then have "0 < count M v" by simp
  then obtain c where "counts v = Some c" "c = count M v" "0 < c"
    using assms unfolding counts_of_def by (cases "counts v") (auto split: option.splits dest: spec [of _ v])
  with True assms show ?thesis by (auto simp: match_value_def counts_of_def)
next
  case False
  then have "case counts v of None \<Rightarrow> True | Some c \<Rightarrow> c = 0"
    using assms unfolding counts_of_def by (auto simp: not_in_iff split: option.splits dest: spec [of _ v])
  with False assms show ?thesis by (auto simp: match_value_def split: option.splits)
qed

lemma matched_count:
  "counts_of counts M \<Longrightarrow> snd (foldl match_value (counts, k) b) + size (M - mset b) = k + size M"
proof (induction b arbitrary: counts k M)
  case (Cons v b)
  obtain counts' k' where step: "match_value (counts, k) v = (counts', k')" by fastforce
  from match_value_counts [OF Cons.prems, of k v] step
  have c: "counts_of counts' (M - {#v#})" and k: "k' = k + (if v \<in># M then 1 else 0)" by auto
  have "size (M - {#v#}) + (if v \<in># M then 1 else 0) = size M"
    by (auto simp: not_in_iff dest!: multi_member_split)
  with Cons.IH [OF c, of k'] k step show ?case by simp
qed simp

lemma countDelta_mset: "countDelta a b = size (mset a - mset b) + size (mset b - mset a)"
proof (cases "a = [] \<or> b = []")
  case False
  define k where "k = snd (foldl match_value (foldl count_value Map.empty a, 0) b)"
  have "counts_of (foldl count_value Map.empty a) (mset a)"
    using counts_of_counted [of Map.empty "{#}" a] by (simp add: counts_of_def)
  from matched_count [OF this, of 0 b] have "k + size (mset a - mset b) = length a"
    by (simp add: k_def)
  moreover have "size (mset a - mset b) + length b = size (mset b - mset a) + length a"
  proof -
    have "mset a - mset b + mset b = mset b - mset a + mset a" by (auto simp: multiset_eq_iff)
    then show ?thesis by (metis size_mset size_union)
  qed
  ultimately show ?thesis using False by (simp add: countDelta_def k_def [symmetric])
qed (auto simp: countDelta_def)

text \<open>A common subsequence is a common part of the multisets.\<close>

lemma subseq_mset: "subseq xs ys \<Longrightarrow> mset xs \<subseteq># mset ys"
  by (induction rule: list_emb.induct) (auto intro: subset_mset.order_trans)

lemma countDelta_common:
  assumes "mset zs \<subseteq># mset xs" "mset zs \<subseteq># mset ys"
  shows "countDelta xs ys \<le> length xs + length ys - 2 * length zs"
proof -
  have "size (mset xs - mset ys) \<le> size (mset xs - mset zs)" "size (mset ys - mset xs) \<le> size (mset ys - mset zs)"
    using assms by (auto intro!: size_mset_mono simp: subseteq_mset_def diff_le_mono2)
  moreover have "length zs \<le> length xs" "length zs \<le> length ys"
    using size_mset_mono [OF assms(1)] size_mset_mono [OF assms(2)] by simp_all
  ultimately show ?thesis
    using assms by (simp add: countDelta_mset size_Diff_submset)
qed

text \<open>Property C32. The difference of two fingerprints is the number of values one side has and the
  other lacks, counted with multiplicity, so it ignores where a line stands; whatever the hash function,
  the difference of the line fingerprints of two texts is at most the number of changed lines between
  them, so a file is never judged more changed across sessions than within one.\<close>

theorem countDelta_correct:
  "countDelta a b = size (mset a - mset b) + size (mset b - mset a)
   \<and> enat (countDelta (lineFingerprint sha256 olds) (lineFingerprint sha256 news))
       \<le> countChangedLines olds news"
proof
  show "enat (countDelta (lineFingerprint sha256 olds) (lineFingerprint sha256 news))
       \<le> countChangedLines olds news"
  proof (cases "length olds > 3000 \<or> length news > 3000")
    case True
    then show ?thesis by (auto simp: countChangedLines_def MAX_LINES_def)
  next
    case False
    obtain zs where zs: "zs \<in> common olds news" "length zs = lcs_length olds news"
      using lcs_length_attained [of olds news] by blast
    define f where "f = (\<lambda>line. readUInt32BE (sha256 line) 0)"
    have "countDelta (map f olds) (map f news) \<le> length (map f olds) + length (map f news) - 2 * length (map f zs)"
      using zs by (intro countDelta_common subseq_mset subseq_map) (auto simp: common_def)
    with False zs show ?thesis
      by (simp add: countChangedLines_lcs MAX_LINES_def lineFingerprint_def f_def)
  qed
qed (rule countDelta_mset)

end
