(* ===== verification/FileCache.thy ===== *)
theory FileCache
  imports JsText JsMap
begin

text \<open>
  The verified file cache (\<^verbatim>\<open>packages/coding-agent/src/core/piwpi/file-cache.ts\<close>), the only reader of
  the disk. \<open>get\<close> suspends twice, for the \<open>stat\<close> and for the \<open>readFile\<close>; what runs between two
  suspensions is one step here, \<open>get_after_stat\<close> and \<open>get_after_read\<close>, and \<open>cache_get\<close> is their
  composition over a disk that does not change in between. The disk is a function from paths to what
  \<open>stat\<close> and \<open>readFile\<close> answer; \<open>hashBuffer\<close> (SHA-256 of the bytes, in hexadecimal) is a parameter.
  The theorems: over every interleaving of lookups with writes of the disk a hit returns the content
  that is on the disk, unless a modification time and size were used twice; the number of entries stays within the capacity unless every entry is pinned;
  the entry that is evicted is the one read longest ago, not the one used longest ago.
\<close>

subsection \<open>Text of a file\<close>

text \<open>\<open>Buffer.toString("utf8")\<close>: the bytes of an ill-formed sequence are replaced by U+FFFD, one for each
  maximal part of a sequence.\<close>

definition maximal_subpart :: "byte list \<Rightarrow> nat" where
  "maximal_subpart bs =
     (case bs of
        b # b1 # r \<Rightarrow>
          (let b0 = unat b in
           if 0xE0 \<le> b0 \<and> b0 \<le> 0xF4 \<and> second_ok b0 b1
           then (if 0xF0 \<le> b0 \<and> r \<noteq> [] \<and> continuation (hd r) then 3 else 2)
           else 1)
      | _ \<Rightarrow> 1)"

lemma maximal_subpart_pos: "0 < maximal_subpart bs"
  by (auto simp: maximal_subpart_def Let_def split: list.splits)

function utf8_lossy :: "byte list \<Rightarrow> nat list" where
  "utf8_lossy bs =
     (if bs = [] then []
      else case utf8_step bs of
        Some (c, r) \<Rightarrow> c # utf8_lossy r
      | None \<Rightarrow> 0xFFFD # utf8_lossy (drop (maximal_subpart bs) bs))"
  by pat_completeness auto
termination
  by (relation "measure length") (auto dest: utf8_step_shorter simp: maximal_subpart_pos)

declare utf8_lossy.simps [simp del]

definition file_lines :: "byte list \<Rightarrow> js_string list" where
  "file_lines buf = split_on newline (concat (map scalar_utf16 (utf8_lossy buf)))"

subsection \<open>The cache\<close>

record file_stat =
  st_mtimeNs :: int
  st_size :: int

record cache_entry =
  mtimeNs :: int
  fsize :: int
  fhash :: js_string
  totalLines :: nat
  flines :: "js_string list option"

record cached_file =
  cf_entry :: cache_entry
  lastVerified :: int

record file_cache =
  byPath :: "(js_string \<times> cached_file) list"
  pinned :: "js_string list"
  capacity :: nat
  maxCachedLines :: nat

record cache_result =
  r_entry :: cache_entry
  r_old :: "cache_entry option"

definition MAX_CACHED_LINES :: nat where
  "MAX_CACHED_LINES = 3000"

definition TTL_MS :: int where
  "TTL_MS = 300000"

definition DEFAULT_CAPACITY :: nat where
  "DEFAULT_CAPACITY = 32"

definition new_cache :: "nat option \<Rightarrow> nat option \<Rightarrow> file_cache" where
  "new_cache cap lines =
     \<lparr>byPath = [], pinned = [],
      capacity = (case cap of None \<Rightarrow> DEFAULT_CAPACITY | Some c \<Rightarrow> c),
      maxCachedLines = (case lines of None \<Rightarrow> MAX_CACHED_LINES | Some l \<Rightarrow> l)\<rparr>"

definition pin :: "js_string \<Rightarrow> file_cache \<Rightarrow> file_cache" where
  "pin absPath c = c\<lparr>pinned := List.insert absPath (pinned c)\<rparr>"

definition unpin :: "js_string \<Rightarrow> file_cache \<Rightarrow> file_cache" where
  "unpin absPath c = c\<lparr>pinned := filter (\<lambda>p. p \<noteq> absPath) (pinned c)\<rparr>"

text \<open>The scan of \<open>evict\<close>: the first key with the least time among those not pinned, \<open>None\<close> while
  \<open>oldestAt\<close> is \<open>Infinity\<close>.\<close>

definition evict_scan :: "js_string list \<Rightarrow> (js_string \<times> int) option \<Rightarrow> js_string \<times> cached_file \<Rightarrow> (js_string \<times> int) option" where
  "evict_scan pins oldest kv =
     (if fst kv \<in> set pins then oldest
      else case oldest of
        None \<Rightarrow> Some (fst kv, lastVerified (snd kv))
      | Some (_, oldestAt) \<Rightarrow> if lastVerified (snd kv) < oldestAt then Some (fst kv, lastVerified (snd kv)) else oldest)"

definition evict :: "file_cache \<Rightarrow> file_cache" where
  "evict c =
     (if length (byPath c) \<le> capacity c then c
      else case foldl (evict_scan (pinned c)) None (byPath c) of
        None \<Rightarrow> c
      | Some (key, _) \<Rightarrow> c\<lparr>byPath := map_delete key (byPath c)\<rparr>)"

text \<open>A lookup that has to read: what it keeps while \<open>readFile\<close> runs.\<close>

record reading =
  rd_path :: js_string
  rd_stat :: file_stat
  rd_now :: int
  rd_cached :: "cache_entry option"

datatype get_step = Got "cache_result option" | Reading reading

definition hit :: "file_stat \<Rightarrow> int \<Rightarrow> cached_file \<Rightarrow> bool" where
  "hit st now cf \<longleftrightarrow> mtimeNs (cf_entry cf) = st_mtimeNs st \<and> fsize (cf_entry cf) = st_size st
     \<and> now - lastVerified cf < TTL_MS"

definition get_after_stat :: "js_string \<Rightarrow> file_stat option \<Rightarrow> int \<Rightarrow> file_cache \<Rightarrow> get_step \<times> file_cache" where
  "get_after_stat absPath stat_result now c =
     (case stat_result of
        None \<Rightarrow> (Got None, c\<lparr>byPath := map_delete absPath (byPath c)\<rparr>)
      | Some st \<Rightarrow>
          let cached = map_of (byPath c) absPath in
          if (case cached of None \<Rightarrow> False | Some cf \<Rightarrow> hit st now cf)
          then (Got (Some \<lparr>r_entry = cf_entry (the cached), r_old = None\<rparr>), c)
          else (Reading \<lparr>rd_path = absPath, rd_stat = st, rd_now = now, rd_cached = map_option cf_entry cached\<rparr>, c))"

definition read_entry :: "(byte list \<Rightarrow> js_string) \<Rightarrow> nat \<Rightarrow> file_stat \<Rightarrow> byte list \<Rightarrow> cache_entry" where
  "read_entry hashBuffer max_lines st buf =
     (let lines = file_lines buf in
      \<lparr>mtimeNs = st_mtimeNs st, fsize = st_size st, fhash = hashBuffer buf, totalLines = length lines,
       flines = (if length lines \<le> max_lines then Some lines else None)\<rparr>)"

definition get_after_read ::
  "(byte list \<Rightarrow> js_string) \<Rightarrow> reading \<Rightarrow> byte list option \<Rightarrow> file_cache \<Rightarrow> cache_result option \<times> file_cache" where
  "get_after_read hashBuffer rd buf c =
     (case buf of
        None \<Rightarrow> (None, c\<lparr>byPath := map_delete (rd_path rd) (byPath c)\<rparr>)
      | Some b \<Rightarrow>
          let entry = read_entry hashBuffer (maxCachedLines c) (rd_stat rd) b;
              c' = evict (c\<lparr>byPath := map_set (rd_path rd) \<lparr>cf_entry = entry, lastVerified = rd_now rd\<rparr> (byPath c)\<rparr>)
          in (Some \<lparr>r_entry = entry, r_old = rd_cached rd\<rparr>, c'))"

subsection \<open>The disk\<close>

text \<open>A file: what \<open>stat\<close> says of it and its bytes; \<open>readable\<close> tells whether \<open>readFile\<close> succeeds (a
  directory can be stat'ed but not read).\<close>

record disk_file =
  df_stat :: file_stat
  df_content :: "byte list"
  df_readable :: bool

type_synonym disk = "js_string \<Rightarrow> disk_file option"

definition disk_stat :: "disk \<Rightarrow> js_string \<Rightarrow> file_stat option" where
  "disk_stat d p = map_option df_stat (d p)"

definition disk_read :: "disk \<Rightarrow> js_string \<Rightarrow> byte list option" where
  "disk_read d p = (case d p of None \<Rightarrow> None | Some f \<Rightarrow> if df_readable f then Some (df_content f) else None)"

definition cache_get ::
  "(byte list \<Rightarrow> js_string) \<Rightarrow> disk \<Rightarrow> int \<Rightarrow> js_string \<Rightarrow> file_cache \<Rightarrow> cache_result option \<times> file_cache" where
  "cache_get hashBuffer d now absPath c =
     (case get_after_stat absPath (disk_stat d absPath) now c of
        (Got r, c') \<Rightarrow> (r, c')
      | (Reading rd, c') \<Rightarrow> get_after_read hashBuffer rd (disk_read d absPath) c')"

text \<open>\<open>readLines\<close>: the lines of the cache, or those read from the disk again (\<open>None\<close> where \<open>readFile\<close>
  throws).\<close>

definition readLines ::
  "(byte list \<Rightarrow> js_string) \<Rightarrow> disk \<Rightarrow> int \<Rightarrow> js_string \<Rightarrow> file_cache \<Rightarrow> js_string list option \<times> file_cache" where
  "readLines hashBuffer d now absPath c =
     (case cache_get hashBuffer d now absPath c of
        (Some r, c') \<Rightarrow>
          (case flines (r_entry r) of
             Some ls \<Rightarrow> (Some ls, c')
           | None \<Rightarrow> (map_option file_lines (disk_read d absPath), c'))
      | (None, c') \<Rightarrow> (map_option file_lines (disk_read d absPath), c'))"

subsection \<open>Eviction\<close>

lemma evict_scan_spec:
  "foldl (evict_scan pins) oldest kvs = Some (k, t) \<Longrightarrow>
     oldest = Some (k, t) \<or> (\<exists>cf. (k, cf) \<in> set kvs \<and> k \<notin> set pins \<and> lastVerified cf = t)"
  by (induction kvs arbitrary: oldest)
     (auto simp: evict_scan_def split: if_splits option.splits prod.splits, force+)

lemma evict_scan_None:
  "foldl (evict_scan pins) oldest kvs = None \<longleftrightarrow> oldest = None \<and> fst ` set kvs \<subseteq> set pins"
  by (induction kvs arbitrary: oldest) (auto simp: evict_scan_def split: if_splits option.splits)

lemma evict_scan_least:
  "foldl (evict_scan pins) oldest kvs = Some (k, t) \<Longrightarrow>
     (\<forall>k' t'. oldest = Some (k', t') \<longrightarrow> t \<le> t')
     \<and> (\<forall>(k', cf) \<in> set kvs. k' \<notin> set pins \<longrightarrow> t \<le> lastVerified cf)"
  by (induction kvs arbitrary: oldest)
     (force simp: evict_scan_def split: if_splits option.splits prod.splits)+

lemma evict_fields [simp]:
  "pinned (evict c) = pinned c" "capacity (evict c) = capacity c" "maxCachedLines (evict c) = maxCachedLines c"
  by (auto simp: evict_def split: option.splits prod.splits)

lemma evict_lookup:
  "map_of (byPath (evict c)) p = Some cf \<Longrightarrow> map_of (byPath c) p = Some cf"
  by (auto simp: evict_def split: if_splits option.splits)

lemma evict_keeps_pinned:
  "p \<in> set (pinned c) \<Longrightarrow> map_of (byPath (evict c)) p = map_of (byPath c) p"
  by (auto simp: evict_def dest: evict_scan_spec split: option.splits)

lemma evict_js_map: "js_map (byPath c) \<Longrightarrow> js_map (byPath (evict c))"
  by (auto simp: evict_def split: option.splits prod.splits)

lemma evict_length:
  assumes "js_map (byPath c)"
  shows "length (byPath (evict c)) =
     (if length (byPath c) \<le> capacity c \<or> fst ` set (byPath c) \<subseteq> set (pinned c)
      then length (byPath c) else length (byPath c) - 1)"
proof (cases "length (byPath c) \<le> capacity c")
  case False
  show ?thesis
  proof (cases "foldl (evict_scan (pinned c)) None (byPath c)")
    case None
    then have "fst ` set (byPath c) \<subseteq> set (pinned c)" by (simp add: evict_scan_None)
    with False None show ?thesis by (simp add: evict_def)
  next
    case (Some kt)
    then obtain k t where kt: "foldl (evict_scan (pinned c)) None (byPath c) = Some (k, t)" by (cases kt) auto
    from evict_scan_spec [OF this] have "k \<in> fst ` set (byPath c)" "k \<notin> set (pinned c)" by force+
    with False kt assms show ?thesis by (auto simp: evict_def length_map_delete)
  qed
qed (simp add: evict_def)

lemma cache_get_js_map: "js_map (byPath c) \<Longrightarrow> js_map (byPath (snd (cache_get h d now p c)))"
  by (auto simp: cache_get_def get_after_stat_def get_after_read_def Let_def
      intro!: evict_js_map split: option.splits if_splits)

subsection \<open>Lookups interleaved with writes\<close>

text \<open>What an entry says of a file.\<close>

definition describes :: "(byte list \<Rightarrow> js_string) \<Rightarrow> cache_entry \<Rightarrow> disk_file \<Rightarrow> bool" where
  "describes hashBuffer e f \<longleftrightarrow>
     mtimeNs e = st_mtimeNs (df_stat f) \<and> fhash e = hashBuffer (df_content f)
     \<and> totalLines e = length (file_lines (df_content f))
     \<and> (flines e = None \<or> flines e = Some (file_lines (df_content f)))"

text \<open>The cache, the disk, the \<open>stat\<close> answers that have not reached their lookup yet and the lookups that are reading. Files are
  written and removed at will; \<open>w_seen\<close> has the modification times and sizes that a path has had, and \<open>w_reused\<close> the paths
  that were written with a modification time and size they had had before.\<close>

record world =
  w_disk :: disk
  w_seen :: "(js_string \<times> file_stat) set"
  w_reused :: "js_string set"
  w_cache :: file_cache
  w_stats :: "(js_string \<times> file_stat option) list"
  w_reading :: "reading list"

inductive cache_step :: "(byte list \<Rightarrow> js_string) \<Rightarrow> world \<Rightarrow> world \<Rightarrow> bool" for hashBuffer where
  file_written: "cache_step hashBuffer w
    (w\<lparr>w_disk := (w_disk w)(p \<mapsto> f), w_seen := insert (p, df_stat f) (w_seen w),
       w_reused := (if (p, df_stat f) \<in> w_seen w then insert p (w_reused w) else w_reused w)\<rparr>)"
| file_removed: "cache_step hashBuffer w (w\<lparr>w_disk := (w_disk w)(p := None)\<rparr>)"
| lookup_started: "cache_step hashBuffer w (w\<lparr>w_stats := (p, disk_stat (w_disk w) p) # w_stats w\<rparr>)"
| lookup_answered: "(p, st) \<in> set (w_stats w) \<Longrightarrow> get_after_stat p st now (w_cache w) = (Got r, c) \<Longrightarrow>
    cache_step hashBuffer w (w\<lparr>w_cache := c, w_stats := remove1 (p, st) (w_stats w)\<rparr>)"
| lookup_reads: "(p, st) \<in> set (w_stats w) \<Longrightarrow> get_after_stat p st now (w_cache w) = (Reading rd, c) \<Longrightarrow>
    cache_step hashBuffer w
      (w\<lparr>w_cache := c, w_stats := remove1 (p, st) (w_stats w), w_reading := rd # w_reading w\<rparr>)"
| read_returned: "rd \<in> set (w_reading w) \<Longrightarrow>
    get_after_read hashBuffer rd (disk_read (w_disk w) (rd_path rd)) (w_cache w) = (r, c) \<Longrightarrow>
    cache_step hashBuffer w (w\<lparr>w_cache := c, w_reading := remove1 rd (w_reading w)\<rparr>)"
| pinned_path: "cache_step hashBuffer w (w\<lparr>w_cache := pin p (w_cache w)\<rparr>)"
| unpinned_path: "cache_step hashBuffer w (w\<lparr>w_cache := unpin p (w_cache w)\<rparr>)"

definition start_world :: "disk \<Rightarrow> file_cache \<Rightarrow> world" where
  "start_world d c = \<lparr>w_disk = d, w_seen = {(p, df_stat f) | p f. d p = Some f}, w_reused = {}, w_cache = c, w_stats = [], w_reading = []\<rparr>"

text \<open>The invariant: an entry with the modification time and size of the file on the disk describes it, where these were not
  used twice.\<close>

definition stat_of_entry :: "cache_entry \<Rightarrow> file_stat" where
  "stat_of_entry e = \<lparr>st_mtimeNs = mtimeNs e, st_size = fsize e\<rparr>"

definition coherent_at :: "(byte list \<Rightarrow> js_string) \<Rightarrow> disk \<Rightarrow> file_cache \<Rightarrow> js_string \<Rightarrow> bool" where
  "coherent_at hashBuffer d c p \<longleftrightarrow>
     (\<forall>cf f. map_of (byPath c) p = Some cf \<longrightarrow> d p = Some f
        \<longrightarrow> stat_of_entry (cf_entry cf) = df_stat f \<longrightarrow> describes hashBuffer (cf_entry cf) f)"

definition coherent :: "(byte list \<Rightarrow> js_string) \<Rightarrow> disk \<Rightarrow> file_cache \<Rightarrow> bool" where
  "coherent hashBuffer d c \<longleftrightarrow> (\<forall>p. coherent_at hashBuffer d c p)"

definition cache_seen :: "(js_string \<times> file_stat) set \<Rightarrow> file_cache \<Rightarrow> bool" where
  "cache_seen seen c \<longleftrightarrow> (\<forall>p cf. map_of (byPath c) p = Some cf \<longrightarrow> (p, stat_of_entry (cf_entry cf)) \<in> seen)"

definition world_ok :: "(byte list \<Rightarrow> js_string) \<Rightarrow> world \<Rightarrow> bool" where
  "world_ok hashBuffer w \<longleftrightarrow>
     (\<forall>p f. w_disk w p = Some f \<longrightarrow> (p, df_stat f) \<in> w_seen w)
     \<and> (\<forall>p. p \<notin> w_reused w \<longrightarrow> coherent_at hashBuffer (w_disk w) (w_cache w) p)
     \<and> cache_seen (w_seen w) (w_cache w)
     \<and> (\<forall>p s. (p, Some s) \<in> set (w_stats w) \<longrightarrow> (p, s) \<in> w_seen w)
     \<and> (\<forall>rd \<in> set (w_reading w). (rd_path rd, rd_stat rd) \<in> w_seen w)"

lemma coherent_at_delete: "coherent_at h d c q \<Longrightarrow> coherent_at h d (c\<lparr>byPath := map_delete p (byPath c)\<rparr>) q"
  by (auto simp: coherent_at_def split: if_splits)

lemma coherent_at_evict: "coherent_at h d c q \<Longrightarrow> coherent_at h d (evict c) q"
  by (auto simp: coherent_at_def dest: evict_lookup)

lemma cache_seen_delete: "cache_seen s c \<Longrightarrow> cache_seen s (c\<lparr>byPath := map_delete p (byPath c)\<rparr>)"
  by (auto simp: cache_seen_def split: if_splits)

lemma cache_seen_evict: "cache_seen s c \<Longrightarrow> cache_seen s (evict c)"
  by (auto simp: cache_seen_def dest: evict_lookup)

lemma after_stat_cache:
  "get_after_stat p st now c = (g, c') \<Longrightarrow>
     (coherent_at h d c q \<longrightarrow> coherent_at h d c' q) \<and> (cache_seen s c \<longrightarrow> cache_seen s c')"
  by (auto simp: get_after_stat_def Let_def coherent_at_delete cache_seen_delete split: option.splits if_splits)

lemma after_read_cache:
  assumes "get_after_read h rd (disk_read d (rd_path rd)) c = (r, c')" "coherent_at h d c q"
  shows "coherent_at h d c' q"
proof (cases "disk_read d (rd_path rd)")
  case None
  with assms show ?thesis by (auto simp: get_after_read_def coherent_at_delete)
next
  case (Some b)
  define e where "e = read_entry h (maxCachedLines c) (rd_stat rd) b"
  have "coherent_at h d (c\<lparr>byPath := map_set (rd_path rd) \<lparr>cf_entry = e, lastVerified = rd_now rd\<rparr> (byPath c)\<rparr>) q"
  proof -
    have "describes h e f" if "d (rd_path rd) = Some f" "stat_of_entry e = df_stat f" for f
      using that Some
      by (auto simp: e_def disk_read_def describes_def read_entry_def stat_of_entry_def Let_def split: if_splits)
        (metis file_stat.select_convs(1))
    with assms(2) show ?thesis by (auto simp: coherent_at_def)
  qed
  with Some assms(1) show ?thesis
    by (auto simp: get_after_read_def Let_def e_def coherent_at_evict)
qed

lemma stat_of_read_entry: "stat_of_entry (read_entry h n st b) = st"
  by (simp add: stat_of_entry_def read_entry_def Let_def)

lemma after_read_seen:
  assumes "get_after_read h rd buf c = (r, c')" "cache_seen s c" "(rd_path rd, rd_stat rd) \<in> s"
  shows "cache_seen s c'"
proof (cases buf)
  case (Some b)
  have "cache_seen s (c\<lparr>byPath := map_set (rd_path rd)
      \<lparr>cf_entry = read_entry h (maxCachedLines c) (rd_stat rd) b, lastVerified = rd_now rd\<rparr> (byPath c)\<rparr>)"
    using assms by (auto simp: cache_seen_def stat_of_read_entry)
  with Some assms show ?thesis by (auto simp: get_after_read_def Let_def cache_seen_evict)
qed (use assms in \<open>auto simp: get_after_read_def cache_seen_delete\<close>)

lemma world_ok_step: "cache_step h w w' \<Longrightarrow> world_ok h w \<Longrightarrow> world_ok h w'"
proof (induction rule: cache_step.induct)
  case (file_written w p f)
  have "coherent_at h ((w_disk w)(p \<mapsto> f)) (w_cache w) q" if "q \<noteq> p \<or> (p, df_stat f) \<notin> w_seen w" "q \<notin> w_reused w" for q
    using file_written that by (cases "q = p") (force simp: world_ok_def coherent_at_def cache_seen_def)+
  with file_written show ?case by (auto simp: world_ok_def cache_seen_def split: if_splits)
next
  case (file_removed w p)
  then show ?case by (auto simp: world_ok_def coherent_at_def)
next
  case (lookup_started w p)
  then show ?case by (cases "w_disk w p") (auto simp: world_ok_def disk_stat_def)
next
  case (lookup_answered p st w now r c)
  from lookup_answered(3) after_stat_cache [OF lookup_answered(2), of h "w_disk w" _ "w_seen w"]
  show ?case by (auto simp: world_ok_def dest: set_remove1_subset [THEN subsetD])
next
  case (lookup_reads p st w now rd c)
  have "(rd_path rd, rd_stat rd) \<in> w_seen w"
    using lookup_reads by (fastforce simp: world_ok_def get_after_stat_def Let_def split: option.splits if_splits)
  with lookup_reads(3) after_stat_cache [OF lookup_reads(2), of h "w_disk w" _ "w_seen w"]
  show ?case by (auto simp: world_ok_def dest: set_remove1_subset [THEN subsetD])
next
  case (read_returned rd w r c)
  then have "(rd_path rd, rd_stat rd) \<in> w_seen w" by (auto simp: world_ok_def)
  with read_returned after_read_cache [OF read_returned(2)] after_read_seen [OF read_returned(2)]
  show ?case by (auto simp: world_ok_def dest: set_remove1_subset [THEN subsetD])
next
  case (pinned_path w p)
  then show ?case by (auto simp: world_ok_def coherent_at_def cache_seen_def pin_def)
next
  case (unpinned_path w p)
  then show ?case by (auto simp: world_ok_def coherent_at_def cache_seen_def unpin_def)
qed

lemma world_ok_reachable: "(cache_step h)\<^sup>*\<^sup>* w w' \<Longrightarrow> world_ok h w \<Longrightarrow> world_ok h w'"
  by (induction rule: rtranclp_induct) (auto intro: world_ok_step)

lemma world_ok_start: "byPath c = [] \<Longrightarrow> world_ok h (start_world d c)"
  by (auto simp: world_ok_def start_world_def coherent_at_def cache_seen_def)

lemma hit_describes:
  assumes "coherent_at h d c p" "get_after_stat p (disk_stat d p) now c = (Got (Some r), c')"
  shows "\<exists>f. d p = Some f \<and> describes h (r_entry r) f \<and> c' = c \<and> r_old r = None"
  using assms
  by (auto simp: get_after_stat_def disk_stat_def Let_def coherent_at_def hit_def stat_of_entry_def split: option.splits if_splits)

lemma hit_recent:
  "get_after_stat p st now c = (Got (Some r), c') \<Longrightarrow>
     \<exists>cf. map_of (byPath c) p = Some cf \<and> r_entry r = cf_entry cf \<and> now - lastVerified cf < TTL_MS"
  by (auto simp: get_after_stat_def Let_def hit_def split: option.splits if_splits)

text \<open>Property C23. The cache is never poisoned. Take any interleaving of lookups (each of which asks for the
  \<open>stat\<close>, then may read), pins, unpins, writes and removals of files. A lookup that is answered from the cache, its
  \<open>stat\<close> being that of the file on the disk, gives the hash, the number of lines and the lines of what
  is on the disk, whatever other lookups read in the meantime, unless the file was written with a modification time and size that it had
  had before; and in any case the answer is that of a lookup made less than five minutes ago.\<close>

theorem cache_hit_is_current:
  assumes "byPath c = []" "(cache_step hashBuffer)\<^sup>*\<^sup>* (start_world d c) w"
    and "get_after_stat p (disk_stat (w_disk w) p) now (w_cache w) = (Got (Some r), c')"
  shows "(p \<in> w_reused w \<or> (\<exists>f. w_disk w p = Some f \<and> describes hashBuffer (r_entry r) f))
    \<and> (\<exists>cf. map_of (byPath (w_cache w)) p = Some cf \<and> r_entry r = cf_entry cf \<and> now - lastVerified cf < TTL_MS)"
proof -
  have "world_ok hashBuffer w"
    using assms by (intro world_ok_reachable [OF assms(2)] world_ok_start)
  then have "coherent_at hashBuffer (w_disk w) (w_cache w) p" if "p \<notin> w_reused w" using that by (simp add: world_ok_def)
  with hit_describes [of hashBuffer "w_disk w" "w_cache w" p now r c'] assms(3) hit_recent [OF assms(3)]
  show ?thesis by blast
qed

theorem cache_hit_is_current_witness:
  "\<exists>f. w_disk (start_world (\<lambda>p. Some \<lparr>df_stat = \<lparr>st_mtimeNs = 1, st_size = 1\<rparr>, df_content = [97], df_readable = True\<rparr>)
           (new_cache None None)) [] = Some f
     \<and> describes (\<lambda>b. map ucast b) (read_entry (\<lambda>b. map ucast b) 3000 \<lparr>st_mtimeNs = 1, st_size = 1\<rparr> [97]) f"
proof -
  define h :: "byte list \<Rightarrow> js_string" where "h = (\<lambda>b. map ucast b)"
  define d :: disk where
    "d = (\<lambda>p. Some \<lparr>df_stat = \<lparr>st_mtimeNs = 1, st_size = 1\<rparr>, df_content = [97], df_readable = True\<rparr>)"
  define st where "st = \<lparr>st_mtimeNs = 1, st_size = 1\<rparr>"
  define rd where "rd = \<lparr>rd_path = [], rd_stat = st, rd_now = 0, rd_cached = None\<rparr>"
  define w0 where "w0 = start_world d (new_cache None None)"
  define w1 where "w1 = w0\<lparr>w_stats := [([], Some st)]\<rparr>"
  define w2 where "w2 = w0\<lparr>w_reading := [rd]\<rparr>"
  define c3 where "c3 = (new_cache None None)\<lparr>byPath := [([], \<lparr>cf_entry = read_entry h 3000 st [97], lastVerified = 0\<rparr>)]\<rparr>"
  define w3 where "w3 = w0\<lparr>w_cache := c3\<rparr>"
  note defs = w0_def w1_def w2_def w3_def c3_def rd_def st_def d_def start_world_def new_cache_def
    MAX_CACHED_LINES_def DEFAULT_CAPACITY_def
  have "cache_step h w0 w1"
    using cache_step.lookup_started [of h w0 "[]"] by (simp add: defs disk_stat_def)
  moreover have "get_after_stat [] (Some st) 0 (w_cache w1) = (Reading rd, w_cache w0)"
    by (simp add: defs get_after_stat_def)
  then have "cache_step h w1 w2"
    using cache_step.lookup_reads [of "[]" "Some st" w1 0 rd "w_cache w0" h] by (simp add: defs)
  moreover have "get_after_read h rd (disk_read (w_disk w2) (rd_path rd)) (w_cache w2)
      = (Some \<lparr>r_entry = read_entry h 3000 st [97], r_old = None\<rparr>, c3)"
    by (simp add: defs get_after_read_def disk_read_def evict_def Let_def)
  then have "cache_step h w2 w3"
    using cache_step.read_returned [of rd w2 h _ c3] by (simp add: defs)
  ultimately have steps: "(cache_step h)\<^sup>*\<^sup>* (start_world d (new_cache None None)) w3"
    unfolding w0_def [symmetric] by (meson converse_rtranclp_into_rtranclp rtranclp.rtrancl_refl)
  have "get_after_stat [] (disk_stat (w_disk w3) []) 5 (w_cache w3)
      = (Got (Some \<lparr>r_entry = read_entry h 3000 st [97], r_old = None\<rparr>), c3)"
    by (simp add: defs get_after_stat_def disk_stat_def hit_def TTL_MS_def read_entry_def Let_def)
  from cache_hit_is_current [OF _ steps this] show ?thesis
    by (auto simp: defs h_def)
qed

text \<open>The size of the cache and the pins: a lookup leaves at most \<open>capacity\<close> entries, or no more
  than there were, unless every entry is of a pinned file, and it never drops or changes the entry of a
  pinned file other than the one looked up.\<close>

theorem cache_get_bounded:
  assumes "js_map (byPath c)" "cache_get hashBuffer d now p c = (r, c')"
  shows "(length (byPath c') \<le> max (capacity c) (length (byPath c)) \<or> fst ` set (byPath c') \<subseteq> set (pinned c))
    \<and> (\<forall>q \<in> set (pinned c). q \<noteq> p \<longrightarrow> map_of (byPath c') q = map_of (byPath c) q)"
proof -
  have deleted: "length (map_delete p (byPath c)) \<le> length (byPath c)" by (simp add: map_delete_def)
  define c1 where "c1 = (\<lambda>cf. c\<lparr>byPath := map_set p cf (byPath c)\<rparr>)"
  have set_ok: "(length (byPath (evict (c1 cf))) \<le> max (capacity c) (length (byPath c))
          \<or> fst ` set (byPath (evict (c1 cf))) \<subseteq> set (pinned c))
      \<and> (\<forall>q \<in> set (pinned c). q \<noteq> p \<longrightarrow> map_of (byPath (evict (c1 cf))) q = map_of (byPath c) q)" for cf
  proof -
    have js: "js_map (byPath (c1 cf))" using assms(1) by (simp add: c1_def)
    have len: "length (byPath (c1 cf)) \<le> Suc (length (byPath c))" by (simp add: c1_def length_map_set)
    have "fst ` set (byPath (evict (c1 cf))) \<subseteq> fst ` set (byPath (c1 cf))"
      by (auto simp: evict_def map_delete_def split: option.splits)
    then have "length (byPath (evict (c1 cf))) \<le> max (capacity c) (length (byPath c))
          \<or> fst ` set (byPath (evict (c1 cf))) \<subseteq> set (pinned c)"
      using evict_length [OF js] len by (auto simp: c1_def split: if_splits)
    moreover have "map_of (byPath (evict (c1 cf))) q = map_of (byPath c) q" if "q \<in> set (pinned c)" "q \<noteq> p" for q
      using evict_keeps_pinned [of q "c1 cf"] that by (simp add: c1_def)
    ultimately show ?thesis by blast
  qed
  show ?thesis
    using assms(2) deleted set_ok
    by (auto simp: cache_get_def get_after_stat_def get_after_read_def Let_def c1_def split: option.splits if_splits)
qed

theorem cache_get_bounded_witness:
  "length (byPath (snd (cache_get (\<lambda>b. []) (\<lambda>p. Some \<lparr>df_stat = \<lparr>st_mtimeNs = 1, st_size = 0\<rparr>, df_content = [],
       df_readable = True\<rparr>) 0 [1] (new_cache (Some 1) None)))) \<le> max 1 0
   \<or> fst ` set (byPath (snd (cache_get (\<lambda>b. []) (\<lambda>p. Some \<lparr>df_stat = \<lparr>st_mtimeNs = 1, st_size = 0\<rparr>, df_content = [],
       df_readable = True\<rparr>) 0 [1] (new_cache (Some 1) None)))) \<subseteq> {}"
  using cache_get_bounded [of "new_cache (Some 1) None" "\<lambda>b. []" "\<lambda>p. Some \<lparr>df_stat = \<lparr>st_mtimeNs = 1, st_size = 0\<rparr>,
    df_content = [], df_readable = True\<rparr>" 0 "[1]"]
  by (auto simp: new_cache_def prod_eq_iff)

text \<open>What the harness relies on: over a disk that does not change during the call, a lookup answers
  with a description of the file, fails only where there is none to read, and keeps the source usable.\<close>

locale content_source =
  fixes fetch :: "disk \<Rightarrow> int \<Rightarrow> js_string \<Rightarrow> 'c \<Rightarrow> cache_result option \<times> 'c"
    and fetch_lines :: "disk \<Rightarrow> int \<Rightarrow> js_string \<Rightarrow> 'c \<Rightarrow> js_string list option \<times> 'c"
    and usable :: "disk \<Rightarrow> 'c \<Rightarrow> bool"
    and hashBuffer :: "byte list \<Rightarrow> js_string"
  assumes fetch_some: "usable d c \<Longrightarrow> fetch d now p c = (Some r, c') \<Longrightarrow>
      \<exists>f. d p = Some f \<and> describes hashBuffer (r_entry r) f"
    and fetch_none: "fetch d now p c = (None, c') \<Longrightarrow> disk_read d p = None"
    and fetch_usable: "usable d c \<Longrightarrow> fetch d now p c = (res, c') \<Longrightarrow> usable d c'"
    and lines_read: "usable d c \<Longrightarrow> fetch_lines d now p c = (Some ls, c') \<Longrightarrow>
      \<exists>f. d p = Some f \<and> ls = file_lines (df_content f)"
    and lines_usable: "usable d c \<Longrightarrow> fetch_lines d now p c = (l, c') \<Longrightarrow> usable d c'"
begin

lemma fetch_hash:
  assumes "usable d c" "fetch d now p c = (Some r, c')" "d p = Some f"
  shows "fhash (r_entry r) = hashBuffer (df_content f)" "totalLines (r_entry r) = length (file_lines (df_content f))"
  using fetch_some [OF assms(1,2)] assms(3) by (auto simp: describes_def)

lemma fetch_twice:
  assumes "usable d c" "fetch d now p c = (Some r, c')" "usable d c1" "fetch d now1 p c1 = (Some r1, c1')"
  shows "fhash (r_entry r) = fhash (r_entry r1)"
  using fetch_some [OF assms(1,2)] fetch_some [OF assms(3,4)] by (auto simp: describes_def)

end

lemma cache_get_describes:
  assumes "coherent_at h d c p" "cache_get h d now p c = (Some r, c')"
  shows "\<exists>f. d p = Some f \<and> describes h (r_entry r) f"
proof (cases "get_after_stat p (disk_stat d p) now c")
  case (Pair g c1)
  show ?thesis
  proof (cases g)
    case (Got res)
    with Pair assms hit_describes [of h d c p now r c'] show ?thesis by (auto simp: cache_get_def)
  next
    case (Reading rd)
    then have "rd_path rd = p" "disk_stat d p = Some (rd_stat rd)"
      using Pair by (auto simp: get_after_stat_def Let_def split: option.splits if_splits)
    with Pair Reading assms(2) show ?thesis
      by (auto simp: cache_get_def get_after_read_def disk_read_def disk_stat_def Let_def describes_def
          read_entry_def split: option.splits if_splits)
  qed
qed

lemma cache_get_coherent:
  assumes "coherent_at h d c q" "cache_get h d now p c = (r, c')"
  shows "coherent_at h d c' q"
proof -
  obtain g c1 where g: "get_after_stat p (disk_stat d p) now c = (g, c1)" by fastforce
  then have c1: "coherent_at h d c1 q" using after_stat_cache assms(1) by blast
  show ?thesis
  proof (cases g)
    case (Reading rd)
    then have "rd_path rd = p" using g by (auto simp: get_after_stat_def Let_def split: option.splits if_splits)
    with after_read_cache [OF _ c1] g Reading assms(2) show ?thesis by (auto simp: cache_get_def)
  qed (use g c1 assms(2) in \<open>auto simp: cache_get_def\<close>)
qed

lemma cache_get_None: "cache_get h d now p c = (None, c') \<Longrightarrow> disk_read d p = None"
  by (auto simp: cache_get_def get_after_stat_def get_after_read_def disk_stat_def disk_read_def Let_def
      split: option.splits if_splits)

lemma disk_read_lines:
  "map_option file_lines (disk_read d p) = Some ls \<Longrightarrow> \<exists>f. d p = Some f \<and> ls = file_lines (df_content f)"
  by (auto simp: disk_read_def split: option.splits if_splits)

interpretation fc: content_source "cache_get h" "readLines h" "coherent h" h for h
proof unfold_locales
  fix d c now p ls l c'
  assume "coherent h d c"
  then have c: "coherent_at h d c q" for q by (simp add: coherent_def)
  show "\<exists>f. d p = Some f \<and> ls = file_lines (df_content f)" if "readLines h d now p c = (Some ls, c')"
    using that cache_get_describes [OF c, of now p] disk_read_lines [of d p ls]
    by (fastforce simp: readLines_def describes_def split: prod.splits option.splits)
  show "coherent h d c'" if "readLines h d now p c = (l, c')"
    using that cache_get_coherent [OF c, of now p]
    by (auto simp: readLines_def coherent_def split: prod.splits option.splits)
qed (auto simp: coherent_def dest: cache_get_describes cache_get_coherent cache_get_None)

text \<open>The entry that is evicted is the one that was read longest ago among the files not pinned; a lookup
  answered from the cache does not count as a use, since it leaves the cache as it was.\<close>

theorem eviction_ignores_use:
  "(\<forall>q cf. map_of (byPath c) q = Some cf \<longrightarrow> map_of (byPath (evict c)) q = None \<longrightarrow> js_map (byPath c) \<longrightarrow>
       q \<notin> set (pinned c) \<and> (\<forall>(q', cf') \<in> set (byPath c). q' \<notin> set (pinned c) \<longrightarrow> lastVerified cf \<le> lastVerified cf'))
   \<and> (\<forall>p st now r c'. get_after_stat p st now c = (Got (Some r), c') \<longrightarrow> c' = c)"
proof (intro conjI allI impI)
  fix q cf assume q: "map_of (byPath c) q = Some cf" "map_of (byPath (evict c)) q = None" "js_map (byPath c)"
  then obtain t where scan: "foldl (evict_scan (pinned c)) None (byPath c) = Some (q, t)"
    by (auto simp: evict_def split: if_splits option.splits)
  from evict_scan_spec [OF this] q have "q \<notin> set (pinned c)" "t = lastVerified cf"
    by (auto simp: js_map_mem_iff)
  with evict_scan_least [OF scan]
  show "q \<notin> set (pinned c)" "\<forall>(q', cf') \<in> set (byPath c). q' \<notin> set (pinned c) \<longrightarrow> lastVerified cf \<le> lastVerified cf'"
    by auto
qed (auto simp: get_after_stat_def Let_def split: option.splits if_splits)

end
