(* ===== verification/MemoryQueue.thy ===== *)
theory MemoryQueue
  imports JsText JsMap
begin

text \<open>
  The queue of memory work (\<^verbatim>\<open>packages/coding-agent/src/core/piwpi/memory/queue.ts\<close>): jobs wait for
  their debounce window in a map by plugin, then join a promise chain that runs one item after the
  other; a task of the harness joins the chain at once and has an abort signal while it runs. The
  chain is the list of items that have not started and the one that runs. Timers and promise jobs are
  steps of a relation: a debounce timer fires, the chain starts its next item, the running item ends
  (an exception ends it too), a flush times out. The theorems: items start in the order in which they
  joined the chain and one at a time; shutting down cancels what waits for a timer and nothing that is
  in the chain.
\<close>

record memory_job =
  job_plugin :: js_string
  localContext :: js_string
  dialogueContext :: "js_string option"

datatype chain_item = JobItem memory_job | TaskItem nat

datatype running_item = RunningJob memory_job | RunningTask nat (aborted: bool)

record memory_queue =
  has_worker :: bool
  waiting :: "(js_string \<times> memory_job) list"
  chain :: "chain_item list"
  running :: "running_item option"

definition new_queue :: memory_queue where
  "new_queue = \<lparr>has_worker = False, waiting = [], chain = [], running = None\<rparr>"

definition setWorker :: "memory_queue \<Rightarrow> memory_queue" where
  "setWorker q = q\<lparr>has_worker := True\<rparr>"

text \<open>The signal of the task that runs: whether it is aborted, \<open>None\<close> when there is none.\<close>

definition queue_signal :: "memory_queue \<Rightarrow> bool option" where
  "queue_signal q = (case running q of Some (RunningTask _ ab) \<Rightarrow> Some ab | _ \<Rightarrow> None)"

definition queue_enqueue :: "memory_job \<Rightarrow> memory_queue \<Rightarrow> memory_queue" where
  "queue_enqueue job q =
     (if has_worker q then q\<lparr>waiting := map_set (job_plugin job) job (waiting q)\<rparr> else q)"

definition enqueueTask :: "nat \<Rightarrow> memory_queue \<Rightarrow> memory_queue" where
  "enqueueTask task q = q\<lparr>chain := chain q @ [TaskItem task]\<rparr>"

definition dispatch :: "js_string \<Rightarrow> memory_queue \<Rightarrow> memory_queue" where
  "dispatch i q =
     (case map_of (waiting q) i of
        None \<Rightarrow> q
      | Some job \<Rightarrow> q\<lparr>waiting := map_delete i (waiting q), chain := chain q @ [JobItem job]\<rparr>)"

definition queue_size :: "memory_queue \<Rightarrow> nat" where
  "queue_size q = length (waiting q)"

definition cancelPending :: "memory_queue \<Rightarrow> memory_queue" where
  "cancelPending q = q\<lparr>waiting := []\<rparr>"

text \<open>A promise job starts the next item once the one before has ended; a task gets a new controller.\<close>

definition start_item :: "chain_item \<Rightarrow> running_item" where
  "start_item it = (case it of JobItem j \<Rightarrow> RunningJob j | TaskItem t \<Rightarrow> RunningTask t False)"

definition chain_start :: "memory_queue \<Rightarrow> memory_queue" where
  "chain_start q =
     (case (running q, chain q) of
        (None, it # rest) \<Rightarrow> q\<lparr>running := Some (start_item it), chain := rest\<rparr>
      | _ \<Rightarrow> q)"

definition chain_end :: "memory_queue \<Rightarrow> memory_queue" where
  "chain_end q = q\<lparr>running := None\<rparr>"

text \<open>\<open>flush\<close> waits for the chain; at its timeout it aborts the task that runs.\<close>

definition flush_timeout :: "memory_queue \<Rightarrow> memory_queue" where
  "flush_timeout q =
     (case running q of Some (RunningTask t _) \<Rightarrow> q\<lparr>running := Some (RunningTask t True)\<rparr> | _ \<Rightarrow> q)"

subsection \<open>Order\<close>

text \<open>The queue with the items that joined its chain and those that started, in order.\<close>

record queue_log =
  lq :: memory_queue
  joined :: "chain_item list"
  started :: "chain_item list"

inductive queue_step :: "queue_log \<Rightarrow> queue_log \<Rightarrow> bool" where
  enqueued: "queue_step l (l\<lparr>lq := queue_enqueue job (lq l)\<rparr>)"
| task_added: "queue_step l (l\<lparr>lq := enqueueTask t (lq l), joined := joined l @ [TaskItem t]\<rparr>)"
| timer_fired: "map_of (waiting (lq l)) i = Some job \<Longrightarrow>
    queue_step l (l\<lparr>lq := dispatch i (lq l), joined := joined l @ [JobItem job]\<rparr>)"
| item_started: "running (lq l) = None \<Longrightarrow> chain (lq l) = it # rest \<Longrightarrow>
    queue_step l (l\<lparr>lq := chain_start (lq l), started := started l @ [it]\<rparr>)"
| item_ended: "queue_step l (l\<lparr>lq := chain_end (lq l)\<rparr>)"
| cancelled: "queue_step l (l\<lparr>lq := cancelPending (lq l)\<rparr>)"
| timed_out: "queue_step l (l\<lparr>lq := flush_timeout (lq l)\<rparr>)"

definition start_log :: "bool \<Rightarrow> queue_log" where
  "start_log w = \<lparr>lq = new_queue\<lparr>has_worker := w\<rparr>, joined = [], started = []\<rparr>"

fun item_of :: "running_item \<Rightarrow> chain_item" where
  "item_of (RunningJob j) = JobItem j"
| "item_of (RunningTask t ab) = TaskItem t"

definition runs_last :: "running_item option \<Rightarrow> chain_item list \<Rightarrow> bool" where
  "runs_last r items = (case r of None \<Rightarrow> True | Some r \<Rightarrow> items \<noteq> [] \<and> last items = item_of r)"

definition log_ok :: "queue_log \<Rightarrow> bool" where
  "log_ok l \<longleftrightarrow> joined l = started l @ chain (lq l) \<and> js_map (waiting (lq l))
     \<and> (\<forall>(i, job) \<in> set (waiting (lq l)). job_plugin job = i)
     \<and> runs_last (running (lq l)) (started l)"

lemma map_set_mem: "kv \<in> set (map_set k v kvs) \<Longrightarrow> kv = (k, v) \<or> kv \<in> set kvs"
  by (induction k v kvs rule: map_set.induct) (auto split: if_splits)

lemma log_ok_step: "queue_step l l' \<Longrightarrow> log_ok l \<Longrightarrow> log_ok l'"
proof (induction rule: queue_step.induct)
  case (enqueued l job)
  then show ?case by (auto simp: log_ok_def queue_enqueue_def dest!: map_set_mem)
next
  case (task_added l t)
  then show ?case by (auto simp: log_ok_def enqueueTask_def)
next
  case (timer_fired l i job)
  then show ?case by (auto simp: log_ok_def dispatch_def) (auto simp: map_delete_def)
next
  case (item_started l it rest)
  then show ?case by (auto simp: log_ok_def chain_start_def start_item_def runs_last_def split: chain_item.splits)
next
  case (item_ended l)
  then show ?case by (auto simp: log_ok_def chain_end_def runs_last_def)
next
  case (cancelled l)
  then show ?case by (auto simp: log_ok_def cancelPending_def)
next
  case (timed_out l)
  then show ?case
    by (auto simp: log_ok_def flush_timeout_def runs_last_def split: option.splits running_item.splits)
qed

lemma log_ok_reachable: "queue_step\<^sup>*\<^sup>* l l' \<Longrightarrow> log_ok l \<Longrightarrow> log_ok l'"
  by (induction rule: rtranclp_induct) (auto intro: log_ok_step)

lemma log_ok_start: "log_ok (start_log w)"
  by (simp add: log_ok_def start_log_def new_queue_def runs_last_def)

text \<open>The memory queue runs its work one item after the other and in the order in which it joined
  the chain: in every reachable state the items that joined are those that started, in order, followed
  by those that wait, and the item that runs is the one started last; a plugin has at most one job that
  waits for its timer.\<close>

theorem memory_queue_serial:
  assumes "queue_step\<^sup>*\<^sup>* (start_log w) l"
  shows "joined l = started l @ chain (lq l)
    \<and> (running (lq l) \<noteq> None \<longrightarrow> started l \<noteq> [] \<and>
         (running (lq l) = Some (start_item (last (started l)))
          \<or> (\<exists>t. last (started l) = TaskItem t \<and> running (lq l) = Some (RunningTask t True))))
    \<and> distinct (map (job_plugin \<circ> snd) (waiting (lq l)))"
proof -
  have ok: "log_ok l" using log_ok_reachable [OF assms log_ok_start] .
  have "map (job_plugin \<circ> snd) (waiting (lq l)) = map fst (waiting (lq l))"
    using ok by (auto simp: log_ok_def)
  then have "distinct (map (job_plugin \<circ> snd) (waiting (lq l)))"
    using ok by (simp only: log_ok_def js_map_def)
  moreover have "running (lq l) \<noteq> None \<longrightarrow> started l \<noteq> [] \<and>
         (running (lq l) = Some (start_item (last (started l)))
          \<or> (\<exists>t. last (started l) = TaskItem t \<and> running (lq l) = Some (RunningTask t True)))"
  proof (cases "running (lq l)")
    case (Some r)
    with ok show ?thesis
      by (cases r) (auto simp: log_ok_def runs_last_def start_item_def)
  qed simp
  ultimately show ?thesis using ok by (auto simp: log_ok_def js_map_def)
qed

theorem memory_queue_serial_witness:
  "\<exists>l. queue_step\<^sup>*\<^sup>* (start_log False) l \<and> chain (lq l) = [TaskItem 2] \<and> joined l = started l @ [TaskItem 2]
     \<and> running (lq l) = Some (RunningTask 1 False)"
proof -
  define l1 where "l1 = (start_log False)\<lparr>lq := enqueueTask 1 (lq (start_log False)), joined := [TaskItem 1]\<rparr>"
  define l2 where "l2 = l1\<lparr>lq := enqueueTask 2 (lq l1), joined := [TaskItem 1, TaskItem 2]\<rparr>"
  define l3 where "l3 = l2\<lparr>lq := chain_start (lq l2), started := [TaskItem 1]\<rparr>"
  note defs = l1_def l2_def l3_def start_log_def new_queue_def enqueueTask_def chain_start_def start_item_def
  have "queue_step (start_log False) l1" using queue_step.task_added [of "start_log False" 1] by (simp add: defs)
  moreover have "queue_step l1 l2" using queue_step.task_added [of l1 2] by (simp add: defs)
  moreover have "queue_step l2 l3"
    using queue_step.item_started [of l2 "TaskItem 1" "[TaskItem 2]"] by (simp add: defs)
  ultimately have steps: "queue_step\<^sup>*\<^sup>* (start_log False) l3"
    by (meson converse_rtranclp_into_rtranclp rtranclp.rtrancl_refl)
  with memory_queue_serial [OF steps] show ?thesis by (auto simp: defs intro!: exI [of _ l3])
qed

text \<open>Shutting down does not drop the tasks that wait in the chain: after \<open>cancelPending\<close> and
  the timeout of \<open>flush\<close> a waiting task still starts when the one before it ends, and its signal is not
  aborted.\<close>

theorem shutdown_starts_waiting_task:
  assumes "running q = Some (RunningTask t False)" "chain q = TaskItem t' # rest"
  shows "let q' = flush_timeout (cancelPending q) in
     queue_signal q' = Some True \<and> chain q' = chain q
     \<and> running (chain_start (chain_end q')) = Some (RunningTask t' False)
     \<and> queue_signal (chain_start (chain_end q')) = Some False"
  using assms
  by (simp add: flush_timeout_def cancelPending_def queue_signal_def chain_end_def chain_start_def start_item_def)

theorem shutdown_starts_waiting_task_witness:
  "queue_signal (chain_start (chain_end (flush_timeout (cancelPending
      (chain_start (enqueueTask 2 (enqueueTask 1 new_queue))))))) = Some False"
  using shutdown_starts_waiting_task [of "chain_start (enqueueTask 2 (enqueueTask 1 new_queue))" 1 2 "[]"]
  by (simp add: Let_def new_queue_def enqueueTask_def chain_start_def start_item_def)

end
