(* ===== verification/PosixPath.thy ===== *)
theory PosixPath
  imports JsText
begin

text \<open>
  The functions of \<open>node:path\<close> that the mounting of files uses, as they are on a POSIX host:
  \<open>isAbsolute\<close>, \<open>resolve\<close>, \<open>join\<close> (only ever followed by \<open>resolve\<close> here, so its normalisation is left
  to it) and \<open>relative\<close>. A resolved path is its list of segments, none of them empty, \<open>.\<close> or \<open>..\<close>.
\<close>

abbreviation slash :: js_char where
  "slash \<equiv> 0x2f"

definition isAbsolute :: "js_string \<Rightarrow> bool" where
  "isAbsolute p \<longleftrightarrow> p \<noteq> [] \<and> hd p = slash"

definition push_segment :: "js_string list \<Rightarrow> js_string \<Rightarrow> js_string list" where
  "push_segment segs s =
     (if s = [] \<or> s = js ''.'' then segs else if s = js ''..'' then butlast segs else segs @ [s])"

definition path_segments :: "js_string \<Rightarrow> js_string list" where
  "path_segments p = foldl push_segment [] (split_on slash p)"

definition of_segments :: "js_string list \<Rightarrow> js_string" where
  "of_segments segs = slash # join [slash] segs"

definition join_path :: "js_string \<Rightarrow> js_string \<Rightarrow> js_string" where
  "join_path a b = (if a = [] then b else if b = [] then a else a @ slash # b)"

text \<open>\<open>resolve(base, p)\<close>; \<open>here\<close> is \<open>process.cwd()\<close>.\<close>

definition resolve_path :: "js_string \<Rightarrow> js_string \<Rightarrow> js_string \<Rightarrow> js_string" where
  "resolve_path here base p =
     of_segments (path_segments
       (if isAbsolute p then p
        else if isAbsolute base then base @ slash # p
        else here @ slash # base @ slash # p))"

fun drop_common :: "'a list \<Rightarrow> 'a list \<Rightarrow> 'a list \<times> 'a list" where
  "drop_common (x # xs) (y # ys) = (if x = y then drop_common xs ys else (x # xs, y # ys))"
| "drop_common xs ys = (xs, ys)"

text \<open>\<open>relative(base, p)\<close> of two absolute paths.\<close>

definition relative_path :: "js_string \<Rightarrow> js_string \<Rightarrow> js_string" where
  "relative_path base p =
     (let (up, down) = drop_common (path_segments base) (path_segments p)
      in join [slash] (map (\<lambda>_. js ''..'') up @ down))"

subsection \<open>Segments\<close>

definition clean_segment :: "js_string \<Rightarrow> bool" where
  "clean_segment s \<longleftrightarrow> s \<noteq> [] \<and> s \<noteq> js ''.'' \<and> s \<noteq> js ''..'' \<and> slash \<notin> set s"

lemma push_clean: "clean_segment s \<Longrightarrow> push_segment segs s = segs @ [s]"
  by (simp add: push_segment_def clean_segment_def)

lemma foldl_push_clean: "list_all clean_segment ss \<Longrightarrow> foldl push_segment segs ss = segs @ ss"
  by (induction ss arbitrary: segs) (auto simp: push_clean)

lemma foldl_push_segments_clean:
  "list_all clean_segment segs \<Longrightarrow> \<forall>s \<in> set ss. slash \<notin> set s \<Longrightarrow> list_all clean_segment (foldl push_segment segs ss)"
proof (induction ss arbitrary: segs)
  case (Cons s ss)
  have "list_all clean_segment (push_segment segs s)"
    using Cons.prems by (auto simp: push_segment_def clean_segment_def list_all_iff dest: in_set_butlastD)
  with Cons show ?case by simp
qed simp

lemma path_segments_clean: "list_all clean_segment (path_segments p)"
  unfolding path_segments_def by (rule foldl_push_segments_clean) (auto dest: split_on_free)

lemma path_segments_of_segments:
  assumes "list_all clean_segment segs"
  shows "path_segments (of_segments segs) = segs"
proof (cases "segs = []")
  case True
  then show ?thesis by (simp add: path_segments_def of_segments_def push_segment_def)
next
  case False
  then have "split_on slash (join [slash] segs) = segs"
    using assms by (intro split_join) (auto simp: clean_segment_def list_all_iff)
  then show ?thesis
    using foldl_push_clean [OF assms, of "[]"]
    by (simp add: path_segments_def of_segments_def push_segment_def)
qed

lemma of_segments_absolute [simp]: "isAbsolute (of_segments segs)"
  by (simp add: isAbsolute_def of_segments_def)

lemma resolve_absolute [simp]: "isAbsolute (resolve_path here base p)"
  by (simp add: resolve_path_def)

text \<open>Resolving is idempotent, whatever the second call is relative to.\<close>

lemma resolve_resolved: "resolve_path here' base' (resolve_path here base p) = resolve_path here base p"
  by (simp add: resolve_path_def path_segments_of_segments path_segments_clean)

lemma split_on_glue: "split_on c (a @ c # b) = split_on c a @ split_on c b"
proof (induction a)
  case (Cons x a)
  then show ?case by (cases "split_on c a") auto
qed simp

lemma path_segments_glue:
  "path_segments (a @ slash # b) = foldl push_segment (path_segments a) (split_on slash b)"
  by (simp add: path_segments_def split_on_glue)

lemma drop_common_prefix:
  "drop_common xs ys = (up, down) \<Longrightarrow> \<exists>pre. xs = pre @ up \<and> ys = pre @ down"
proof (induction xs ys rule: drop_common.induct)
  case (1 x xs y ys)
  then show ?case by (cases "x = y") (auto intro: exI [of _ "_ # _"])
qed auto

lemma push_up: "push_segment segs (js ''..'') = butlast segs"
  by (simp add: push_segment_def js_eq_iff)

lemma foldl_push_up: "foldl push_segment (segs @ up) (map (\<lambda>_. js ''..'') up) = segs"
proof (induction up rule: rev_induct)
  case (snoc u up)
  have "map (\<lambda>_. js ''..'') (up @ [u]) = js ''..'' # map (\<lambda>_. js ''..'') up"
    by (simp add: map_replicate_const replicate_append_same)
  then show ?case
    using snoc by (simp add: push_up butlast_append flip: append_assoc)
qed simp

text \<open>Going from a directory along the relative path to a file leads to the file.\<close>

lemma resolve_relative:
  assumes "isAbsolute base"
  shows "resolve_path here base (relative_path base p) = of_segments (path_segments p)"
proof -
  obtain up down where ud: "drop_common (path_segments base) (path_segments p) = (up, down)" by fastforce
  then obtain pre where pre: "path_segments base = pre @ up" "path_segments p = pre @ down"
    using drop_common_prefix by blast
  define steps where "steps = map (\<lambda>_. js ''..'') up @ down"
  have down: "list_all clean_segment down"
    using path_segments_clean [of p] pre(2) by simp
  have rel: "relative_path base p = join [slash] steps"
    using ud by (simp add: relative_path_def steps_def)
  have dots: "slash \<notin> set (js ''..'')" by (simp add: js_def)
  have not_abs: "\<not> isAbsolute (join [slash] steps)"
  proof (cases steps)
    case (Cons s ss)
    have "s \<noteq> [] \<and> slash \<notin> set s"
      using Cons down dots by (cases up) (auto simp: steps_def clean_segment_def)
    then show ?thesis using Cons by (cases ss; cases s) (auto simp: isAbsolute_def)
  qed (simp add: isAbsolute_def)
  have "foldl push_segment (pre @ up) (split_on slash (join [slash] steps)) = foldl push_segment (pre @ up) steps"
  proof (cases "steps = []")
    case True
    then show ?thesis by (simp add: push_segment_def)
  next
    case False
    have "\<forall>s \<in> set steps. slash \<notin> set s"
      using down dots by (auto simp: steps_def clean_segment_def list_all_iff)
    with False show ?thesis by (simp add: split_join)
  qed
  also have "\<dots> = pre @ down"
    by (simp add: steps_def foldl_push_up foldl_push_clean [OF down])
  finally show ?thesis
    using assms not_abs pre by (simp add: resolve_path_def rel path_segments_glue)
qed

end
