(* ===== verification/Ranges.thy ===== *)
theory Ranges
  imports Prelude "HOL-Library.Product_Lexorder"
begin

text \<open>
  Line ranges of mounted files: \<^verbatim>\<open>packages/coding-agent/src/core/piwpi/ranges.ts\<close> (\<open>normalize\<close>,
  \<open>subtract\<close>, \<open>clamp\<close>) and \<open>mergeSegments\<close> of \<^verbatim>\<open>adapters/source.ts\<close>. A range is 1-based and
  closed; line numbers are integers. The meaning of a list of ranges is the set of lines it covers.
  The two merging routines are written differently and share one contract, the locale
  \<open>range_merge\<close>: they keep the lines covered and return the canonical list of ranges for them. A
  canonical list is determined by its lines, so the two agree and are idempotent.
\<close>

record line_range =
  rstart :: int
  rend :: int

abbreviation mk_range :: "int \<Rightarrow> int \<Rightarrow> line_range" where
  "mk_range a b \<equiv> \<lparr>rstart = a, rend = b\<rparr>"

definition lines_of :: "line_range \<Rightarrow> int set" where
  "lines_of r = {rstart r..rend r}"

definition covered :: "line_range list \<Rightarrow> int set" where
  "covered rs = (\<Union>r \<in> set rs. lines_of r)"

definition valid_range :: "line_range \<Rightarrow> bool" where
  "valid_range r \<longleftrightarrow> rstart r \<le> rend r"

text \<open>Ascending, and at least one line missing between two ranges.\<close>

definition separated :: "line_range list \<Rightarrow> bool" where
  "separated = sorted_wrt (\<lambda>a b. rstart a \<le> rstart b \<and> rend a + 1 < rstart b)"

definition canonical :: "line_range list \<Rightarrow> bool" where
  "canonical rs \<longleftrightarrow> separated rs \<and> list_all valid_range rs"

subsection \<open>The code\<close>

text \<open>\<open>sort((a, b) => a.start - b.start || a.end - b.end)\<close>\<close>

definition sort_ranges :: "line_range list \<Rightarrow> line_range list" where
  "sort_ranges rs = sort_key (\<lambda>r. (rstart r, rend r)) rs"

fun normalize_loop :: "line_range \<Rightarrow> line_range list \<Rightarrow> line_range list" where
  "normalize_loop cur [] = [cur]"
| "normalize_loop cur (r # rs) =
     (if rstart r \<le> rend cur + 1 then normalize_loop (cur\<lparr>rend := max (rend cur) (rend r)\<rparr>) rs
      else cur # normalize_loop r rs)"

definition normalize_ranges :: "line_range list \<Rightarrow> line_range list" where
  "normalize_ranges rs = (case sort_ranges rs of [] \<Rightarrow> [] | cur # rest \<Rightarrow> normalize_loop cur rest)"

definition merge_step :: "line_range list \<Rightarrow> line_range \<Rightarrow> line_range list" where
  "merge_step out seg =
     (if out \<noteq> [] \<and> rstart seg \<le> rend (last out) + 1
      then butlast out @ [(last out)\<lparr>rend := max (rend (last out)) (rend seg)\<rparr>]
      else out @ [seg])"

definition mergeSegments :: "line_range list \<Rightarrow> line_range list" where
  "mergeSegments segs = foldl merge_step [] (sort_ranges segs)"

text \<open>The loop of \<open>subtract\<close>: the missing ranges it pushes and the cursor it ends with.\<close>

fun subtract_loop :: "line_range \<Rightarrow> int \<Rightarrow> line_range list \<Rightarrow> line_range list \<times> int" where
  "subtract_loop want cursor [] = ([], cursor)"
| "subtract_loop want cursor (r # rs) =
     (if rend r < rstart want then subtract_loop want cursor rs
      else if rstart r > rend want then ([], cursor)
      else
        let missing = (if rstart r > cursor then [mk_range cursor (min (rstart r - 1) (rend want))] else []);
            cursor' = max cursor (rend r + 1)
        in if cursor' > rend want then (missing, cursor')
           else let (more, c) = subtract_loop want cursor' rs in (missing @ more, c))"

definition subtract :: "line_range list \<Rightarrow> line_range \<Rightarrow> line_range list" where
  "subtract have_ranges want =
     (let (missing, cursor) = subtract_loop want (rstart want) (normalize_ranges have_ranges)
      in missing @ (if cursor \<le> rend want then [mk_range cursor (rend want)] else []))"

definition clamp :: "line_range \<Rightarrow> int \<Rightarrow> line_range option" where
  "clamp r maxEnd =
     (if maxEnd < 1 \<or> rstart r > maxEnd then None
      else Some (mk_range (rstart r) (min (rend r) maxEnd)))"

subsection \<open>Lines covered\<close>

lemma covered_simps [simp]:
  "covered [] = {}" "covered (r # rs) = lines_of r \<union> covered rs"
  "covered (rs @ qs) = covered rs \<union> covered qs"
  by (auto simp: covered_def)

lemma lines_of_iff [simp]: "n \<in> lines_of r \<longleftrightarrow> rstart r \<le> n \<and> n \<le> rend r"
  by (simp add: lines_of_def)

lemma separated_simps [simp]:
  "separated []" "separated [r]"
  "separated (r # rs) \<longleftrightarrow> (\<forall>s \<in> set rs. rstart r \<le> rstart s \<and> rend r + 1 < rstart s) \<and> separated rs"
  by (auto simp: separated_def)

lemma separated_append:
  "separated (rs @ qs) \<longleftrightarrow> separated rs \<and> separated qs
     \<and> (\<forall>a \<in> set rs. \<forall>b \<in> set qs. rstart a \<le> rstart b \<and> rend a + 1 < rstart b)"
  by (auto simp: separated_def sorted_wrt_append)

lemma canonical_simps [simp]:
  "canonical []"
  "canonical (r # rs) \<longleftrightarrow>
     valid_range r \<and> (\<forall>s \<in> set rs. rstart r \<le> rstart s \<and> rend r + 1 < rstart s) \<and> canonical rs"
  by (auto simp: canonical_def)

lemma covered_above:
  "canonical (r # rs) \<Longrightarrow> n \<in> covered rs \<Longrightarrow> rend r + 1 < n"
  by (fastforce simp: covered_def)

text \<open>A canonical list is determined by the lines it covers.\<close>

lemma canonical_unique:
  "canonical rs \<Longrightarrow> canonical qs \<Longrightarrow> covered rs = covered qs \<Longrightarrow> rs = qs"
proof (induction rs arbitrary: qs)
  case Nil
  then show ?case by (cases qs) (auto simp: valid_range_def set_eq_iff)
next
  case (Cons r rs)
  have r: "valid_range r" using Cons.prems(1) by simp
  obtain q qs' where qs: "qs = q # qs'"
    using Cons.prems r by (cases qs) (auto simp: valid_range_def set_eq_iff)
  have q: "valid_range q" using Cons.prems(2) qs by simp
  note above = covered_above [OF Cons.prems(1)] covered_above [OF Cons.prems(2) [unfolded qs]]
  have mem: "n \<in> lines_of r \<union> covered rs \<longleftrightarrow> n \<in> lines_of q \<union> covered qs'" for n
    using Cons.prems(3) qs by (metis covered_simps(2))
  have s: "rstart r = rstart q"
    using mem [of "rstart r"] mem [of "rstart q"] above [of "rstart r"] above [of "rstart q"] r q
    by (auto simp: valid_range_def)
  have e: "rend r = rend q"
  proof (rule ccontr)
    assume "rend r \<noteq> rend q"
    then consider "rend r < rend q" | "rend q < rend r" by linarith
    then show False
    proof cases
      case 1
      then show False
        using mem [of "rend r + 1"] above(1) [of "rend r + 1"] r s by (auto simp: valid_range_def)
    next
      case 2
      then show False
        using mem [of "rend q + 1"] above(2) [of "rend q + 1"] q s by (auto simp: valid_range_def)
    qed
  qed
  from s e have "r = q" by simp
  moreover have "covered rs = covered qs'"
  proof (rule set_eqI)
    fix n
    show "n \<in> covered rs \<longleftrightarrow> n \<in> covered qs'"
      using mem [of n] above(1) [of n] above(2) [of n] \<open>r = q\<close> by auto
  qed
  ultimately show ?case using Cons qs by simp
qed

lemma sort_ranges_set [simp]: "set (sort_ranges rs) = set rs"
  by (simp add: sort_ranges_def)

lemma sort_ranges_covered [simp]: "covered (sort_ranges rs) = covered rs"
  by (simp add: covered_def)

lemma sort_ranges_sorted: "sorted (map rstart (sort_ranges rs))"
proof -
  have "sorted (map (\<lambda>r. (rstart r, rend r)) (sort_ranges rs))"
    by (simp add: sort_ranges_def)
  then show ?thesis
    by (auto simp: sorted_map elim: sorted_wrt_mono_rel [rotated])
qed

subsection \<open>The contract of a merging routine\<close>

locale range_merge =
  fixes merge :: "line_range list \<Rightarrow> line_range list"
  assumes merge_covered: "covered (merge rs) = covered rs"
    and merge_separated: "separated (merge rs)"
    and merge_valid: "list_all valid_range rs \<Longrightarrow> list_all valid_range (merge rs)"
begin

lemma merge_canonical: "list_all valid_range rs \<Longrightarrow> canonical (merge rs)"
  by (simp add: canonical_def merge_separated merge_valid)

lemma merge_characterised:
  "list_all valid_range rs \<Longrightarrow> canonical qs \<Longrightarrow> covered qs = covered rs \<Longrightarrow> merge rs = qs"
  by (intro canonical_unique) (auto simp: merge_covered merge_canonical)

lemma merge_id: "canonical rs \<Longrightarrow> merge rs = rs"
  by (rule merge_characterised) (auto simp: canonical_def)

lemma merge_idem: "list_all valid_range rs \<Longrightarrow> merge (merge rs) = merge rs"
  by (simp add: merge_id merge_canonical)

end

lemma normalize_loop_covered:
  "\<forall>s \<in> set rs. rstart cur \<le> rstart s \<Longrightarrow> sorted (map rstart rs)
     \<Longrightarrow> covered (normalize_loop cur rs) = lines_of cur \<union> covered rs"
proof (induction cur rs rule: normalize_loop.induct)
  case (2 cur r rs)
  show ?case
  proof (cases "rstart r \<le> rend cur + 1")
    case True
    then have "lines_of (cur\<lparr>rend := max (rend cur) (rend r)\<rparr>) = lines_of cur \<union> lines_of r"
      using 2(3) by auto
    with True 2 show ?thesis by auto
  qed (use 2 in auto)
qed simp

lemma normalize_loop_starts:
  "s \<in> set (normalize_loop cur rs) \<Longrightarrow> rstart s \<in> insert (rstart cur) (rstart ` set rs)"
  by (induction cur rs rule: normalize_loop.induct) (auto split: if_splits)

lemma normalize_loop_separated:
  "\<forall>s \<in> set rs. rstart cur \<le> rstart s \<Longrightarrow> sorted (map rstart rs) \<Longrightarrow> separated (normalize_loop cur rs)"
proof (induction cur rs rule: normalize_loop.induct)
  case (2 cur r rs)
  show ?case
  proof (cases "rstart r \<le> rend cur + 1")
    case False
    have "rstart r \<le> rstart s" if "s \<in> set (normalize_loop r rs)" for s
      using normalize_loop_starts [of s r rs] that 2(4) by auto
    with False 2 show ?thesis by force
  qed (use 2 in auto)
qed simp

lemma normalize_loop_valid:
  "valid_range cur \<Longrightarrow> list_all valid_range rs \<Longrightarrow> list_all valid_range (normalize_loop cur rs)"
  by (induction cur rs rule: normalize_loop.induct) (auto simp: valid_range_def)

lemma foldl_merge_step:
  "foldl merge_step (out @ [cur]) rs = out @ normalize_loop cur rs"
proof (induction rs arbitrary: out cur)
  case (Cons r rs)
  show ?case
    using Cons.IH [of out "cur\<lparr>rend := max (rend cur) (rend r)\<rparr>"] Cons.IH [of "out @ [cur]" r]
    by (simp add: merge_step_def)
qed simp

lemma mergeSegments_as_normalize: "mergeSegments rs = normalize_ranges rs"
proof (cases "sort_ranges rs")
  case (Cons c cs)
  then show ?thesis
    using foldl_merge_step [of "[]" c cs] by (simp add: mergeSegments_def normalize_ranges_def merge_step_def)
qed (simp add: mergeSegments_def normalize_ranges_def)

interpretation norm: range_merge normalize_ranges
proof unfold_locales
  fix rs
  show "covered (normalize_ranges rs) = covered rs" "separated (normalize_ranges rs)"
  proof -
    consider "sort_ranges rs = []" | c cs where "sort_ranges rs = c # cs" by (cases "sort_ranges rs")
    then have "covered (normalize_ranges rs) = covered (sort_ranges rs) \<and> separated (normalize_ranges rs)"
    proof cases
      case 2
      with sort_ranges_sorted [of rs] show ?thesis
        by (auto simp: normalize_ranges_def normalize_loop_covered normalize_loop_separated)
    qed (simp add: normalize_ranges_def)
    then show "covered (normalize_ranges rs) = covered rs" "separated (normalize_ranges rs)" by simp_all
  qed
  show "list_all valid_range (normalize_ranges rs)" if "list_all valid_range rs"
  proof -
    have "list_all valid_range (sort_ranges rs)" using that by (simp add: list_all_iff)
    then show ?thesis by (auto simp: normalize_ranges_def normalize_loop_valid split: list.splits)
  qed
qed

interpretation seg: range_merge mergeSegments
  unfolding mergeSegments_as_normalize [abs_def] by unfold_locales

subsection \<open>What is missing\<close>

text \<open>The loop never looks back: what it reports lies between the cursor and the end of the wanted
  range, and is what the remaining ranges leave uncovered there.\<close>

lemma subtract_loop_spec:
  assumes "canonical rs" "\<forall>r \<in> set rs. rend r < rstart want \<or> cursor \<le> rstart r \<or> cursor = rstart want"
    "rstart want \<le> cursor" "cursor \<le> rend want" "subtract_loop want cursor rs = (ms, c)"
  shows "covered (ms @ (if c \<le> rend want then [mk_range c (rend want)] else []))
           = {cursor..rend want} - covered rs
       \<and> canonical (ms @ (if c \<le> rend want then [mk_range c (rend want)] else []))"
  using assms
proof (induction want cursor rs arbitrary: ms c rule: subtract_loop.induct)
  case (1 want cursor)
  then show ?case by (auto simp: valid_range_def)
next
  case (2 want cursor r rs)
  have r: "valid_range r" and rs: "canonical rs"
    and gap: "\<And>s. s \<in> set rs \<Longrightarrow> rend r + 1 < rstart s"
    using 2(3) by auto
  have above: "n \<in> covered rs \<Longrightarrow> rend r + 1 < n" for n
    using covered_above [OF 2(3)] .
  consider (before) "rend r < rstart want" | (after) "rend r \<ge> rstart want" "rstart r > rend want"
    | (last) "rend r \<ge> rstart want" "rstart r \<le> rend want" "max cursor (rend r + 1) > rend want"
    | (inside) "rend r \<ge> rstart want" "rstart r \<le> rend want" "max cursor (rend r + 1) \<le> rend want"
    by linarith
  then show ?case
  proof cases
    case before
    then have "covered (ms @ (if c \<le> rend want then [mk_range c (rend want)] else []))
           = {cursor..rend want} - covered rs
       \<and> canonical (ms @ (if c \<le> rend want then [mk_range c (rend want)] else []))"
      using 2 by (intro 2(1)) auto
    with before 2(5) show ?thesis by auto
  next
    case after
    with 2 r above show ?thesis by (fastforce simp: valid_range_def)
  next
    case last
    with 2 r above show ?thesis
      by (force simp: Let_def valid_range_def split: if_splits)
  next
    case inside
    define c' where "c' = max cursor (rend r + 1)"
    obtain more where sub: "subtract_loop want c' rs = (more, c)"
      and ms: "ms = (if rstart r > cursor then [mk_range cursor (rstart r - 1)] else []) @ more"
      using inside 2(7) by (auto simp: c'_def Let_def min_absorb1 split: prod.splits if_splits)
    have ih: "covered (more @ (if c \<le> rend want then [mk_range c (rend want)] else []))
           = {c'..rend want} - covered rs
       \<and> canonical (more @ (if c \<le> rend want then [mk_range c (rend want)] else []))"
      using inside 2(4-6) rs less_imp_le [OF gap] sub by (intro 2(2)) (auto simp: c'_def max_def)
    let ?tail = "more @ (if c \<le> rend want then [mk_range c (rend want)] else [])"
    have tail_in: "rstart s \<ge> c'" if "s \<in> set ?tail" for s
    proof -
      have "valid_range s" using ih that by (auto simp: canonical_def list_all_iff)
      then have "rstart s \<in> covered ?tail"
        using that unfolding covered_def by (force simp: valid_range_def)
      then show ?thesis using ih by auto
    qed
    have "{cursor..rend want} - covered (r # rs)
            = (if rstart r > cursor then {cursor..rstart r - 1} else {}) \<union> ({c'..rend want} - covered rs)"
      using inside r above 2(6) by (force simp: c'_def valid_range_def)
    moreover have "canonical ((if rstart r > cursor then [mk_range cursor (rstart r - 1)] else []) @ ?tail)"
      using ih tail_in r by (force simp: c'_def valid_range_def)
    ultimately show ?thesis using ih ms by (auto simp: lines_of_def)
  qed
qed

lemma subtract_spec:
  assumes "list_all valid_range have_ranges"
  shows "covered (subtract have_ranges want) = lines_of want - covered have_ranges"
    and "canonical (subtract have_ranges want)"
proof -
  obtain ms c where sub: "subtract_loop want (rstart want) (normalize_ranges have_ranges) = (ms, c)"
    by fastforce
  have res: "subtract have_ranges want = ms @ (if c \<le> rend want then [mk_range c (rend want)] else [])"
    by (simp add: subtract_def sub)
  have "covered (subtract have_ranges want) = lines_of want - covered have_ranges
      \<and> canonical (subtract have_ranges want)"
  proof (cases "rstart want \<le> rend want")
    case True
    then show ?thesis
      using subtract_loop_spec [OF norm.merge_canonical [OF assms] _ _ _ sub]
      by (simp add: res norm.merge_covered lines_of_def)
  next
    case False
    have "fst (subtract_loop want cur rs) = [] \<and> snd (subtract_loop want cur rs) > rend want"
      if "cur > rend want" "canonical rs" for cur rs
      using that False
      by (induction want cur rs rule: subtract_loop.induct)
         (auto simp: Let_def valid_range_def)
    from this [of "rstart want" "normalize_ranges have_ranges"]
    show ?thesis
      using False norm.merge_canonical [OF assms] by (simp add: res sub lines_of_def)
  qed
  then show "covered (subtract have_ranges want) = lines_of want - covered have_ranges"
    "canonical (subtract have_ranges want)" by simp_all
qed

lemma clamp_spec:
  "clamp r n = None \<Longrightarrow> lines_of r \<inter> {1..n} = {}"
  "clamp r n = Some s \<Longrightarrow> lines_of s = lines_of r \<inter> {..n}"
  by (auto simp: clamp_def split: if_splits)

lemma subtract_valid: "list_all valid_range have_ranges \<Longrightarrow> list_all valid_range (subtract have_ranges want)"
  using subtract_spec(2) by (simp add: canonical_def)

text \<open>Once the first missing range has been read and merged, the rest is what is still missing.\<close>

lemma subtract_after_first:
  assumes "list_all valid_range segs" "subtract segs want = m # ms"
  shows "subtract (mergeSegments (segs @ [m])) want = ms"
proof (rule canonical_unique)
  have can: "canonical (m # ms)" and cov: "covered (m # ms) = lines_of want - covered segs"
    using subtract_spec [OF assms(1), of want] assms(2) by simp_all
  have valid: "list_all valid_range (mergeSegments (segs @ [m]))"
    using assms(1) can by (intro seg.merge_valid) simp
  show "canonical (subtract (mergeSegments (segs @ [m])) want)"
    by (rule subtract_spec(2) [OF valid])
  show "canonical ms" using can by simp
  have "n \<in> covered ms \<longleftrightarrow> n \<in> lines_of want - covered (segs @ [m])" for n
  proof -
    have "n \<in> lines_of m \<union> covered ms \<longleftrightarrow> n \<in> lines_of want - covered segs"
      using cov by simp
    then show ?thesis using covered_above [OF can, of n] by auto
  qed
  then show "covered (subtract (mergeSegments (segs @ [m])) want) = covered ms"
    unfolding subtract_spec(1) [OF valid] seg.merge_covered by blast
qed

text \<open>Property C24. What a read still has to fetch: for the mounted ranges (none of them empty), the
  missing ranges of \<open>subtract\<close> cover exactly the wanted lines that are not mounted, are not empty,
  ascend, and no two of them overlap or touch; and merging the first of them into the mounted ranges
  leaves exactly the others missing.\<close>

theorem subtract_missing:
  assumes "list_all valid_range mounted"
  shows "covered (subtract mounted want) = lines_of want - covered mounted
    \<and> canonical (subtract mounted want)
    \<and> (\<forall>m ms. subtract mounted want = m # ms \<longrightarrow> subtract (mergeSegments (mounted @ [m])) want = ms)"
  by (simp add: subtract_spec [OF assms] subtract_after_first [OF assms])

theorem subtract_missing_witness:
  "subtract [mk_range 20 40, mk_range 41 60, mk_range 80 90] (mk_range 10 85)
     = [mk_range 10 19, mk_range 61 79]
   \<and> covered (subtract [mk_range 20 40, mk_range 41 60, mk_range 80 90] (mk_range 10 85))
     = {10..19} \<union> {61..79}
   \<and> subtract (mergeSegments ([mk_range 20 40, mk_range 41 60, mk_range 80 90] @ [mk_range 10 19]))
       (mk_range 10 85) = [mk_range 61 79]"
proof -
  let ?m = "[mk_range 20 40, mk_range 41 60, mk_range 80 90]"
  have v: "list_all valid_range ?m" by (simp add: valid_range_def)
  have s: "subtract ?m (mk_range 10 85) = [mk_range 10 19, mk_range 61 79]"
    by (simp add: subtract_def normalize_ranges_def sort_ranges_def)
  show ?thesis
    using subtract_missing [OF v, of "mk_range 10 85"] s by (simp add: lines_of_def)
qed

text \<open>The two merging routines, \<open>normalize\<close> of the range algebra and \<open>mergeSegments\<close>
  of the source adapter, return the same ranges for every input: the lines covered by it, as ascending
  ranges with at least one line between two of them; on such a list of non-empty ranges they do
  nothing.\<close>

theorem merging_routines_agree:
  "mergeSegments rs = normalize_ranges rs \<and> covered (mergeSegments rs) = covered rs
   \<and> separated (mergeSegments rs) \<and> (canonical (normalize_ranges rs) \<or> \<not> list_all valid_range rs)
   \<and> (normalize_ranges rs = rs \<or> \<not> canonical rs)"
  using seg.merge_covered seg.merge_separated norm.merge_canonical norm.merge_id
    mergeSegments_as_normalize by blast

theorem merging_routines_agree_witness:
  "mergeSegments [mk_range 41 60, mk_range 20 40] = normalize_ranges [mk_range 41 60, mk_range 20 40]
   \<and> normalize_ranges [mk_range 41 60, mk_range 20 40] = [mk_range 20 60]"
  using merging_routines_agree [of "[mk_range 41 60, mk_range 20 40]"]
  by (simp add: normalize_ranges_def sort_ranges_def)

end
