(* ===== verification/SourceAdapter.thy ===== *)
theory SourceAdapter
  imports PosixPath Ranges JsMap "HOL-Library.Extended_Nat"
begin

text \<open>
  Mounted files as the harness keeps them: the plugin record and its metadata
  (\<^verbatim>\<open>packages/coding-agent/src/core/piwpi/types.ts\<close>), the adapter of the \<open>read\<close> tool
  (\<^verbatim>\<open>adapters/source.ts\<close>), the plugin store (\<^verbatim>\<open>store.ts\<close>) and the rendering of a mount (\<^verbatim>\<open>render.ts\<close>).
  The host is POSIX; the home directory and \<open>process.cwd()\<close> are parameters. A number of pending lines
  can be \<open>Infinity\<close> in between, so it is an extended natural number.
\<close>

datatype memory_state = MemPending | MemDone

record source_meta =
  absPath :: "js_string option"
  mhash :: js_string
  mtotalLines :: nat
  segments :: "line_range list"
  anchorToolCallId :: js_string
  updatedAtHashChange :: bool
  truncatedNote :: "js_string option"
  memoryState :: "memory_state option"
  pendingMemoryLines :: "enat option"
  lineHashes :: "js_string option"

datatype plugin_category = SourceCategory | ExecutionCategory | EvidenceCategory

record plugin =
  pid :: js_string
  category :: plugin_category
  ptoolName :: js_string
  identity :: js_string
  metadata :: source_meta

record read_input =
  in_path :: "js_string option"
  in_offset :: "int option"
  in_limit :: "int option"

record host =
  homedir :: js_string
  process_cwd :: js_string

definition resolveAbsPath :: "host \<Rightarrow> js_string \<Rightarrow> js_string \<Rightarrow> js_string" where
  "resolveAbsPath hst path cwd =
     (let p = (if path \<noteq> [] \<and> hd path = 0x7e then join_path (homedir hst) (tl path) else path)
      in resolve_path (process_cwd hst) cwd p)"

definition identifyPath :: "host \<Rightarrow> js_string \<Rightarrow> js_string \<Rightarrow> js_string" where
  "identifyPath hst path cwd = js ''file:'' @ resolveAbsPath hst path cwd"

definition rangeFromInput :: "read_input \<Rightarrow> nat \<Rightarrow> line_range" where
  "rangeFromInput input total_lines =
     (let offset = (case in_offset input of Some k \<Rightarrow> max 1 k | None \<Rightarrow> 1);
          last_line = (case in_limit input of Some l \<Rightarrow> offset + max 0 l - 1 | None \<Rightarrow> int total_lines)
      in mk_range offset (min last_line (int total_lines)))"

definition sliceText :: "js_string list \<Rightarrow> line_range \<Rightarrow> js_string" where
  "sliceText diskLines r = join [newline] (js_slice (rstart r - 1) (Some (rend r)) diskLines)"

definition mountedRanges :: "plugin \<Rightarrow> line_range list" where
  "mountedRanges p = segments (metadata p)"

definition isSourceMeta :: "plugin \<Rightarrow> bool" where
  "isSourceMeta p \<longleftrightarrow> absPath (metadata p) \<noteq> None"

datatype ingest_mode = ModeNew | ModeIncrement | ModeUpdated | ModeNoop

record ingest_facts =
  f_absPath :: js_string
  f_hash :: js_string
  f_totalLines :: nat
  f_anchor :: js_string
  f_got :: line_range
  f_mode :: ingest_mode

definition shrank_note :: "nat \<Rightarrow> js_string" where
  "shrank_note total_lines = js ''[truncated: file shrank to '' @ decimal total_lines @ js '' lines]''"

text \<open>The ranges clamped to a file of \<open>n\<close> lines (also \<open>clampSegments\<close> of the harness).\<close>

definition clampSegments :: "line_range list \<Rightarrow> nat \<Rightarrow> line_range list" where
  "clampSegments segs n = List.map_filter (\<lambda>s. clamp s (int n)) segs"

definition new_meta :: "ingest_facts \<Rightarrow> source_meta" where
  "new_meta facts =
     (let got = f_got facts;
          is_valid = rstart got \<le> rend got \<and> rend got \<le> int (f_totalLines facts)
      in \<lparr>absPath = Some (f_absPath facts), mhash = f_hash facts, mtotalLines = f_totalLines facts,
          segments = (if is_valid then [got] else []), anchorToolCallId = f_anchor facts,
          updatedAtHashChange = False, truncatedNote = None, memoryState = None,
          pendingMemoryLines = None, lineHashes = None\<rparr>)"

definition updated_meta :: "ingest_facts \<Rightarrow> source_meta \<Rightarrow> source_meta" where
  "updated_meta facts old =
     (let n = f_totalLines facts; got = f_got facts;
          cut = list_ex (\<lambda>s. case clamp s (int n) of None \<Rightarrow> True | Some c \<Rightarrow> rend c \<noteq> rend s) (segments old);
          reSliced = clampSegments (segments old) n
            @ (if rstart got \<le> rend got \<and> rend got \<le> int n then [got] else [])
      in \<lparr>absPath = absPath old, mhash = f_hash facts, mtotalLines = n,
          segments = mergeSegments reSliced, anchorToolCallId = anchorToolCallId old,
          updatedAtHashChange = True, truncatedNote = (if cut then Some (shrank_note n) else None),
          memoryState = None, pendingMemoryLines = None, lineHashes = None\<rparr>)"

definition buildPlugin :: "host \<Rightarrow> ingest_facts \<Rightarrow> plugin option \<Rightarrow> plugin" where
  "buildPlugin hst facts current =
     (let ident = identifyPath hst (f_absPath facts) [];
          m = (case current of
                 None \<Rightarrow> new_meta facts
               | Some cur \<Rightarrow>
                   (case f_mode facts of
                      ModeNew \<Rightarrow> new_meta facts
                    | ModeUpdated \<Rightarrow> updated_meta facts (metadata cur)
                    | _ \<Rightarrow> (metadata cur)\<lparr>segments := mergeSegments (segments (metadata cur) @ [f_got facts])\<rparr>))
      in \<lparr>pid = js ''source:'' @ ident, category = SourceCategory, ptoolName = js ''read'',
          identity = ident, metadata = m\<rparr>)"

definition ingest :: "host \<Rightarrow> ingest_facts \<Rightarrow> plugin option \<Rightarrow> plugin" where
  "ingest hst facts current = (if f_mode facts = ModeNoop then the current else buildPlugin hst facts current)"

definition identify :: "host \<Rightarrow> read_input \<Rightarrow> js_string \<Rightarrow> js_string" where
  "identify hst input cwd = (case in_path input of Some p \<Rightarrow> identifyPath hst p cwd | None \<Rightarrow> [])"

subsection \<open>Rendering\<close>

definition formatRange :: "line_range \<Rightarrow> js_string" where
  "formatRange r =
     (if rstart r = rend r then js ''L'' @ decimal_int (rstart r)
      else js ''L'' @ decimal_int (rstart r) @ js ''-'' @ decimal_int (rend r))"

definition formatRanges :: "line_range list \<Rightarrow> js_string" where
  "formatRanges rs = join (js '', '') (map formatRange rs)"

definition render :: "plugin \<Rightarrow> js_string list \<Rightarrow> js_string" where
  "render p lines =
     (let m = metadata p; segs = sort_ranges (segments m) in
      join [newline]
        ([js ''[piwpi:plugin '' @ identity p @ js '' hash:'' @ take 8 (mhash m) @ js '' mounted:''
            @ formatRanges segs @ js '']'']
         @ (case truncatedNote m of None \<Rightarrow> [] | Some note \<Rightarrow> if note = [] then [] else [note])
         @ concat (map (\<lambda>s. [js ''--- '' @ formatRange s @ js '' ---'', sliceText lines s]) segs)))"

subsection \<open>The store\<close>

type_synonym plugin_store = "(js_string \<times> plugin) list"

definition store_get :: "plugin_store \<Rightarrow> js_string \<Rightarrow> plugin option" where
  "store_get st i = map_of st i"

definition store_upsert :: "plugin \<Rightarrow> plugin_store \<Rightarrow> plugin_store" where
  "store_upsert p st = map_set (pid p) p st"

definition store_remove :: "js_string \<Rightarrow> plugin_store \<Rightarrow> plugin_store" where
  "store_remove i st = map_delete i st"

definition store_all :: "plugin_store \<Rightarrow> plugin list" where
  "store_all st = map snd st"

definition findByAnchor :: "plugin_store \<Rightarrow> js_string \<Rightarrow> plugin option" where
  "findByAnchor st toolCallId = List.find (\<lambda>p. anchorToolCallId (metadata p) = toolCallId) (store_all st)"

definition store_clear :: "plugin_store \<Rightarrow> plugin_store" where
  "store_clear st = []"

text \<open>The store is well formed when it is a map whose keys are the ids of its plugins.\<close>

definition store_ok :: "plugin_store \<Rightarrow> bool" where
  "store_ok st \<longleftrightarrow> js_map st \<and> (\<forall>(i, p) \<in> set st. pid p = i)"

lemma store_ok_empty [simp]: "store_ok []"
  by (simp add: store_ok_def)

lemma map_set_subset: "set (map_set k v kvs) \<subseteq> insert (k, v) (set kvs)"
  by (induction k v kvs rule: map_set.induct) auto

lemma store_ok_upsert [simp]: "store_ok st \<Longrightarrow> store_ok (store_upsert p st)"
  using map_set_subset [of "pid p" p st] by (auto simp: store_ok_def store_upsert_def)

lemma store_ok_remove [simp]: "store_ok st \<Longrightarrow> store_ok (store_remove i st)"
  by (auto simp: store_ok_def store_remove_def) (auto simp: map_delete_def)

lemma store_get_simps [simp]:
  "store_get (store_upsert p st) i = (if i = pid p then Some p else store_get st i)"
  "store_get (store_remove i' st) i = (if i = i' then None else store_get st i)"
  by (auto simp: store_get_def store_upsert_def store_remove_def)

lemma store_get_pid: "store_ok st \<Longrightarrow> store_get st i = Some p \<Longrightarrow> pid p = i"
  by (auto simp: store_ok_def store_get_def dest!: map_of_SomeD)

lemma store_all_iff: "store_ok st \<Longrightarrow> p \<in> set (store_all st) \<longleftrightarrow> store_get st (pid p) = Some p"
  by (force simp: store_ok_def store_get_def store_all_def js_map_mem_iff [symmetric])

subsection \<open>Identity of a file\<close>

lemma resolveAbsPath_resolved:
  "resolveAbsPath hst (resolveAbsPath hst path cwd) cwd' = resolveAbsPath hst path cwd"
proof -
  obtain rest where "resolveAbsPath hst path cwd = slash # rest"
    by (auto simp: resolveAbsPath_def Let_def resolve_path_def of_segments_def)
  then show ?thesis
    using resolve_resolved by (simp add: resolveAbsPath_def Let_def) (metis resolve_resolved)
qed

text \<open>The id of the plugin that is built for a file.\<close>

lemma buildPlugin_pid:
  "f_absPath facts = resolveAbsPath hst path cwd \<Longrightarrow>
     pid (buildPlugin hst facts cur) = js ''source:'' @ identifyPath hst path cwd"
  by (simp add: buildPlugin_def Let_def identifyPath_def resolveAbsPath_resolved)

subsection \<open>Ranges of a mount\<close>

text \<open>Well-formed ranges of a file of \<open>n\<close> lines: canonical and within the file.\<close>

definition ranges_ok :: "line_range list \<Rightarrow> nat \<Rightarrow> bool" where
  "ranges_ok rs n \<longleftrightarrow> canonical rs \<and> covered rs \<subseteq> {1..int n}"

definition meta_ok :: "source_meta \<Rightarrow> bool" where
  "meta_ok m \<longleftrightarrow> ranges_ok (segments m) (mtotalLines m)"

lemma ranges_ok_valid: "ranges_ok rs n \<Longrightarrow> list_all valid_range rs"
  by (simp add: ranges_ok_def canonical_def)

lemma ranges_ok_starts: "ranges_ok rs n \<Longrightarrow> s \<in> set rs \<Longrightarrow> 1 \<le> rstart s \<and> rend s \<le> int n"
  unfolding ranges_ok_def canonical_def list_all_iff covered_def
  by (force simp: valid_range_def subset_iff)

lemma ranges_ok_merge:
  "list_all valid_range rs \<Longrightarrow> covered rs \<subseteq> {1..int n} \<Longrightarrow> ranges_ok (mergeSegments rs) n"
  by (simp add: ranges_ok_def seg.merge_canonical seg.merge_covered)

lemma clampSegments_simps [simp]:
  "clampSegments [] n = []"
  "clampSegments (s # ss) n = (case clamp s (int n) of None \<Rightarrow> [] | Some c \<Rightarrow> [c]) @ clampSegments ss n"
  by (auto simp: clampSegments_def map_filter_simps split: option.splits)

lemma clampSegments_covered:
  "covered rs \<subseteq> {1..int k} \<Longrightarrow> covered (clampSegments rs n) = covered rs \<inter> {1..int n}"
proof (induction rs)
  case (Cons r rs)
  then have "covered (case clamp r (int n) of None \<Rightarrow> [] | Some c \<Rightarrow> [c]) = lines_of r \<inter> {1..int n}"
    by (fastforce simp: clamp_def split: option.splits if_splits)
  with Cons show ?case by auto
qed simp

lemma clampSegments_valid: "list_all valid_range rs \<Longrightarrow> list_all valid_range (clampSegments rs n)"
  by (induction rs) (auto simp: clamp_def valid_range_def split: option.splits if_splits)

lemma clampSegments_bound:
  "c \<in> set (clampSegments rs n) \<Longrightarrow> \<exists>s \<in> set rs. rstart c = rstart s \<and> rend c \<le> rend s"
  by (induction rs) (auto simp: clamp_def split: option.splits if_splits)

lemma clampSegments_canonical: "canonical rs \<Longrightarrow> canonical (clampSegments rs n)"
proof (induction rs)
  case (Cons r rs)
  then show ?case
    using clampSegments_bound [of _ rs n]
    by (fastforce simp: clamp_def valid_range_def split: option.splits if_splits)
qed simp

lemma clampSegments_ok: "ranges_ok rs k \<Longrightarrow> ranges_ok (clampSegments rs n) n"
  using clampSegments_covered [of rs k n] by (auto simp: ranges_ok_def clampSegments_canonical)

definition in_file :: "line_range \<Rightarrow> nat \<Rightarrow> bool" where
  "in_file r n \<longleftrightarrow> 1 \<le> rstart r \<and> rstart r \<le> rend r \<and> rend r \<le> int n"

lemma in_file_lines: "in_file r n \<Longrightarrow> valid_range r \<and> lines_of r \<subseteq> {1..int n}"
  by (auto simp: in_file_def valid_range_def)

lemma new_meta_ok:
  "in_file (f_got facts) (f_totalLines facts) \<Longrightarrow>
     meta_ok (new_meta facts) \<and> segments (new_meta facts) = [f_got facts]"
  by (auto simp: new_meta_def Let_def meta_ok_def ranges_ok_def in_file_def valid_range_def)

lemma increment_ok:
  "meta_ok m \<Longrightarrow> in_file r (mtotalLines m) \<Longrightarrow>
     meta_ok (m\<lparr>segments := mergeSegments (segments m @ [r])\<rparr>)
     \<and> covered (mergeSegments (segments m @ [r])) = covered (segments m) \<union> lines_of r"
  using in_file_lines [of r "mtotalLines m"] ranges_ok_valid [of "segments m" "mtotalLines m"]
  by (auto simp: meta_ok_def seg.merge_covered intro!: ranges_ok_merge) (auto simp: ranges_ok_def)

lemma updated_ok:
  assumes "meta_ok m" "in_file (f_got facts) (f_totalLines facts)"
  shows "meta_ok (updated_meta facts m)
    \<and> covered (segments (updated_meta facts m))
        = covered (segments m) \<inter> {1..int (f_totalLines facts)} \<union> lines_of (f_got facts)"
proof -
  define rs where "rs = clampSegments (segments m) (f_totalLines facts) @ [f_got facts]"
  have segs: "segments (updated_meta facts m) = mergeSegments rs"
    using assms(2) by (simp add: updated_meta_def Let_def rs_def in_file_def)
  have "list_all valid_range rs"
    using assms in_file_lines by (auto simp: rs_def meta_ok_def clampSegments_valid dest: ranges_ok_valid)
  moreover have cov: "covered rs = covered (segments m) \<inter> {1..int (f_totalLines facts)} \<union> lines_of (f_got facts)"
    using assms(1) clampSegments_covered by (auto simp: rs_def meta_ok_def ranges_ok_def)
  moreover have "covered rs \<subseteq> {1..int (f_totalLines facts)}"
    using cov in_file_lines [OF assms(2)] by auto
  moreover have "mtotalLines (updated_meta facts m) = f_totalLines facts"
    by (simp add: updated_meta_def Let_def)
  ultimately show ?thesis
    by (simp add: meta_ok_def segs ranges_ok_merge seg.merge_covered)
qed

text \<open>Property C34. The ranges of a mount stay well formed (in the file, not empty, ascending, with a gap
  between two) through every way a read is ingested, for a returned range that lies in the file: a new
  mount has exactly the returned lines; an increment adds them to the mounted ones; an update keeps the
  mounted lines that the file still has and adds the returned ones.\<close>

theorem ingest_ranges:
  assumes "in_file (f_got facts) (f_totalLines facts)" "f_mode facts \<noteq> ModeNoop"
    and "\<And>p. cur = Some p \<Longrightarrow> meta_ok (metadata p)
           \<and> (f_mode facts = ModeIncrement \<longrightarrow> mtotalLines (metadata p) = f_totalLines facts)"
  shows "meta_ok (metadata (ingest hst facts cur))
    \<and> covered (segments (metadata (ingest hst facts cur))) =
        lines_of (f_got facts) \<union>
        (case cur of None \<Rightarrow> {} | Some p \<Rightarrow>
           (case f_mode facts of
              ModeNew \<Rightarrow> {}
            | ModeUpdated \<Rightarrow> covered (segments (metadata p)) \<inter> {1..int (f_totalLines facts)}
            | _ \<Rightarrow> covered (segments (metadata p))))"
proof (cases "cur = None \<or> f_mode facts = ModeNew")
  case True
  then have "metadata (ingest hst facts cur) = new_meta facts"
    using assms(2) by (auto simp: ingest_def buildPlugin_def Let_def split: option.splits)
  with True new_meta_ok [OF assms(1)] show ?thesis by (auto split: option.splits)
next
  case False
  then obtain p where p: "cur = Some p" "f_mode facts \<noteq> ModeNew" by auto
  show ?thesis
  proof (cases "f_mode facts")
    case ModeIncrement
    with assms(3) [OF p(1)] increment_ok [of "metadata p" "f_got facts"] assms(1) p show ?thesis
      by (auto simp: ingest_def buildPlugin_def Let_def)
  next
    case ModeUpdated
    with assms(3) [OF p(1)] updated_ok [of "metadata p" facts] assms(1) p show ?thesis
      by (auto simp: ingest_def buildPlugin_def Let_def)
  qed (use p assms(2) in auto)
qed

theorem ingest_ranges_witness:
  "\<exists>m. let facts = \<lparr>f_absPath = js ''/a'', f_hash = js ''h2'', f_totalLines = 50, f_anchor = js ''t'',
        f_got = mk_range 1 10, f_mode = ModeUpdated\<rparr>;
        cur = \<lparr>pid = js ''source:file:/a'', category = SourceCategory, ptoolName = js ''read'',
        identity = js ''file:/a'', metadata = m\<rparr> in
     meta_ok m \<and> covered (segments m) = {20..80}
     \<and> covered (segments (metadata (ingest \<lparr>homedir = js ''/h'', process_cwd = js ''/''\<rparr> facts (Some cur))))
         = {1..10} \<union> {20..50}"
proof -
  define m where "m = new_meta \<lparr>f_absPath = js ''/a'', f_hash = js ''h1'', f_totalLines = 90, f_anchor = js ''t'',
        f_got = mk_range 20 80, f_mode = ModeNew\<rparr>"
  have "meta_ok m \<and> segments m = [mk_range 20 80]"
    unfolding m_def by (rule new_meta_ok [THEN conjE]) (auto simp: in_file_def)
  moreover have "{20..80} \<inter> {1..50} = {20..50 :: int}" by auto
  ultimately show ?thesis
    using ingest_ranges [of "\<lparr>f_absPath = js ''/a'', f_hash = js ''h2'', f_totalLines = 50, f_anchor = js ''t'',
        f_got = mk_range 1 10, f_mode = ModeUpdated\<rparr>" "Some \<lparr>pid = js ''source:file:/a'', category = SourceCategory,
        ptoolName = js ''read'', identity = js ''file:/a'', metadata = m\<rparr>" "\<lparr>homedir = js ''/h'', process_cwd = js ''/''\<rparr>"]
    by (intro exI [of _ m]) (simp add: in_file_def lines_of_def)
qed

text \<open>A file has one identity. The id looked up when a read is called, from the path as the
  model wrote it and the working directory, is the id of the plugin that is built later from the
  resolved path alone; two paths have the same id exactly when they resolve to the same file.\<close>

theorem plugin_identity_stable:
  "pid (buildPlugin hst (facts\<lparr>f_absPath := resolveAbsPath hst path cwd\<rparr>) cur)
     = js ''source:'' @ identify hst (input\<lparr>in_path := Some path\<rparr>) cwd
   \<and> (identifyPath hst path cwd = identifyPath hst path' cwd'
        \<longleftrightarrow> resolveAbsPath hst path cwd = resolveAbsPath hst path' cwd')"
  by (simp add: buildPlugin_pid [of _ _ path cwd] identify_def identifyPath_def)

end
