(* ===== verification/ProjectMap.thy ===== *)
theory ProjectMap
  imports PosixPath JsMap "HOL-Library.List_Lexorder" "HOL-Library.Multiset"
begin

text \<open>
  The project map (\<^verbatim>\<open>packages/coding-agent/src/core/piwpi/memory/project-map.ts\<close>) and its file
  (\<^verbatim>\<open>memory/persist.ts\<close>): what the memory agent recorded of each file, kept across sessions. A parsed
  JSON document is a value of \<open>json\<close>, its numbers integers; \<open>localeCompare\<close> is a parameter (the ICU
  collation), and \<open>sort\<close> is stable. The host is POSIX.
\<close>

datatype json =
    JNull | JBool bool | JNum int | JStr js_string | JArr "json list" | JObj "(js_string \<times> json) list"

record map_entry =
  mrole :: js_string
  responsibilities :: "js_string list"
  ehash :: "js_string option"
  pendingLines :: "int option"
  stale :: bool
  chunks :: "js_string option"

type_synonym project_map = "(js_string \<times> map_entry) list"

definition or_old :: "'a option \<Rightarrow> 'a option \<Rightarrow> 'a option" where
  "or_old new_value old_value = (case new_value of Some v \<Rightarrow> Some v | None \<Rightarrow> old_value)"

definition map_update :: "js_string \<Rightarrow> map_entry \<Rightarrow> project_map \<Rightarrow> project_map" where
  "map_update pluginId entry pm =
     (let old = map_of pm pluginId in
      map_set pluginId
        \<lparr>mrole = mrole entry, responsibilities = responsibilities entry,
         ehash = or_old (ehash entry) (Option.bind old ehash), pendingLines = Some 0, stale = False,
         chunks = or_old (chunks entry) (Option.bind old chunks)\<rparr> pm)"

definition map_remove :: "js_string \<Rightarrow> project_map \<Rightarrow> project_map" where
  "map_remove pluginId pm = map_delete pluginId pm"

definition map_keys :: "project_map \<Rightarrow> js_string list" where
  "map_keys pm = map fst pm"

definition FILE_ID_PREFIX :: js_string where
  "FILE_ID_PREFIX = js ''source:file:''"

definition absPathOf :: "js_string \<Rightarrow> js_string option" where
  "absPathOf pluginId =
     (if take (length FILE_ID_PREFIX) pluginId \<noteq> FILE_ID_PREFIX then None
      else let p = drop (length FILE_ID_PREFIX) pluginId in if p = [] then None else Some p)"

subsection \<open>Rendering\<close>

text \<open>\<open>sort\<close> with a comparison function, stable.\<close>

fun insert_by :: "('a \<Rightarrow> 'a \<Rightarrow> int) \<Rightarrow> 'a \<Rightarrow> 'a list \<Rightarrow> 'a list" where
  "insert_by cmp x [] = [x]"
| "insert_by cmp x (y # ys) = (if cmp x y \<le> 0 then x # y # ys else y # insert_by cmp x ys)"

definition sort_by :: "('a \<Rightarrow> 'a \<Rightarrow> int) \<Rightarrow> 'a list \<Rightarrow> 'a list" where
  "sort_by cmp xs = foldr (insert_by cmp) xs []"

definition map_title :: js_string where
  "map_title = js ''# '' @ [0x9879, 0x76ee, 0x5730, 0x56fe]"

definition no_entries_note :: js_string where
  "no_entries_note = [0xff08, 0x6682, 0x65e0, 0x6761, 0x76ee, 0xff09]"

definition em_dash :: js_string where
  "em_dash = js '' '' @ [0x2014] @ js '' ''"

text \<open>\<open>role || responsibilities[0] || ""\<close>\<close>

definition entry_label :: "map_entry \<Rightarrow> js_string" where
  "entry_label e =
     (if mrole e \<noteq> [] then mrole e
      else case responsibilities e of [] \<Rightarrow> [] | r # _ \<Rightarrow> r)"

definition sorted_entries :: "(js_string \<Rightarrow> js_string \<Rightarrow> int) \<Rightarrow> project_map \<Rightarrow> project_map" where
  "sorted_entries localeCompare pm = sort_by (\<lambda>a b. localeCompare (fst a) (fst b)) pm"

definition renderMarkdown :: "(js_string \<Rightarrow> js_string \<Rightarrow> int) \<Rightarrow> project_map \<Rightarrow> js_string" where
  "renderMarkdown localeCompare pm =
     join [newline] (map_title # concat (map (\<lambda>(pluginId, e).
         [[], js ''## '' @ pluginId]
         @ (if mrole e \<noteq> [] then [js ''- '' @ [0x89d2, 0x8272] @ js '': '' @ mrole e] else [])
         @ (if responsibilities e \<noteq> []
            then [js ''- '' @ [0x804c, 0x8d23] @ js '': '' @ join (js ''; '') (responsibilities e)] else []))
       (sorted_entries localeCompare pm)))"

text \<open>\<open>relative(base, abs).replace(/\\/g, "/")\<close>\<close>

definition map_relative :: "js_string \<Rightarrow> js_string \<Rightarrow> js_string" where
  "map_relative cwd p = map (\<lambda>c. if c = 0x5c then slash else c) (relative_path cwd p)"

definition renderBrief :: "(js_string \<Rightarrow> js_string \<Rightarrow> int) \<Rightarrow> js_string \<Rightarrow> project_map \<Rightarrow> js_string" where
  "renderBrief localeCompare cwd pm =
     join [newline] (List.map_filter (\<lambda>(pluginId, e).
       if stale e then None
       else Some ((case absPathOf pluginId of Some p \<Rightarrow> map_relative cwd p | None \<Rightarrow> pluginId)
                  @ em_dash @ entry_label e))
       (sorted_entries localeCompare pm))"

text \<open>The directory tree; a node's directories are a \<open>Map\<close>.\<close>

datatype tree_node = TreeNode (tfiles: "(js_string \<times> map_entry) list") (tdirs: "(js_string \<times> tree_node) list")

definition empty_node :: tree_node where
  "empty_node = TreeNode [] []"

text \<open>Walking down the directories of a path, creating those that are missing, and adding the file.\<close>

fun add_file :: "js_string list \<Rightarrow> js_string \<Rightarrow> map_entry \<Rightarrow> tree_node \<Rightarrow> tree_node" where
  "add_file [] file e (TreeNode fs ds) = TreeNode (fs @ [(file, e)]) ds"
| "add_file (part # parts) file e (TreeNode fs ds) =
     TreeNode fs (map_set part
       (add_file parts file e (case map_of ds part of Some n \<Rightarrow> n | None \<Rightarrow> empty_node)) ds)"

definition tree_parts :: "js_string \<Rightarrow> js_string \<Rightarrow> js_string list" where
  "tree_parts cwd p = filter (\<lambda>s. s \<noteq> []) (split_on slash (map_relative cwd p))"

definition tree_add :: "js_string \<Rightarrow> tree_node \<Rightarrow> js_string \<times> map_entry \<Rightarrow> tree_node" where
  "tree_add cwd node kv =
     (let (pluginId, e) = kv in
      if stale e then node
      else case absPathOf pluginId of
        None \<Rightarrow> add_file [] pluginId e node
      | Some p \<Rightarrow>
          let parts = tree_parts cwd p in
          add_file (butlast parts) (if parts = [] then p else last parts) e node)"

definition build_tree :: "js_string \<Rightarrow> project_map \<Rightarrow> tree_node" where
  "build_tree cwd pm = foldl (tree_add cwd) empty_node pm"

definition indent :: "nat \<Rightarrow> js_string" where
  "indent depth = concat (replicate depth (js ''  ''))"

lemma tree_size_mem: "(n, d) \<in> set ds \<Longrightarrow> size d < Suc (size_list (size_prod (\<lambda>_. 0) size) ds)"
  by (induction ds) auto

function emitTree :: "(js_string \<Rightarrow> js_string \<Rightarrow> int) \<Rightarrow> tree_node \<Rightarrow> nat \<Rightarrow> js_string list" where
  "emitTree localeCompare (TreeNode fs ds) depth =
     concat (map (\<lambda>(n, d). (indent depth @ n @ [slash]) # emitTree localeCompare d (depth + 1)) (sort_key fst ds))
     @ map (\<lambda>(n, e). indent depth @ n @ (if entry_label e \<noteq> [] then em_dash @ entry_label e else []))
         (sort_by (\<lambda>a b. localeCompare (fst a) (fst b)) fs)"
  by pat_completeness auto

termination
proof (relation "measure (\<lambda>(_, t, _). size t)")
  fix localeCompare :: "js_string \<Rightarrow> js_string \<Rightarrow> int" and fs and ds :: "(js_string \<times> tree_node) list"
    and depth x and n :: js_string and d
  assume "x \<in> set (sort_key fst ds)" "(n, d) = x"
  then have "(n, d) \<in> set ds" by simp
  then show "((localeCompare, d, depth + 1), localeCompare, TreeNode fs ds, depth) \<in> measure (\<lambda>(_, t, _). size t)"
    using tree_size_mem [of n d ds] by simp
qed simp

definition renderTree :: "(js_string \<Rightarrow> js_string \<Rightarrow> int) \<Rightarrow> js_string \<Rightarrow> project_map \<Rightarrow> js_string" where
  "renderTree localeCompare cwd pm =
     (let body = emitTree localeCompare (build_tree cwd pm) 0 in
      if body = [] then map_title @ [newline] @ no_entries_note else join [newline] (map_title # body))"

subsection \<open>The file of the map\<close>

definition json_field :: "(js_string \<times> json) list \<Rightarrow> string \<Rightarrow> json option" where
  "json_field kvs k = map_of kvs (js k)"

definition json_strings :: "json list \<Rightarrow> js_string list" where
  "json_strings vs = List.map_filter (\<lambda>v. case v of JStr s \<Rightarrow> Some s | _ \<Rightarrow> None) vs"

text \<open>\<open>typeof v === "object" && v !== null\<close>: the fields of an object; an array has none of them.\<close>

definition json_object :: "json \<Rightarrow> (js_string \<times> json) list option" where
  "json_object v = (case v of JObj kvs \<Rightarrow> Some kvs | JArr _ \<Rightarrow> Some [] | _ \<Rightarrow> None)"

definition load_entry :: "(js_string \<times> json) list \<Rightarrow> map_entry" where
  "load_entry m =
     \<lparr>mrole = (case json_field m ''role'' of Some (JStr s) \<Rightarrow> s | _ \<Rightarrow> []),
      responsibilities = (case json_field m ''responsibilities'' of Some (JArr vs) \<Rightarrow> json_strings vs | _ \<Rightarrow> []),
      ehash = (case json_field m ''hash'' of Some (JStr s) \<Rightarrow> Some s | _ \<Rightarrow> None),
      pendingLines = Some (case json_field m ''pendingLines'' of Some (JNum n) \<Rightarrow> n | _ \<Rightarrow> 0),
      stale = (json_field m ''stale'' = Some (JBool True)),
      chunks = (case json_field m ''chunks'' of Some (JStr s) \<Rightarrow> Some s | _ \<Rightarrow> None)\<rparr>"

text \<open>\<open>Object.entries\<close>\<close>

definition json_entries :: "json \<Rightarrow> (js_string \<times> json) list" where
  "json_entries v =
     (case v of JObj kvs \<Rightarrow> kvs | JArr vs \<Rightarrow> zip (map decimal [0..<length vs]) vs | _ \<Rightarrow> [])"

definition load_step :: "project_map \<Rightarrow> js_string \<times> json \<Rightarrow> project_map" where
  "load_step pm kv =
     (case json_object (snd kv) of None \<Rightarrow> pm | Some m \<Rightarrow> map_set (fst kv) (load_entry m) pm)"

definition map_load :: "json option \<Rightarrow> project_map \<Rightarrow> project_map" where
  "map_load data pm = (case data of None \<Rightarrow> pm | Some v \<Rightarrow> foldl load_step pm (json_entries v))"

text \<open>The JSON of an entry: \<open>JSON.stringify\<close> leaves out the fields that are undefined.\<close>

definition entry_json :: "map_entry \<Rightarrow> json" where
  "entry_json e = JObj
     ([(js ''role'', JStr (mrole e)), (js ''responsibilities'', JArr (map JStr (responsibilities e)))]
      @ (case ehash e of None \<Rightarrow> [] | Some h \<Rightarrow> [(js ''hash'', JStr h)])
      @ (case chunks e of None \<Rightarrow> [] | Some c \<Rightarrow> [(js ''chunks'', JStr c)])
      @ (case pendingLines e of None \<Rightarrow> [] | Some n \<Rightarrow> [(js ''pendingLines'', JNum n)])
      @ (if stale e then [(js ''stale'', JBool True)] else []))"

text \<open>The document that \<open>writeProjectMapFileMerged\<close> writes: what is on the disk, overwritten by the
  entries in memory. An array on the disk is ignored.\<close>

definition merge_disk_step :: "(js_string \<times> json) list \<Rightarrow> js_string \<times> json \<Rightarrow> (js_string \<times> json) list" where
  "merge_disk_step m kv = (if json_object (snd kv) = None then m else map_set (fst kv) (snd kv) m)"

definition merge_own_step :: "(js_string \<times> json) list \<Rightarrow> js_string \<times> map_entry \<Rightarrow> (js_string \<times> json) list" where
  "merge_own_step m kv = map_set (fst kv) (entry_json (snd kv)) m"

definition writeProjectMapFileMerged :: "json option \<Rightarrow> project_map \<Rightarrow> json" where
  "writeProjectMapFileMerged disk_doc pm =
     (let merged = (case disk_doc of Some (JObj kvs) \<Rightarrow> foldl merge_disk_step [] kvs | _ \<Rightarrow> [])
      in JObj (foldl merge_own_step merged pm))"

subsection \<open>The tree holds the live entries\<close>

text \<open>The files of a tree with the directories they are in.\<close>

fun tree_files :: "tree_node \<Rightarrow> (js_string list \<times> map_entry) list" where
  "tree_files (TreeNode fs ds) =
     map (\<lambda>(n, e). ([n], e)) fs @ concat (map (\<lambda>(n, d). map (\<lambda>(ps, e). (n # ps, e)) (tree_files d)) ds)"

text \<open>Directories are maps, all the way down.\<close>

fun tree_ok :: "tree_node \<Rightarrow> bool" where
  "tree_ok (TreeNode fs ds) \<longleftrightarrow> js_map ds \<and> list_all (\<lambda>(n, d). tree_ok d) ds"

lemma map_set_None: "map_of kvs k = None \<Longrightarrow> map_set k v kvs = kvs @ [(k, v)]"
  by (induction k v kvs rule: map_set.induct) (auto split: if_splits)

lemma map_set_Some:
  "map_of kvs k = Some w \<Longrightarrow> \<exists>a b. kvs = a @ (k, w) # b \<and> map_set k v kvs = a @ (k, v) # b"
proof (induction k v kvs rule: map_set.induct)
  case (2 k v k' v' kvs)
  show ?case
  proof (cases "k' = k")
    case False
    with 2 obtain a b where "kvs = a @ (k, w) # b" "map_set k v kvs = a @ (k, v) # b" by auto
    then have "(k', v') # kvs = ((k', v') # a) @ (k, w) # b"
      "map_set k v ((k', v') # kvs) = ((k', v') # a) @ (k, v) # b" using False by auto
    then show ?thesis by blast
  qed (use 2 in auto)
qed simp

lemma add_file_files:
  "mset (tree_files (add_file parts n e t)) = add_mset (parts @ [n], e) (mset (tree_files t))"
proof (induction parts n e t rule: add_file.induct)
  case (2 part parts n e fs ds)
  let ?pre = "\<lambda>ps. map (\<lambda>(p, e). (part # p, e)) ps"
  show ?case
  proof (cases "map_of ds part")
    case None
    with 2 show ?thesis by (simp add: empty_node_def map_set_None)
  next
    case (Some d)
    define d' where "d' = add_file parts n e d"
    have IH: "mset (tree_files d') = add_mset (parts @ [n], e) (mset (tree_files d))"
      using 2 Some by (simp add: d'_def)
    obtain a b where "ds = a @ (part, d) # b" "map_set part d' ds = a @ (part, d') # b"
      using map_set_Some [OF Some] by blast
    with Some IH show ?thesis by (simp add: d'_def [symmetric])
  qed
qed simp

definition live_file :: "js_string \<Rightarrow> js_string \<times> map_entry \<Rightarrow> (js_string list \<times> map_entry) option" where
  "live_file cwd kv =
     (if stale (snd kv) then None
      else Some (case absPathOf (fst kv) of
                   None \<Rightarrow> [fst kv]
                 | Some p \<Rightarrow> let parts = tree_parts cwd p in if parts = [] then [p] else parts, snd kv))"

lemma tree_add_files:
  "mset (tree_files (tree_add cwd t kv)) =
     mset (case live_file cwd kv of None \<Rightarrow> [] | Some f \<Rightarrow> [f]) + mset (tree_files t)"
  by (auto simp: tree_add_def live_file_def add_file_files Let_def case_prod_beta split: option.splits)

text \<open>The project map as a tree shows every live entry once, at the directories of its path
  relative to the working directory, and no entry that is stale.\<close>

theorem build_tree_files:
  "mset (tree_files (build_tree cwd pm)) = mset (List.map_filter (live_file cwd) pm)"
proof -
  have "mset (tree_files (foldl (tree_add cwd) t pm)) = mset (tree_files t) + mset (List.map_filter (live_file cwd) pm)" for t
    by (induction pm arbitrary: t) (auto simp: tree_add_files map_filter_simps split: option.splits)
  from this [of empty_node] show ?thesis by (simp add: build_tree_def empty_node_def)
qed

subsection \<open>Saving and loading\<close>

lemma json_field_simps:
  "json_field [] k = None"
  "json_field ((js k', v) # kvs) k = (if k' = k then Some v else json_field kvs k)"
  by (auto simp: json_field_def js_eq_iff)

lemma json_strings_map: "json_strings (map JStr ss) = ss"
  by (induction ss) (auto simp: json_strings_def map_filter_simps)

lemma load_entry_json:
  "json_object (entry_json e) = Some kvs \<Longrightarrow> load_entry kvs = e\<lparr>pendingLines := Some (case pendingLines e of None \<Rightarrow> 0 | Some n \<Rightarrow> n)\<rparr>"
  unfolding entry_json_def json_object_def
  by (cases "ehash e"; cases "chunks e"; cases "pendingLines e"; cases "stale e")
     (auto simp: load_entry_def json_field_simps json_strings_map)

text \<open>The entries of a document that are objects.\<close>

definition object_entries :: "(js_string \<times> json) list \<Rightarrow> (js_string \<times> json) list" where
  "object_entries kvs = filter (\<lambda>kv. json_object (snd kv) \<noteq> None) kvs"

lemma object_entries_simps:
  "object_entries [] = []"
  "object_entries (kv # kvs) = (if json_object (snd kv) = None then object_entries kvs else kv # object_entries kvs)"
  by (auto simp: object_entries_def)

lemma map_of_load:
  "map_of (foldl load_step pm kvs) k =
     (case map_of (rev (object_entries kvs)) k of
        None \<Rightarrow> map_of pm k | Some v \<Rightarrow> Some (load_entry (the (json_object v))))"
proof (induction kvs arbitrary: pm)
  case (Cons kv kvs)
  then show ?case
    by (auto simp: load_step_def object_entries_simps map_add_def split: option.splits)
qed (simp add: object_entries_simps)

lemma map_of_merge_disk: "map_of (foldl merge_disk_step m kvs) = map_of m ++ map_of (rev (object_entries kvs))"
proof (induction kvs arbitrary: m)
  case (Cons kv kvs)
  then show ?case
    by (cases kv) (auto simp: merge_disk_step_def object_entries_simps fun_eq_iff map_add_def split: option.splits)
qed (simp add: object_entries_simps)

lemma map_of_merge_own:
  "map_of (foldl merge_own_step m pm) = map_of m ++ map_of (rev (map (\<lambda>kv. (fst kv, entry_json (snd kv))) pm))"
proof (induction pm arbitrary: m)
  case (Cons kv pm)
  then show ?case by (cases kv) (auto simp: merge_own_step_def fun_eq_iff map_add_def split: option.splits)
qed simp

lemma js_map_rev:
  assumes "js_map kvs"
  shows "map_of (rev kvs) = map_of kvs"
proof
  fix k
  have "js_map (rev kvs)" using assms by (simp add: js_map_def rev_map [symmetric])
  then have "map_of (rev kvs) k = Some v \<longleftrightarrow> map_of kvs k = Some v" for v
    using assms by (simp flip: js_map_mem_iff)
  then show "map_of (rev kvs) k = map_of kvs k" by (metis not_None_eq)
qed

lemma merge_steps_js_map:
  "js_map m \<Longrightarrow> js_map (foldl merge_disk_step m kvs)"
  "js_map m \<Longrightarrow> js_map (foldl merge_own_step m pm)"
  by (induction kvs arbitrary: m, auto simp: merge_disk_step_def)
     (induction pm arbitrary: m, auto simp: merge_own_step_def)

lemma object_entries_js_map: "js_map kvs \<Longrightarrow> js_map (object_entries kvs)"
  by (simp add: js_map_def object_entries_def distinct_map_filter)

lemma map_of_object_entries:
  "js_map kvs \<Longrightarrow> map_of (object_entries kvs) k =
     (case map_of kvs k of Some v \<Rightarrow> if json_object v = None then None else Some v | None \<Rightarrow> None)"
proof (induction kvs)
  case (Cons kv kvs)
  have "map_of kvs (fst kv) = None" using Cons.prems by (simp add: js_map_def map_of_eq_None_iff)
  with Cons show ?case by (cases kv) (auto simp: js_map_def object_entries_simps)
qed (simp add: object_entries_simps)

text \<open>Property C35. Saving the project map and loading it into a new session: an entry in memory comes back as it
  was (a missing count of pending lines as zero), and an entry of another session that only the file has
  is kept. For an id that both have the file gets the entry in memory, whichever of the two is newer.\<close>

theorem project_map_saved:
  assumes "js_map pm" "js_map disk_entries"
  shows "map_of (map_load (Some (writeProjectMapFileMerged (Some (JObj disk_entries)) pm)) []) k =
    (case map_of pm k of
       Some e \<Rightarrow> Some (e\<lparr>pendingLines := Some (case pendingLines e of None \<Rightarrow> 0 | Some n \<Rightarrow> n)\<rparr>)
     | None \<Rightarrow> map_option load_entry (Option.bind (map_of disk_entries k) json_object))"
proof -
  define own where "own = map (\<lambda>kv. (fst kv, entry_json (snd kv))) pm"
  define doc where "doc = foldl merge_own_step (foldl merge_disk_step [] disk_entries) pm"
  have own: "js_map own" "map_of own k = map_option entry_json (map_of pm k)"
    using assms(1) by (auto simp: own_def js_map_def comp_def) (induction pm, auto)
  have js: "js_map doc" by (simp add: doc_def merge_steps_js_map)
  have obj: "json_object (entry_json e) \<noteq> None" for e by (simp add: entry_json_def json_object_def)
  have look: "map_of doc k = (case map_of pm k of Some e \<Rightarrow> Some (entry_json e)
      | None \<Rightarrow> (case map_of disk_entries k of Some v \<Rightarrow> if json_object v = None then None else Some v | None \<Rightarrow> None))"
    unfolding doc_def map_of_merge_own map_of_merge_disk own_def [symmetric]
    using own js_map_rev [OF own(1)] js_map_rev [OF object_entries_js_map [OF assms(2)]]
    by (simp add: map_add_def map_of_object_entries [OF assms(2)] split: option.splits)
  have "map_of (foldl load_step [] doc) k =
      (case map_of doc k of Some v \<Rightarrow> if json_object v = None then None else Some (load_entry (the (json_object v))) | None \<Rightarrow> None)"
    by (simp add: map_of_load js_map_rev object_entries_js_map js map_of_object_entries split: option.splits)
  then show ?thesis
    using load_entry_json
    by (auto simp: obj map_load_def writeProjectMapFileMerged_def json_entries_def doc_def [symmetric] look split: option.splits)
qed

theorem project_map_saved_witness:
  "\<exists>own other. map_of (map_load (Some (writeProjectMapFileMerged (Some (JObj [(js ''a'', entry_json other),
        (js ''b'', entry_json other)])) [(js ''a'', own)])) []) (js ''b'') = Some other
     \<and> map_of (map_load (Some (writeProjectMapFileMerged (Some (JObj [(js ''a'', entry_json other),
        (js ''b'', entry_json other)])) [(js ''a'', own)])) []) (js ''a'') = Some own
     \<and> own \<noteq> other"
proof -
  define own where "own = \<lparr>mrole = js ''old'', responsibilities = [], ehash = None, pendingLines = Some 0,
    stale = False, chunks = None\<rparr>"
  define other where "other = \<lparr>mrole = js ''new'', responsibilities = [], ehash = None, pendingLines = Some 0,
    stale = False, chunks = None\<rparr>"
  have o: "json_object (entry_json other) = Some (case entry_json other of JObj kvs \<Rightarrow> kvs)"
    by (simp add: entry_json_def json_object_def)
  have "js_map [(js ''a'', own)]" "js_map [(js ''a'', entry_json other), (js ''b'', entry_json other)]"
    by (simp_all add: js_map_def js_eq_iff)
  note saved = project_map_saved [OF this]
  have "own \<noteq> other" by (simp add: own_def other_def js_eq_iff)
  with saved [of "js ''b''"] saved [of "js ''a''"] o load_entry_json [OF o] show ?thesis
    by (intro exI [of _ own] exI [of _ other]) (simp add: js_eq_iff own_def other_def)
qed

end
