(* ===== verification/MemoryAgent.thy ===== *)
theory MemoryAgent
  imports SourceAdapter ProjectMap
begin

text \<open>
  The memory agent (\<^verbatim>\<open>packages/coding-agent/src/core/piwpi/memory/agent.ts\<close>): the prompt for a batch of
  mounted files, the parsing of the model's answer, and the call. \<open>JSON.parse\<close> and the completion
  function of the model registry are parameters; \<open>None\<close> is where they throw. The theorem on parsing:
  a JSON object gives the same entries bare and in a Markdown fence.
\<close>

definition MEMORY_SYSTEM_PROMPT :: js_string where
  "MEMORY_SYSTEM_PROMPT = join [newline]
     [js ''You are piwpi'' @ [0x27] @ js ''s project-map curator. A coding agent has just mounted several source files into its context. Define the identity of each listed file and record it in the project map.'',
      [],
      js ''You have NO external tools. Base your output ONLY on the inputs provided in the task:'',
      js ''1. each file'' @ [0x27] @ js ''s mounted content'',
      js ''2. the agent'' @ [0x27] @ js ''s recent conversation (deduplicated '' @ [0x2014] @ js '' tool results keep only their marker line, so they never overlap with the mounted content)'',
      js ''3. the existing project map entries (brief '' @ [0x2014] @ js '' for naming consistency)'',
      [],
      js ''Output ONE strict JSON object and nothing else:'',
      [],
      js ''{'',
      js ''  '' @ [0x22] @ js ''entries'' @ [0x22] @ js '': {'',
      js ''    '' @ [0x22] @ js ''<pluginId>'' @ [0x22] @ js '': {'',
      js ''      '' @ [0x22] @ js ''role'' @ [0x22] @ js '': '' @ [0x22] @ js ''one-line identity of this file'' @ [0x27] @ js ''s role in the project'' @ [0x22] @ js '','',
      js ''      '' @ [0x22] @ js ''responsibilities'' @ [0x22] @ js '': ['' @ [0x22] @ js ''concise responsibilities, 3-8 items'' @ [0x22] @ js '']'',
      js ''    }'',
      js ''  }'',
      js ''}'',
      [],
      js ''Rules:'',
      js ''- Output an entry for EVERY pluginId listed in the task, and for no other id.'',
      js ''- Use the language of the code comments / user message.'',
      js ''- Only include facts visible in the provided inputs. Never invent.'',
      js ''- Keep role and responsibilities short; the project map is a lightweight overview, not documentation.'',
      js ''- Do not wrap the JSON in markdown fences. Do not add any text outside the JSON.'']"

record memory_file =
  mf_plugin :: plugin
  mf_lines :: "js_string list"

definition none_note :: js_string where
  "none_note = [0xff08, 0x65e0, 0xff09]"

definition or_none :: "js_string \<Rightarrow> js_string" where
  "or_none s = (if s = [] then none_note else s)"

definition buildMemoryPrompt :: "memory_file list \<Rightarrow> js_string \<Rightarrow> js_string \<Rightarrow> js_string \<Rightarrow> js_string" where
  "buildMemoryPrompt files local_context dialogue_context mapBrief =
     join [newline]
       ([js ''# piwpi '' @ [0x8bb0, 0x5fc6, 0x6574, 0x7406, 0x4efb, 0x52a1, 0xff08, 0x6279, 0x91cf, 0x8eab, 0x4efd, 0x5b9a, 0x4e49, 0xff09],
         [0x5f85, 0x6574, 0x7406, 0x6587, 0x4ef6, 0xff08] @ js ''pluginId '' @ [0x2192] @ js '' identity'' @ [0xff09, 0xff1a]]
        @ map (\<lambda>f. js ''- '' @ pid (mf_plugin f) @ js '' '' @ [0x2192] @ js '' '' @ identity (mf_plugin f)) files
        @ [[0x5f53, 0x524d, 0x7528, 0x6237, 0x6d88, 0x606f, 0xff1a] @ or_none local_context, [],
           js ''## '' @ [0x8f93, 0x5165, 0x4e00, 0xff1a, 0x5404, 0x6587, 0x4ef6, 0x6302, 0x8f7d, 0x5185, 0x5bb9, 0xff08, 0x786e, 0x5b9a, 0x6027, 0x6e32, 0x67d3, 0xff09]]
        @ concat (map (\<lambda>f. [js ''### '' @ pid (mf_plugin f), render (mf_plugin f) (mf_lines f), []]) files)
        @ [js ''## '' @ [0x8f93, 0x5165, 0x4e8c, 0xff1a, 0x4e3b] @ js '' Agent '' @ [0x6700, 0x8fd1, 0x5bf9, 0x8bdd, 0xff08, 0x5df2, 0x53bb, 0x91cd, 0xff1a, 0x5de5, 0x5177, 0x7ed3, 0x679c, 0x4ec5, 0x4fdd, 0x7559, 0x6807, 0x8bb0, 0x884c, 0xff0c, 0x4e0e, 0x6302, 0x8f7d, 0x5185, 0x5bb9, 0x4e0d, 0x91cd, 0x53e0, 0xff09],
           or_none dialogue_context, [],
           js ''## '' @ [0x8f93, 0x5165, 0x4e09, 0xff1a] @ js ''Project Map '' @ [0x5df2, 0x6709, 0x6761, 0x76ee, 0xff08, 0x7cbe, 0x7b80, 0xff09],
           or_none mapBrief, [],
           [0x8f93, 0x51fa] @ js '' entries JSON'' @ [0xff08] @ js ''key '' @ [0x4e3a, 0x4e0a, 0x8ff0] @ js '' pluginId'' @ [0xff09, 0xff0c, 0x53ea, 0x8f93, 0x51fa, 0x4e00, 0x4e2a] @ js '' JSON '' @ [0x5bf9, 0x8c61, 0xff0c, 0x4e0d, 0x8981, 0x8f93, 0x51fa, 0x4efb, 0x4f55, 0x5176, 0x4ed6, 0x5185, 0x5bb9, 0x3002]])"

subsection \<open>The answer\<close>

definition fence :: js_string where
  "fence = [0x60, 0x60, 0x60]"

definition starts_with :: "'a list \<Rightarrow> 'a list \<Rightarrow> bool" where
  "starts_with p s \<longleftrightarrow> take (length p) s = p"

text \<open>\<open>cleaned.match(/^```(?:json)?\s*([\s\S]*?)\s*```$/)\<close>: the first group, trimmed.\<close>

definition unfence :: "js_string \<Rightarrow> js_string" where
  "unfence s =
     (if starts_with fence s then
        let r = drop 3 s;
            body = (if starts_with (js ''json'') r \<and> length r \<ge> 7 then drop 4 r else r)
        in if length body \<ge> 3 \<and> drop (length body - 3) body = fence
           then trim (take (length body - 3) body) else s
      else s)"

text \<open>The text from the first \<open>{\<close> to the last \<open>}\<close>.\<close>

definition braces :: "js_string \<Rightarrow> js_string option" where
  "braces s =
     (let from = dropWhile (\<lambda>c. c \<noteq> 0x7b) s;
          body = rev (dropWhile (\<lambda>c. c \<noteq> 0x7d) (rev from))
      in if body = [] then None else Some body)"

definition memory_entry :: "json \<Rightarrow> map_entry option" where
  "memory_entry v =
     (case v of
        JObj m \<Rightarrow> Some
          \<lparr>mrole = (case json_field m ''role'' of Some (JStr s) \<Rightarrow> trim s | _ \<Rightarrow> []),
           responsibilities = (case json_field m ''responsibilities'' of Some (JArr vs) \<Rightarrow> json_strings vs | _ \<Rightarrow> []),
           ehash = None, pendingLines = None, stale = False, chunks = None\<rparr>
      | _ \<Rightarrow> None)"

definition parseMemoryJson :: "(js_string \<Rightarrow> json option) \<Rightarrow> js_string \<Rightarrow> project_map option" where
  "parseMemoryJson json_parse text =
     (case braces (unfence (trim text)) of
        None \<Rightarrow> None
      | Some body \<Rightarrow>
          (case json_parse body of
             Some (JObj top_fields) \<Rightarrow>
               (case json_field top_fields ''entries'' of
                  Some (JObj raw) \<Rightarrow>
                    Some (List.map_filter (\<lambda>(i, v). map_option (Pair i) (memory_entry v)) raw)
                | _ \<Rightarrow> None)
           | _ \<Rightarrow> None))"

subsection \<open>The call\<close>

text \<open>A completion takes the model, the system prompt, the prompt and the output limit, and gives the texts
  of the answer's blocks, \<open>None\<close> for a block that is not text.\<close>

type_synonym completion =
  "js_string \<Rightarrow> js_string \<Rightarrow> js_string \<Rightarrow> nat option \<Rightarrow> js_string option list option"

record memory_deps =
  dep_complete :: completion
  dep_model :: "js_string option"
  dep_maxTokens :: "nat option"

definition summarize ::
  "(js_string \<Rightarrow> json option) \<Rightarrow> memory_deps \<Rightarrow> memory_file list \<Rightarrow> js_string \<Rightarrow> js_string \<Rightarrow> js_string
     \<Rightarrow> bool option \<Rightarrow> project_map option" where
  "summarize json_parse deps files local_context dialogue_context mapBrief signal =
     (case dep_model deps of
        None \<Rightarrow> None
      | Some model \<Rightarrow>
          if signal = Some True then None
          else (case dep_complete deps model MEMORY_SYSTEM_PROMPT
                       (buildMemoryPrompt files local_context dialogue_context mapBrief) (dep_maxTokens deps) of
                  None \<Rightarrow> None
                | Some blocks \<Rightarrow>
                    (let text = trim (join [newline] (List.map_filter id blocks)) in
                     if text = [] then None else parseMemoryJson json_parse text)))"

subsection \<open>Fences do not matter\<close>

lemma braces_bare:
  "braces (0x7b # s @ [0x7d]) = Some (0x7b # s @ [0x7d])"
  by (simp add: braces_def)

lemma dropWhile_rev_append: "P x \<Longrightarrow> dropWhile P (rev (s @ [x])) = dropWhile P (rev s)"
  by simp

lemma trim_braces: "trim (0x7b # s @ [0x7d]) = 0x7b # s @ [0x7d]"
  by (simp add: trim_def trim_start_def trim_end_def whitespace_def)

lemma unfence_bare: "unfence (0x7b # s) = 0x7b # s"
  by (simp add: unfence_def starts_with_def fence_def)

lemma trim_fenced:
  "trim (fence @ t @ fence) = fence @ t @ fence"
  by (simp add: trim_def trim_start_def trim_end_def fence_def whitespace_def)

lemma unfence_fenced:
  "unfence (fence @ js ''json'' @ [newline] @ (0x7b # s @ [0x7d]) @ [newline] @ fence) = 0x7b # s @ [0x7d]"
proof -
  define body where "body = [newline] @ (0x7b # s @ [0x7d]) @ [newline] @ fence"
  have "trim (newline # 0x7b # s @ [0x7d, newline]) = 0x7b # s @ [0x7d]"
    by (simp add: trim_def trim_start_def trim_end_def whitespace_def)
  moreover have "take (length body - 3) body = newline # 0x7b # s @ [0x7d, newline]"
    "drop (length body - 3) body = fence" "length body \<ge> 3"
    by (simp_all add: body_def fence_def)
  moreover have "starts_with fence (fence @ js ''json'' @ body)" "drop 3 (fence @ js ''json'' @ body) = js ''json'' @ body"
    "starts_with (js ''json'') (js ''json'' @ body)" "drop 4 (js ''json'' @ body) = body" "length (js ''json'' @ body) \<ge> 7"
    by (simp_all add: starts_with_def fence_def js_def body_def)
  ultimately show ?thesis
    unfolding body_def [symmetric] by (simp add: unfence_def Let_def)
qed

text \<open>An answer of the memory model in a Markdown fence is read as the bare JSON object in it:
  for every text from an opening to a closing brace, whatever \<open>JSON.parse\<close> makes of it.\<close>

theorem parseMemoryJson_fence:
  "parseMemoryJson json_parse (fence @ js ''json'' @ [newline] @ (0x7b # s @ [0x7d]) @ [newline] @ fence)
     = parseMemoryJson json_parse (0x7b # s @ [0x7d])"
proof -
  have "trim (fence @ js ''json'' @ [newline] @ (0x7b # s @ [0x7d]) @ [newline] @ fence)
      = fence @ js ''json'' @ [newline] @ (0x7b # s @ [0x7d]) @ [newline] @ fence"
    using trim_fenced [of "js ''json'' @ [newline] @ (0x7b # s @ [0x7d]) @ [newline]"] by simp
  then show ?thesis
    using unfence_fenced [of s] unfence_bare [of "s @ [0x7d]"] trim_braces [of s]
    by (simp add: parseMemoryJson_def)
qed

end

