(* ===== verification/Harness.thy ===== *)
theory Harness
  imports Fingerprint FileCache MemoryQueue MemoryAgent Messages
begin

text \<open>
  The piwpi harness (\<^verbatim>\<open>packages/coding-agent/src/core/piwpi/harness.ts\<close>): it watches the \<open>read\<close> tool and
  keeps the files the model has read mounted in the context. Its state is one record, its handlers are
  functions on it. Each handler runs over a disk that does not change while it runs; between handlers
  the disk may change in any way, which is where the hashes come in. The batch of the memory agent
  suspends for the model, so it is two functions, \<open>runMemoryBatch_begin\<close> and \<open>runMemoryBatch_commit\<close>,
  with other handlers in between. Plugins are objects that the code changes in place: \<open>h_refs\<close> gives the
  object that the store holds for an id and \<open>h_objs\<close> the present value of every object, since a batch
  keeps references to objects that the store may no longer hold. A result of \<open>None\<close> where a value is
  expected is an exception that the handler catches. Console output, timestamps and the token counters
  of the debug panel are left out.
\<close>

subsection \<open>State and options\<close>

record registry =
  reg_complete :: "completion option"
  reg_find :: "(js_string \<Rightarrow> js_string \<Rightarrow> js_string option) option"

record harness_options =
  o_host :: host
  o_hashBuffer :: "byte list \<Rightarrow> js_string"
  o_sha256 :: "js_string \<Rightarrow> byte list"
  o_localeCompare :: "js_string \<Rightarrow> js_string \<Rightarrow> int"
  o_json_parse :: "js_string \<Rightarrow> json option"
  o_memoryDeps :: "memory_deps option"
  o_memoryBatchFiles :: nat
  o_memoryBatchLines :: nat
  o_onEvent :: bool
  o_env_model :: "js_string option"
  o_models_json :: "json option"

datatype pending_call =
    PNoop js_string
  | PIncrement js_string js_string
  | PUpdated js_string js_string js_string "js_string list option"
  | PNew js_string js_string js_string

record retired_mount =
  ret_absPath :: js_string
  reason :: js_string

datatype call_kind = KNoop | KIncrement | KUpdated | KNew

datatype piwpi_event =
    EvSessionStart
  | EvToolCall js_string call_kind
  | EvMounted js_string call_kind js_string
  | EvNoop js_string js_string
  | EvContext nat nat
  | EvMemoryQueued js_string nat nat
  | EvMemoryUpdated js_string
  | EvMemorySkipped nat
  | EvMemoryBatchDone nat nat
  | EvInvalidated js_string enat js_string js_string
  | EvMapStale js_string int
  | EvRestore nat
  | EvShutdown

record message_summary =
  sum_role :: js_string
  sum_toolCallId :: "js_string option"
  sum_hasImage :: bool
  sum_text :: js_string

record context_snapshot =
  messageCount :: nat
  toolResultCount :: nat
  summaries :: "message_summary list"

record harness =
  h_store :: plugin_store
  h_refs :: "(js_string \<times> nat) list"
  h_objs :: "(nat \<times> plugin) list"
  h_cache :: file_cache
  h_map :: project_map
  h_mapFile :: "json option"
  h_mapLoaded :: bool
  h_anchors :: "(js_string \<times> js_string) list"
  h_retired :: "(js_string \<times> retired_mount) list"
  h_pending :: "(js_string \<times> pending_call) list"
  h_generation :: nat
  h_shuttingDown :: bool
  h_queue :: memory_queue
  h_cwd :: js_string
  h_registry :: "registry option"
  h_model :: "js_string option"
  h_writer :: bool
  h_lastUserText :: js_string
  h_recentDialogue :: js_string
  h_lastContext :: "context_snapshot option"
  h_filesLeft :: nat
  h_scanCursor :: nat
  h_scanPending :: bool
  h_persisted :: "plugin list"
  h_events :: "piwpi_event list"

definition createHarness :: "harness_options \<Rightarrow> js_string \<Rightarrow> json option \<Rightarrow> harness" where
  "createHarness cfg cwd map_file =
     \<lparr>h_store = [], h_refs = [], h_objs = [], h_cache = new_cache None None, h_map = [], h_mapFile = map_file,
      h_mapLoaded = False, h_anchors = [], h_retired = [], h_pending = [], h_generation = 0, h_shuttingDown = False,
      h_queue = new_queue, h_cwd = cwd, h_registry = None, h_model = None, h_writer = False, h_lastUserText = [],
      h_recentDialogue = [], h_lastContext = None, h_filesLeft = o_memoryBatchFiles cfg, h_scanCursor = 0,
      h_scanPending = True, h_persisted = [], h_events = []\<rparr>"

definition emit :: "harness_options \<Rightarrow> piwpi_event \<Rightarrow> harness \<Rightarrow> harness" where
  "emit cfg ev h = (if o_onEvent cfg then h\<lparr>h_events := h_events h @ [ev]\<rparr> else h)"

record host_context =
  c_cwd :: js_string
  c_registry :: "registry option"
  c_model :: "js_string option"
  c_writer :: bool

definition rememberCtx :: "host_context \<Rightarrow> harness \<Rightarrow> harness" where
  "rememberCtx ctx h =
     h\<lparr>h_cwd := c_cwd ctx,
       h_registry := (case h_registry h of None \<Rightarrow> c_registry ctx | Some r \<Rightarrow> Some r),
       h_model := (case c_model ctx of None \<Rightarrow> h_model h | Some m \<Rightarrow> Some m),
       h_writer := c_writer ctx\<rparr>"

text \<open>Storing a plugin: a new object, or the object that the store holds for its id, changed in place.\<close>

definition put_new :: "plugin \<Rightarrow> harness \<Rightarrow> harness" where
  "put_new p h =
     h\<lparr>h_store := store_upsert p (h_store h), h_refs := map_set (pid p) (length (h_objs h)) (h_refs h),
       h_objs := h_objs h @ [(length (h_objs h), p)]\<rparr>"

definition put_object :: "nat \<Rightarrow> plugin \<Rightarrow> harness \<Rightarrow> harness" where
  "put_object n p h =
     h\<lparr>h_store := store_upsert p (h_store h), h_refs := map_set (pid p) n (h_refs h),
       h_objs := map_set n p (h_objs h)\<rparr>"

definition put_same :: "plugin \<Rightarrow> harness \<Rightarrow> harness" where
  "put_same p h = (case map_of (h_refs h) (pid p) of None \<Rightarrow> put_new p h | Some n \<Rightarrow> put_object n p h)"

definition remove_plugin :: "js_string \<Rightarrow> harness \<Rightarrow> harness" where
  "remove_plugin i h = h\<lparr>h_store := store_remove i (h_store h), h_refs := map_delete i (h_refs h)\<rparr>"

definition persistPlugin :: "plugin \<Rightarrow> harness \<Rightarrow> harness" where
  "persistPlugin p h = (if h_writer h then h\<lparr>h_persisted := h_persisted h @ [p]\<rparr> else h)"

definition fetch_file :: "harness_options \<Rightarrow> disk \<Rightarrow> int \<Rightarrow> js_string \<Rightarrow> harness \<Rightarrow> cache_result option \<times> harness" where
  "fetch_file cfg d now p h =
     (let (r, c) = cache_get (o_hashBuffer cfg) d now p (h_cache h) in (r, h\<lparr>h_cache := c\<rparr>))"

text \<open>\<open>entry.lines ?? (await fileCache.readLines(absPath))\<close>\<close>

definition entry_lines :: "harness_options \<Rightarrow> disk \<Rightarrow> int \<Rightarrow> js_string \<Rightarrow> cache_entry \<Rightarrow> harness \<Rightarrow> js_string list option \<times> harness" where
  "entry_lines cfg d now p entry h =
     (case flines entry of
        Some ls \<Rightarrow> (Some ls, h)
      | None \<Rightarrow> let (ls, c) = readLines (o_hashBuffer cfg) d now p (h_cache h) in (ls, h\<lparr>h_cache := c\<rparr>))"

definition pin_path :: "js_string \<Rightarrow> harness \<Rightarrow> harness" where
  "pin_path p h = h\<lparr>h_cache := pin p (h_cache h)\<rparr>"

definition unpin_path :: "js_string \<Rightarrow> harness \<Rightarrow> harness" where
  "unpin_path p h = h\<lparr>h_cache := unpin p (h_cache h)\<rparr>"

subsection \<open>The memory model\<close>

definition split_model :: "js_string \<Rightarrow> (js_string \<times> js_string) option" where
  "split_model env =
     (let provider = takeWhile (\<lambda>c. c \<noteq> slash) env; rest = drop (length provider + 1) env
      in if provider \<noteq> [] \<and> rest \<noteq> [] then Some (provider, rest) else None)"

definition resolveMemoryModelConfig :: "harness_options \<Rightarrow> (js_string \<times> js_string) option" where
  "resolveMemoryModelConfig cfg =
     (case o_env_model cfg of
        Some (c # env) \<Rightarrow> split_model (c # env)
      | _ \<Rightarrow>
          (case Option.bind (o_models_json cfg) (\<lambda>v. case v of JObj kvs \<Rightarrow> json_field kvs ''memoryModel'' | _ \<Rightarrow> None) of
             Some (JObj m) \<Rightarrow>
               (case (json_field m ''providerId'', json_field m ''modelId'') of
                  (Some (JStr p), Some (JStr i)) \<Rightarrow> Some (p, i)
                | _ \<Rightarrow> None)
           | _ \<Rightarrow> None))"

definition memoryAutoAllowed :: "harness_options \<Rightarrow> bool" where
  "memoryAutoAllowed cfg \<longleftrightarrow> o_memoryDeps cfg \<noteq> None \<or> resolveMemoryModelConfig cfg \<noteq> None"

definition memoryDeps :: "harness_options \<Rightarrow> harness \<Rightarrow> memory_deps option" where
  "memoryDeps cfg h =
     (case o_memoryDeps cfg of
        Some deps \<Rightarrow> Some deps
      | None \<Rightarrow>
          (case (h_registry h, h_model h) of
             (Some reg, Some current) \<Rightarrow>
               (case reg_complete reg of
                  None \<Rightarrow> None
                | Some compl \<Rightarrow>
                    (case resolveMemoryModelConfig cfg of
                       Some (p, i) \<Rightarrow>
                         (case Option.bind (reg_find reg) (\<lambda>look. look p i) of
                            Some m \<Rightarrow> Some \<lparr>dep_complete = compl, dep_model = Some m, dep_maxTokens = Some 1024\<rparr>
                          | None \<Rightarrow> None)
                     | None \<Rightarrow> Some \<lparr>dep_complete = compl, dep_model = Some current, dep_maxTokens = None\<rparr>))
           | _ \<Rightarrow> None))"

subsection \<open>Changes of mounted files\<close>

text \<open>\<open>Math.max(8, Math.round(totalLines * 0.1))\<close>\<close>

definition changeThreshold :: "nat \<Rightarrow> nat" where
  "changeThreshold total_lines = max 8 ((total_lines + 5) div 10)"

definition segment_lines :: "js_string list \<Rightarrow> line_range \<Rightarrow> js_string list" where
  "segment_lines ls r = js_slice (rstart r - 1) (Some (rend r)) ls"

definition changed_in_segment :: "js_string list \<Rightarrow> js_string list \<Rightarrow> line_range \<Rightarrow> enat" where
  "changed_in_segment oldLines newLines seg =
     (case clamp seg (int (length newLines)) of
        None \<Rightarrow> enat (nat (rend seg - rstart seg + 1))
      | Some c \<Rightarrow> countChangedLines (segment_lines oldLines seg) (segment_lines newLines c))"

definition changedLinesOf :: "plugin \<Rightarrow> js_string list option \<Rightarrow> js_string list \<Rightarrow> enat option" where
  "changedLinesOf p oldLines newLines =
     map_option (\<lambda>ls. sum_list (map (changed_in_segment ls newLines) (segments (metadata p)))) oldLines"

definition pluginIdOf :: "js_string \<Rightarrow> js_string" where
  "pluginIdOf p = js ''source:file:'' @ p"

definition deleted_reason :: js_string where
  "deleted_reason = [0x6587, 0x4ef6, 0x5df2, 0x5220, 0x9664, 0xff0c, 0x6302, 0x8f7d, 0x5931, 0x6548]"

text \<open>A number of lines in a message; \<open>Infinity\<close> prints as such.\<close>

definition print_lines :: "enat \<Rightarrow> js_string" where
  "print_lines n = (case n of enat k \<Rightarrow> decimal k | \<infinity> \<Rightarrow> js ''Infinity'')"

definition changed_reason :: "enat \<Rightarrow> js_string" where
  "changed_reason n = [0x6587, 0x4ef6, 0x5927, 0x6539, 0xff08] @ print_lines n @ js '' '' @ [0x884c, 0xff09, 0xff0c, 0x6302, 0x8f7d, 0x5df2, 0x5931, 0x6548, 0xff0c, 0x8bf7, 0x91cd, 0x65b0] @ js '' read''"

definition or_zero :: "enat option \<Rightarrow> enat" where
  "or_zero x = (case x of None \<Rightarrow> 0 | Some n \<Rightarrow> n)"

definition retire :: "js_string \<Rightarrow> js_string \<Rightarrow> js_string \<Rightarrow> harness \<Rightarrow> harness" where
  "retire i p why h = (remove_plugin i (unpin_path p h))\<lparr>h_retired := map_set i \<lparr>ret_absPath = p, reason = why\<rparr> (h_retired h)\<rparr>"

definition bump_generation :: "harness \<Rightarrow> harness" where
  "bump_generation h = h\<lparr>h_generation := h_generation h + 1\<rparr>"

subsection \<open>Scanning the disk\<close>

definition SCAN_FULL_LIMIT :: nat where "SCAN_FULL_LIMIT = 64"

definition SCAN_BATCH :: nat where "SCAN_BATCH = 32"

definition add_once :: "'a list \<Rightarrow> 'a \<Rightarrow> 'a list" where
  "add_once xs x = (if x \<in> set xs then xs else xs @ [x])"

definition buildScanQueue :: "harness \<Rightarrow> js_string list" where
  "buildScanQueue h =
     foldl add_once []
       (List.map_filter (\<lambda>p. case absPath (metadata p) of Some a \<Rightarrow> if a = [] then None else Some a | None \<Rightarrow> None)
          (store_all (h_store h))
        @ List.map_filter (\<lambda>(i, e). if stale e then None else absPathOf i) (h_map h))"

text \<open>The loop of a partial scan. A cursor left over from a longer queue may point past the end; the
  \<open>undefined\<close> it yields names no plugin and no entry.\<close>

fun scan_pick :: "nat \<Rightarrow> js_string list \<Rightarrow> nat \<Rightarrow> js_string list \<times> nat" where
  "scan_pick 0 queue cursor = ([], cursor)"
| "scan_pick (Suc k) queue cursor =
     (let (rest, c) = scan_pick k queue ((cursor + 1) mod length queue)
      in ((if cursor < length queue then [queue ! cursor] else []) @ rest, c))"

definition pickScanBatch :: "harness \<Rightarrow> js_string list \<times> harness" where
  "pickScanBatch h =
     (let queue = buildScanQueue h in
      if queue = [] then ([], h)
      else if length queue \<le> SCAN_FULL_LIMIT then (queue, h\<lparr>h_scanCursor := 0\<rparr>)
      else let (batch, c) = scan_pick SCAN_BATCH queue (h_scanCursor h) in (batch, h\<lparr>h_scanCursor := c\<rparr>))"

record scan_target =
  t_absPath :: js_string
  t_plugin :: "plugin option"
  t_entry :: "map_entry option"

definition scan_targets :: "harness \<Rightarrow> js_string list \<Rightarrow> scan_target list" where
  "scan_targets h batch =
     filter (\<lambda>t. t_plugin t \<noteq> None \<or> (case t_entry t of Some e \<Rightarrow> \<not> stale e | None \<Rightarrow> False))
       (map (\<lambda>p. \<lparr>t_absPath = p, t_plugin = store_get (h_store h) (pluginIdOf p),
                  t_entry = map_of (h_map h) (pluginIdOf p)\<rparr>) batch)"

fun scan_fetch :: "harness_options \<Rightarrow> disk \<Rightarrow> int \<Rightarrow> scan_target list \<Rightarrow> harness \<Rightarrow> (scan_target \<times> cache_result option) list \<times> harness" where
  "scan_fetch cfg d now [] h = ([], h)"
| "scan_fetch cfg d now (t # ts) h =
     (let (r, h') = fetch_file cfg d now (t_absPath t) h; (rs, h'') = scan_fetch cfg d now ts h'
      in ((t, r) # rs, h''))"

definition set_stale :: "js_string \<Rightarrow> map_entry \<Rightarrow> harness \<Rightarrow> harness" where
  "set_stale i e h = h\<lparr>h_map := map_set i (e\<lparr>stale := True\<rparr>) (h_map h)\<rparr>"

text \<open>A target that cannot be read: the mount is retired and the entry of the map is stale.\<close>

definition scan_missing :: "scan_target \<Rightarrow> harness \<Rightarrow> bool \<times> harness" where
  "scan_missing t h =
     (let h1 = (case t_plugin t of
                  Some p \<Rightarrow> if isSourceMeta p then bump_generation (retire (pid p) (t_absPath t) deleted_reason h) else h
                | None \<Rightarrow> h)
      in case t_entry t of
           Some e \<Rightarrow> if stale e then (False, h1) else (True, set_stale (pluginIdOf (t_absPath t)) e h1)
         | None \<Rightarrow> (False, h1))"

definition accumulated_lines :: "harness_options \<Rightarrow> plugin \<Rightarrow> js_string list option \<Rightarrow> js_string list \<Rightarrow> enat" where
  "accumulated_lines cfg p oldLines diskLines =
     (case changedLinesOf p oldLines diskLines of
        Some n \<Rightarrow> or_zero (pendingMemoryLines (metadata p)) + n
      | None \<Rightarrow>
          (case decodeFingerprint (case lineHashes (metadata p) of None \<Rightarrow> [] | Some s \<Rightarrow> s) of
             Some base \<Rightarrow> or_zero (pendingMemoryLines (metadata p))
               + enat (countDelta base (lineFingerprint (o_sha256 cfg) diskLines))
           | None \<Rightarrow> 0))"

definition remounted :: "harness_options \<Rightarrow> plugin \<Rightarrow> js_string \<Rightarrow> js_string list \<Rightarrow> enat \<Rightarrow> plugin" where
  "remounted cfg p hash diskLines n =
     p\<lparr>metadata := (metadata p)\<lparr>mhash := hash, mtotalLines := length diskLines,
         segments := clampSegments (segments (metadata p)) (length diskLines), pendingMemoryLines := Some n,
         lineHashes := Some (encodeFingerprint (lineFingerprint (o_sha256 cfg) diskLines)),
         updatedAtHashChange := False\<rparr>\<rparr>"

text \<open>The check of a mount whose file has another hash: \<open>True\<close> when it was retired and the map entry is
  not looked at.\<close>

definition scan_mount :: "harness_options \<Rightarrow> js_string \<Rightarrow> plugin \<Rightarrow> cache_result \<Rightarrow> js_string list \<Rightarrow> harness \<Rightarrow> bool \<times> harness" where
  "scan_mount cfg p plugin r diskLines h =
     (let oldLines = Option.bind (r_old r) flines;
          n = accumulated_lines cfg plugin oldLines diskLines;
          hash = fhash (r_entry r)
      in if n \<ge> enat (changeThreshold (length diskLines))
         then (True, emit cfg (EvInvalidated (pid plugin) n (mhash (metadata plugin)) hash)
                       (bump_generation (retire (pid plugin) p (changed_reason n) h)))
         else let plugin' = remounted cfg plugin hash diskLines n
              in (False, emit cfg (EvMounted (pid plugin) KUpdated hash) (persistPlugin plugin' (put_same plugin' h))))"

text \<open>The check of a map entry: whether the map changed.\<close>

definition scan_entry :: "harness_options \<Rightarrow> js_string \<Rightarrow> map_entry \<Rightarrow> js_string list \<Rightarrow> harness \<Rightarrow> harness" where
  "scan_entry cfg i e diskLines h =
     (let delta = (case decodeFingerprint (case chunks e of None \<Rightarrow> [] | Some s \<Rightarrow> s) of
                     None \<Rightarrow> length diskLines
                   | Some base \<Rightarrow> countDelta base (chunkFingerprint (o_sha256 cfg) 16 diskLines));
          n = (case pendingLines e of None \<Rightarrow> 0 | Some k \<Rightarrow> k) + int delta
      in if n \<ge> int (changeThreshold (length diskLines))
         then emit cfg (EvMapStale i n) (set_stale i e h)
         else h\<lparr>h_map := map_set i (e\<lparr>pendingLines := Some n\<rparr>) (h_map h)\<rparr>)"

definition scan_check_entry ::
  "harness_options \<Rightarrow> disk \<Rightarrow> int \<Rightarrow> scan_target \<Rightarrow> cache_result \<Rightarrow> harness \<Rightarrow> bool option \<times> harness" where
  "scan_check_entry cfg d now t r h =
     (case t_entry t of
        Some e \<Rightarrow>
          if \<not> stale e \<and> ehash e \<noteq> None \<and> ehash e \<noteq> Some (fhash (r_entry r))
          then (case entry_lines cfg d now (t_absPath t) (r_entry r) h of
                  (None, h') \<Rightarrow> (None, h')
                | (Some ls, h') \<Rightarrow> (Some True, scan_entry cfg (pluginIdOf (t_absPath t)) e ls h'))
          else (Some False, h)
      | None \<Rightarrow> (Some False, h))"

definition mount_changed :: "scan_target \<Rightarrow> cache_result \<Rightarrow> bool" where
  "mount_changed t r =
     (case t_plugin t of Some p \<Rightarrow> isSourceMeta p \<and> fhash (r_entry r) \<noteq> mhash (metadata p) | None \<Rightarrow> False)"

text \<open>One target: whether the map is dirty after it, \<open>None\<close> where reading the lines throws.\<close>

definition scan_one :: "harness_options \<Rightarrow> disk \<Rightarrow> int \<Rightarrow> scan_target \<times> cache_result option \<Rightarrow> harness \<Rightarrow> bool option \<times> harness" where
  "scan_one cfg d now tr h =
     (let t = fst tr in
      case snd tr of
        None \<Rightarrow> (let (dirty, h') = scan_missing t h in (Some dirty, h'))
      | Some r \<Rightarrow>
          if mount_changed t r
          then (case entry_lines cfg d now (t_absPath t) (r_entry r) h of
                  (None, h') \<Rightarrow> (None, h')
                | (Some ls, h') \<Rightarrow>
                    (let (retired, h'') = scan_mount cfg (t_absPath t) (the (t_plugin t)) r ls h'
                     in if retired then (Some False, h'') else scan_check_entry cfg d now t r h''))
          else scan_check_entry cfg d now t r h)"

fun scan_loop :: "harness_options \<Rightarrow> disk \<Rightarrow> int \<Rightarrow> (scan_target \<times> cache_result option) list \<Rightarrow> bool \<Rightarrow> harness \<Rightarrow> bool option \<times> harness" where
  "scan_loop cfg d now [] dirty h = (Some dirty, h)"
| "scan_loop cfg d now (tr # trs) dirty h =
     (case scan_one cfg d now tr h of
        (None, h') \<Rightarrow> (None, h')
      | (Some b, h') \<Rightarrow> scan_loop cfg d now trs (dirty \<or> b) h')"

definition save_map :: "harness \<Rightarrow> harness" where
  "save_map h = h\<lparr>h_mapFile := Some (writeProjectMapFileMerged (h_mapFile h) (h_map h))\<rparr>"

definition pin_targets :: "scan_target list \<Rightarrow> harness \<Rightarrow> harness" where
  "pin_targets ts h = foldl (\<lambda>h t. if t_plugin t \<noteq> None then pin_path (t_absPath t) h else h) h ts"

text \<open>\<open>scanDiskChanges\<close>: \<open>False\<close> when it threw.\<close>

definition scanDiskChanges :: "harness_options \<Rightarrow> disk \<Rightarrow> int \<Rightarrow> harness \<Rightarrow> bool \<times> harness" where
  "scanDiskChanges cfg d now h =
     (let (batch, h1) = pickScanBatch h;
          targets = scan_targets h1 batch;
          (results, h2) = scan_fetch cfg d now targets (pin_targets targets h1)
      in case scan_loop cfg d now results False h2 of
           (None, h3) \<Rightarrow> (False, h3)
         | (Some dirty, h3) \<Rightarrow> (True, if dirty then save_map h3 else h3))"

subsection \<open>What the model is told\<close>

definition colon :: js_string where "colon = [0xff1a]"

definition retired_line :: "retired_mount \<Rightarrow> js_string" where
  "retired_line info = js ''- '' @ ret_absPath info @ colon @ reason info"

definition changed_line :: "plugin \<Rightarrow> js_string \<Rightarrow> js_string \<Rightarrow> js_string list \<Rightarrow> js_string" where
  "changed_line p a hash ls =
     js ''- '' @ a @ [0xff08] @ formatRanges (mountedRanges p) @ [0xff09, 0xff1a, 0x5185, 0x5bb9, 0x5df2, 0x53d8, 0x5316, 0xff0c, 0x5f53, 0x524d] @ js '' hash '' @ hash @ [0xff1b, 0x5f53, 0x524d, 0x5185, 0x5bb9, 0xff1a] @ [newline] @ render p ls"

definition tracked_plugins :: "harness_options \<Rightarrow> harness \<Rightarrow> plugin list" where
  "tracked_plugins cfg h =
     sort_by (\<lambda>a b. o_localeCompare cfg (pid a) (pid b)) (filter isSourceMeta (store_all (h_store h)))"

fun delta_lines :: "harness_options \<Rightarrow> disk \<Rightarrow> int \<Rightarrow> plugin list \<Rightarrow> harness \<Rightarrow> js_string list option \<times> harness" where
  "delta_lines cfg d now [] h = (Some [], h)"
| "delta_lines cfg d now (p # ps) h =
     (let a = the (absPath (metadata p)) in
      case map_of (h_anchors h) (pid p) of
        None \<Rightarrow> delta_lines cfg d now ps h
      | Some anchor \<Rightarrow>
          (case fetch_file cfg d now a h of
             (None, h1) \<Rightarrow>
               (let (rest, h2) = delta_lines cfg d now ps h1
                in (map_option ((#) (js ''- '' @ a @ colon @ deleted_reason)) rest, h2))
           | (Some r, h1) \<Rightarrow>
               if fhash (r_entry r) = anchor then delta_lines cfg d now ps h1
               else (case entry_lines cfg d now a (r_entry r) h1 of
                       (None, h2) \<Rightarrow> (None, h2)
                     | (Some ls, h2) \<Rightarrow>
                         (let (rest, h3) = delta_lines cfg d now ps h2
                          in (map_option ((#) (changed_line p a (fhash (r_entry r)) ls)) rest, h3)))))"

definition retired_lines :: "harness_options \<Rightarrow> harness \<Rightarrow> js_string list" where
  "retired_lines cfg h =
     map (retired_line \<circ> snd) (sort_by (\<lambda>a b. o_localeCompare cfg (fst a) (fst b)) (h_retired h))"

definition buildMountDelta :: "harness_options \<Rightarrow> disk \<Rightarrow> int \<Rightarrow> harness \<Rightarrow> js_string option \<times> harness" where
  "buildMountDelta cfg d now h =
     (case delta_lines cfg d now (tracked_plugins cfg h) h of
        (None, h') \<Rightarrow> (None, h')
      | (Some changes, h') \<Rightarrow>
          let entries = retired_lines cfg h @ changes
          in (Some (if entries = [] then [] else js ''[piwpi '' @ [0x6302, 0x8f7d, 0x66f4, 0x65b0] @ js '']'' @ [newline] @ join [newline] entries), h'))"

definition append_text :: "js_string \<Rightarrow> message_content \<Rightarrow> message_content" where
  "append_text delta c =
     (case c of
        ContentString s \<Rightarrow> ContentString (s @ [newline, newline] @ delta)
      | ContentBlocks bs \<Rightarrow> ContentBlocks (bs @ [TextContent delta]))"

text \<open>A message with the text appended; a message without \<open>content\<close> stays as it is.\<close>

fun append_delta :: "js_string \<Rightarrow> agent_message \<Rightarrow> agent_message" where
  "append_delta delta (UserMessage c ts) = UserMessage (append_text delta c) ts"
| "append_delta delta (AssistantMessage a) = AssistantMessage (a\<lparr>a_content := a_content a @ [TextBlock delta]\<rparr>)"
| "append_delta delta (ToolResultMessage i n bs err ts) = ToolResultMessage i n (bs @ [TextContent delta]) err ts"
| "append_delta delta (CustomMessage t c disp det ts) = CustomMessage t (append_text delta c) disp det ts"
| "append_delta delta m = m"

definition appendDeltaToLast :: "agent_message list \<Rightarrow> js_string \<Rightarrow> agent_message list" where
  "appendDeltaToLast messages delta =
     (if messages = [] then messages else butlast messages @ [append_delta delta (last messages)])"

subsection \<open>Summaries of messages\<close>

text \<open>The texts of an array content; a string content is not an array.\<close>

fun message_texts :: "agent_message \<Rightarrow> js_string list" where
  "message_texts (UserMessage (ContentBlocks bs) _) = block_texts bs"
| "message_texts (AssistantMessage a) = assistant_texts (a_content a)"
| "message_texts (ToolResultMessage _ _ bs _ _) = block_texts bs"
| "message_texts (CustomMessage _ (ContentBlocks bs) _ _ _) = block_texts bs"
| "message_texts _ = []"

definition role_name :: "role \<Rightarrow> js_string" where
  "role_name r = js (case r of User \<Rightarrow> ''user'' | Assistant \<Rightarrow> ''assistant'' | ToolResult \<Rightarrow> ''toolResult''
     | BashExecution \<Rightarrow> ''bashExecution'' | CustomRole \<Rightarrow> ''custom'' | BranchSummaryRole \<Rightarrow> ''branchSummary''
     | CompactionSummaryRole \<Rightarrow> ''compactionSummary'')"

definition has_image :: "text_block list \<Rightarrow> bool" where
  "has_image bs = list_ex (\<lambda>b. case b of ImageContent _ _ \<Rightarrow> True | _ \<Rightarrow> False) bs"

fun message_has_image :: "agent_message \<Rightarrow> bool" where
  "message_has_image (UserMessage (ContentBlocks bs) _) = has_image bs"
| "message_has_image (ToolResultMessage _ _ bs _ _) = has_image bs"
| "message_has_image (CustomMessage _ (ContentBlocks bs) _ _ _) = has_image bs"
| "message_has_image _ = False"

definition MAX_CONTEXT_TEXT :: nat where "MAX_CONTEXT_TEXT = 300"

definition toDebugSummary :: "agent_message \<Rightarrow> message_summary" where
  "toDebugSummary m =
     \<lparr>sum_role = role_name (message_role m),
      sum_toolCallId = (case m of ToolResultMessage i _ _ _ _ \<Rightarrow> Some i | _ \<Rightarrow> None),
      sum_hasImage = message_has_image m,
      sum_text = take MAX_CONTEXT_TEXT (join [newline] (message_texts m))\<rparr>"

definition snapshot_of :: "agent_message list \<Rightarrow> context_snapshot" where
  "snapshot_of ms = \<lparr>messageCount = length ms,
     toolResultCount = length (filter (\<lambda>m. message_role m = ToolResult) ms), summaries = map toDebugSummary ms\<rparr>"

text \<open>The last user message, when its content is an array.\<close>

definition last_user_text :: "js_string \<Rightarrow> agent_message list \<Rightarrow> js_string" where
  "last_user_text old ms =
     (case List.find (\<lambda>m. message_role m = User) (rev ms) of
        Some (UserMessage (ContentBlocks bs) _) \<Rightarrow> take 2000 (join (js '' '') (block_texts bs))
      | _ \<Rightarrow> old)"

definition dialogue_part :: "agent_message \<Rightarrow> js_string option" where
  "dialogue_part m =
     (if message_role m = ToolResult then
        Some (js ''[toolResult] '' @
          take 200 (case List.find (\<lambda>l. trim l \<noteq> []) (split_on newline (join [newline] (message_texts m))) of
                      None \<Rightarrow> [0xff08, 0x65e0, 0x6587, 0x672c, 0xff09] | Some l \<Rightarrow> l))
      else if message_texts m \<noteq> [] then
        Some (js ''['' @ role_name (message_role m) @ js ''] '' @ take 600 (join (js '' '') (message_texts m)))
      else None)"

definition dialogue_of :: "agent_message list \<Rightarrow> js_string" where
  "dialogue_of ms = take 4000 (join [newline] (List.map_filter dialogue_part (drop (length ms - 6) ms)))"

end
