(* ===== verification/HarnessEvents.thy ===== *)
theory HarnessEvents
  imports Harness
begin

text \<open>
  The handlers of the harness: \<open>onToolCall\<close>, \<open>onToolResult\<close>, \<open>onContext\<close>, \<open>onSessionStart\<close>,
  \<open>onAgentSettled\<close>, \<open>shutdown\<close> and the memory batch. A handler takes the disk and the time it sees and
  gives its answer with the new state.
\<close>

subsection \<open>A read is called\<close>

datatype adapter = ReadSource | Unimplemented

definition adapter_registry :: "js_string \<Rightarrow> adapter option" where
  "adapter_registry tool =
     (if tool = js ''read'' then Some ReadSource
      else if tool = js ''bash'' \<or> tool = js ''websearch'' then Some Unimplemented else None)"

definition set_pending :: "js_string \<Rightarrow> pending_call \<Rightarrow> harness \<Rightarrow> harness" where
  "set_pending callId pc h = h\<lparr>h_pending := map_set callId pc (h_pending h)\<rparr>"

definition onToolCall ::
  "harness_options \<Rightarrow> disk \<Rightarrow> int \<Rightarrow> host_context \<Rightarrow> js_string \<Rightarrow> js_string \<Rightarrow> read_input \<Rightarrow> harness \<Rightarrow> read_input \<times> harness" where
  "onToolCall cfg d now ctx tool callId input h =
     (let h0 = rememberCtx ctx h; path = (case in_path input of None \<Rightarrow> [] | Some p \<Rightarrow> p) in
      if tool \<noteq> js ''read'' \<or> adapter_registry tool \<noteq> Some ReadSource \<or> path = [] then (input, h0)
      else let a = resolveAbsPath (o_host cfg) path (c_cwd ctx) in
        case fetch_file cfg d now a h0 of
          (None, h1) \<Rightarrow> (input, h1)
        | (Some r, h1) \<Rightarrow>
            let hash = fhash (r_entry r); ident = identify (o_host cfg) input (c_cwd ctx); i = js ''source:'' @ ident in
            if ident = [] then (input, h1)
            else case Option.bind (store_get (h_store h1) i) (\<lambda>p. if isSourceMeta p then Some p else None) of
              Some existing \<Rightarrow>
                if mhash (metadata existing) = hash then
                  (let want = rangeFromInput input (totalLines (r_entry r)) in
                   if rstart want > int (totalLines (r_entry r)) then (input, h1)
                   else case subtract (mountedRanges existing) want of
                     [] \<Rightarrow> (input, emit cfg (EvToolCall i KNoop) (set_pending callId (PNoop i) h1))
                   | m # _ \<Rightarrow>
                       (input\<lparr>in_offset := Some (rstart m), in_limit := Some (rend m - rstart m + 1)\<rparr>,
                        emit cfg (EvToolCall i KIncrement) (set_pending callId (PIncrement i hash) h1)))
                else (input, emit cfg (EvToolCall i KUpdated)
                        (set_pending callId (PUpdated i hash (mhash (metadata existing)) (Option.bind (r_old r) flines)) h1))
            | None \<Rightarrow> (input, emit cfg (EvToolCall i KNew) (set_pending callId (PNew i a hash) h1)))"

subsection \<open>A read has returned\<close>

record truncation_info =
  outputLines :: int
  firstLineExceedsLimit :: bool

record tool_result_event =
  tr_tool :: js_string
  tr_callId :: js_string
  tr_input :: read_input
  tr_content :: "text_block list"
  tr_isError :: bool
  tr_truncation :: "truncation_info option"

text \<open>The lines that the read returned.\<close>

definition got_range :: "read_input \<Rightarrow> truncation_info option \<Rightarrow> nat \<Rightarrow> line_range option" where
  "got_range input truncation total_lines =
     (let startLine = max 1 (case in_offset input of None \<Rightarrow> 1 | Some k \<Rightarrow> k);
          gotEnd = (case truncation of
              Some t \<Rightarrow> startLine + outputLines t - 1
            | None \<Rightarrow>
                (case in_limit input of
                   Some l \<Rightarrow> startLine + min (max 0 l) (int total_lines - startLine + 1) - 1
                 | None \<Rightarrow> int total_lines))
      in if gotEnd < startLine then None else Some (mk_range startLine gotEnd))"

definition currentLines ::
  "harness_options \<Rightarrow> disk \<Rightarrow> int \<Rightarrow> js_string \<Rightarrow> js_string \<Rightarrow> harness \<Rightarrow> js_string list option \<times> harness" where
  "currentLines cfg d now a expectHash h =
     (case fetch_file cfg d now a h of
        (None, h1) \<Rightarrow> (None, h1)
      | (Some r, h1) \<Rightarrow>
          if fhash (r_entry r) \<noteq> expectHash then (None, h1) else entry_lines cfg d now a (r_entry r) h1)"

definition source_path :: "plugin \<Rightarrow> js_string" where
  "source_path p = the (absPath (metadata p))"

definition noop_text :: "plugin \<Rightarrow> js_string" where
  "noop_text p = js ''[piwpi: '' @ identity p @ js '' '' @ [0x5185, 0x5bb9, 0x65e0, 0x53d8, 0x5316, 0xff08] @ formatRanges (mountedRanges p) @ js '' '' @ [0x5df2, 0x6302, 0x8f7d, 0x4e8e, 0x4e0a, 0x6587, 0xff09, 0xff0c, 0x4e0d, 0x91cd, 0x590d, 0x6302, 0x8f7d] @ js '']''"

definition increment_text :: "plugin \<Rightarrow> line_range \<Rightarrow> js_string list \<Rightarrow> js_string" where
  "increment_text p got ls =
     js ''[piwpi: '' @ identity p @ js '' '' @ [0x5df2, 0x6302, 0x8f7d] @ js '' '' @ formatRanges (mountedRanges p) @ [0xff0c, 0x672c, 0x6b21, 0x65b0, 0x589e] @ js '' '' @ formatRange got @ js '']''
     @ [newline, newline] @ sliceText ls got"

definition updated_text :: "plugin \<Rightarrow> line_range \<Rightarrow> js_string list \<Rightarrow> js_string" where
  "updated_text p got ls =
     js ''[piwpi: '' @ identity p @ js '' '' @ [0x5185, 0x5bb9, 0x5df2, 0x53d8, 0x5316, 0xff0c, 0x63d2, 0x4ef6, 0x5df2, 0x91cd, 0x6302, 0x8f7d] @ js '' '' @ formatRanges (mountedRanges p) @ js '']''
     @ [newline, newline] @ sliceText ls got"

definition invalidated_text :: "plugin \<Rightarrow> enat \<Rightarrow> js_string" where
  "invalidated_text p n = js ''[piwpi: '' @ identity p @ js '' '' @ [0x6587, 0x4ef6, 0x5927, 0x6539, 0xff08] @ print_lines n @ js '' '' @ [0x884c, 0xff09, 0xff0c, 0x6302, 0x8f7d, 0x5df2, 0x5931, 0x6548, 0xff0c, 0x8bf7, 0x91cd, 0x65b0] @ js '' read]''"

definition set_anchor :: "js_string \<Rightarrow> js_string \<Rightarrow> harness \<Rightarrow> harness" where
  "set_anchor i hash h = h\<lparr>h_anchors := map_set i hash (h_anchors h)\<rparr>"

definition facts_of :: "js_string \<Rightarrow> js_string \<Rightarrow> nat \<Rightarrow> js_string \<Rightarrow> line_range \<Rightarrow> ingest_mode \<Rightarrow> ingest_facts" where
  "facts_of a hash total_lines anchor got mode =
     \<lparr>f_absPath = a, f_hash = hash, f_totalLines = total_lines, f_anchor = anchor, f_got = got, f_mode = mode\<rparr>"

text \<open>An increment: also of a \<open>new\<close> whose file was mounted in the meantime.\<close>

definition mount_increment ::
  "harness_options \<Rightarrow> disk \<Rightarrow> int \<Rightarrow> plugin \<Rightarrow> js_string \<Rightarrow> line_range \<Rightarrow> harness \<Rightarrow> js_string option \<times> harness" where
  "mount_increment cfg d now existing hash got h =
     (case currentLines cfg d now (source_path existing) hash h of
        (None, h1) \<Rightarrow> (None, h1)
      | (Some ls, h1) \<Rightarrow>
          let p = ingest (o_host cfg) (facts_of (source_path existing) hash (length ls)
                    (anchorToolCallId (metadata existing)) got ModeIncrement) (Some existing)
          in (Some (increment_text p got ls),
              emit cfg (EvMounted (pid p) KIncrement hash)
                (put_new p (set_anchor (pid p) hash (pin_path (source_path existing) h1)))))"

definition pendingStats :: "harness \<Rightarrow> nat \<times> nat" where
  "pendingStats h =
     (let ps = filter (\<lambda>p. isSourceMeta p \<and> memoryState (metadata p) = Some MemPending) (store_all (h_store h))
      in (length ps, sum_list (map (mtotalLines \<circ> metadata) ps)))"

text \<open>Starting a batch when enough is pending; the number of files that suffices starts over.\<close>

definition batch_due :: "harness_options \<Rightarrow> harness \<Rightarrow> bool" where
  "batch_due cfg h \<longleftrightarrow> fst (pendingStats h) \<ge> h_filesLeft h \<or> snd (pendingStats h) \<ge> o_memoryBatchLines cfg"

definition queue_batch :: "harness \<Rightarrow> harness" where
  "queue_batch h = h\<lparr>h_queue := enqueueTask 0 (h_queue h)\<rparr>"

definition mount_new ::
  "harness_options \<Rightarrow> disk \<Rightarrow> int \<Rightarrow> js_string \<Rightarrow> js_string \<Rightarrow> js_string \<Rightarrow> cache_entry \<Rightarrow> line_range \<Rightarrow> harness
     \<Rightarrow> js_string option \<times> harness" where
  "mount_new cfg d now callId a hash entry got h =
     (let p0 = ingest (o_host cfg) (facts_of a hash (totalLines entry) callId got ModeNew) None in
      case entry_lines cfg d now a entry h of
        (None, h1) \<Rightarrow> (None, h1)
      | (Some ls, h1) \<Rightarrow>
          let p = p0\<lparr>metadata := (metadata p0)\<lparr>memoryState := Some MemPending,
                    lineHashes := Some (encodeFingerprint (lineFingerprint (o_sha256 cfg) ls))\<rparr>\<rparr>;
              h2 = set_anchor (pid p) hash (pin_path a h1);
              h3 = persistPlugin p (put_new p (h2\<lparr>h_retired := map_delete (pid p) (h_retired h2)\<rparr>));
              h4 = emit cfg (EvMemoryQueued (pid p) (fst (pendingStats h3)) (snd (pendingStats h3)))
                     (emit cfg (EvMounted (pid p) KNew hash) h3);
              h5 = (if batch_due cfg h4
                    then let h' = h4\<lparr>h_filesLeft := o_memoryBatchFiles cfg\<rparr>
                         in if \<not> h_shuttingDown h' \<and> memoryAutoAllowed cfg then queue_batch h' else h'
                    else h4)
          in (None, h5))"

definition mount_updated ::
  "harness_options \<Rightarrow> disk \<Rightarrow> int \<Rightarrow> plugin \<Rightarrow> js_string \<Rightarrow> js_string \<Rightarrow> js_string list option \<Rightarrow> line_range \<Rightarrow> harness
     \<Rightarrow> js_string option \<times> harness" where
  "mount_updated cfg d now existing hash oldHash oldLines got h =
     (case currentLines cfg d now (source_path existing) hash h of
        (None, h1) \<Rightarrow> (None, h1)
      | (Some ls, h1) \<Rightarrow>
          let changed = changedLinesOf existing oldLines ls;
              n = (case changed of None \<Rightarrow> 0 | Some c \<Rightarrow> or_zero (pendingMemoryLines (metadata existing)) + c);
              p0 = ingest (o_host cfg) (facts_of (source_path existing) hash (length ls)
                     (anchorToolCallId (metadata existing)) got ModeUpdated) (Some existing)
          in if changed \<noteq> None \<and> n \<ge> enat (changeThreshold (length ls))
             then (Some (invalidated_text p0 n),
                   emit cfg (EvInvalidated (pid p0) n oldHash hash)
                     (retire (pid p0) (source_path existing) (changed_reason n) h1))
             else let p = p0\<lparr>metadata := (metadata p0)\<lparr>pendingMemoryLines := Some n,
                            lineHashes := Some (encodeFingerprint (lineFingerprint (o_sha256 cfg) ls))\<rparr>\<rparr>
                  in (Some (updated_text p got ls),
                      emit cfg (EvMounted (pid p) KUpdated hash)
                        (persistPlugin p (put_new p (pin_path (source_path existing) h1)))))"

fun pending_id :: "pending_call \<Rightarrow> js_string" where
  "pending_id (PNoop i) = i"
| "pending_id (PIncrement i _) = i"
| "pending_id (PUpdated i _ _ _) = i"
| "pending_id (PNew i _ _) = i"

definition source_plugin :: "harness \<Rightarrow> js_string \<Rightarrow> plugin option" where
  "source_plugin h i =
     (case store_get (h_store h) i of Some p \<Rightarrow> if isSourceMeta p then Some p else None | None \<Rightarrow> None)"

text \<open>The path that the returned lines are counted on.\<close>

definition result_path :: "harness \<Rightarrow> pending_call \<Rightarrow> js_string option" where
  "result_path h pc =
     (case pc of PNew _ a _ \<Rightarrow> if a = [] then None else Some a
      | _ \<Rightarrow> (case source_plugin h (pending_id pc) of
                Some p \<Rightarrow> if source_path p = [] then None else Some (source_path p) | None \<Rightarrow> None))"

definition serve_result ::
  "harness_options \<Rightarrow> disk \<Rightarrow> int \<Rightarrow> tool_result_event \<Rightarrow> pending_call \<Rightarrow> harness \<Rightarrow> js_string option \<times> harness" where
  "serve_result cfg d now ev pc h =
     (if (case tr_truncation ev of Some t \<Rightarrow> firstLineExceedsLimit t | None \<Rightarrow> False) then (None, h)
      else case result_path h pc of
        None \<Rightarrow> (None, h)
      | Some a \<Rightarrow>
          (case fetch_file cfg d now a h of
             (None, h1) \<Rightarrow> (None, h1)
           | (Some r, h1) \<Rightarrow>
               (case got_range (tr_input ev) (tr_truncation ev) (totalLines (r_entry r)) of
                  None \<Rightarrow> (None, h1)
                | Some got \<Rightarrow>
                    (case pc of
                       PNoop i \<Rightarrow> (None, h1)
                     | PNew i a' hash \<Rightarrow>
                         (case source_plugin h1 i of
                            Some existing \<Rightarrow> mount_increment cfg d now existing hash got h1
                          | None \<Rightarrow> mount_new cfg d now (tr_callId ev) a' hash (r_entry r) got h1)
                     | PIncrement i hash \<Rightarrow>
                         (case source_plugin h1 i of
                            Some existing \<Rightarrow> mount_increment cfg d now existing hash got h1
                          | None \<Rightarrow> (None, h1))
                     | PUpdated i hash oldHash oldLines \<Rightarrow>
                         (case source_plugin h1 i of
                            Some existing \<Rightarrow> mount_updated cfg d now existing hash oldHash oldLines got h1
                          | None \<Rightarrow> (None, h1))))))"

definition onToolResult ::
  "harness_options \<Rightarrow> disk \<Rightarrow> int \<Rightarrow> tool_result_event \<Rightarrow> harness \<Rightarrow> js_string option \<times> harness" where
  "onToolResult cfg d now ev h =
     (if tr_tool ev \<noteq> js ''read'' then (None, h)
      else case map_of (h_pending h) (tr_callId ev) of
        None \<Rightarrow> (None, h)
      | Some pc \<Rightarrow>
          let h1 = h\<lparr>h_pending := map_delete (tr_callId ev) (h_pending h)\<rparr> in
          if tr_isError ev \<or> has_image (tr_content ev) \<or> tr_content ev = [] then (None, h1)
          else case pc of
            PNoop i \<Rightarrow>
              (case store_get (h_store h1) i of
                 None \<Rightarrow> (None, h1)
               | Some p \<Rightarrow> (Some (noop_text p), emit cfg (EvNoop i (formatRanges (mountedRanges p))) h1))
          | _ \<Rightarrow> serve_result cfg d now ev pc h1)"

subsection \<open>A request to the model\<close>

definition onContext ::
  "harness_options \<Rightarrow> disk \<Rightarrow> int \<Rightarrow> host_context \<Rightarrow> agent_message list \<Rightarrow> harness \<Rightarrow> agent_message list option \<times> harness" where
  "onContext cfg d now ctx messages h =
     (let h0 = rememberCtx ctx h;
          (returned, h1) = (if h_scanPending h0 then scanDiskChanges cfg d now (h0\<lparr>h_scanPending := False\<rparr>) else (True, h0))
      in if \<not> returned then (None, h1)
         else let h2 = h1\<lparr>h_lastUserText := last_user_text (h_lastUserText h1) messages,
                          h_recentDialogue := dialogue_of messages\<rparr>
              in case buildMountDelta cfg d now h2 of
                   (None, h3) \<Rightarrow> (None, h3)
                 | (Some delta, h3) \<Rightarrow>
                     let h4 = (if o_onEvent cfg
                               then emit cfg (EvContext (length messages) (toolResultCount (snapshot_of messages)))
                                      (h3\<lparr>h_lastContext := Some (snapshot_of messages)\<rparr>)
                               else h3\<lparr>h_lastContext := None\<rparr>)
                     in (if delta = [] then None else Some (appendDeltaToLast messages delta), h4))"

subsection \<open>Sessions\<close>

text \<open>The entries of the session that matter here: the plugins written as custom entries, and messages.\<close>

datatype host_entry = PluginEntry plugin | MessageEntry agent_message | OtherEntry

definition restoreFromEntries :: "host_entry list \<Rightarrow> plugin list" where
  "restoreFromEntries entries = List.map_filter (\<lambda>e. case e of PluginEntry p \<Rightarrow> Some p | _ \<Rightarrow> None) entries"

definition restore_one :: "harness \<Rightarrow> plugin \<Rightarrow> harness" where
  "restore_one h raw =
     (case absPath (metadata raw) of
        None \<Rightarrow> h
      | Some a \<Rightarrow> if a = [] then h
          else set_anchor (pid raw) (mhash (metadata raw)) (put_new raw (pin_path a h)))"

definition restorePlugins :: "harness_options \<Rightarrow> host_entry list \<Rightarrow> harness \<Rightarrow> harness" where
  "restorePlugins cfg entries h =
     (let h' = foldl restore_one h (restoreFromEntries entries)
      in emit cfg (EvRestore (length (store_all (h_store h')))) h')"

definition restoreContextFromEntries :: "host_entry list \<Rightarrow> harness \<Rightarrow> harness" where
  "restoreContextFromEntries entries h =
     (let ms = List.map_filter (\<lambda>e. case e of MessageEntry m \<Rightarrow> Some m | _ \<Rightarrow> None) entries
      in if ms = [] then h else h\<lparr>h_lastContext := Some (snapshot_of ms)\<rparr>)"

definition onSessionStart :: "harness_options \<Rightarrow> host_context \<Rightarrow> bool \<Rightarrow> host_entry list \<Rightarrow> harness \<Rightarrow> harness" where
  "onSessionStart cfg ctx is_resume entries h =
     (let h1 = (bump_generation (rememberCtx ctx h))\<lparr>h_scanPending := True\<rparr>;
          h2 = (if h_mapLoaded h1 then h1
                else h1\<lparr>h_mapLoaded := True, h_map := map_load (h_mapFile h1) (h_map h1)\<rparr>);
          h3 = (if is_resume then restoreContextFromEntries entries (restorePlugins cfg entries h2) else h2)
      in emit cfg EvSessionStart h3)"

definition onAgentSettled :: "harness_options \<Rightarrow> harness \<Rightarrow> harness" where
  "onAgentSettled cfg h =
     (let h1 = h\<lparr>h_scanPending := True\<rparr> in
      if h_shuttingDown h1 \<or> \<not> memoryAutoAllowed cfg then h1
      else let h2 = (if h_filesLeft h1 > 1 then h1\<lparr>h_filesLeft := h_filesLeft h1 - 1\<rparr> else h1)
           in if batch_due cfg h2 then queue_batch (h2\<lparr>h_filesLeft := o_memoryBatchFiles cfg\<rparr>) else h2)"

text \<open>\<open>shutdown\<close>, before and after it waits for the queue.\<close>

definition shutdown_begin :: "harness \<Rightarrow> harness" where
  "shutdown_begin h = h\<lparr>h_shuttingDown := True, h_queue := cancelPending (h_queue h)\<rparr>"

definition shutdown_end :: "harness_options \<Rightarrow> bool \<Rightarrow> harness \<Rightarrow> harness" where
  "shutdown_end cfg timed_out h =
     (let h1 = (if timed_out then h\<lparr>h_queue := flush_timeout (h_queue h)\<rparr> else h)
      in emit cfg EvShutdown (if h_map h1 = [] then h1 else save_map h1))"

definition projectMapTree :: "harness_options \<Rightarrow> harness \<Rightarrow> js_string" where
  "projectMapTree cfg h = renderTree (o_localeCompare cfg) (h_cwd h) (h_map h)"

record live_content =
  lc_hash :: js_string
  lc_totalLines :: nat
  lc_segments :: "(line_range \<times> js_string) list"

definition liveContent :: "harness_options \<Rightarrow> disk \<Rightarrow> int \<Rightarrow> js_string \<Rightarrow> harness \<Rightarrow> live_content option \<times> harness" where
  "liveContent cfg d now i h =
     (case source_plugin h i of
        None \<Rightarrow> (None, h)
      | Some p \<Rightarrow>
          (case fetch_file cfg d now (source_path p) h of
             (None, h1) \<Rightarrow> (None, h1)
           | (Some r, h1) \<Rightarrow>
               (case entry_lines cfg d now (source_path p) (r_entry r) h1 of
                  (None, h2) \<Rightarrow> (None, h2)
                | (Some ls, h2) \<Rightarrow>
                    (Some \<lparr>lc_hash = fhash (r_entry r), lc_totalLines = length ls,
                       lc_segments = map (\<lambda>s. (s, sliceText ls s)) (filter valid_range (segments (metadata p)))\<rparr>, h2))))"

subsection \<open>The memory batch\<close>

record batch_file =
  bf_object :: nat
  bf_plugin :: plugin
  bf_lines :: "js_string list"
  bf_hash :: js_string

record memory_batch =
  b_generation :: nat
  b_total :: nat
  b_files :: "batch_file list"
  b_output :: "project_map option"

fun batch_files :: "harness_options \<Rightarrow> disk \<Rightarrow> int \<Rightarrow> plugin list \<Rightarrow> harness \<Rightarrow> batch_file list option \<times> harness" where
  "batch_files cfg d now [] h = (Some [], h)"
| "batch_files cfg d now (p # ps) h =
     (case fetch_file cfg d now (source_path p) h of
        (None, h1) \<Rightarrow> batch_files cfg d now ps h1
      | (Some r, h1) \<Rightarrow>
          (case entry_lines cfg d now (source_path p) (r_entry r) h1 of
             (None, h2) \<Rightarrow> (None, h2)
           | (Some ls, h2) \<Rightarrow>
               (let (rest, h3) = batch_files cfg d now ps h2;
                    bf = \<lparr>bf_object = (case map_of (h_refs h) (pid p) of Some n \<Rightarrow> n | None \<Rightarrow> 0), bf_plugin = p,
                          bf_lines = ls, bf_hash = fhash (r_entry r)\<rparr>
                in (map_option ((#) bf) rest, h3))))"

definition pending_plugins :: "harness \<Rightarrow> plugin list" where
  "pending_plugins h =
     filter (\<lambda>p. memoryState (metadata p) = Some MemPending) (filter isSourceMeta (store_all (h_store h)))"

text \<open>Up to the request to the model: the batch that waits for the answer, \<open>None\<close> when there is no
  request. The answer is a function of the prompt and comes with the batch.\<close>

definition runMemoryBatch_begin :: "harness_options \<Rightarrow> disk \<Rightarrow> int \<Rightarrow> harness \<Rightarrow> memory_batch option \<times> harness" where
  "runMemoryBatch_begin cfg d now h =
     (let targets = pending_plugins h in
      if queue_signal (h_queue h) = Some True \<or> targets = [] then (None, h)
      else case Option.bind (memoryDeps cfg h) (\<lambda>deps. if dep_model deps = None then None else Some deps) of
        None \<Rightarrow> (None, emit cfg (EvMemorySkipped (length targets)) h)
      | Some deps \<Rightarrow>
          (case batch_files cfg d now targets h of
             (None, h1) \<Rightarrow> (None, h1)
           | (Some files, h1) \<Rightarrow>
               if files = [] then (None, h1)
               else (Some \<lparr>b_generation = h_generation h, b_total = length targets, b_files = files,
                        b_output = summarize (o_json_parse cfg) deps
                          (map (\<lambda>f. \<lparr>mf_plugin = bf_plugin f, mf_lines = bf_lines f\<rparr>) files)
                          (h_lastUserText h1) (h_recentDialogue h1)
                          (renderBrief (o_localeCompare cfg) (h_cwd h1) (h_map h1)) (queue_signal (h_queue h1))\<rparr>, h1)))"

text \<open>Whether the result for a file may still be written.\<close>

definition commit_file ::
  "harness_options \<Rightarrow> disk \<Rightarrow> int \<Rightarrow> nat \<Rightarrow> project_map \<Rightarrow> batch_file \<Rightarrow> harness \<Rightarrow> bool \<times> harness" where
  "commit_file cfg d now gen answer bf h =
     (let i = pid (bf_plugin bf) in
      case map_of answer i of
        None \<Rightarrow> (False, h)
      | Some entry \<Rightarrow>
          if gen \<noteq> h_generation h \<or> store_get (h_store h) i = None then (False, h)
          else let obj = (case map_of (h_objs h) (bf_object bf) of Some p \<Rightarrow> p | None \<Rightarrow> bf_plugin bf) in
            case fetch_file cfg d now (source_path obj) h of
              (None, h1) \<Rightarrow> (False, h1)
            | (Some r, h1) \<Rightarrow>
                if fhash (r_entry r) \<noteq> bf_hash bf then (False, h1)
                else let p = obj\<lparr>metadata := (metadata obj)\<lparr>memoryState := Some MemDone\<rparr>\<rparr>;
                         m = map_update i (entry\<lparr>ehash := Some (bf_hash bf),
                               chunks := Some (encodeFingerprint (chunkFingerprint (o_sha256 cfg) 16 (bf_lines bf)))\<rparr>) (h_map h1)
                     in (True, emit cfg (EvMemoryUpdated i)
                                 (persistPlugin p (put_object (bf_object bf) p (h1\<lparr>h_map := m\<rparr>)))))"

fun commit_files ::
  "harness_options \<Rightarrow> disk \<Rightarrow> int \<Rightarrow> nat \<Rightarrow> project_map \<Rightarrow> batch_file list \<Rightarrow> harness \<Rightarrow> nat \<times> harness" where
  "commit_files cfg d now gen answer [] h = (0, h)"
| "commit_files cfg d now gen answer (bf # bfs) h =
     (let (ok, h1) = commit_file cfg d now gen answer bf h; (n, h2) = commit_files cfg d now gen answer bfs h1
      in ((if ok then Suc n else n), h2))"

definition runMemoryBatch_commit :: "harness_options \<Rightarrow> disk \<Rightarrow> int \<Rightarrow> memory_batch \<Rightarrow> harness \<Rightarrow> harness" where
  "runMemoryBatch_commit cfg d now batch h =
     (if queue_signal (h_queue h) = Some True then h
      else case b_output batch of
        None \<Rightarrow> emit cfg (EvMemoryBatchDone 0 (b_total batch)) h
      | Some answer \<Rightarrow>
          let (n, h1) = commit_files cfg d now (b_generation batch) answer (b_files batch) h
          in emit cfg (EvMemoryBatchDone n (b_total batch)) (if n > 0 then save_map h1 else h1))"

end
