(* ===== verification/HarnessInvariant.thy ===== *)
theory HarnessInvariant
  imports HarnessEvents
begin

text \<open>
  The invariant of the harness: the store is a map from ids to plugins, the id of a plugin is made from
  the path of its file, the path is resolved, the mounted ranges are well formed, and the same holds of
  every plugin object a memory batch may still hold. Every handler keeps it, whatever the disk is.
\<close>

named_theorems harness_simps \<open>what the elementary operations do to the state\<close>

definition source_ranges_ok :: "line_range list \<Rightarrow> bool" where
  "source_ranges_ok rs \<longleftrightarrow> canonical rs \<and> covered rs \<subseteq> {1..}"

definition plugin_ok :: "harness_options \<Rightarrow> plugin \<Rightarrow> bool" where
  "plugin_ok cfg p \<longleftrightarrow>
     isSourceMeta p \<and> resolveAbsPath (o_host cfg) (source_path p) [] = source_path p
     \<and> pid p = pluginIdOf (source_path p) \<and> source_ranges_ok (segments (metadata p))"

text \<open>A call that is registered as new carries a resolved path and the id made from it.\<close>

definition pending_ok :: "harness_options \<Rightarrow> pending_call \<Rightarrow> bool" where
  "pending_ok cfg pc =
     (case pc of PNew i a _ \<Rightarrow> resolveAbsPath (o_host cfg) a [] = a \<and> i = pluginIdOf a | _ \<Rightarrow> True)"

definition harness_ok :: "harness_options \<Rightarrow> harness \<Rightarrow> bool" where
  "harness_ok cfg h \<longleftrightarrow>
     store_ok (h_store h) \<and> (\<forall>p \<in> set (store_all (h_store h)). plugin_ok cfg p)
     \<and> (\<forall>(n, p) \<in> set (h_objs h). plugin_ok cfg p) \<and> (\<forall>(c, pc) \<in> set (h_pending h). pending_ok cfg pc)"

lemma harness_okI:
  "store_ok (h_store h) \<Longrightarrow> (\<And>p. p \<in> set (store_all (h_store h)) \<Longrightarrow> plugin_ok cfg p)
     \<Longrightarrow> (\<And>n p. (n, p) \<in> set (h_objs h) \<Longrightarrow> plugin_ok cfg p)
     \<Longrightarrow> (\<And>c pc. (c, pc) \<in> set (h_pending h) \<Longrightarrow> pending_ok cfg pc) \<Longrightarrow> harness_ok cfg h"
  by (auto simp: harness_ok_def)

lemma harness_ok_store: "harness_ok cfg h \<Longrightarrow> store_get (h_store h) i = Some p \<Longrightarrow> plugin_ok cfg p \<and> pid p = i"
  by (metis harness_ok_def store_all_iff store_get_pid)

lemma source_plugin_ok: "harness_ok cfg h \<Longrightarrow> source_plugin h i = Some p \<Longrightarrow> plugin_ok cfg p \<and> pid p = i"
  by (auto simp: source_plugin_def dest: harness_ok_store split: option.splits if_splits)

text \<open>With it, every plugin that the harness has written to the session is well formed.\<close>

definition harness_sound :: "harness_options \<Rightarrow> harness \<Rightarrow> bool" where
  "harness_sound cfg h \<longleftrightarrow> harness_ok cfg h \<and> (\<forall>p \<in> set (h_persisted h). plugin_ok cfg p)"

lemma harness_sound_ok [dest]: "harness_sound cfg h \<Longrightarrow> harness_ok cfg h"
  by (simp add: harness_sound_def)

text \<open>The invariant only looks at the store, the objects and the calls.\<close>

lemma harness_ok_cong:
  "h_store h' = h_store h \<Longrightarrow> h_objs h' = h_objs h \<Longrightarrow> h_pending h' = h_pending h \<Longrightarrow> harness_ok cfg h' \<longleftrightarrow> harness_ok cfg h"
  by (simp add: harness_ok_def)

lemma harness_sound_cong:
  "h_store h' = h_store h \<Longrightarrow> h_objs h' = h_objs h \<Longrightarrow> h_pending h' = h_pending h \<Longrightarrow> h_persisted h' = h_persisted h
     \<Longrightarrow> harness_sound cfg h' \<longleftrightarrow> harness_sound cfg h"
  by (simp add: harness_sound_def harness_ok_def)

lemma emit_fields [harness_simps]:
  "h_store (emit cfg ev h) = h_store h" "h_objs (emit cfg ev h) = h_objs h" "h_refs (emit cfg ev h) = h_refs h"
  "h_cache (emit cfg ev h) = h_cache h" "h_map (emit cfg ev h) = h_map h" "h_anchors (emit cfg ev h) = h_anchors h"
  "h_retired (emit cfg ev h) = h_retired h" "h_queue (emit cfg ev h) = h_queue h"
  "h_generation (emit cfg ev h) = h_generation h" "h_pending (emit cfg ev h) = h_pending h"
  "h_filesLeft (emit cfg ev h) = h_filesLeft h" "h_persisted (emit cfg ev h) = h_persisted h"
  by (simp_all add: emit_def)

lemma persist_fields [harness_simps]:
  "h_store (persistPlugin p h) = h_store h" "h_objs (persistPlugin p h) = h_objs h"
  "h_refs (persistPlugin p h) = h_refs h" "h_cache (persistPlugin p h) = h_cache h"
  "h_map (persistPlugin p h) = h_map h" "h_anchors (persistPlugin p h) = h_anchors h"
  "h_retired (persistPlugin p h) = h_retired h" "h_queue (persistPlugin p h) = h_queue h"
  "h_generation (persistPlugin p h) = h_generation h" "h_pending (persistPlugin p h) = h_pending h"
  by (simp_all add: persistPlugin_def)

lemmas state_defs = pin_path_def unpin_path_def set_anchor_def set_pending_def bump_generation_def
  rememberCtx_def set_stale_def save_map_def queue_batch_def

lemma fetch_file_fields [harness_simps]:
  assumes "fetch_file cfg d now p h = (r, h')"
  shows "h' = h\<lparr>h_cache := snd (cache_get (o_hashBuffer cfg) d now p (h_cache h))\<rparr>"
  using assms by (auto simp: fetch_file_def split: prod.splits)

lemma entry_lines_fields [harness_simps]:
  assumes "entry_lines cfg d now p e h = (r, h')"
  shows "\<exists>c. h' = h\<lparr>h_cache := c\<rparr>"
proof (cases "flines e")
  case None
  with assms show ?thesis by (auto simp: entry_lines_def split: prod.splits)
next
  case (Some ls)
  with assms have "h' = h\<lparr>h_cache := h_cache h\<rparr>" by (simp add: entry_lines_def)
  then show ?thesis ..
qed

text \<open>Reading changes the cache and nothing else.\<close>

definition same_but_cache :: "harness \<Rightarrow> harness \<Rightarrow> bool" where
  "same_but_cache h h' \<longleftrightarrow> (\<exists>c. h' = h\<lparr>h_cache := c\<rparr>)"

lemma same_but_cache_refl [simp]: "same_but_cache h h"
  unfolding same_but_cache_def by (rule exI [of _ "h_cache h"]) simp

lemma same_but_cache_trans [trans]: "same_but_cache h h' \<Longrightarrow> same_but_cache h' h'' \<Longrightarrow> same_but_cache h h''"
  by (auto simp: same_but_cache_def)

lemma same_but_cache_fields:
  assumes "same_but_cache h h'"
  shows "h_store h' = h_store h" "h_objs h' = h_objs h" "h_refs h' = h_refs h" "h_map h' = h_map h"
    "h_anchors h' = h_anchors h" "h_retired h' = h_retired h" "h_queue h' = h_queue h"
    "h_generation h' = h_generation h" "h_pending h' = h_pending h" "source_plugin h' = source_plugin h"
  using assms by (auto simp: same_but_cache_def source_plugin_def fun_eq_iff)

lemma fetch_same: "fetch_file cfg d now p h = (r, h') \<Longrightarrow> same_but_cache h h'"
  unfolding same_but_cache_def by (drule fetch_file_fields) blast

lemma entry_lines_same: "entry_lines cfg d now p e h = (r, h') \<Longrightarrow> same_but_cache h h'"
  using entry_lines_fields by (simp add: same_but_cache_def)

lemma currentLines_same:
  assumes "currentLines cfg d now p hash h = (r, h')"
  shows "same_but_cache h h'"
proof -
  obtain res h1 where f: "fetch_file cfg d now p h = (res, h1)" by fastforce
  show ?thesis
  proof (cases "res = None \<or> fhash (r_entry (the res)) \<noteq> hash")
    case True
    with f assms have "h' = h1" by (auto simp: currentLines_def split: option.splits)
    with fetch_same [OF f] show ?thesis by simp
  next
    case False
    with f assms have "entry_lines cfg d now p (r_entry (the res)) h1 = (r, h')" by (auto simp: currentLines_def)
    with fetch_same [OF f] entry_lines_same same_but_cache_trans show ?thesis by blast
  qed
qed

text \<open>Storing a plugin that is well formed.\<close>

lemma put_ok:
  assumes "harness_ok cfg h" "plugin_ok cfg p"
  shows "harness_ok cfg (put_new p h)" "harness_ok cfg (put_object n p h)" "harness_ok cfg (put_same p h)"
proof -
  have st: "store_ok (store_upsert p (h_store h))" using assms(1) by (simp add: harness_ok_def)
  have all: "plugin_ok cfg q" if "q \<in> set (store_all (store_upsert p (h_store h)))" for q
    using that assms by (auto simp: store_all_iff [OF st] dest: harness_ok_store split: if_splits)
  have objs: "plugin_ok cfg q" if "(k, q) \<in> set (h_objs h)" for k q
    using that assms(1) by (auto simp: harness_ok_def)
  have calls: "pending_ok cfg pc" if "(c, pc) \<in> set (h_pending h)" for c pc
    using that assms(1) by (auto simp: harness_ok_def)
  show new: "harness_ok cfg (put_new p h)"
    using st all objs calls assms(2) by (auto simp: put_new_def intro!: harness_okI)
  show obj: "harness_ok cfg (put_object n p h)" for n
    using st all objs calls assms(2) by (auto simp: put_object_def intro!: harness_okI dest!: map_set_mem)
  show "harness_ok cfg (put_same p h)"
    using new obj by (simp add: put_same_def split: option.splits)
qed

lemma remove_ok: "harness_ok cfg h \<Longrightarrow> harness_ok cfg (remove_plugin i h)"
  by (auto simp: harness_ok_def remove_plugin_def store_all_def store_remove_def [of i] map_delete_def)
     (auto simp: harness_ok_def store_ok_def js_map_def distinct_map_filter)

lemma retire_ok: "harness_ok cfg h \<Longrightarrow> harness_ok cfg (retire i p why h)"
  using remove_ok [of cfg h i]
  by (auto simp: retire_def remove_plugin_def unpin_path_def harness_ok_def)

lemma put_sound:
  assumes "harness_sound cfg h" "plugin_ok cfg p"
  shows "harness_sound cfg (put_new p h)" "harness_sound cfg (put_object n p h)" "harness_sound cfg (put_same p h)"
proof -
  have "h_persisted (put_new p h) = h_persisted h" "h_persisted (put_object n p h) = h_persisted h"
    "h_persisted (put_same p h) = h_persisted h"
    by (simp_all add: put_new_def put_object_def put_same_def split: option.split)
  with assms put_ok [of cfg h p] show "harness_sound cfg (put_new p h)" "harness_sound cfg (put_object n p h)"
    "harness_sound cfg (put_same p h)" by (simp_all add: harness_sound_def)
qed

lemma retire_sound: "harness_sound cfg h \<Longrightarrow> harness_sound cfg (retire i p why h)"
  using retire_ok [of cfg h i] by (simp add: harness_sound_def) (simp add: retire_def remove_plugin_def unpin_path_def)

lemma persist_sound: "harness_sound cfg h \<Longrightarrow> plugin_ok cfg p \<Longrightarrow> harness_sound cfg (persistPlugin p h)"
  by (simp add: harness_sound_def harness_ok_def harness_simps) (simp add: persistPlugin_def)

subsection \<open>Plugins that are built\<close>

lemma pluginIdOf_identify: "pluginIdOf (resolveAbsPath hst p cwd) = js ''source:'' @ identifyPath hst p cwd"
  by (simp add: pluginIdOf_def identifyPath_def js_def)

lemma source_ranges_ok_merge:
  "source_ranges_ok rs \<Longrightarrow> valid_range r \<Longrightarrow> 1 \<le> rstart r \<Longrightarrow> source_ranges_ok (mergeSegments (rs @ [r]))"
  by (auto simp: source_ranges_ok_def canonical_def seg.merge_covered seg.merge_separated intro!: seg.merge_valid)

lemma source_ranges_ok_clamp:
  assumes "source_ranges_ok rs"
  shows "source_ranges_ok (clampSegments rs n)"
proof -
  have "x \<ge> 1" if "x \<in> covered (clampSegments rs n)" for x
  proof -
    from that obtain c where c: "c \<in> set (clampSegments rs n)" "x \<in> lines_of c" by (auto simp: covered_def)
    then obtain s where s: "s \<in> set rs" "rstart c = rstart s" using clampSegments_bound by blast
    then have "rstart s \<in> covered rs"
      using assms by (force simp: covered_def source_ranges_ok_def canonical_def list_all_iff valid_range_def)
    with s c assms show ?thesis by (auto simp: source_ranges_ok_def)
  qed
  with assms show ?thesis by (auto simp: source_ranges_ok_def clampSegments_canonical)
qed

lemma source_ranges_ok_updated:
  assumes "source_ranges_ok rs" "1 \<le> rstart got"
  shows "source_ranges_ok (mergeSegments (clampSegments rs n @ (if rstart got \<le> rend got \<and> rend got \<le> int n then [got] else [])))"
proof (cases "rstart got \<le> rend got \<and> rend got \<le> int n")
  case True
  then show ?thesis
    using source_ranges_ok_merge [OF source_ranges_ok_clamp [OF assms(1)]] assms(2) by (simp add: valid_range_def)
next
  case False
  have "source_ranges_ok (clampSegments rs n)" by (rule source_ranges_ok_clamp [OF assms(1)])
  with False show ?thesis by (auto simp: source_ranges_ok_def seg.merge_id)
qed

lemma ingest_plugin_ok:
  assumes "resolveAbsPath (o_host cfg) (f_absPath facts) [] = f_absPath facts" "1 \<le> rstart (f_got facts)"
    and "valid_range (f_got facts)" "f_mode facts \<noteq> ModeNoop"
    and "\<And>p. cur = Some p \<Longrightarrow> plugin_ok cfg p \<and> source_path p = f_absPath facts"
  shows "plugin_ok cfg (ingest (o_host cfg) facts cur) \<and> source_path (ingest (o_host cfg) facts cur) = f_absPath facts
     \<and> pid (ingest (o_host cfg) facts cur) = pluginIdOf (f_absPath facts)"
proof -
  define p where "p = ingest (o_host cfg) facts cur"
  have ident: "identifyPath (o_host cfg) (f_absPath facts) [] = js ''file:'' @ f_absPath facts"
    using assms(1) by (simp add: identifyPath_def)
  then have p_id: "pid p = pluginIdOf (f_absPath facts)"
    using assms(4) by (simp add: p_def ingest_def buildPlugin_def Let_def pluginIdOf_def js_def)
  have meta: "absPath (metadata p) = Some (f_absPath facts) \<and> source_ranges_ok (segments (metadata p))"
  proof (cases cur)
    case None
    then show ?thesis
      using assms(2-4)
      by (auto simp: p_def ingest_def buildPlugin_def Let_def new_meta_def source_ranges_ok_def valid_range_def)
  next
    case (Some q)
    then have q: "absPath (metadata q) = Some (f_absPath facts)" "source_ranges_ok (segments (metadata q))"
      using assms(5) [OF Some] by (auto simp: plugin_ok_def isSourceMeta_def source_path_def)
    show ?thesis
    proof (cases "f_mode facts")
      case ModeNew
      with Some show ?thesis
        using assms(2,3)
        by (auto simp: p_def ingest_def buildPlugin_def Let_def new_meta_def source_ranges_ok_def valid_range_def)
    next
      case ModeUpdated
      with Some q show ?thesis
        using source_ranges_ok_updated [OF q(2) assms(2)]
        by (simp add: p_def ingest_def buildPlugin_def Let_def updated_meta_def)
    next
      case ModeIncrement
      with Some q show ?thesis
        using source_ranges_ok_merge [OF q(2) assms(3,2)] by (simp add: p_def ingest_def buildPlugin_def Let_def)
    qed (use assms(4) in simp)
  qed
  with p_id assms(1) show ?thesis
    by (auto simp: plugin_ok_def isSourceMeta_def source_path_def p_def)
qed

lemma plugin_ok_meta:
  "plugin_ok cfg p \<Longrightarrow> absPath m = absPath (metadata p) \<Longrightarrow> source_ranges_ok (segments m) \<Longrightarrow> plugin_ok cfg (p\<lparr>metadata := m\<rparr>)"
  by (auto simp: plugin_ok_def isSourceMeta_def source_path_def)

lemma plugin_ok_path: "plugin_ok cfg p \<Longrightarrow> source_path p = a \<Longrightarrow> absPath (metadata p) = Some a"
  by (auto simp: plugin_ok_def isSourceMeta_def source_path_def)

subsection \<open>Reads\<close>

lemma got_range_ok:
  "got_range input tr n = Some got \<Longrightarrow> valid_range got \<and> 1 \<le> rstart got"
  by (auto simp: got_range_def Let_def valid_range_def split: if_splits)

lemma set_pending_ok: "harness_sound cfg h \<Longrightarrow> pending_ok cfg pc \<Longrightarrow> harness_sound cfg (set_pending c pc h)"
  by (auto simp: harness_sound_def harness_ok_def set_pending_def dest!: map_set_mem)

lemma harness_sound_emit [simp]: "harness_sound cfg (emit cfg' ev h) \<longleftrightarrow> harness_sound cfg h"
  by (rule harness_sound_cong) (simp_all add: harness_simps)

lemma harness_sound_updates [simp]:
  "harness_sound cfg (h\<lparr>h_cache := c\<rparr>) \<longleftrightarrow> harness_sound cfg h"
  "harness_sound cfg (h\<lparr>h_map := m\<rparr>) \<longleftrightarrow> harness_sound cfg h"
  "harness_sound cfg (h\<lparr>h_retired := r\<rparr>) \<longleftrightarrow> harness_sound cfg h"
  "harness_sound cfg (h\<lparr>h_filesLeft := k\<rparr>) \<longleftrightarrow> harness_sound cfg h"
  "harness_sound cfg (h\<lparr>h_scanPending := b\<rparr>) \<longleftrightarrow> harness_sound cfg h"
  "harness_sound cfg (h\<lparr>h_scanCursor := k\<rparr>) \<longleftrightarrow> harness_sound cfg h"
  "harness_sound cfg (h\<lparr>h_queue := q\<rparr>) \<longleftrightarrow> harness_sound cfg h"
  "harness_sound cfg (h\<lparr>h_lastContext := x\<rparr>) \<longleftrightarrow> harness_sound cfg h"
  by (rule harness_sound_cong; simp)+

lemma harness_sound_ops [simp]:
  "harness_sound cfg (pin_path p h) \<longleftrightarrow> harness_sound cfg h"
  "harness_sound cfg (unpin_path p h) \<longleftrightarrow> harness_sound cfg h"
  "harness_sound cfg (set_anchor i x h) \<longleftrightarrow> harness_sound cfg h"
  "harness_sound cfg (bump_generation h) \<longleftrightarrow> harness_sound cfg h"
  "harness_sound cfg (rememberCtx ctx h) \<longleftrightarrow> harness_sound cfg h"
  "harness_sound cfg (set_stale i e h) \<longleftrightarrow> harness_sound cfg h"
  "harness_sound cfg (save_map h) \<longleftrightarrow> harness_sound cfg h"
  "harness_sound cfg (queue_batch h) \<longleftrightarrow> harness_sound cfg h"
  by (rule harness_sound_cong; simp add: state_defs)+

lemma same_ok: "same_but_cache h h' \<Longrightarrow> harness_sound cfg h' \<longleftrightarrow> harness_sound cfg h"
  by (auto simp: same_but_cache_def)

lemmas fetch_file_ok = same_ok [OF fetch_same]
lemmas entry_lines_ok = same_ok [OF entry_lines_same]
lemmas currentLines_ok = same_ok [OF currentLines_same]

lemma onToolCall_ok:
  assumes "harness_sound cfg h" "onToolCall cfg d now ctx tool callId input h = (input', h')"
  shows "harness_sound cfg h'"
proof -
  define h0 where "h0 = rememberCtx ctx h"
  have h0: "harness_sound cfg h0" using assms(1) by (simp add: h0_def)
  define path where "path = (case in_path input of None \<Rightarrow> [] | Some p \<Rightarrow> p)"
  define a where "a = resolveAbsPath (o_host cfg) path (c_cwd ctx)"
  obtain r h1 where f: "fetch_file cfg d now a h0 = (r, h1)" by fastforce
  have h1: "harness_sound cfg h1" using h0 fetch_file_ok [OF f] by simp
  have new: "pending_ok cfg (PNew (js ''source:'' @ identify (o_host cfg) input (c_cwd ctx)) a x)" if "path \<noteq> []" for x
  proof -
    have "identify (o_host cfg) input (c_cwd ctx) = identifyPath (o_host cfg) path (c_cwd ctx)"
      using that by (auto simp: identify_def path_def split: option.splits)
    then show ?thesis
      by (simp add: pending_ok_def a_def resolveAbsPath_resolved pluginIdOf_identify)
  qed
  have other: "pending_ok cfg (PNoop i)" "pending_ok cfg (PIncrement i x)" "pending_ok cfg (PUpdated i x y z)" for i x y z
    by (simp_all add: pending_ok_def)
  show ?thesis
    using assms(2) h0 h1 new other f set_pending_ok [OF h1]
    unfolding onToolCall_def h0_def [symmetric] path_def [symmetric] Let_def a_def [symmetric]
    by (auto split: if_splits option.splits list.splits)
qed

lemma mount_increment_ok:
  assumes "harness_sound cfg h" "plugin_ok cfg existing" "valid_range got" "1 \<le> rstart got"
    and "mount_increment cfg d now existing hash got h = (t, h')"
  shows "harness_sound cfg h'"
proof (cases "currentLines cfg d now (source_path existing) hash h")
  case (Pair ls h1)
  then have h1: "harness_sound cfg h1" using assms(1) currentLines_ok by blast
  define facts where "facts = (\<lambda>n. facts_of (source_path existing) hash n (anchorToolCallId (metadata existing)) got ModeIncrement)"
  have "resolveAbsPath (o_host cfg) (source_path existing) [] = source_path existing"
    using assms(2) by (simp add: plugin_ok_def)
  then have "plugin_ok cfg (ingest (o_host cfg) (facts n) (Some existing))" for n
    by (intro ingest_plugin_ok [THEN conjunct1]) (use assms(2-4) in \<open>auto simp: facts_def facts_of_def\<close>)
  then have "harness_sound cfg (put_new (ingest (o_host cfg) (facts n) (Some existing)) (set_anchor i hash (pin_path (source_path existing) h1)))"
    for n i using h1 put_sound(1) [of cfg "set_anchor i hash (pin_path (source_path existing) h1)"] by simp
  with assms(5) Pair h1 show ?thesis
    by (auto simp: mount_increment_def facts_def Let_def split: option.splits)
qed

lemma mount_new_ok:
  assumes "harness_sound cfg h" "resolveAbsPath (o_host cfg) a [] = a" "valid_range got" "1 \<le> rstart got"
    and "mount_new cfg d now callId a hash entry got h = (t, h')"
  shows "harness_sound cfg h'"
proof (cases "entry_lines cfg d now a entry h")
  case (Pair ls h1)
  then have h1: "harness_sound cfg h1" using assms(1) entry_lines_ok by blast
  define p0 where "p0 = ingest (o_host cfg) (facts_of a hash (totalLines entry) callId got ModeNew) None"
  have p0: "plugin_ok cfg p0"
    unfolding p0_def by (intro ingest_plugin_ok [THEN conjunct1]) (use assms(2-4) in \<open>auto simp: facts_of_def\<close>)
  define p where "p = (\<lambda>ls. p0\<lparr>metadata := (metadata p0)\<lparr>memoryState := Some MemPending,
                    lineHashes := Some (encodeFingerprint (lineFingerprint (o_sha256 cfg) ls))\<rparr>\<rparr>)"
  have "plugin_ok cfg (p ls)" for ls
    unfolding p_def using p0 by (intro plugin_ok_meta [OF p0]) (auto simp: plugin_ok_def)
  then have put: "harness_sound cfg (persistPlugin (p ls) (put_new (p ls) (set_anchor i hash (pin_path a h1)\<lparr>h_retired := r\<rparr>)))" for ls i r
    using h1 by (intro persist_sound put_sound) simp_all
  show ?thesis
    using assms(5) h1 put unfolding mount_new_def Pair p0_def [symmetric] Let_def
    by (auto simp: p_def split: option.splits if_splits)
qed

lemma mount_updated_ok:
  assumes "harness_sound cfg h" "plugin_ok cfg existing" "valid_range got" "1 \<le> rstart got"
    and "mount_updated cfg d now existing hash oldHash oldLines got h = (t, h')"
  shows "harness_sound cfg h'"
proof (cases "currentLines cfg d now (source_path existing) hash h")
  case (Pair ls h1)
  then have h1: "harness_sound cfg h1" using assms(1) currentLines_ok by blast
  define p0 where "p0 = (\<lambda>ls :: js_string list. ingest (o_host cfg) (facts_of (source_path existing) hash (length ls)
                     (anchorToolCallId (metadata existing)) got ModeUpdated) (Some existing))"
  have "resolveAbsPath (o_host cfg) (source_path existing) [] = source_path existing"
    using assms(2) by (simp add: plugin_ok_def)
  then have p0: "plugin_ok cfg (p0 ls)" for ls
    unfolding p0_def by (intro ingest_plugin_ok [THEN conjunct1]) (use assms(2-4) in \<open>auto simp: facts_of_def\<close>)
  have "plugin_ok cfg (p0 ls\<lparr>metadata := (metadata (p0 ls))\<lparr>pendingMemoryLines := x, lineHashes := y\<rparr>\<rparr>)" for ls x y
    using p0 [of ls] by (intro plugin_ok_meta [OF p0]) (auto simp: plugin_ok_def)
  then have "harness_sound cfg (persistPlugin (p0 ls\<lparr>metadata := (metadata (p0 ls))\<lparr>pendingMemoryLines := x, lineHashes := y\<rparr>\<rparr>)
      (put_new (p0 ls\<lparr>metadata := (metadata (p0 ls))\<lparr>pendingMemoryLines := x, lineHashes := y\<rparr>\<rparr>)
      (pin_path (source_path existing) h1)))" for ls x y
    using h1 by (intro persist_sound put_sound) simp_all
  then show ?thesis
    using assms(5) h1 retire_sound [OF h1]
    unfolding mount_updated_def Pair Let_def
    by (auto simp: p0_def split: option.splits if_splits)
qed

lemma serve_result_ok:
  assumes "harness_sound cfg h" "pending_ok cfg pc" "serve_result cfg d now ev pc h = (t, h')"
  shows "harness_sound cfg h'"
proof (cases "result_path h pc")
  case None
  with assms show ?thesis by (auto simp: serve_result_def split: if_splits)
next
  case (Some a)
  obtain r h1 where f: "fetch_file cfg d now a h = (r, h1)" by fastforce
  have h1: "harness_sound cfg h1" using assms(1) fetch_file_ok [OF f] by simp
  note src = source_plugin_ok [OF harness_sound_ok [OF h1]]
  show ?thesis
  proof (cases r)
    case None
    with Some f h1 assms show ?thesis by (auto simp: serve_result_def split: if_splits)
  next
    case res: (Some e)
    show ?thesis
    proof (cases "got_range (tr_input ev) (tr_truncation ev) (totalLines (r_entry e))")
      case None
      with Some f res h1 assms show ?thesis by (auto simp: serve_result_def split: if_splits)
    next
      case got: (Some g)
      note g = got_range_ok [OF got]
      show ?thesis
        using assms h1 src g Some f res got
        by (cases pc) (auto simp: serve_result_def pending_ok_def split: if_splits option.splits
            intro: mount_increment_ok [OF h1] mount_new_ok [OF h1] mount_updated_ok [OF h1])
    qed
  qed
qed

lemma onToolResult_ok:
  assumes "harness_sound cfg h" "onToolResult cfg d now ev h = (t, h')"
  shows "harness_sound cfg h'"
proof (cases "map_of (h_pending h) (tr_callId ev)")
  case None
  with assms show ?thesis by (auto simp: onToolResult_def split: if_splits)
next
  case (Some pc)
  define h1 where "h1 = h\<lparr>h_pending := map_delete (tr_callId ev) (h_pending h)\<rparr>"
  have h1: "harness_sound cfg h1" using assms(1) by (auto simp: harness_sound_def harness_ok_def h1_def map_delete_def)
  have "pending_ok cfg pc" using Some assms(1) by (auto simp: harness_sound_def harness_ok_def dest!: map_of_SomeD)
  note serve = serve_result_ok [OF h1 this]
  show ?thesis
    using assms Some h1 serve
    unfolding onToolResult_def Let_def h1_def [symmetric]
    by (auto split: if_splits pending_call.splits option.splits)
qed

subsection \<open>Scans and requests\<close>

lemma scan_missing_ok: "harness_sound cfg h \<Longrightarrow> scan_missing t h = (b, h') \<Longrightarrow> harness_sound cfg h'"
  by (auto simp: scan_missing_def Let_def retire_sound split: option.splits if_splits)

lemma remounted_ok: "plugin_ok cfg p \<Longrightarrow> plugin_ok cfg (remounted cfg' p hash ls n)"
  unfolding remounted_def
  by (rule plugin_ok_meta) (auto simp: plugin_ok_def source_ranges_ok_clamp)

lemma scan_mount_ok:
  assumes "harness_sound cfg h" "plugin_ok cfg p" "scan_mount cfg a p r ls h = (b, h')"
  shows "harness_sound cfg h'"
proof -
  have "harness_sound cfg (persistPlugin (remounted cfg p x ls n) (put_same (remounted cfg p x ls n) h))" for x n
    using assms by (intro persist_sound put_sound remounted_ok)
  with assms(3) retire_sound [OF assms(1)] show ?thesis
    by (auto simp: scan_mount_def Let_def split: if_splits)
qed

lemma scan_entry_ok: "harness_sound cfg h \<Longrightarrow> harness_sound cfg (scan_entry cfg' i e ls h)"
  by (simp add: scan_entry_def Let_def)

lemma scan_check_entry_ok:
  assumes "harness_sound cfg h" "scan_check_entry cfg d now t r h = (b, h')"
  shows "harness_sound cfg h'"
proof -
  obtain ls h1 where l: "entry_lines cfg d now (t_absPath t) (r_entry r) h = (ls, h1)" by fastforce
  have "harness_sound cfg h1" using assms(1) entry_lines_ok [OF l] by simp
  with assms l show ?thesis
    by (auto simp: scan_check_entry_def scan_entry_ok split: option.splits if_splits)
qed

lemma scan_one_ok:
  assumes "harness_sound cfg h" "\<And>p. t_plugin (fst tr) = Some p \<Longrightarrow> plugin_ok cfg p"
    "scan_one cfg d now tr h = (b, h')"
  shows "harness_sound cfg h'"
proof (cases "snd tr")
  case None
  with assms show ?thesis by (auto simp: scan_one_def Let_def intro: scan_missing_ok split: prod.splits)
next
  case (Some r)
  obtain ls h1 where l: "entry_lines cfg d now (t_absPath (fst tr)) (r_entry r) h = (ls, h1)" by fastforce
  have h1: "harness_sound cfg h1" using assms(1) entry_lines_ok [OF l] by simp
  show ?thesis
  proof (cases "mount_changed (fst tr) r")
    case False
    with assms Some show ?thesis by (auto simp: scan_one_def Let_def intro: scan_check_entry_ok)
  next
    case True
    then obtain p where p: "t_plugin (fst tr) = Some p" by (auto simp: mount_changed_def split: option.splits)
    obtain retired h2 where m: "scan_mount cfg (t_absPath (fst tr)) p r (the ls) h1 = (retired, h2)" by fastforce
    have "harness_sound cfg h2" using scan_mount_ok [OF h1 assms(2) [OF p] m] .
    with True Some p l m h1 assms(3) show ?thesis
      by (auto simp: scan_one_def Let_def split: option.splits if_splits intro: scan_check_entry_ok)
  qed
qed

lemma scan_loop_ok:
  "harness_sound cfg h \<Longrightarrow> (\<And>tr p. tr \<in> set trs \<Longrightarrow> t_plugin (fst tr) = Some p \<Longrightarrow> plugin_ok cfg p)
     \<Longrightarrow> scan_loop cfg d now trs dirty h = (b, h') \<Longrightarrow> harness_sound cfg h'"
proof (induction cfg d now trs dirty h rule: scan_loop.induct)
  case (2 cfg d now tr trs dirty h)
  obtain x h1 where one: "scan_one cfg d now tr h = (x, h1)" by fastforce
  have h1: "harness_sound cfg h1" by (rule scan_one_ok [OF 2(2) _ one]) (use 2(3) [of tr] in simp)
  show ?case
  proof (cases x)
    case None
    with one 2(4) h1 show ?thesis by simp
  next
    case (Some y)
    have "scan_loop cfg d now trs (dirty \<or> y) h1 = (b, h')" using one Some 2(4) by simp
    then show ?thesis
      by (intro 2(1) [OF one [symmetric] Some h1]) (use 2(3) in \<open>meson list.set_intros(2)\<close>)
  qed
qed simp

lemma scan_fetch_spec:
  "scan_fetch cfg d now ts h = (trs, h') \<Longrightarrow> map fst trs = ts \<and> (harness_sound cfg' h' \<longleftrightarrow> harness_sound cfg' h)"
proof (induction cfg d now ts h arbitrary: trs h' rule: scan_fetch.induct)
  case (2 cfg d now t ts h)
  then show ?case by (auto split: prod.splits dest: fetch_file_ok)
qed simp

lemma pin_targets_ok [simp]: "harness_sound cfg (pin_targets ts h) \<longleftrightarrow> harness_sound cfg h"
  unfolding pin_targets_def by (induction ts arbitrary: h) auto

lemma scan_targets_ok:
  "harness_sound cfg h \<Longrightarrow> t \<in> set (scan_targets h batch) \<Longrightarrow> t_plugin t = Some p \<Longrightarrow> plugin_ok cfg p"
  by (auto simp: scan_targets_def dest!: harness_sound_ok harness_ok_store)

lemma pickScanBatch_ok: "pickScanBatch h = (batch, h') \<Longrightarrow> harness_sound cfg h' \<longleftrightarrow> harness_sound cfg h"
  by (auto simp: pickScanBatch_def Let_def split: if_splits prod.splits)

lemma scanDiskChanges_ok:
  assumes "harness_sound cfg h" "scanDiskChanges cfg d now h = (b, h')"
  shows "harness_sound cfg h'"
proof -
  obtain batch h1 where pick: "pickScanBatch h = (batch, h1)" by fastforce
  define ts where "ts = scan_targets h1 batch"
  obtain trs h2 where f: "scan_fetch cfg d now ts (pin_targets ts h1) = (trs, h2)" by fastforce
  obtain x h3 where l: "scan_loop cfg d now trs False h2 = (x, h3)" by fastforce
  have h1: "harness_sound cfg h1" using assms(1) pickScanBatch_ok [OF pick] by simp
  then have h2: "harness_sound cfg h2" using scan_fetch_spec [OF f, of cfg] by simp
  have "plugin_ok cfg p" if "tr \<in> set trs" "t_plugin (fst tr) = Some p" for tr p
  proof -
    have "fst tr \<in> set ts" using that(1) scan_fetch_spec [OF f, of cfg] by (metis image_eqI list.set_map)
    then show ?thesis using scan_targets_ok [OF h1] that(2) by (simp add: ts_def)
  qed
  then have "harness_sound cfg h3" using scan_loop_ok [OF h2 _ l] by blast
  with assms(2) pick f l show ?thesis
    by (auto simp: scanDiskChanges_def ts_def split: option.splits if_splits)
qed

lemma delta_lines_same: "delta_lines cfg d now ps h = (r, h') \<Longrightarrow> same_but_cache h h'"
proof (induction ps arbitrary: h r h')
  case (Cons p ps)
  define a where "a = the (absPath (metadata p))"
  obtain res h1 where f: "fetch_file cfg d now a h = (res, h1)" by fastforce
  show ?case
  proof (cases "map_of (h_anchors h) (pid p)")
    case None
    with Cons show ?thesis by simp
  next
    case (Some anchor)
    show ?thesis
    proof (cases "res = None \<or> fhash (r_entry (the res)) = anchor")
      case True
      then obtain r' where "delta_lines cfg d now ps h1 = (r', h')"
        using Some f Cons.prems by (cases res) (auto simp: a_def [symmetric] split: prod.splits)
      from same_but_cache_trans [OF fetch_same [OF f] Cons.IH [OF this]] show ?thesis .
    next
      case False
      obtain ls h2 where e: "entry_lines cfg d now a (r_entry (the res)) h1 = (ls, h2)" by fastforce
      have h2: "same_but_cache h h2" by (rule same_but_cache_trans [OF fetch_same [OF f] entry_lines_same [OF e]])
      show ?thesis
      proof (cases ls)
        case None
        with False Some f e Cons.prems h2 show ?thesis by (auto simp: a_def [symmetric])
      next
        case ls: (Some l)
        then obtain r' where "delta_lines cfg d now ps h2 = (r', h')"
          using False Some f e Cons.prems by (auto simp: a_def [symmetric] split: prod.splits)
        from same_but_cache_trans [OF h2 Cons.IH [OF this]] show ?thesis .
      qed
    qed
  qed
qed simp

lemma buildMountDelta_same: "buildMountDelta cfg d now h = (r, h') \<Longrightarrow> same_but_cache h h'"
  by (auto simp: buildMountDelta_def Let_def dest: delta_lines_same split: prod.splits option.splits)

lemma onContext_ok:
  assumes "harness_sound cfg h" "onContext cfg d now ctx messages h = (r, h')"
  shows "harness_sound cfg h'"
proof -
  define h0 where "h0 = rememberCtx ctx h"
  obtain b h1 where s: "(if h_scanPending h0 then scanDiskChanges cfg d now (h0\<lparr>h_scanPending := False\<rparr>) else (True, h0)) = (b, h1)"
    by fastforce
  have h1: "harness_sound cfg h1"
    using s assms(1) scanDiskChanges_ok [of cfg "h0\<lparr>h_scanPending := False\<rparr>" d now b h1] by (auto simp: h0_def split: if_splits)
  define h2 where "h2 = h1\<lparr>h_lastUserText := last_user_text (h_lastUserText h1) messages, h_recentDialogue := dialogue_of messages\<rparr>"
  have h2: "harness_sound cfg h2" using h1 by (simp add: h2_def harness_sound_def harness_ok_def)
  obtain x h3 where m: "buildMountDelta cfg d now h2 = (x, h3)" by fastforce
  have h3: "harness_sound cfg h3" using h2 same_ok [OF buildMountDelta_same [OF m]] by simp
  show ?thesis
    using assms(2) s h1 h3 m
    unfolding onContext_def Let_def h0_def [symmetric]
    by (auto simp: h2_def split: if_splits option.splits)
qed

subsection \<open>Sessions and batches\<close>

lemma restore_ok:
  "harness_sound cfg h \<Longrightarrow> (\<And>p. p \<in> set ps \<Longrightarrow> plugin_ok cfg p) \<Longrightarrow> harness_sound cfg (foldl restore_one h ps)"
proof (induction ps arbitrary: h)
  case (Cons p ps)
  have "harness_sound cfg (restore_one h p)"
    using Cons.prems by (auto simp: restore_one_def put_sound split: option.splits)
  with Cons show ?case by simp
qed simp

lemma onSessionStart_ok:
  assumes "harness_sound cfg h" "\<And>p. PluginEntry p \<in> set entries \<Longrightarrow> plugin_ok cfg p"
  shows "harness_sound cfg (onSessionStart cfg ctx is_resume entries h)"
proof -
  have "plugin_ok cfg p" if "p \<in> set (restoreFromEntries entries)" for p
    using that assms(2) by (auto simp: restoreFromEntries_def map_filter_def split: host_entry.splits)
  then have "harness_sound cfg (restorePlugins cfg entries h1)" if "harness_sound cfg h1" for h1
    using that by (simp add: restorePlugins_def Let_def restore_ok)
  moreover have "harness_sound cfg (h1\<lparr>h_mapLoaded := True, h_map := m\<rparr>) \<longleftrightarrow> harness_sound cfg h1" for h1 m
    by (rule harness_sound_cong) simp_all
  ultimately show ?thesis
    using assms(1) by (auto simp: onSessionStart_def Let_def restoreContextFromEntries_def)
qed

lemma onAgentSettled_ok: "harness_sound cfg h \<Longrightarrow> harness_sound cfg (onAgentSettled cfg' h)"
  by (auto simp: onAgentSettled_def Let_def)

lemma shutdown_ok:
  "harness_sound cfg (shutdown_begin h) \<longleftrightarrow> harness_sound cfg h"
  "harness_sound cfg (shutdown_end cfg' timed_out h) \<longleftrightarrow> harness_sound cfg h"
  by (auto simp: shutdown_begin_def shutdown_end_def Let_def harness_sound_def harness_ok_def harness_simps save_map_def)

lemma batch_files_same: "batch_files cfg d now ps h = (r, h') \<Longrightarrow> same_but_cache h h'"
proof (induction ps arbitrary: h r h')
  case (Cons p ps)
  obtain res h1 where f: "fetch_file cfg d now (source_path p) h = (res, h1)" by fastforce
  show ?case
  proof (cases res)
    case None
    with Cons.prems f have "batch_files cfg d now ps h1 = (r, h')" by simp
    from same_but_cache_trans [OF fetch_same [OF f] Cons.IH [OF this]] show ?thesis .
  next
    case (Some e)
    obtain ls h2 where l: "entry_lines cfg d now (source_path p) (r_entry e) h1 = (ls, h2)" by fastforce
    have h2: "same_but_cache h h2" by (rule same_but_cache_trans [OF fetch_same [OF f] entry_lines_same [OF l]])
    obtain rest h3 where t: "batch_files cfg d now ps h2 = (rest, h3)" by fastforce
    from same_but_cache_trans [OF h2 Cons.IH [OF t]] have "same_but_cache h h3" .
    with Cons.prems f Some l t h2 show ?thesis by (cases ls) (auto simp: Let_def)
  qed
qed simp

lemma runMemoryBatch_begin_same:
  assumes "runMemoryBatch_begin cfg d now h = (r, h')"
  shows "harness_sound cfg' h' \<longleftrightarrow> harness_sound cfg' h"
proof -
  obtain bfs h1 where b: "batch_files cfg d now (pending_plugins h) h = (bfs, h1)" by fastforce
  have "harness_sound cfg' h1 \<longleftrightarrow> harness_sound cfg' h" by (rule same_ok [OF batch_files_same [OF b]])
  with assms b show ?thesis
    by (auto simp: runMemoryBatch_begin_def Let_def split: if_splits option.splits)
qed

text \<open>A batch holds objects and plugins that are well formed.\<close>

definition batch_ok :: "harness_options \<Rightarrow> memory_batch \<Rightarrow> bool" where
  "batch_ok cfg batch \<longleftrightarrow> (\<forall>bf \<in> set (b_files batch). plugin_ok cfg (bf_plugin bf))"

lemma batch_files_plugins:
  "batch_files cfg d now ps h = (Some bfs, h') \<Longrightarrow> bf \<in> set bfs \<Longrightarrow> bf_plugin bf \<in> set ps"
proof (induction ps arbitrary: h bfs h')
  case (Cons p ps)
  obtain res h1 where f: "fetch_file cfg d now (source_path p) h = (res, h1)" by fastforce
  show ?case
  proof (cases res)
    case None
    with Cons f show ?thesis by auto
  next
    case (Some e)
    obtain ls h2 where l: "entry_lines cfg d now (source_path p) (r_entry e) h1 = (ls, h2)" by fastforce
    obtain rest h3 where t: "batch_files cfg d now ps h2 = (rest, h3)" by fastforce
    from Cons.prems f Some l t Cons.IH [of h2] show ?thesis by (cases ls) (auto simp: Let_def)
  qed
qed simp

lemma runMemoryBatch_begin_batch:
  assumes "harness_sound cfg h" "runMemoryBatch_begin cfg d now h = (Some batch, h')"
  shows "batch_ok cfg batch"
proof -
  obtain bfs h1 where b: "batch_files cfg d now (pending_plugins h) h = (bfs, h1)" by fastforce
  with assms(2) have "Some (b_files batch) = bfs"
    by (auto simp: runMemoryBatch_begin_def Let_def split: if_splits option.splits)
  with b batch_files_plugins [of cfg d now "pending_plugins h" h "b_files batch" h1] assms(1)
  show ?thesis by (auto simp: batch_ok_def pending_plugins_def harness_sound_def harness_ok_def)
qed

lemma commit_file_ok:
  assumes "harness_sound cfg h" "plugin_ok cfg (bf_plugin bf)" "commit_file cfg d now gen answer bf h = (b, h')"
  shows "harness_sound cfg h'"
proof -
  define obj where "obj = (case map_of (h_objs h) (bf_object bf) of Some p \<Rightarrow> p | None \<Rightarrow> bf_plugin bf)"
  have obj: "plugin_ok cfg obj"
    using assms(1,2) by (auto simp: obj_def harness_sound_def harness_ok_def split: option.splits dest!: map_of_SomeD)
  define p where "p = obj\<lparr>metadata := (metadata obj)\<lparr>memoryState := Some MemDone\<rparr>\<rparr>"
  have "plugin_ok cfg p"
    unfolding p_def using obj by (intro plugin_ok_meta [OF obj]) (auto simp: plugin_ok_def)
  moreover obtain r h1 where f: "fetch_file cfg d now (source_path obj) h = (r, h1)" by fastforce
  then have h1: "harness_sound cfg h1" using assms(1) fetch_file_ok by blast
  ultimately have "harness_sound cfg (persistPlugin p (put_object n p (h1\<lparr>h_map := m\<rparr>)))" for n m
    by (intro persist_sound put_sound) simp_all
  with assms(1,3) f h1 show ?thesis
    unfolding commit_file_def Let_def obj_def [symmetric] p_def [symmetric]
    by (auto split: option.splits if_splits)
qed

lemma commit_files_ok:
  "harness_sound cfg h \<Longrightarrow> \<forall>bf \<in> set bfs. plugin_ok cfg (bf_plugin bf) \<Longrightarrow> commit_files cfg d now gen answer bfs h = (n, h')
     \<Longrightarrow> harness_sound cfg h'"
proof (induction bfs arbitrary: h n h')
  case (Cons bf bfs)
  obtain b h1 where "commit_file cfg d now gen answer bf h = (b, h1)" by fastforce
  moreover from this have "harness_sound cfg h1" using commit_file_ok Cons.prems by auto
  ultimately show ?case using Cons by (auto split: prod.splits)
qed simp

lemma runMemoryBatch_commit_ok:
  assumes "harness_sound cfg h" "batch_ok cfg batch"
  shows "harness_sound cfg (runMemoryBatch_commit cfg d now batch h)"
  using assms commit_files_ok [of cfg h "b_files batch" d now "b_generation batch"]
  by (auto simp: runMemoryBatch_commit_def batch_ok_def split: option.splits prod.splits)

subsection \<open>Runs of the harness\<close>

text \<open>The harness with the batches that wait for the model, and the plugins that earlier processes wrote to the session. A
  step runs one handler over some disk, or ends the process and starts another.\<close>

record harness_world =
  hw :: harness
  in_flight :: "memory_batch list"
  earlier :: "plugin list"

text \<open>A plugin as the file of the session has it: JSON has no \<open>Infinity\<close>, a count of lines that is infinite comes back
  as \<open>null\<close>, which the code reads as no count.\<close>

definition as_saved :: "plugin \<Rightarrow> plugin" where
  "as_saved p =
     (if pendingMemoryLines (metadata p) = Some \<infinity> then p\<lparr>metadata := (metadata p)\<lparr>pendingMemoryLines := None\<rparr>\<rparr> else p)"

text \<open>What the entries of a session may hold: what the harness wrote there, in this process or an earlier one, and since an
  entry in memory has the object itself, that object as it is now.\<close>

definition session_plugins :: "harness_world \<Rightarrow> plugin set" where
  "session_plugins w =
     set (earlier w) \<union> set (h_persisted (hw w)) \<union> as_saved ` (set (earlier w) \<union> set (h_persisted (hw w))) \<union> snd ` set (h_objs (hw w))"

inductive harness_step :: "harness_options \<Rightarrow> harness_world \<Rightarrow> harness_world \<Rightarrow> bool" for cfg where
  tool_called: "onToolCall cfg d now ctx tool callId input (hw w) = (input', h) \<Longrightarrow>
    harness_step cfg w (w\<lparr>hw := h\<rparr>)"
| tool_returned: "onToolResult cfg d now ev (hw w) = (t, h) \<Longrightarrow> harness_step cfg w (w\<lparr>hw := h\<rparr>)"
| model_requested: "onContext cfg d now ctx ms (hw w) = (r, h) \<Longrightarrow> harness_step cfg w (w\<lparr>hw := h\<rparr>)"
| session_started: "(\<And>p. PluginEntry p \<in> set entries \<Longrightarrow> p \<in> session_plugins w) \<Longrightarrow>
    harness_step cfg w (w\<lparr>hw := onSessionStart cfg ctx is_resume entries (hw w)\<rparr>)"
| agent_settled: "harness_step cfg w (w\<lparr>hw := onAgentSettled cfg (hw w)\<rparr>)"
| task_started: "harness_step cfg w (w\<lparr>hw := (hw w)\<lparr>h_queue := chain_start (h_queue (hw w))\<rparr>\<rparr>)"
| batch_begun: "runMemoryBatch_begin cfg d now (hw w) = (Some b, h) \<Longrightarrow>
    harness_step cfg w (w\<lparr>hw := h, in_flight := b # in_flight w\<rparr>)"
| batch_skipped: "runMemoryBatch_begin cfg d now (hw w) = (None, h) \<Longrightarrow> harness_step cfg w (w\<lparr>hw := h\<rparr>)"
| batch_answered: "b \<in> set (in_flight w) \<Longrightarrow>
    harness_step cfg w (w\<lparr>hw := runMemoryBatch_commit cfg d now b (hw w), in_flight := remove1 b (in_flight w)\<rparr>)"
| task_ended: "harness_step cfg w (w\<lparr>hw := (hw w)\<lparr>h_queue := chain_end (h_queue (hw w))\<rparr>\<rparr>)"
| shutting_down: "harness_step cfg w (w\<lparr>hw := shutdown_begin (hw w)\<rparr>)"
| shut_down: "harness_step cfg w (w\<lparr>hw := shutdown_end cfg timed_out (hw w)\<rparr>)"
| content_viewed: "liveContent cfg d now i (hw w) = (r, h) \<Longrightarrow> harness_step cfg w (w\<lparr>hw := h\<rparr>)"
| restarted: "harness_step cfg w
    \<lparr>hw = createHarness cfg cwd map_file, in_flight = [], earlier = earlier w @ h_persisted (hw w)\<rparr>"

definition first_process :: "harness_options \<Rightarrow> js_string \<Rightarrow> json option \<Rightarrow> harness_world" where
  "first_process cfg cwd map_file = \<lparr>hw = createHarness cfg cwd map_file, in_flight = [], earlier = []\<rparr>"

definition world_sound :: "harness_options \<Rightarrow> harness_world \<Rightarrow> bool" where
  "world_sound cfg w \<longleftrightarrow> harness_sound cfg (hw w) \<and> (\<forall>b \<in> set (in_flight w). batch_ok cfg b)
     \<and> (\<forall>p \<in> set (earlier w). plugin_ok cfg p)"

lemma as_saved_ok: "plugin_ok cfg p \<Longrightarrow> plugin_ok cfg (as_saved p)"
  by (auto simp: as_saved_def plugin_ok_def isSourceMeta_def source_path_def)

lemma session_plugins_ok: "world_sound cfg w \<Longrightarrow> p \<in> session_plugins w \<Longrightarrow> plugin_ok cfg p"
  by (auto simp: session_plugins_def world_sound_def harness_sound_def harness_ok_def intro: as_saved_ok)

lemma createHarness_sound [simp]: "harness_sound cfg (createHarness cfg' cwd map_file)"
  by (simp add: harness_sound_def harness_ok_def createHarness_def store_all_def)

lemma liveContent_ok: "liveContent cfg d now i h = (r, h') \<Longrightarrow> harness_sound cfg' h' \<longleftrightarrow> harness_sound cfg' h"
proof -
  assume l: "liveContent cfg d now i h = (r, h')"
  have "same_but_cache h h'"
  proof (cases "source_plugin h i")
    case None
    with l show ?thesis by (simp add: liveContent_def)
  next
    case (Some p)
    obtain res h1 where f: "fetch_file cfg d now (source_path p) h = (res, h1)" by fastforce
    show ?thesis
    proof (cases res)
      case None
      with l Some f fetch_same [OF f] show ?thesis by (simp add: liveContent_def)
    next
      case e: (Some e)
      obtain ls h2 where ls: "entry_lines cfg d now (source_path p) (r_entry e) h1 = (ls, h2)" by fastforce
      have "same_but_cache h h2" by (rule same_but_cache_trans [OF fetch_same [OF f] entry_lines_same [OF ls]])
      with l Some f e ls show ?thesis by (cases ls) (auto simp: liveContent_def)
    qed
  qed
  then show ?thesis by (rule same_ok)
qed

lemma world_sound_step: "harness_step cfg w w' \<Longrightarrow> world_sound cfg w \<Longrightarrow> world_sound cfg w'"
proof (induction rule: harness_step.induct)
  case (batch_begun d now w b h)
  then show ?case
    using runMemoryBatch_begin_batch runMemoryBatch_begin_same by (auto simp: world_sound_def)
next
  case (batch_skipped d now w h)
  then show ?case using runMemoryBatch_begin_same by (auto simp: world_sound_def)
next
  case (batch_answered b w d now)
  then show ?case
    using runMemoryBatch_commit_ok set_remove1_subset [of b "in_flight w"] by (auto simp: world_sound_def)
next
  case (session_started entries w ctx is_resume)
  then show ?case using session_plugins_ok onSessionStart_ok by (simp add: world_sound_def)
next
  case (restarted w cwd map_file)
  then show ?case by (auto simp: world_sound_def) (auto simp: harness_sound_def)
next
  case (content_viewed d now i w r h)
  then show ?case using liveContent_ok by (auto simp: world_sound_def)
qed (auto simp: world_sound_def shutdown_ok
    intro: onToolCall_ok onToolResult_ok onContext_ok onAgentSettled_ok)

lemma harness_reachable_ok:
  assumes "(harness_step cfg)\<^sup>*\<^sup>* (first_process cfg cwd map_file) w"
  shows "world_sound cfg w"
proof -
  have "world_sound cfg (first_process cfg cwd map_file)" by (simp add: world_sound_def first_process_def)
  with assms show ?thesis by (induction rule: rtranclp_induct) (auto intro: world_sound_step)
qed

end
