(* ===== verification/HarnessFacts.thy ===== *)
theory HarnessFacts
  imports HarnessInvariant
begin

text \<open>
  What the harness does for the model. A read is sorted by what is mounted and what is on the disk; a request to the model
  tells of every mount whose file is not what the conversation shows. The last part has the invariant of every state the harness reaches.
\<close>

subsection \<open>Reading through the cache\<close>

text \<open>The cache agrees with the disk, and every file on it can be read.\<close>

definition sees :: "harness_options \<Rightarrow> disk \<Rightarrow> harness \<Rightarrow> bool" where
  "sees cfg d h \<longleftrightarrow> coherent (o_hashBuffer cfg) d (h_cache h) \<and> (\<forall>p f. d p = Some f \<longrightarrow> df_readable f)"

abbreviation disk_hash :: "harness_options \<Rightarrow> disk_file \<Rightarrow> js_string" where
  "disk_hash cfg f \<equiv> o_hashBuffer cfg (df_content f)"

abbreviation disk_lines :: "disk_file \<Rightarrow> js_string list" where
  "disk_lines f \<equiv> file_lines (df_content f)"

lemma fetch_file_sees: "sees cfg d h \<Longrightarrow> fetch_file cfg d now p h = (r, h') \<Longrightarrow> sees cfg d h'"
  using fc.fetch_usable
  by (auto simp: sees_def fetch_file_def split: prod.splits)

lemma entry_lines_sees: "sees cfg d h \<Longrightarrow> entry_lines cfg d now p e h = (r, h') \<Longrightarrow> sees cfg d h'"
  using fc.lines_usable
  by (auto simp: sees_def entry_lines_def split: prod.splits option.splits)

lemma fetch_file_some:
  assumes "sees cfg d h" "d p = Some f"
  obtains r h' where "fetch_file cfg d now p h = (Some r, h')" "sees cfg d h'" "same_but_cache h h'"
    "fhash (r_entry r) = disk_hash cfg f" "totalLines (r_entry r) = length (disk_lines f)"
    "describes (o_hashBuffer cfg) (r_entry r) f"
proof -
  obtain res h' where f: "fetch_file cfg d now p h = (res, h')" by fastforce
  then obtain c where c: "cache_get (o_hashBuffer cfg) d now p (h_cache h) = (res, c)"
    by (auto simp: fetch_file_def split: prod.splits)
  have "disk_read d p = Some (df_content f)" using assms by (auto simp: sees_def disk_read_def)
  then obtain r where r: "res = Some r" using c fc.fetch_none by (cases res) fastforce+
  have usable: "coherent (o_hashBuffer cfg) d (h_cache h)" using assms by (simp add: sees_def)
  from fc.fetch_some [OF usable c [unfolded r]] assms(2) have "describes (o_hashBuffer cfg) (r_entry r) f" by auto
  with that [of r h'] f r fetch_file_sees [OF assms(1) f] fetch_same [OF f] show thesis
    by (auto simp: describes_def)
qed

lemma fetch_file_none:
  assumes "sees cfg d h" "d p = None"
  obtains h' where "fetch_file cfg d now p h = (None, h')" "sees cfg d h'" "same_but_cache h h'"
proof -
  obtain res h' where f: "fetch_file cfg d now p h = (res, h')" by fastforce
  moreover have "res = None"
    using f assms(2) by (auto simp: fetch_file_def cache_get_def get_after_stat_def disk_stat_def split: prod.splits)
  ultimately show thesis
    using that fetch_file_sees [OF assms(1) f] fetch_same [OF f] by auto
qed

lemma entry_lines_some:
  assumes "sees cfg d h" "d p = Some f" "describes (o_hashBuffer cfg) e f"
  obtains h' where "entry_lines cfg d now p e h = (Some (disk_lines f), h')" "sees cfg d h'" "same_but_cache h h'"
proof (cases "flines e")
  case (Some ls)
  then have "ls = disk_lines f" using assms(3) by (auto simp: describes_def)
  with Some that [of h] assms(1) show ?thesis by (simp add: entry_lines_def)
next
  case None
  obtain l c where rl: "readLines (o_hashBuffer cfg) d now p (h_cache h) = (l, c)" by fastforce
  have usable: "coherent (o_hashBuffer cfg) d (h_cache h)" using assms by (simp add: sees_def)
  have read: "disk_read d p = Some (df_content f)" using assms by (auto simp: sees_def disk_read_def)
  have "l \<noteq> None"
  proof
    assume "l = None"
    with rl read show False
      using fc.fetch_some [OF usable] by (auto simp: readLines_def split: prod.splits option.splits dest: sym)
  qed
  then have "l = Some (disk_lines f)" using fc.lines_read [OF usable, of now p _ c] rl assms(2) by auto
  with None rl have e: "entry_lines cfg d now p e h = (Some (disk_lines f), h\<lparr>h_cache := c\<rparr>)"
    by (simp add: entry_lines_def)
  show ?thesis
    by (rule that [OF e entry_lines_sees [OF assms(1) e] entry_lines_same [OF e]])
qed

subsection \<open>What the model is told\<close>

text \<open>The report on a mount, from the disk alone.\<close>

definition mount_report :: "harness_options \<Rightarrow> disk \<Rightarrow> harness \<Rightarrow> plugin \<Rightarrow> js_string list" where
  "mount_report cfg d h p =
     (case map_of (h_anchors h) (pid p) of
        None \<Rightarrow> []
      | Some anchor \<Rightarrow>
          (case d (source_path p) of
             None \<Rightarrow> [js ''- '' @ source_path p @ colon @ deleted_reason]
           | Some f \<Rightarrow> if disk_hash cfg f = anchor then []
                       else [changed_line p (source_path p) (disk_hash cfg f) (disk_lines f)]))"

definition delta_report :: "harness_options \<Rightarrow> disk \<Rightarrow> harness \<Rightarrow> js_string list" where
  "delta_report cfg d h = retired_lines cfg h @ concat (map (mount_report cfg d h) (tracked_plugins cfg h))"

lemma mount_report_same: "same_but_cache h h' \<Longrightarrow> mount_report cfg d h' = mount_report cfg d h"
  by (auto simp: mount_report_def fun_eq_iff same_but_cache_fields)

lemma delta_lines_report:
  "sees cfg d h \<Longrightarrow> \<exists>h'. delta_lines cfg d now ps h = (Some (concat (map (mount_report cfg d h) ps)), h')"
proof (induction ps arbitrary: h)
  case (Cons p ps)
  define a where "a = source_path p"
  show ?case
  proof (cases "map_of (h_anchors h) (pid p)")
    case None
    with Cons show ?thesis by (simp add: mount_report_def)
  next
    case (Some anchor)
    show ?thesis
    proof (cases "d a")
      case None
      then obtain h1 where f: "fetch_file cfg d now a h = (None, h1)" "sees cfg d h1" "same_but_cache h h1"
        using fetch_file_none [OF Cons.prems] by blast
      from Cons.IH [OF f(2)] obtain h' where
        "delta_lines cfg d now ps h1 = (Some (concat (map (mount_report cfg d h) ps)), h')"
        by (auto simp: mount_report_same [OF f(3)])
      moreover have "mount_report cfg d h p = [js ''- '' @ a @ colon @ deleted_reason]"
        using None Some by (simp add: mount_report_def a_def)
      ultimately show ?thesis using Some f by (simp add: a_def source_path_def)
    next
      case here: (Some f)
      obtain r h1 where g: "fetch_file cfg d now a h = (Some r, h1)" "sees cfg d h1" "same_but_cache h h1"
        "fhash (r_entry r) = disk_hash cfg f" "describes (o_hashBuffer cfg) (r_entry r) f"
        by (rule fetch_file_some [OF Cons.prems here])
      show ?thesis
      proof (cases "disk_hash cfg f = anchor")
        case True
        from Cons.IH [OF g(2)] obtain h' where
          "delta_lines cfg d now ps h1 = (Some (concat (map (mount_report cfg d h) ps)), h')"
          by (auto simp: mount_report_same [OF g(3)])
        moreover have "mount_report cfg d h p = []"
          using True Some here by (simp add: mount_report_def a_def)
        ultimately show ?thesis using True Some g by (simp add: a_def source_path_def)
      next
        case False
        obtain h2 where e: "entry_lines cfg d now a (r_entry r) h1 = (Some (disk_lines f), h2)" "sees cfg d h2" "same_but_cache h1 h2"
          by (rule entry_lines_some [OF g(2) here g(5)])
        have same: "same_but_cache h h2" by (rule same_but_cache_trans [OF g(3) e(3)])
        from Cons.IH [OF e(2)] obtain h' where
          "delta_lines cfg d now ps h2 = (Some (concat (map (mount_report cfg d h) ps)), h')"
          by (auto simp: mount_report_same [OF same])
        moreover have "mount_report cfg d h p = [changed_line p a (disk_hash cfg f) (disk_lines f)]"
          using False Some here by (simp add: mount_report_def a_def)
        ultimately show ?thesis using False Some g e by (simp add: a_def source_path_def)
      qed
    qed
  qed
qed simp

text \<open>A scan leaves the cache usable, and reads every file it looks at.\<close>

lemma sees_cong: "h_cache h' = h_cache h \<Longrightarrow> sees cfg d h' \<longleftrightarrow> sees cfg d h"
  by (simp add: sees_def)

lemma sees_same_fields [simp]:
  "sees cfg d (emit cfg' ev h) \<longleftrightarrow> sees cfg d h"
  "sees cfg d (persistPlugin p h) \<longleftrightarrow> sees cfg d h"
  "sees cfg d (put_new p h) \<longleftrightarrow> sees cfg d h"
  "sees cfg d (put_same p h) \<longleftrightarrow> sees cfg d h"
  "sees cfg d (set_stale i e h) \<longleftrightarrow> sees cfg d h"
  "sees cfg d (bump_generation h) \<longleftrightarrow> sees cfg d h"
  "sees cfg d (rememberCtx ctx h) \<longleftrightarrow> sees cfg d h"
  "sees cfg d (save_map h) \<longleftrightarrow> sees cfg d h"
  by (rule sees_cong;
      simp add: harness_simps put_new_def put_same_def put_object_def state_defs split: option.splits)+

lemma sees_pin [simp]:
  "sees cfg d h \<Longrightarrow> sees cfg d (pin_path p h)" "sees cfg d h \<Longrightarrow> sees cfg d (retire i p why h)"
  by (auto simp: sees_def pin_path_def pin_def retire_def remove_plugin_def unpin_path_def unpin_def coherent_def coherent_at_def)

lemma scan_missing_sees: "sees cfg d h \<Longrightarrow> scan_missing t h = (b, h') \<Longrightarrow> sees cfg d h'"
  by (auto simp: scan_missing_def Let_def split: option.splits if_splits)

lemma scan_mount_sees: "sees cfg d h \<Longrightarrow> scan_mount cfg p q r ls h = (b, h') \<Longrightarrow> sees cfg d h'"
  by (auto simp: scan_mount_def Let_def split: if_splits)

lemma scan_entry_sees: "sees cfg d h \<Longrightarrow> sees cfg d (scan_entry cfg i e ls h)"
  unfolding scan_entry_def Let_def by (auto simp: sees_cong [of "h\<lparr>h_map := m\<rparr>" h for m])

text \<open>What was fetched for a target is what the disk has.\<close>

definition fetched_now :: "harness_options \<Rightarrow> disk \<Rightarrow> scan_target \<times> cache_result option \<Rightarrow> bool" where
  "fetched_now cfg d tr \<longleftrightarrow>
     (case snd tr of
        None \<Rightarrow> d (t_absPath (fst tr)) = None
      | Some r \<Rightarrow> \<exists>f. d (t_absPath (fst tr)) = Some f \<and> describes (o_hashBuffer cfg) (r_entry r) f)"

lemma scan_check_entry_returns:
  assumes "sees cfg d h" "d (t_absPath t) = Some f" "describes (o_hashBuffer cfg) (r_entry r) f"
  shows "\<exists>b h'. scan_check_entry cfg d now t r h = (Some b, h') \<and> sees cfg d h'"
proof -
  obtain h1 where "entry_lines cfg d now (t_absPath t) (r_entry r) h = (Some (disk_lines f), h1)" "sees cfg d h1"
    by (rule entry_lines_some [OF assms])
  with assms(1) show ?thesis
    by (auto simp: scan_check_entry_def scan_entry_sees split: option.splits)
qed

lemma scan_one_returns:
  assumes "sees cfg d h" "fetched_now cfg d tr"
  shows "\<exists>b h'. scan_one cfg d now tr h = (Some b, h') \<and> sees cfg d h'"
proof (cases "snd tr")
  case None
  obtain b h' where m: "scan_missing (fst tr) h = (b, h')" by fastforce
  with None scan_missing_sees [OF assms(1) m] show ?thesis by (simp add: scan_one_def)
next
  case (Some r)
  then obtain f where f: "d (t_absPath (fst tr)) = Some f" "describes (o_hashBuffer cfg) (r_entry r) f"
    using assms(2) by (auto simp: fetched_now_def)
  have chk: "\<exists>b h2. scan_check_entry cfg d now (fst tr) r h1 = (Some b, h2) \<and> sees cfg d h2"
    if "sees cfg d h1" for h1 using that f by (rule scan_check_entry_returns)
  show ?thesis
  proof (cases "mount_changed (fst tr) r")
    case True
    obtain h1 where e: "entry_lines cfg d now (t_absPath (fst tr)) (r_entry r) h = (Some (disk_lines f), h1)" "sees cfg d h1"
      by (rule entry_lines_some [OF assms(1) f])
    obtain b h2 where m: "scan_mount cfg (t_absPath (fst tr)) (the (t_plugin (fst tr))) r (disk_lines f) h1 = (b, h2)"
      by fastforce
    have "sees cfg d h2" by (rule scan_mount_sees [OF e(2) m])
    with True Some e m chk [of h2] show ?thesis by (cases b) (auto simp: scan_one_def)
  qed (use Some assms(1) chk [of h] in \<open>simp add: scan_one_def\<close>)
qed

lemma scan_loop_returns:
  "sees cfg d h \<Longrightarrow> list_all (fetched_now cfg d) trs \<Longrightarrow>
     \<exists>b h'. scan_loop cfg d now trs dirty h = (Some b, h') \<and> sees cfg d h'"
proof (induction trs arbitrary: h dirty)
  case (Cons tr trs)
  from scan_one_returns [of cfg d h tr now] Cons.prems obtain b h1 where
    "scan_one cfg d now tr h = (Some b, h1)" "sees cfg d h1" by auto
  with Cons show ?case by simp
qed simp

lemma scan_fetch_sees:
  "sees cfg d h \<Longrightarrow> scan_fetch cfg d now ts h = (trs, h') \<Longrightarrow> sees cfg d h' \<and> list_all (fetched_now cfg d) trs"
proof (induction ts arbitrary: h trs h')
  case (Cons t ts)
  obtain r h1 where f: "fetch_file cfg d now (t_absPath t) h = (r, h1)" by fastforce
  obtain rs h2 where g: "scan_fetch cfg d now ts h1 = (rs, h2)" by fastforce
  have "fetched_now cfg d (t, r)"
  proof (cases "d (t_absPath t)")
    case None
    obtain h1 where "fetch_file cfg d now (t_absPath t) h = (None, h1)" by (rule fetch_file_none [OF Cons.prems(1) None])
    with f None show ?thesis by (simp add: fetched_now_def)
  next
    case (Some df)
    obtain x h1 where "fetch_file cfg d now (t_absPath t) h = (Some x, h1)" "describes (o_hashBuffer cfg) (r_entry x) df"
      by (rule fetch_file_some [OF Cons.prems(1) Some])
    with f Some show ?thesis by (auto simp: fetched_now_def)
  qed
  with Cons.IH [OF fetch_file_sees [OF Cons.prems(1) f] g] Cons.prems(2) f g show ?case by auto
qed simp

lemma pin_targets_sees: "sees cfg d h \<Longrightarrow> sees cfg d (pin_targets ts h)"
  unfolding pin_targets_def by (induction ts arbitrary: h) auto

lemma pickScanBatch_sees: "pickScanBatch h = (b, h') \<Longrightarrow> sees cfg d h' \<longleftrightarrow> sees cfg d h"
  by (rule sees_cong) (auto simp: pickScanBatch_def Let_def split: if_splits prod.splits)

lemma scan_returns:
  assumes "sees cfg d h"
  shows "\<exists>h'. scanDiskChanges cfg d now h = (True, h') \<and> sees cfg d h'"
proof -
  obtain batch h1 where b: "pickScanBatch h = (batch, h1)" by fastforce
  define targets where "targets = scan_targets h1 batch"
  obtain trs h2 where f: "scan_fetch cfg d now targets (pin_targets targets h1) = (trs, h2)" by fastforce
  have "sees cfg d (pin_targets targets h1)" using pickScanBatch_sees [OF b] assms pin_targets_sees by blast
  from scan_fetch_sees [OF this f] scan_loop_returns [of cfg d h2 trs now False] obtain dirty h3 where
    "scan_loop cfg d now trs False h2 = (Some dirty, h3)" "sees cfg d h3" by blast
  with b f show ?thesis by (auto simp: scanDiskChanges_def Let_def targets_def)
qed

text \<open>The state in which the report is made.\<close>

definition scanned :: "harness_options \<Rightarrow> disk \<Rightarrow> int \<Rightarrow> harness \<Rightarrow> harness" where
  "scanned cfg d now h = (if h_scanPending h then snd (scanDiskChanges cfg d now (h\<lparr>h_scanPending := False\<rparr>)) else h)"

definition report_title :: js_string where
  "report_title = js ''[piwpi '' @ [0x6302, 0x8f7d, 0x66f4, 0x65b0] @ js '']''"

lemma buildMountDelta_report:
  assumes "sees cfg d h"
  shows "fst (buildMountDelta cfg d now h) =
    Some (if delta_report cfg d h = [] then [] else report_title @ [newline] @ join [newline] (delta_report cfg d h))"
  using delta_lines_report [OF assms, of now "tracked_plugins cfg h"]
  by (auto simp: buildMountDelta_def delta_report_def Let_def report_title_def)

lemma onContext_report:
  assumes "sees cfg d h"
  shows "fst (onContext cfg d now ctx messages h) =
    (let report = delta_report cfg d (scanned cfg d now (rememberCtx ctx h))
     in if report = [] then None
        else Some (appendDeltaToLast messages (report_title @ [newline] @ join [newline] report)))"
proof -
  define h1 where "h1 = scanned cfg d now (rememberCtx ctx h)"
  have h0: "sees cfg d (rememberCtx ctx h)" "sees cfg d ((rememberCtx ctx h)\<lparr>h_scanPending := False\<rparr>)"
    using assms by (simp_all add: sees_cong [of "h\<lparr>h_scanPending := b\<rparr>" h for h b])
  have h1: "sees cfg d h1"
    and run: "(if h_scanPending (rememberCtx ctx h)
       then scanDiskChanges cfg d now ((rememberCtx ctx h)\<lparr>h_scanPending := False\<rparr>) else (True, rememberCtx ctx h)) = (True, h1)"
    using h0 scan_returns [OF h0(2), of now] by (auto simp: h1_def scanned_def)
  define h2 where "h2 = h1\<lparr>h_lastUserText := last_user_text (h_lastUserText h1) messages, h_recentDialogue := dialogue_of messages\<rparr>"
  have "sees cfg d h2" using h1 by (simp add: h2_def sees_cong [of "h\<lparr>h_lastUserText := a, h_recentDialogue := b\<rparr>" h for h a b])
  from buildMountDelta_report [OF this, of now] obtain h3 where
    b: "buildMountDelta cfg d now h2 = (Some (if delta_report cfg d h2 = [] then []
       else report_title @ [newline] @ join [newline] (delta_report cfg d h2)), h3)"
    by (cases "buildMountDelta cfg d now h2") auto
  have "delta_report cfg d h2 = delta_report cfg d h1"
    by (simp add: delta_report_def h2_def retired_lines_def tracked_plugins_def mount_report_def cong: map_cong)
  with b run show ?thesis
    by (simp add: onContext_def Let_def h1_def [symmetric] h2_def [symmetric] report_title_def)
qed

subsection \<open>What a scan does to the mounts\<close>

text \<open>Whether the file of a mount is there with the content of this hash.\<close>

definition has_content :: "harness_options \<Rightarrow> disk \<Rightarrow> plugin \<Rightarrow> js_string \<Rightarrow> bool" where
  "has_content cfg d p hash \<longleftrightarrow> (\<exists>f. d (source_path p) = Some f \<and> disk_hash cfg f = hash)"

text \<open>The lines that tell the model of a mount that its file is not what it was: deleted; its present text, in the ranges that are
  mounted or what is left of them; or retired, with a number of changed lines that reaches the threshold.\<close>

definition mount_lines :: "harness_options \<Rightarrow> disk \<Rightarrow> plugin \<Rightarrow> js_string set" where
  "mount_lines cfg d p =
     (case d (source_path p) of
        None \<Rightarrow> {js ''- '' @ source_path p @ colon @ deleted_reason}
      | Some f \<Rightarrow>
          {changed_line q (source_path p) (disk_hash cfg f) (disk_lines f) |q.
             q = p \<or> q = remounted cfg p (disk_hash cfg f) (disk_lines f) 0}
          \<union> {retired_line \<lparr>ret_absPath = source_path p, reason = changed_reason n\<rparr> |n.
             enat (changeThreshold (length (disk_lines f))) \<le> n})"

text \<open>The state of a scan that started from \<open>h0\<close>: what became of a mount and of the record of a retired one, id by id, and that
  no record is lost or made up.\<close>

definition told_of :: "harness_options \<Rightarrow> disk \<Rightarrow> plugin \<Rightarrow> retired_mount \<Rightarrow> bool" where
  "told_of cfg d p info \<longleftrightarrow> retired_line info \<in> mount_lines cfg d p"

definition mount_after :: "harness_options \<Rightarrow> disk \<Rightarrow> plugin option \<Rightarrow> plugin option \<Rightarrow> retired_mount option \<Rightarrow> bool" where
  "mount_after cfg d before after record \<longleftrightarrow> after = before
     \<or> (\<exists>p. before = Some p \<and> \<not> has_content cfg d p (mhash (metadata p)) \<and>
          (case after of
             None \<Rightarrow> \<exists>info. record = Some info \<and> told_of cfg d p info
           | Some q \<Rightarrow> \<exists>f n. d (source_path p) = Some f \<and> q = remounted cfg p (disk_hash cfg f) (disk_lines f) n))"

definition record_from :: "harness_options \<Rightarrow> disk \<Rightarrow> harness \<Rightarrow> js_string \<times> retired_mount \<Rightarrow> bool" where
  "record_from cfg d h0 r \<longleftrightarrow> r \<in> set (h_retired h0)
     \<or> (\<exists>p. store_get (h_store h0) (fst r) = Some p \<and> \<not> has_content cfg d p (mhash (metadata p)) \<and> told_of cfg d p (snd r))"

definition scan_inv :: "harness_options \<Rightarrow> disk \<Rightarrow> harness \<Rightarrow> harness \<Rightarrow> bool" where
  "scan_inv cfg d h0 h \<longleftrightarrow>
     (\<forall>i. mount_after cfg d (store_get (h_store h0) i) (store_get (h_store h) i) (map_of (h_retired h) i))
     \<and> h_anchors h = h_anchors h0 \<and> (\<forall>r \<in> set (h_retired h). record_from cfg d h0 r)
     \<and> (\<forall>r \<in> set (h_retired h0). store_get (h_store h0) (fst r) = None \<longrightarrow> r \<in> set (h_retired h))"

lemma scan_inv_refl [simp]: "scan_inv cfg d h h"
  by (simp add: scan_inv_def mount_after_def record_from_def)

lemma scan_inv_cong:
  "h_store h' = h_store h \<Longrightarrow> h_retired h' = h_retired h \<Longrightarrow> h_anchors h' = h_anchors h \<Longrightarrow> scan_inv cfg d h0 h' \<longleftrightarrow> scan_inv cfg d h0 h"
  by (simp add: scan_inv_def)

lemma scan_inv_frame [simp]:
  "scan_inv cfg d h0 (emit cfg' ev h) \<longleftrightarrow> scan_inv cfg d h0 h"
  "scan_inv cfg d h0 (persistPlugin p h) \<longleftrightarrow> scan_inv cfg d h0 h"
  "scan_inv cfg d h0 (bump_generation h) \<longleftrightarrow> scan_inv cfg d h0 h"
  "scan_inv cfg d h0 (set_stale i e h) \<longleftrightarrow> scan_inv cfg d h0 h"
  "scan_inv cfg d h0 (save_map h) \<longleftrightarrow> scan_inv cfg d h0 h"
  "scan_inv cfg d h0 (pin_path a h) \<longleftrightarrow> scan_inv cfg d h0 h"
  "scan_inv cfg d h0 (scan_entry cfg' i e ls h) \<longleftrightarrow> scan_inv cfg d h0 h"
  by (rule scan_inv_cong; simp add: harness_simps state_defs scan_entry_def Let_def)+

lemma scan_inv_same: "same_but_cache h h' \<Longrightarrow> scan_inv cfg d h0 h' \<longleftrightarrow> scan_inv cfg d h0 h"
  by (rule scan_inv_cong) (simp_all add: same_but_cache_fields)

lemma map_set_keeps: "r \<in> set kvs \<Longrightarrow> fst r \<noteq> i \<Longrightarrow> r \<in> set (map_set i x kvs)"
  by (induction i x kvs rule: map_set.induct) auto

lemma scan_inv_retire:
  assumes "scan_inv cfg d h0 h" "store_get (h_store h0) i = Some p" "\<not> has_content cfg d p (mhash (metadata p))"
    and "told_of cfg d p \<lparr>ret_absPath = a, reason = why\<rparr>"
  shows "scan_inv cfg d h0 (retire i a why h)"
proof -
  let ?h = "retire i a why h" and ?info = "\<lparr>ret_absPath = a, reason = why\<rparr>"
  have f: "h_anchors ?h = h_anchors h" "h_retired ?h = map_set i ?info (h_retired h)" "h_store ?h = store_remove i (h_store h)"
    by (simp_all add: retire_def remove_plugin_def unpin_path_def)
  have "mount_after cfg d (store_get (h_store h0) j) (store_get (h_store ?h) j) (map_of (h_retired ?h) j)" for j
    using assms by (cases "j = i") (simp_all add: scan_inv_def f mount_after_def [of _ _ "Some p" None])
  moreover have "record_from cfg d h0 r" if "r \<in> set (h_retired ?h)" for r
    using that assms map_set_mem [of r i ?info "h_retired h"] by (auto simp: scan_inv_def f record_from_def [of _ _ _ "(i, ?info)"])
  moreover have "r \<in> set (h_retired ?h)" if "r \<in> set (h_retired h0)" "store_get (h_store h0) (fst r) = None" for r
    using that assms(1,2) unfolding f by (intro map_set_keeps) (auto simp: scan_inv_def)
  ultimately show ?thesis using assms(1) by (simp add: scan_inv_def f(1))
qed

lemma scan_inv_remounted:
  assumes "scan_inv cfg d h0 h" "store_get (h_store h0) (pid p) = Some p" "\<not> has_content cfg d p (mhash (metadata p))"
    and "d (source_path p) = Some f"
  shows "scan_inv cfg d h0 (put_same (remounted cfg p (disk_hash cfg f) (disk_lines f) n) h)"
proof -
  let ?q = "remounted cfg p (disk_hash cfg f) (disk_lines f) n"
  have f: "h_anchors (put_same ?q h) = h_anchors h" "h_retired (put_same ?q h) = h_retired h"
    "h_store (put_same ?q h) = store_upsert ?q (h_store h)" "pid ?q = pid p"
    by (simp_all add: put_same_def put_new_def put_object_def remounted_def split: option.split)
  have "mount_after cfg d (Some p) (Some ?q) x" for x using assms(3,4) by (auto simp: mount_after_def)
  with assms(1,2) show ?thesis by (simp add: scan_inv_def f)
qed

definition target_ok :: "harness \<Rightarrow> scan_target \<Rightarrow> bool" where
  "target_ok h0 t \<longleftrightarrow> (\<forall>p. t_plugin t = Some p \<longrightarrow> store_get (h_store h0) (pid p) = Some p \<and> source_path p = t_absPath t)"

lemma scan_targets_target_ok:
  assumes "harness_ok cfg h0" "h_store h = h_store h0" "t \<in> set (scan_targets h batch)"
  shows "target_ok h0 t"
proof -
  have "store_get (h_store h0) (pid p) = Some p \<and> source_path p = t_absPath t" if p: "t_plugin t = Some p" for p
  proof -
    have i: "store_get (h_store h0) (pluginIdOf (t_absPath t)) = Some p" using assms(2,3) p by (auto simp: scan_targets_def)
    from harness_ok_store [OF assms(1) i] i show ?thesis by (auto simp: plugin_ok_def pluginIdOf_def)
  qed
  then show ?thesis by (simp add: target_ok_def)
qed

lemma scan_missing_inv:
  assumes "scan_inv cfg d h0 h" "target_ok h0 t" "d (t_absPath t) = None" "scan_missing t h = (b, h')"
  shows "scan_inv cfg d h0 h'"
proof -
  have "scan_inv cfg d h0 (retire (pid p) (t_absPath t) deleted_reason h)" if "t_plugin t = Some p" for p
    by (rule scan_inv_retire [OF assms(1), of "pid p" p])
      (use that assms(2,3) in \<open>auto simp: target_ok_def has_content_def told_of_def mount_lines_def retired_line_def\<close>)
  with assms(1,4) show ?thesis by (auto simp: scan_missing_def Let_def split: option.splits if_splits)
qed

lemma scan_mount_inv:
  assumes "scan_inv cfg d h0 h" "store_get (h_store h0) (pid p) = Some p" "d (source_path p) = Some f"
    and "fhash (r_entry r) = disk_hash cfg f" "fhash (r_entry r) \<noteq> mhash (metadata p)"
    and "scan_mount cfg (source_path p) p r (disk_lines f) h = (b, h')"
  shows "scan_inv cfg d h0 h'"
proof -
  have changed: "\<not> has_content cfg d p (mhash (metadata p))" using assms(3-5) by (auto simp: has_content_def)
  have "scan_inv cfg d h0 (retire (pid p) (source_path p) (changed_reason n) h)" if "enat (changeThreshold (length (disk_lines f))) \<le> n" for n
    by (rule scan_inv_retire [OF assms(1,2) changed]) (use that assms(3) in \<open>auto simp: told_of_def mount_lines_def\<close>)
  moreover have "scan_inv cfg d h0 (put_same (remounted cfg p (disk_hash cfg f) (disk_lines f) n) h)" for n
    by (rule scan_inv_remounted [OF assms(1,2) changed assms(3)])
  ultimately show ?thesis using assms(4,6) by (auto simp: scan_mount_def Let_def split: if_splits)
qed

lemma scan_check_entry_inv:
  assumes "scan_inv cfg d h0 h" "scan_check_entry cfg d now t r h = (b, h')"
  shows "scan_inv cfg d h0 h'"
proof -
  obtain ls h1 where l: "entry_lines cfg d now (t_absPath t) (r_entry r) h = (ls, h1)" by fastforce
  have "scan_inv cfg d h0 h1" using assms(1) scan_inv_same [OF entry_lines_same [OF l]] by simp
  with assms l show ?thesis by (auto simp: scan_check_entry_def split: option.splits if_splits)
qed

lemma scan_one_inv:
  assumes "sees cfg d h" "fetched_now cfg d tr" "target_ok h0 (fst tr)" "scan_inv cfg d h0 h" "scan_one cfg d now tr h = (b, h')"
  shows "scan_inv cfg d h0 h'"
proof (cases "snd tr")
  case None
  with assms scan_missing_inv [OF assms(4,3)] show ?thesis
    by (auto simp: scan_one_def Let_def fetched_now_def split: prod.splits)
next
  case (Some r)
  then obtain f where f: "d (t_absPath (fst tr)) = Some f" "describes (o_hashBuffer cfg) (r_entry r) f"
    using assms(2) by (auto simp: fetched_now_def)
  show ?thesis
  proof (cases "mount_changed (fst tr) r")
    case False
    with assms(5) Some show ?thesis by (auto simp: scan_one_def intro: scan_check_entry_inv [OF assms(4)])
  next
    case True
    then obtain p where p: "t_plugin (fst tr) = Some p" "fhash (r_entry r) \<noteq> mhash (metadata p)"
      by (auto simp: mount_changed_def split: option.splits)
    with assms(3) have src: "store_get (h_store h0) (pid p) = Some p" "t_absPath (fst tr) = source_path p"
      by (auto simp: target_ok_def)
    obtain h1 where e: "entry_lines cfg d now (source_path p) (r_entry r) h = (Some (disk_lines f), h1)" "same_but_cache h h1"
      using entry_lines_some [OF assms(1) f] src(2) by metis
    obtain retired h2 where m: "scan_mount cfg (source_path p) p r (disk_lines f) h1 = (retired, h2)" by fastforce
    have "scan_inv cfg d h0 h1" using assms(4) scan_inv_same [OF e(2)] by simp
    from scan_mount_inv [OF this src(1) _ _ p(2) m] f src(2) have "scan_inv cfg d h0 h2" by (simp add: describes_def)
    with assms(5) Some True p(1) src(2) e(1) m show ?thesis
      by (auto simp: scan_one_def split: if_splits intro: scan_check_entry_inv)
  qed
qed

lemma scan_loop_inv:
  "sees cfg d h \<Longrightarrow> list_all (fetched_now cfg d) trs \<Longrightarrow> list_all (target_ok h0 \<circ> fst) trs \<Longrightarrow> scan_inv cfg d h0 h
     \<Longrightarrow> scan_loop cfg d now trs dirty h = (b, h') \<Longrightarrow> scan_inv cfg d h0 h'"
proof (induction trs arbitrary: h dirty)
  case (Cons tr trs)
  obtain x h1 where one: "scan_one cfg d now tr h = (Some x, h1)" "sees cfg d h1"
    using scan_one_returns [of cfg d h tr now] Cons.prems by auto
  have "scan_inv cfg d h0 h1" by (rule scan_one_inv [OF Cons.prems(1) _ _ _ one(1)]) (use Cons.prems in auto)
  with Cons.IH [of h1 "dirty \<or> x"] Cons.prems one show ?case by simp
qed simp

lemma pin_targets_inv: "scan_inv cfg d h0 (pin_targets ts h) \<longleftrightarrow> scan_inv cfg d h0 h"
  unfolding pin_targets_def by (induction ts arbitrary: h) auto

lemma scan_fetch_same: "scan_fetch cfg d now ts h = (trs, h') \<Longrightarrow> same_but_cache h h' \<and> map fst trs = ts"
proof (induction ts arbitrary: h trs h')
  case (Cons t ts)
  obtain r h1 where f: "fetch_file cfg d now (t_absPath t) h = (r, h1)" by fastforce
  obtain rs h2 where g: "scan_fetch cfg d now ts h1 = (rs, h2)" by fastforce
  with Cons f fetch_same [OF f] Cons.IH [OF g] show ?case by (auto intro: same_but_cache_trans)
qed simp

lemma pickScanBatch_fields:
  "pickScanBatch h = (b, h') \<Longrightarrow> h_store h' = h_store h \<and> h_retired h' = h_retired h \<and> h_anchors h' = h_anchors h"
  by (auto simp: pickScanBatch_def Let_def split: if_splits prod.splits)

lemma scanDiskChanges_inv:
  assumes "harness_ok cfg h0" "sees cfg d h" "scan_inv cfg d h0 h" "h_store h = h_store h0" "scanDiskChanges cfg d now h = (b, h')"
  shows "scan_inv cfg d h0 h'"
proof -
  obtain batch h1 where pick: "pickScanBatch h = (batch, h1)" by fastforce
  then have h1: "scan_inv cfg d h0 h1" "sees cfg d h1" "h_store h1 = h_store h0"
    using assms(2-4) pickScanBatch_sees [OF pick] pickScanBatch_fields [OF pick] scan_inv_cong [of h1 h] by simp_all
  define ts where "ts = scan_targets h1 batch"
  obtain trs h2 where f: "scan_fetch cfg d now ts (pin_targets ts h1) = (trs, h2)" by fastforce
  have p: "scan_inv cfg d h0 (pin_targets ts h1)" "sees cfg d (pin_targets ts h1)"
    using h1 by (simp_all add: pin_targets_inv pin_targets_sees)
  have h2: "scan_inv cfg d h0 h2" "sees cfg d h2" "list_all (fetched_now cfg d) trs"
    using scan_fetch_sees [OF p(2) f] scan_inv_same [OF conjunct1 [OF scan_fetch_same [OF f]]] p(1) by simp_all
  have "target_ok h0 (fst tr)" if "tr \<in> set trs" for tr
  proof -
    have "fst tr \<in> set ts" using scan_fetch_same [OF f] that by (metis image_eqI list.set_map)
    then show ?thesis unfolding ts_def by (rule scan_targets_target_ok [OF assms(1) h1(3)])
  qed
  then have "list_all (target_ok h0 \<circ> fst) trs" by (simp add: list_all_iff)
  from scan_loop_inv [OF h2(2,3) this h2(1)] have "scan_inv cfg d h0 h3" if "scan_loop cfg d now trs False h2 = (x, h3)" for x h3
    using that .
  with assms(5) pick f show ?thesis
    by (auto simp: scanDiskChanges_def ts_def split: prod.splits option.splits if_splits)
qed

subsection \<open>The report and the state before the scan\<close>

lemma set_sort_by [simp]: "set (sort_by cmp xs) = set xs"
proof -
  have "set (insert_by cmp x ys) = insert x (set ys)" for x ys by (induction ys) auto
  then show ?thesis by (induction xs) (simp_all add: sort_by_def)
qed

lemma delta_report_iff:
  assumes "store_ok (h_store h)"
  shows "line \<in> set (delta_report cfg d h) \<longleftrightarrow> (\<exists>r \<in> set (h_retired h). line = retired_line (snd r))
    \<or> (\<exists>q. store_get (h_store h) (pid q) = Some q \<and> isSourceMeta q \<and> line \<in> set (mount_report cfg d h q))"
  by (auto simp: delta_report_def retired_lines_def tracked_plugins_def store_all_iff [OF assms])

lemma remounted_same:
  "pid (remounted cfg p x ls n) = pid p" "source_path (remounted cfg p x ls n) = source_path p"
  "isSourceMeta (remounted cfg p x ls n) = isSourceMeta p"
  by (simp_all add: remounted_def source_path_def isSourceMeta_def)

lemma changed_line_remounted: "changed_line (remounted cfg p x ls n) = changed_line (remounted cfg p x ls 0)"
  by (simp add: remounted_def changed_line_def mountedRanges_def render_def fun_eq_iff)

text \<open>A mount whose file is not what the conversation shows.\<close>

definition shown_otherwise :: "harness_options \<Rightarrow> disk \<Rightarrow> harness \<Rightarrow> plugin \<Rightarrow> bool" where
  "shown_otherwise cfg d h p \<longleftrightarrow> (\<exists>anchor. map_of (h_anchors h) (pid p) = Some anchor \<and> \<not> has_content cfg d p anchor)"

lemma mount_report_some: "line \<in> set (mount_report cfg d h p) \<Longrightarrow> shown_otherwise cfg d h p \<and> line \<in> mount_lines cfg d p"
  by (cases "map_of (h_anchors h) (pid p)"; cases "d (source_path p)")
    (auto simp: mount_report_def mount_lines_def shown_otherwise_def has_content_def split: if_splits)

lemma mount_report_exists: "shown_otherwise cfg d h p \<Longrightarrow> mount_report cfg d h p \<noteq> []"
  by (cases "d (source_path p)") (auto simp: mount_report_def shown_otherwise_def has_content_def)

lemma remounted_lines:
  assumes "d (source_path p) = Some f" "line \<in> set (mount_report cfg d h (remounted cfg p (disk_hash cfg f) (disk_lines f) n))"
  shows "line \<in> mount_lines cfg d p"
  using assms changed_line_remounted [of cfg p "disk_hash cfg f" "disk_lines f" n]
  by (cases "map_of (h_anchors h) (pid p)") (auto simp: mount_report_def mount_lines_def remounted_same split: if_splits)

lemma shown_otherwise_cong:
  "h_anchors h' = h_anchors h \<Longrightarrow> pid q = pid p \<Longrightarrow> source_path q = source_path p \<Longrightarrow> shown_otherwise cfg d h' q \<longleftrightarrow> shown_otherwise cfg d h p"
  by (simp add: shown_otherwise_def has_content_def)

lemma report_covers:
  assumes "harness_ok cfg h0" "scan_inv cfg d h0 h" "store_ok (h_store h)" "p \<in> set (store_all (h_store h0))" "shown_otherwise cfg d h0 p"
  shows "\<exists>line \<in> set (delta_report cfg d h). line \<in> mount_lines cfg d p"
proof -
  have "store_ok (h_store h0)" using assms(1) by (simp add: harness_ok_def)
  then have get: "store_get (h_store h0) (pid p) = Some p" using assms(4) by (simp add: store_all_iff)
  from harness_ok_store [OF assms(1) this] get have p: "store_get (h_store h0) (pid p) = Some p" "isSourceMeta p"
    by (simp_all add: plugin_ok_def)
  have anchors: "h_anchors h = h_anchors h0" using assms(2) by (simp add: scan_inv_def)
  have after: "mount_after cfg d (Some p) (store_get (h_store h) (pid p)) (map_of (h_retired h) (pid p))"
    using assms(2) p(1) by (metis scan_inv_def)
  show ?thesis
  proof (cases "store_get (h_store h) (pid p)")
    case None
    with after obtain info where "map_of (h_retired h) (pid p) = Some info" "told_of cfg d p info" by (auto simp: mount_after_def)
    then show ?thesis by (force simp: delta_report_iff [OF assms(3)] told_of_def dest: map_of_SomeD)
  next
    case (Some q)
    with after have q: "q = p \<or> (\<exists>f n. d (source_path p) = Some f \<and> q = remounted cfg p (disk_hash cfg f) (disk_lines f) n)"
      by (auto simp: mount_after_def)
    then have same: "pid q = pid p" "source_path q = source_path p" "isSourceMeta q" using p(2) by (auto simp: remounted_same)
    have "mount_report cfg d h q \<noteq> []"
      using mount_report_exists shown_otherwise_cong [OF anchors same(1,2)] assms(5) by blast
    then obtain line where line: "line \<in> set (mount_report cfg d h q)" by (meson list.set_sel(1))
    with q mount_report_some remounted_lines have "line \<in> mount_lines cfg d p" by blast
    moreover have "line \<in> set (delta_report cfg d h)"
      unfolding delta_report_iff [OF assms(3)] using line Some same by (intro disjI2 exI [of _ q]) simp
    ultimately show ?thesis by blast
  qed
qed

lemma report_only:
  assumes "harness_ok cfg h0" "scan_inv cfg d h0 h" "store_ok (h_store h)" "line \<in> set (delta_report cfg d h)"
  shows "(\<exists>r \<in> set (h_retired h0). line = retired_line (snd r))
    \<or> (\<exists>p \<in> set (store_all (h_store h0)). (shown_otherwise cfg d h0 p \<or> \<not> has_content cfg d p (mhash (metadata p)))
        \<and> line \<in> mount_lines cfg d p)"
  using assms(4) unfolding delta_report_iff [OF assms(3)]
proof
  assume "\<exists>r \<in> set (h_retired h). line = retired_line (snd r)"
  then obtain r where r: "record_from cfg d h0 r" "line = retired_line (snd r)" using assms(2) by (auto simp: scan_inv_def)
  then show ?thesis
    using harness_ok_store [OF assms(1)] assms(1)
    by (auto simp: record_from_def told_of_def harness_ok_def store_all_iff)
next
  assume "\<exists>q. store_get (h_store h) (pid q) = Some q \<and> isSourceMeta q \<and> line \<in> set (mount_report cfg d h q)"
  then obtain q where q: "store_get (h_store h) (pid q) = Some q" "line \<in> set (mount_report cfg d h q)" by blast
  have anchors: "h_anchors h = h_anchors h0" using assms(2) by (simp add: scan_inv_def)
  have "mount_after cfg d (store_get (h_store h0) (pid q)) (Some q) (map_of (h_retired h) (pid q))"
    using assms(2) q(1) by (metis scan_inv_def)
  then obtain p where p: "store_get (h_store h0) (pid q) = Some p"
    "q = p \<or> (\<exists>f n. d (source_path p) = Some f \<and> q = remounted cfg p (disk_hash cfg f) (disk_lines f) n)"
    unfolding mount_after_def by (cases "store_get (h_store h0) (pid q) = Some q") auto
  then have same: "pid q = pid p" "source_path q = source_path p" by (auto simp: remounted_same)
  then have "p \<in> set (store_all (h_store h0))" using p(1) assms(1) by (simp add: harness_ok_def store_all_iff)
  moreover have "shown_otherwise cfg d h0 p" using mount_report_some [OF q(2)] shown_otherwise_cong [OF anchors same] by blast
  moreover have "line \<in> mount_lines cfg d p" using p(2) q(2) mount_report_some remounted_lines by blast
  ultimately show ?thesis by blast
qed

lemma scanned_inv:
  assumes "harness_sound cfg h" "sees cfg d h"
  shows "scan_inv cfg d h (scanned cfg d now h) \<and> store_ok (h_store (scanned cfg d now h))"
proof -
  let ?h = "h\<lparr>h_scanPending := False\<rparr>"
  obtain b h1 where run: "scanDiskChanges cfg d now ?h = (b, h1)" by fastforce
  have "scan_inv cfg d h ?h" "sees cfg d ?h" using scan_inv_cong [of ?h h] sees_cong [of ?h h] assms(2) by simp_all
  then have "scan_inv cfg d h h1" using scanDiskChanges_inv [OF harness_sound_ok [OF assms(1)] _ _ _ run] by simp
  moreover have "harness_sound cfg h1" using scanDiskChanges_ok [OF _ run] assms(1) by simp
  ultimately show ?thesis using run assms(1) by (auto simp: scanned_def harness_sound_def harness_ok_def)
qed


text \<open>A configuration, a mounted file and a harness that holds it, for the examples below.\<close>

definition plain_options :: harness_options where
  "plain_options = \<lparr>o_host = \<lparr>homedir = js ''/h'', process_cwd = js ''/''\<rparr>,
     o_hashBuffer = (\<lambda>bs. decimal (length bs)), o_sha256 = (\<lambda>_. []),
     o_localeCompare = (\<lambda>_ _. 0), o_json_parse = (\<lambda>_. None), o_memoryDeps = None, o_memoryBatchFiles = 5,
     o_memoryBatchLines = 1000, o_onEvent = False, o_env_model = Some (js ''p/m''), o_models_json = None\<rparr>"

definition example_plugin :: "js_string \<Rightarrow> line_range list \<Rightarrow> plugin" where
  "example_plugin hash segs =
     \<lparr>pid = pluginIdOf (js ''/a''), category = SourceCategory, ptoolName = js ''read'', identity = js ''file:/a'',
      metadata = \<lparr>absPath = Some (js ''/a''), mhash = hash, mtotalLines = 3, segments = segs, anchorToolCallId = js ''t'',
        updatedAtHashChange = False, truncatedNote = None, memoryState = Some MemPending, pendingMemoryLines = None,
        lineHashes = None\<rparr>\<rparr>"

definition example_harness :: "js_string \<Rightarrow> plugin \<Rightarrow> harness" where
  "example_harness anchor p =
     (set_anchor (pid p) anchor (put_new p (createHarness plain_options (js ''/'') None)))\<lparr>h_scanPending := False\<rparr>"

definition example_disk :: "byte list \<Rightarrow> disk" where
  "example_disk bs = [js ''/a'' \<mapsto> \<lparr>df_stat = \<lparr>st_mtimeNs = 0, st_size = int (length bs)\<rparr>, df_content = bs, df_readable = True\<rparr>]"

definition example_context :: host_context where
  "example_context = \<lparr>c_cwd = js ''/'', c_registry = None, c_model = None, c_writer = True\<rparr>"

lemma example_sees: "sees plain_options (example_disk bs) (example_harness anchor p)"
  by (simp add: sees_def example_harness_def example_disk_def set_anchor_def put_new_def createHarness_def new_cache_def coherent_def coherent_at_def)

lemma example_path: "resolveAbsPath (o_host plain_options) (js ''/a'') cwd = js ''/a''"
  by (simp add: resolveAbsPath_def plain_options_def resolve_path_def isAbsolute_def path_segments_def push_segment_def
      of_segments_def js_def)

lemma example_lines: "file_lines [0x61, 0x0a, 0x62] = [js ''a'', js ''b'']"
  by (simp add: file_lines_def utf8_lossy.simps scalar_utf16_def js_def)

lemma example_ok:
  assumes "source_ranges_ok segs"
  shows "plugin_ok plain_options (example_plugin hash segs)"
    "harness_sound plain_options (example_harness anchor (example_plugin hash segs))"
    "harness_ok plain_options (example_harness anchor (example_plugin hash segs))"
proof -
  show ok: "plugin_ok plain_options (example_plugin hash segs)"
    using assms by (simp add: plugin_ok_def isSourceMeta_def source_path_def example_plugin_def example_path)
  show sound: "harness_sound plain_options (example_harness anchor (example_plugin hash segs))"
    unfolding example_harness_def by (simp add: put_sound(1) [OF _ ok])
  then show "harness_ok plain_options (example_harness anchor (example_plugin hash segs))" by (rule harness_sound_ok)
qed


subsection \<open>Reads\<close>

lemma subtract_first:
  assumes "list_all valid_range mounted" "subtract mounted want = m # ms"
  shows "lines_of m \<noteq> {}" "lines_of m \<subseteq> lines_of want - covered mounted"
    "\<forall>n \<in> lines_of want. n < rstart m \<longrightarrow> n \<in> covered mounted"
proof -
  have cov: "lines_of m \<union> covered ms = lines_of want - covered mounted" and can: "canonical (m # ms)"
    using subtract_spec [OF assms(1), of want] assms(2) by auto
  show "lines_of m \<noteq> {}" using can by (auto simp: valid_range_def)
  show "lines_of m \<subseteq> lines_of want - covered mounted" using cov by auto
  have "rstart m \<le> n" if "n \<in> covered ms" for n
    using can that by (auto simp: covered_def valid_range_def)
  then show "\<forall>n \<in> lines_of want. n < rstart m \<longrightarrow> n \<in> covered mounted" using cov by force
qed

lemma subtract_empty:
  assumes "list_all valid_range mounted"
  shows "subtract mounted want = [] \<longleftrightarrow> lines_of want \<subseteq> covered mounted"
proof (cases "subtract mounted want")
  case Nil
  with subtract_spec [OF assms, of want] show ?thesis by auto
next
  case (Cons m ms)
  with subtract_first(1,2) [OF assms Cons] show ?thesis by auto
qed

lemma plugin_ok_valid: "plugin_ok cfg p \<Longrightarrow> list_all valid_range (segments (metadata p))"
  by (auto simp: plugin_ok_def source_ranges_ok_def canonical_def)

text \<open>How a read of a file on the disk is treated, once the cache has been looked up.\<close>

definition read_decision ::
  "harness_options \<Rightarrow> js_string \<Rightarrow> disk_file \<Rightarrow> js_string \<Rightarrow> read_input \<Rightarrow> plugin option \<Rightarrow> js_string list option \<Rightarrow> harness
     \<Rightarrow> read_input \<times> harness" where
  "read_decision cfg a f callId input mounted old h1 =
    (case mounted of
      Some p \<Rightarrow>
        if mhash (metadata p) = disk_hash cfg f then
          (let want = rangeFromInput input (length (disk_lines f)) in
           if rstart want > int (length (disk_lines f)) then (input, h1)
           else case subtract (segments (metadata p)) want of
             [] \<Rightarrow> (input, emit cfg (EvToolCall (pluginIdOf a) KNoop) (set_pending callId (PNoop (pluginIdOf a)) h1))
           | m # _ \<Rightarrow>
               (input\<lparr>in_offset := Some (rstart m), in_limit := Some (rend m - rstart m + 1)\<rparr>,
                emit cfg (EvToolCall (pluginIdOf a) KIncrement) (set_pending callId (PIncrement (pluginIdOf a) (disk_hash cfg f)) h1)))
        else (input, emit cfg (EvToolCall (pluginIdOf a) KUpdated)
                (set_pending callId (PUpdated (pluginIdOf a) (disk_hash cfg f) (mhash (metadata p)) old) h1))
    | None \<Rightarrow> (input, emit cfg (EvToolCall (pluginIdOf a) KNew) (set_pending callId (PNew (pluginIdOf a) a (disk_hash cfg f)) h1)))"

lemma onToolCall_read:
  assumes "sees cfg d h" "in_path input = Some path" "path \<noteq> []"
    and "a = resolveAbsPath (o_host cfg) path (c_cwd ctx)" "d a = Some f"
  obtains h1 old where "same_but_cache (rememberCtx ctx h) h1" "sees cfg d h1" "h_pending h1 = h_pending h"
    "onToolCall cfg d now ctx (js ''read'') callId input h =
    read_decision cfg a f callId input (source_plugin h (pluginIdOf a)) old h1"
proof -
  define h0 where "h0 = rememberCtx ctx h"
  have h0: "sees cfg d h0" "source_plugin h0 = source_plugin h" "h_pending h0 = h_pending h"
    using assms(1) by (simp_all add: h0_def source_plugin_def rememberCtx_def fun_eq_iff sees_def)
  obtain r h1 where g: "fetch_file cfg d now a h0 = (Some r, h1)" "same_but_cache h0 h1"
    "fhash (r_entry r) = disk_hash cfg f" "totalLines (r_entry r) = length (disk_lines f)" "sees cfg d h1"
    by (rule fetch_file_some [OF h0(1) assms(5)])
  have h1: "source_plugin h1 = source_plugin h" "h_pending h1 = h_pending h"
    using same_but_cache_fields [OF g(2)] h0 by auto
  have i: "js ''source:'' @ identify (o_host cfg) input (c_cwd ctx) = pluginIdOf a"
    using assms(2,4) by (simp add: identify_def pluginIdOf_identify)
  have ident: "identify (o_host cfg) input (c_cwd ctx) \<noteq> []"
    using assms(2) by (simp add: identify_def identifyPath_def js_def)
  have bind: "Option.bind (store_get (h_store h1) (pluginIdOf a)) (\<lambda>p. if isSourceMeta p then Some p else None)
      = source_plugin h (pluginIdOf a)"
    unfolding h1(1) [symmetric] by (simp add: source_plugin_def split: option.splits)
  show thesis
    by (rule that [of h1 "Option.bind (r_old r) flines"], rule g(2) [unfolded h0_def], rule g(5), rule h1(2), unfold onToolCall_def h0_def [symmetric])
      (simp add: read_decision_def assms(2,3) assms(4) [symmetric] g i bind ident adapter_registry_def mountedRanges_def Let_def
        cong: option.case_cong if_cong list.case_cong)
qed

text \<open>Property C12. How a read is treated depends on what is mounted and on the disk alone. A file that is not mounted
  is read as asked, to be mounted; so is a file whose content differs from the mounted one. If the content is the same and
  every wanted line is mounted, the answer will be a reference; if some line is not, the call is
  rewritten to the first block of wanted lines that are not mounted; a read past the end of the file is
  left to the tool, which reports it.\<close>

theorem read_classified:
  assumes "harness_ok cfg h" "sees cfg d h" "in_path input = Some path" "path \<noteq> []"
    and "a = resolveAbsPath (o_host cfg) path (c_cwd ctx)" "d a = Some f"
    and "onToolCall cfg d now ctx (js ''read'') callId input h = (input', h')"
  shows "case source_plugin h (pluginIdOf a) of
      None \<Rightarrow> input' = input \<and> map_of (h_pending h') callId = Some (PNew (pluginIdOf a) a (disk_hash cfg f))
    | Some p \<Rightarrow>
        if mhash (metadata p) \<noteq> disk_hash cfg f then
          input' = input \<and> (\<exists>old. map_of (h_pending h') callId
             = Some (PUpdated (pluginIdOf a) (disk_hash cfg f) (mhash (metadata p)) old))
        else let want = rangeFromInput input (length (disk_lines f)) in
          if rstart want > int (length (disk_lines f)) then input' = input \<and> h_pending h' = h_pending h
          else if lines_of want \<subseteq> covered (segments (metadata p)) then
            input' = input \<and> map_of (h_pending h') callId = Some (PNoop (pluginIdOf a))
          else map_of (h_pending h') callId = Some (PIncrement (pluginIdOf a) (disk_hash cfg f))
            \<and> (\<exists>m. input' = input\<lparr>in_offset := Some (rstart m), in_limit := Some (rend m - rstart m + 1)\<rparr>
                 \<and> lines_of m \<noteq> {} \<and> lines_of m \<subseteq> lines_of want - covered (segments (metadata p))
                 \<and> (\<forall>n \<in> lines_of want. n < rstart m \<longrightarrow> n \<in> covered (segments (metadata p))))"
proof -
  obtain h1 old where h1: "h_pending h1 = h_pending h" and run: "(input', h') =
    read_decision cfg a f callId input (source_plugin h (pluginIdOf a)) old h1"
    by (rule onToolCall_read [OF assms(2-6)]) (simp add: assms(7) [symmetric])
  show ?thesis
  proof (cases "source_plugin h (pluginIdOf a)")
    case None
    with run show ?thesis
      by (auto simp: read_decision_def set_pending_def harness_simps)
  next
    case (Some p)
    have v: "list_all valid_range (segments (metadata p))"
      using source_plugin_ok [OF assms(1) Some] plugin_ok_valid by blast
    define want where "want = rangeFromInput input (length (disk_lines f))"
    note none = subtract_empty [OF v, of want]
    show ?thesis
    proof (cases "mhash (metadata p) = disk_hash cfg f")
      case False
      with Some run show ?thesis
        by (auto simp: read_decision_def set_pending_def harness_simps)
    next
      case True
      show ?thesis
      proof (cases "subtract (segments (metadata p)) want")
        case Nil
        with True Some run none h1 show ?thesis
          by (auto simp: read_decision_def set_pending_def harness_simps want_def Let_def)
      next
        case (Cons m ms)
        with True Some run none h1 subtract_first [OF v Cons] show ?thesis
          by (auto simp: read_decision_def set_pending_def harness_simps want_def [symmetric]
              Let_def split: if_splits)
      qed
    qed
  qed
qed

theorem read_classified_witness:
  "\<exists>h input' h'. onToolCall plain_options (example_disk [0x61, 0x0a, 0x62]) 0 example_context (js ''read'') (js ''c'')
       \<lparr>in_path = Some (js ''/a''), in_offset = None, in_limit = None\<rparr> h = (input', h')
     \<and> input' = \<lparr>in_path = Some (js ''/a''), in_offset = Some 2, in_limit = Some 1\<rparr>
     \<and> map_of (h_pending h') (js ''c'') = Some (PIncrement (pluginIdOf (js ''/a'')) (js ''3''))"
proof -
  define d where "d = example_disk [0x61, 0x0a, 0x62]"
  define p where "p = example_plugin (js ''3'') [mk_range 1 1]"
  define h where "h = example_harness (js ''3'') p"
  define input where "input = \<lparr>in_path = Some (js ''/a''), in_offset = None, in_limit = None\<rparr>"
  obtain input' h' where run: "onToolCall plain_options d 0 example_context (js ''read'') (js ''c'') input h = (input', h')"
    by fastforce
  have ok: "harness_ok plain_options h" "sees plain_options d h"
    unfolding h_def p_def d_def by (rule example_ok, simp add: source_ranges_ok_def lines_of_def valid_range_def, rule example_sees)
  have f: "d (js ''/a'') = Some \<lparr>df_stat = \<lparr>st_mtimeNs = 0, st_size = 3\<rparr>, df_content = [0x61, 0x0a, 0x62], df_readable = True\<rparr>"
    by (simp add: d_def example_disk_def)
  have sp: "source_plugin h (pluginIdOf (js ''/a'')) = Some p"
    by (simp add: source_plugin_def h_def p_def example_harness_def set_anchor_def put_new_def createHarness_def
        example_plugin_def isSourceMeta_def)
  have hash: "o_hashBuffer plain_options [0x61, 0x0a, 0x62] = js ''3''"
    by (simp add: plain_options_def decimal.simps js_def)
  have path: "in_path input = Some (js ''/a'')" "js ''/a'' \<noteq> []"
    "js ''/a'' = resolveAbsPath (o_host plain_options) (js ''/a'') (c_cwd example_context)"
    by (simp_all add: input_def example_path)
  have more: "\<not> {1..2::int} \<subseteq> {1}" using subsetD [of "{1..2::int}" "{1}" 2] by auto
  have want: "rangeFromInput input (Suc (Suc 0)) = mk_range 1 2" by (simp add: input_def rangeFromInput_def)
  have "map_of (h_pending h') (js ''c'') = Some (PIncrement (pluginIdOf (js ''/a'')) (js ''3''))
      \<and> (\<exists>m. input' = input\<lparr>in_offset := Some (rstart m), in_limit := Some (rend m - rstart m + 1)\<rparr>
           \<and> lines_of m \<noteq> {} \<and> lines_of m \<subseteq> {1..2} - {1})"
    using read_classified [OF ok path(1,2,3) f run] sp hash more
    by (auto simp: Let_def example_lines want p_def example_plugin_def lines_of_def)
  then obtain m where m: "input' = input\<lparr>in_offset := Some (rstart m), in_limit := Some (rend m - rstart m + 1)\<rparr>"
    "lines_of m \<noteq> {}" "lines_of m \<subseteq> {1..2} - {1}" and pend: "map_of (h_pending h') (js ''c'') = Some (PIncrement (pluginIdOf (js ''/a'')) (js ''3''))"
    by blast
  have "rstart m \<le> rend m" using m(2) by (auto simp: lines_of_def)
  then have "rstart m \<in> {1..2} - {1}" "rend m \<in> {1..2} - {1}" using m(3) by (auto simp: lines_of_def)
  then have "rstart m = 2 \<and> rend m = 2" by auto
  with m pend run show ?thesis by (auto simp: input_def d_def)
qed

subsection \<open>Every state of the harness\<close>

text \<open>Property C7. In every state that the harness can reach from its first process, whatever the disk does between its handlers,
  however the memory batches interleave with them, and after any number of restarts and resumed sessions, whose entries hold plugins
  that the harness wrote there: there is one plugin per id, its id is made from the resolved path of its file, and its mounted ranges
  start at line one or later, are not empty, ascend and are separated.\<close>

theorem harness_reachable_sound:
  assumes "(harness_step cfg)\<^sup>*\<^sup>* (first_process cfg cwd map_file) w" and "store_get (h_store (hw w)) i = Some p"
  shows "distinct (map pid (store_all (h_store (hw w))))
    \<and> i = pluginIdOf (source_path p)
    \<and> resolveAbsPath (o_host cfg) (source_path p) [] = source_path p
    \<and> canonical (segments (metadata p)) \<and> covered (segments (metadata p)) \<subseteq> {1..}"
proof -
  have ok: "harness_ok cfg (hw w)" using harness_reachable_ok [OF assms(1)] by (auto simp: world_sound_def)
  have "map pid (store_all (h_store (hw w))) = map fst (h_store (hw w))"
    using ok by (auto simp: harness_ok_def store_ok_def store_all_def)
  then have "distinct (map pid (store_all (h_store (hw w))))"
    using ok by (simp only: harness_ok_def store_ok_def js_map_def)
  moreover from harness_ok_store [OF ok assms(2)] have "plugin_ok cfg p" "pid p = i" by auto
  ultimately show ?thesis by (auto simp: plugin_ok_def source_ranges_ok_def)
qed

text \<open>A file is read, mounted and written to the session; the process ends, and the next one resumes the session.\<close>

lemma mount_new_result:
  assumes "sees cfg d h" "d a = Some f" "describes (o_hashBuffer cfg) entry f" "resolveAbsPath (o_host cfg) a [] = a"
    and "valid_range got" "rend got \<le> int (totalLines entry)" "h_writer h"
  shows "\<exists>p h'. mount_new cfg d now callId a hash entry got h = (None, h') \<and> p \<in> set (h_persisted h')
    \<and> pid p = pluginIdOf a \<and> absPath (metadata p) = Some a \<and> segments (metadata p) = [got]"
proof -
  obtain h1 where e: "entry_lines cfg d now a entry h = (Some (disk_lines f), h1)" "same_but_cache h h1"
    by (rule entry_lines_some [OF assms(1-3)])
  have "h_writer h1" using e(2) assms(7) by (auto simp: same_but_cache_def)
  define p0 where "p0 = ingest (o_host cfg) (facts_of a hash (totalLines entry) callId got ModeNew) None"
  define p where "p = p0\<lparr>metadata := (metadata p0)\<lparr>memoryState := Some MemPending,
    lineHashes := Some (encodeFingerprint (lineFingerprint (o_sha256 cfg) (disk_lines f)))\<rparr>\<rparr>"
  obtain t h' where run: "mount_new cfg d now callId a hash entry got h = (t, h')" by fastforce
  have "t = None" using run by (simp add: mount_new_def e(1) Let_def)
  moreover have "p \<in> set (h_persisted h')"
    using run \<open>h_writer h1\<close> unfolding mount_new_def e(1) p0_def [symmetric]
    by (auto simp: Let_def p_def [symmetric] harness_simps queue_batch_def persistPlugin_def put_new_def set_anchor_def pin_path_def)
  moreover have "identifyPath (o_host cfg) a [] = js ''file:'' @ a" using assms(4) by (simp add: identifyPath_def)
  then have "pid p = pluginIdOf a \<and> absPath (metadata p) = Some a \<and> segments (metadata p) = [got]"
    using assms(5,6)
    by (simp add: p_def p0_def ingest_def buildPlugin_def facts_of_def new_meta_def Let_def pluginIdOf_def js_def valid_range_def)
  ultimately show ?thesis using run by blast
qed

lemma example_written:
  obtains w p where "(harness_step plain_options)\<^sup>*\<^sup>* (first_process plain_options (js ''/'') None) w" "p \<in> set (h_persisted (hw w))"
    "pid p = pluginIdOf (js ''/a'')" "absPath (metadata p) = Some (js ''/a'')" "segments (metadata p) = [mk_range 1 2]"
proof -
  define a where "a = js ''/a''"
  define d where "d = example_disk [0x61, 0x0a, 0x62]"
  define f where "f = \<lparr>df_stat = \<lparr>st_mtimeNs = 0, st_size = 3\<rparr>, df_content = [0x61, 0x0a, 0x62 :: byte], df_readable = True\<rparr>"
  define input where "input = \<lparr>in_path = Some (js ''/a''), in_offset = None, in_limit = None\<rparr>"
  define w0 where "w0 = first_process plain_options (js ''/'') None"
  have w0: "hw w0 = createHarness plain_options (js ''/'') None" by (simp add: w0_def first_process_def)
  have sees: "sees plain_options d (hw w0)"
    by (simp add: w0 d_def example_disk_def sees_def createHarness_def new_cache_def coherent_def coherent_at_def)
  have a: "a = resolveAbsPath (o_host plain_options) (js ''/a'') (c_cwd example_context)" "js ''/a'' \<noteq> []" "in_path input = Some (js ''/a'')"
    "a \<noteq> []" "d a = Some f" "resolveAbsPath (o_host plain_options) a [] = a"
    by (simp_all add: a_def example_path input_def d_def f_def example_disk_def)
  have lines: "length (disk_lines f) = 2" by (simp add: f_def example_lines)
  obtain h1 old where h1: "same_but_cache (rememberCtx example_context (hw w0)) h1" "sees plain_options d h1"
    "onToolCall plain_options d 0 example_context (js ''read'') (js ''c'') input (hw w0) =
      read_decision plain_options a f (js ''c'') input (source_plugin (hw w0) (pluginIdOf a)) old h1"
    by (rule onToolCall_read [OF sees a(3,2,1,5)])
  have none: "source_plugin (hw w0) i = None" for i by (simp add: source_plugin_def w0 createHarness_def store_get_def)
  define hash where "hash = disk_hash plain_options f"
  define h2 where "h2 = set_pending (js ''c'') (PNew (pluginIdOf a) a hash) h1"
  have quiet: "emit plain_options ev h = h" for ev h by (simp add: emit_def plain_options_def)
  have "onToolCall plain_options d 0 example_context (js ''read'') (js ''c'') input (hw w0) = (input, h2)"
    by (simp add: h1(3) none read_decision_def quiet h2_def hash_def)
  then have step1: "harness_step plain_options w0 (w0\<lparr>hw := h2\<rparr>)" by (rule tool_called)
  define ev where "ev = \<lparr>tr_tool = js ''read'', tr_callId = js ''c'', tr_input = input, tr_content = [TextContent (js ''a'')],
    tr_isError = False, tr_truncation = None\<rparr>"
  define h3 where "h3 = h2\<lparr>h_pending := map_delete (js ''c'') (h_pending h2)\<rparr>"
  have h3: "sees plain_options d h3" "source_plugin h3 i = None" "h_writer h3" for i
    using h1(1,2) none [of i] sees_cong [of h3 h1]
    by (auto simp: h3_def h2_def set_pending_def same_but_cache_def source_plugin_def rememberCtx_def example_context_def)
  obtain r h4 where h4: "fetch_file plain_options d 0 a h3 = (Some r, h4)" "sees plain_options d h4" "same_but_cache h3 h4"
    "totalLines (r_entry r) = length (disk_lines f)" "describes (o_hashBuffer plain_options) (r_entry r) f"
    by (rule fetch_file_some [OF h3(1) a(5)])
  have "source_plugin h4 i = None" "h_writer h4" for i
    using h3(2) [of i] h3(3) h4(3) by (auto simp: same_but_cache_def source_plugin_def)
  note h4 = h4 this
  have ev: "tr_tool ev = js ''read''" "tr_callId ev = js ''c''" "tr_content ev = [TextContent (js ''a'')]" "\<not> tr_isError ev"
    "tr_truncation ev = None" "tr_input ev = input" by (simp_all add: ev_def)
  have "onToolResult plain_options d 0 ev h2 = serve_result plain_options d 0 ev (PNew (pluginIdOf a) a hash) h3"
    unfolding onToolResult_def Let_def ev(2) h3_def [symmetric] by (simp add: ev h2_def set_pending_def has_image_def)
  also have "\<dots> = mount_new plain_options d 0 (js ''c'') a hash (r_entry r) (mk_range 1 2) h4"
  proof -
    have "got_range (tr_input ev) (tr_truncation ev) (totalLines (r_entry r)) = Some (mk_range 1 2)"
      using lines h4(4) by (simp add: ev got_range_def input_def Let_def)
    then show ?thesis by (simp add: serve_result_def ev result_path_def a(4) h4(1,6))
  qed
  finally have "onToolResult plain_options d 0 ev h2 = mount_new plain_options d 0 (js ''c'') a hash (r_entry r) (mk_range 1 2) h4" .
  moreover have range: "valid_range (mk_range 1 2)" "rend (mk_range 1 2) \<le> int (totalLines (r_entry r))"
    using lines h4(4) by (simp_all add: valid_range_def)
  obtain p h5 where p: "mount_new plain_options d 0 (js ''c'') a hash (r_entry r) (mk_range 1 2) h4 = (None, h5)" "p \<in> set (h_persisted h5)"
    "pid p = pluginIdOf a" "absPath (metadata p) = Some a" "segments (metadata p) = [mk_range 1 2]"
    using mount_new_result [OF h4(2) a(5) h4(5) a(6) range h4(7), of 0 "js ''c''" hash] by blast
  ultimately have "harness_step plain_options (w0\<lparr>hw := h2\<rparr>) (w0\<lparr>hw := h5\<rparr>)"
    using tool_returned [of plain_options d 0 ev "w0\<lparr>hw := h2\<rparr>"] by simp
  with step1 have "(harness_step plain_options)\<^sup>*\<^sup>* w0 (w0\<lparr>hw := h5\<rparr>)" by simp
  with p show thesis by (intro that [of "w0\<lparr>hw := h5\<rparr>" p]) (simp_all add: w0_def a_def)
qed

theorem harness_reachable_sound_witness:
  "\<exists>w p. (harness_step plain_options)\<^sup>*\<^sup>* (first_process plain_options (js ''/'') None) w \<and> p \<in> set (earlier w)
     \<and> store_get (h_store (hw w)) (pluginIdOf (js ''/a'')) = Some p \<and> covered (segments (metadata p)) = {1..2}
     \<and> distinct (map pid (store_all (h_store (hw w)))) \<and> canonical (segments (metadata p))"
proof -
  obtain w p where w: "(harness_step plain_options)\<^sup>*\<^sup>* (first_process plain_options (js ''/'') None) w" "p \<in> set (h_persisted (hw w))"
    and p: "pid p = pluginIdOf (js ''/a'')" "absPath (metadata p) = Some (js ''/a'')" "segments (metadata p) = [mk_range 1 2]"
    by (rule example_written)
  define w1 where "w1 = \<lparr>hw = createHarness plain_options (js ''/'') None, in_flight = [], earlier = earlier w @ h_persisted (hw w)\<rparr>"
  define w2 where "w2 = w1\<lparr>hw := onSessionStart plain_options example_context True [PluginEntry p] (hw w1)\<rparr>"
  have "harness_step plain_options w w1" unfolding w1_def by (rule restarted)
  moreover have "harness_step plain_options w1 w2"
    unfolding w2_def by (rule session_started) (use w(2) in \<open>auto simp: session_plugins_def w1_def\<close>)
  ultimately have run: "(harness_step plain_options)\<^sup>*\<^sup>* (first_process plain_options (js ''/'') None) w2" using w(1) by simp
  have "js ''/a'' \<noteq> []" by (simp add: js_def)
  then have got: "store_get (h_store (hw w2)) (pluginIdOf (js ''/a'')) = Some p"
    using p(1,2)
    by (simp add: w2_def onSessionStart_def Let_def restorePlugins_def restoreFromEntries_def map_filter_simps
        restore_one_def put_new_def harness_simps state_defs restoreContextFromEntries_def emit_def)
  have "p \<in> set (earlier w2)" using w(2) by (simp add: w2_def w1_def)
  with harness_reachable_sound [OF run got] run got p(3) show ?thesis
    by (intro exI [of _ w2] exI [of _ p]) (auto simp: lines_of_def)
qed

end
