(* ===== verification/HarnessProgress.thy ===== *)
theory HarnessProgress
  imports HarnessFacts
begin

text \<open>
  Progress and safety of the background work of the harness: a partial scan comes round to every file, a
  pending file is handed to the memory model after boundedly many turns, and the answer of the model is
  written only for files that are still mounted, in the same session, with the content that was
  summarised.
\<close>

subsection \<open>Scanning in parts\<close>

lemma scan_pick_positions:
  assumes "cursor < length queue"
  shows "scan_pick k queue cursor =
    (map (\<lambda>j. queue ! ((cursor + j) mod length queue)) [0..<k], (cursor + k) mod length queue)"
  using assms
proof (induction k arbitrary: cursor)
  case (Suc k)
  define n where "n = length queue"
  have n: "n > 0" "(cursor + 1) mod n < n" using Suc.prems by (auto simp: n_def intro!: mod_less_divisor)
  have pos: "((cursor + 1) mod n + j) mod n = (cursor + Suc j) mod n" for j by (simp add: mod_add_left_eq)
  have "scan_pick k queue ((cursor + 1) mod n) =
      (map (\<lambda>j. queue ! ((cursor + Suc j) mod n)) [0..<k], (cursor + Suc k) mod n)"
    using Suc.IH [of "(cursor + 1) mod n"] n by (simp only: n_def [symmetric] pos)
  moreover have "[0..<Suc k] = 0 # map Suc [0..<k]" by (simp add: upt_conv_Cons map_Suc_upt del: upt_Suc)
  ultimately show ?case using Suc.prems by (simp add: n_def [symmetric] comp_def del: upt_Suc)
qed simp

abbreviation next_scan :: "harness \<Rightarrow> harness" where
  "next_scan h \<equiv> snd (pickScanBatch h)"

lemma pickScanBatch_queue [simp]: "buildScanQueue (next_scan h) = buildScanQueue h"
  by (simp add: pickScanBatch_def buildScanQueue_def Let_def split: prod.splits)

lemma next_scan_queue [simp]: "buildScanQueue ((next_scan ^^ k) h) = buildScanQueue h"
  by (induction k) simp_all

lemma pick_long:
  "length (buildScanQueue h) > SCAN_FULL_LIMIT \<Longrightarrow> pickScanBatch h =
     (let (batch, c) = scan_pick SCAN_BATCH (buildScanQueue h) (h_scanCursor h) in (batch, h\<lparr>h_scanCursor := c\<rparr>))"
  by (auto simp: pickScanBatch_def Let_def)

text \<open>The cursor after some scans of a long queue, and what each of them looks at.\<close>

lemma next_scan_cursor:
  assumes "length (buildScanQueue h) > SCAN_FULL_LIMIT" "h_scanCursor h < length (buildScanQueue h)"
  shows "h_scanCursor ((next_scan ^^ k) h) = (h_scanCursor h + SCAN_BATCH * k) mod length (buildScanQueue h)"
proof (induction k)
  case (Suc k)
  define q where "q = buildScanQueue h"
  have q: "length q > SCAN_FULL_LIMIT" "q \<noteq> []" using assms by (auto simp: q_def)
  have "h_scanCursor ((next_scan ^^ k) h) < length q" using Suc q by (simp add: q_def [symmetric])
  from scan_pick_positions [OF this, of SCAN_BATCH] Suc q show ?case
    by (simp add: pick_long q_def [symmetric] mod_add_left_eq mod_add_right_eq algebra_simps)
qed (use assms in simp)

lemma scans_cover:
  assumes "length (buildScanQueue h) > SCAN_FULL_LIMIT" "h_scanCursor h < length (buildScanQueue h)"
    and "p \<in> set (buildScanQueue h)"
  shows "\<exists>k \<le> length (buildScanQueue h) div SCAN_BATCH. p \<in> set (fst (pickScanBatch ((next_scan ^^ k) h)))"
proof -
  define q where "q = buildScanQueue h"
  define n where "n = length q"
  define c where "c = h_scanCursor h"
  obtain i where i: "i < n" "q ! i = p" using assms(3) by (auto simp: in_set_conv_nth q_def n_def)
  have n: "n > SCAN_FULL_LIMIT" "c < n" using assms by (auto simp: n_def q_def c_def)
  define j where "j = (i + n - c) mod n"
  have j: "j < n" using n by (auto simp: j_def)
  have "(c + j) mod n = (c + (i + n - c)) mod n" by (simp add: j_def mod_add_right_eq)
  also have "\<dots> = (i + n) mod n" using n(2) by simp
  finally have cj: "(c + j) mod n = i" using i(1) by simp
  define k where "k = j div SCAN_BATCH"
  define m where "m = j mod SCAN_BATCH"
  have jk: "j = SCAN_BATCH * k + m" "m < SCAN_BATCH" by (simp_all add: k_def m_def SCAN_BATCH_def)
  have cur: "h_scanCursor ((next_scan ^^ k) h) = (c + SCAN_BATCH * k) mod n"
    using next_scan_cursor [OF assms(1,2)] by (simp add: c_def n_def q_def)
  have "q ! (((c + SCAN_BATCH * k) mod n + m) mod n) = p"
    using cj i(2) jk(1) by (simp add: mod_add_left_eq add.assoc)
  moreover have "fst (pickScanBatch ((next_scan ^^ k) h)) =
      map (\<lambda>j. q ! (((c + SCAN_BATCH * k) mod n + j) mod n)) [0..<SCAN_BATCH]"
    using n scan_pick_positions [of "(c + SCAN_BATCH * k) mod n" q SCAN_BATCH] cur
    by (simp add: pick_long q_def [symmetric] n_def [symmetric])
  ultimately have "p \<in> set (fst (pickScanBatch ((next_scan ^^ k) h)))" using jk(2) by force
  moreover have "k \<le> n div SCAN_BATCH" unfolding k_def by (rule div_le_mono) (use j in simp)
  ultimately show ?thesis by (auto simp: n_def q_def)
qed

lemma first_scan_cursor:
  assumes "length (buildScanQueue h) > SCAN_FULL_LIMIT"
  shows "h_scanCursor (next_scan h) < length (buildScanQueue h)"
proof -
  define q where "q = buildScanQueue h"
  have q: "length q > SCAN_FULL_LIMIT" "q \<noteq> []" using assms by (auto simp: q_def)
  have "snd (scan_pick (Suc k) q c) < length q" for k c
  proof -
    have "(c + 1) mod length q < length q" using q by simp
    from scan_pick_positions [OF this, of k] q show ?thesis by simp
  qed
  from this [of "SCAN_BATCH - 1" "h_scanCursor h"] q show ?thesis
    by (cases "scan_pick 32 q (h_scanCursor h)") (simp add: pick_long q_def [symmetric] SCAN_BATCH_def)
qed

text \<open>Property C31. While the set of tracked files stays as it is, every tracked file is looked at within
  \<open>n div 32 + 2\<close> scans, where \<open>n\<close> is their number and wherever the cursor stands at first.\<close>

theorem scan_reaches_every_file:
  "set (buildScanQueue h)
     \<subseteq> (\<Union>k \<le> length (buildScanQueue h) div SCAN_BATCH + 1. set (fst (pickScanBatch ((next_scan ^^ k) h))))"
proof
  fix p assume p: "p \<in> set (buildScanQueue h)"
  have "\<exists>k \<le> length (buildScanQueue h) div SCAN_BATCH + 1. p \<in> set (fst (pickScanBatch ((next_scan ^^ k) h)))"
  proof (cases "length (buildScanQueue h) > SCAN_FULL_LIMIT")
    case True
    from scans_cover [of "next_scan h" p] first_scan_cursor [OF True] True p obtain k where
      "k \<le> length (buildScanQueue h) div SCAN_BATCH" "p \<in> set (fst (pickScanBatch ((next_scan ^^ k) (next_scan h))))"
      by auto
    then show ?thesis by (intro exI [of _ "Suc k"]) (simp add: funpow_Suc_right del: funpow.simps)
  next
    case False
    with p have "p \<in> set (fst (pickScanBatch ((next_scan ^^ 0) h)))" by (auto simp: pickScanBatch_def Let_def)
    then show ?thesis by blast
  qed
  then show "p \<in> (\<Union>k \<le> length (buildScanQueue h) div SCAN_BATCH + 1. set (fst (pickScanBatch ((next_scan ^^ k) h))))"
    by auto
qed

subsection \<open>Starting a batch\<close>

lemma pendingStats_plugins: "fst (pendingStats h) = length (pending_plugins h)"
  by (simp add: pendingStats_def pending_plugins_def Let_def conj_commute)

text \<open>A turn that ends either starts a batch or leaves one file less to wait for.\<close>

lemma settled_cases:
  assumes "\<not> h_shuttingDown h" "memoryAutoAllowed cfg" "pending_plugins h \<noteq> []"
  obtains (due) "onAgentSettled cfg h = queue_batch (h\<lparr>h_scanPending := True, h_filesLeft := o_memoryBatchFiles cfg\<rparr>)"
  | (wait) "onAgentSettled cfg h = h\<lparr>h_scanPending := True, h_filesLeft := h_filesLeft h - 1\<rparr>" "h_filesLeft h > 2"
proof (cases "batch_due cfg (if h_filesLeft h > 1 then h\<lparr>h_scanPending := True, h_filesLeft := h_filesLeft h - 1\<rparr> else h\<lparr>h_scanPending := True\<rparr>)")
  case True
  with assms due show thesis by (auto simp: onAgentSettled_def Let_def split: if_splits)
next
  case False
  have "length (pending_plugins h) \<ge> 1" using assms(3) by (cases "pending_plugins h") auto
  moreover have "pending_plugins (h\<lparr>h_scanPending := True, h_filesLeft := k\<rparr>) = pending_plugins h"
    "pending_plugins (h\<lparr>h_scanPending := True\<rparr>) = pending_plugins h" for k by (simp_all add: pending_plugins_def)
  ultimately have "h_filesLeft h > 2"
    using False by (auto simp: batch_due_def pendingStats_plugins split: if_splits)
  with False assms wait show thesis by (auto simp: onAgentSettled_def Let_def)
qed

text \<open>Property C30. As long as some file is pending, automatic summaries are allowed and the harness is not
  shutting down, a batch is queued at the latest after as many ended turns as files were still waited for, and
  until then nothing is queued.\<close>

theorem pending_batch_started:
  assumes "\<not> h_shuttingDown h" "memoryAutoAllowed cfg" "pending_plugins h \<noteq> []"
  shows "\<exists>n \<le> max 1 (h_filesLeft h). n > 0
     \<and> h_queue ((onAgentSettled cfg ^^ n) h) = enqueueTask 0 (h_queue h)
     \<and> (\<forall>k < n. h_queue ((onAgentSettled cfg ^^ k) h) = h_queue h)"
  using assms
proof (induction "h_filesLeft h" arbitrary: h rule: less_induct)
  case less
  from less.prems show ?case
  proof (cases rule: settled_cases)
    case due
    then show ?thesis by (intro exI [of _ 1]) (simp add: queue_batch_def)
  next
    case wait
    define h1 where "h1 = onAgentSettled cfg h"
    have h1: "h_queue h1 = h_queue h" "h_filesLeft h1 = h_filesLeft h - 1" "\<not> h_shuttingDown h1"
        "pending_plugins h1 = pending_plugins h"
      using wait less.prems by (simp_all add: h1_def pending_plugins_def)
    then obtain n where n: "n \<le> max 1 (h_filesLeft h - 1)" "n > 0"
        "h_queue ((onAgentSettled cfg ^^ n) h1) = enqueueTask 0 (h_queue h)"
        "\<And>k. k < n \<Longrightarrow> h_queue ((onAgentSettled cfg ^^ k) h1) = h_queue h"
      using less.hyps [of h1] less.prems wait(2) by auto
    have "h_queue ((onAgentSettled cfg ^^ k) h) = h_queue h" if "k < Suc n" for k
      using that n(4) [of "k - 1"] by (cases k) (simp_all add: h1_def funpow_swap1)
    with n wait(2) show ?thesis
      by (intro exI [of _ "Suc n"]) (auto simp: h1_def funpow_swap1)
  qed
qed

lemma example_pending:
  "\<not> h_shuttingDown (example_harness anchor (example_plugin hash segs))"
  "memoryAutoAllowed plain_options"
  "pending_plugins (example_harness anchor (example_plugin hash segs)) = [example_plugin hash segs]"
  "h_filesLeft (example_harness anchor (example_plugin hash segs)) = 5"
  "h_queue (example_harness anchor (example_plugin hash segs)) = new_queue"
  by (simp_all add: example_harness_def set_anchor_def put_new_def createHarness_def pending_plugins_def store_all_def
      store_upsert_def example_plugin_def isSourceMeta_def plain_options_def memoryAutoAllowed_def resolveMemoryModelConfig_def
      split_model_def js_def)

theorem pending_batch_started_witness:
  "\<exists>n \<le> 5. h_queue ((onAgentSettled plain_options ^^ n) (example_harness [] (example_plugin [] []))) = enqueueTask 0 new_queue"
  using pending_batch_started [of "example_harness [] (example_plugin [] [])" plain_options] example_pending
  by auto

subsection \<open>Writing the answer\<close>

text \<open>The object that the batch holds for a file, as it is now.\<close>

definition batch_object :: "harness \<Rightarrow> batch_file \<Rightarrow> plugin" where
  "batch_object h bf = (case map_of (h_objs h) (bf_object bf) of Some p \<Rightarrow> p | None \<Rightarrow> bf_plugin bf)"

lemma commit_file_eq:
  "commit_file cfg d now gen answer bf h =
     (case map_of answer (pid (bf_plugin bf)) of
        None \<Rightarrow> (False, h)
      | Some entry \<Rightarrow>
          if gen \<noteq> h_generation h \<or> store_get (h_store h) (pid (bf_plugin bf)) = None then (False, h)
          else case fetch_file cfg d now (source_path (batch_object h bf)) h of
              (None, h1) \<Rightarrow> (False, h1)
            | (Some r, h1) \<Rightarrow>
                if fhash (r_entry r) \<noteq> bf_hash bf then (False, h1)
                else let p = (batch_object h bf)\<lparr>metadata := (metadata (batch_object h bf))\<lparr>memoryState := Some MemDone\<rparr>\<rparr>;
                         m = map_update (pid (bf_plugin bf)) (entry\<lparr>ehash := Some (bf_hash bf),
                               chunks := Some (encodeFingerprint (chunkFingerprint (o_sha256 cfg) 16 (bf_lines bf)))\<rparr>) (h_map h1)
                     in (True, emit cfg (EvMemoryUpdated (pid (bf_plugin bf)))
                                 (persistPlugin p (put_object (bf_object bf) p (h1\<lparr>h_map := m\<rparr>)))))"
  unfolding commit_file_def batch_object_def Let_def by (rule refl)


definition example_batch_file :: "js_string \<Rightarrow> plugin \<Rightarrow> batch_file" where
  "example_batch_file hash p = \<lparr>bf_object = 0, bf_plugin = p, bf_lines = [js ''a'', js ''b''], bf_hash = hash\<rparr>"

definition example_answer :: "project_map" where
  "example_answer = [(pluginIdOf (js ''/a''), \<lparr>mrole = js ''r'', responsibilities = [], ehash = None, pendingLines = None,
     stale = False, chunks = None\<rparr>)]"

lemma example_hash: "o_hashBuffer plain_options [0x61, 0x0a, 0x62] = js ''3''"
  by (simp add: plain_options_def decimal.simps js_def)

lemma example_batch_object:
  "batch_object (example_harness anchor p) (example_batch_file hash p) = p"
  "store_get (h_store (example_harness anchor p)) (pid p) = Some p"
  "h_generation (example_harness anchor p) = 0"
  by (simp_all add: batch_object_def example_batch_file_def example_harness_def set_anchor_def put_new_def createHarness_def)


lemma commit_file_stale: "gen \<noteq> h_generation h \<Longrightarrow> commit_file cfg d now gen answer bf h = (False, h)"
  by (simp add: commit_file_eq split: option.split)

lemma commit_files_stale: "gen \<noteq> h_generation h \<Longrightarrow> commit_files cfg d now gen answer bfs h = (0, h)"
  by (induction bfs) (simp_all add: commit_file_stale)

text \<open>The answer to a request of an earlier session, or of a time before a mount was retired, and
  the answer to a request that was aborted, change neither the store nor the project map nor what is
  written to the session or the disk.\<close>

theorem stale_batch_writes_nothing:
  assumes "b_generation batch \<noteq> h_generation h \<or> queue_signal (h_queue h) = Some True"
  shows "\<exists>evs. runMemoryBatch_commit cfg d now batch h = h\<lparr>h_events := h_events h @ evs\<rparr>"
proof (cases "queue_signal (h_queue h) = Some True")
  case True
  then show ?thesis by (intro exI [of _ "[]"]) (simp add: runMemoryBatch_commit_def)
next
  case False
  with assms have "runMemoryBatch_commit cfg d now batch h = emit cfg (EvMemoryBatchDone 0 (b_total batch)) h"
    using commit_files_stale [of "b_generation batch" h] by (auto simp: runMemoryBatch_commit_def split: option.splits)
  then show ?thesis
    by (cases "o_onEvent cfg") (auto simp: emit_def intro: exI [of _ "[]"])
qed

theorem stale_batch_writes_nothing_witness:
  "\<exists>evs. runMemoryBatch_commit plain_options (example_disk []) 0
       \<lparr>b_generation = 0, b_total = 1, b_files = [example_batch_file [] (example_plugin [] [])], b_output = Some example_answer\<rparr>
       (bump_generation (example_harness [] (example_plugin [] [])))
     = (bump_generation (example_harness [] (example_plugin [] [])))
         \<lparr>h_events := h_events (bump_generation (example_harness [] (example_plugin [] []))) @ evs\<rparr>"
  by (rule stale_batch_writes_nothing) (simp add: bump_generation_def)

end
