(* ===== verification/HarnessGaps.thy ===== *)
theory HarnessGaps
  imports HarnessProgress
begin

text \<open>
  Where the handlers of the harness do not do what their comments say. Each theorem gives the
  behaviour of the code in general, for the lines named with it.
\<close>

subsection \<open>The anchor of a changed mount\<close>

lemma currentLines_some:
  assumes "sees cfg d h" "d a = Some f"
  obtains h1 where "currentLines cfg d now a (disk_hash cfg f) h = (Some (disk_lines f), h1)" "same_but_cache h h1" "sees cfg d h1"
proof -
  obtain r h1 where f: "fetch_file cfg d now a h = (Some r, h1)" "sees cfg d h1" "same_but_cache h h1"
      "fhash (r_entry r) = disk_hash cfg f" "describes (o_hashBuffer cfg) (r_entry r) f"
    by (rule fetch_file_some [OF assms])
  obtain h2 where e: "entry_lines cfg d now a (r_entry r) h1 = (Some (disk_lines f), h2)" "sees cfg d h2" "same_but_cache h1 h2"
    by (rule entry_lines_some [OF f(2) assms(2) f(5)])
  show thesis
    by (rule that [of h2]) (use f e same_but_cache_trans in \<open>auto simp: currentLines_def\<close>)
qed

text \<open>What an increment leaves in the store.\<close>

lemma mount_increment_result:
  assumes "sees cfg d h" "plugin_ok cfg p" "d (source_path p) = Some f" "valid_range got"
  obtains q h1 shown where "mount_increment cfg d now p (disk_hash cfg f) got h = (Some shown,
      emit cfg (EvMounted (pid p) KIncrement (disk_hash cfg f))
        (put_new q (set_anchor (pid p) (disk_hash cfg f) (pin_path (source_path p) h1))))"
    "same_but_cache h h1" "pid q = pid p" "source_path q = source_path p" "isSourceMeta q"
    "covered (segments (metadata q)) = covered (segments (metadata p)) \<union> lines_of got"
proof -
  define q where "q = ingest (o_host cfg) (facts_of (source_path p) (disk_hash cfg f) (length (disk_lines f))
      (anchorToolCallId (metadata p)) got ModeIncrement) (Some p)"
  obtain h1 where c: "currentLines cfg d now (source_path p) (disk_hash cfg f) h = (Some (disk_lines f), h1)" "same_but_cache h h1"
    by (rule currentLines_some [OF assms(1,3)])
  have q_id: "pid q = pid p"
    using assms(2) by (simp add: q_def ingest_def facts_of_def buildPlugin_def Let_def identifyPath_def plugin_ok_def pluginIdOf_def js_def)
  have meta: "metadata q = (metadata p)\<lparr>segments := mergeSegments (segments (metadata p) @ [got])\<rparr>"
    by (simp add: q_def ingest_def facts_of_def buildPlugin_def Let_def)
  have "list_all valid_range (segments (metadata p) @ [got])"
    using plugin_ok_valid [OF assms(2)] assms(4) by simp
  then have "covered (segments (metadata q)) = covered (segments (metadata p)) \<union> lines_of got"
    by (simp add: meta seg.merge_covered)
  moreover have "source_path q = source_path p" "isSourceMeta q"
    using assms(2) by (simp_all add: meta source_path_def isSourceMeta_def plugin_ok_def)
  moreover have "mount_increment cfg d now p (disk_hash cfg f) got h = (Some (increment_text q got (disk_lines f)),
      emit cfg (EvMounted (pid p) KIncrement (disk_hash cfg f))
        (put_new q (set_anchor (pid p) (disk_hash cfg f) (pin_path (source_path p) h1))))"
    by (simp add: mount_increment_def c Let_def q_def [symmetric] q_id)
  ultimately show thesis using that q_id c(2) by blast
qed

text \<open>A mount whose file changed, and which a scan has mounted again, is reported with its present
  text as long as its anchor is the old one. After an increment the anchor is the present hash, and the mount is no longer
  reported, although the increment showed only the lines it added.\<close>

theorem increment_hides_change:
  assumes "sees cfg d h" "plugin_ok cfg p" "d (source_path p) = Some f" "valid_range got"
    and "map_of (h_anchors h) (pid p) = Some anchor" "anchor \<noteq> disk_hash cfg f"
    and "mount_increment cfg d now p (disk_hash cfg f) got h = (res, h')"
  shows "mount_report cfg d h p = [changed_line p (source_path p) (disk_hash cfg f) (disk_lines f)]
    \<and> (\<exists>q. source_plugin h' (pid p) = Some q \<and> mount_report cfg d h' q = []
         \<and> covered (segments (metadata q)) = covered (segments (metadata p)) \<union> lines_of got)"
proof -
  obtain q h1 shown where m: "mount_increment cfg d now p (disk_hash cfg f) got h = (Some shown,
      emit cfg (EvMounted (pid p) KIncrement (disk_hash cfg f))
        (put_new q (set_anchor (pid p) (disk_hash cfg f) (pin_path (source_path p) h1))))"
    "pid q = pid p" "source_path q = source_path p" "isSourceMeta q"
    "covered (segments (metadata q)) = covered (segments (metadata p)) \<union> lines_of got"
    by (rule mount_increment_result [OF assms(1-4)])
  have "source_plugin h' (pid p) = Some q" "map_of (h_anchors h') (pid p) = Some (disk_hash cfg f)"
    using assms(7) m by (auto simp: source_plugin_def harness_simps put_new_def state_defs)
  with m assms(3,5,6) show ?thesis by (auto simp: mount_report_def)
qed

theorem increment_hides_change_witness:
  "\<exists>h h' q. mount_report plain_options (example_disk [0x61, 0x0a, 0x62]) h (example_plugin (js ''3'') [mk_range 1 1]) \<noteq> []
     \<and> source_plugin h' (pluginIdOf (js ''/a'')) = Some q
     \<and> covered (segments (metadata q)) = {1..2} \<and> mount_report plain_options (example_disk [0x61, 0x0a, 0x62]) h' q = []"
proof -
  define p where "p = example_plugin (js ''3'') [mk_range 1 1]"
  define h where "h = example_harness (js ''2'') p"
  define d where "d = example_disk [0x61, 0x0a, 0x62]"
  define f where "f = \<lparr>df_stat = \<lparr>st_mtimeNs = 0, st_size = 3\<rparr>, df_content = [0x61, 0x0a, 0x62], df_readable = True\<rparr>"
  have s: "sees plain_options d h" unfolding d_def h_def by (rule example_sees)
  have p: "pid p = pluginIdOf (js ''/a'')" "source_path p = js ''/a''" "segments (metadata p) = [mk_range 1 1]" "plugin_ok plain_options p"
    by (simp_all add: p_def example_ok source_ranges_ok_def lines_of_def valid_range_def) (simp_all add: example_plugin_def source_path_def)
  have f: "d (source_path p) = Some f" "disk_hash plain_options f = js ''3''"
    by (simp_all add: p d_def example_disk_def f_def example_hash)
  have a: "map_of (h_anchors h) (pid p) = Some (js ''2'')" "js ''2'' \<noteq> disk_hash plain_options f"
    by (simp_all add: h_def example_harness_def set_anchor_def f js_eq_iff)
  obtain res h' where "mount_increment plain_options d 0 p (disk_hash plain_options f) (mk_range 2 2) h = (res, h')" by fastforce
  from increment_hides_change [OF s p(4) f(1) _ a this] obtain q where
    "mount_report plain_options d h p \<noteq> []" "source_plugin h' (pid p) = Some q" "mount_report plain_options d h' q = []"
    "covered (segments (metadata q)) = covered [mk_range 1 1] \<union> lines_of (mk_range 2 2)"
    by (auto simp: valid_range_def p)
  moreover have "covered [mk_range 1 1] \<union> lines_of (mk_range 2 2) = {1..2}" by (auto simp: lines_of_def)
  ultimately show ?thesis by (auto simp: d_def p_def [symmetric] p)
qed

subsection \<open>A mount that grows while it is summarised\<close>

text \<open>The answer for a file is stored with the object that the request was made for. When lines
  were added to the mount while the model answered, that object is the old one: writing the answer takes
  the added lines out of the mount again.\<close>

theorem commit_reverts_increment:
  assumes "sees cfg d h" "plugin_ok cfg p" "d (source_path p) = Some f" "valid_range got"
    and "map_of (h_objs h) n = Some p" "bf_object bf = n" "bf_plugin bf = p"
    and "mount_increment cfg d now p (disk_hash cfg f) got h = (res, h1)"
    and "commit_file cfg d now' gen answer bf h1 = (True, h2)"
  shows "(\<exists>q. source_plugin h1 (pid p) = Some q
        \<and> covered (segments (metadata q)) = covered (segments (metadata p)) \<union> lines_of got)
    \<and> (\<exists>q. source_plugin h2 (pid p) = Some q \<and> segments (metadata q) = segments (metadata p))"
proof -
  obtain q h0 shown where m: "mount_increment cfg d now p (disk_hash cfg f) got h = (Some shown,
      emit cfg (EvMounted (pid p) KIncrement (disk_hash cfg f))
        (put_new q (set_anchor (pid p) (disk_hash cfg f) (pin_path (source_path p) h0))))"
    "same_but_cache h h0" "pid q = pid p" "isSourceMeta q"
    "covered (segments (metadata q)) = covered (segments (metadata p)) \<union> lines_of got"
    by (rule mount_increment_result [OF assms(1-4)])
  have h1: "source_plugin h1 (pid p) = Some q" "h_objs h1 = h_objs h @ [(length (h_objs h), q)]"
    using assms(8) m same_but_cache_fields [OF m(2)]
    by (auto simp: source_plugin_def harness_simps put_new_def state_defs)
  then have obj: "batch_object h1 bf = p" using assms(5-7) by (simp add: batch_object_def map_of_append)
  have "isSourceMeta p" using assms(2) by (simp add: plugin_ok_def)
  then have "source_plugin h2 (pid p) = Some (p\<lparr>metadata := (metadata p)\<lparr>memoryState := Some MemDone\<rparr>\<rparr>)"
    using assms(9) [unfolded commit_file_eq obj]
    by (auto simp: source_plugin_def harness_simps put_object_def Let_def isSourceMeta_def split: option.splits if_splits prod.splits)
  with h1(1) m(5) show ?thesis by auto
qed

subsection \<open>A pending file that is read again\<close>

text \<open>A read of a changed file that is not retired leaves it without a memory state: it is no longer pending, and no
  batch will summarise it.\<close>

theorem updated_read_drops_pending:
  assumes "plugin_ok cfg p" "mount_updated cfg d now p hash oldHash oldLines got h = (res, h')"
    and "source_plugin h (pid p) = Some p" "source_plugin h' (pid p) = Some q" "memoryState (metadata q) = Some MemPending"
  shows "h_store h' = h_store h"
proof -
  obtain l h1 where c: "currentLines cfg d now (source_path p) hash h = (l, h1)" by fastforce
  have same: "h_store h1 = h_store h" using same_but_cache_fields [OF currentLines_same [OF c]] by simp
  show ?thesis
  proof (cases l)
    case None
    with c assms(2) same show ?thesis by (simp add: mount_updated_def)
  next
    case (Some ls)
    define r where "r = ingest (o_host cfg) (facts_of (source_path p) hash (length ls) (anchorToolCallId (metadata p)) got ModeUpdated) (Some p)"
    have r: "pid r = pid p" "memoryState (metadata r) = None"
      using assms(1) by (simp_all add: r_def ingest_def facts_of_def buildPlugin_def Let_def identifyPath_def plugin_ok_def
          pluginIdOf_def js_def updated_meta_def)
    from assms(2,4,5) c Some r same show ?thesis
      by (auto simp: mount_updated_def Let_def r_def [symmetric] source_plugin_def harness_simps put_new_def state_defs
          retire_def remove_plugin_def split: if_splits)
  qed
qed

subsection \<open>A change that is counted at every scan\<close>

text \<open>The check of an entry whose file differs from its hash, at each scan anew.\<close>

definition rescan :: "harness_options \<Rightarrow> js_string \<Rightarrow> js_string list \<Rightarrow> harness \<Rightarrow> harness" where
  "rescan cfg i ls h = (case map_of (h_map h) i of Some e \<Rightarrow> if stale e then h else scan_entry cfg i e ls h | None \<Rightarrow> h)"

lemma rescan_once: "map_of (h_map h) i = Some e \<Longrightarrow> \<not> stale e \<Longrightarrow> rescan cfg i ls h = scan_entry cfg i e ls h"
  by (simp add: rescan_def)

lemma rescan_accumulates:
  assumes "map_of (h_map h) i = Some e" "\<not> stale e" "pendingLines e = Some 0"
    and "decodeFingerprint (case chunks e of None \<Rightarrow> [] | Some s \<Rightarrow> s) = Some base"
    and "delta = countDelta base (chunkFingerprint (o_sha256 cfg) 16 ls)"
  shows "m * delta < changeThreshold (length ls) \<Longrightarrow>
    map_of (h_map ((rescan cfg i ls ^^ m) h)) i = Some (e\<lparr>pendingLines := Some (int (m * delta))\<rparr>)"
proof (induction m)
  case 0
  with assms show ?case by simp
next
  case (Suc m)
  then have IH: "map_of (h_map ((rescan cfg i ls ^^ m) h)) i = Some (e\<lparr>pendingLines := Some (int (m * delta))\<rparr>)" by simp
  from Suc.prems have "m * delta + delta < changeThreshold (length ls)" by simp
  then have "\<not> int (m * delta) + int delta \<ge> int (changeThreshold (length ls))" by linarith
  with assms(2,4,5) show ?case by (simp add: rescan_once [OF IH] scan_entry_def Let_def algebra_simps)
qed

text \<open>An entry of the map whose file changed below the threshold keeps the hash and the fingerprint it is
  compared with, so that every scan adds the same change once more: a file that was changed once
  and never again becomes stale after boundedly many scans.\<close>

theorem one_change_becomes_stale:
  assumes "map_of (h_map h) i = Some e" "\<not> stale e" "pendingLines e = Some 0"
    and "decodeFingerprint (case chunks e of None \<Rightarrow> [] | Some s \<Rightarrow> s) = Some base"
    and "countDelta base (chunkFingerprint (o_sha256 cfg) 16 ls) > 0"
  shows "\<exists>m \<le> changeThreshold (length ls). \<exists>e'. map_of (h_map ((rescan cfg i ls ^^ m) h)) i = Some e' \<and> stale e'"
proof -
  define delta where "delta = countDelta base (chunkFingerprint (o_sha256 cfg) 16 ls)"
  define T where "T = changeThreshold (length ls)"
  define m where "m = (LEAST m. m * delta \<ge> T)"
  have ex: "T * delta \<ge> T" using assms(5) by (simp add: delta_def)
  have m: "m * delta \<ge> T" "m \<le> T" unfolding m_def using ex by (rule LeastI, rule Least_le)
  have "m > 0" using m(1) by (auto simp: T_def changeThreshold_def max_def split: if_splits intro: gr0I)
  then obtain m' where m': "m = Suc m'" by (cases m) auto
  have "m' * delta < T" using not_less_Least [of m' "\<lambda>m. m * delta \<ge> T"] m' by (auto simp: m_def)
  then have before: "map_of (h_map ((rescan cfg i ls ^^ m') h)) i = Some (e\<lparr>pendingLines := Some (int (m' * delta))\<rparr>)"
    using rescan_accumulates [OF assms(1-4) delta_def] by (simp add: T_def)
  have "m' * delta + delta \<ge> changeThreshold (length ls)" using m(1) by (simp add: m' T_def)
  then have "int (m' * delta) + int delta \<ge> int (changeThreshold (length ls))" by linarith
  then have "\<exists>e'. map_of (h_map ((rescan cfg i ls ^^ m) h)) i = Some e' \<and> stale e'"
    using assms(2,4) by (simp add: m' rescan_once [OF before] scan_entry_def Let_def delta_def [symmetric] harness_simps set_stale_def)
  with m(2) show ?thesis by (auto simp: T_def)
qed

theorem one_change_becomes_stale_witness:
  "\<exists>h m e'. m \<le> 8 \<and> map_of (h_map ((rescan plain_options (pluginIdOf (js ''/a'')) [js ''x''] ^^ m) h)) (pluginIdOf (js ''/a'')) = Some e'
     \<and> stale e'"
proof -
  define e where "e = \<lparr>mrole = [], responsibilities = [], ehash = Some (js ''1''), pendingLines = Some 0, stale = False,
    chunks = Some (js ''AAAAAQ=='')\<rparr>"
  define h where "h = (createHarness plain_options [] None)\<lparr>h_map := [(pluginIdOf (js ''/a''), e)]\<rparr>"
  have e: "map_of (h_map h) (pluginIdOf (js ''/a'')) = Some e" "\<not> stale e" "pendingLines e = Some 0" "chunks e = Some (js ''AAAAAQ=='')"
    by (simp_all add: h_def e_def)
  have base: "decodeFingerprint (case chunks e of None \<Rightarrow> [] | Some s \<Rightarrow> s) = Some [1]"
    unfolding e(4) by code_simp
  have delta: "countDelta [1] (chunkFingerprint (o_sha256 plain_options) 16 [js ''x'']) > 0"
    by (simp add: plain_options_def chunkFingerprint_def ceil_div_def readUInt32BE_def be_val_def countDelta_def match_value_def count_value_def)
  from one_change_becomes_stale [OF e(1-3) base delta] show ?thesis by (auto simp: changeThreshold_def)
qed

end
