(* ===== verification/EditDiff.thy ===== *)
theory EditDiff
  imports JsText FileCache
begin

text \<open>
  The edit tool (\<^verbatim>\<open>packages/coding-agent/src/core/tools/edit-diff.ts\<close>, \<^verbatim>\<open>edit.ts\<close>): texts are matched exactly
  or after a normalisation, the matches are replaced, and when the normalised text had to be used the lines that no edit
  touches are taken from the original. The Unicode normalisation NFKC is a parameter of the definitions.
  The path that appears in the messages is left out of the errors.
\<close>

abbreviation newline_char :: js_char where "newline_char \<equiv> 0xa"

abbreviation return_char :: js_char where "return_char \<equiv> 0xd"

subsection \<open>Searching\<close>

text \<open>\<open>indexOf\<close>\<close>

fun index_of :: "'a list \<Rightarrow> 'a list \<Rightarrow> nat option" where
  "index_of needle [] = (if needle = [] then Some 0 else None)"
| "index_of needle (x # xs) =
     (if take (length needle) (x # xs) = needle then Some 0 else map_option Suc (index_of needle xs))"

lemma index_of_Some:
  "index_of needle xs = Some i \<Longrightarrow> i + length needle \<le> length xs \<and> take (length needle) (drop i xs) = needle"
proof (induction xs arbitrary: i)
  case (Cons x xs)
  show ?case
  proof (cases "take (length needle) (x # xs) = needle")
    case True
    then have "length needle \<le> length (x # xs)" by (metis length_take min.absorb_iff2 min.commute)
    with True Cons.prems show ?thesis by simp
  next
    case False
    with Cons.prems obtain j where "index_of needle xs = Some j" "i = Suc j" by auto
    with Cons.IH show ?thesis by auto
  qed
qed (auto split: if_splits)

text \<open>\<open>s.split(sep).length - 1\<close>: the occurrences from left to right that do not overlap; the empty separator
  splits into code units.\<close>

function occurrences :: "'a list \<Rightarrow> 'a list \<Rightarrow> nat" where
  "occurrences needle xs =
     (if needle = [] then 0
      else case index_of needle xs of None \<Rightarrow> 0 | Some i \<Rightarrow> Suc (occurrences needle (drop (i + length needle) xs)))"
  by pat_completeness auto
termination
proof (relation "measure (length \<circ> snd)")
  fix needle xs :: "'a list" and i
  assume "needle \<noteq> []" "index_of needle xs = Some i"
  then show "((needle, drop (i + length needle) xs), needle, xs) \<in> measure (length \<circ> snd)"
    using index_of_Some [of needle xs i] by (cases needle) auto
qed simp

declare occurrences.simps [simp del]

definition split_count :: "'a list \<Rightarrow> 'a list \<Rightarrow> int" where
  "split_count needle xs = (if needle = [] then int (length xs) - 1 else int (occurrences needle xs))"

subsection \<open>Line endings\<close>

datatype line_ending = CRLF | LF

definition detectLineEnding :: "js_string \<Rightarrow> line_ending" where
  "detectLineEnding content =
     (case (index_of [return_char, newline_char] content, index_of [newline_char] content) of
        (_, None) \<Rightarrow> LF
      | (None, _) \<Rightarrow> LF
      | (Some crlfIdx, Some lfIdx) \<Rightarrow> if crlfIdx < lfIdx then CRLF else LF)"

fun replace_crlf :: "js_string \<Rightarrow> js_string" where
  "replace_crlf [] = []"
| "replace_crlf [c] = [c]"
| "replace_crlf (c # c' # s) =
     (if c = return_char \<and> c' = newline_char then newline_char # replace_crlf s else c # replace_crlf (c' # s))"

definition normalizeToLF :: "js_string \<Rightarrow> js_string" where
  "normalizeToLF s = map (\<lambda>c. if c = return_char then newline_char else c) (replace_crlf s)"

definition restoreLineEndings :: "js_string \<Rightarrow> line_ending \<Rightarrow> js_string" where
  "restoreLineEndings s ending =
     (case ending of CRLF \<Rightarrow> concat (map (\<lambda>c. if c = newline_char then [return_char, newline_char] else [c]) s) | LF \<Rightarrow> s)"

definition stripBom :: "js_string \<Rightarrow> js_string \<times> js_string" where
  "stripBom content = (if content \<noteq> [] \<and> hd content = 0xfeff then ([0xfeff], tl content) else ([], content))"

subsection \<open>Normalisation for matching\<close>

definition fuzzy_char :: "js_char \<Rightarrow> js_char" where
  "fuzzy_char c =
     (if c \<in> {0x2018, 0x2019, 0x201a, 0x201b} then 0x27
      else if c \<in> {0x201c, 0x201d, 0x201e, 0x201f} then 0x22
      else if c \<in> {0x2010, 0x2011, 0x2012, 0x2013, 0x2014, 0x2015, 0x2212} then 0x2d
      else if c \<in> {0xa0, 0x202f, 0x205f, 0x3000} \<or> 0x2002 \<le> c \<and> c \<le> 0x200a then 0x20
      else c)"

definition normalizeForFuzzyMatch :: "(js_string \<Rightarrow> js_string) \<Rightarrow> js_string \<Rightarrow> js_string" where
  "normalizeForFuzzyMatch nfkc s =
     map fuzzy_char (join [newline_char] (map trim_end (split_on newline_char (nfkc s))))"

subsection \<open>Lines and replacements\<close>

text \<open>\<open>content.match(/[^\n]*\n|[^\n]+/g)\<close>\<close>

fun splitLinesWithEndings :: "js_string \<Rightarrow> js_string list" where
  "splitLinesWithEndings [] = []"
| "splitLinesWithEndings (c # s) =
     (if c = newline_char then [c] # splitLinesWithEndings s
      else case splitLinesWithEndings s of [] \<Rightarrow> [[c]] | l # ls \<Rightarrow> (c # l) # ls)"

type_synonym line_span = "nat \<times> nat"

fun spans_from :: "nat \<Rightarrow> js_string list \<Rightarrow> line_span list" where
  "spans_from offset [] = []"
| "spans_from offset (l # ls) = (offset, offset + length l) # spans_from (offset + length l) ls"

definition getLineSpans :: "js_string \<Rightarrow> line_span list" where
  "getLineSpans content = spans_from 0 (splitLinesWithEndings content)"

record matched_edit =
  editIndex :: nat
  matchIndex :: nat
  matchLength :: nat
  newText :: js_string

datatype edit_error =
    EmptyOldText nat
  | NotFound nat
  | Duplicate nat int
  | Overlap nat nat
  | NoChange
  | OutsideBase
  | LineCountDiffers

fun first_index :: "('a \<Rightarrow> bool) \<Rightarrow> 'a list \<Rightarrow> nat option" where
  "first_index P [] = None"
| "first_index P (x # xs) = (if P x then Some 0 else map_option Suc (first_index P xs))"

definition getReplacementLineRange :: "line_span list \<Rightarrow> matched_edit \<Rightarrow> edit_error + nat \<times> nat" where
  "getReplacementLineRange lines r =
     (let replacementStart = matchIndex r; replacementEnd = matchIndex r + matchLength r in
      case first_index (\<lambda>(a, b). a \<le> replacementStart \<and> replacementStart < b) lines of
        None \<Rightarrow> Inl OutsideBase
      | Some startLine \<Rightarrow>
          let endLine = startLine + length (takeWhile (\<lambda>(a, b). b < replacementEnd) (drop startLine lines))
          in if endLine \<ge> length lines then Inl OutsideBase else Inr (startLine, endLine + 1))"

text \<open>One replacement; \<open>substring\<close> takes a negative position for 0.\<close>

definition apply_one :: "nat \<Rightarrow> matched_edit \<Rightarrow> js_string \<Rightarrow> js_string" where
  "apply_one offset r s =
     (let i = int (matchIndex r) - int offset
      in take (nat i) s @ newText r @ drop (nat (i + int (matchLength r))) s)"

definition applyReplacements :: "js_string \<Rightarrow> matched_edit list \<Rightarrow> nat \<Rightarrow> js_string" where
  "applyReplacements content replacements offset = foldr (apply_one offset) replacements content"

record edit_group =
  startLine :: nat
  endLine :: nat
  replacements :: "matched_edit list"

definition group_step :: "line_span list \<Rightarrow> edit_error + edit_group list \<Rightarrow> matched_edit \<Rightarrow> edit_error + edit_group list" where
  "group_step lines acc r =
     (case acc of
        Inl e \<Rightarrow> Inl e
      | Inr groups \<Rightarrow>
          (case getReplacementLineRange lines r of
             Inl e \<Rightarrow> Inl e
           | Inr (a, b) \<Rightarrow>
               Inr (if groups \<noteq> [] \<and> a < endLine (last groups)
                    then butlast groups @ [(last groups)\<lparr>endLine := max (endLine (last groups)) b,
                                             replacements := replacements (last groups) @ [r]\<rparr>]
                    else groups @ [\<lparr>startLine = a, endLine = b, replacements = [r]\<rparr>])))"

fun overlay_groups :: "js_string list \<Rightarrow> line_span list \<Rightarrow> js_string \<Rightarrow> nat \<Rightarrow> edit_group list \<Rightarrow> js_string" where
  "overlay_groups originalLines baseLines base k [] = concat (drop k originalLines)"
| "overlay_groups originalLines baseLines base k (g # gs) =
     (let groupStart = fst (baseLines ! startLine g); groupEnd = snd (baseLines ! (endLine g - 1))
      in concat (take (startLine g - k) (drop k originalLines))
         @ applyReplacements (take (groupEnd - groupStart) (drop groupStart base)) (replacements g) groupStart
         @ overlay_groups originalLines baseLines base (endLine g) gs)"

definition applyReplacementsPreservingUnchangedLines ::
  "js_string \<Rightarrow> js_string \<Rightarrow> matched_edit list \<Rightarrow> edit_error + js_string" where
  "applyReplacementsPreservingUnchangedLines original base rs =
     (let originalLines = splitLinesWithEndings original; baseLines = getLineSpans base in
      if length originalLines \<noteq> length baseLines then Inl LineCountDiffers
      else case foldl (group_step baseLines) (Inr []) (sort_key matchIndex rs) of
             Inl e \<Rightarrow> Inl e
           | Inr groups \<Rightarrow> Inr (overlay_groups originalLines baseLines base 0 groups))"

subsection \<open>Applying edits\<close>

record fuzzy_result =
  found :: bool
  fr_index :: int
  fr_length :: nat
  usedFuzzyMatch :: bool
  contentForReplacement :: js_string

definition fuzzyFindText :: "(js_string \<Rightarrow> js_string) \<Rightarrow> js_string \<Rightarrow> js_string \<Rightarrow> fuzzy_result" where
  "fuzzyFindText nfkc content oldText =
     (case index_of oldText content of
        Some i \<Rightarrow> \<lparr>found = True, fr_index = int i, fr_length = length oldText, usedFuzzyMatch = False,
                   contentForReplacement = content\<rparr>
      | None \<Rightarrow>
          (let fuzzyContent = normalizeForFuzzyMatch nfkc content; fuzzyOldText = normalizeForFuzzyMatch nfkc oldText in
           case index_of fuzzyOldText fuzzyContent of
             None \<Rightarrow> \<lparr>found = False, fr_index = - 1, fr_length = 0, usedFuzzyMatch = False, contentForReplacement = content\<rparr>
           | Some i \<Rightarrow> \<lparr>found = True, fr_index = int i, fr_length = length fuzzyOldText, usedFuzzyMatch = True,
                        contentForReplacement = fuzzyContent\<rparr>))"

definition countOccurrences :: "(js_string \<Rightarrow> js_string) \<Rightarrow> js_string \<Rightarrow> js_string \<Rightarrow> int" where
  "countOccurrences nfkc content oldText =
     split_count (normalizeForFuzzyMatch nfkc oldText) (normalizeForFuzzyMatch nfkc content)"

record edit =
  e_old :: js_string
  e_new :: js_string

definition normalize_edit :: "edit \<Rightarrow> edit" where
  "normalize_edit e = \<lparr>e_old = normalizeToLF (e_old e), e_new = normalizeToLF (e_new e)\<rparr>"

fun match_edits :: "(js_string \<Rightarrow> js_string) \<Rightarrow> js_string \<Rightarrow> nat \<Rightarrow> edit list \<Rightarrow> edit_error + matched_edit list" where
  "match_edits nfkc base i [] = Inr []"
| "match_edits nfkc base i (e # es) =
     (let r = fuzzyFindText nfkc base (e_old e) in
      if \<not> found r then Inl (NotFound i)
      else if countOccurrences nfkc base (e_old e) > 1 then Inl (Duplicate i (countOccurrences nfkc base (e_old e)))
      else case match_edits nfkc base (Suc i) es of
             Inl err \<Rightarrow> Inl err
           | Inr ms \<Rightarrow> Inr (\<lparr>editIndex = i, matchIndex = nat (fr_index r), matchLength = fr_length r, newText = e_new e\<rparr> # ms))"

fun find_overlap :: "matched_edit list \<Rightarrow> edit_error option" where
  "find_overlap (p # c # ms) =
     (if matchIndex p + matchLength p > matchIndex c then Some (Overlap (editIndex p) (editIndex c))
      else find_overlap (c # ms))"
| "find_overlap ms = None"

definition applyEditsToNormalizedContent ::
  "(js_string \<Rightarrow> js_string) \<Rightarrow> js_string \<Rightarrow> edit list \<Rightarrow> edit_error + js_string \<times> js_string" where
  "applyEditsToNormalizedContent nfkc content edits =
     (let es = map normalize_edit edits in
      case first_index (\<lambda>e. e_old e = []) es of
        Some i \<Rightarrow> Inl (EmptyOldText i)
      | None \<Rightarrow>
          (let fuzzy = list_ex (\<lambda>e. usedFuzzyMatch (fuzzyFindText nfkc content (e_old e))) es;
               base = (if fuzzy then normalizeForFuzzyMatch nfkc content else content)
           in case match_edits nfkc base 0 es of
                Inl err \<Rightarrow> Inl err
              | Inr matched \<Rightarrow>
                  (let ms = sort_key matchIndex matched in
                   case find_overlap ms of
                     Some err \<Rightarrow> Inl err
                   | None \<Rightarrow>
                       (case (if fuzzy then applyReplacementsPreservingUnchangedLines content base ms
                              else Inr (applyReplacements base ms 0)) of
                          Inl err \<Rightarrow> Inl err
                        | Inr new \<Rightarrow> if content = new then Inl NoChange else Inr (content, new)))))"

subsection \<open>The tool\<close>

text \<open>The files that can be read and written, by their resolved path.\<close>

type_synonym file_system = "js_string \<Rightarrow> byte list option"

datatype tool_error = InvalidInput | Aborted | CannotAccess | ReadFailed | WriteFailed | EditFailed edit_error

text \<open>Calls of the file system may fail, a write also after it has begun: then it leaves the file as it was (\<open>None\<close>) or with some
  other content.\<close>

datatype write_fault = WriteSucceeds | WriteFails "byte list option"

record tool_io =
  io_mkdir_fails :: bool
  io_read_fails :: bool
  io_write :: write_fault

definition io_ok :: tool_io where
  "io_ok = \<lparr>io_mkdir_fails = False, io_read_fails = False, io_write = WriteSucceeds\<rparr>"

text \<open>What a write leaves in the file, if it changes it.\<close>

definition written_by :: "tool_io \<Rightarrow> byte list \<Rightarrow> byte list option" where
  "written_by io new = (case io_write io of WriteSucceeds \<Rightarrow> Some new | WriteFails left \<Rightarrow> left)"

definition write_file :: "tool_io \<Rightarrow> js_string \<Rightarrow> byte list \<Rightarrow> file_system \<Rightarrow> file_system" where
  "write_file io p new fs = (case written_by io new of None \<Rightarrow> fs | Some b \<Rightarrow> fs(p \<mapsto> b))"

definition file_text :: "byte list \<Rightarrow> js_string" where
  "file_text buf = concat (map scalar_utf16 (utf8_lossy buf))"

text \<open>\<open>execute\<close>; \<open>aborted k\<close> tells whether the signal is set at the \<open>k\<close>-th call of \<open>throwIfAborted\<close> on the way of a
  successful edit. The result is the number of replaced blocks.\<close>

definition edit_execute ::
  "(js_string \<Rightarrow> js_string) \<Rightarrow> tool_io \<Rightarrow> (nat \<Rightarrow> bool) \<Rightarrow> edit list \<Rightarrow> js_string \<Rightarrow> file_system \<Rightarrow> (tool_error + nat) \<times> file_system" where
  "edit_execute nfkc io aborted edits absolutePath fs =
     (if edits = [] then (Inl InvalidInput, fs)
      else if aborted 0 then (Inl Aborted, fs)
      else case fs absolutePath of
        None \<Rightarrow> (Inl (if aborted 1 then Aborted else CannotAccess), fs)
      | Some buffer \<Rightarrow>
          if aborted 1 then (Inl Aborted, fs)
          else if io_read_fails io then (Inl ReadFailed, fs)
          else if aborted 2 then (Inl Aborted, fs)
          else let (bom, content) = stripBom (file_text buffer); originalEnding = detectLineEnding content in
            case applyEditsToNormalizedContent nfkc (normalizeToLF content) edits of
              Inl err \<Rightarrow> (Inl (EditFailed err), fs)
            | Inr (base, new) \<Rightarrow>
                if aborted 3 then (Inl Aborted, fs)
                else (if io_write io \<noteq> WriteSucceeds then Inl WriteFailed else if aborted 4 then Inl Aborted else Inr (length edits),
                      write_file io absolutePath (textEncoder_encode (bom @ restoreLineEndings new originalEnding)) fs))"

end
