(* ===== verification/EditFacts.thy ===== *)
theory EditFacts
  imports EditDiff "HOL-Library.Multiset"
begin

text \<open>
  What an edit does to a file: exact edits replace each old text by its new text and keep everything between;
  edits that needed the normalised text rewrite the lines they touch and keep all other lines of the
  original; line endings survive. The last part has the inputs on which the tool does not do what its documentation says.
\<close>

subsection \<open>Replacing from left to right\<close>

text \<open>The text from a position on with the replacements made.\<close>

fun patch_from :: "nat \<Rightarrow> js_string \<Rightarrow> matched_edit list \<Rightarrow> js_string" where
  "patch_from p s [] = drop p s"
| "patch_from p s (r # rs) = take (matchIndex r - p) (drop p s) @ newText r @ patch_from (matchIndex r + matchLength r) s rs"

text \<open>Replacements in order, without overlap, between two positions.\<close>

fun placed :: "nat \<Rightarrow> nat \<Rightarrow> matched_edit list \<Rightarrow> bool" where
  "placed p n [] \<longleftrightarrow> p \<le> n"
| "placed p n (r # rs) \<longleftrightarrow> p \<le> matchIndex r \<and> placed (matchIndex r + matchLength r) n rs"

lemma placed_le: "placed p n rs \<Longrightarrow> p \<le> n"
  by (induction rs arbitrary: p) fastforce+

lemma placed_append: "placed p n (rs @ rs') \<longleftrightarrow> (\<exists>q. placed p q rs \<and> placed q n rs')"
proof (induction rs arbitrary: p)
  case Nil
  then show ?case
    by (cases rs') (auto dest: placed_le intro: order_trans)
qed auto

lemma placed_mono: "placed p n rs \<Longrightarrow> n \<le> m \<Longrightarrow> placed p m rs"
  by (induction rs arbitrary: p) auto

lemma placed_bounds: "placed p n rs \<Longrightarrow> r \<in> set rs \<Longrightarrow> p \<le> matchIndex r \<and> matchIndex r + matchLength r \<le> n"
proof (induction rs arbitrary: p)
  case (Cons a rs)
  then have "matchIndex a + matchLength a \<le> n" using placed_le by auto
  with Cons show ?case by fastforce
qed simp

lemma apply_splice:
  assumes "placed p (length s) rs"
  shows "foldr (apply_one 0) rs s = take p s @ patch_from p s rs"
  using assms
proof (induction rs arbitrary: p)
  case (Cons r rs)
  define q where "q = matchIndex r + matchLength r"
  have IH: "foldr (apply_one 0) rs s = take q s @ patch_from q s rs" using Cons by (simp add: q_def)
  have q: "q \<le> length s" "p \<le> matchIndex r" "matchIndex r \<le> q" using Cons.prems placed_le by (auto simp: q_def)
  have "take p s @ take (matchIndex r - p) (drop p s) = take (matchIndex r) s"
    using q by (metis le_add_diff_inverse take_add)
  moreover have "apply_one 0 r (take q s @ patch_from q s rs) = take (matchIndex r) s @ newText r @ patch_from q s rs"
    using q by (simp add: apply_one_def Let_def q_def nat_add_distrib min_def)
  ultimately show ?case by (simp add: IH q_def [symmetric])
qed simp

lemma applyReplacements_splice: "placed 0 (length s) rs \<Longrightarrow> applyReplacements s rs 0 = patch_from 0 s rs"
  by (simp add: applyReplacements_def apply_splice)

text \<open>Moving the origin.\<close>

definition shift_edit :: "nat \<Rightarrow> matched_edit \<Rightarrow> matched_edit" where
  "shift_edit k r = r\<lparr>matchIndex := matchIndex r - k\<rparr>"

lemma shift_edit_fields [simp]:
  "matchIndex (shift_edit k r) = matchIndex r - k" "matchLength (shift_edit k r) = matchLength r"
  "newText (shift_edit k r) = newText r"
  by (simp_all add: shift_edit_def)

lemma placed_shift: "placed p n rs \<Longrightarrow> k \<le> p \<Longrightarrow> placed (p - k) (n - k) (map (shift_edit k) rs)"
proof (induction rs arbitrary: p)
  case (Cons r rs)
  then have "k \<le> matchIndex r + matchLength r" by simp
  from Cons.IH [OF _ this] Cons.prems show ?case by (simp add: diff_le_mono)
qed simp

lemma applyReplacements_shift:
  assumes "\<forall>r \<in> set rs. off \<le> matchIndex r"
  shows "applyReplacements s rs off = applyReplacements s (map (shift_edit off) rs) 0"
  using assms
  by (induction rs) (simp_all add: applyReplacements_def apply_one_def Let_def of_nat_diff)

lemma splice_shift:
  assumes "placed p (length s) rs" "k \<le> p"
  shows "patch_from p s rs = patch_from (p - k) (drop k s) (map (shift_edit k) rs)"
  using assms
proof (induction rs arbitrary: p)
  case (Cons r rs)
  then have "k \<le> matchIndex r + matchLength r" "k \<le> matchIndex r" by simp_all
  with Cons show ?case by (simp add: diff_diff_eq2 le_diff_conv2 algebra_simps)
qed simp

text \<open>Cutting at a position between two replacements.\<close>

lemma splice_cut:
  assumes "placed p q rs" "q \<le> length s" "placed q (length s) rs'"
  shows "patch_from p s (rs @ rs') = patch_from p (take q s) rs @ patch_from q s rs'"
  using assms
proof (induction rs arbitrary: p)
  case Nil
  then have pq: "p \<le> q" by simp
  show ?case
  proof (cases rs')
    case Nil
    with pq assms(2) show ?thesis by (simp add: drop_take) (metis append_take_drop_id drop_drop le_add_diff_inverse2)
  next
    case (Cons r rest)
    then have "q \<le> matchIndex r" using assms(3) by simp
    then have "take (matchIndex r - p) (drop p s) = take (q - p) (drop p s) @ take (matchIndex r - q) (drop q s)"
      using pq by (metis (no_types, lifting) drop_drop le_add_diff_inverse2 Nat.add_diff_assoc2 le_add_diff_inverse take_add)
    with Cons show ?thesis by (simp add: drop_take)
  qed
next
  case (Cons r rs)
  have "matchIndex r \<le> q" using Cons.prems(1) placed_le by fastforce
  with Cons show ?case by (simp add: drop_take)
qed

subsection \<open>Exact edits\<close>

lemma map_insort_key: "map f (insort_key (\<lambda>a. g (f a)) x xs) = insort_key g (f x) (map f xs)"
  by (induction xs) auto

lemma map_sort_key: "map f (sort_key (\<lambda>a. g (f a)) xs) = sort_key g (map f xs)"
  by (induction xs) (simp_all add: map_insort_key)

definition matched_text :: "js_string \<Rightarrow> matched_edit \<Rightarrow> js_string" where
  "matched_text s m = take (matchLength m) (drop (matchIndex m) s)"

lemma splice_gaps:
  assumes "placed p (length s) ms"
  obtains gs t where "length gs = length ms" "drop p s = concat (map2 (@) gs (map (matched_text s) ms)) @ t"
    "patch_from p s ms = concat (map2 (@) gs (map newText ms)) @ t"
  using assms
proof (induction ms arbitrary: p thesis)
  case Nil
  show ?case by (rule Nil.prems(1) [of "[]" "drop p s"]) simp_all
next
  case (Cons m ms)
  define q where "q = matchIndex m + matchLength m"
  obtain gs t where g: "length gs = length ms" "drop q s = concat (map2 (@) gs (map (matched_text s) ms)) @ t"
      "patch_from q s ms = concat (map2 (@) gs (map newText ms)) @ t"
    using Cons.IH [of q] Cons.prems(2) by (auto simp: q_def)
  have p: "p \<le> matchIndex m" using Cons.prems(2) by simp
  have "drop p s = take (matchIndex m - p) (drop p s) @ drop (matchIndex m) s"
    using p by (metis append_take_drop_id drop_drop le_add_diff_inverse2)
  moreover have "drop (matchIndex m) s = matched_text s m @ drop q s"
    by (simp add: matched_text_def q_def flip: drop_drop) (metis add.commute append_take_drop_id drop_drop)
  ultimately have "drop p s = take (matchIndex m - p) (drop p s) @ matched_text s m @ drop q s" by metis
  with g show ?case
    by (intro Cons.prems(1) [of "take (matchIndex m - p) (drop p s) # gs" t]) (simp_all add: q_def)
qed

lemma find_overlap_placed:
  "find_overlap (m # ms) = None \<Longrightarrow> \<forall>r \<in> set (m # ms). matchIndex r + matchLength r \<le> n \<Longrightarrow> p \<le> matchIndex m
     \<Longrightarrow> placed p n (m # ms)"
proof (induction ms arbitrary: m p)
  case (Cons c ms)
  then have "matchIndex m + matchLength m \<le> matchIndex c" "find_overlap (c # ms) = None" by (auto split: if_splits)
  with Cons show ?case by simp
qed simp

lemma no_overlap_placed:
  "find_overlap ms = None \<Longrightarrow> \<forall>r \<in> set ms. matchIndex r + matchLength r \<le> n \<Longrightarrow> placed 0 n ms"
  using find_overlap_placed [of "hd ms" "tl ms" n 0] by (cases ms) auto

text \<open>What a matched edit has to do with its edit.\<close>

definition matches :: "(js_string \<Rightarrow> js_string) \<Rightarrow> js_string \<Rightarrow> edit \<Rightarrow> matched_edit \<Rightarrow> bool" where
  "matches nfkc base e m \<longleftrightarrow> newText m = e_new e \<and> found (fuzzyFindText nfkc base (e_old e))
     \<and> int (matchIndex m) = fr_index (fuzzyFindText nfkc base (e_old e))
     \<and> matchLength m = fr_length (fuzzyFindText nfkc base (e_old e))"

lemma found_index: "found (fuzzyFindText nfkc base t) \<Longrightarrow> 0 \<le> fr_index (fuzzyFindText nfkc base t)"
  by (auto simp: fuzzyFindText_def Let_def split: option.splits)

lemma match_edits_matches: "match_edits nfkc base i es = Inr ms \<Longrightarrow> list_all2 (matches nfkc base) es ms"
proof (induction es arbitrary: i ms)
  case (Cons e es)
  then show ?case
    by (auto simp: Let_def matches_def found_index split: if_splits sum.splits)
qed simp

lemma matches_exact:
  assumes "matches nfkc base e m" "index_of (e_old e) base \<noteq> None"
  shows "matched_text base m = e_old e" "newText m = e_new e" "matchIndex m + matchLength m \<le> length base"
  using assms index_of_Some [of "e_old e" base]
  by (auto simp: matches_def fuzzyFindText_def matched_text_def)

text \<open>The outcome of a call on which every old text occurs exactly.\<close>

lemma exact_outcome:
  assumes "\<forall>e \<in> set edits. index_of (e_old (normalize_edit e)) content \<noteq> None"
    and "applyEditsToNormalizedContent nfkc content edits = Inr (base, new)"
  obtains ms where "match_edits nfkc content 0 (map normalize_edit edits) = Inr ms"
    "find_overlap (sort_key matchIndex ms) = None" "base = content" "new = applyReplacements content (sort_key matchIndex ms) 0"
    "content \<noteq> new"
proof -
  have "\<not> list_ex (\<lambda>e. usedFuzzyMatch (fuzzyFindText nfkc content (e_old e))) (map normalize_edit edits)"
    using assms(1) by (auto simp: list_ex_iff fuzzyFindText_def)
  with assms(2) that show thesis
    by (auto simp: applyEditsToNormalizedContent_def Let_def split: option.splits sum.splits if_splits)
qed

text \<open>Edits whose old texts occur exactly replace each of them, in the order in which they stand in the
  text, and leave the text before, between and after them as it is.\<close>

lemma exact_edits_replace:
  assumes "\<forall>e \<in> set edits. index_of (e_old (normalize_edit e)) content \<noteq> None"
    and "applyEditsToNormalizedContent nfkc content edits = Inr (base, new)"
  shows "base = content \<and> new \<noteq> content
    \<and> (\<exists>es gaps rest. mset es = mset (map normalize_edit edits) \<and> length gaps = length es
         \<and> content = concat (map2 (@) gaps (map e_old es)) @ rest
         \<and> new = concat (map2 (@) gaps (map e_new es)) @ rest)"
proof -
  define es where "es = map normalize_edit edits"
  obtain ms where ms: "match_edits nfkc content 0 es = Inr ms" "find_overlap (sort_key matchIndex ms) = None"
      "base = content" "new = applyReplacements content (sort_key matchIndex ms) 0" "content \<noteq> new"
    by (rule exact_outcome [OF assms]) (simp add: es_def)
  have all: "list_all2 (matches nfkc content) es ms" by (rule match_edits_matches [OF ms(1)])
  define pairs where "pairs = sort_key (\<lambda>a. matchIndex (snd a)) (zip es ms)"
  have len: "length es = length ms" using all by (rule list_all2_lengthD)
  have snds: "map snd pairs = sort_key matchIndex ms" by (simp add: pairs_def map_sort_key len)
  have pair: "matched_text content m = e_old e \<and> newText m = e_new e \<and> matchIndex m + matchLength m \<le> length content"
    if "(e, m) \<in> set pairs" for e m
  proof -
    have "(e, m) \<in> set (zip es ms)" using that by (simp add: pairs_def)
    then have "matches nfkc content e m" "e \<in> set es" using all by (auto simp: list_all2_iff dest: set_zip_leftD)
    with matches_exact assms(1) show ?thesis by (auto simp: es_def)
  qed
  have "placed 0 (length content) (map snd pairs)"
    by (rule no_overlap_placed) (use ms(2) pair in \<open>auto simp: snds [symmetric] simp del: map_map\<close>)
  then obtain gs t where g: "length gs = length pairs" "content = concat (map2 (@) gs (map (matched_text content) (map snd pairs))) @ t"
      "patch_from 0 content (map snd pairs) = concat (map2 (@) gs (map newText (map snd pairs))) @ t"
    using splice_gaps [of 0 content "map snd pairs"] by (metis drop0 length_map)
  have olds: "map (matched_text content) (map snd pairs) = map e_old (map fst pairs)"
      "map newText (map snd pairs) = map e_new (map fst pairs)"
    using pair by auto
  have c: "content = concat (map2 (@) gs (map e_old (map fst pairs))) @ t" using g(2) unfolding olds .
  have "new = patch_from 0 content (map snd pairs)"
    using ms(4) \<open>placed 0 (length content) (map snd pairs)\<close> by (simp add: snds applyReplacements_splice)
  then have n: "new = concat (map2 (@) gs (map e_new (map fst pairs))) @ t" using g(3) unfolding olds by (rule trans)
  have m: "mset (map fst pairs) = mset (map normalize_edit edits)"
    by (metis es_def len map_fst_zip mset_map mset_sort pairs_def)
  have l: "length gs = length (map fst pairs)" using g(1) by simp
  from ms(3,5) have "base = content" "new \<noteq> content" by auto
  with m l c n show ?thesis by blast
qed

subsection \<open>Lines\<close>

lemma concat_splitLines [simp]: "concat (splitLinesWithEndings s) = s"
  by (induction s) (auto split: list.splits)

lemma spans_length [simp]: "length (spans_from k ls) = length ls"
  by (induction ls arbitrary: k) auto

definition offset_of :: "js_string list \<Rightarrow> nat \<Rightarrow> nat" where
  "offset_of ls i = length (concat (take i ls))"

lemma offset_of_simps [simp]:
  "offset_of ls 0 = 0" "offset_of (l # ls) (Suc i) = length l + offset_of ls i"
  by (simp_all add: offset_of_def)

lemma spans_nth: "i < length ls \<Longrightarrow> spans_from k ls ! i = (k + offset_of ls i, k + offset_of ls (Suc i))"
proof (induction ls arbitrary: k i)
  case (Cons l ls)
  then show ?case by (cases i) auto
qed simp

lemma offset_mono: "i \<le> j \<Longrightarrow> offset_of ls i \<le> offset_of ls j"
  by (simp add: offset_of_def) (metis add.commute le_Suc_ex length_append le_add1 concat_append take_add)

lemma offset_all: "length ls \<le> i \<Longrightarrow> offset_of ls i = length (concat ls)"
  by (simp add: offset_of_def)

lemma lines_between:
  assumes "i \<le> j"
  shows "take (offset_of ls j - offset_of ls i) (drop (offset_of ls i) (concat ls)) = concat (take (j - i) (drop i ls))"
proof -
  have "concat ls = concat (take i ls) @ concat (take (j - i) (drop i ls)) @ concat (drop j ls)"
    using assms by (metis append_take_drop_id concat_append drop_drop le_add_diff_inverse2)
  moreover have "take j ls = take i ls @ take (j - i) (drop i ls)" using assms by (metis le_add_diff_inverse take_add)
  ultimately show ?thesis by (simp add: offset_of_def)
qed

text \<open>The lines a replacement touches.\<close>

lemma first_index_Some: "first_index P xs = Some i \<Longrightarrow> i < length xs \<and> P (xs ! i)"
  by (induction xs arbitrary: i) (auto split: if_splits)

lemma first_index_None: "first_index P xs = None \<longleftrightarrow> \<not> (\<exists>x \<in> set xs. P x)"
  by (induction xs) auto

lemma position_in_line:
  assumes "x < length (concat ls)"
  shows "\<exists>i < length ls. offset_of ls i \<le> x \<and> x < offset_of ls (Suc i)"
  using assms
proof (induction ls arbitrary: x)
  case (Cons l ls)
  show ?case
  proof (cases "x < length l")
    case False
    then have "x - length l < length (concat ls)" using Cons.prems by simp
    from Cons.IH [OF this] obtain i where "i < length ls" "offset_of ls i \<le> x - length l" "x - length l < offset_of ls (Suc i)"
      by auto
    with False show ?thesis by (intro exI [of _ "Suc i"]) auto
  qed (intro exI [of _ 0], simp)
qed simp

lemma line_range_spec:
  assumes "matchIndex r + matchLength r \<le> length (concat ls)" "matchLength r > 0"
  obtains a b where "getReplacementLineRange (spans_from 0 ls) r = Inr (a, b)" "a < b" "b \<le> length ls"
    "offset_of ls a \<le> matchIndex r" "matchIndex r < offset_of ls (Suc a)" "matchIndex r + matchLength r \<le> offset_of ls b"
proof -
  let ?P = "\<lambda>(a, b). a \<le> matchIndex r \<and> matchIndex r < b"
  let ?sp = "spans_from 0 ls"
  obtain i where i: "i < length ls" "offset_of ls i \<le> matchIndex r" "matchIndex r < offset_of ls (Suc i)"
    using position_in_line [of "matchIndex r" ls] assms by auto
  then have "?P (?sp ! i)" by (simp add: spans_nth)
  moreover have "?sp ! i \<in> set ?sp" using i(1) by (intro nth_mem) simp
  ultimately obtain a where a: "first_index ?P ?sp = Some a"
    using first_index_None [of ?P ?sp] by (metis (no_types, lifting) not_Some_eq)
  then have a': "a < length ls" "offset_of ls a \<le> matchIndex r" "matchIndex r < offset_of ls (Suc a)"
    using first_index_Some [OF a] by (auto simp: spans_nth)
  define Q :: "line_span \<Rightarrow> bool" where "Q = (\<lambda>(a, b). b < matchIndex r + matchLength r)"
  define w where "w = length (takeWhile Q (drop a ?sp))"
  have ex: "a + w < length ls"
  proof (rule ccontr)
    assume "\<not> a + w < length ls"
    then have "w = length (drop a ?sp)" using a'(1) length_takeWhile_le [of Q "drop a ?sp"] by (auto simp: w_def)
    then have "takeWhile Q (drop a ?sp) = drop a ?sp" unfolding w_def by (metis takeWhile_eq_take take_all order_refl)
    then have all: "\<forall>x \<in> set (drop a ?sp). Q x" by (metis set_takeWhileD)
    have "drop a ?sp ! (length ls - 1 - a) \<in> set (drop a ?sp)" using a'(1) by (intro nth_mem) simp
    then have "?sp ! (length ls - 1) \<in> set (drop a ?sp)" using a'(1) by simp
    with all have "Q (?sp ! (length ls - 1))" by (rule bspec)
    then have "offset_of ls (Suc (length ls - 1)) < matchIndex r + matchLength r" using a'(1) by (simp add: spans_nth Q_def)
    with assms(1) a'(1) show False by (simp add: offset_all)
  qed
  have "\<not> Q (drop a ?sp ! w)" unfolding w_def by (intro nth_length_takeWhile) (use ex in \<open>simp add: w_def\<close>)
  then have "matchIndex r + matchLength r \<le> offset_of ls (Suc (a + w))" using ex a'(1) by (simp add: spans_nth Q_def)
  moreover have "getReplacementLineRange ?sp r = Inr (a, Suc (a + w))"
    using a ex by (simp add: getReplacementLineRange_def Let_def w_def Q_def)
  ultimately show thesis using that [of a "Suc (a + w)"] a' ex by simp
qed

subsection \<open>Groups of replacements\<close>

text \<open>The lines of a replacement, from the first to the one after the last.\<close>

definition line_range_of :: "js_string list \<Rightarrow> matched_edit \<Rightarrow> nat \<times> nat" where
  "line_range_of ls r = (case getReplacementLineRange (spans_from 0 ls) r of Inr p \<Rightarrow> p | Inl _ \<Rightarrow> (0, 0))"

definition within_lines :: "js_string list \<Rightarrow> matched_edit \<Rightarrow> bool" where
  "within_lines ls r \<longleftrightarrow> matchIndex r + matchLength r \<le> length (concat ls) \<and> matchLength r > 0"

lemma line_range_of_spec:
  assumes "within_lines ls r"
  shows "getReplacementLineRange (spans_from 0 ls) r = Inr (line_range_of ls r)"
    "fst (line_range_of ls r) < snd (line_range_of ls r)" "snd (line_range_of ls r) \<le> length ls"
    "offset_of ls (fst (line_range_of ls r)) \<le> matchIndex r" "matchIndex r < offset_of ls (Suc (fst (line_range_of ls r)))"
    "matchIndex r + matchLength r \<le> offset_of ls (snd (line_range_of ls r))"
proof -
  obtain a b where "getReplacementLineRange (spans_from 0 ls) r = Inr (a, b)" "a < b" "b \<le> length ls"
    "offset_of ls a \<le> matchIndex r" "matchIndex r < offset_of ls (Suc a)" "matchIndex r + matchLength r \<le> offset_of ls b"
    by (rule line_range_spec) (use assms in \<open>auto simp: within_lines_def\<close>)
  then show "getReplacementLineRange (spans_from 0 ls) r = Inr (line_range_of ls r)"
    "fst (line_range_of ls r) < snd (line_range_of ls r)" "snd (line_range_of ls r) \<le> length ls"
    "offset_of ls (fst (line_range_of ls r)) \<le> matchIndex r" "matchIndex r < offset_of ls (Suc (fst (line_range_of ls r)))"
    "matchIndex r + matchLength r \<le> offset_of ls (snd (line_range_of ls r))"
    by (simp_all add: line_range_of_def)
qed

text \<open>A group covers exactly the lines of its replacements.\<close>

definition group_ok :: "js_string list \<Rightarrow> edit_group \<Rightarrow> bool" where
  "group_ok ls g \<longleftrightarrow> startLine g < endLine g \<and> endLine g \<le> length ls
     \<and> (\<forall>r \<in> set (replacements g). within_lines ls r
          \<and> startLine g \<le> fst (line_range_of ls r) \<and> snd (line_range_of ls r) \<le> endLine g)
     \<and> (\<forall>i. startLine g \<le> i \<and> i < endLine g \<longrightarrow>
          (\<exists>r \<in> set (replacements g). fst (line_range_of ls r) \<le> i \<and> i < snd (line_range_of ls r)))"

fun groups_ok :: "js_string list \<Rightarrow> nat \<Rightarrow> edit_group list \<Rightarrow> bool" where
  "groups_ok ls k [] \<longleftrightarrow> True"
| "groups_ok ls k (g # gs) \<longleftrightarrow> k \<le> startLine g \<and> group_ok ls g \<and> groups_ok ls (endLine g) gs"

lemma groups_ok_snoc:
  "groups_ok ls k (gs @ [g]) \<longleftrightarrow>
     groups_ok ls k gs \<and> group_ok ls g \<and> (if gs = [] then k else endLine (last gs)) \<le> startLine g"
  by (induction gs arbitrary: k) auto

lemma group_nonempty: "group_ok ls g \<Longrightarrow> \<exists>r \<in> set (replacements g). startLine g \<le> fst (line_range_of ls r)"
  unfolding group_ok_def by blast

lemma line_range_mono:
  assumes "within_lines ls r" "within_lines ls r'" "matchIndex r \<le> matchIndex r'"
  shows "fst (line_range_of ls r) \<le> fst (line_range_of ls r')"
proof (rule ccontr)
  assume "\<not> ?thesis"
  then have "offset_of ls (Suc (fst (line_range_of ls r'))) \<le> offset_of ls (fst (line_range_of ls r))"
    by (intro offset_mono) simp
  with line_range_of_spec(4) [OF assms(1)] line_range_of_spec(5) [OF assms(2)] assms(3) show False by simp
qed

lemma group_step_ok:
  assumes "groups_ok ls 0 gs" "within_lines ls r" "\<forall>g \<in> set gs. \<forall>q \<in> set (replacements g). matchIndex q \<le> matchIndex r"
  shows "\<exists>gs'. group_step (spans_from 0 ls) (Inr gs) r = Inr gs' \<and> groups_ok ls 0 gs'
    \<and> concat (map replacements gs') = concat (map replacements gs) @ [r]"
proof -
  define a b where "a = fst (line_range_of ls r)" and "b = snd (line_range_of ls r)"
  note spec = line_range_of_spec [OF assms(2), folded a_def b_def]
  have range: "getReplacementLineRange (spans_from 0 ls) r = Inr (a, b)" using spec(1) by (simp add: a_def b_def)
  show ?thesis
  proof (cases "gs \<noteq> [] \<and> a < endLine (last gs)")
    case True
    define g where "g = last gs"
    have gs: "gs = butlast gs @ [g]" using True by (simp add: g_def)
    have ok: "groups_ok ls 0 (butlast gs)" "group_ok ls g" "(if butlast gs = [] then 0 else endLine (last (butlast gs))) \<le> startLine g"
      using assms(1) groups_ok_snoc [of ls 0 "butlast gs" g] gs by auto
    obtain q where q: "q \<in> set (replacements g)" "startLine g \<le> fst (line_range_of ls q)"
      using group_nonempty [OF ok(2)] by blast
    have "g \<in> set gs" using True by (simp add: g_def)
    then have sa: "startLine g \<le> a"
      using q ok(2) assms(2,3) line_range_mono [of ls q r] unfolding a_def group_ok_def by (meson order_trans)
    define g' where "g' = g\<lparr>endLine := max (endLine g) b, replacements := replacements g @ [r]\<rparr>"
    have "\<exists>q \<in> set (replacements g'). fst (line_range_of ls q) \<le> i \<and> i < snd (line_range_of ls q)"
      if "startLine g \<le> i" "i < max (endLine g) b" for i
    proof (cases "i < endLine g")
      case True
      with that(1) ok(2) show ?thesis unfolding group_ok_def g'_def by auto
    next
      case False
      with that(2) True have "a \<le> i" "i < b" by (auto simp: g_def)
      then show ?thesis by (intro bexI [of _ r]) (auto simp: a_def b_def g'_def)
    qed
    moreover have "startLine g < endLine g" "endLine g \<le> length ls" using ok(2) by (auto simp: group_ok_def)
    moreover have "within_lines ls q \<and> startLine g \<le> fst (line_range_of ls q) \<and> snd (line_range_of ls q) \<le> max (endLine g) b"
      if "q \<in> set (replacements g')" for q
      using that ok(2) sa assms(2) by (auto simp: g'_def group_ok_def a_def b_def le_max_iff_disj)
    ultimately have "group_ok ls g'" using spec(3) by (auto simp: group_ok_def g'_def less_max_iff_disj)
    then have "groups_ok ls 0 (butlast gs @ [g'])" using ok by (simp add: groups_ok_snoc g'_def)
    moreover have "group_step (spans_from 0 ls) (Inr gs) r = Inr (butlast gs @ [g'])"
      using True by (simp add: group_step_def range g'_def g_def)
    moreover have "concat (map replacements (butlast gs @ [g'])) = concat (map replacements gs) @ [r]"
      by (subst (2) gs) (simp add: g'_def)
    ultimately show ?thesis by blast
  next
    case False
    define g where "g = \<lparr>startLine = a, endLine = b, replacements = [r]\<rparr>"
    have "group_ok ls g" using spec assms(2) by (auto simp: group_ok_def g_def a_def b_def)
    then have "groups_ok ls 0 (gs @ [g])" using assms(1) False by (auto simp: groups_ok_snoc g_def)
    moreover have "group_step (spans_from 0 ls) (Inr gs) r = Inr (gs @ [g])"
      using False by (auto simp: group_step_def range g_def)
    ultimately show ?thesis by (intro exI [of _ "gs @ [g]"]) (simp add: g_def)
  qed
qed

lemma group_fold:
  assumes "groups_ok ls 0 gs" "\<forall>r \<in> set rs. within_lines ls r" "sorted (map matchIndex (concat (map replacements gs) @ rs))"
  shows "\<exists>gs'. foldl (group_step (spans_from 0 ls)) (Inr gs) rs = Inr gs' \<and> groups_ok ls 0 gs'
    \<and> concat (map replacements gs') = concat (map replacements gs) @ rs"
  using assms
proof (induction rs arbitrary: gs)
  case (Cons r rs)
  have le: "\<forall>g \<in> set gs. \<forall>q \<in> set (replacements g). matchIndex q \<le> matchIndex r"
    using Cons.prems(3) by (auto simp: sorted_append)
  obtain gs1 where g: "group_step (spans_from 0 ls) (Inr gs) r = Inr gs1" "groups_ok ls 0 gs1"
      "concat (map replacements gs1) = concat (map replacements gs) @ [r]"
    using group_step_ok [OF Cons.prems(1) _ le] Cons.prems(2) by auto
  from Cons.IH [OF g(2)] Cons.prems(2,3) obtain gs' where
    "foldl (group_step (spans_from 0 ls)) (Inr gs1) rs = Inr gs'" "groups_ok ls 0 gs'"
    "concat (map replacements gs') = concat (map replacements gs1) @ rs"
    by (auto simp: g(3))
  with g show ?case by auto
qed simp

subsection \<open>Keeping the lines that are not touched\<close>

text \<open>The base text with every line that no replacement touches taken from the original, and a replacement
  moved to where its line now starts.\<close>

definition touched :: "js_string list \<Rightarrow> matched_edit list \<Rightarrow> nat \<Rightarrow> bool" where
  "touched baseLines rs i \<longleftrightarrow> list_ex (\<lambda>r. fst (line_range_of baseLines r) \<le> i \<and> i < snd (line_range_of baseLines r)) rs"

definition merged_lines :: "(nat \<Rightarrow> bool) \<Rightarrow> js_string list \<Rightarrow> js_string list \<Rightarrow> js_string list" where
  "merged_lines rewritten originalLines baseLines =
     map (\<lambda>i. if rewritten i then baseLines ! i else originalLines ! i) [0..<length baseLines]"

definition moved_edit :: "js_string list \<Rightarrow> js_string list \<Rightarrow> matched_edit \<Rightarrow> matched_edit" where
  "moved_edit baseLines ls r =
     (let a = fst (line_range_of baseLines r)
      in r\<lparr>matchIndex := matchIndex r - offset_of baseLines a + offset_of ls a\<rparr>)"

lemma placed_restrict:
  "placed p n rs \<Longrightarrow> \<forall>r \<in> set rs. lo \<le> matchIndex r \<and> matchIndex r + matchLength r \<le> hi \<Longrightarrow> lo \<le> hi \<Longrightarrow> placed lo hi rs"
proof (induction rs arbitrary: p lo)
  case (Cons r rs)
  have "\<forall>q \<in> set rs. matchIndex r + matchLength r \<le> matchIndex q" using Cons.prems(1) placed_bounds by fastforce
  with Cons.IH [of "matchIndex r + matchLength r" "matchIndex r + matchLength r"] Cons.prems show ?case by simp
qed simp

lemma placed_weaken: "placed p n rs \<Longrightarrow> p' \<le> p \<Longrightarrow> placed p' n rs"
  by (cases rs) auto

lemma placed_map:
  assumes "placed p hi rs" "lo \<le> p"
    and "\<forall>r \<in> set rs. matchIndex (f r) = c + (matchIndex r - lo) \<and> matchLength (f r) = matchLength r"
  shows "placed (c + (p - lo)) (c + (hi - lo)) (map f rs)"
  using assms
proof (induction rs arbitrary: p)
  case (Cons r rs)
  from Cons.IH [of "matchIndex r + matchLength r"] Cons.prems show ?case by (simp add: diff_le_mono add.assoc)
qed (simp add: diff_le_mono)

lemma patch_from_skip:
  assumes "placed p' n rs" "p \<le> p'" "p' \<le> length s"
  shows "patch_from p s rs = take (p' - p) (drop p s) @ patch_from p' s rs"
proof (cases rs)
  case Nil
  with assms show ?thesis by simp (metis append_take_drop_id drop_drop le_add_diff_inverse2)
next
  case (Cons r rest)
  then have "p' \<le> matchIndex r" using assms by simp
  then have "take (matchIndex r - p) (drop p s) = take (p' - p) (drop p s) @ take (matchIndex r - p') (drop p' s)"
    using assms(2) by (metis (no_types, lifting) drop_drop le_add_diff_inverse2 Nat.add_diff_assoc2 le_add_diff_inverse take_add)
  with Cons show ?thesis by simp
qed

lemma merged_lines_length [simp]: "length (merged_lines T os bs) = length bs"
  by (simp add: merged_lines_def)

lemma merged_lines_between:
  assumes "j \<le> length bs" "length os = length bs"
  shows "(\<forall>i. k \<le> i \<and> i < j \<longrightarrow> \<not> T i) \<Longrightarrow> take (j - k) (drop k (merged_lines T os bs)) = take (j - k) (drop k os)"
    "(\<forall>i. k \<le> i \<and> i < j \<longrightarrow> T i) \<Longrightarrow> take (j - k) (drop k (merged_lines T os bs)) = take (j - k) (drop k bs)"
  using assms by (auto simp: merged_lines_def intro!: nth_equalityI)

lemma offset_add:
  "i \<le> j \<Longrightarrow> offset_of ls j = offset_of ls i + length (concat (take (j - i) (drop i ls)))"
  unfolding offset_of_def by (metis concat_append le_add_diff_inverse length_append take_add)

text \<open>One group: its part of the merged text is that of the base text, and the moved replacements do there
  what the replacements do in the base text.\<close>

lemma merged_inside:
  assumes "length os = length bs" "e \<le> length bs" "\<forall>i. s \<le> i \<and> i < e \<longrightarrow> T i" "ms = merged_lines T os bs" "s \<le> j" "j \<le> e"
  shows "take (j - s) (drop s ms) = take (j - s) (drop s bs)"
    "offset_of ms j = offset_of ms s + (offset_of bs j - offset_of bs s)"
proof -
  show *: "take (j - s) (drop s ms) = take (j - s) (drop s bs)"
    unfolding assms(4) using assms(2,3,5,6) by (intro merged_lines_between) (auto simp: assms(1))
  show "offset_of ms j = offset_of ms s + (offset_of bs j - offset_of bs s)"
    using offset_add [OF assms(5), of ms] offset_add [OF assms(5), of bs] * by simp
qed

lemma moved_in_group:
  assumes "length os = length bs" "group_ok bs g" "\<forall>i. startLine g \<le> i \<and> i < endLine g \<longrightarrow> T i"
    and "ms = merged_lines T os bs" "r \<in> set (replacements g)"
  shows "matchIndex (moved_edit bs ms r) = offset_of ms (startLine g) + (matchIndex r - offset_of bs (startLine g))"
    "offset_of bs (startLine g) \<le> matchIndex r" "matchIndex r + matchLength r \<le> offset_of bs (endLine g)"
proof -
  define a where "a = fst (line_range_of bs r)"
  have r: "within_lines bs r" "startLine g \<le> a" "snd (line_range_of bs r) \<le> endLine g" "endLine g \<le> length bs"
    using assms(2,5) by (auto simp: group_ok_def a_def)
  note spec = line_range_of_spec [OF r(1), folded a_def]
  have a: "a \<le> endLine g" using spec(2) r(3) by simp
  have "offset_of ms a = offset_of ms (startLine g) + (offset_of bs a - offset_of bs (startLine g))"
    by (rule merged_inside(2) [OF assms(1) r(4) assms(3,4) r(2) a])
  with spec(4) offset_mono [OF r(2), of bs]
  show "matchIndex (moved_edit bs ms r) = offset_of ms (startLine g) + (matchIndex r - offset_of bs (startLine g))"
    "offset_of bs (startLine g) \<le> matchIndex r"
    by (simp_all add: moved_edit_def Let_def a_def [symmetric])
  show "matchIndex r + matchLength r \<le> offset_of bs (endLine g)" using spec(6) offset_mono [OF r(3), of bs] by simp
qed

lemma group_patch:
  assumes "length os = length bs" "group_ok bs g" "\<forall>i. startLine g \<le> i \<and> i < endLine g \<longrightarrow> T i" "ms = merged_lines T os bs"
    and "placed (offset_of bs (startLine g)) (offset_of bs (endLine g)) (replacements g)"
  shows "placed (offset_of ms (startLine g)) (offset_of ms (endLine g)) (map (moved_edit bs ms) (replacements g))"
    "patch_from (offset_of ms (startLine g)) (take (offset_of ms (endLine g)) (concat ms)) (map (moved_edit bs ms) (replacements g))
       = applyReplacements (concat (take (endLine g - startLine g) (drop (startLine g) bs))) (replacements g) (offset_of bs (startLine g))"
proof -
  define s e where "s = startLine g" and "e = endLine g"
  define slice where "slice = concat (take (e - s) (drop s bs))"
  let ?m = "map (moved_edit bs ms) (replacements g)"
  have g: "s \<le> e" "e \<le> length bs" using assms(2) by (auto simp: group_ok_def s_def e_def)
  note moved = moved_in_group [OF assms(1-4), folded s_def e_def]
  note inside = merged_inside [OF assms(1) g(2) _ assms(4) g(1) order_refl, OF assms(3) [folded s_def e_def]]
  note p_g = assms(5) [folded s_def e_def]
  have len: "length slice = offset_of bs e - offset_of bs s" using offset_add [OF g(1), of bs] by (simp add: slice_def)
  have p_m: "placed (offset_of ms s) (offset_of ms e) ?m"
    using placed_map [OF p_g order_refl, of "moved_edit bs ms" "offset_of ms s"] moved(1)
    by (simp add: inside(2)) (simp add: moved_edit_def Let_def)
  have order: "offset_of ms e \<le> length (concat ms)"
    using g offset_mono [of e "length ms" ms] by (simp add: offset_all assms(4))
  have "shift_edit (offset_of ms s) (moved_edit bs ms r) = shift_edit (offset_of bs s) r" if "r \<in> set (replacements g)" for r
    unfolding shift_edit_def moved(1) [OF that] by (simp add: moved_edit_def Let_def)
  then have shifted: "map (shift_edit (offset_of ms s)) ?m = map (shift_edit (offset_of bs s)) (replacements g)" by simp
  have "patch_from (offset_of ms s) (take (offset_of ms e) (concat ms)) ?m
      = patch_from 0 (drop (offset_of ms s) (take (offset_of ms e) (concat ms))) (map (shift_edit (offset_of ms s)) ?m)"
    using splice_shift [of "offset_of ms s" "take (offset_of ms e) (concat ms)" ?m "offset_of ms s"] p_m order by simp
  also have "drop (offset_of ms s) (take (offset_of ms e) (concat ms)) = slice"
    using lines_between [OF g(1), of ms] inside(1) by (simp add: drop_take slice_def)
  also have "patch_from 0 slice (map (shift_edit (offset_of ms s)) ?m)
      = applyReplacements slice (map (shift_edit (offset_of bs s)) (replacements g)) 0"
    unfolding shifted
    by (rule applyReplacements_splice [symmetric]) (use placed_shift [OF p_g order_refl] in \<open>simp add: len\<close>)
  also have "\<dots> = applyReplacements slice (replacements g) (offset_of bs s)"
    by (rule applyReplacements_shift [symmetric]) (use moved(2) in blast)
  finally show "patch_from (offset_of ms (startLine g)) (take (offset_of ms (endLine g)) (concat ms)) ?m
       = applyReplacements (concat (take (endLine g - startLine g) (drop (startLine g) bs))) (replacements g) (offset_of bs (startLine g))"
    by (simp add: slice_def s_def e_def)
  show "placed (offset_of ms (startLine g)) (offset_of ms (endLine g)) ?m" using p_m by (simp add: s_def e_def)
qed

text \<open>The replacements of a group lie between the ends of its lines, those of later groups after them.\<close>

lemma groups_later: "groups_ok bs e gs \<Longrightarrow> g \<in> set gs \<Longrightarrow> e \<le> startLine g \<and> group_ok bs g"
  by (induction gs arbitrary: e) (fastforce simp: group_ok_def)+

lemma group_reps_bounds:
  assumes "group_ok bs g" "r \<in> set (replacements g)"
  shows "offset_of bs (startLine g) \<le> matchIndex r \<and> matchIndex r + matchLength r \<le> offset_of bs (endLine g)"
proof -
  have r: "within_lines bs r" "startLine g \<le> fst (line_range_of bs r)" "snd (line_range_of bs r) \<le> endLine g"
    using assms by (auto simp: group_ok_def)
  then show ?thesis using line_range_of_spec(4,6) [OF r(1)] offset_mono by (meson order_trans)
qed

lemma groups_placed:
  assumes "groups_ok bs k (g # gs)" "placed p (length (concat bs)) (concat (map replacements (g # gs)))"
  shows "placed (offset_of bs (startLine g)) (offset_of bs (endLine g)) (replacements g)"
    "placed (offset_of bs (endLine g)) (length (concat bs)) (concat (map replacements gs))"
proof -
  define rest where "rest = concat (map replacements gs)"
  obtain q where q: "placed p q (replacements g)" "placed q (length (concat bs)) rest"
    using assms(2) by (auto simp: rest_def placed_append)
  have g: "group_ok bs g" "groups_ok bs (endLine g) gs" using assms(1) by auto
  have ends: "offset_of bs (startLine g) \<le> offset_of bs (endLine g)" "offset_of bs (endLine g) \<le> length (concat bs)"
    using g(1) offset_mono [of "startLine g" "endLine g" bs] offset_mono [of "endLine g" "length bs" bs]
    by (auto simp: offset_all group_ok_def)
  show "placed (offset_of bs (startLine g)) (offset_of bs (endLine g)) (replacements g)"
    by (rule placed_restrict [OF q(1) _ ends(1)]) (use group_reps_bounds [OF g(1)] in blast)
  have "offset_of bs (endLine g) \<le> matchIndex r" if "r \<in> set rest" for r
  proof -
    obtain g' where "g' \<in> set gs" "r \<in> set (replacements g')" using \<open>r \<in> set rest\<close> by (auto simp: rest_def)
    with groups_later [OF g(2)] group_reps_bounds offset_mono show ?thesis by (meson order_trans)
  qed
  with placed_bounds [OF q(2)] show "placed (offset_of bs (endLine g)) (length (concat bs)) (concat (map replacements gs))"
    unfolding rest_def [symmetric] by (intro placed_restrict [OF q(2) _ ends(2)]) blast
qed

lemma overlay_merged:
  assumes "length os = length bs" "groups_ok bs k gs" "k \<le> length bs"
    and "\<forall>i. k \<le> i \<and> i < length bs \<longrightarrow> (T i \<longleftrightarrow> (\<exists>g \<in> set gs. startLine g \<le> i \<and> i < endLine g))"
    and "placed (offset_of bs k) (length (concat bs)) (concat (map replacements gs))"
    and "ms = merged_lines T os bs"
  shows "placed (offset_of ms k) (length (concat ms)) (map (moved_edit bs ms) (concat (map replacements gs)))
    \<and> overlay_groups os (spans_from 0 bs) (concat bs) k gs
        = patch_from (offset_of ms k) (concat ms) (map (moved_edit bs ms) (concat (map replacements gs)))"
  using assms(2-5)
proof (induction gs arbitrary: k)
  case Nil
  have ms: "length ms = length bs" by (simp add: assms(6))
  have "take (length bs - k) (drop k ms) = take (length bs - k) (drop k os)"
    unfolding assms(6) using Nil.prems(3) by (intro merged_lines_between) (auto simp: assms(1))
  then have tail: "drop k ms = drop k os" using ms assms(1) by simp
  have "drop (offset_of ms k) (concat ms) = concat (drop k ms)"
    unfolding offset_of_def by (metis append_eq_conv_conj append_take_drop_id concat_append)
  moreover have "offset_of ms k \<le> length (concat ms)"
    using offset_mono [of k "length ms" ms] Nil.prems(2) ms by (simp add: offset_all)
  ultimately show ?case by (simp add: tail)
next
  case (Cons g gs)
  define s e where "s = startLine g" and "e = endLine g"
  define rest where "rest = concat (map replacements gs)"
  let ?m = "map (moved_edit bs ms) (replacements g)"
  have g: "k \<le> s" "s < e" "e \<le> length bs" "group_ok bs g" "groups_ok bs e gs"
    using Cons.prems(1) by (auto simp: s_def e_def group_ok_def)
  note parts = groups_placed [OF Cons.prems(1,4), folded s_def e_def]
  have T_rest: "\<forall>i. e \<le> i \<and> i < length bs \<longrightarrow> (T i \<longleftrightarrow> (\<exists>g \<in> set gs. startLine g \<le> i \<and> i < endLine g))"
    using Cons.prems(3) g(1,2) by (auto simp: e_def)
  note IH = Cons.IH [OF g(5,3) T_rest parts(2), folded rest_def]
  have T_before: "\<forall>i. k \<le> i \<and> i < s \<longrightarrow> \<not> T i"
    using Cons.prems(3) g(2,3) groups_later [OF g(5)] by (fastforce simp: s_def e_def)
  have T_in: "\<forall>i. startLine g \<le> i \<and> i < endLine g \<longrightarrow> T i" using Cons.prems(3) g(1,3) by (auto simp: s_def e_def)
  note grp = group_patch [OF assms(1) g(4) T_in assms(6) parts(1) [unfolded s_def e_def], folded s_def e_def]
  have order: "offset_of ms k \<le> offset_of ms s" "offset_of ms s \<le> offset_of ms e" "offset_of ms e \<le> length (concat ms)"
    using g offset_mono [of k s ms] offset_mono [of s e ms] offset_mono [of e "length ms" ms]
    by (simp_all add: offset_all assms(6))
  have p_k: "placed (offset_of ms k) (offset_of ms e) ?m" by (rule placed_weaken [OF grp(1) order(1)])
  have "take (s - k) (drop k ms) = take (s - k) (drop k os)"
    unfolding assms(6) using g T_before by (intro merged_lines_between) (auto simp: assms(1))
  then have gap: "take (offset_of ms s - offset_of ms k) (drop (offset_of ms k) (take (offset_of ms e) (concat ms)))
      = concat (take (s - k) (drop k os))"
    using lines_between [OF g(1), of ms] order by (simp add: drop_take min_def)
  have "patch_from (offset_of ms k) (concat ms) (?m @ map (moved_edit bs ms) rest)
      = patch_from (offset_of ms k) (take (offset_of ms e) (concat ms)) ?m
        @ patch_from (offset_of ms e) (concat ms) (map (moved_edit bs ms) rest)"
    by (rule splice_cut [OF p_k order(3)]) (use IH in blast)
  also have "\<dots> = overlay_groups os (spans_from 0 bs) (concat bs) k (g # gs)"
    using patch_from_skip [OF grp(1) order(1), of "take (offset_of ms e) (concat ms)"] order grp(2) gap IH g lines_between [of s e bs]
    by (simp add: s_def [symmetric] e_def [symmetric] Let_def spans_nth)
  finally show ?case using p_k IH placed_append by (auto simp: rest_def)
qed

lemma placed_sorted: "placed p n rs \<Longrightarrow> sorted (map matchIndex rs)"
proof (induction rs arbitrary: p)
  case (Cons r rs)
  then have "placed (matchIndex r + matchLength r) n rs" by simp
  from Cons.IH [OF this] placed_bounds [OF this] show ?case by fastforce
qed simp

text \<open>Property C17. When edits were matched in the normalised text, the result is made as if every line that no edit touches had been
  taken from the original first, and the edits had then been applied to that text. In particular it is the plain
  application when the normalised text is the original.\<close>

theorem fuzzy_edits_keep_lines:
  assumes "length (splitLinesWithEndings original) = length (splitLinesWithEndings base)"
    and "placed 0 (length base) rs" "\<forall>r \<in> set rs. matchLength r > 0"
    and "bs = splitLinesWithEndings base" "ms = merged_lines (touched bs rs) (splitLinesWithEndings original) bs"
  shows "applyReplacementsPreservingUnchangedLines original base rs = Inr (applyReplacements (concat ms) (map (moved_edit bs ms) rs) 0)
    \<and> (original = base \<longrightarrow> applyReplacementsPreservingUnchangedLines original base rs = Inr (applyReplacements base rs 0))"
proof -
  have base: "concat bs = base" by (simp add: assms(4))
  have within: "\<forall>r \<in> set rs. within_lines bs r"
    using placed_bounds [OF assms(2)] assms(3) by (auto simp: within_lines_def base)
  have sorted: "sort_key matchIndex rs = rs" using placed_sorted [OF assms(2)] by (simp add: sort_key_id_if_sorted)
  obtain gs where gs: "foldl (group_step (spans_from 0 bs)) (Inr []) rs = Inr gs" "groups_ok bs 0 gs" "concat (map replacements gs) = rs"
    using group_fold [of bs "[]" rs] within placed_sorted [OF assms(2)] by auto
  have "touched bs rs i \<longleftrightarrow> (\<exists>g \<in> set gs. startLine g \<le> i \<and> i < endLine g)" for i
  proof -
    have ok: "\<forall>g \<in> set gs. group_ok bs g" using groups_later [OF gs(2)] by blast
    have "touched bs rs i \<longleftrightarrow> (\<exists>g \<in> set gs. \<exists>r \<in> set (replacements g). fst (line_range_of bs r) \<le> i \<and> i < snd (line_range_of bs r))"
      by (auto simp: touched_def list_ex_iff gs(3) [symmetric])
    with ok show ?thesis unfolding group_ok_def by (meson order_trans order_less_le_trans)
  qed
  with overlay_merged [of "splitLinesWithEndings original" bs 0 gs "touched bs rs" ms] gs assms(1,2,4,5)
  have over: "placed 0 (length (concat ms)) (map (moved_edit bs ms) rs)"
    "overlay_groups (splitLinesWithEndings original) (spans_from 0 bs) base 0 gs = patch_from 0 (concat ms) (map (moved_edit bs ms) rs)"
    by (simp_all add: base)
  then have res: "applyReplacementsPreservingUnchangedLines original base rs = Inr (applyReplacements (concat ms) (map (moved_edit bs ms) rs) 0)"
    using assms(1,4) gs(1) sorted
    by (simp add: applyReplacementsPreservingUnchangedLines_def getLineSpans_def applyReplacements_splice)
  have "ms = bs \<and> map (moved_edit bs bs) rs = rs" if "original = base"
  proof
    show "ms = bs" using that by (auto simp: assms(4,5) merged_lines_def intro: nth_equalityI)
    show "map (moved_edit bs bs) rs = rs"
      using within line_range_of_spec(4) by (intro map_idI) (simp add: moved_edit_def Let_def)
  qed
  with res show ?thesis by (auto simp: base)
qed

text \<open>The trailing space of the first line survives an edit that matched the second line only after normalisation.\<close>

theorem fuzzy_edits_keep_lines_witness:
  "applyReplacementsPreservingUnchangedLines [120, 32, 10, 121] [120, 10, 121]
     [\<lparr>editIndex = 0, matchIndex = 2, matchLength = 1, newText = [122]\<rparr>] = Inr [120, 32, 10, 122]"
proof -
  let ?r = "\<lparr>editIndex = 0, matchIndex = 2, matchLength = Suc 0, newText = [122]\<rparr> :: matched_edit"
  have "merged_lines (touched [[120, 10], [121]] [?r]) [[120, 32, 10], [121]] [[120, 10], [121]] = [[120, 32, 10], [121]]"
    "moved_edit [[120, 10], [121]] [[120, 32, 10], [121]] ?r = ?r\<lparr>matchIndex := 3\<rparr>"
    by (simp_all add: merged_lines_def touched_def moved_edit_def line_range_of_def getReplacementLineRange_def offset_of_def
        upt_rec)
  moreover have "applyReplacementsPreservingUnchangedLines [120, 32, 10, 121] [120, 10, 121] [?r]
      = Inr (applyReplacements (concat [[120, 32, 10], [121]]) (map (moved_edit [[120, 10], [121]] [[120, 32, 10], [121]]) [?r]) 0)"
    by (rule fuzzy_edits_keep_lines [THEN conjunct1]) (simp_all add: calculation(1))
  ultimately show ?thesis by (simp add: applyReplacements_def apply_one_def)
qed

subsection \<open>Line endings\<close>

text \<open>All line ends are LF, or all are CRLF.\<close>

definition uniform_endings :: "js_string \<Rightarrow> bool" where
  "uniform_endings c \<longleftrightarrow> return_char \<notin> set c
     \<or> (\<exists>ls. length ls \<ge> 2 \<and> c = join [return_char, newline_char] ls \<and> (\<forall>l \<in> set ls. return_char \<notin> set l \<and> newline_char \<notin> set l))"

lemma index_of_None: "index_of [x] xs = None \<longleftrightarrow> x \<notin> set xs"
  by (induction xs) auto

lemma index_of_prefix:
  "x \<notin> set l \<Longrightarrow> index_of [x] (l @ x # s) = Some (length l)"
  "x \<notin> set l \<Longrightarrow> y \<noteq> x \<Longrightarrow> index_of [x, y] (l @ x # y # s) = Some (length l)"
  by (induction l) (auto simp: neq_Nil_conv take_Cons' split: list.splits)

lemma index_of_pair_None: "x \<notin> set xs \<Longrightarrow> index_of (x # zs) xs = None"
  by (induction xs) auto

lemma replace_crlf_id: "return_char \<notin> set s \<Longrightarrow> replace_crlf s = s"
  by (induction s rule: replace_crlf.induct) auto

lemma replace_crlf_step:
  "return_char \<notin> set l \<Longrightarrow> replace_crlf (l @ return_char # newline_char # s) = l @ newline_char # replace_crlf s"
proof (induction l)
  case (Cons c l)
  then show ?case by (cases l) auto
qed simp

lemma normalizeToLF_no_return: "return_char \<notin> set (normalizeToLF s)"
  by (auto simp: normalizeToLF_def)

lemma normalizeToLF_id: "return_char \<notin> set s \<Longrightarrow> normalizeToLF s = s"
  by (auto simp: normalizeToLF_def replace_crlf_id intro!: map_idI)

lemma normalizeToLF_join:
  "ls \<noteq> [] \<Longrightarrow> \<forall>l \<in> set ls. return_char \<notin> set l \<Longrightarrow> normalizeToLF (join [return_char, newline_char] ls) = join [newline_char] ls"
proof (induction ls rule: list_nonempty_induct)
  case (single l)
  then show ?case by (simp add: normalizeToLF_id)
next
  case (cons l ls)
  then have "map (\<lambda>c. if c = return_char then newline_char else c) l = l" by (intro map_idI) auto
  with cons show ?case by (simp add: join_cons normalizeToLF_def replace_crlf_step)
qed

lemma restore_append: "restoreLineEndings (a @ b) e = restoreLineEndings a e @ restoreLineEndings b e"
  by (cases e) (simp_all add: restoreLineEndings_def)

lemma restore_line: "newline_char \<notin> set l \<Longrightarrow> restoreLineEndings l CRLF = l"
  by (induction l) (auto simp: restoreLineEndings_def)

lemma restore_join:
  "\<forall>l \<in> set ls. newline_char \<notin> set l \<Longrightarrow> restoreLineEndings (join [newline_char] ls) CRLF = join [return_char, newline_char] ls"
proof (induction ls)
  case Nil
  show ?case by (simp add: restoreLineEndings_def)
next
  case (Cons l ls)
  then show ?case by (simp add: join_cons restore_append restore_line) (simp add: restoreLineEndings_def)
qed

lemma detect_crlf:
  assumes "length ls \<ge> 2" "\<forall>l \<in> set ls. return_char \<notin> set l \<and> newline_char \<notin> set l"
  shows "detectLineEnding (join [return_char, newline_char] ls) = CRLF"
proof -
  obtain l ls' where ls: "ls = l # ls'" "ls' \<noteq> []" using assms(1) by (cases ls; cases "tl ls") auto
  then have j: "join [return_char, newline_char] ls = l @ return_char # newline_char # join [return_char, newline_char] ls'"
    by (simp add: join_cons)
  have "index_of [return_char, newline_char] (join [return_char, newline_char] ls) = Some (length l)"
    unfolding j by (rule index_of_prefix) (use assms(2) ls in auto)
  moreover have "index_of [newline_char] (join [return_char, newline_char] ls) = Some (length l + 1)"
    unfolding j using index_of_prefix(1) [of newline_char "l @ [return_char]"] assms(2) ls by auto
  ultimately show ?thesis by (simp add: detectLineEnding_def)
qed

lemma restore_uniform:
  assumes "uniform_endings c"
  shows "restoreLineEndings (normalizeToLF c) (detectLineEnding c) = c"
proof -
  from assms consider "return_char \<notin> set c"
    | ls where "length ls \<ge> 2" "c = join [return_char, newline_char] ls" "\<forall>l \<in> set ls. return_char \<notin> set l \<and> newline_char \<notin> set l"
    by (auto simp: uniform_endings_def)
  then show ?thesis
  proof cases
    case 1
    then have "detectLineEnding c = LF" by (auto simp: detectLineEnding_def index_of_pair_None split: option.splits)
    with 1 show ?thesis by (simp add: restoreLineEndings_def normalizeToLF_id)
  next
    case 2
    then have "ls \<noteq> []" by auto
    with 2 show ?thesis by (simp add: detect_crlf normalizeToLF_join restore_join)
  qed
qed

text \<open>Restoring the line endings found in a text gives the text back exactly when its line endings are
  uniform; otherwise an edit also rewrites the line ends of lines it does not touch.\<close>

theorem line_endings_restored_iff:
  "restoreLineEndings (normalizeToLF c) (detectLineEnding c) = c \<longleftrightarrow> uniform_endings c"
proof
  assume *: "restoreLineEndings (normalizeToLF c) (detectLineEnding c) = c"
  show "uniform_endings c"
  proof (cases "detectLineEnding c")
    case LF
    then have "normalizeToLF c = c" using * by (simp add: restoreLineEndings_def)
    then show ?thesis using normalizeToLF_no_return [of c] by (simp add: uniform_endings_def)
  next
    case CRLF
    define ls where "ls = split_on newline_char (normalizeToLF c)"
    have n: "normalizeToLF c = join [newline_char] ls" by (simp add: ls_def join_split_on)
    have free: "\<forall>l \<in> set ls. newline_char \<notin> set l" by (auto simp: ls_def dest: split_on_free)
    have "c = join [return_char, newline_char] ls" using * CRLF restore_join [OF free] n by simp
    moreover have "return_char \<notin> set l" if "l \<in> set ls" for l
    proof -
      have "set l \<subseteq> set (join [newline_char] ls)" using that by (induction ls) (auto simp: join_cons)
      then show ?thesis using normalizeToLF_no_return [of c] n by auto
    qed
    moreover have "length ls \<ge> 2"
    proof (rule ccontr)
      assume "\<not> length ls \<ge> 2"
      moreover have "ls \<noteq> []" by (simp add: ls_def)
      ultimately obtain l where "ls = [l]" by (cases ls; cases "tl ls") auto
      with \<open>c = join [return_char, newline_char] ls\<close> free have "newline_char \<notin> set c" by simp
      then show False using CRLF index_of_None [of newline_char c] by (auto simp: detectLineEnding_def split: option.splits)
    qed
    ultimately show ?thesis using free by (auto simp: uniform_endings_def)
  qed
qed (rule restore_uniform)

subsection \<open>The tool\<close>

lemma restore_gaps:
  "length gaps = length xs \<Longrightarrow> restoreLineEndings (concat (map2 (@) gaps xs) @ rest) e
     = concat (map2 (@) (map (\<lambda>g. restoreLineEndings g e) gaps) (map (\<lambda>x. restoreLineEndings x e) xs)) @ restoreLineEndings rest e"
  by (induction gaps xs rule: list_induct2) (simp_all add: restore_append)

lemma edit_execute_success:
  assumes "edit_execute nfkc io aborted edits a fs = (Inr n, fs')" "fs a = Some buffer" "stripBom (file_text buffer) = (bom, content)"
  obtains new where "applyEditsToNormalizedContent nfkc (normalizeToLF content) edits = Inr (normalizeToLF content, new)"
    "fs' = fs(a \<mapsto> textEncoder_encode (bom @ restoreLineEndings new (detectLineEnding content)))" "n = length edits"
proof -
  have base: "b = c" if "applyEditsToNormalizedContent nfkc c edits = Inr (b, new)" for b c new
    using that by (auto simp: applyEditsToNormalizedContent_def Let_def split: option.splits sum.splits if_splits)
  show thesis
    using assms base by (auto simp: edit_execute_def write_file_def written_by_def Let_def split: if_splits option.splits sum.splits intro!: that)
qed

text \<open>Property C4. A successful edit of a file with uniform line endings, whose old texts occur in it exactly up to line endings,
  writes that file and no other, and what it writes is the text of the file, byte order mark and line endings included, with every old text
  replaced by its new text.\<close>

theorem edit_tool_replaces:
  assumes "edit_execute nfkc io aborted edits a fs = (Inr n, fs')"
    and "fs a = Some buffer" "stripBom (file_text buffer) = (bom, content)" "uniform_endings content"
    and "\<forall>e \<in> set edits. index_of (e_old (normalize_edit e)) (normalizeToLF content) \<noteq> None"
    and "native = (\<lambda>s. restoreLineEndings s (detectLineEnding content))"
  shows "(\<forall>p. p \<noteq> a \<longrightarrow> fs' p = fs p)
    \<and> (\<exists>es gaps rest. mset es = mset (map normalize_edit edits) \<and> length gaps = length es
         \<and> content = concat (map2 (@) gaps (map (native \<circ> e_old) es)) @ rest
         \<and> fs' a = Some (textEncoder_encode (bom @ concat (map2 (@) gaps (map (native \<circ> e_new) es)) @ rest)))"
proof -
  obtain new where new: "applyEditsToNormalizedContent nfkc (normalizeToLF content) edits = Inr (normalizeToLF content, new)"
      "fs' = fs(a \<mapsto> textEncoder_encode (bom @ native new))"
    by (rule edit_execute_success [OF assms(1-3)]) (simp add: assms(6))
  from exact_edits_replace [OF assms(5) new(1)] obtain es gaps rest where
    es: "mset es = mset (map normalize_edit edits)" "length gaps = length es"
      "normalizeToLF content = concat (map2 (@) gaps (map e_old es)) @ rest"
      "new = concat (map2 (@) gaps (map e_new es)) @ rest"
    by blast
  have "content = native (normalizeToLF content)" using restore_uniform [OF assms(4)] by (simp add: assms(6))
  also have "\<dots> = concat (map2 (@) (map native gaps) (map (native \<circ> e_old) es)) @ native rest"
    unfolding es(3) assms(6) using es(2) by (simp add: restore_gaps)
  finally have "content = concat (map2 (@) (map native gaps) (map (native \<circ> e_old) es)) @ native rest" .
  moreover have "native new = concat (map2 (@) (map native gaps) (map (native \<circ> e_new) es)) @ native rest"
    unfolding es(4) assms(6) using es(2) by (simp add: restore_gaps)
  moreover have "length (map native gaps) = length es" using es(2) by simp
  ultimately show ?thesis using es(1) new(2) by (metis (no_types, lifting) fun_upd_apply)
qed

definition example_files :: file_system where
  "example_files = [js ''/f'' \<mapsto> [97, 13, 10, 98, 13, 10]]"

definition example_edit :: edit where
  "example_edit = \<lparr>e_old = [98, 10], e_new = [99, 10, 100, 10]\<rparr>"

theorem edit_tool_replaces_witness:
  "\<exists>fs'. edit_execute id io_ok (\<lambda>k. False) [example_edit] (js ''/f'') example_files = (Inr 1, fs')
     \<and> (\<forall>p. p \<noteq> js ''/f'' \<longrightarrow> fs' p = example_files p)
     \<and> (\<exists>es gaps rest. mset es = {#example_edit#} \<and> length gaps = length es
         \<and> [97, 13, 10, 98, 13, 10] = concat (map2 (@) gaps (map ((\<lambda>s. restoreLineEndings s CRLF) \<circ> e_old) es)) @ rest
         \<and> fs' (js ''/f'') = Some (textEncoder_encode (concat (map2 (@) gaps (map ((\<lambda>s. restoreLineEndings s CRLF) \<circ> e_new) es)) @ rest)))"
proof -
  let ?c = "[97, 13, 10, 98, 13, 10] :: js_string" and ?n = "[97, 10, 98, 10] :: js_string"
  have decoded: "file_text [97, 13, 10, 98, 13, 10] = ?c"
    by (simp add: file_text_def utf8_lossy.simps scalar_utf16_def)
  have norm: "normalizeToLF ?c = ?n" "normalize_edit example_edit = example_edit" "detectLineEnding ?c = CRLF" "stripBom ?c = ([], ?c)"
    by (simp_all add: normalizeToLF_def normalize_edit_def example_edit_def detectLineEnding_def stripBom_def)
  have idx: "index_of (e_old example_edit) ?n = Some 2" by (simp add: example_edit_def)
  have fuzzy: "countOccurrences id ?n (e_old example_edit) = 1"
    by (simp add: countOccurrences_def normalizeForFuzzyMatch_def example_edit_def split_count_def occurrences.simps
        fuzzy_char_def trim_end_def whitespace_def join_cons)
  have "applyEditsToNormalizedContent id ?n [example_edit] = Inr (?n, [97, 10, 99, 10, 100, 10])"
    using idx fuzzy
    by (simp add: applyEditsToNormalizedContent_def norm fuzzyFindText_def Let_def applyReplacements_def apply_one_def)
       (simp add: example_edit_def)
  then obtain fs' where run: "edit_execute id io_ok (\<lambda>k. False) [example_edit] (js ''/f'') example_files = (Inr 1, fs')"
    by (simp add: edit_execute_def io_ok_def example_files_def decoded norm)
  have uni: "uniform_endings ?c"
    unfolding uniform_endings_def by (intro disjI2 exI [of _ "[[97], [98], []]"]) (simp add: join_cons)
  from run edit_tool_replaces [of id io_ok "\<lambda>k. False" "[example_edit]" "js ''/f''" example_files 1 fs' "[97, 13, 10, 98, 13, 10]" "[]" ?c
      "\<lambda>s. restoreLineEndings s CRLF"] uni idx
  show ?thesis by (auto simp: example_files_def decoded norm)
qed

subsection \<open>Matching at its limits\<close>

text \<open>What is relied on of NFKC here: it leaves ASCII text as it is.\<close>

definition ascii_stable :: "(js_string \<Rightarrow> js_string) \<Rightarrow> bool" where
  "ascii_stable nfkc \<longleftrightarrow> (\<forall>s. (\<forall>c \<in> set s. c < 128) \<longrightarrow> nfkc s = s)"

lemma fuzzy_ascii:
  assumes "ascii_stable nfkc" "\<forall>c \<in> set s. c < 128"
  shows "normalizeForFuzzyMatch nfkc s = join [newline_char] (map trim_end (split_on newline_char s))"
proof -
  have ends: "set (trim_end l) \<subseteq> set l" for l by (auto simp: trim_end_def dest: set_dropWhileD)
  have j: "set (join [newline_char] ls) \<subseteq> insert newline_char (\<Union> (set ` set ls))" for ls
    by (induction ls) (auto simp: join_cons split: if_splits)
  have m: "set l \<subseteq> set s" if "l \<in> set (split_on newline_char s)" for l
  proof -
    have "set l \<subseteq> set (join [newline_char] ls)" if "l \<in> set ls" for ls using that by (induction ls) (auto simp: join_cons)
    from this [OF that] show ?thesis by (simp add: join_split_on)
  qed
  have "fuzzy_char c = c" if "c < 128" for c
  proof -
    have "\<not> 0x2002 \<le> c" using that order_le_less_trans [of "0x2002" c 128] by auto
    then show ?thesis using that by (auto simp: fuzzy_char_def)
  qed
  moreover have "\<forall>c \<in> set (join [newline_char] (map trim_end (split_on newline_char s))). c < 128"
  proof
    fix c
    assume "c \<in> set (join [newline_char] (map trim_end (split_on newline_char s)))"
    with j [of "map trim_end (split_on newline_char s)"] ends m have "c = newline_char \<or> c \<in> set s" by fastforce
    then show "c < 128" using assms(2) by auto
  qed
  ultimately show ?thesis using assms by (auto simp: normalizeForFuzzyMatch_def ascii_stable_def intro!: map_idI)
qed

lemmas match_eval = applyEditsToNormalizedContent_def normalize_edit_def normalizeToLF_def fuzzyFindText_def countOccurrences_def
  split_count_def occurrences.simps trim_end_def whitespace_def join_cons Let_def

text \<open>Occurrences that overlap count once: a text that occurs twice is replaced at its first place.\<close>

theorem overlapping_occurrences_accepted:
  assumes "ascii_stable nfkc"
  shows "applyEditsToNormalizedContent nfkc [97, 97, 97] [\<lparr>e_old = [97, 97], e_new = [98]\<rparr>] = Inr ([97, 97, 97], [98, 97])"
  using fuzzy_ascii [OF assms, of "[97, 97, 97]"] fuzzy_ascii [OF assms, of "[97, 97]"]
  by (simp add: match_eval applyReplacements_def apply_one_def)

text \<open>Occurrences are counted in the normalised text: a text with one exact occurrence is refused as a duplicate.\<close>

theorem unique_occurrence_refused:
  assumes "ascii_stable nfkc"
  shows "applyEditsToNormalizedContent nfkc [97, 32, 10, 97, 10] [\<lparr>e_old = [97, 32], e_new = [98]\<rparr>] = Inl (Duplicate 0 2)"
  using fuzzy_ascii [OF assms, of "[97, 32, 10, 97, 10]"] fuzzy_ascii [OF assms, of "[97, 32]"]
  by (simp add: match_eval)

text \<open>A last line of white space only disappears from the normalised text: every edit that needs it fails.\<close>

theorem blank_last_line_refused:
  assumes "ascii_stable nfkc"
  shows "applyEditsToNormalizedContent nfkc [97, 32, 10, 98, 10, 32] [\<lparr>e_old = [97, 10, 98], e_new = [99]\<rparr>] = Inl LineCountDiffers"
  using fuzzy_ascii [OF assms, of "[97, 32, 10, 98, 10, 32]"] fuzzy_ascii [OF assms, of "[97, 10, 98]"]
    fuzzy_ascii [OF assms, of "[97, 10, 98, 10]"]
  by (simp add: match_eval applyReplacementsPreservingUnchangedLines_def getLineSpans_def)

text \<open>A blank old text that does not occur is normalised to the empty text and found at the start: in a file of two
  characters the new text is inserted there, in a longer one a duplicate is reported.\<close>

theorem blank_text_found_at_start:
  assumes "ascii_stable nfkc"
  shows "applyEditsToNormalizedContent nfkc [97, 98] [\<lparr>e_old = [9], e_new = [120]\<rparr>] = Inr ([97, 98], [120, 97, 98])
    \<and> applyEditsToNormalizedContent nfkc [97, 98, 99] [\<lparr>e_old = [9], e_new = [120]\<rparr>] = Inl (Duplicate 0 2)"
  using fuzzy_ascii [OF assms, of "[97, 98]"] fuzzy_ascii [OF assms, of "[97, 98, 99]"] fuzzy_ascii [OF assms, of "[9]"]
  by (simp add: match_eval applyReplacementsPreservingUnchangedLines_def getLineSpans_def group_step_def getReplacementLineRange_def
      applyReplacements_def apply_one_def)

end
