(* ===== verification/EditDisplay.thy ===== *)
theory EditDisplay
  imports EditDiff ProjectMap
begin

text \<open>
  What the edit tool shows (\<^verbatim>\<open>packages/coding-agent/src/core/tools/edit-diff.ts\<close>, \<open>generateDiffString\<close> and
  \<open>computeEditsDiff\<close>) and the arguments it accepts (\<^verbatim>\<open>edit.ts\<close>, \<open>prepareEditArguments\<close>). \<open>Diff.diffLines\<close> of the library
  \<^verbatim>\<open>diff\<close> and \<open>JSON.parse\<close> are parameters. What is relied on of \<open>diffLines\<close> is its documented result: the parts that are not
  added make up the old text, those that are not removed the new one, and a part ends with a line.
\<close>

subsection \<open>The displayed diff\<close>

record diff_part =
  p_added :: bool
  p_removed :: bool
  p_value :: js_string

definition is_change :: "diff_part \<Rightarrow> bool" where
  "is_change p \<longleftrightarrow> p_added p \<or> p_removed p"

definition part_lines :: "js_string \<Rightarrow> js_string list" where
  "part_lines v = (let raw = split_on newline_char v in if last raw = [] then butlast raw else raw)"

datatype shown_line =
    AddedLine nat js_string
  | RemovedLine nat js_string
  | ContextLine nat js_string
  | Ellipsis

definition padStart :: "nat \<Rightarrow> js_string \<Rightarrow> js_string" where
  "padStart width s = replicate (width - length s) 0x20 @ s"

definition show_line :: "nat \<Rightarrow> shown_line \<Rightarrow> js_string" where
  "show_line width l =
     (case l of
        AddedLine n s \<Rightarrow> js ''+'' @ padStart width (decimal n) @ js '' '' @ s
      | RemovedLine n s \<Rightarrow> js ''-'' @ padStart width (decimal n) @ js '' '' @ s
      | ContextLine n s \<Rightarrow> js '' '' @ padStart width (decimal n) @ js '' '' @ s
      | Ellipsis \<Rightarrow> js '' '' @ padStart width [] @ js '' ...'')"

text \<open>Consecutive lines with their numbers.\<close>

fun numbered :: "(nat \<Rightarrow> js_string \<Rightarrow> shown_line) \<Rightarrow> nat \<Rightarrow> js_string list \<Rightarrow> shown_line list" where
  "numbered C n [] = []"
| "numbered C n (l # ls) = C n l # numbered C (Suc n) ls"

definition context_lines :: "nat \<Rightarrow> bool \<Rightarrow> bool \<Rightarrow> nat \<Rightarrow> js_string list \<Rightarrow> shown_line list" where
  "context_lines contextLines hasLeadingChange hasTrailingChange n raw =
     (if hasLeadingChange \<and> hasTrailingChange then
        (if length raw \<le> contextLines * 2 then numbered ContextLine n raw
         else numbered ContextLine n (take contextLines raw) @ [Ellipsis]
              @ numbered ContextLine (n + (length raw - contextLines)) (drop (length raw - contextLines) raw))
      else if hasLeadingChange then
        numbered ContextLine n (take contextLines raw) @ (if length raw > contextLines then [Ellipsis] else [])
      else if hasTrailingChange then
        (let skippedLines = length raw - contextLines in
         (if skippedLines > 0 then [Ellipsis] else []) @ numbered ContextLine (n + skippedLines) (drop skippedLines raw))
      else [])"

record diff_state =
  shown :: "shown_line list"
  oldLineNum :: nat
  newLineNum :: nat
  lastWasChange :: bool
  firstChangedLine :: "nat option"

definition diff_step :: "nat \<Rightarrow> diff_part \<Rightarrow> bool \<Rightarrow> diff_state \<Rightarrow> diff_state" where
  "diff_step contextLines part nextPartIsChange st =
     (let raw = part_lines (p_value part) in
      if is_change part then
        (let st = st\<lparr>firstChangedLine := (case firstChangedLine st of None \<Rightarrow> Some (newLineNum st) | Some n \<Rightarrow> Some n),
                    lastWasChange := True\<rparr>
         in if p_added part
            then st\<lparr>shown := shown st @ numbered AddedLine (newLineNum st) raw, newLineNum := newLineNum st + length raw\<rparr>
            else st\<lparr>shown := shown st @ numbered RemovedLine (oldLineNum st) raw, oldLineNum := oldLineNum st + length raw\<rparr>)
      else st\<lparr>shown := shown st @ context_lines contextLines (lastWasChange st) nextPartIsChange (oldLineNum st) raw,
              oldLineNum := oldLineNum st + length raw, newLineNum := newLineNum st + length raw, lastWasChange := False\<rparr>)"

fun diff_loop :: "nat \<Rightarrow> diff_part list \<Rightarrow> diff_state \<Rightarrow> diff_state" where
  "diff_loop contextLines [] st = st"
| "diff_loop contextLines (p # ps) st =
     diff_loop contextLines ps (diff_step contextLines p (case ps of [] \<Rightarrow> False | q # _ \<Rightarrow> is_change q) st)"

definition diff_start :: diff_state where
  "diff_start = \<lparr>shown = [], oldLineNum = 1, newLineNum = 1, lastWasChange = False, firstChangedLine = None\<rparr>"

definition generateDiffString ::
  "(js_string \<Rightarrow> js_string \<Rightarrow> diff_part list) \<Rightarrow> js_string \<Rightarrow> js_string \<Rightarrow> nat \<Rightarrow> js_string \<times> nat option" where
  "generateDiffString diffLines oldContent newContent contextLines =
     (let maxLineNum = max (length (split_on newline_char oldContent)) (length (split_on newline_char newContent));
          lineNumWidth = length (decimal maxLineNum);
          st = diff_loop contextLines (diffLines oldContent newContent) diff_start
      in (join [newline_char] (map (show_line lineNumWidth) (shown st)), firstChangedLine st))"

subsection \<open>The preview\<close>

text \<open>\<open>readable\<close> are the files that can be read; the message of an error is that of the tool.\<close>

definition computeEditsDiff ::
  "(js_string \<Rightarrow> js_string) \<Rightarrow> (js_string \<Rightarrow> js_string \<Rightarrow> diff_part list) \<Rightarrow> edit list \<Rightarrow> js_string \<Rightarrow> file_system
     \<Rightarrow> tool_error + js_string \<times> nat option" where
  "computeEditsDiff nfkc diffLines edits absolutePath readable =
     (case readable absolutePath of
        None \<Rightarrow> Inl CannotAccess
      | Some buffer \<Rightarrow>
          (case applyEditsToNormalizedContent nfkc (normalizeToLF (snd (stripBom (file_text buffer)))) edits of
             Inl err \<Rightarrow> Inl (EditFailed err)
           | Inr (baseContent, newContent) \<Rightarrow> Inr (generateDiffString diffLines baseContent newContent 4)))"

text \<open>The diff in the details of a successful edit of a file that holds \<open>buffer\<close>.\<close>

definition edit_details ::
  "(js_string \<Rightarrow> js_string) \<Rightarrow> (js_string \<Rightarrow> js_string \<Rightarrow> diff_part list) \<Rightarrow> edit list \<Rightarrow> byte list
     \<Rightarrow> (js_string \<times> nat option) option" where
  "edit_details nfkc diffLines edits buffer =
     (case applyEditsToNormalizedContent nfkc (normalizeToLF (snd (stripBom (file_text buffer)))) edits of
        Inl err \<Rightarrow> None
      | Inr (baseContent, newContent) \<Rightarrow> Some (generateDiffString diffLines baseContent newContent 4))"

subsection \<open>Arguments\<close>

definition legacy_edit :: "js_string \<Rightarrow> js_string \<Rightarrow> json" where
  "legacy_edit oldT newT = JObj [(js ''oldText'', JStr oldT), (js ''newText'', JStr newT)]"

text \<open>Edits that come as a JSON string are parsed.\<close>

definition parse_edits :: "(js_string \<Rightarrow> json option) \<Rightarrow> (js_string \<times> json) list \<Rightarrow> (js_string \<times> json) list" where
  "parse_edits jsonParse kvs =
     (case map_of kvs (js ''edits'') of
        Some (JStr s) \<Rightarrow> (case jsonParse s of Some (JArr vs) \<Rightarrow> map_set (js ''edits'') (JArr vs) kvs | _ \<Rightarrow> kvs)
      | _ \<Rightarrow> kvs)"

definition prepareEditArguments :: "(js_string \<Rightarrow> json option) \<Rightarrow> json \<Rightarrow> json" where
  "prepareEditArguments jsonParse input =
     (case input of
        JObj kvs \<Rightarrow>
          (let args = parse_edits jsonParse kvs
           in case (map_of args (js ''oldText''), map_of args (js ''newText'')) of
                (Some (JStr oldT), Some (JStr newT)) \<Rightarrow>
                  (let edits = (case map_of args (js ''edits'') of Some (JArr vs) \<Rightarrow> vs | _ \<Rightarrow> []) @ [legacy_edit oldT newT];
                       rest = map_delete (js ''newText'') (map_delete (js ''oldText'') args)
                   in JObj (map_set (js ''edits'') (JArr edits) rest))
              | _ \<Rightarrow> JObj args)
      | _ \<Rightarrow> input)"

subsection \<open>What is shown\<close>

lemma split_on_ends: "split_on c (a @ c # b) = split_on c a @ split_on c b"
proof (induction a)
  case (Cons x a)
  then show ?case by (cases "split_on c a") auto
qed simp

lemma part_lines_Nil [simp]: "part_lines [] = []"
  by (simp add: part_lines_def)

lemma part_lines_append: "part_lines ((a @ [newline_char]) @ b) = part_lines (a @ [newline_char]) @ part_lines b"
proof -
  have "part_lines (a @ [newline_char]) = split_on newline_char a"
    using split_on_ends [of newline_char a "[]"] by (simp add: part_lines_def Let_def butlast_append)
  moreover have "last (split_on newline_char a @ split_on newline_char b) = last (split_on newline_char b)"
    by (simp add: last_append)
  ultimately show ?thesis
    using split_on_ends [of newline_char a b] by (simp add: part_lines_def Let_def butlast_append)
qed

text \<open>Every part but the last ends with a line.\<close>

fun whole_lines :: "js_string list \<Rightarrow> bool" where
  "whole_lines (v # w # vs) \<longleftrightarrow> v \<noteq> [] \<and> last v = newline_char \<and> whole_lines (w # vs)"
| "whole_lines vs \<longleftrightarrow> True"

lemma part_lines_concat: "whole_lines vs \<Longrightarrow> part_lines (concat vs) = concat (map part_lines vs)"
proof (induction vs rule: whole_lines.induct)
  case (1 v w vs)
  then obtain a where "v = a @ [newline_char]" by (metis append_butlast_last_id whole_lines.simps(1))
  with part_lines_append [of a "concat (w # vs)"] 1 show ?case by simp
qed simp_all

definition diff_of :: "js_string \<Rightarrow> js_string \<Rightarrow> diff_part list \<Rightarrow> bool" where
  "diff_of old new parts \<longleftrightarrow>
     (let olds = map p_value (filter (\<lambda>p. \<not> p_added p) parts); news = map p_value (filter (\<lambda>p. \<not> p_removed p \<or> p_added p) parts)
      in concat olds = old \<and> concat news = new \<and> whole_lines olds \<and> whole_lines news)"

text \<open>A shown line is the line of its number: of the new text when it is added, of the old text otherwise.\<close>

fun shows_line :: "js_string list \<Rightarrow> js_string list \<Rightarrow> shown_line \<Rightarrow> bool" where
  "shows_line olds news (AddedLine n l) \<longleftrightarrow> 0 < n \<and> n \<le> length news \<and> news ! (n - 1) = l"
| "shows_line olds news (RemovedLine n l) \<longleftrightarrow> 0 < n \<and> n \<le> length olds \<and> olds ! (n - 1) = l"
| "shows_line olds news (ContextLine n l) \<longleftrightarrow> 0 < n \<and> n \<le> length olds \<and> olds ! (n - 1) = l"
| "shows_line olds news Ellipsis \<longleftrightarrow> True"

fun added_line :: "shown_line \<Rightarrow> js_string option" where
  "added_line (AddedLine n l) = Some l" | "added_line _ = None"

fun removed_line :: "shown_line \<Rightarrow> js_string option" where
  "removed_line (RemovedLine n l) = Some l" | "removed_line _ = None"

lemma numbered_set: "x \<in> set (numbered C n ls) \<longleftrightarrow> (\<exists>i < length ls. x = C (n + i) (ls ! i))"
proof (induction ls arbitrary: n)
  case (Cons l ls)
  show ?case unfolding numbered.simps
    by (auto simp: Cons.IH less_Suc_eq_0_disj)
qed simp

lemma numbered_added:
  "List.map_filter added_line (numbered AddedLine n ls) = ls" "List.map_filter added_line (numbered RemovedLine n ls) = []"
  "List.map_filter added_line (numbered ContextLine n ls) = []" "List.map_filter removed_line (numbered RemovedLine n ls) = ls"
  "List.map_filter removed_line (numbered AddedLine n ls) = []" "List.map_filter removed_line (numbered ContextLine n ls) = []"
  by (induction ls arbitrary: n) simp_all

lemma context_lines_added:
  "List.map_filter added_line (context_lines c a b n ls) = []" "List.map_filter removed_line (context_lines c a b n ls) = []"
  by (auto simp: context_lines_def numbered_added map_filter_append Let_def)

text \<open>The lines of the parts, by the text they belong to.\<close>

definition old_lines :: "diff_part list \<Rightarrow> js_string list" where
  "old_lines ps = concat (map (part_lines \<circ> p_value) (filter (\<lambda>p. \<not> p_added p) ps))"

definition new_lines :: "diff_part list \<Rightarrow> js_string list" where
  "new_lines ps = concat (map (part_lines \<circ> p_value) (filter (\<lambda>p. \<not> p_removed p \<or> p_added p) ps))"

definition added_lines :: "diff_part list \<Rightarrow> js_string list" where
  "added_lines ps = concat (map (part_lines \<circ> p_value) (filter p_added ps))"

definition removed_lines :: "diff_part list \<Rightarrow> js_string list" where
  "removed_lines ps = concat (map (part_lines \<circ> p_value) (filter (\<lambda>p. p_removed p \<and> \<not> p_added p) ps))"

lemmas part_line_defs = old_lines_def new_lines_def added_lines_def removed_lines_def

definition diff_state_ok :: "js_string list \<Rightarrow> js_string list \<Rightarrow> diff_part list \<Rightarrow> diff_state \<Rightarrow> bool" where
  "diff_state_ok olds news qs st \<longleftrightarrow>
     oldLineNum st = Suc (length (old_lines qs)) \<and> newLineNum st = Suc (length (new_lines qs))
     \<and> list_all (shows_line olds news) (shown st)
     \<and> List.map_filter added_line (shown st) = added_lines qs \<and> List.map_filter removed_line (shown st) = removed_lines qs
     \<and> (case firstChangedLine st of
          None \<Rightarrow> filter is_change qs = []
        | Some n \<Rightarrow> filter is_change qs \<noteq> [] \<and> n > 0 \<and> take (n - 1) olds = take (n - 1) news
            \<and> n - 1 \<le> length (old_lines qs) \<and> n - 1 \<le> length (new_lines qs))"

lemma numbered_shows:
  assumes "\<And>i. i < length ls \<Longrightarrow> shows_line olds news (C (n + i) (ls ! i))"
  shows "list_all (shows_line olds news) (numbered C n ls)"
  using assms by (auto simp: list_all_iff numbered_set)

lemma context_shows:
  assumes "olds = xs @ ls @ zs" "n = Suc (length xs)"
  shows "list_all (shows_line olds news) (context_lines c a b n ls)"
proof -
  have *: "list_all (shows_line olds news) (numbered ContextLine (n + k) (take m (drop k ls)))" for k m
    by (rule numbered_shows) (auto simp: assms nth_append)
  from * [of 0] * [of "length ls - c" "length ls"] * [of 0 "length ls"] show ?thesis
    by (auto simp: context_lines_def Let_def)
qed

lemma diff_step_ok:
  assumes "diff_state_ok olds news qs st" "olds = old_lines (qs @ [p]) @ zs" "news = new_lines (qs @ [p]) @ zs'"
  shows "diff_state_ok olds news (qs @ [p]) (diff_step c p nxt st)"
proof -
  let ?raw = "part_lines (p_value p)"
  have ok: "oldLineNum st = Suc (length (old_lines qs))" "newLineNum st = Suc (length (new_lines qs))"
    "list_all (shows_line olds news) (shown st)" "List.map_filter added_line (shown st) = added_lines qs"
    "List.map_filter removed_line (shown st) = removed_lines qs"
    using assms(1) by (auto simp: diff_state_ok_def)
  have first: "take (length (new_lines qs)) olds = take (length (new_lines qs)) news" if "filter is_change qs = []"
  proof -
    have "filter (\<lambda>p. \<not> p_added p) qs = qs" "filter (\<lambda>p. \<not> p_removed p \<or> p_added p) qs = qs"
      using that by (auto simp: filter_empty_conv is_change_def filter_id_conv)
    then have "old_lines qs = new_lines qs" by (simp add: part_line_defs)
    then show ?thesis by (simp add: assms(2,3) part_line_defs)
  qed
  consider "p_added p" | "\<not> p_added p" "p_removed p" | "\<not> is_change p" by (auto simp: is_change_def)
  then show ?thesis
  proof cases
    case 1
    then have "list_all (shows_line olds news) (numbered AddedLine (newLineNum st) ?raw)"
      by (intro numbered_shows) (auto simp: ok assms(3) part_line_defs nth_append)
    with 1 ok first assms(1) show ?thesis
      by (auto simp: diff_state_ok_def diff_step_def is_change_def Let_def part_line_defs numbered_added map_filter_append
          filter_empty_conv split: option.splits)
  next
    case 2
    then have "list_all (shows_line olds news) (numbered RemovedLine (oldLineNum st) ?raw)"
      by (intro numbered_shows) (auto simp: ok assms(2) part_line_defs nth_append)
    with 2 ok first assms(1) show ?thesis
      by (auto simp: diff_state_ok_def diff_step_def is_change_def Let_def part_line_defs numbered_added map_filter_append
          filter_empty_conv split: option.splits)
  next
    case 3
    then have "list_all (shows_line olds news) (context_lines c (lastWasChange st) nxt (oldLineNum st) ?raw)"
      by (intro context_shows [of _ "old_lines qs" _ zs]) (auto simp: ok assms(2) part_line_defs is_change_def)
    with 3 ok assms(1) show ?thesis
      by (auto simp: diff_state_ok_def diff_step_def is_change_def Let_def part_line_defs context_lines_added map_filter_append
          split: option.splits)
  qed
qed

lemma diff_loop_ok:
  "diff_state_ok olds news qs st \<Longrightarrow> olds = old_lines (qs @ ps) \<Longrightarrow> news = new_lines (qs @ ps)
     \<Longrightarrow> diff_state_ok olds news (qs @ ps) (diff_loop c ps st)"
proof (induction ps arbitrary: qs st)
  case (Cons p ps)
  have "olds = old_lines (qs @ [p]) @ old_lines ps" "news = new_lines (qs @ [p]) @ new_lines ps"
    using Cons.prems(2,3) by (simp_all add: part_line_defs)
  from diff_step_ok [OF Cons.prems(1) this] Cons.IH [of "qs @ [p]"] Cons.prems(2,3) show ?case by simp
qed simp

text \<open>Property C33. The displayed diff is truthful. For what \<open>diffLines\<close> documents, every shown line stands under its own number, a
  line with a plus in the new text and any other in the old one; the lines with a plus, in order, are all added lines and
  those with a minus all removed ones; and the two texts agree on the lines before the first changed line, which is reported unless
  there is no change.\<close>

theorem diff_display_truthful:
  assumes "diff_of old new (diffLines old new)" "st = diff_loop c (diffLines old new) diff_start"
  shows "generateDiffString diffLines old new c
      = (join [newline_char] (map (show_line (length (decimal (max (length (split_on newline_char old)) (length (split_on newline_char new))))))
            (shown st)), firstChangedLine st)
    \<and> list_all (shows_line (part_lines old) (part_lines new)) (shown st)
    \<and> List.map_filter added_line (shown st) = added_lines (diffLines old new)
    \<and> List.map_filter removed_line (shown st) = removed_lines (diffLines old new)
    \<and> (case firstChangedLine st of
         None \<Rightarrow> old = new
       | Some n \<Rightarrow> n > 0 \<and> take (n - 1) (part_lines old) = take (n - 1) (part_lines new))"
proof -
  let ?ps = "diffLines old new"
  have lines: "part_lines old = old_lines ?ps" "part_lines new = new_lines ?ps"
    using assms(1) by (auto simp: diff_of_def Let_def part_line_defs part_lines_concat [symmetric] simp flip: map_map)
  have "diff_state_ok (old_lines ?ps) (new_lines ?ps) [] diff_start"
    by (simp add: diff_state_ok_def diff_start_def part_line_defs)
  from diff_loop_ok [OF this, of ?ps c] have ok: "diff_state_ok (part_lines old) (part_lines new) ?ps st" by (simp add: assms(2) lines)
  have "old = new" if "filter is_change ?ps = []"
  proof -
    have "filter (\<lambda>p. \<not> p_added p) ?ps = ?ps" "filter (\<lambda>p. \<not> p_removed p \<or> p_added p) ?ps = ?ps"
      using that by (auto simp: filter_empty_conv is_change_def filter_id_conv)
    then show ?thesis using assms(1) unfolding diff_of_def Let_def by metis
  qed
  with ok show ?thesis
    by (auto simp: diff_state_ok_def generateDiffString_def Let_def assms(2) split: option.splits)
qed

definition example_diff :: "js_string \<Rightarrow> js_string \<Rightarrow> diff_part list" where
  "example_diff old new =
     [\<lparr>p_added = False, p_removed = False, p_value = [97, 10]\<rparr>, \<lparr>p_added = False, p_removed = True, p_value = [98, 10]\<rparr>,
      \<lparr>p_added = True, p_removed = False, p_value = [99, 10]\<rparr>]"

theorem diff_display_truthful_witness:
  "shown (diff_loop 4 (example_diff [97, 10, 98, 10] [97, 10, 99, 10]) diff_start)
     = [ContextLine 1 [97], RemovedLine 2 [98], AddedLine 2 [99]]
   \<and> list_all (shows_line (part_lines [97, 10, 98, 10]) (part_lines [97, 10, 99, 10]))
       [ContextLine 1 [97], RemovedLine 2 [98], AddedLine 2 [99]]"
proof -
  have run: "shown (diff_loop 4 (example_diff [97, 10, 98, 10] [97, 10, 99, 10]) diff_start)
      = [ContextLine 1 [97], RemovedLine 2 [98], AddedLine 2 [99]]"
    by (simp add: example_diff_def diff_step_def diff_start_def is_change_def part_lines_def context_lines_def Let_def)
  have "diff_of [97, 10, 98, 10] [97, 10, 99, 10] (example_diff [97, 10, 98, 10] [97, 10, 99, 10])"
    by (simp add: diff_of_def example_diff_def Let_def)
  from diff_display_truthful [of "[97, 10, 98, 10]" "[97, 10, 99, 10]" example_diff _ 4, OF this refl] run show ?thesis by simp
qed

text \<open>The preview of an edit is what the edit will report: for a file the tool may read and write it gives the diff
  of the details of the edit, or the error of the edit.\<close>

theorem preview_is_edit:
  assumes "fs a = Some buffer" "edits \<noteq> []" "\<And>k. \<not> aborted k"
  shows "case computeEditsDiff nfkc diffLines edits a fs of
      Inl err \<Rightarrow> fst (edit_execute nfkc io_ok aborted edits a fs) = Inl err
    | Inr d \<Rightarrow> fst (edit_execute nfkc io_ok aborted edits a fs) = Inr (length edits) \<and> edit_details nfkc diffLines edits buffer = Some d"
  using assms
  by (auto simp: computeEditsDiff_def edit_execute_def io_ok_def edit_details_def Let_def split: option.splits sum.splits prod.splits)

text \<open>Preparing the arguments once is enough.\<close>

lemma parse_edits_array: "map_of kvs (js ''edits'') = Some (JArr vs) \<Longrightarrow> parse_edits jsonParse kvs = kvs"
  by (simp add: parse_edits_def)

lemma parse_edits_idem: "parse_edits jsonParse (parse_edits jsonParse kvs) = parse_edits jsonParse kvs"
  by (auto simp: parse_edits_def split: option.splits json.splits)

theorem prepareEditArguments_idem:
  "prepareEditArguments jsonParse (prepareEditArguments jsonParse input) = prepareEditArguments jsonParse input"
proof (cases input)
  case (JObj kvs)
  define args where "args = parse_edits jsonParse kvs"
  have ne: "js ''edits'' \<noteq> js ''oldText''" "js ''edits'' \<noteq> js ''newText''" "js ''oldText'' \<noteq> js ''newText''"
    by (simp_all add: js_def)
  show ?thesis
  proof (cases "\<exists>a b. map_of args (js ''oldText'') = Some (JStr a) \<and> map_of args (js ''newText'') = Some (JStr b)")
    case True
    then obtain a b where "map_of args (js ''oldText'') = Some (JStr a)" "map_of args (js ''newText'') = Some (JStr b)" by blast
    then obtain vs where "prepareEditArguments jsonParse input
        = JObj (map_set (js ''edits'') (JArr vs) (map_delete (js ''newText'') (map_delete (js ''oldText'') args)))"
      by (simp add: JObj prepareEditArguments_def args_def [symmetric])
    then show ?thesis using ne by (simp add: prepareEditArguments_def parse_edits_array)
  next
    case False
    then have "prepareEditArguments jsonParse input = JObj args"
      unfolding JObj prepareEditArguments_def json.case args_def [symmetric] Let_def
      by (auto split: option.splits json.splits)
    moreover have "prepareEditArguments jsonParse (JObj args) = prepareEditArguments jsonParse input"
      by (simp add: JObj prepareEditArguments_def args_def parse_edits_idem)
    ultimately show ?thesis by simp
  qed
qed (simp_all add: prepareEditArguments_def)

end
