(* ===== verification/FileMutations.thy ===== *)
theory FileMutations
  imports EditDiff PosixPath
begin

text \<open>
  The queue of file mutations (\<^verbatim>\<open>packages/coding-agent/src/core/tools/file-mutation-queue.ts\<close>) and the tools that go
  through it, \<open>execute\<close> of \<^verbatim>\<open>edit.ts\<close> and of \<^verbatim>\<open>write.ts\<close>. A call of \<open>withFileMutationQueue\<close> is a process that is
  suspended at each \<open>await\<close>: it waits for the registrations before it, asks for the real path, registers behind the last
  call with the same key, waits for that call, runs, and releases its successor. Calls are numbered in the order in which
  they are made; the promise \<open>chainedQueue\<close> of a call is fulfilled when the call has settled, since a call runs only after
  its \<open>currentQueue\<close>, and is named by the number of the call.
\<close>

subsection \<open>The queue\<close>

datatype fs_error = ENOENT | ENOTDIR | OtherCode

definition isMissingPathError :: "fs_error \<Rightarrow> bool" where
  "isMissingPathError e \<longleftrightarrow> e = ENOENT \<or> e = ENOTDIR"

text \<open>\<open>result\<close> is the outcome of \<open>realpath\<close>.\<close>

definition getMutationQueueKey :: "js_string \<Rightarrow> js_string \<Rightarrow> fs_error + js_string \<Rightarrow> fs_error + js_string" where
  "getMutationQueueKey here filePath result =
     (case result of
        Inr p \<Rightarrow> Inr p
      | Inl e \<Rightarrow> if isMissingPathError e then Inr (resolve_path here [] filePath) else Inl e)"

datatype call_phase =
    Unregistered
  | ResolvingKey
  | RejectedKey fs_error
  | WaitingFor js_string "nat option"
  | InsideFn js_string
  | SettledCall js_string

record mutation_queue =
  phases :: "call_phase list"
  fileMutationQueues :: "js_string \<Rightarrow> nat option"

definition phase_of :: "nat \<Rightarrow> mutation_queue \<Rightarrow> call_phase option" where
  "phase_of i q = (if i < length (phases q) then Some (phases q ! i) else None)"

definition set_phase :: "nat \<Rightarrow> call_phase \<Rightarrow> mutation_queue \<Rightarrow> mutation_queue" where
  "set_phase i p q = q\<lparr>phases := (phases q)[i := p]\<rparr>"

definition registration_settled :: "call_phase \<Rightarrow> bool" where
  "registration_settled p \<longleftrightarrow> p \<noteq> Unregistered \<and> p \<noteq> ResolvingKey"

definition no_mutations :: mutation_queue where
  "no_mutations = \<lparr>phases = [], fileMutationQueues = (\<lambda>_. None)\<rparr>"

definition call_mutation :: "mutation_queue \<Rightarrow> mutation_queue" where
  "call_mutation q = q\<lparr>phases := phases q @ [Unregistered]\<rparr>"

text \<open>\<open>registrationQueue.then(...)\<close>: a registration begins when the one before it has settled.\<close>

definition begin_registration :: "nat \<Rightarrow> mutation_queue \<Rightarrow> mutation_queue option" where
  "begin_registration i q =
     (if phase_of i q = Some Unregistered \<and> list_all registration_settled (take i (phases q))
      then Some (set_phase i ResolvingKey q) else None)"

definition end_registration :: "nat \<Rightarrow> fs_error + js_string \<Rightarrow> mutation_queue \<Rightarrow> mutation_queue option" where
  "end_registration i key q =
     (if phase_of i q = Some ResolvingKey
      then Some (case key of
          Inl e \<Rightarrow> set_phase i (RejectedKey e) q
        | Inr k \<Rightarrow> (set_phase i (WaitingFor k (fileMutationQueues q k)) q)
            \<lparr>fileMutationQueues := (fileMutationQueues q)(k \<mapsto> i)\<rparr>)
      else None)"

definition currentQueue_fulfilled :: "nat option \<Rightarrow> mutation_queue \<Rightarrow> bool" where
  "currentQueue_fulfilled prev q \<longleftrightarrow> (case prev of None \<Rightarrow> True | Some j \<Rightarrow> \<exists>k. phase_of j q = Some (SettledCall k))"

definition enter_fn :: "nat \<Rightarrow> mutation_queue \<Rightarrow> mutation_queue option" where
  "enter_fn i q =
     (case phase_of i q of
        Some (WaitingFor k prev) \<Rightarrow> if currentQueue_fulfilled prev q then Some (set_phase i (InsideFn k) q) else None
      | _ \<Rightarrow> None)"

text \<open>The \<open>finally\<close> block.\<close>

definition leave_fn :: "nat \<Rightarrow> mutation_queue \<Rightarrow> mutation_queue option" where
  "leave_fn i q =
     (case phase_of i q of
        Some (InsideFn k) \<Rightarrow>
          Some ((set_phase i (SettledCall k) q)
            \<lparr>fileMutationQueues := (if fileMutationQueues q k = Some i then (fileMutationQueues q)(k := None)
                                     else fileMutationQueues q)\<rparr>)
      | _ \<Rightarrow> None)"

subsection \<open>The tools\<close>

text \<open>\<open>execute\<close> of the write tool; creating the parent directories may fail and does not change a file. The result is the number
  that the message calls bytes.\<close>

definition write_execute ::
  "tool_io \<Rightarrow> (nat \<Rightarrow> bool) \<Rightarrow> js_string \<Rightarrow> js_string \<Rightarrow> file_system \<Rightarrow> (tool_error + nat) \<times> file_system" where
  "write_execute io aborted content absolutePath fs =
     (if aborted 0 then (Inl Aborted, fs)
      else if io_mkdir_fails io then (Inl WriteFailed, fs)
      else if aborted 1 then (Inl Aborted, fs)
      else (if io_write io \<noteq> WriteSucceeds then Inl WriteFailed else if aborted 2 then Inl Aborted else Inr (length content),
            write_file io absolutePath (textEncoder_encode content) fs))"

datatype job = EditJob "edit list" tool_io "nat \<Rightarrow> bool" | WriteJob js_string tool_io "nat \<Rightarrow> bool"

definition job_execute :: "(js_string \<Rightarrow> js_string) \<Rightarrow> job \<Rightarrow> js_string \<Rightarrow> file_system \<Rightarrow> (tool_error + nat) \<times> file_system" where
  "job_execute nfkc j p fs =
     (case j of EditJob edits io aborted \<Rightarrow> edit_execute nfkc io aborted edits p fs
      | WriteJob content io aborted \<Rightarrow> write_execute io aborted content p fs)"

subsection \<open>Tools at work on the files\<close>

text \<open>
  The file system is given by real paths; \<open>leads p\<close> is where the path \<open>p\<close> leads. Between \<open>enter_fn\<close> and \<open>leave_fn\<close> a tool
  reads its file and later writes what it made of it; other calls may run in between. The paths are those \<open>resolveToCwd\<close>
  returns, which \<open>resolve\<close> leaves as they are.
\<close>

datatype tool_progress = NotStarted | HasRead "byte list option" | HasWritten

record file_call =
  tc_path :: js_string
  tc_job :: job
  tc_progress :: tool_progress

record tool_world =
  w_queue :: mutation_queue
  w_calls :: "file_call list"
  w_files :: file_system

definition realpath :: "(js_string \<Rightarrow> js_string) \<Rightarrow> file_system \<Rightarrow> js_string \<Rightarrow> fs_error + js_string" where
  "realpath leads fs p = (if fs (leads p) = None then Inl ENOENT else Inr (leads p))"

text \<open>What a tool leaves in its file, if it changes it, given what it read there; also when its write fails.\<close>

fun job_writes :: "(js_string \<Rightarrow> js_string) \<Rightarrow> job \<Rightarrow> byte list option \<Rightarrow> byte list option" where
  "job_writes nfkc (EditJob edits io aborted) buffer =
     (if edits = [] \<or> aborted 0 \<or> aborted 1 \<or> io_read_fails io \<or> aborted 2 then None
      else case buffer of
        None \<Rightarrow> None
      | Some b \<Rightarrow>
          let (bom, content) = stripBom (file_text b) in
          case applyEditsToNormalizedContent nfkc (normalizeToLF content) edits of
            Inl err \<Rightarrow> None
          | Inr (base, new) \<Rightarrow>
              if aborted 3 then None
              else written_by io (textEncoder_encode (bom @ restoreLineEndings new (detectLineEnding content))))"
| "job_writes nfkc (WriteJob content io aborted) buffer =
     (if aborted 0 \<or> io_mkdir_fails io \<or> aborted 1 then None else written_by io (textEncoder_encode content))"

inductive tool_step :: "(js_string \<Rightarrow> js_string) \<Rightarrow> (js_string \<Rightarrow> js_string) \<Rightarrow> tool_world \<Rightarrow> tool_world \<Rightarrow> bool"
  for nfkc leads where
  step_call: "resolve_path [] [] p = p \<Longrightarrow>
    tool_step nfkc leads w
      (w\<lparr>w_queue := call_mutation (w_queue w), w_calls := w_calls w @ [\<lparr>tc_path = p, tc_job = j, tc_progress = NotStarted\<rparr>]\<rparr>)"
| step_begin: "begin_registration i (w_queue w) = Some q \<Longrightarrow> tool_step nfkc leads w (w\<lparr>w_queue := q\<rparr>)"
| step_register: "i < length (w_calls w) \<Longrightarrow> p = tc_path (w_calls w ! i) \<Longrightarrow>
    end_registration i (getMutationQueueKey [] p (realpath leads (w_files w) p)) (w_queue w) = Some q \<Longrightarrow>
    tool_step nfkc leads w (w\<lparr>w_queue := q\<rparr>)"
| step_enter: "enter_fn i (w_queue w) = Some q \<Longrightarrow> tool_step nfkc leads w (w\<lparr>w_queue := q\<rparr>)"
| step_read: "phase_of i (w_queue w) = Some (InsideFn k) \<Longrightarrow> i < length (w_calls w) \<Longrightarrow> c = w_calls w ! i \<Longrightarrow>
    tc_progress c = NotStarted \<Longrightarrow>
    tool_step nfkc leads w (w\<lparr>w_calls := (w_calls w)[i := c\<lparr>tc_progress := HasRead (w_files w (leads (tc_path c)))\<rparr>]\<rparr>)"
| step_write: "phase_of i (w_queue w) = Some (InsideFn k) \<Longrightarrow> i < length (w_calls w) \<Longrightarrow> c = w_calls w ! i \<Longrightarrow>
    tc_progress c = HasRead buffer \<Longrightarrow>
    tool_step nfkc leads w (w\<lparr>w_calls := (w_calls w)[i := c\<lparr>tc_progress := HasWritten\<rparr>],
      w_files := (case job_writes nfkc (tc_job c) buffer of None \<Rightarrow> w_files w | Some b \<Rightarrow> (w_files w)(leads (tc_path c) \<mapsto> b))\<rparr>)"
| step_leave: "i < length (w_calls w) \<Longrightarrow> tc_progress (w_calls w ! i) = HasWritten \<Longrightarrow>
    leave_fn i (w_queue w) = Some q \<Longrightarrow> tool_step nfkc leads w (w\<lparr>w_queue := q\<rparr>)"

inductive_cases tool_stepE: "tool_step nfkc leads w w'"

text \<open>The calls that have written, one after the other in the order in which they were made.\<close>

definition serial_files :: "(js_string \<Rightarrow> js_string) \<Rightarrow> (js_string \<Rightarrow> js_string) \<Rightarrow> file_system \<Rightarrow> file_call list \<Rightarrow> file_system" where
  "serial_files nfkc leads fs cs =
     foldl (\<lambda>fs c. snd (job_execute nfkc (tc_job c) (leads (tc_path c)) fs)) fs (filter (\<lambda>c. tc_progress c = HasWritten) cs)"

end
