(* ===== verification/MutationFacts.thy ===== *)
theory MutationFacts
  imports FileMutations
begin

text \<open>
  What the queue of file mutations gives the tools: calls for one file run one after the other in the order in which they
  were made, so that no write is lost; every call comes to its end; and no entry of the queue is left behind.
\<close>

subsection \<open>The queue\<close>

fun key_of :: "call_phase \<Rightarrow> js_string option" where
  "key_of (WaitingFor k prev) = Some k"
| "key_of (InsideFn k) = Some k"
| "key_of (SettledCall k) = Some k"
| "key_of p = None"

text \<open>The calls before \<open>n\<close> with key \<open>k\<close> have settled.\<close>

definition all_settled :: "js_string \<Rightarrow> call_phase list \<Rightarrow> nat \<Rightarrow> bool" where
  "all_settled k ps n \<longleftrightarrow> (\<forall>i < n. key_of (ps ! i) = Some k \<longrightarrow> ps ! i = SettledCall k)"

definition has_turn :: "js_string \<Rightarrow> call_phase \<Rightarrow> bool" where
  "has_turn k p \<longleftrightarrow> p = InsideFn k \<or> p = SettledCall k \<or> p = WaitingFor k None"

definition phase_ok :: "call_phase list \<Rightarrow> nat \<Rightarrow> bool" where
  "phase_ok ps i \<longleftrightarrow>
     (ps ! i \<noteq> Unregistered \<longrightarrow> (\<forall>j < i. registration_settled (ps ! j)))
     \<and> (\<forall>k. has_turn k (ps ! i) \<longrightarrow> all_settled k ps i)
     \<and> (\<forall>k j. ps ! i = WaitingFor k (Some j) \<longrightarrow>
          j < i \<and> key_of (ps ! j) = Some k \<and> (\<forall>l. j < l \<and> l < i \<longrightarrow> key_of (ps ! l) \<noteq> Some k))"

definition tail_ok :: "call_phase list \<Rightarrow> js_string \<Rightarrow> nat option \<Rightarrow> bool" where
  "tail_ok ps k t \<longleftrightarrow>
     (case t of
        None \<Rightarrow> all_settled k ps (length ps)
      | Some j \<Rightarrow> j < length ps \<and> key_of (ps ! j) = Some k \<and> ps ! j \<noteq> SettledCall k
          \<and> (\<forall>l. j < l \<and> l < length ps \<longrightarrow> key_of (ps ! l) \<noteq> Some k))"

definition mutation_queue_ok :: "mutation_queue \<Rightarrow> bool" where
  "mutation_queue_ok q \<longleftrightarrow> (\<forall>i < length (phases q). phase_ok (phases q) i) \<and> (\<forall>k. tail_ok (phases q) k (fileMutationQueues q k))"

lemma mutation_queue_okD:
  assumes "mutation_queue_ok q"
  shows "\<And>j. j < length (phases q) \<Longrightarrow> phase_ok (phases q) j" "\<And>k. tail_ok (phases q) k (fileMutationQueues q k)"
  using assms by (auto simp: mutation_queue_ok_def)

lemma registered_take:
  "i \<le> length ps \<Longrightarrow> list_all registration_settled (take i ps) \<longleftrightarrow> (\<forall>j < i. registration_settled (ps ! j))"
  by (auto simp: list_all_length)

lemma no_mutations_ok: "mutation_queue_ok no_mutations"
  by (simp add: mutation_queue_ok_def no_mutations_def tail_ok_def all_settled_def)

lemma call_mutation_ok:
  assumes "mutation_queue_ok q"
  shows "mutation_queue_ok (call_mutation q)"
proof -
  note ok = mutation_queue_okD [OF assms]
  have "phase_ok (phases q @ [Unregistered]) i" if "i < Suc (length (phases q))" for i
  proof (cases "i = length (phases q)")
    case True
    then show ?thesis by (simp add: phase_ok_def has_turn_def)
  next
    case False
    then have "i < length (phases q)" using that by simp
    with ok(1) [of i] show ?thesis by (auto simp: phase_ok_def all_settled_def nth_append)
  qed
  moreover have "tail_ok (phases q @ [Unregistered]) k (fileMutationQueues q k)" for k
    using ok(2) [of k] by (auto simp: tail_ok_def all_settled_def nth_append less_Suc_eq split: option.splits)
  ultimately show ?thesis by (simp add: mutation_queue_ok_def call_mutation_def)
qed

text \<open>A call that changes its phase: the other calls keep what they need when the call keeps its key and settles only
  at the end.\<close>

lemma phase_change_ok:
  assumes "i < length ps" "\<And>j. j < length ps \<Longrightarrow> phase_ok ps j" "phase_ok (ps[i := p]) i"
    and "registration_settled (ps ! i) \<Longrightarrow> registration_settled p"
    and "key_of (ps ! i) = key_of p \<or> key_of (ps ! i) = None \<and> (\<forall>j. i < j \<and> j < length ps \<longrightarrow> ps ! j = Unregistered)"
    and "\<And>k. ps ! i \<noteq> SettledCall k"
  shows "\<forall>j < length (ps[i := p]). phase_ok (ps[i := p]) j"
proof (intro allI impI)
  fix j assume "j < length (ps[i := p])"
  then have j: "j < length ps" by simp
  note old = assms(2) [OF j]
  consider "j = i" | "j < i" | "i < j" by linarith
  then show "phase_ok (ps[i := p]) j"
  proof cases
    case 2
    then show ?thesis using old by (auto simp: phase_ok_def all_settled_def)
  next
    case 3
    show ?thesis
    proof (cases "key_of (ps ! i) = key_of p")
      case True
      moreover have "key_of (ps ! i) \<noteq> Some k" if "has_turn k (ps ! j)" for k
        using old that 3 assms(6) by (auto simp: phase_ok_def all_settled_def)
      ultimately show ?thesis using old 3 assms(1,4) by (auto simp: phase_ok_def all_settled_def nth_list_update)
    next
      case False
      then show ?thesis using assms(5) 3 j by (simp add: phase_ok_def has_turn_def)
    qed
  qed (use assms(3) in simp)
qed

lemma begin_registration_ok:
  assumes "mutation_queue_ok q" "begin_registration i q = Some q'"
  shows "mutation_queue_ok q'"
proof -
  note ok = mutation_queue_okD [OF assms(1)]
  from assms(2) have i: "i < length (phases q)" "phases q ! i = Unregistered" "\<forall>j < i. registration_settled (phases q ! j)"
    and q': "q' = set_phase i ResolvingKey q"
    by (auto simp: begin_registration_def phase_of_def registered_take split: if_splits)
  have "\<forall>j < length ((phases q)[i := ResolvingKey]). phase_ok ((phases q)[i := ResolvingKey]) j"
    by (rule phase_change_ok [OF i(1) ok(1)]) (use i in \<open>auto simp: phase_ok_def has_turn_def registration_settled_def\<close>)
  moreover have "tail_ok ((phases q)[i := ResolvingKey]) k (fileMutationQueues q k)" for k
    using ok(2) [of k] i by (auto simp: tail_ok_def all_settled_def nth_list_update split: option.splits)
  ultimately show ?thesis by (simp add: mutation_queue_ok_def q' set_phase_def)
qed

lemma end_registration_ok:
  assumes "mutation_queue_ok q" "end_registration i key q = Some q'"
  shows "mutation_queue_ok q'"
proof -
  note ok = mutation_queue_okD [OF assms(1)]
  from assms(2) have i: "i < length (phases q)" "phases q ! i = ResolvingKey"
    by (auto simp: end_registration_def phase_of_def split: if_splits)
  have later: "phases q ! j = Unregistered" if "i < j" "j < length (phases q)" for j
    using ok(1) [OF that(2)] that i by (auto simp: phase_ok_def registration_settled_def)
  have before: "\<forall>j < i. registration_settled (phases q ! j)" using ok(1) [OF i(1)] i(2) by (simp add: phase_ok_def)
  show ?thesis
  proof (cases key)
    case (Inl e)
    then have q': "q' = set_phase i (RejectedKey e) q" using assms(2) by (auto simp: end_registration_def split: if_splits)
    have "\<forall>j < length ((phases q)[i := RejectedKey e]). phase_ok ((phases q)[i := RejectedKey e]) j"
      by (rule phase_change_ok [OF i(1) ok(1)]) (use i before in \<open>auto simp: phase_ok_def has_turn_def registration_settled_def\<close>)
    moreover have "tail_ok ((phases q)[i := RejectedKey e]) k (fileMutationQueues q k)" for k
      using ok(2) [of k] i by (auto simp: tail_ok_def all_settled_def nth_list_update split: option.splits)
    ultimately show ?thesis by (simp add: mutation_queue_ok_def q' set_phase_def)
  next
    case (Inr k)
    define p where "p = WaitingFor k (fileMutationQueues q k)"
    have q': "phases q' = (phases q)[i := p]" "fileMutationQueues q' = (fileMutationQueues q)(k \<mapsto> i)"
      using assms(2) Inr by (auto simp: p_def end_registration_def set_phase_def split: if_splits)
    have keyed: "j < i" if "j < length (phases q)" "key_of (phases q ! j) = Some k'" for j k'
      using later [of j] i(2) that by (cases j i rule: linorder_cases) auto
    have turn: "phase_ok (phases q') i"
      using ok(2) [of k] i before keyed
      by (auto simp: q' p_def phase_ok_def has_turn_def tail_ok_def all_settled_def nth_list_update split: option.splits)
    have "\<forall>j < length (phases q'). phase_ok (phases q') j"
      unfolding q' by (rule phase_change_ok [OF i(1) ok(1)]) (use turn i later q' in \<open>auto simp: registration_settled_def\<close>)
    moreover have "tail_ok (phases q') k' (fileMutationQueues q' k')" for k'
      using ok(2) [of k'] i later by (auto simp: q' p_def tail_ok_def all_settled_def nth_list_update split: option.splits)
    ultimately show ?thesis by (simp add: mutation_queue_ok_def)
  qed
qed

lemma enter_fn_ok:
  assumes "mutation_queue_ok q" "enter_fn i q = Some q'"
  shows "mutation_queue_ok q'"
proof -
  note ok = mutation_queue_okD [OF assms(1)]
  from assms(2) obtain k prev where i: "i < length (phases q)" "phases q ! i = WaitingFor k prev"
    and prev: "currentQueue_fulfilled prev q" and q': "q' = set_phase i (InsideFn k) q"
    by (auto simp: enter_fn_def phase_of_def split: if_splits call_phase.splits)
  have "all_settled k (phases q) i"
  proof (cases prev)
    case None
    then show ?thesis using ok(1) [OF i(1)] i(2) by (simp add: phase_ok_def has_turn_def)
  next
    case (Some j)
    then have j: "j < i" "key_of (phases q ! j) = Some k" "\<forall>l. j < l \<and> l < i \<longrightarrow> key_of (phases q ! l) \<noteq> Some k"
      using ok(1) [OF i(1)] i(2) by (auto simp: phase_ok_def)
    then have s: "phases q ! j = SettledCall k"
      using prev Some i(1) by (auto simp: currentQueue_fulfilled_def phase_of_def split: if_splits)
    then have "all_settled k (phases q) j" using ok(1) [of j] j(1) i(1) by (simp add: phase_ok_def has_turn_def)
    then show ?thesis using j(3) s unfolding all_settled_def by (metis linorder_cases)
  qed
  then have "\<forall>j < length ((phases q)[i := InsideFn k]). phase_ok ((phases q)[i := InsideFn k]) j"
    by (intro phase_change_ok [OF i(1) ok(1)])
       (use ok(1) [OF i(1)] i in \<open>auto simp: phase_ok_def has_turn_def all_settled_def registration_settled_def\<close>)
  moreover have "tail_ok ((phases q)[i := InsideFn k]) k' (fileMutationQueues q k')" for k'
    using ok(2) [of k'] i by (auto simp: tail_ok_def all_settled_def nth_list_update split: option.splits)
  ultimately show ?thesis by (simp add: mutation_queue_ok_def q' set_phase_def)
qed

lemma leave_fn_ok:
  assumes "mutation_queue_ok q" "leave_fn i q = Some q'"
  shows "mutation_queue_ok q'"
proof -
  note ok = mutation_queue_okD [OF assms(1)]
  from assms(2) obtain k where i: "i < length (phases q)" "phases q ! i = InsideFn k"
    and q': "phases q' = (phases q)[i := SettledCall k]"
      "fileMutationQueues q' = (if fileMutationQueues q k = Some i then (fileMutationQueues q)(k := None) else fileMutationQueues q)"
    by (auto simp: leave_fn_def phase_of_def set_phase_def split: if_splits call_phase.splits)
  have before: "all_settled k (phases q) i" using ok(1) [OF i(1)] i(2) by (simp add: phase_ok_def has_turn_def)
  have "\<forall>j < length (phases q'). phase_ok (phases q') j"
    unfolding q' by (rule phase_change_ok [OF i(1) ok(1)])
      (use ok(1) [OF i(1)] i in \<open>auto simp: phase_ok_def has_turn_def all_settled_def registration_settled_def\<close>)
  moreover have "tail_ok (phases q') k' (fileMutationQueues q' k')" for k'
  proof (cases "k' = k \<and> fileMutationQueues q k = Some i")
    case True
    then have "key_of (phases q ! l) \<noteq> Some k" if "i < l" "l < length (phases q)" for l
      using ok(2) [of k] that by (auto simp: tail_ok_def)
    then have "phases q ! l = SettledCall k" if "l < length (phases q)" "key_of (phases q ! l) = Some k" "l \<noteq> i" for l
      using before that by (metis all_settled_def linorder_cases)
    with True i show ?thesis by (auto simp: q' tail_ok_def all_settled_def nth_list_update)
  next
    case False
    then show ?thesis using ok(2) [of k'] i
      by (auto simp: q' tail_ok_def all_settled_def nth_list_update split: option.splits)
  qed
  ultimately show ?thesis by (simp add: mutation_queue_ok_def)
qed

lemmas queue_ops_ok = call_mutation_ok begin_registration_ok end_registration_ok enter_fn_ok leave_fn_ok

subsection \<open>What a tool does to the files\<close>

lemma job_execute_writes:
  "snd (job_execute nfkc j p fs) = (case job_writes nfkc j (fs p) of None \<Rightarrow> fs | Some b \<Rightarrow> fs(p \<mapsto> b))"
  by (cases j)
     (auto simp: job_execute_def edit_execute_def write_execute_def write_file_def Let_def split: option.splits sum.splits prod.splits)

definition write_over :: "(js_string \<Rightarrow> js_string) \<Rightarrow> byte list option \<Rightarrow> file_call \<Rightarrow> byte list option" where
  "write_over nfkc b c = (case job_writes nfkc (tc_job c) b of None \<Rightarrow> b | Some b' \<Rightarrow> Some b')"

definition writes_to :: "(js_string \<Rightarrow> js_string) \<Rightarrow> js_string \<Rightarrow> file_call \<Rightarrow> bool" where
  "writes_to leads r c \<longleftrightarrow> tc_progress c = HasWritten \<and> leads (tc_path c) = r"

text \<open>Calls for different files do not see each other.\<close>

lemma serial_files_at:
  "serial_files nfkc leads fs cs r = foldl (write_over nfkc) (fs r) (filter (writes_to leads r) cs)"
proof (induction cs arbitrary: fs)
  case (Cons c cs)
  show ?case
  proof (cases "tc_progress c = HasWritten")
    case True
    have "serial_files nfkc leads fs (c # cs) = serial_files nfkc leads (snd (job_execute nfkc (tc_job c) (leads (tc_path c)) fs)) cs"
      using True by (simp add: serial_files_def)
    with Cons.IH True show ?thesis by (auto simp: job_execute_writes writes_to_def write_over_def split: option.splits)
  next
    case False
    then show ?thesis using Cons.IH by (simp add: serial_files_def writes_to_def)
  qed
qed (simp add: serial_files_def)

lemma serial_files_write:
  assumes "tc_progress c \<noteq> HasWritten" "leads (tc_path c) = r"
    and "\<forall>d \<in> set ys. leads (tc_path d) = r \<longrightarrow> tc_progress d \<noteq> HasWritten"
  shows "serial_files nfkc leads fs (xs @ c\<lparr>tc_progress := HasWritten\<rparr> # ys)
     = (serial_files nfkc leads fs (xs @ c # ys))(r := write_over nfkc (serial_files nfkc leads fs (xs @ c # ys) r) c)"
proof
  fix r'
  have "filter (writes_to leads r) ys = []" using assms(3) by (auto simp: filter_empty_conv writes_to_def)
  with assms(1,2) show "serial_files nfkc leads fs (xs @ c\<lparr>tc_progress := HasWritten\<rparr> # ys) r' =
      ((serial_files nfkc leads fs (xs @ c # ys))(r := write_over nfkc (serial_files nfkc leads fs (xs @ c # ys) r) c)) r'"
    by (auto simp: serial_files_at writes_to_def write_over_def)
qed

subsection \<open>Runs\<close>

text \<open>What holds of a run: \<open>found p\<close> says that the key of a call for \<open>p\<close> is the file that \<open>p\<close> leads to.\<close>

definition call_ok :: "(js_string \<Rightarrow> js_string) \<Rightarrow> file_system \<Rightarrow> call_phase \<Rightarrow> file_call \<Rightarrow> bool" where
  "call_ok leads files p c \<longleftrightarrow>
     (\<forall>k. key_of p = Some k \<longrightarrow> k = leads (tc_path c))
     \<and> (tc_progress c \<noteq> NotStarted \<longrightarrow> (\<exists>k. p = InsideFn k \<or> p = SettledCall k))
     \<and> (\<forall>k. p = SettledCall k \<longrightarrow> tc_progress c = HasWritten)
     \<and> (\<forall>b. tc_progress c = HasRead b \<longrightarrow> b = files (leads (tc_path c)))
     \<and> (\<forall>e. p \<noteq> RejectedKey e)"

definition tools_ok :: "(js_string \<Rightarrow> js_string) \<Rightarrow> (js_string \<Rightarrow> js_string) \<Rightarrow> file_system \<Rightarrow> tool_world \<Rightarrow> bool" where
  "tools_ok nfkc leads fs w \<longleftrightarrow>
     mutation_queue_ok (w_queue w) \<and> list_all2 (call_ok leads (w_files w)) (phases (w_queue w)) (w_calls w)
     \<and> dom fs \<subseteq> dom (w_files w) \<and> w_files w = serial_files nfkc leads fs (w_calls w)"

definition keyed_by_file :: "(js_string \<Rightarrow> js_string) \<Rightarrow> file_system \<Rightarrow> file_call \<Rightarrow> bool" where
  "keyed_by_file leads fs c \<longleftrightarrow> (leads (tc_path c) = tc_path c \<or> fs (leads (tc_path c)) \<noteq> None) \<and> resolve_path [] [] (tc_path c) = tc_path c"

lemma key_is_file:
  assumes "keyed_by_file leads fs c" "dom fs \<subseteq> dom files"
  shows "getMutationQueueKey [] (tc_path c) (realpath leads files (tc_path c)) = Inr (leads (tc_path c))"
  using assms by (auto simp: keyed_by_file_def getMutationQueueKey_def realpath_def isMissingPathError_def)

text \<open>While a call is inside its function, no other call for that file is, and none after it has written.\<close>

lemma inside_alone:
  assumes "tools_ok nfkc leads fs w" "phase_of i (w_queue w) = Some (InsideFn k)"
    and "l < length (w_calls w)" "l \<noteq> i" "leads (tc_path (w_calls w ! l)) = k"
  shows "(\<forall>b. tc_progress (w_calls w ! l) \<noteq> HasRead b) \<and> (i < l \<longrightarrow> tc_progress (w_calls w ! l) = NotStarted)"
proof -
  let ?ps = "phases (w_queue w)"
  have q: "mutation_queue_ok (w_queue w)" and l: "l < length ?ps" "call_ok leads (w_files w) (?ps ! l) (w_calls w ! l)"
    and i: "i < length ?ps" "?ps ! i = InsideFn k"
    using assms by (auto simp: tools_ok_def list_all2_conv_all_nth phase_of_def split: if_splits)
  note ok = mutation_queue_okD(1) [OF q]
  have "l < i" if "has_turn k (?ps ! l)"
  proof (rule ccontr)
    assume "\<not> l < i"
    then have "i < l" using assms(4) by simp
    moreover have "all_settled k ?ps l" using ok [OF l(1)] that by (simp add: phase_ok_def)
    ultimately have "?ps ! i = SettledCall k" using i(2) by (simp add: all_settled_def)
    with i(2) show False by simp
  qed
  note first = this
  have before: "all_settled k ?ps i" using ok [OF i(1)] i(2) by (simp add: phase_ok_def has_turn_def)
  show ?thesis
  proof (cases "tc_progress (w_calls w ! l) = NotStarted")
    case False
    then obtain k' where "?ps ! l = InsideFn k' \<or> ?ps ! l = SettledCall k'" "k' = k"
      using l(2) assms(5) unfolding call_ok_def by force
    then have "has_turn k (?ps ! l)" "key_of (?ps ! l) = Some k" by (auto simp: has_turn_def)
    with first before have "l < i" "?ps ! l = SettledCall k" by (auto simp: all_settled_def)
    then show ?thesis using l(2) by (simp add: call_ok_def)
  qed simp
qed

lemma map_path_update: "i < length cs \<Longrightarrow> map tc_path (cs[i := (cs ! i)\<lparr>tc_progress := x\<rparr>]) = map tc_path cs"
  by (simp add: map_update list_update_same_conv)

lemma step_calls: "tool_step nfkc leads w w' \<Longrightarrow> \<exists>ps. map tc_path (w_calls w') = map tc_path (w_calls w) @ ps"
  by (auto elim!: tool_stepE simp: map_path_update)

text \<open>A step that moves one call to another phase.\<close>

lemma phase_step_ok:
  assumes "tools_ok nfkc leads fs w" "mutation_queue_ok q" "i < length (phases (w_queue w))"
    and "phases q = (phases (w_queue w))[i := p]" "call_ok leads (w_files w) p (w_calls w ! i)"
  shows "tools_ok nfkc leads fs (w\<lparr>w_queue := q\<rparr>)"
  using assms by (auto simp: tools_ok_def list_all2_conv_all_nth nth_list_update)

lemma read_step_ok:
  assumes "tools_ok nfkc leads fs w" "phase_of i (w_queue w) = Some (InsideFn k)" "i < length (w_calls w)"
    and "tc_progress (w_calls w ! i) = NotStarted"
  shows "tools_ok nfkc leads fs (w\<lparr>w_calls := (w_calls w)
    [i := (w_calls w ! i)\<lparr>tc_progress := HasRead (w_files w (leads (tc_path (w_calls w ! i))))\<rparr>]\<rparr>)"
proof -
  let ?c = "(w_calls w ! i)\<lparr>tc_progress := HasRead (w_files w (leads (tc_path (w_calls w ! i))))\<rparr>"
  have "filter (\<lambda>c. tc_progress c = HasWritten) ((w_calls w)[i := ?c]) = filter (\<lambda>c. tc_progress c = HasWritten) (w_calls w)"
    using assms(3,4) by (subst (2) id_take_nth_drop [OF assms(3)]) (simp add: upd_conv_take_nth_drop)
  then show ?thesis using assms
    by (auto simp: tools_ok_def serial_files_def list_all2_conv_all_nth nth_list_update call_ok_def phase_of_def split: if_splits)
qed

lemma write_step_ok:
  assumes "tools_ok nfkc leads fs w" "phase_of i (w_queue w) = Some (InsideFn k)" "i < length (w_calls w)"
    and "c = w_calls w ! i" "tc_progress c = HasRead b"
  shows "tools_ok nfkc leads fs (w\<lparr>w_calls := (w_calls w)[i := c\<lparr>tc_progress := HasWritten\<rparr>],
    w_files := (case job_writes nfkc (tc_job c) b of None \<Rightarrow> w_files w | Some b' \<Rightarrow> (w_files w)(leads (tc_path c) \<mapsto> b'))\<rparr>)"
proof -
  have old: "list_all2 (call_ok leads (w_files w)) (phases (w_queue w)) (w_calls w)" "w_files w = serial_files nfkc leads fs (w_calls w)"
    "dom fs \<subseteq> dom (w_files w)"
    using assms(1) by (auto simp: tools_ok_def)
  have c: "call_ok leads (w_files w) (InsideFn k) c"
    using old(1) assms(2-4) by (auto simp: list_all2_conv_all_nth phase_of_def split: if_splits)
  then have k: "k = leads (tc_path c)" "b = w_files w k" using assms(5) by (auto simp: call_ok_def)
  define files where "files = (case job_writes nfkc (tc_job c) b of None \<Rightarrow> w_files w | Some b' \<Rightarrow> (w_files w)(leads (tc_path c) \<mapsto> b'))"
  have files: "files = (w_files w)(k := write_over nfkc (w_files w k) c)"
    by (auto simp: files_def k write_over_def split: option.splits)
  define xs ys where "xs = take i (w_calls w)" and "ys = drop (Suc i) (w_calls w)"
  have split: "w_calls w = xs @ c # ys" "(w_calls w)[i := c\<lparr>tc_progress := HasWritten\<rparr>] = xs @ c\<lparr>tc_progress := HasWritten\<rparr> # ys"
    using assms(3,4) by (simp_all add: xs_def ys_def id_take_nth_drop [symmetric] upd_conv_take_nth_drop)
  have alone: "tc_progress (w_calls w ! l) = NotStarted" if "l < length (w_calls w)" "i < l" "leads (tc_path (w_calls w ! l)) = k" for l
    using inside_alone [OF assms(1,2) that(1) _ that(3)] that(2) by simp
  have "\<forall>d \<in> set ys. leads (tc_path d) = k \<longrightarrow> tc_progress d \<noteq> HasWritten"
  proof
    fix d assume "d \<in> set ys"
    then obtain n where "n < length ys" "d = ys ! n" by (auto simp: in_set_conv_nth)
    then show "leads (tc_path d) = k \<longrightarrow> tc_progress d \<noteq> HasWritten"
      using alone [of "Suc i + n"] by (auto simp: ys_def)
  qed
  then have "files = serial_files nfkc leads fs (xs @ c\<lparr>tc_progress := HasWritten\<rparr> # ys)"
    using serial_files_write [of c leads k ys nfkc fs xs] assms(5) k(1) old(2) by (simp add: files split(1) [symmetric])
  moreover have "list_all2 (call_ok leads files) (phases (w_queue w)) (xs @ c\<lparr>tc_progress := HasWritten\<rparr> # ys)"
    unfolding split(2) [symmetric] list_all2_conv_all_nth
  proof (intro conjI allI impI)
    show "length (phases (w_queue w)) = length ((w_calls w)[i := c\<lparr>tc_progress := HasWritten\<rparr>])"
      using old(1) by (simp add: list_all2_conv_all_nth)
    fix l assume "l < length (phases (w_queue w))"
    then have l: "call_ok leads (w_files w) (phases (w_queue w) ! l) (w_calls w ! l)" "l < length (w_calls w)"
      using old(1) by (auto simp: list_all2_conv_all_nth)
    show "call_ok leads files (phases (w_queue w) ! l) ((w_calls w)[i := c\<lparr>tc_progress := HasWritten\<rparr>] ! l)"
    proof (cases "l = i")
      case True
      then show ?thesis using l c assms(4,5) by (auto simp: call_ok_def)
    next
      case False
      then have "leads (tc_path (w_calls w ! l)) = k \<Longrightarrow> \<forall>b. tc_progress (w_calls w ! l) \<noteq> HasRead b"
        using inside_alone [OF assms(1,2) l(2)] by blast
      then show ?thesis using l False by (auto simp: call_ok_def files)
    qed
  qed
  moreover have "dom fs \<subseteq> dom files" using old(3) by (auto simp: files_def split: option.splits)
  ultimately show ?thesis
    unfolding files_def [symmetric] split(2) using assms(1) by (simp add: tools_ok_def)
qed

lemma tool_step_ok:
  assumes "tool_step nfkc leads w w'" "tools_ok nfkc leads fs w" "\<forall>c \<in> set (w_calls w). keyed_by_file leads fs c"
  shows "tools_ok nfkc leads fs w'"
proof -
  have q: "mutation_queue_ok (w_queue w)" and dom: "dom fs \<subseteq> dom (w_files w)"
    and calls: "\<And>i. i < length (phases (w_queue w)) \<Longrightarrow> call_ok leads (w_files w) (phases (w_queue w) ! i) (w_calls w ! i)"
      "length (phases (w_queue w)) = length (w_calls w)"
    using assms(2) by (auto simp: tools_ok_def list_all2_conv_all_nth)
  note phase = phase_step_ok [OF assms(2)]
  from assms(1) show ?thesis
  proof cases
    case (step_call p j)
    then show ?thesis using assms(2) call_mutation_ok [OF q]
      by (auto simp: tools_ok_def call_mutation_def call_ok_def serial_files_def intro!: list_all2_appendI)
  next
    case (step_begin i q')
    then show ?thesis unfolding step_begin(1) using calls(1) [of i]
      by (intro phase [of q' i ResolvingKey] begin_registration_ok [OF q])
         (auto simp: begin_registration_def phase_of_def set_phase_def call_ok_def split: if_splits)
  next
    case (step_register i p q')
    have key: "getMutationQueueKey [] p (realpath leads (w_files w) p) = Inr (leads p)"
      using key_is_file [OF _ dom] assms(3) step_register(2,3) by simp
    show ?thesis unfolding step_register(1) using calls(1) [of i] step_register(3,4) key
      by (intro phase [of q' i "WaitingFor (leads p) (fileMutationQueues (w_queue w) (leads p))"] end_registration_ok [OF q])
         (auto simp: end_registration_def phase_of_def set_phase_def call_ok_def split: if_splits)
  next
    case (step_enter i q')
    then obtain k prev where "phases (w_queue w) ! i = WaitingFor k prev" "i < length (phases (w_queue w))"
      "phases q' = (phases (w_queue w))[i := InsideFn k]"
      by (auto simp: enter_fn_def phase_of_def set_phase_def split: if_splits call_phase.splits)
    then show ?thesis unfolding step_enter(1) using calls(1) [of i]
      by (intro phase [of q' i "InsideFn k"] enter_fn_ok [OF q step_enter(2)]) (auto simp: call_ok_def)
  next
    case (step_leave i q')
    then obtain k where "phases (w_queue w) ! i = InsideFn k" "i < length (phases (w_queue w))"
      "phases q' = (phases (w_queue w))[i := SettledCall k]"
      by (auto simp: leave_fn_def phase_of_def set_phase_def split: if_splits call_phase.splits)
    then show ?thesis unfolding step_leave(1) using calls(1) [of i] step_leave(3)
      by (intro phase [of q' i "SettledCall k"] leave_fn_ok [OF q step_leave(4)]) (auto simp: call_ok_def)
  qed (auto intro: read_step_ok write_step_ok assms(2))
qed

definition initial_world :: "file_system \<Rightarrow> tool_world" where
  "initial_world fs = \<lparr>w_queue = no_mutations, w_calls = [], w_files = fs\<rparr>"

lemma step_resolved:
  "tool_step nfkc leads w w' \<Longrightarrow> list_all (\<lambda>p. resolve_path [] [] p = p) (map tc_path (w_calls w))
     \<Longrightarrow> list_all (\<lambda>p. resolve_path [] [] p = p) (map tc_path (w_calls w'))"
  by (auto elim!: tool_stepE simp: map_path_update simp del: list.pred_map)

lemma run_ok:
  assumes "(tool_step nfkc leads)\<^sup>*\<^sup>* (initial_world fs) w"
    and "\<forall>c \<in> set (w_calls w). leads (tc_path c) = tc_path c \<or> fs (leads (tc_path c)) \<noteq> None"
  shows "tools_ok nfkc leads fs w \<and> (\<forall>c \<in> set (w_calls w). keyed_by_file leads fs c)"
  using assms
proof (induction rule: rtranclp_induct)
  case base
  show ?case
    by (simp add: tools_ok_def initial_world_def no_mutations_ok serial_files_def) (simp add: no_mutations_def)
next
  case (step w w')
  obtain ps where "map tc_path (w_calls w') = map tc_path (w_calls w) @ ps" using step_calls [OF step.hyps(2)] by blast
  then have sub: "tc_path ` set (w_calls w) \<subseteq> tc_path ` set (w_calls w')" by (metis list.set_map set_append sup_ge1)
  have "leads (tc_path c) = tc_path c \<or> fs (leads (tc_path c)) \<noteq> None" if "c \<in> set (w_calls w)" for c
  proof -
    from sub that obtain c' where "c' \<in> set (w_calls w')" "tc_path c' = tc_path c" by (metis (no_types, lifting) image_iff subsetD)
    then show ?thesis using step.prems by fastforce
  qed
  then have old: "tools_ok nfkc leads fs w" "\<forall>c \<in> set (w_calls w). keyed_by_file leads fs c" using step.IH by blast+
  then have "list_all (\<lambda>p. resolve_path [] [] p = p) (map tc_path (w_calls w))" by (auto simp: list_all_iff keyed_by_file_def)
  from step_resolved [OF step.hyps(2) this] step.prems have "\<forall>c \<in> set (w_calls w'). keyed_by_file leads fs c"
    by (auto simp: list_all_iff keyed_by_file_def)
  with tool_step_ok [OF step.hyps(2) old] show ?case by blast
qed

text \<open>Property C5. Edits and writes through the queue are serialisable: whatever order their steps are interleaved in, the files are
  at every moment those that the calls which have written leave when they are executed one after the other in the
  order in which they were made, so no write is lost; and no two calls for one file are inside their
  functions at once. A call may name a file by any path that leads to it, provided that the file exists or the path has no
  symbolic links.\<close>

theorem mutations_serialisable:
  assumes "(tool_step nfkc leads)\<^sup>*\<^sup>* (initial_world fs) w"
    and "\<forall>c \<in> set (w_calls w). leads (tc_path c) = tc_path c \<or> fs (leads (tc_path c)) \<noteq> None"
  shows "w_files w = serial_files nfkc leads fs (w_calls w)
    \<and> inj_on (\<lambda>i. leads (tc_path (w_calls w ! i))) {i. \<exists>k. phase_of i (w_queue w) = Some (InsideFn k)}"
proof -
  have ok: "tools_ok nfkc leads fs w" using run_ok [OF assms] by blast
  then have q: "mutation_queue_ok (w_queue w)"
    and calls: "\<And>i. i < length (phases (w_queue w)) \<Longrightarrow> call_ok leads (w_files w) (phases (w_queue w) ! i) (w_calls w ! i)"
    by (auto simp: tools_ok_def list_all2_conv_all_nth)
  have "\<not> i < j" if "phase_of i (w_queue w) = Some (InsideFn k)" "phase_of j (w_queue w) = Some (InsideFn k)" for i j k
    using mutation_queue_okD(1) [OF q, of j] that by (auto simp: phase_of_def phase_ok_def has_turn_def all_settled_def split: if_splits)
  moreover have "leads (tc_path (w_calls w ! i)) = k" if "phase_of i (w_queue w) = Some (InsideFn k)" for i k
    using calls [of i] that by (auto simp: phase_of_def call_ok_def split: if_splits)
  ultimately have "i = j" if "phase_of i (w_queue w) = Some (InsideFn k)" "phase_of j (w_queue w) = Some (InsideFn k')"
      "leads (tc_path (w_calls w ! i)) = leads (tc_path (w_calls w ! j))" for i j k k'
    using that by (metis linorder_neqE_nat)
  then have "inj_on (\<lambda>i. leads (tc_path (w_calls w ! i))) {i. \<exists>k. phase_of i (w_queue w) = Some (InsideFn k)}"
    unfolding inj_on_def by blast
  with ok show ?thesis by (simp add: tools_ok_def)
qed

text \<open>Two writes to one file: the first has written, the second waits for it.\<close>

definition written_world :: tool_world where
  "written_world =
     \<lparr>w_queue = \<lparr>phases = [InsideFn (js ''/f''), Unregistered], fileMutationQueues = [js ''/f'' \<mapsto> 0]\<rparr>,
      w_calls = [\<lparr>tc_path = js ''/f'', tc_job = WriteJob (js ''a'') io_ok (\<lambda>k. False), tc_progress = HasWritten\<rparr>,
                 \<lparr>tc_path = js ''/f'', tc_job = WriteJob (js ''b'') io_ok (\<lambda>k. False), tc_progress = NotStarted\<rparr>],
      w_files = [js ''/f'' \<mapsto> textEncoder_encode (js ''a'')]\<rparr>"

lemma written_world_reached: "(tool_step id id)\<^sup>*\<^sup>* (initial_world Map.empty) written_world"
proof -
  define f where "f = js ''/f''"
  have res: "resolve_path [] [] f = f"
    by (simp add: f_def resolve_path_def isAbsolute_def path_segments_def push_segment_def of_segments_def js_def)
  then have key: "getMutationQueueKey [] f (realpath id Map.empty f) = Inr f"
    by (simp add: getMutationQueueKey_def realpath_def isMissingPathError_def)
  define c0 c1 where "c0 = \<lparr>tc_path = f, tc_job = WriteJob (js ''a'') io_ok (\<lambda>k. False), tc_progress = NotStarted\<rparr>"
    and "c1 = \<lparr>tc_path = f, tc_job = WriteJob (js ''b'') io_ok (\<lambda>k. False), tc_progress = NotStarted\<rparr>"
  define w where "w p cs qs fs = \<lparr>w_queue = \<lparr>phases = p # [Unregistered], fileMutationQueues = qs\<rparr>, w_calls = [cs, c1], w_files = fs\<rparr>"
    for p cs qs fs
  let ?w1 = "\<lparr>w_queue = \<lparr>phases = [Unregistered], fileMutationQueues = (\<lambda>_. None)\<rparr>, w_calls = [c0], w_files = Map.empty\<rparr>"
  note ops = w_def c0_def phase_of_def set_phase_def
  have "tool_step id id (initial_world Map.empty) ?w1"
    using step_call [OF res, of id id "initial_world Map.empty" "WriteJob (js ''a'') io_ok (\<lambda>k. False)"]
    by (simp add: initial_world_def no_mutations_def call_mutation_def c0_def)
  moreover have "tool_step id id ?w1 (w Unregistered c0 (\<lambda>_. None) Map.empty)"
    using step_call [OF res, of id id ?w1 "WriteJob (js ''b'') io_ok (\<lambda>k. False)"] by (simp add: call_mutation_def w_def c1_def)
  moreover have "tool_step id id (w Unregistered c0 (\<lambda>_. None) Map.empty) (w ResolvingKey c0 (\<lambda>_. None) Map.empty)"
    using step_begin [of 0 "w Unregistered c0 (\<lambda>_. None) Map.empty"] by (simp add: ops begin_registration_def)
  moreover have "tool_step id id (w ResolvingKey c0 (\<lambda>_. None) Map.empty) (w (WaitingFor f None) c0 [f \<mapsto> 0] Map.empty)"
  proof -
    let ?q = "w_queue (w (WaitingFor f None) c0 [f \<mapsto> 0] Map.empty)"
    have "end_registration 0 (Inr f) (w_queue (w ResolvingKey c0 (\<lambda>_. None) Map.empty)) = Some ?q"
      by (simp add: ops end_registration_def)
    moreover have "f = tc_path (w_calls (w ResolvingKey c0 (\<lambda>_. None) Map.empty) ! 0)"
      "0 < length (w_calls (w ResolvingKey c0 (\<lambda>_. None) Map.empty))" "w_files (w ResolvingKey c0 (\<lambda>_. None) Map.empty) = Map.empty"
      "w (WaitingFor f None) c0 [f \<mapsto> 0] Map.empty = (w ResolvingKey c0 (\<lambda>_. None) Map.empty)\<lparr>w_queue := ?q\<rparr>"
      by (simp_all add: w_def c0_def)
    ultimately show ?thesis using step_register key by metis
  qed
  moreover have "tool_step id id (w (WaitingFor f None) c0 [f \<mapsto> 0] Map.empty) (w (InsideFn f) c0 [f \<mapsto> 0] Map.empty)"
    using step_enter [of 0 "w (WaitingFor f None) c0 [f \<mapsto> 0] Map.empty"]
    by (simp add: ops enter_fn_def currentQueue_fulfilled_def)
  moreover have "tool_step id id (w (InsideFn f) c0 [f \<mapsto> 0] Map.empty)
      (w (InsideFn f) (c0\<lparr>tc_progress := HasRead None\<rparr>) [f \<mapsto> 0] Map.empty)"
    using step_read [of 0 "w (InsideFn f) c0 [f \<mapsto> 0] Map.empty" f c0 id] by (simp add: ops)
  moreover have "tool_step id id (w (InsideFn f) (c0\<lparr>tc_progress := HasRead None\<rparr>) [f \<mapsto> 0] Map.empty) written_world"
    using step_write [of 0 "w (InsideFn f) (c0\<lparr>tc_progress := HasRead None\<rparr>) [f \<mapsto> 0] Map.empty" f
        "c0\<lparr>tc_progress := HasRead None\<rparr>" None id id]
    by (simp add: ops c1_def written_world_def f_def io_ok_def written_by_def)
  ultimately show ?thesis by (meson converse_rtranclp_into_rtranclp r_into_rtranclp)
qed

theorem mutations_serialisable_witness:
  "w_files written_world = serial_files id id Map.empty (w_calls written_world)
    \<and> inj_on (\<lambda>i. id (tc_path (w_calls written_world ! i))) {i. \<exists>k. phase_of i (w_queue written_world) = Some (InsideFn k)}"
  by (rule mutations_serialisable [OF written_world_reached]) simp

subsection \<open>Progress\<close>

fun call_work :: "call_phase \<Rightarrow> file_call \<Rightarrow> nat" where
  "call_work Unregistered c = 6"
| "call_work ResolvingKey c = 5"
| "call_work (RejectedKey e) c = 0"
| "call_work (WaitingFor k prev) c = 4"
| "call_work (InsideFn k) c = (case tc_progress c of NotStarted \<Rightarrow> 3 | HasRead b \<Rightarrow> 2 | HasWritten \<Rightarrow> 1)"
| "call_work (SettledCall k) c = 0"

definition world_work :: "tool_world \<Rightarrow> nat" where
  "world_work w = sum_list (map2 call_work (phases (w_queue w)) (w_calls w))"

text \<open>A step of a call that was made.\<close>

definition quiet_step :: "(js_string \<Rightarrow> js_string) \<Rightarrow> (js_string \<Rightarrow> js_string) \<Rightarrow> tool_world \<Rightarrow> tool_world \<Rightarrow> bool" where
  "quiet_step nfkc leads w w' \<longleftrightarrow> tool_step nfkc leads w w' \<and> length (w_calls w') = length (w_calls w)"

lemma work_update:
  assumes "i < length ps" "length ps = length cs" "Suc (call_work p c) = call_work (ps ! i) (cs ! i)"
  shows "Suc (sum_list (map2 call_work (ps[i := p]) (cs[i := c]))) = sum_list (map2 call_work ps cs)"
proof -
  let ?ws = "map2 call_work ps cs"
  have "map2 call_work (ps[i := p]) (cs[i := c]) = ?ws[i := call_work p c]"
    by (simp add: zip_update map_update)
  moreover have "?ws ! i = call_work (ps ! i) (cs ! i)" "i < length ?ws" using assms by simp_all
  moreover have "?ws ! i \<le> sum_list ?ws" using elem_le_sum_list [of i ?ws] assms by simp
  ultimately show ?thesis using sum_list_update [of i ?ws "call_work p c"] assms(3) by simp
qed

lemma world_shape:
  assumes "tools_ok nfkc leads fs w"
  shows "length (phases (w_queue w)) = length (w_calls w)"
    "i < length (w_calls w) \<Longrightarrow> call_ok leads (w_files w) (phases (w_queue w) ! i) (w_calls w ! i)"
  using assms by (auto simp: tools_ok_def list_all2_conv_all_nth)

lemma phase_work:
  assumes "tools_ok nfkc leads fs w" "i < length (w_calls w)" "phases q = (phases (w_queue w))[i := p]"
    and "Suc (call_work p (w_calls w ! i)) = call_work (phases (w_queue w) ! i) (w_calls w ! i)"
  shows "Suc (world_work (w\<lparr>w_queue := q\<rparr>)) = world_work w"
  using work_update [of i "phases (w_queue w)" "w_calls w" p "w_calls w ! i"] world_shape(1) [OF assms(1)] assms
  by (simp add: world_work_def)

lemma progress_work:
  assumes "tools_ok nfkc leads fs w" "i < length (w_calls w)" "phases (w_queue w) ! i = InsideFn k"
    and "Suc (call_work (InsideFn k) c) = call_work (InsideFn k) (w_calls w ! i)"
  shows "Suc (world_work (w\<lparr>w_calls := (w_calls w)[i := c]\<rparr>)) = world_work w"
proof -
  have "(phases (w_queue w))[i := InsideFn k] = phases (w_queue w)" using assms(3) by (metis list_update_id)
  then show ?thesis
    using work_update [of i "phases (w_queue w)" "w_calls w" "InsideFn k" c] world_shape(1) [OF assms(1)] assms
    by (simp add: world_work_def)
qed

lemma no_work:
  assumes "tools_ok nfkc leads fs w"
  shows "world_work w = 0 \<longleftrightarrow> (\<forall>i < length (w_calls w). call_work (phases (w_queue w) ! i) (w_calls w ! i) = 0)"
  using world_shape(1) [OF assms] by (simp add: world_work_def sum_list_eq_0_iff all_set_conv_all_nth del: set_map)

lemma quiet_work:
  assumes "quiet_step nfkc leads w w'" "tools_ok nfkc leads fs w" "\<forall>c \<in> set (w_calls w). keyed_by_file leads fs c"
  shows "Suc (world_work w') = world_work w"
proof -
  have dom: "dom fs \<subseteq> dom (w_files w)" using assms(2) unfolding tools_ok_def by blast
  note len = world_shape(1) [OF assms(2)]
  from assms(1) have "tool_step nfkc leads w w'" "length (w_calls w') = length (w_calls w)" by (auto simp: quiet_step_def)
  then show ?thesis
  proof cases
    case (step_begin i q')
    then show ?thesis using len
      by (auto simp: begin_registration_def phase_of_def set_phase_def split: if_splits intro!: phase_work [OF assms(2)])
  next
    case (step_register i p q')
    have "getMutationQueueKey [] p (realpath leads (w_files w) p) = Inr (leads p)"
      using key_is_file [OF _ dom] assms(3) step_register(2,3) by simp
    with step_register show ?thesis
      by (auto simp: end_registration_def phase_of_def set_phase_def split: if_splits intro!: phase_work [OF assms(2)])
  next
    case (step_enter i q')
    then show ?thesis using len world_shape(2) [OF assms(2), of i]
      by (auto simp: enter_fn_def phase_of_def set_phase_def call_ok_def split: if_splits call_phase.splits
          intro!: phase_work [OF assms(2)])
  next
    case (step_read i k c)
    then show ?thesis by (auto simp: phase_of_def split: if_splits intro!: progress_work [OF assms(2)])
  next
    case (step_write i k c b)
    have "Suc (world_work (w\<lparr>w_calls := (w_calls w)[i := c\<lparr>tc_progress := HasWritten\<rparr>]\<rparr>)) = world_work w"
      using step_write(2-5) by (intro progress_work [OF assms(2)]) (auto simp: phase_of_def split: if_splits)
    then show ?thesis by (simp add: step_write(1) world_work_def)
  next
    case (step_leave i q')
    then show ?thesis using len
      by (auto simp: leave_fn_def phase_of_def set_phase_def split: if_splits call_phase.splits intro!: phase_work [OF assms(2)])
  qed simp
qed

lemma quiet_enabled:
  assumes "tools_ok nfkc leads fs w" "world_work w \<noteq> 0"
  shows "\<exists>w'. quiet_step nfkc leads w w'"
proof -
  let ?ps = "phases (w_queue w)"
  note shape = world_shape [OF assms(1)]
  define busy where "busy i \<longleftrightarrow> i < length (w_calls w) \<and> call_work (?ps ! i) (w_calls w ! i) \<noteq> 0" for i
  have "\<exists>i. busy i" using assms(2) no_work [OF assms(1)] by (auto simp: busy_def)
  then obtain i where i: "busy i" and least: "\<And>j. j < i \<Longrightarrow> \<not> busy j" using exists_least_iff [of busy] by blast
  have len: "i < length (w_calls w)" "i < length ?ps" using i shape(1) by (simp_all add: busy_def)
  have settled: "\<exists>k. ?ps ! j = SettledCall k" if "j < i" for j
    using least [OF that] shape(2) [of j] len that
    by (cases "?ps ! j") (auto simp: busy_def call_ok_def split: tool_progress.splits)
  have reg: "list_all registration_settled (take i ?ps)" using settled len by (fastforce simp: registered_take registration_settled_def)
  have ok: "phase_ok ?ps i" using assms(1) len by (simp add: tools_ok_def mutation_queue_ok_def)
  show ?thesis
  proof (cases "?ps ! i")
    case Unregistered
    then show ?thesis using step_begin [of i w] reg len
      by (fastforce simp: quiet_step_def begin_registration_def phase_of_def)
  next
    case ResolvingKey
    then obtain q where "end_registration i (getMutationQueueKey [] (tc_path (w_calls w ! i)) (realpath leads (w_files w) (tc_path (w_calls w ! i))))
        (w_queue w) = Some q"
      using len by (simp add: end_registration_def phase_of_def)
    from step_register [OF len(1) refl this] show ?thesis by (fastforce simp: quiet_step_def)
  next
    case (WaitingFor k prev)
    have "j < i" if "prev = Some j" for j using ok WaitingFor that by (auto simp: phase_ok_def)
    then have "currentQueue_fulfilled prev (w_queue w)"
      using settled len by (auto simp: currentQueue_fulfilled_def phase_of_def split: option.splits)
    then show ?thesis using step_enter [of i w] WaitingFor len
      by (fastforce simp: quiet_step_def enter_fn_def phase_of_def)
  next
    case (InsideFn k)
    then have inside: "phase_of i (w_queue w) = Some (InsideFn k)" using len by (simp add: phase_of_def)
    show ?thesis
    proof (cases "tc_progress (w_calls w ! i)")
      case NotStarted
      from step_read [OF inside len(1) refl this] show ?thesis by (fastforce simp: quiet_step_def)
    next
      case (HasRead b)
      from step_write [OF inside len(1) refl this] show ?thesis by (fastforce simp: quiet_step_def)
    next
      case HasWritten
      from step_leave [OF len(1) this] inside show ?thesis by (fastforce simp: quiet_step_def leave_fn_def)
    qed
  qed (use i in \<open>simp_all add: busy_def\<close>)
qed

lemma work_done:
  assumes "tools_ok nfkc leads fs w" "world_work w = 0"
  shows "list_all (\<lambda>p. \<exists>k. p = SettledCall k) (phases (w_queue w)) \<and> fileMutationQueues (w_queue w) = (\<lambda>_. None)"
proof -
  note shape = world_shape [OF assms(1)]
  have settled: "\<exists>k. phases (w_queue w) ! i = SettledCall k" if "i < length (w_calls w)" for i
  proof -
    have "call_work (phases (w_queue w) ! i) (w_calls w ! i) = 0"
      using assms(2) that no_work [OF assms(1)] by simp
    then show ?thesis using shape(2) [OF that]
      by (cases "phases (w_queue w) ! i") (auto simp: call_ok_def split: tool_progress.splits)
  qed
  moreover have "fileMutationQueues (w_queue w) k = None" for k
  proof (rule ccontr)
    assume "fileMutationQueues (w_queue w) k \<noteq> None"
    moreover have "tail_ok (phases (w_queue w)) k (fileMutationQueues (w_queue w) k)"
      using assms(1) mutation_queue_okD(2) unfolding tools_ok_def by blast
    ultimately obtain j where "j < length (w_calls w)" "key_of (phases (w_queue w) ! j) = Some k" "phases (w_queue w) ! j \<noteq> SettledCall k"
      using shape(1) by (auto simp: tail_ok_def)
    with settled [of j] show False by auto
  qed
  ultimately show ?thesis using shape(1) by (auto simp: list_all_length fun_eq_iff)
qed

text \<open>Property C40. Calls through the queue come to their ends: from any reachable state the calls that were made take together at most
  six steps for each of them, in whatever order the steps are taken and also when calls fail; while one of them is not through there is a
  step, and when all are, the map of queues is empty, so that nothing is kept of the files that were changed. As for the order of the
  calls, a path has no symbolic links or leads to a file that was there at the start.\<close>

theorem mutations_complete:
  assumes "(tool_step nfkc leads)\<^sup>*\<^sup>* (initial_world fs) w"
    and "\<forall>c \<in> set (w_calls w). leads (tc_path c) = tc_path c \<or> fs (leads (tc_path c)) \<noteq> None"
    and "(quiet_step nfkc leads ^^ n) w w'"
  shows "n \<le> 6 * length (w_calls w)
    \<and> ((\<exists>w''. quiet_step nfkc leads w' w'')
        \<or> list_all (\<lambda>p. \<exists>k. p = SettledCall k) (phases (w_queue w')) \<and> fileMutationQueues (w_queue w') = (\<lambda>_. None))"
proof -
  have "tools_ok nfkc leads fs w' \<and> (\<forall>c \<in> set (w_calls w'). keyed_by_file leads fs c) \<and> n + world_work w' = world_work w"
    using assms(3)
  proof (induction n arbitrary: w')
    case 0
    then show ?case using run_ok [OF assms(1,2)] by simp
  next
    case (Suc n)
    then obtain v where v: "(quiet_step nfkc leads ^^ n) w v" "quiet_step nfkc leads v w'" by auto
    note IH = Suc.IH [OF v(1)]
    have step: "tool_step nfkc leads v w'" "length (w_calls w') = length (w_calls v)" using v(2) by (auto simp: quiet_step_def)
    have "map tc_path (w_calls w') = map tc_path (w_calls v)"
      using step_calls [OF step(1)] step(2) by (metis append_eq_conv_conj length_map take_all_iff order_refl)
    moreover have "keyed_by_file leads fs c = keyed_by_file leads fs c'" if "tc_path c = tc_path c'" for c c'
      using that by (simp add: keyed_by_file_def)
    ultimately have "\<forall>c \<in> set (w_calls w'). keyed_by_file leads fs c"
      using IH by (metis (no_types, lifting) imageE imageI list.set_map)
    with IH quiet_work [OF v(2)] tool_step_ok [OF step(1)] show ?case by fastforce
  qed
  moreover have "world_work w \<le> 6 * length (w_calls w)"
  proof -
    have "call_work p c \<le> 6" for p c by (cases p) (auto split: tool_progress.splits)
    then have "world_work w \<le> (\<Sum>x\<leftarrow>zip (phases (w_queue w)) (w_calls w). 6)"
      unfolding world_work_def by (intro sum_list_mono) auto
    also have "\<dots> = 6 * length (w_calls w)"
      using world_shape(1) run_ok [OF assms(1,2)] by (fastforce simp: sum_list_triv)
    finally show ?thesis .
  qed
  ultimately have "n \<le> 6 * length (w_calls w)" "tools_ok nfkc leads fs w'" by auto
  then show ?thesis using quiet_enabled work_done by blast
qed

text \<open>The first of two calls ends.\<close>

definition released_world :: tool_world where
  "released_world = written_world\<lparr>w_queue := \<lparr>phases = [SettledCall (js ''/f''), Unregistered], fileMutationQueues = (\<lambda>_. None)\<rparr>\<rparr>"

lemma released_step: "quiet_step id id written_world released_world"
  using step_leave [of 0 written_world "w_queue released_world" id id]
  by (simp add: quiet_step_def released_world_def written_world_def leave_fn_def phase_of_def set_phase_def)

theorem mutations_complete_witness:
  "(1::nat) \<le> 6 * length (w_calls written_world)
    \<and> ((\<exists>w''. quiet_step id id released_world w'')
        \<or> list_all (\<lambda>p. \<exists>k. p = SettledCall k) (phases (w_queue released_world))
          \<and> fileMutationQueues (w_queue released_world) = (\<lambda>_. None))"
  by (rule mutations_complete [OF written_world_reached]) (simp_all add: released_step eq_OO)

subsection \<open>Limits\<close>

text \<open>A file that does not exist yet is keyed by the path it is named by: two names that lead to it give two keys, and the
  calls are not kept apart.\<close>

theorem missing_file_keyed_by_name:
  assumes "leads p = r" "leads p' = r" "p \<noteq> p'" "fs r = None" "resolve_path [] [] p = p" "resolve_path [] [] p' = p'"
  shows "getMutationQueueKey [] p (realpath leads fs p) \<noteq> getMutationQueueKey [] p' (realpath leads fs p')"
  using assms by (simp add: getMutationQueueKey_def realpath_def isMissingPathError_def)

text \<open>What the write tool reports as bytes is the number of UTF-16 code units.\<close>

theorem write_reports_code_units:
  "fst (write_execute io_ok (\<lambda>k. False) [0xe9] p fs) = Inr 1
    \<and> map_option length (snd (write_execute io_ok (\<lambda>k. False) [0xe9] p fs) p) = Some 2"
  by (simp add: write_execute_def io_ok_def write_file_def written_by_def textEncoder_encode_def high_surrogate_def low_surrogate_def scalar_utf8_def)

end
