(* ===== verification/LiveSessions.thy ===== *)
theory LiveSessions
  imports JsMap JsText
begin

text \<open>
  \<^verbatim>\<open>packages/server/src/sessions.ts\<close>, \<open>LiveSessionManager\<close>: which sessions are live, which connections they have, and when
  their runtimes are acquired and disposed. Each asynchronous method is cut at its \<open>await\<close>s into steps that other
  code may come between; a step is \<open>None\<close> where the code would still be waiting. A \<open>LiveSession\<close> is named by its place in
  \<open>lives\<close>, since the code compares objects, a call of \<open>create\<close> by its place in \<open>openings\<close> and a connection by its
  place in \<open>conns\<close>. What the runtime reports (its phase, its events, whether its snapshot has the right id) is an argument
  of the step. Snapshots, summaries and the events sent to the connections do not change this state and are left
  out.
\<close>

record live_session =
  l_id :: js_string
  l_connections :: "nat list"
  l_operationCount :: nat
  l_terminal :: bool
  l_disposing :: bool
  l_disposed :: bool
  l_idle :: bool

record connection_state =
  sessionIds :: "js_string list"
  c_ready :: bool
  c_disconnected :: bool
  c_closed :: bool

datatype opening_phase =
    AcquiringRuntime
  | CheckingSnapshot
  | DisposingRuntime
  | OpenedLive nat
  | OpeningFailed

record session_opening =
  o_id :: js_string
  o_phase :: opening_phase

datatype command_error = SessionLocked | InvalidRequest | NotFound | OpeningError

datatype command_phase =
    AwaitDisposing js_string nat
  | AwaitOpening nat bool
  | Acquired nat
  | AttachedTo nat
  | Broadcasting nat
  | Detached
  | Operating nat
  | CommandFailed command_error

record command_process =
  cp_connection :: nat
  cp_phase :: command_phase

record manager =
  lives :: "live_session list"
  liveSessions :: "js_string \<Rightarrow> nat option"
  openings :: "session_opening list"
  openingSessions :: "js_string \<Rightarrow> nat option"
  conns :: "connection_state list"
  commands :: "command_process list"
  m_closing :: bool

definition new_manager :: manager where
  "new_manager = \<lparr>lives = [], liveSessions = (\<lambda>_. None), openings = [], openingSessions = (\<lambda>_. None), conns = [], commands = [],
     m_closing = False\<rparr>"

definition connection_add :: "'a \<Rightarrow> 'a list \<Rightarrow> 'a list" where
  "connection_add x xs = (if x \<in> set xs then xs else xs @ [x])"

definition update_live :: "nat \<Rightarrow> (live_session \<Rightarrow> live_session) \<Rightarrow> manager \<Rightarrow> manager" where
  "update_live r f m = m\<lparr>lives := (lives m)[r := f (lives m ! r)]\<rparr>"

definition update_conn :: "nat \<Rightarrow> (connection_state \<Rightarrow> connection_state) \<Rightarrow> manager \<Rightarrow> manager" where
  "update_conn c f m = m\<lparr>conns := (conns m)[c := f (conns m ! c)]\<rparr>"

definition set_command :: "nat \<Rightarrow> command_phase \<Rightarrow> manager \<Rightarrow> manager" where
  "set_command n p m = m\<lparr>commands := (commands m)[n := (commands m ! n)\<lparr>cp_phase := p\<rparr>]\<rparr>"

definition command_at :: "nat \<Rightarrow> manager \<Rightarrow> command_phase option" where
  "command_at n m = (if n < length (commands m) then Some (cp_phase (commands m ! n)) else None)"

definition set_opening :: "nat \<Rightarrow> opening_phase \<Rightarrow> manager \<Rightarrow> manager" where
  "set_opening i p m = m\<lparr>openings := (openings m)[i := (openings m ! i)\<lparr>o_phase := p\<rparr>]\<rparr>"

definition opening_at :: "nat \<Rightarrow> manager \<Rightarrow> opening_phase option" where
  "opening_at i m = (if i < length (openings m) then Some (o_phase (openings m ! i)) else None)"

subsection \<open>Disposing\<close>

text \<open>\<open>maybeDispose\<close> up to its \<open>await\<close>, and what follows when \<open>runtime.dispose()\<close> has settled. A live session in \<open>lives\<close> is
  ready, since \<open>create\<close> sets \<open>ready\<close> in the same step.\<close>

definition keeps_live :: "manager \<Rightarrow> live_session \<Rightarrow> bool" where
  "keeps_live m l \<longleftrightarrow> m_closing m \<or> l_disposing l \<or> l_connections l \<noteq> [] \<or> l_operationCount l > 0 \<or> (\<not> l_terminal l \<and> \<not> l_idle l)"

definition maybeDispose :: "nat \<Rightarrow> manager \<Rightarrow> manager" where
  "maybeDispose r m = (if keeps_live m (lives m ! r) then m else update_live r (\<lambda>l. l\<lparr>l_disposing := True\<rparr>) m)"

definition runtime_disposed :: "nat \<Rightarrow> manager \<Rightarrow> manager option" where
  "runtime_disposed r m =
     (if r < length (lives m) \<and> l_disposing (lives m ! r) \<and> \<not> l_disposed (lives m ! r)
      then let sid = l_id (lives m ! r) in
           Some ((update_live r (\<lambda>l. l\<lparr>l_disposed := True\<rparr>) m)
             \<lparr>liveSessions := (if liveSessions m sid = Some r then (liveSessions m)(sid := None) else liveSessions m)\<rparr>)
      else None)"

subsection \<open>Acquiring\<close>

text \<open>A turn of the loop of \<open>acquire\<close> up to the next \<open>await\<close> or the end. \<open>create\<close> is called in the same turn, and with it
  \<open>acquireRuntime\<close>.\<close>

definition acquire_turn :: "nat \<Rightarrow> js_string \<Rightarrow> manager \<Rightarrow> manager" where
  "acquire_turn n sid m =
     (case liveSessions m sid of
        Some r \<Rightarrow>
          if l_terminal (lives m ! r) then set_command n (CommandFailed SessionLocked) m
          else if l_disposing (lives m ! r) then set_command n (AwaitDisposing sid r) m
          else set_command n (Acquired r) m
      | None \<Rightarrow>
          (case openingSessions m sid of
             Some i \<Rightarrow> set_command n (AwaitOpening i False) m
           | None \<Rightarrow>
               (set_command n (AwaitOpening (length (openings m)) True) m)
                 \<lparr>openings := openings m @ [\<lparr>o_id = sid, o_phase = AcquiringRuntime\<rparr>],
                  openingSessions := (openingSessions m)(sid \<mapsto> length (openings m))\<rparr>))"

text \<open>The disposal that was waited for has settled: it resolved, and the loop turns again, or it was rejected.\<close>

definition disposing_awaited :: "nat \<Rightarrow> bool \<Rightarrow> manager \<Rightarrow> manager option" where
  "disposing_awaited n ok m =
     (case command_at n m of
        Some (AwaitDisposing sid r) \<Rightarrow>
          if l_disposed (lives m ! r) then Some (if ok then acquire_turn n sid m else set_command n (CommandFailed OpeningError) m) else None
      | _ \<Rightarrow> None)"

text \<open>\<open>create\<close>: the runtime was acquired or not; its snapshot came or not, with the right id or not; the runtime was disposed
  after a failure.\<close>

definition runtime_acquired :: "nat \<Rightarrow> bool \<Rightarrow> manager \<Rightarrow> manager option" where
  "runtime_acquired i ok m =
     (if opening_at i m = Some AcquiringRuntime
      then Some (set_opening i (if \<not> ok then OpeningFailed else if m_closing m then DisposingRuntime else CheckingSnapshot) m)
      else None)"

definition snapshot_checked :: "nat \<Rightarrow> bool \<Rightarrow> bool \<Rightarrow> manager \<Rightarrow> manager option" where
  "snapshot_checked i ok idle m =
     (if opening_at i m = Some CheckingSnapshot
      then Some (if \<not> ok then set_opening i DisposingRuntime m
        else let sid = o_id (openings m ! i); r = length (lives m) in
          (set_opening i (OpenedLive r) m)
            \<lparr>lives := lives m @ [\<lparr>l_id = sid, l_connections = [], l_operationCount = 0, l_terminal = False, l_disposing = False,
                                  l_disposed = False, l_idle = idle\<rparr>],
             liveSessions := (liveSessions m)(sid \<mapsto> r)\<rparr>)
      else None)"

definition failed_runtime_disposed :: "nat \<Rightarrow> manager \<Rightarrow> manager option" where
  "failed_runtime_disposed i m =
     (if opening_at i m = Some DisposingRuntime then Some (set_opening i OpeningFailed m) else None)"

text \<open>The promise of an opening has settled; the call that made it removes it from the map.\<close>

definition opening_awaited :: "nat \<Rightarrow> manager \<Rightarrow> manager option" where
  "opening_awaited n m =
     (case command_at n m of
        Some (AwaitOpening i creator) \<Rightarrow>
          (let sid = o_id (openings m ! i);
               m' = m\<lparr>openingSessions := (if creator \<and> openingSessions m sid = Some i then (openingSessions m)(sid := None)
                                          else openingSessions m)\<rparr>
           in case opening_at i m of
                Some (OpenedLive r) \<Rightarrow> Some (set_command n (Acquired r) m')
              | Some OpeningFailed \<Rightarrow> Some (set_command n (CommandFailed OpeningError) m')
              | _ \<Rightarrow> None)
      | _ \<Rightarrow> None)"

subsection \<open>Commands\<close>

definition attach_connection :: "nat \<Rightarrow> manager \<Rightarrow> manager option" where
  "attach_connection n m =
     (case command_at n m of
        Some (Acquired r) \<Rightarrow>
          (let c = cp_connection (commands m ! n); s = conns m ! c in
           if c_disconnected s \<or> \<not> c_ready s \<or> c_closed s
           then Some (set_command n (CommandFailed InvalidRequest) (maybeDispose r m))
           else Some (set_command n (AttachedTo r)
             (update_live r (\<lambda>l. l\<lparr>l_connections := connection_add c (l_connections l)\<rparr>)
               (update_conn c (\<lambda>s. s\<lparr>sessionIds := connection_add (l_id (lives m ! r)) (sessionIds s)\<rparr>) m))))
      | _ \<Rightarrow> None)"

text \<open>The commands attach and create; \<open>id\<close> is the requested id or a fresh one. The phase of the new command is set in the
  first turn of the loop.\<close>

definition begin_acquire :: "nat \<Rightarrow> js_string \<Rightarrow> manager \<Rightarrow> manager" where
  "begin_acquire c sid m =
     acquire_turn (length (commands m)) sid (m\<lparr>commands := commands m @ [\<lparr>cp_connection = c, cp_phase = Detached\<rparr>]\<rparr>)"

text \<open>The command detach: while connections remain, they are sent a snapshot before \<open>maybeDispose\<close>.\<close>

definition detach_session :: "nat \<Rightarrow> js_string \<Rightarrow> manager \<Rightarrow> manager" where
  "detach_session c sid m =
     (if sid \<in> set (sessionIds (conns m ! c)) then
        (let m' = update_conn c (\<lambda>s. s\<lparr>sessionIds := remove1 sid (sessionIds s)\<rparr>) m in
         case liveSessions m sid of
           None \<Rightarrow> m'
         | Some r \<Rightarrow>
             (let m'' = update_live r (\<lambda>l. l\<lparr>l_connections := remove1 c (l_connections l)\<rparr>) m'; l = lives m'' ! r in
              if l_connections l \<noteq> [] \<and> \<not> l_terminal l \<and> \<not> l_disposing l
              then m''\<lparr>commands := commands m @ [\<lparr>cp_connection = c, cp_phase = Broadcasting r\<rparr>]\<rparr>
              else maybeDispose r m''))
      else m)"

definition detach_broadcast :: "nat \<Rightarrow> manager \<Rightarrow> manager option" where
  "detach_broadcast n m =
     (case command_at n m of
        Some (Broadcasting r) \<Rightarrow> Some (set_command n Detached (maybeDispose r m))
      | _ \<Rightarrow> None)"

definition requireAttached :: "nat \<Rightarrow> js_string \<Rightarrow> manager \<Rightarrow> command_error + nat" where
  "requireAttached c sid m =
     (if sid \<notin> set (sessionIds (conns m ! c)) then Inl InvalidRequest
      else case liveSessions m sid of
        None \<Rightarrow> Inl NotFound
      | Some r \<Rightarrow> if l_terminal (lives m ! r) \<or> l_disposing (lives m ! r) then Inl NotFound else Inr r)"

text \<open>The commands prompt, steer, abort, set_model and set_thinking, up to the operation of the runtime, and its end.\<close>

definition begin_operation :: "nat \<Rightarrow> js_string \<Rightarrow> manager \<Rightarrow> manager" where
  "begin_operation c sid m =
     (case requireAttached c sid m of
        Inl e \<Rightarrow> m\<lparr>commands := commands m @ [\<lparr>cp_connection = c, cp_phase = CommandFailed e\<rparr>]\<rparr>
      | Inr r \<Rightarrow> (update_live r (\<lambda>l. l\<lparr>l_operationCount := l_operationCount l + 1\<rparr>) m)
          \<lparr>commands := commands m @ [\<lparr>cp_connection = c, cp_phase = Operating r\<rparr>]\<rparr>)"

definition end_operation :: "nat \<Rightarrow> manager \<Rightarrow> manager option" where
  "end_operation n m =
     (case command_at n m of
        Some (Operating r) \<Rightarrow>
          Some (maybeDispose r (update_live r (\<lambda>l. l\<lparr>l_operationCount := l_operationCount l - 1\<rparr>) (set_command n (AttachedTo r) m)))
      | _ \<Rightarrow> None)"

subsection \<open>Connections and runtime events\<close>

definition accept_connection :: "manager \<Rightarrow> manager" where
  "accept_connection m =
     m\<lparr>conns := conns m @ [\<lparr>sessionIds = [], c_ready = False, c_disconnected = False, c_closed = False\<rparr>]\<rparr>"

definition live_refs :: "js_string list \<Rightarrow> manager \<Rightarrow> nat list" where
  "live_refs ids m = List.map_filter (liveSessions m) ids"

text \<open>\<open>disconnect\<close> of the server and of the manager.\<close>

definition disconnect_connection :: "nat \<Rightarrow> manager \<Rightarrow> manager" where
  "disconnect_connection c m =
     (if c_disconnected (conns m ! c) then m
      else let rs = live_refs (sessionIds (conns m ! c)) m;
               m' = update_conn c (\<lambda>s. s\<lparr>sessionIds := [], c_disconnected := True, c_ready := False\<rparr>) m;
               m'' = foldl (\<lambda>m r. update_live r (\<lambda>l. l\<lparr>l_connections := remove1 c (l_connections l)\<rparr>) m) m' rs
           in foldl (\<lambda>m r. maybeDispose r m) m'' rs)"

text \<open>A snapshot or progress event of the runtime.\<close>

definition runtime_event :: "nat \<Rightarrow> manager \<Rightarrow> manager" where
  "runtime_event r m = maybeDispose r m"

text \<open>An error event: \<open>terminate\<close> up to the closing of the connections, which are then disconnected, and its end.\<close>

definition terminate_session :: "nat \<Rightarrow> manager \<Rightarrow> manager" where
  "terminate_session r m =
     (if l_terminal (lives m ! r) then m
      else (update_live r (\<lambda>l. l\<lparr>l_terminal := True\<rparr>) m)
        \<lparr>conns := map (\<lambda>(c, s). if c \<in> set (l_connections (lives m ! r)) then s\<lparr>c_closed := True\<rparr> else s)
                    (zip [0..<length (conns m)] (conns m))\<rparr>)"

text \<open>\<open>close\<close>, after the server has set \<open>closing\<close> and the openings have settled: no session is live any more, and the
  runtimes that are not being disposed are disposed.\<close>

definition close_sessions :: "manager \<Rightarrow> manager option" where
  "close_sessions m = (if m_closing m then Some (m\<lparr>liveSessions := (\<lambda>_. None)\<rparr>) else None)"

definition closed_runtime_disposed :: "nat \<Rightarrow> manager \<Rightarrow> manager option" where
  "closed_runtime_disposed r m =
     (if m_closing m \<and> r < length (lives m) \<and> \<not> l_disposing (lives m ! r) \<and> liveSessions m (l_id (lives m ! r)) \<noteq> Some r
      then Some (update_live r (\<lambda>l. l\<lparr>l_disposed := True\<rparr>) m)
      else None)"

inductive manager_step :: "manager \<Rightarrow> manager \<Rightarrow> bool" where
  m_accept: "manager_step m (accept_connection m)"
| m_ready: "c < length (conns m) \<Longrightarrow> \<not> c_disconnected (conns m ! c) \<Longrightarrow>
    manager_step m (update_conn c (\<lambda>s. s\<lparr>c_ready := True\<rparr>) m)"
| m_failing: "c < length (conns m) \<Longrightarrow> manager_step m (update_conn c (\<lambda>s. s\<lparr>c_ready := False\<rparr>) m)"
| m_closed: "c < length (conns m) \<Longrightarrow> manager_step m (update_conn c (\<lambda>s. s\<lparr>c_closed := True\<rparr>) m)"
| m_acquire: "c < length (conns m) \<Longrightarrow> c_ready (conns m ! c) \<Longrightarrow> manager_step m (begin_acquire c sid m)"
| m_awaited: "disposing_awaited n ok m = Some m' \<Longrightarrow> manager_step m m'"
| m_runtime: "runtime_acquired i ok m = Some m' \<Longrightarrow> manager_step m m'"
| m_snapshot: "snapshot_checked i ok idle m = Some m' \<Longrightarrow> manager_step m m'"
| m_failed: "failed_runtime_disposed i m = Some m' \<Longrightarrow> manager_step m m'"
| m_opened: "opening_awaited n m = Some m' \<Longrightarrow> manager_step m m'"
| m_attach: "attach_connection n m = Some m' \<Longrightarrow> manager_step m m'"
| m_detach: "c < length (conns m) \<Longrightarrow> c_ready (conns m ! c) \<Longrightarrow> manager_step m (detach_session c sid m)"
| m_detached: "detach_broadcast n m = Some m' \<Longrightarrow> manager_step m m'"
| m_operate: "c < length (conns m) \<Longrightarrow> c_ready (conns m ! c) \<Longrightarrow> manager_step m (begin_operation c sid m)"
| m_operated: "end_operation n m = Some m' \<Longrightarrow> manager_step m m'"
| m_disconnect: "c < length (conns m) \<Longrightarrow> manager_step m (disconnect_connection c m)"
| m_phase: "r < length (lives m) \<Longrightarrow> manager_step m (update_live r (\<lambda>l. l\<lparr>l_idle := idle\<rparr>) m)"
| m_event: "r < length (lives m) \<Longrightarrow> \<not> l_terminal (lives m ! r) \<Longrightarrow> \<not> l_disposing (lives m ! r) \<Longrightarrow>
    manager_step m (runtime_event r m)"
| m_terminate: "r < length (lives m) \<Longrightarrow> \<not> l_disposing (lives m ! r) \<Longrightarrow> manager_step m (terminate_session r m)"
| m_terminated: "r < length (lives m) \<Longrightarrow> l_terminal (lives m ! r) \<Longrightarrow> manager_step m (maybeDispose r m)"
| m_disposed: "runtime_disposed r m = Some m' \<Longrightarrow> manager_step m m'"
| m_closing: "manager_step m (m\<lparr>m_closing := True\<rparr>)"
| m_close: "close_sessions m = Some m' \<Longrightarrow> manager_step m m'"
| m_close_disposed: "closed_runtime_disposed r m = Some m' \<Longrightarrow> manager_step m m'"

inductive_cases manager_stepE: "manager_step m m'"

end
