(* ===== verification/LiveSessionFacts.thy ===== *)
theory LiveSessionFacts
  imports LiveSessions
begin

text \<open>
  What the manager of live sessions keeps: a session has at most one runtime at a time, from the call that acquires it to the
  end of its disposal, and no runtime is disposed under a running operation. The last part has the race in which a
  connection is attached to a session that is already being disposed.
\<close>

subsection \<open>Who has a runtime\<close>

definition in_progress :: "opening_phase \<Rightarrow> bool" where
  "in_progress p \<longleftrightarrow> p = AcquiringRuntime \<or> p = CheckingSnapshot \<or> p = DisposingRuntime"

text \<open>Those that hold a runtime of a session: the calls of \<open>create\<close> that have not settled and the live sessions whose runtime
  has not been disposed.\<close>

definition runtime_holders :: "manager \<Rightarrow> js_string \<Rightarrow> (nat + nat) set" where
  "runtime_holders m sid =
     Inl ` {i. i < length (openings m) \<and> o_id (openings m ! i) = sid \<and> in_progress (o_phase (openings m ! i))}
     \<union> Inr ` {r. r < length (lives m) \<and> l_id (lives m ! r) = sid \<and> \<not> l_disposed (lives m ! r)}"

definition sessions_ok :: "manager \<Rightarrow> bool" where
  "sessions_ok m \<longleftrightarrow>
     (\<forall>sid r. liveSessions m sid = Some r \<longrightarrow> r < length (lives m) \<and> l_id (lives m ! r) = sid)
     \<and> (\<forall>r < length (lives m). \<not> l_disposed (lives m ! r) \<longrightarrow> liveSessions m (l_id (lives m ! r)) = Some r)
     \<and> (\<forall>i < length (openings m). in_progress (o_phase (openings m ! i)) \<longrightarrow>
          openingSessions m (o_id (openings m ! i)) = Some i \<and> liveSessions m (o_id (openings m ! i)) = None)"

text \<open>The running operations of a live session.\<close>

definition running :: "manager \<Rightarrow> nat \<Rightarrow> nat" where
  "running m r = count_list (map cp_phase (commands m)) (Operating r)"

definition live_ok :: "manager \<Rightarrow> nat \<Rightarrow> bool" where
  "live_ok m r \<longleftrightarrow>
     (if r < length (lives m)
      then l_operationCount (lives m ! r) = running m r \<and> (l_disposing (lives m ! r) \<longrightarrow> running m r = 0)
      else running m r = 0)"

definition operations_ok :: "manager \<Rightarrow> bool" where
  "operations_ok m \<longleftrightarrow> (\<forall>r. live_ok m r)"

lemma length_update_live [simp]: "length (lives (update_live r f m)) = length (lives m)"
  by (simp add: update_live_def)

lemma nth_update_live:
  "r' < length (lives m) \<Longrightarrow> lives (update_live r f m) ! r' = (if r' = r then f (lives m ! r) else lives m ! r')"
  by (auto simp: update_live_def)

lemma update_live_simps [simp]:
  "commands (update_live r f m) = commands m" "liveSessions (update_live r f m) = liveSessions m"
  "openings (update_live r f m) = openings m" "openingSessions (update_live r f m) = openingSessions m"
  "m_closing (update_live r f m) = m_closing m" "conns (update_live r f m) = conns m"
  "running (update_live r f m) = running m"
  by (simp_all add: update_live_def running_def fun_eq_iff)

lemma sessions_ok_live:
  assumes "sessions_ok m" "liveSessions m sid = Some r"
  shows "r < length (lives m)" "l_id (lives m ! r) = sid"
  using assms unfolding sessions_ok_def by blast+

lemma sessions_ok_undisposed:
  assumes "sessions_ok m" "r < length (lives m)" "\<not> l_disposed (lives m ! r)"
  shows "liveSessions m (l_id (lives m ! r)) = Some r"
  using assms unfolding sessions_ok_def by blast

lemma sessions_ok_opening:
  assumes "sessions_ok m" "i < length (openings m)" "in_progress (o_phase (openings m ! i))"
  shows "openingSessions m (o_id (openings m ! i)) = Some i" "liveSessions m (o_id (openings m ! i)) = None"
  using assms unfolding sessions_ok_def by blast+

lemma sessions_okI:
  assumes "\<And>sid r. liveSessions m sid = Some r \<Longrightarrow> r < length (lives m) \<and> l_id (lives m ! r) = sid"
    "\<And>r. r < length (lives m) \<Longrightarrow> \<not> l_disposed (lives m ! r) \<Longrightarrow> liveSessions m (l_id (lives m ! r)) = Some r"
    "\<And>i. i < length (openings m) \<Longrightarrow> in_progress (o_phase (openings m ! i)) \<Longrightarrow>
       openingSessions m (o_id (openings m ! i)) = Some i \<and> liveSessions m (o_id (openings m ! i)) = None"
  shows "sessions_ok m"
  using assms unfolding sessions_ok_def by blast

lemma holder_Inl:
  assumes "sessions_ok m" "Inl i \<in> runtime_holders m sid"
  shows "openingSessions m sid = Some i \<and> liveSessions m sid = None"
proof -
  have i: "i < length (openings m)" "o_id (openings m ! i) = sid" "in_progress (o_phase (openings m ! i))"
    using assms(2) by (auto simp: runtime_holders_def)
  from sessions_ok_opening [OF assms(1) i(1,3)] i(2) show ?thesis by simp
qed

lemma holder_Inr:
  assumes "sessions_ok m" "Inr r \<in> runtime_holders m sid"
  shows "liveSessions m sid = Some r"
proof -
  have r: "r < length (lives m)" "l_id (lives m ! r) = sid" "\<not> l_disposed (lives m ! r)"
    using assms(2) by (auto simp: runtime_holders_def)
  from sessions_ok_undisposed [OF assms(1) r(1,3)] r(2) show ?thesis by simp
qed

lemma sessions_exclusive:
  assumes "sessions_ok m"
  shows "\<exists>h. runtime_holders m sid \<subseteq> {h}"
proof -
  have "x = y" if "x \<in> runtime_holders m sid" "y \<in> runtime_holders m sid" for x y
    using that holder_Inl [OF assms] holder_Inr [OF assms] by (cases x; cases y) fastforce+
  then show ?thesis by blast
qed

subsection \<open>Steps that leave the sessions as they are\<close>

definition shape :: "manager \<Rightarrow> (js_string \<times> bool) list \<times> (js_string \<Rightarrow> nat option) \<times> session_opening list \<times> (js_string \<Rightarrow> nat option)" where
  "shape m = (map (\<lambda>l. (l_id l, l_disposed l)) (lives m), liveSessions m, openings m, openingSessions m)"

lemma nth_map_eq: "map f xs = map f ys \<Longrightarrow> i < length ys \<Longrightarrow> f (xs ! i) = f (ys ! i)"
  by (metis length_map nth_map)

lemma shape_sessions_ok:
  assumes "shape m' = shape m" "sessions_ok m"
  shows "sessions_ok m'"
proof -
  have maps: "map (\<lambda>l. (l_id l, l_disposed l)) (lives m') = map (\<lambda>l. (l_id l, l_disposed l)) (lives m)"
    and eq: "liveSessions m' = liveSessions m" "openings m' = openings m" "openingSessions m' = openingSessions m"
    using assms(1) by (auto simp: shape_def)
  have len: "length (lives m') = length (lives m)" using maps by (metis length_map)
  have nth: "l_id (lives m' ! r) = l_id (lives m ! r)" "l_disposed (lives m' ! r) = l_disposed (lives m ! r)"
    if "r < length (lives m)" for r
    using nth_map_eq [OF maps that] by simp_all
  show ?thesis
  proof (rule sessions_okI, unfold eq len)
    show "r < length (lives m) \<and> l_id (lives m' ! r) = sid" if "liveSessions m sid = Some r" for sid r
      using sessions_ok_live [OF assms(2) that] nth(1) by simp
    show "liveSessions m (l_id (lives m' ! r)) = Some r" if "r < length (lives m)" "\<not> l_disposed (lives m' ! r)" for r
      using sessions_ok_undisposed [OF assms(2) that(1)] nth [OF that(1)] that(2) by simp
    show "openingSessions m (o_id (openings m ! i)) = Some i \<and> liveSessions m (o_id (openings m ! i)) = None"
      if "i < length (openings m)" "in_progress (o_phase (openings m ! i))" for i
      using sessions_ok_opening [OF assms(2) that] by simp
  qed
qed

lemma shape_update_live:
  assumes "\<And>l. l_id (f l) = l_id l" "\<And>l. l_disposed (f l) = l_disposed l"
  shows "shape (update_live r f m) = shape m"
proof -
  have "map (\<lambda>l. (l_id l, l_disposed l)) ((lives m)[r := f (lives m ! r)]) = map (\<lambda>l. (l_id l, l_disposed l)) (lives m)"
    by (cases "r < length (lives m)") (simp_all add: map_update assms list_update_same_conv list_update_beyond)
  then show ?thesis by (simp add: shape_def update_live_def)
qed

lemma shape_simps [simp]:
  "shape (update_conn c g m) = shape m" "shape (set_command n p m) = shape m" "shape (maybeDispose r m) = shape m"
  "shape (m\<lparr>commands := cs\<rparr>) = shape m" "shape (m\<lparr>conns := ks\<rparr>) = shape m" "shape (m\<lparr>m_closing := b\<rparr>) = shape m"
  "shape (update_live r (\<lambda>l. l\<lparr>l_connections := ks' l\<rparr>) m) = shape m"
  "shape (update_live r (\<lambda>l. l\<lparr>l_operationCount := n' l\<rparr>) m) = shape m"
  "shape (update_live r (\<lambda>l. l\<lparr>l_idle := b\<rparr>) m) = shape m" "shape (update_live r (\<lambda>l. l\<lparr>l_terminal := b\<rparr>) m) = shape m"
  by (simp_all add: maybeDispose_def shape_update_live) (simp_all add: shape_def update_conn_def set_command_def)

lemma shape_fold: "(\<And>m r. shape (f m r) = shape m) \<Longrightarrow> shape (foldl f m rs) = shape m"
  by (induction rs arbitrary: m) simp_all

subsection \<open>Steps that leave the operations as they are\<close>

definition tally :: "manager \<Rightarrow> (nat \<times> bool) list \<times> (nat \<Rightarrow> nat)" where
  "tally m = (map (\<lambda>l. (l_operationCount l, l_disposing l)) (lives m), running m)"

lemma tally_operations_ok:
  assumes "tally m' = tally m" "operations_ok m"
  shows "operations_ok m'"
proof -
  have maps: "map (\<lambda>l. (l_operationCount l, l_disposing l)) (lives m') = map (\<lambda>l. (l_operationCount l, l_disposing l)) (lives m)"
    and eq: "running m' = running m"
    using assms(1) by (auto simp: tally_def)
  have len: "length (lives m') = length (lives m)" using maps by (metis length_map)
  have nth: "l_operationCount (lives m' ! r) = l_operationCount (lives m ! r)" "l_disposing (lives m' ! r) = l_disposing (lives m ! r)"
    if "r < length (lives m)" for r
    using nth_map_eq [OF maps that] by simp_all
  show ?thesis using assms(2) by (simp add: operations_ok_def live_ok_def eq len nth)
qed

lemma tally_update_live:
  assumes "\<And>l. l_operationCount (f l) = l_operationCount l" "\<And>l. l_disposing (f l) = l_disposing l"
  shows "tally (update_live r f m) = tally m"
proof -
  have "map (\<lambda>l. (l_operationCount l, l_disposing l)) ((lives m)[r := f (lives m ! r)])
      = map (\<lambda>l. (l_operationCount l, l_disposing l)) (lives m)"
    by (cases "r < length (lives m)") (simp_all add: map_update assms list_update_same_conv list_update_beyond)
  then show ?thesis by (simp add: tally_def update_live_def running_def fun_eq_iff)
qed

lemma count_list_update:
  "i < length xs \<Longrightarrow> count_list (xs[i := y]) z + (if xs ! i = z then 1 else 0) = count_list xs z + (if y = z then 1 else 0)"
proof (induction xs arbitrary: i)
  case (Cons x xs)
  show ?case
  proof (cases i)
    case (Suc k)
    with Cons.IH [of k] Cons.prems show ?thesis by (cases "y = z"; cases "xs ! k = z"; auto)
  qed simp
qed simp

definition is_operating :: "command_phase \<Rightarrow> bool" where
  "is_operating p \<longleftrightarrow> (\<exists>r. p = Operating r)"

lemma running_set_command:
  assumes "command_at n m = Some p"
  shows "running (set_command n p' m) r + (if p = Operating r then 1 else 0) = running m r + (if p' = Operating r then 1 else 0)"
  using assms count_list_update [of n "map cp_phase (commands m)" p' "Operating r"]
  by (simp add: running_def set_command_def command_at_def map_update split: if_splits)

lemma tally_set_command:
  assumes "command_at n m = Some p" "\<not> is_operating p" "\<not> is_operating p'"
  shows "tally (set_command n p' m) = tally m"
proof -
  have "running (set_command n p' m) r = running m r" for r
    using running_set_command [OF assms(1), of p' r] assms(2,3) by (auto simp: is_operating_def)
  then show ?thesis by (simp add: tally_def set_command_def fun_eq_iff)
qed

lemma tally_simps [simp]:
  "tally (update_conn c g m) = tally m" "tally (set_opening i p m) = tally m" "tally (m\<lparr>conns := ks\<rparr>) = tally m"
  "tally (m\<lparr>openings := os\<rparr>) = tally m" "tally (m\<lparr>openingSessions := oss\<rparr>) = tally m" "tally (m\<lparr>m_closing := b\<rparr>) = tally m"
  "tally (m\<lparr>liveSessions := ls\<rparr>) = tally m"
  "tally (update_live r (\<lambda>l. l\<lparr>l_connections := ks' l\<rparr>) m) = tally m" "tally (update_live r (\<lambda>l. l\<lparr>l_disposed := b\<rparr>) m) = tally m"
  "tally (update_live r (\<lambda>l. l\<lparr>l_idle := b\<rparr>) m) = tally m" "tally (update_live r (\<lambda>l. l\<lparr>l_terminal := b\<rparr>) m) = tally m"
  by (simp_all add: tally_update_live) (simp_all add: tally_def running_def update_conn_def set_opening_def fun_eq_iff)

lemma maybeDispose_operations_ok:
  assumes "operations_ok m"
  shows "operations_ok (maybeDispose r m)"
proof (cases "keeps_live m (lives m ! r)")
  case True
  with assms show ?thesis by (simp add: maybeDispose_def)
next
  case False
  then have "l_operationCount (lives m ! r) = 0" by (simp add: keeps_live_def)
  with False assms show ?thesis
    by (auto simp: maybeDispose_def operations_ok_def live_ok_def nth_update_live split: if_splits)
qed

lemma maybeDispose_fold_ok: "operations_ok m \<Longrightarrow> operations_ok (foldl (\<lambda>m r. maybeDispose r m) m rs)"
  by (induction rs arbitrary: m) (simp_all add: maybeDispose_operations_ok)

lemma tally_fold: "(\<And>m r. tally (f m r) = tally m) \<Longrightarrow> tally (foldl f m rs) = tally m"
  by (induction rs arbitrary: m) simp_all

subsection \<open>The sessions after each step\<close>

lemma set_opening_sessions_ok:
  assumes ok: "sessions_ok m" and p: "in_progress p \<Longrightarrow> in_progress (o_phase (openings m ! i))"
  shows "sessions_ok (set_opening i p m)"
proof (rule sessions_okI)
  fix sid r assume "liveSessions (set_opening i p m) sid = Some r"
  then show "r < length (lives (set_opening i p m)) \<and> l_id (lives (set_opening i p m) ! r) = sid"
    using sessions_ok_live [OF ok] by (simp add: set_opening_def)
next
  fix r assume "r < length (lives (set_opening i p m))" "\<not> l_disposed (lives (set_opening i p m) ! r)"
  then show "liveSessions (set_opening i p m) (l_id (lives (set_opening i p m) ! r)) = Some r"
    using sessions_ok_undisposed [OF ok] by (simp add: set_opening_def)
next
  fix j assume j: "j < length (openings (set_opening i p m))" "in_progress (o_phase (openings (set_opening i p m) ! j))"
  have "j < length (openings m)" "in_progress (o_phase (openings m ! j))"
    "o_id (openings (set_opening i p m) ! j) = o_id (openings m ! j)"
    using j p by (cases "j = i"; force simp: set_opening_def)+
  with sessions_ok_opening [OF ok] show "openingSessions (set_opening i p m) (o_id (openings (set_opening i p m) ! j)) = Some j
      \<and> liveSessions (set_opening i p m) (o_id (openings (set_opening i p m) ! j)) = None"
    by (simp add: set_opening_def)
qed

lemma opening_added_sessions_ok:
  assumes ok: "sessions_ok m" and none: "liveSessions m sid = None" "openingSessions m sid = None"
  shows "sessions_ok (m\<lparr>openings := openings m @ [\<lparr>o_id = sid, o_phase = p\<rparr>], openingSessions := (openingSessions m)(sid \<mapsto> length (openings m))\<rparr>)"
    (is "sessions_ok ?m")
proof (rule sessions_okI)
  fix j assume j: "j < length (openings ?m)" "in_progress (o_phase (openings ?m ! j))"
  show "openingSessions ?m (o_id (openings ?m ! j)) = Some j \<and> liveSessions ?m (o_id (openings ?m ! j)) = None"
  proof (cases "j = length (openings m)")
    case True
    with none show ?thesis by simp
  next
    case False
    with j have "j < length (openings m)" "in_progress (o_phase (openings m ! j))" by (simp_all add: nth_append)
    from sessions_ok_opening [OF ok this] none \<open>j < length (openings m)\<close> show ?thesis by (auto simp: nth_append)
  qed
qed (use sessions_ok_live [OF ok] sessions_ok_undisposed [OF ok] in auto)

lemma acquire_turn_sessions_ok:
  assumes "sessions_ok m"
  shows "sessions_ok (acquire_turn n sid m)"
proof (cases "liveSessions m sid = None \<and> openingSessions m sid = None")
  case True
  then have "acquire_turn n sid m = (set_command n (AwaitOpening (length (openings m)) True) m)
      \<lparr>openings := openings m @ [\<lparr>o_id = sid, o_phase = AcquiringRuntime\<rparr>],
       openingSessions := (openingSessions m)(sid \<mapsto> length (openings m))\<rparr>"
    by (simp add: acquire_turn_def)
  moreover have "sessions_ok (set_command n q m)" for q by (rule shape_sessions_ok [OF _ assms]) simp
  note opening_added_sessions_ok [OF this [of "AwaitOpening (length (openings m)) True"], of sid]
  ultimately show ?thesis using True by (simp add: set_command_def)
next
  case False
  then have "shape (acquire_turn n sid m) = shape m"
    by (auto simp: acquire_turn_def split: option.splits)
  with assms show ?thesis by (rule shape_sessions_ok [rotated])
qed

lemma session_opened_sessions_ok:
  assumes ok: "sessions_ok m" and i: "i < length (openings m)" "in_progress (o_phase (openings m ! i))"
    and l: "l_id l = o_id (openings m ! i)"
  shows "sessions_ok ((set_opening i (OpenedLive (length (lives m))) m)
    \<lparr>lives := lives m @ [l], liveSessions := (liveSessions m)(o_id (openings m ! i) \<mapsto> length (lives m))\<rparr>)"
    (is "sessions_ok ?m")
proof (rule sessions_okI)
  note free = sessions_ok_opening [OF ok i]
  fix sid r
  show "r < length (lives ?m) \<and> l_id (lives ?m ! r) = sid" if "liveSessions ?m sid = Some r"
    using that sessions_ok_live [OF ok] l by (auto simp: nth_append split: if_splits)
  show "liveSessions ?m (l_id (lives ?m ! r)) = Some r" if r: "r < length (lives ?m)" "\<not> l_disposed (lives ?m ! r)"
  proof (cases "r = length (lives m)")
    case True
    with l show ?thesis by simp
  next
    case False
    with r have "r < length (lives m)" "\<not> l_disposed (lives m ! r)" by (simp_all add: nth_append)
    from sessions_ok_undisposed [OF ok this] free \<open>r < length (lives m)\<close> show ?thesis by (auto simp: nth_append)
  qed
  fix j
  show "openingSessions ?m (o_id (openings ?m ! j)) = Some j \<and> liveSessions ?m (o_id (openings ?m ! j)) = None"
    if j: "j < length (openings ?m)" "in_progress (o_phase (openings ?m ! j))"
  proof -
    have "j \<noteq> i" using j i(1) by (auto simp: set_opening_def in_progress_def)
    with j have "j < length (openings m)" "in_progress (o_phase (openings m ! j))" by (simp_all add: set_opening_def)
    from sessions_ok_opening [OF ok this] free \<open>j \<noteq> i\<close> show ?thesis by (auto simp: set_opening_def)
  qed
qed

lemma opening_removed_sessions_ok:
  assumes ok: "sessions_ok m" and i: "i < length (openings m)" "\<not> in_progress (o_phase (openings m ! i))"
    and sid: "openingSessions m sid = Some i"
  shows "sessions_ok (m\<lparr>openingSessions := (openingSessions m)(sid := None)\<rparr>)"
proof (rule sessions_okI)
  let ?m = "m\<lparr>openingSessions := (openingSessions m)(sid := None)\<rparr>"
  fix j assume "j < length (openings ?m)" "in_progress (o_phase (openings ?m ! j))"
  then have j: "j < length (openings m)" "in_progress (o_phase (openings m ! j))" by simp_all
  with i have "j \<noteq> i" by auto
  with sessions_ok_opening [OF ok j] sid
  show "openingSessions ?m (o_id (openings ?m ! j)) = Some j \<and> liveSessions ?m (o_id (openings ?m ! j)) = None" by auto
qed (use sessions_ok_live [OF ok] sessions_ok_undisposed [OF ok] in auto)

lemma runtime_disposed_sessions_ok:
  assumes ok: "sessions_ok m" and m': "runtime_disposed r m = Some m'"
  shows "sessions_ok m'"
proof -
  let ?sid = "l_id (lives m ! r)"
  have r: "r < length (lives m)" "\<not> l_disposed (lives m ! r)"
    and m'_eq: "m' = (update_live r (\<lambda>l. l\<lparr>l_disposed := True\<rparr>) m)\<lparr>liveSessions := (liveSessions m)(?sid := None)\<rparr>"
    using m' sessions_ok_undisposed [OF ok] by (auto simp: runtime_disposed_def Let_def split: if_splits)
  note live = sessions_ok_undisposed [OF ok r]
  show ?thesis
  proof (rule sessions_okI)
    show "r' < length (lives m') \<and> l_id (lives m' ! r') = sid" if "liveSessions m' sid = Some r'" for sid r'
      using that sessions_ok_live [OF ok, of sid r'] by (auto simp: m'_eq nth_update_live split: if_splits)
    show "liveSessions m' (l_id (lives m' ! r')) = Some r'" if "r' < length (lives m')" "\<not> l_disposed (lives m' ! r')" for r'
    proof -
      have "r' \<noteq> r" using that by (auto simp: m'_eq nth_update_live)
      moreover from this that have r': "r' < length (lives m)" "\<not> l_disposed (lives m ! r')" by (auto simp: m'_eq nth_update_live)
      ultimately show ?thesis using sessions_ok_undisposed [OF ok r'] live by (auto simp: m'_eq nth_update_live)
    qed
    show "openingSessions m' (o_id (openings m' ! j)) = Some j \<and> liveSessions m' (o_id (openings m' ! j)) = None"
      if "j < length (openings m')" "in_progress (o_phase (openings m' ! j))" for j
      using that sessions_ok_opening [OF ok, of j] by (simp add: m'_eq)
  qed
qed

lemma snapshot_checked_sessions_ok:
  assumes ok: "sessions_ok m" and m': "snapshot_checked i good idle m = Some m'"
  shows "sessions_ok m'"
proof -
  have i: "i < length (openings m)" "o_phase (openings m ! i) = CheckingSnapshot"
    using m' by (auto simp: snapshot_checked_def opening_at_def split: if_splits)
  show ?thesis
  proof (cases good)
    case True
    with m' have "m' = (set_opening i (OpenedLive (length (lives m))) m)
        \<lparr>lives := lives m @ [\<lparr>l_id = o_id (openings m ! i), l_connections = [], l_operationCount = 0, l_terminal = False,
                              l_disposing = False, l_disposed = False, l_idle = idle\<rparr>],
         liveSessions := (liveSessions m)(o_id (openings m ! i) \<mapsto> length (lives m))\<rparr>"
      by (simp add: snapshot_checked_def Let_def split: if_splits)
    with session_opened_sessions_ok [OF ok i(1)] i(2) show ?thesis by (simp add: in_progress_def)
  next
    case False
    with m' i have "m' = set_opening i DisposingRuntime m" by (simp add: snapshot_checked_def split: if_splits)
    with set_opening_sessions_ok [OF ok] i(2) show ?thesis by (simp add: in_progress_def)
  qed
qed

lemma opening_awaited_sessions_ok:
  assumes ok: "sessions_ok m" and m': "opening_awaited n m = Some m'"
  shows "sessions_ok m'"
proof -
  obtain i creator where n: "command_at n m = Some (AwaitOpening i creator)"
    using m' by (auto simp: opening_awaited_def split: option.splits command_phase.splits)
  let ?sid = "o_id (openings m ! i)"
  let ?m = "m\<lparr>openingSessions := (if creator \<and> openingSessions m ?sid = Some i then (openingSessions m)(?sid := None)
                                 else openingSessions m)\<rparr>"
  have i: "i < length (openings m)" "\<not> in_progress (o_phase (openings m ! i))"
    using m' n by (auto simp: opening_awaited_def opening_at_def in_progress_def split: option.splits opening_phase.splits if_splits)
  obtain q where m'_eq: "m' = set_command n q ?m"
    using m' n by (auto simp: opening_awaited_def Let_def split: option.splits opening_phase.splits)
  have "sessions_ok ?m"
    using opening_removed_sessions_ok [OF ok i] ok by simp
  then show ?thesis unfolding m'_eq by (rule shape_sessions_ok [rotated]) simp
qed

lemma detach_session_shape: "shape (detach_session c sid m) = shape m"
  by (simp add: detach_session_def Let_def split: option.split)

lemma disconnect_shape: "shape (disconnect_connection c m) = shape m"
  by (simp add: disconnect_connection_def Let_def shape_fold)

lemma begin_operation_shape: "shape (begin_operation c sid m) = shape m"
  by (simp add: begin_operation_def split: sum.split)

lemma terminate_session_shape: "shape (terminate_session r m) = shape m"
  by (simp add: terminate_session_def)

lemma optional_shapes:
  "attach_connection n m = Some m' \<Longrightarrow> shape m' = shape m"
  "detach_broadcast n m = Some m' \<Longrightarrow> shape m' = shape m"
  "end_operation n m = Some m' \<Longrightarrow> shape m' = shape m"
  by (auto simp: attach_connection_def detach_broadcast_def end_operation_def Let_def
        split: option.splits command_phase.splits if_splits)

lemma closing_simps [simp]:
  "m_closing (update_conn c g m) = m_closing m" "m_closing (set_command n p m) = m_closing m"
  "m_closing (set_opening i q m) = m_closing m" "m_closing (maybeDispose r m) = m_closing m"
  by (simp_all add: update_conn_def set_command_def set_opening_def maybeDispose_def)

lemma closing_acquire_turn [simp]: "m_closing (acquire_turn n sid m) = m_closing m"
  by (simp add: acquire_turn_def split: option.split)

lemma closing_fold: "(\<And>m r. m_closing (f m r) = m_closing m) \<Longrightarrow> m_closing (foldl f m rs) = m_closing m"
  by (induction rs arbitrary: m) simp_all

lemma closing_operations [simp]:
  "m_closing (begin_acquire c sid m) = m_closing m" "m_closing (detach_session c sid m) = m_closing m"
  "m_closing (begin_operation c sid m) = m_closing m" "m_closing (disconnect_connection c m) = m_closing m"
  "m_closing (terminate_session r m) = m_closing m" "m_closing (accept_connection m) = m_closing m"
  by (simp_all add: begin_acquire_def detach_session_def begin_operation_def disconnect_connection_def terminate_session_def
        accept_connection_def Let_def closing_fold split: option.split sum.split)

lemma closing_optional:
  "disposing_awaited n ok m = Some m' \<Longrightarrow> m_closing m' = m_closing m"
  "runtime_acquired i ok m = Some m' \<Longrightarrow> m_closing m' = m_closing m"
  "snapshot_checked i ok idle m = Some m' \<Longrightarrow> m_closing m' = m_closing m"
  "failed_runtime_disposed i m = Some m' \<Longrightarrow> m_closing m' = m_closing m"
  "opening_awaited n m = Some m' \<Longrightarrow> m_closing m' = m_closing m"
  "attach_connection n m = Some m' \<Longrightarrow> m_closing m' = m_closing m"
  "detach_broadcast n m = Some m' \<Longrightarrow> m_closing m' = m_closing m"
  "end_operation n m = Some m' \<Longrightarrow> m_closing m' = m_closing m"
  "runtime_disposed r m = Some m' \<Longrightarrow> m_closing m' = m_closing m"
  "close_sessions m = Some m' \<Longrightarrow> m_closing m' = m_closing m"
  "closed_runtime_disposed r m = Some m' \<Longrightarrow> m_closing m' = m_closing m"
  by (auto simp: disposing_awaited_def runtime_acquired_def snapshot_checked_def failed_runtime_disposed_def opening_awaited_def
        attach_connection_def detach_broadcast_def end_operation_def runtime_disposed_def close_sessions_def
        closed_runtime_disposed_def Let_def split: option.splits command_phase.splits opening_phase.splits if_splits)

lemma step_closing:
  assumes "manager_step m m'" "m_closing m"
  shows "m_closing m'"
  using assms(1) by cases (use assms(2) in \<open>force dest: closing_optional simp: runtime_event_def\<close>)+

lemma step_sessions_ok:
  assumes step: "manager_step m m'" and ok: "sessions_ok m" and going: "\<not> m_closing m'"
  shows "sessions_ok m'"
  using step
proof cases
  case (m_acquire c sid)
  have "sessions_ok (m\<lparr>commands := cs\<rparr>)" for cs by (rule shape_sessions_ok [OF _ ok]) simp
  then show ?thesis unfolding m_acquire(1) begin_acquire_def by (rule acquire_turn_sessions_ok)
next
  case (m_awaited n good)
  then obtain sid where "m' = (if good then acquire_turn n sid m else set_command n (CommandFailed OpeningError) m)"
    by (auto simp: disposing_awaited_def split: option.splits command_phase.splits if_splits)
  moreover have "sessions_ok (set_command n q m)" for q by (rule shape_sessions_ok [OF _ ok]) simp
  ultimately show ?thesis using acquire_turn_sessions_ok [OF ok] by simp
next
  case (m_runtime i good)
  then have "o_phase (openings m ! i) = AcquiringRuntime" "\<exists>p. m' = set_opening i p m"
    by (auto simp: runtime_acquired_def opening_at_def split: if_splits)
  with set_opening_sessions_ok [OF ok, of _ i] show ?thesis by (auto simp: in_progress_def)
next
  case (m_snapshot i good idle)
  then show ?thesis using snapshot_checked_sessions_ok [OF ok] by blast
next
  case (m_failed i)
  then have "m' = set_opening i OpeningFailed m" by (simp add: failed_runtime_disposed_def split: if_splits)
  with set_opening_sessions_ok [OF ok, of OpeningFailed i] show ?thesis by (simp add: in_progress_def)
next
  case (m_opened n)
  then show ?thesis using opening_awaited_sessions_ok [OF ok] by blast
next
  case (m_disposed r)
  then show ?thesis using runtime_disposed_sessions_ok [OF ok] by blast
next
  case m_closing
  with going show ?thesis by simp
next
  case m_close
  with going show ?thesis by (auto simp: close_sessions_def split: if_splits)
next
  case (m_close_disposed r)
  with going show ?thesis by (auto simp: closed_runtime_disposed_def split: if_splits)
qed (rule shape_sessions_ok [OF _ ok], force dest: optional_shapes simp: accept_connection_def runtime_event_def
      detach_session_shape disconnect_shape begin_operation_shape terminate_session_shape)+

subsection \<open>The operations after each step\<close>

lemma running_append:
  "running (m\<lparr>commands := commands m @ [p]\<rparr>) r = running m r + (if cp_phase p = Operating r then 1 else 0)"
  by (simp add: running_def)

lemma tally_append: "\<not> is_operating (cp_phase p) \<Longrightarrow> tally (m\<lparr>commands := commands m @ [p]\<rparr>) = tally m"
  by (auto simp: tally_def running_append is_operating_def fun_eq_iff)

lemma command_at_simps [simp]:
  "command_at n (update_conn c g m) = command_at n m" "command_at n (update_live r f m) = command_at n m"
  "command_at n (maybeDispose r m) = command_at n m" "command_at n (m\<lparr>openingSessions := oss\<rparr>) = command_at n m"
  by (simp_all add: command_at_def update_conn_def update_live_def maybeDispose_def)

lemma is_operating_simps [simp]:
  "is_operating (Operating r)" "\<not> is_operating (AwaitDisposing sid r)" "\<not> is_operating (AwaitOpening i b)"
  "\<not> is_operating (Acquired r)" "\<not> is_operating (AttachedTo r)" "\<not> is_operating (Broadcasting r)"
  "\<not> is_operating Detached" "\<not> is_operating (CommandFailed e)"
  by (simp_all add: is_operating_def)

lemma acquire_turn_tally:
  assumes "command_at n m = Some p" "\<not> is_operating p"
  shows "tally (acquire_turn n sid m) = tally m"
proof -
  have "tally (set_command n q m) = tally m" if "\<not> is_operating q" for q
    using tally_set_command [OF assms that] .
  moreover have "tally (m'\<lparr>openings := os, openingSessions := oss\<rparr>) = tally m'" for m' os oss
    by (simp add: tally_def running_def fun_eq_iff)
  ultimately show ?thesis by (simp add: acquire_turn_def split: option.split)
qed

lemma begin_acquire_tally: "tally (begin_acquire c sid m) = tally m"
proof -
  let ?m = "m\<lparr>commands := commands m @ [\<lparr>cp_connection = c, cp_phase = Detached\<rparr>]\<rparr>"
  have "command_at (length (commands m)) ?m = Some Detached" by (simp add: command_at_def)
  from acquire_turn_tally [OF this] have "tally (begin_acquire c sid m) = tally ?m" by (simp add: begin_acquire_def)
  then show ?thesis by (simp add: tally_append)
qed

lemma disposing_awaited_tally: "disposing_awaited n ok m = Some m' \<Longrightarrow> tally m' = tally m"
  by (auto simp: disposing_awaited_def acquire_turn_tally tally_set_command split: option.splits command_phase.splits if_splits)

lemma opening_awaited_tally:
  assumes "opening_awaited n m = Some m'"
  shows "tally m' = tally m"
proof -
  obtain i creator oss q where n: "command_at n m = Some (AwaitOpening i creator)"
    and m': "m' = set_command n q (m\<lparr>openingSessions := oss\<rparr>)" and q: "\<not> is_operating q"
    using assms by (auto simp: opening_awaited_def Let_def split: option.splits command_phase.splits opening_phase.splits)
  have "tally m' = tally (m\<lparr>openingSessions := oss\<rparr>)"
    unfolding m' by (rule tally_set_command [where p = "AwaitOpening i creator"]) (use n q in simp_all)
  then show ?thesis by simp
qed

lemma set_command_operations_ok:
  assumes "operations_ok m" "command_at n m = Some p" "\<not> is_operating p" "\<not> is_operating q"
  shows "operations_ok (set_command n q m)"
  using tally_operations_ok [OF tally_set_command [OF assms(2-4)] assms(1)] .

lemma attach_connection_operations_ok:
  assumes ok: "operations_ok m" and m': "attach_connection n m = Some m'"
  shows "operations_ok m'"
proof -
  obtain r where n: "command_at n m = Some (Acquired r)"
    using m' by (auto simp: attach_connection_def split: option.splits command_phase.splits)
  have "operations_ok (set_command n (CommandFailed InvalidRequest) (maybeDispose r m))"
    by (rule set_command_operations_ok [where p = "Acquired r", OF maybeDispose_operations_ok [OF ok]]) (use n in simp_all)
  moreover have "operations_ok (set_command n (AttachedTo r)
      (update_live r (\<lambda>l. l\<lparr>l_connections := connection_add c (l_connections l)\<rparr>) (update_conn c g m)))" for c g
    by (rule set_command_operations_ok [where p = "Acquired r", OF tally_operations_ok [OF _ ok]]) (use n in simp_all)
  ultimately show ?thesis using m' n by (auto simp: attach_connection_def Let_def split: if_splits)
qed

lemma detach_broadcast_operations_ok:
  assumes ok: "operations_ok m" and m': "detach_broadcast n m = Some m'"
  shows "operations_ok m'"
proof -
  obtain r where n: "command_at n m = Some (Broadcasting r)" and eq: "m' = set_command n Detached (maybeDispose r m)"
    using m' by (auto simp: detach_broadcast_def split: option.splits command_phase.splits)
  show ?thesis unfolding eq
    by (rule set_command_operations_ok [where p = "Broadcasting r", OF maybeDispose_operations_ok [OF ok]]) (use n in simp_all)
qed

lemma detach_session_operations_ok:
  assumes ok: "operations_ok m"
  shows "operations_ok (detach_session c sid m)"
proof -
  have upd: "operations_ok (update_conn c g m)" for g by (rule tally_operations_ok [OF _ ok]) simp
  have live: "operations_ok (update_live r (\<lambda>l. l\<lparr>l_connections := remove1 c (l_connections l)\<rparr>) (update_conn c g m))" for r g
    by (rule tally_operations_ok [OF _ ok]) simp
  have cmd: "operations_ok (m'\<lparr>commands := commands m' @ [\<lparr>cp_connection = c, cp_phase = Broadcasting r\<rparr>]\<rparr>)"
    if "operations_ok m'" for r m'
    by (rule tally_operations_ok [OF _ that]) (simp add: tally_append)
  have [simp]: "commands (update_conn c g m) = commands m" for g by (simp add: update_conn_def)
  show ?thesis
    using ok upd maybeDispose_operations_ok [OF live] cmd [OF live]
    by (simp add: detach_session_def Let_def split: option.split)
qed

lemma disconnect_operations_ok:
  assumes ok: "operations_ok m"
  shows "operations_ok (disconnect_connection c m)"
proof -
  have "operations_ok (foldl (\<lambda>m r. update_live r (\<lambda>l. l\<lparr>l_connections := remove1 c (l_connections l)\<rparr>) m) (update_conn c g m) rs)" for g rs
    by (rule tally_operations_ok [OF _ ok]) (simp add: tally_fold)
  with ok show ?thesis by (simp add: disconnect_connection_def Let_def maybeDispose_fold_ok)
qed

lemma requireAttached_live:
  "requireAttached c sid m = Inr r \<Longrightarrow> liveSessions m sid = Some r \<and> \<not> l_disposing (lives m ! r) \<and> sid \<in> set (sessionIds (conns m ! c))"
  by (auto simp: requireAttached_def split: option.splits if_splits)

lemma begin_operation_operations_ok:
  assumes ok: "operations_ok m" and ss: "sessions_ok m"
  shows "operations_ok (begin_operation c sid m)"
proof (cases "requireAttached c sid m")
  case (Inl e)
  have "operations_ok (m\<lparr>commands := commands m @ [\<lparr>cp_connection = c, cp_phase = CommandFailed e\<rparr>]\<rparr>)"
    by (rule tally_operations_ok [OF _ ok]) (simp add: tally_append)
  with Inl show ?thesis by (simp add: begin_operation_def)
next
  case (Inr r)
  let ?m = "begin_operation c sid m"
  have r: "r < length (lives m)" "\<not> l_disposing (lives m ! r)"
    using requireAttached_live [OF Inr] sessions_ok_live [OF ss] by blast+
  have m': "running ?m r' = running m r' + (if r' = r then 1 else 0)" "length (lives ?m) = length (lives m)"
    "r' < length (lives m) \<Longrightarrow> l_operationCount (lives ?m ! r') = l_operationCount (lives m ! r') + (if r' = r then 1 else 0)"
    "r' < length (lives m) \<Longrightarrow> l_disposing (lives ?m ! r') = l_disposing (lives m ! r')" for r'
    using Inr running_append [of "update_live r (\<lambda>l. l\<lparr>l_operationCount := l_operationCount l + 1\<rparr>) m"]
    by (simp_all add: begin_operation_def nth_update_live)
  have "live_ok ?m r'" for r'
    using ok r m' by (auto simp: operations_ok_def live_ok_def split: if_splits)
  then show ?thesis by (simp add: operations_ok_def)
qed

lemma end_operation_operations_ok:
  assumes ok: "operations_ok m" and m': "end_operation n m = Some m'"
  shows "operations_ok m'"
proof -
  obtain r where n: "command_at n m = Some (Operating r)"
    using m' by (auto simp: end_operation_def split: option.splits command_phase.splits)
  let ?m = "update_live r (\<lambda>l. l\<lparr>l_operationCount := l_operationCount l - 1\<rparr>) (set_command n (AttachedTo r) m)"
  have run: "running ?m r' + (if r = r' then 1 else 0) = running m r'" for r'
    using running_set_command [OF n, of "AttachedTo r" r'] by simp
  have lives: "lives (set_command n (AttachedTo r) m) = lives m" by (simp add: set_command_def)
  have "live_ok ?m r'" for r'
    using ok [unfolded operations_ok_def, rule_format, of r'] run [of r']
    by (auto simp: live_ok_def nth_update_live lives split: if_splits)
  then have "operations_ok (maybeDispose r ?m)" by (intro maybeDispose_operations_ok) (simp add: operations_ok_def)
  with m' n show ?thesis by (simp add: end_operation_def)
qed

lemma snapshot_checked_operations_ok:
  assumes ok: "operations_ok m" and m': "snapshot_checked i good idle m = Some m'"
  shows "operations_ok m'"
proof (cases good)
  case True
  let ?l = "\<lparr>l_id = o_id (openings m ! i), l_connections = [], l_operationCount = 0, l_terminal = False, l_disposing = False,
              l_disposed = False, l_idle = idle\<rparr>"
  have m'_eq: "lives m' = lives m @ [?l]" "running m' = running m"
    using m' True by (auto simp: snapshot_checked_def Let_def running_def set_opening_def fun_eq_iff split: if_splits)
  have "live_ok m' r" for r
    using ok [unfolded operations_ok_def, rule_format, of r] by (auto simp: live_ok_def m'_eq nth_append less_Suc_eq)
  then show ?thesis by (simp add: operations_ok_def)
next
  case False
  show ?thesis by (rule tally_operations_ok [OF _ ok]) (use m' False in \<open>auto simp: snapshot_checked_def split: if_splits\<close>)
qed

lemma optional_tallies:
  "runtime_acquired i good m = Some m' \<Longrightarrow> tally m' = tally m"
  "failed_runtime_disposed i m = Some m' \<Longrightarrow> tally m' = tally m"
  "runtime_disposed r m = Some m' \<Longrightarrow> tally m' = tally m"
  "close_sessions m = Some m' \<Longrightarrow> tally m' = tally m"
  "closed_runtime_disposed r m = Some m' \<Longrightarrow> tally m' = tally m"
  by (auto simp: runtime_acquired_def failed_runtime_disposed_def runtime_disposed_def close_sessions_def
        closed_runtime_disposed_def Let_def split: if_splits)

lemma accept_tally: "tally (accept_connection m) = tally m"
  by (simp add: accept_connection_def)

lemma terminate_tally: "tally (terminate_session r m) = tally m"
  by (simp add: terminate_session_def)

lemma step_operations_ok:
  assumes step: "manager_step m m'" and ss: "sessions_ok m" and ok: "operations_ok m"
  shows "operations_ok m'"
  using step
proof cases
  case m_operate
  then show ?thesis using begin_operation_operations_ok [OF ok ss] by simp
next
  case m_operated
  then show ?thesis using end_operation_operations_ok [OF ok] by simp
next
  case m_snapshot
  then show ?thesis using snapshot_checked_operations_ok [OF ok] by simp
next
  case m_attach
  then show ?thesis using attach_connection_operations_ok [OF ok] by simp
next
  case m_detach
  then show ?thesis using detach_session_operations_ok [OF ok] by simp
next
  case m_detached
  then show ?thesis using detach_broadcast_operations_ok [OF ok] by simp
next
  case m_disconnect
  then show ?thesis using disconnect_operations_ok [OF ok] by simp
next
  case m_event
  then show ?thesis using maybeDispose_operations_ok [OF ok] by (simp add: runtime_event_def)
next
  case m_terminated
  then show ?thesis using maybeDispose_operations_ok [OF ok] by simp
qed (rule tally_operations_ok [OF _ ok], force dest: optional_tallies disposing_awaited_tally opening_awaited_tally
      simp: begin_acquire_tally accept_tally terminate_tally)+

lemma manager_reachable_ok:
  assumes "manager_step\<^sup>*\<^sup>* new_manager m" "\<not> m_closing m"
  shows "sessions_ok m \<and> operations_ok m"
  using assms
proof (induction rule: rtranclp_induct)
  case base
  show ?case by (simp add: new_manager_def sessions_ok_def operations_ok_def live_ok_def running_def)
next
  case (step m m')
  with step_closing have "\<not> m_closing m" by blast
  with step show ?case using step_sessions_ok step_operations_ok by blast
qed

subsection \<open>The properties\<close>

text \<open>Property C20. Until the server is closing, a session has at most one runtime at a time: counting the calls of create that
  have acquired or are acquiring one and have not settled, and the live sessions whose runtime has not been disposed, there
  is at most one for each id. This holds however the requests, the disconnections, the failures of the backend and the disposals
  interleave.\<close>

theorem runtime_exclusive:
  assumes "manager_step\<^sup>*\<^sup>* new_manager m" "\<not> m_closing m"
  shows "\<exists>h. runtime_holders m sid \<subseteq> {h}"
  using sessions_exclusive manager_reachable_ok [OF assms] by blast

text \<open>Property C21. Until the server is closing, no runtime is disposed under an operation: the session of a running operation
  is not being disposed and has counted it.\<close>

theorem operation_not_disposed:
  assumes "manager_step\<^sup>*\<^sup>* new_manager m" "\<not> m_closing m" "command_at n m = Some (Operating r)"
  shows "r < length (lives m) \<and> \<not> l_disposing (lives m ! r) \<and> 0 < l_operationCount (lives m ! r)"
proof -
  have "Operating r \<in> set (map cp_phase (commands m))"
    using assms(3) nth_mem [of n "map cp_phase (commands m)"] by (cases "n < length (commands m)") (auto simp: command_at_def)
  then have "0 < running m r" by (simp add: running_def count_list_0_iff neq0_conv [symmetric])
  moreover from manager_reachable_ok [OF assms(1,2)] have "live_ok m r" by (simp add: operations_ok_def)
  ultimately show ?thesis by (auto simp: live_ok_def split: if_splits)
qed

subsection \<open>Runs of the manager\<close>

datatype manager_event =
    Accept
  | Ready nat
  | AcquireSession nat js_string
  | RuntimeAcquired nat bool
  | SnapshotChecked nat bool bool
  | OpeningAwaited nat
  | Attach nat
  | Operate nat js_string
  | Disconnect nat
  | Disposed nat

fun run_event :: "manager_event \<Rightarrow> manager \<Rightarrow> manager option" where
  "run_event Accept m = Some (accept_connection m)"
| "run_event (Ready c) m =
     (if c < length (conns m) \<and> \<not> c_disconnected (conns m ! c) then Some (update_conn c (\<lambda>s. s\<lparr>c_ready := True\<rparr>) m) else None)"
| "run_event (AcquireSession c sid) m =
     (if c < length (conns m) \<and> c_ready (conns m ! c) then Some (begin_acquire c sid m) else None)"
| "run_event (RuntimeAcquired i good) m = runtime_acquired i good m"
| "run_event (SnapshotChecked i good idle) m = snapshot_checked i good idle m"
| "run_event (OpeningAwaited n) m = opening_awaited n m"
| "run_event (Attach n) m = attach_connection n m"
| "run_event (Operate c sid) m =
     (if c < length (conns m) \<and> c_ready (conns m ! c) then Some (begin_operation c sid m) else None)"
| "run_event (Disconnect c) m = (if c < length (conns m) then Some (disconnect_connection c m) else None)"
| "run_event (Disposed r) m = runtime_disposed r m"

fun manager_run :: "manager_event list \<Rightarrow> manager \<Rightarrow> manager option" where
  "manager_run [] m = Some m"
| "manager_run (e # es) m = (case run_event e m of None \<Rightarrow> None | Some m' \<Rightarrow> manager_run es m')"

lemma run_event_step: "run_event e m = Some m' \<Longrightarrow> manager_step m m'"
  by (cases e) (auto intro: manager_step.intros split: if_splits)

lemma manager_run_steps: "manager_run es m = Some m' \<Longrightarrow> manager_step\<^sup>*\<^sup>* m m'"
  by (induction es arbitrary: m)
    (auto split: option.splits intro: converse_rtranclp_into_rtranclp dest: run_event_step)

lemmas manager_defs = new_manager_def accept_connection_def update_conn_def begin_acquire_def acquire_turn_def set_command_def
  runtime_acquired_def opening_at_def set_opening_def snapshot_checked_def opening_awaited_def command_at_def
  attach_connection_def update_live_def connection_add_def begin_operation_def requireAttached_def disconnect_connection_def
  live_refs_def maybeDispose_def keeps_live_def runtime_disposed_def Let_def List.map_filter_def

text \<open>A connection that opens a session and starts an operation on it.\<close>

definition operating_run :: "manager_event list" where
  "operating_run = [Accept, Ready 0, AcquireSession 0 (js ''s''), RuntimeAcquired 0 True, SnapshotChecked 0 True True,
     OpeningAwaited 0, Attach 0, Operate 0 (js ''s'')]"

lemma operating_run_state:
  "\<exists>m. manager_run operating_run new_manager = Some m \<and> \<not> m_closing m \<and> command_at 1 m = Some (Operating 0)
     \<and> Inr 0 \<in> runtime_holders m (js ''s'')"
  by (simp add: operating_run_def manager_defs runtime_holders_def)

theorem runtime_exclusive_witness:
  "\<exists>m. Inr 0 \<in> runtime_holders m (js ''s'') \<and> (\<exists>h. runtime_holders m (js ''s'') \<subseteq> {h})"
proof -
  obtain m where m: "manager_run operating_run new_manager = Some m" "\<not> m_closing m" "Inr 0 \<in> runtime_holders m (js ''s'')"
    using operating_run_state by blast
  with runtime_exclusive [OF manager_run_steps [OF m(1)] m(2), of "js ''s''"] show ?thesis by blast
qed

theorem operation_not_disposed_witness:
  "\<exists>m. command_at 1 m = Some (Operating 0) \<and> 0 < length (lives m) \<and> \<not> l_disposing (lives m ! 0) \<and> 0 < l_operationCount (lives m ! 0)"
proof -
  obtain m where m: "manager_run operating_run new_manager = Some m" "\<not> m_closing m" "command_at 1 m = Some (Operating 0)"
    using operating_run_state by blast
  with operation_not_disposed [OF manager_run_steps [OF m(1)] m(2,3)] show ?thesis by blast
qed

text \<open>Two connections wait for the same opening and the one that made it disconnects: its \<open>attach\<close> fails and disposes the
  session, and the other, which is resumed after it, is attached to the session all the same. Until the disposal has
  ended its requests fail. Then a third connection opens the session again, and the requests of the second reach
  the new runtime, though the new live session does not count it among its connections: it is sent none of the events, and does not
  keep the session from being disposed.\<close>

definition race_run :: "manager_event list" where
  "race_run = [Accept, Ready 0, Accept, Ready 1, AcquireSession 0 (js ''s''), AcquireSession 1 (js ''s''), RuntimeAcquired 0 True,
     SnapshotChecked 0 True True, Disconnect 0, OpeningAwaited 0, Attach 0, OpeningAwaited 1, Attach 1]"

definition reopened_run :: "manager_event list" where
  "reopened_run = [Disposed 0, Accept, Ready 2, AcquireSession 2 (js ''s''), RuntimeAcquired 1 True, SnapshotChecked 1 True True,
     OpeningAwaited 2, Attach 2]"

theorem attached_to_disposing:
  "\<exists>m. manager_step\<^sup>*\<^sup>* new_manager m \<and> command_at 1 m = Some (AttachedTo 0) \<and> l_disposing (lives m ! 0)
     \<and> l_connections (lives m ! 0) = [1] \<and> requireAttached 1 (js ''s'') m = Inl NotFound"
proof -
  have "\<exists>m. manager_run race_run new_manager = Some m \<and> command_at 1 m = Some (AttachedTo 0) \<and> l_disposing (lives m ! 0)
     \<and> l_connections (lives m ! 0) = [1] \<and> requireAttached 1 (js ''s'') m = Inl NotFound"
    by (simp add: race_run_def manager_defs)
  then show ?thesis using manager_run_steps by blast
qed

theorem requests_without_events:
  "\<exists>m. manager_step\<^sup>*\<^sup>* new_manager m \<and> requireAttached 1 (js ''s'') m = Inr 1 \<and> l_connections (lives m ! 1) = [2]"
proof -
  have "\<exists>m. manager_run (race_run @ reopened_run) new_manager = Some m \<and> requireAttached 1 (js ''s'') m = Inr 1
     \<and> l_connections (lives m ! 1) = [2]"
    by (simp add: race_run_def reopened_run_def manager_defs)
  then show ?thesis using manager_run_steps by blast
qed

end
