(* ===== verification/JsonlRepo.thy ===== *)
theory JsonlRepo
  imports MemoryRepo ProjectMap
begin

text \<open>
  \<^verbatim>\<open>packages/agent/src/harness/session/jsonl-repo.ts\<close>: sessions as files of JSON lines, a header and then an entry on
  each line, with an index of every opened session in memory. The file system is the interface \<open>FileSystem\<close> of
  \<^verbatim>\<open>types.ts\<close> on a POSIX host: a map from paths to contents with its directories; each call may fail, as a function \<open>fault\<close> says, and a failed write
  may leave a part of its text. The operations of one session run one after the other (\<open>KeyedQueue\<close>), so each is one
  state-passing step. Parameters are \<open>JSON.parse\<close> and \<open>JSON.stringify\<close>, the JSON value of an entry and the entry that a JSON
  value is taken for (a TypeScript cast), the absolute path of the sessions root, fresh ids and times. Paths are joined
  with a slash: the root is normal and the names are clean, so that \<open>path.join\<close> has nothing to normalise.
\<close>

record json_env =
  json_parse :: "js_string \<Rightarrow> json option"
  json_stringify :: "json \<Rightarrow> js_string"
  json_of_entry :: "tree_entry \<Rightarrow> json"
  as_entry :: "json \<Rightarrow> tree_entry"

record jsonl_metadata =
  j_id :: js_string
  j_createdAt :: js_string
  j_cwd :: js_string
  j_path :: js_string
  j_parentSessionPath :: "js_string option"
  j_metadata :: "(js_string \<times> json) list option"

record session_header =
  hd_id :: js_string
  hd_timestamp :: js_string
  hd_cwd :: js_string
  hd_parentSession :: "js_string option"
  hd_metadata :: "(js_string \<times> json) list option"

datatype header_fault = NotAHeader | UnsupportedVersion | MissingId | MissingTimestamp | MissingCwd | BadParentSession | BadMetadata
  | MissingHeader

datatype entry_fault = NotJson | NotAnEntry | MissingType | MissingEntryId | BadParentId | MissingEntryTimestamp | BadTargetId

datatype jsonl_error =
    InvalidHeader js_string header_fault
  | InvalidLine js_string nat entry_fault
  | DuplicateEntryId js_string js_string
  | DocumentNotFound js_string
  | DocumentExists js_string
  | EmptySessionId
  | InvalidSessionId js_string
  | EntryExists js_string
  | FileMissing js_string
  | FileTrouble js_string
  | IndexError session_error
  | JsonlDisposed

subsection \<open>Lines of a document\<close>

definition text_field :: "(js_string \<times> json) list \<Rightarrow> string \<Rightarrow> js_string option" where
  "text_field kvs k = (case json_field kvs k of Some (JStr s) \<Rightarrow> if s = [] then None else Some s | _ \<Rightarrow> None)"

definition parse_object :: "json_env \<Rightarrow> js_string \<Rightarrow> (js_string \<times> json) list option" where
  "parse_object env line = (case json_parse env line of None \<Rightarrow> None | Some v \<Rightarrow> json_object v)"

definition parseHeader :: "json_env \<Rightarrow> js_string \<Rightarrow> js_string \<Rightarrow> jsonl_error + session_header" where
  "parseHeader env line path =
     (case parse_object env line of
        None \<Rightarrow> Inl (InvalidHeader path NotAHeader)
      | Some header \<Rightarrow>
          if json_field header ''type'' \<noteq> Some (JStr (js ''session'')) then Inl (InvalidHeader path NotAHeader)
          else if json_field header ''version'' \<noteq> Some (JNum 3) then Inl (InvalidHeader path UnsupportedVersion)
          else
            (case text_field header ''id'' of None \<Rightarrow> Inl (InvalidHeader path MissingId) | Some i \<Rightarrow>
            (case text_field header ''timestamp'' of None \<Rightarrow> Inl (InvalidHeader path MissingTimestamp) | Some t \<Rightarrow>
            (case text_field header ''cwd'' of None \<Rightarrow> Inl (InvalidHeader path MissingCwd) | Some cwd \<Rightarrow>
            and_then
              (case json_field header ''parentSession'' of
                 None \<Rightarrow> Inr None
               | Some (JStr s) \<Rightarrow> Inr (Some s)
               | Some _ \<Rightarrow> Inl (InvalidHeader path BadParentSession))
              (\<lambda>parent.
            and_then
              (case json_field header ''metadata'' of
                 None \<Rightarrow> Inr None
               | Some (JObj kvs) \<Rightarrow> Inr (Some kvs)
               | Some _ \<Rightarrow> Inl (InvalidHeader path BadMetadata))
              (\<lambda>metadata.
            Inr \<lparr>hd_id = i, hd_timestamp = t, hd_cwd = cwd, hd_parentSession = parent, hd_metadata = metadata\<rparr>))))))"

definition parseEntry :: "json_env \<Rightarrow> js_string \<Rightarrow> js_string \<Rightarrow> nat \<Rightarrow> jsonl_error + tree_entry" where
  "parseEntry env line path lineNumber =
     (case json_parse env line of
        None \<Rightarrow> Inl (InvalidLine path lineNumber NotJson)
      | Some v \<Rightarrow>
          (case json_object v of
             None \<Rightarrow> Inl (InvalidLine path lineNumber NotAnEntry)
           | Some entry \<Rightarrow>
               if \<nexists>t. json_field entry ''type'' = Some (JStr t) then Inl (InvalidLine path lineNumber MissingType)
               else if text_field entry ''id'' = None then Inl (InvalidLine path lineNumber MissingEntryId)
               else if json_field entry ''parentId'' \<noteq> Some JNull \<and> (\<nexists>p. json_field entry ''parentId'' = Some (JStr p))
               then Inl (InvalidLine path lineNumber BadParentId)
               else if text_field entry ''timestamp'' = None then Inl (InvalidLine path lineNumber MissingEntryTimestamp)
               else if json_field entry ''type'' = Some (JStr (js ''leaf'')) \<and> json_field entry ''targetId'' \<noteq> Some JNull
                 \<and> (\<nexists>t. json_field entry ''targetId'' = Some (JStr t))
               then Inl (InvalidLine path lineNumber BadTargetId)
               else Inr (as_entry env v)))"

definition metadataFromHeader :: "session_header \<Rightarrow> js_string \<Rightarrow> jsonl_metadata" where
  "metadataFromHeader header path =
     \<lparr>j_id = hd_id header, j_createdAt = hd_timestamp header, j_cwd = hd_cwd header, j_path = path,
      j_parentSessionPath = hd_parentSession header, j_metadata = hd_metadata header\<rparr>"

fun parse_entries :: "json_env \<Rightarrow> js_string \<Rightarrow> nat \<Rightarrow> js_string list \<Rightarrow> jsonl_error + tree_entry list" where
  "parse_entries env path n [] = Inr []"
| "parse_entries env path n (line # ls) =
     and_then (parseEntry env line path n) (\<lambda>e. and_then (parse_entries env path (n + 1) ls) (\<lambda>es. Inr (e # es)))"

fun first_duplicate :: "js_string list \<Rightarrow> js_string list \<Rightarrow> js_string option" where
  "first_duplicate seen [] = None"
| "first_duplicate seen (i # ids) = (if i \<in> set seen then Some i else first_duplicate (i # seen) ids)"

definition document_lines :: "js_string \<Rightarrow> js_string list" where
  "document_lines content = filter (\<lambda>line. trim line \<noteq> []) (split_on newline content)"

text \<open>\<open>loadJsonlSession\<close> after the file was read.\<close>

definition loadJsonlSession :: "json_env \<Rightarrow> js_string \<Rightarrow> js_string \<Rightarrow> jsonl_error + (jsonl_metadata \<times> tree_entry list)" where
  "loadJsonlSession env path content =
     (case document_lines content of
        [] \<Rightarrow> Inl (InvalidHeader path MissingHeader)
      | line # ls \<Rightarrow>
          and_then (parseHeader env line path) (\<lambda>header.
          and_then (parse_entries env path 2 ls) (\<lambda>es.
          case first_duplicate [] (map eid es) of
            Some i \<Rightarrow> Inl (DuplicateEntryId path i)
          | None \<Rightarrow> Inr (metadataFromHeader header path, es))))"

text \<open>The first line as \<open>node:readline\<close> reads it: it ends at a newline, a carriage return or both. An empty file has none.\<close>

definition first_line :: "js_string \<Rightarrow> js_string option" where
  "first_line content = (if content = [] then None else Some (takeWhile (\<lambda>c. c \<noteq> newline \<and> c \<noteq> 0xd) content))"

definition loadJsonlSessionMetadata :: "json_env \<Rightarrow> js_string \<Rightarrow> js_string \<Rightarrow> jsonl_error + jsonl_metadata" where
  "loadJsonlSessionMetadata env path content =
     (case first_line content of
        None \<Rightarrow> Inl (InvalidHeader path MissingHeader)
      | Some line \<Rightarrow>
          if trim line = [] then Inl (InvalidHeader path MissingHeader)
          else and_then (parseHeader env line path) (\<lambda>header. Inr (metadataFromHeader header path)))"

subsection \<open>Names of documents\<close>

definition path_separator :: "js_char \<Rightarrow> bool" where
  "path_separator c \<longleftrightarrow> c = slash \<or> c = 0x5c"

definition encodeCwd :: "js_string \<Rightarrow> js_string" where
  "encodeCwd cwd =
     js ''--'' @ map (\<lambda>c. if path_separator c \<or> c = 0x3a then 0x2d else c)
       (if cwd \<noteq> [] \<and> path_separator (hd cwd) then tl cwd else cwd) @ js ''--''"

text \<open>\<open>encodeURIComponent\<close>: fails on a lone surrogate.\<close>

definition uri_unreserved :: "byte \<Rightarrow> bool" where
  "uri_unreserved b \<longleftrightarrow>
     0x30 \<le> b \<and> b \<le> 0x39 \<or> 0x41 \<le> b \<and> b \<le> 0x5a \<or> 0x61 \<le> b \<and> b \<le> 0x7a
     \<or> b \<in> {0x2d, 0x5f, 0x2e, 0x21, 0x7e, 0x2a, 0x27, 0x28, 0x29}"

definition hex_digit :: "nat \<Rightarrow> js_char" where
  "hex_digit n = (if n < 10 then of_nat (0x30 + n) else of_nat (0x37 + n))"

definition encodeURIComponent :: "js_string \<Rightarrow> js_string option" where
  "encodeURIComponent s =
     (if well_formed s
      then Some (concat (map (\<lambda>b. if uri_unreserved b then [ucast b]
             else [0x25, hex_digit (unat b div 16), hex_digit (unat b mod 16)]) (textEncoder_encode s)))
      else None)"

datatype queue_key = DocumentKey js_string js_string | PathKey js_string

record document_descriptor =
  dd_id :: js_string
  dd_timestamp :: js_string
  dd_fileName :: js_string
  dd_operationKey :: queue_key

record jsonl_create_options =
  jo_id :: "js_string option"
  jo_cwd :: js_string
  jo_parentSessionPath :: "js_string option"
  jo_metadata :: "(js_string \<times> json) list option"

definition createDocumentDescriptor ::
  "jsonl_create_options \<Rightarrow> js_string \<Rightarrow> js_string \<Rightarrow> jsonl_error + document_descriptor" where
  "createDocumentDescriptor options fresh now =
     (let i = (case jo_id options of Some i \<Rightarrow> i | None \<Rightarrow> fresh) in
      if i = [] then Inl EmptySessionId
      else case encodeURIComponent i of
        None \<Rightarrow> Inl (InvalidSessionId i)
      | Some encodedId \<Rightarrow>
          let fileName = map (\<lambda>c. if c = 0x3a \<or> c = 0x2e then 0x2d else c) now @ js ''_'' @ encodedId @ js ''.jsonl'' in
          Inr \<lparr>dd_id = i, dd_timestamp = now, dd_fileName = fileName,
               dd_operationKey = DocumentKey (encodeCwd (jo_cwd options)) fileName\<rparr>)"

subsection \<open>The file system\<close>

datatype fs_call = Exists | ReadTextFile | ReadTextLines | WriteFile | AppendFile | CreateDir | Remove | ListDir

datatype file_error = FileNotFound | OtherFileError

text \<open>A call that fails does so with an error, and a failed write may have written the first code units of its text.\<close>

type_synonym fs_faults = "fs_call \<Rightarrow> js_string \<Rightarrow> (file_error \<times> nat option) option"

record jsonl_world =
  files :: "(js_string \<times> js_string) list"
  dirs :: "js_string list"
  entryIndexesByPath :: "(js_string \<times> session_index) list"
  operationKeysByPath :: "(js_string \<times> queue_key) list"
  jw_disposed :: bool

type_synonym 'a jsonl_result = "(jsonl_error + 'a) \<times> jsonl_world"

definition result_then :: "'a jsonl_result \<Rightarrow> ('a \<Rightarrow> jsonl_world \<Rightarrow> 'b jsonl_result) \<Rightarrow> 'b jsonl_result" where
  "result_then r f = (case r of (Inl e, w) \<Rightarrow> (Inl e, w) | (Inr a, w) \<Rightarrow> f a w)"

text \<open>\<open>getFileSystemResultOrThrow\<close>\<close>

definition file_result :: "js_string \<Rightarrow> file_error \<Rightarrow> jsonl_error" where
  "file_result path e = (case e of FileNotFound \<Rightarrow> FileMissing path | OtherFileError \<Rightarrow> FileTrouble path)"

definition fs_exists :: "fs_faults \<Rightarrow> js_string \<Rightarrow> jsonl_world \<Rightarrow> jsonl_error + bool" where
  "fs_exists fault path w =
     (case fault Exists path of
        Some (OtherFileError, _) \<Rightarrow> Inl (file_result path OtherFileError)
      | _ \<Rightarrow> Inr (map_of (files w) path \<noteq> None \<or> path \<in> set (dirs w)))"

definition fs_read :: "fs_call \<Rightarrow> fs_faults \<Rightarrow> js_string \<Rightarrow> jsonl_world \<Rightarrow> jsonl_error + js_string" where
  "fs_read call fault path w =
     (case fault call path of
        Some (e, _) \<Rightarrow> Inl (file_result path e)
      | None \<Rightarrow>
          (case map_of (files w) path of
             Some content \<Rightarrow> Inr content
           | None \<Rightarrow> Inl (file_result path (if path \<in> set (dirs w) then OtherFileError else FileNotFound))))"

definition fs_write :: "fs_call \<Rightarrow> fs_faults \<Rightarrow> js_string \<Rightarrow> js_string \<Rightarrow> js_string \<Rightarrow> jsonl_world \<Rightarrow> unit jsonl_result" where
  "fs_write call fault path before content w =
     (case fault call path of
        Some (e, None) \<Rightarrow> (Inl (file_result path e), w)
      | Some (e, Some n) \<Rightarrow> (Inl (file_result path e), w\<lparr>files := map_set path (before @ take n content) (files w)\<rparr>)
      | None \<Rightarrow> (Inr (), w\<lparr>files := map_set path (before @ content) (files w)\<rparr>))"

definition writeFile :: "fs_faults \<Rightarrow> js_string \<Rightarrow> js_string \<Rightarrow> jsonl_world \<Rightarrow> unit jsonl_result" where
  "writeFile fault path content w = fs_write WriteFile fault path [] content w"

definition appendFile :: "fs_faults \<Rightarrow> js_string \<Rightarrow> js_string \<Rightarrow> jsonl_world \<Rightarrow> unit jsonl_result" where
  "appendFile fault path content w =
     fs_write AppendFile fault path (case map_of (files w) path of Some c \<Rightarrow> c | None \<Rightarrow> []) content w"

definition createDir :: "fs_faults \<Rightarrow> js_string \<Rightarrow> jsonl_world \<Rightarrow> unit jsonl_result" where
  "createDir fault dir w =
     (case fault CreateDir dir of
        Some (e, _) \<Rightarrow> (Inl (file_result dir e), w)
      | None \<Rightarrow> (Inr (), w\<lparr>dirs := (if dir \<in> set (dirs w) then dirs w else dirs w @ [dir])\<rparr>))"

definition removeFile :: "fs_faults \<Rightarrow> js_string \<Rightarrow> jsonl_world \<Rightarrow> unit jsonl_result" where
  "removeFile fault path w =
     (case fault Remove path of
        Some (e, _) \<Rightarrow> (Inl (file_result path e), w)
      | None \<Rightarrow> (Inr (), w\<lparr>files := map_delete path (files w)\<rparr>))"

text \<open>The name of a path in a directory, and the directory's children that are files or directories. The order of
  \<open>readdir\<close> is that of creation here.\<close>

definition child_name :: "js_string \<Rightarrow> js_string \<Rightarrow> js_string option" where
  "child_name dir path =
     (let n = length dir + 1; rest = drop n path in
      if take n path = dir @ [slash] \<and> rest \<noteq> [] \<and> slash \<notin> set rest then Some rest else None)"

definition listDir :: "fs_faults \<Rightarrow> js_string \<Rightarrow> js_string list \<Rightarrow> jsonl_error + js_string list" where
  "listDir fault dir paths =
     (case fault ListDir dir of
        Some (e, _) \<Rightarrow> Inl (file_result dir e)
      | None \<Rightarrow> Inr (filter (\<lambda>p. child_name dir p \<noteq> None) paths))"

subsection \<open>The backend\<close>

definition new_jsonl :: "(js_string \<times> js_string) list \<Rightarrow> js_string list \<Rightarrow> jsonl_world" where
  "new_jsonl fs ds = \<lparr>files = fs, dirs = ds, entryIndexesByPath = [], operationKeysByPath = [], jw_disposed = False\<rparr>"

definition jsonl_assertOpen :: "jsonl_world \<Rightarrow> unit jsonl_result" where
  "jsonl_assertOpen w = ((if jw_disposed w then Inl JsonlDisposed else Inr ()), w)"

definition operationKey :: "jsonl_metadata \<Rightarrow> jsonl_world \<Rightarrow> queue_key" where
  "operationKey m w = (case map_of (operationKeysByPath w) (j_path m) of Some k \<Rightarrow> k | None \<Rightarrow> PathKey (j_path m))"

definition getSessionDir :: "js_string \<Rightarrow> js_string \<Rightarrow> js_string" where
  "getSessionDir sessionsRoot cwd = sessionsRoot @ slash # encodeCwd cwd"

definition require_document :: "fs_faults \<Rightarrow> js_string \<Rightarrow> jsonl_world \<Rightarrow> unit jsonl_result" where
  "require_document fault path w =
     (case fs_exists fault path w of
        Inl e \<Rightarrow> (Inl e, w)
      | Inr there \<Rightarrow> if there then (Inr (), w) else (Inl (DocumentNotFound path), w))"

text \<open>Reading a document and bringing its index up to date, which \<open>loadDocument\<close> and \<open>fork\<close> do.\<close>

definition read_document :: "json_env \<Rightarrow> fs_faults \<Rightarrow> js_string \<Rightarrow> jsonl_world \<Rightarrow> jsonl_metadata jsonl_result" where
  "read_document env fault path w =
     (case and_then (fs_read ReadTextFile fault path w) (loadJsonlSession env path) of
        Inl e \<Rightarrow> (Inl e, w)
      | Inr (metadata, es) \<Rightarrow>
          (case (case map_of (entryIndexesByPath w) path of
                   Some idx \<Rightarrow> index_replace es idx
                 | None \<Rightarrow> new_ArraySessionIndex es) of
             Inl e \<Rightarrow> (Inl (IndexError e), w)
           | Inr idx \<Rightarrow> (Inr metadata, w\<lparr>entryIndexesByPath := map_set path idx (entryIndexesByPath w)\<rparr>)))"

definition loadDocument :: "json_env \<Rightarrow> fs_faults \<Rightarrow> jsonl_metadata \<Rightarrow> jsonl_world \<Rightarrow> jsonl_metadata jsonl_result" where
  "loadDocument env fault m w =
     result_then (require_document fault (j_path m) w) (\<lambda>_ w. read_document env fault (j_path m) w)"

definition jsonl_open :: "json_env \<Rightarrow> fs_faults \<Rightarrow> jsonl_metadata \<Rightarrow> jsonl_world \<Rightarrow> jsonl_metadata jsonl_result" where
  "jsonl_open env fault m w = result_then (jsonl_assertOpen w) (\<lambda>_ w. loadDocument env fault m w)"

definition header_json :: "session_header \<Rightarrow> json" where
  "header_json h = JObj
     ([(js ''type'', JStr (js ''session'')), (js ''version'', JNum 3), (js ''id'', JStr (hd_id h)),
       (js ''timestamp'', JStr (hd_timestamp h)), (js ''cwd'', JStr (hd_cwd h))]
      @ (case hd_parentSession h of None \<Rightarrow> [] | Some p \<Rightarrow> [(js ''parentSession'', JStr p)])
      @ (case hd_metadata h of None \<Rightarrow> [] | Some kvs \<Rightarrow> [(js ''metadata'', JObj kvs)]))"

definition entry_line :: "json_env \<Rightarrow> tree_entry \<Rightarrow> js_string" where
  "entry_line env e = json_stringify env (json_of_entry env e)"

definition document_text :: "json_env \<Rightarrow> session_header \<Rightarrow> tree_entry list \<Rightarrow> js_string" where
  "document_text env header es = join [newline] (json_stringify env (header_json header) # map (entry_line env) es @ [[]])"

definition createDocument ::
  "json_env \<Rightarrow> fs_faults \<Rightarrow> js_string \<Rightarrow> document_descriptor \<Rightarrow> js_string \<Rightarrow> js_string option
     \<Rightarrow> (js_string \<times> json) list option \<Rightarrow> tree_entry list \<Rightarrow> jsonl_world \<Rightarrow> jsonl_metadata jsonl_result" where
  "createDocument env fault sessionsRoot descriptor cwd parentSessionPath metadata es w =
     (let dir = getSessionDir sessionsRoot cwd; path = dir @ slash # dd_fileName descriptor in
      result_then (createDir fault dir w) (\<lambda>_ w.
      case fs_exists fault path w of
        Inl e \<Rightarrow> (Inl e, w)
      | Inr True \<Rightarrow> (Inl (DocumentExists path), w)
      | Inr False \<Rightarrow>
          (let header = \<lparr>hd_id = dd_id descriptor, hd_timestamp = dd_timestamp descriptor, hd_cwd = cwd,
                         hd_parentSession = parentSessionPath, hd_metadata = metadata\<rparr> in
           result_then (writeFile fault path (document_text env header es) w) (\<lambda>_ w.
           case new_ArraySessionIndex es of
             Inl e \<Rightarrow> (Inl (IndexError e), w)
           | Inr idx \<Rightarrow> (Inr (metadataFromHeader header path),
               w\<lparr>entryIndexesByPath := map_set path idx (entryIndexesByPath w),
                 operationKeysByPath := map_set path (dd_operationKey descriptor) (operationKeysByPath w)\<rparr>)))))"

definition jsonl_create ::
  "json_env \<Rightarrow> fs_faults \<Rightarrow> js_string \<Rightarrow> jsonl_create_options \<Rightarrow> js_string \<Rightarrow> js_string \<Rightarrow> jsonl_world
     \<Rightarrow> jsonl_metadata jsonl_result" where
  "jsonl_create env fault sessionsRoot options fresh now w =
     result_then (jsonl_assertOpen w) (\<lambda>_ w.
     case createDocumentDescriptor options fresh now of
       Inl e \<Rightarrow> (Inl e, w)
     | Inr descriptor \<Rightarrow>
         createDocument env fault sessionsRoot descriptor (jo_cwd options) (jo_parentSessionPath options) (jo_metadata options) [] w)"

definition jsonl_append ::
  "json_env \<Rightarrow> fs_faults \<Rightarrow> jsonl_metadata \<Rightarrow> tree_entry \<Rightarrow> jsonl_world \<Rightarrow> unit jsonl_result" where
  "jsonl_append env fault m entry w =
     result_then (jsonl_assertOpen w) (\<lambda>_ w.
     result_then (require_document fault (j_path m) w) (\<lambda>_ w.
     result_then (if map_of (entryIndexesByPath w) (j_path m) = None
                  then result_then (loadDocument env fault m w) (\<lambda>_ w. (Inr (), w)) else (Inr (), w)) (\<lambda>_ w.
     case map_of (entryIndexesByPath w) (j_path m) of
       None \<Rightarrow> (Inl (DocumentNotFound (j_path m)), w)
     | Some idx \<Rightarrow>
         if has idx (eid entry) then (Inl (EntryExists (eid entry)), w)
         else result_then (appendFile fault (j_path m) (entry_line env entry @ [newline]) w) (\<lambda>_ w.
           case index_append entry idx of
             Inl e \<Rightarrow> (Inl (IndexError e), w)
           | Inr idx' \<Rightarrow> (Inr (), w\<lparr>entryIndexesByPath := map_set (j_path m) idx' (entryIndexesByPath w)\<rparr>)))))"

definition jsonl_delete :: "fs_faults \<Rightarrow> jsonl_metadata \<Rightarrow> jsonl_world \<Rightarrow> unit jsonl_result" where
  "jsonl_delete fault m w =
     result_then (jsonl_assertOpen w) (\<lambda>_ w.
     result_then (removeFile fault (j_path m) w) (\<lambda>_ w.
     (Inr (), w\<lparr>entryIndexesByPath := map_delete (j_path m) (entryIndexesByPath w),
               operationKeysByPath := map_delete (j_path m) (operationKeysByPath w)\<rparr>)))"

text \<open>A read of an opened storage.\<close>

definition readIndex :: "jsonl_metadata \<Rightarrow> (session_index \<Rightarrow> 'a) \<Rightarrow> jsonl_world \<Rightarrow> jsonl_error + 'a" where
  "readIndex m read w =
     (if jw_disposed w then Inl JsonlDisposed
      else case map_of (entryIndexesByPath w) (j_path m) of
        None \<Rightarrow> Inl (DocumentNotFound (j_path m))
      | Some idx \<Rightarrow> Inr (read idx))"

text \<open>\<open>fork\<close>, its two queued operations in their order; a path that never ends is \<open>None\<close>.\<close>

definition jsonl_fork ::
  "json_env \<Rightarrow> fs_faults \<Rightarrow> js_string \<Rightarrow> jsonl_metadata \<Rightarrow> jsonl_create_options \<Rightarrow> fork_selection \<Rightarrow> js_string \<Rightarrow> js_string
     \<Rightarrow> jsonl_world \<Rightarrow> jsonl_metadata jsonl_result option" where
  "jsonl_fork env fault sessionsRoot source options selection fresh now w =
     (if jw_disposed w then Some (Inl JsonlDisposed, w)
      else case createDocumentDescriptor options fresh now of
        Inl e \<Rightarrow> Some (Inl e, w)
      | Inr descriptor \<Rightarrow>
          (case loadDocument env fault source w of
             (Inl e, w) \<Rightarrow> Some (Inl e, w)
           | (Inr _, w) \<Rightarrow>
               (case map_of (entryIndexesByPath w) (j_path source) of
                  None \<Rightarrow> Some (Inl (DocumentNotFound (j_path source)), w)
                | Some idx \<Rightarrow>
                    map_option (\<lambda>r.
                      case r of
                        Inl e \<Rightarrow> (Inl (IndexError e), w)
                      | Inr es \<Rightarrow>
                          createDocument env fault sessionsRoot descriptor (jo_cwd options)
                            (case jo_parentSessionPath options of Some p \<Rightarrow> Some p | None \<Rightarrow> Some (j_path source))
                            (case jo_metadata options of Some kvs \<Rightarrow> Some kvs | None \<Rightarrow> j_metadata source) es w)
                      (readSessionEntriesForFork idx selection))))"

definition jsonl_dispose :: "jsonl_world \<Rightarrow> jsonl_world" where
  "jsonl_dispose w = w\<lparr>jw_disposed := True\<rparr>"

subsection \<open>Listing\<close>

definition ends_with_jsonl :: "js_string \<Rightarrow> bool" where
  "ends_with_jsonl p \<longleftrightarrow> drop (length p - 6) p = js ''.jsonl''"

definition list_directory :: "json_env \<Rightarrow> fs_faults \<Rightarrow> js_string \<Rightarrow> jsonl_world \<Rightarrow> jsonl_error + jsonl_metadata list" where
  "list_directory env fault dir w =
     and_then (fs_exists fault dir w) (\<lambda>there.
     if \<not> there then Inr []
     else and_then (listDir fault dir (map fst (files w))) (\<lambda>paths.
       for_each (\<lambda>p found. and_then (fs_read ReadTextLines fault p w) (\<lambda>content.
           and_then (loadJsonlSessionMetadata env p content) (\<lambda>m. Inr (found @ [m]))))
         (filter ends_with_jsonl paths) []))"

definition listSessionDirs :: "fs_faults \<Rightarrow> js_string \<Rightarrow> jsonl_world \<Rightarrow> jsonl_error + js_string list" where
  "listSessionDirs fault sessionsRoot w =
     and_then (fs_exists fault sessionsRoot w) (\<lambda>there. if \<not> there then Inr [] else listDir fault sessionsRoot (dirs w))"

text \<open>\<open>getTime\<close> is the time of a date text, a parameter; all times are valid dates.\<close>

definition listSessions ::
  "json_env \<Rightarrow> fs_faults \<Rightarrow> (js_string \<Rightarrow> int) \<Rightarrow> js_string \<Rightarrow> js_string option \<Rightarrow> jsonl_world
     \<Rightarrow> jsonl_error + jsonl_metadata list" where
  "listSessions env fault getTime sessionsRoot cwd w =
     and_then (case cwd of Some d \<Rightarrow> if d = [] then listSessionDirs fault sessionsRoot w else Inr [getSessionDir sessionsRoot d]
               | None \<Rightarrow> listSessionDirs fault sessionsRoot w) (\<lambda>ds.
     and_then (for_each (\<lambda>d found. and_then (list_directory env fault d w) (\<lambda>ms. Inr (found @ ms))) ds []) (\<lambda>sessions.
     Inr (sort_by (\<lambda>a b. getTime (j_createdAt b) - getTime (j_createdAt a)) sessions)))"

definition jsonl_list ::
  "json_env \<Rightarrow> fs_faults \<Rightarrow> (js_string \<Rightarrow> int) \<Rightarrow> js_string \<Rightarrow> js_string option \<Rightarrow> jsonl_world
     \<Rightarrow> jsonl_error + jsonl_metadata list" where
  "jsonl_list env fault getTime sessionsRoot cwd w =
     (if jw_disposed w then Inl JsonlDisposed else listSessions env fault getTime sessionsRoot cwd w)"

end
