(* ===== verification/JsonlFacts.thy ===== *)
theory JsonlFacts
  imports JsonlRepo
begin

text \<open>
  The files of the JSONL repository and its indexes agree: whatever a process has in memory of a session it opened, a process
  started later reads back from the file. The last part has what goes wrong when a file does not end with a newline, when
  one file is damaged, and when two directories have the same encoded name.
\<close>

subsection \<open>Lines\<close>

lemma split_on_append_sep: "split_on c (a @ c # b) = split_on c a @ split_on c b"
proof (induction a)
  case (Cons x a)
  then show ?case by (cases "split_on c a") auto
qed simp

definition line_end :: "js_string \<Rightarrow> bool" where
  "line_end content \<longleftrightarrow> content = [] \<or> last content = newline"

lemma document_lines_append:
  assumes "line_end content" "newline \<notin> set line" "trim line \<noteq> []"
  shows "document_lines (content @ line @ [newline]) = document_lines content @ [line]"
proof (cases "content = []")
  case True
  with assms show ?thesis by (simp add: document_lines_def split_on_append)
next
  case False
  then obtain c where c: "content = c @ [newline]"
    using assms(1) by (metis append_butlast_last_id line_end_def)
  have "split_on newline (content @ line @ [newline]) = split_on newline c @ line # [[]]"
    using assms(2) by (simp add: c split_on_append_sep split_on_append split_on_whole)
  with assms(3) show ?thesis by (simp add: document_lines_def c split_on_append_sep)
qed

lemma document_lines_join:
  assumes "\<forall>l \<in> set ls. newline \<notin> set l \<and> trim l \<noteq> []"
  shows "document_lines (join [newline] (ls @ [[]])) = ls"
proof -
  have "split_on newline (join [newline] (ls @ [[]])) = ls @ [[]]"
    using assms by (intro split_join) auto
  then show ?thesis using assms by (simp add: document_lines_def filter_id_conv)
qed

lemma line_end_join: "line_end (join [newline] (ls @ [[]]))"
proof (induction ls)
  case (Cons l ls)
  then show ?case by (cases "join [newline] (ls @ [[]]) = []") (auto simp: join_cons line_end_def)
qed (simp add: line_end_def)

subsection \<open>What can be read back\<close>

definition reads_back :: "json_env \<Rightarrow> json \<Rightarrow> bool" where
  "reads_back env v \<longleftrightarrow> json_parse env (json_stringify env v) = Some v \<and> newline \<notin> set (json_stringify env v)
     \<and> trim (json_stringify env v) \<noteq> []"

definition entry_value :: "tree_entry \<Rightarrow> json \<Rightarrow> bool" where
  "entry_value e v \<longleftrightarrow> (\<exists>kvs t. v = JObj kvs \<and> json_field kvs ''type'' = Some (JStr t)
     \<and> eid e \<noteq> [] \<and> json_field kvs ''id'' = Some (JStr (eid e))
     \<and> json_field kvs ''parentId'' = Some (case parentId e of None \<Rightarrow> JNull | Some p \<Rightarrow> JStr p)
     \<and> timestamp e \<noteq> [] \<and> json_field kvs ''timestamp'' = Some (JStr (timestamp e))
     \<and> (\<forall>target. body e = Leaf target \<longrightarrow>
          json_field kvs ''targetId'' = Some (case target of None \<Rightarrow> JNull | Some i \<Rightarrow> JStr i))
     \<and> (t = js ''leaf'' \<longrightarrow> entry_type e = TLeaf))"

text \<open>An entry whose JSON text is one line that \<open>JSON.parse\<close> takes back, with the fields of the entry.\<close>

definition storable :: "json_env \<Rightarrow> tree_entry \<Rightarrow> bool" where
  "storable env e \<longleftrightarrow> reads_back env (json_of_entry env e) \<and> entry_value e (json_of_entry env e)
     \<and> as_entry env (json_of_entry env e) = e"

definition header_ok :: "json_env \<Rightarrow> session_header \<Rightarrow> bool" where
  "header_ok env h \<longleftrightarrow> reads_back env (header_json h) \<and> hd_id h \<noteq> [] \<and> hd_timestamp h \<noteq> [] \<and> hd_cwd h \<noteq> []"

lemma leaf_body: "entry_type e = TLeaf \<Longrightarrow> \<exists>target. body e = Leaf target"
  by (cases "body e") auto

lemma parseEntry_storable:
  assumes "storable env e"
  shows "parseEntry env (entry_line env e) path n = Inr e"
proof -
  obtain kvs t where v: "json_of_entry env e = JObj kvs" "json_field kvs ''type'' = Some (JStr t)" "eid e \<noteq> []"
    "json_field kvs ''id'' = Some (JStr (eid e))"
    "json_field kvs ''parentId'' = Some (case parentId e of None \<Rightarrow> JNull | Some p \<Rightarrow> JStr p)"
    "timestamp e \<noteq> []" "json_field kvs ''timestamp'' = Some (JStr (timestamp e))"
    and leaf: "\<And>target. body e = Leaf target \<Longrightarrow> json_field kvs ''targetId'' = Some (case target of None \<Rightarrow> JNull | Some i \<Rightarrow> JStr i)"
    "t = js ''leaf'' \<Longrightarrow> entry_type e = TLeaf"
    using assms by (auto simp: storable_def entry_value_def)
  have target: "json_field kvs ''targetId'' = Some JNull \<or> (\<exists>i. json_field kvs ''targetId'' = Some (JStr i))" if "t = js ''leaf''"
    using leaf(1) leaf_body [OF leaf(2) [OF that]] by (auto split: option.splits)
  have "json_parse env (entry_line env e) = Some (JObj kvs)" "as_entry env (JObj kvs) = e"
    using assms v(1) by (auto simp: storable_def reads_back_def entry_line_def)
  with v target show ?thesis
    by (auto simp: parseEntry_def json_object_def text_field_def split: option.splits)
qed

lemma entry_line_storable:
  "storable env e \<Longrightarrow> newline \<notin> set (entry_line env e) \<and> trim (entry_line env e) \<noteq> []"
  by (simp add: storable_def reads_back_def entry_line_def)

lemma parseHeader_header:
  assumes "header_ok env h"
  shows "parseHeader env (json_stringify env (header_json h)) path = Inr h"
proof -
  have "parse_object env (json_stringify env (header_json h)) = json_object (header_json h)"
    using assms by (simp add: header_ok_def reads_back_def parse_object_def)
  with assms show ?thesis
    by (cases "hd_parentSession h"; cases "hd_metadata h")
      (simp_all add: parseHeader_def header_json_def json_object_def json_field_def text_field_def js_eq_iff header_ok_def)
qed

lemma parse_entries_snoc:
  "parse_entries env path n (ls @ [l]) =
     and_then (parse_entries env path n ls) (\<lambda>es. and_then (parseEntry env l path (n + length ls)) (\<lambda>e. Inr (es @ [e])))"
proof (induction ls arbitrary: n)
  case (Cons k ls)
  show ?case
    by (cases "parseEntry env k path n"; cases "parse_entries env path (n + 1) ls";
      cases "parseEntry env l path (n + 1 + length ls)") (simp_all add: Cons.IH)
qed (cases "parseEntry env l path n"; simp)

lemma parse_entries_storable:
  "\<forall>e \<in> set es. storable env e \<Longrightarrow> parse_entries env path n (map (entry_line env) es) = Inr es"
  by (induction es arbitrary: n) (simp_all add: parseEntry_storable)

lemma first_duplicate_None: "first_duplicate seen ids = None \<longleftrightarrow> distinct ids \<and> set seen \<inter> set ids = {}"
  by (induction ids arbitrary: seen) auto

lemma load_eq:
  "loadJsonlSession env path content = Inr (m, es) \<longleftrightarrow>
     (\<exists>line ls h. document_lines content = line # ls \<and> parseHeader env line path = Inr h
       \<and> parse_entries env path 2 ls = Inr es \<and> distinct (map eid es) \<and> m = metadataFromHeader h path)"
proof (cases "document_lines content")
  case (Cons line ls)
  have "first_duplicate [] (map eid es) = None \<longleftrightarrow> distinct (map eid es)" by (simp add: first_duplicate_None)
  with Cons show ?thesis
    by (cases "parseHeader env line path"; cases "parse_entries env path 2 ls"; cases "first_duplicate [] (map eid es)")
      (fastforce simp: loadJsonlSession_def split: option.splits)+
qed (simp add: loadJsonlSession_def)

lemma load_append:
  assumes load: "loadJsonlSession env path content = Inr (m, es)" and le: "line_end content"
    and e: "storable env e" "eid e \<notin> ids_of es"
  shows "loadJsonlSession env path (content @ entry_line env e @ [newline]) = Inr (m, es @ [e])"
proof -
  obtain line ls h where l: "document_lines content = line # ls" "parseHeader env line path = Inr h"
    "parse_entries env path 2 ls = Inr es" "distinct (map eid es)" "m = metadataFromHeader h path"
    using load unfolding load_eq by blast
  have "document_lines (content @ entry_line env e @ [newline]) = line # (ls @ [entry_line env e])"
    using document_lines_append [OF le] entry_line_storable [OF e(1)] l(1) by simp
  moreover have "parse_entries env path 2 (ls @ [entry_line env e]) = Inr (es @ [e])"
    by (simp add: parse_entries_snoc l(3) parseEntry_storable [OF e(1)])
  moreover have "distinct (map eid (es @ [e]))" using l(4) e(2) by (auto simp: ids_of_def)
  ultimately show ?thesis unfolding load_eq using l(2,5) by blast
qed

lemma document_text_load:
  assumes h: "header_ok env h" and es: "\<forall>e \<in> set es. storable env e" "distinct (map eid es)"
  shows "loadJsonlSession env path (document_text env h es) = Inr (metadataFromHeader h path, es)"
proof -
  have "document_lines (document_text env h es) = json_stringify env (header_json h) # map (entry_line env) es"
    using document_lines_join [of "json_stringify env (header_json h) # map (entry_line env) es"] h es(1) entry_line_storable
    by (auto simp: document_text_def header_ok_def reads_back_def)
  with h es show ?thesis unfolding load_eq using parseHeader_header parse_entries_storable by blast
qed

lemma document_text_end: "line_end (document_text env h es)"
  using line_end_join [of "json_stringify env (header_json h) # map (entry_line env) es"] by (simp add: document_text_def)

subsection \<open>Indexes and files\<close>

definition indexed :: "json_env \<Rightarrow> jsonl_world \<Rightarrow> js_string \<Rightarrow> session_index \<Rightarrow> bool" where
  "indexed env w path idx \<longleftrightarrow> (\<exists>content m es. map_of (files w) path = Some content
     \<and> loadJsonlSession env path content = Inr (m, es) \<and> idx = index_view es)"

definition jsonl_ok :: "json_env \<Rightarrow> jsonl_world \<Rightarrow> bool" where
  "jsonl_ok env w \<longleftrightarrow> (\<forall>path content. map_of (files w) path = Some content \<longrightarrow> line_end content)
     \<and> (\<forall>path idx. map_of (entryIndexesByPath w) path = Some idx \<longrightarrow> indexed env w path idx)"

lemma jsonl_ok_line_end: "jsonl_ok env w \<Longrightarrow> map_of (files w) path = Some content \<Longrightarrow> line_end content"
  unfolding jsonl_ok_def by blast

lemma jsonl_ok_indexed: "jsonl_ok env w \<Longrightarrow> map_of (entryIndexesByPath w) path = Some idx \<Longrightarrow> indexed env w path idx"
  unfolding jsonl_ok_def by blast

lemma jsonl_okI:
  assumes "\<And>path content. map_of (files w) path = Some content \<Longrightarrow> line_end content"
    "\<And>path idx. map_of (entryIndexesByPath w) path = Some idx \<Longrightarrow> indexed env w path idx"
  shows "jsonl_ok env w"
  unfolding jsonl_ok_def using assms by blast

text \<open>No write stops in the middle.\<close>

definition whole_writes :: "fs_faults \<Rightarrow> bool" where
  "whole_writes fault \<longleftrightarrow> (\<forall>call path e n. fault call path \<noteq> Some (e, Some n))"

lemma result_thenI:
  assumes "P (snd r)" "\<And>a. fst r = Inr a \<Longrightarrow> P (snd (f a (snd r)))"
  shows "P (snd (result_then r f))"
  using assms by (cases r; cases "fst r") (auto simp: result_then_def)

lemma assertOpen_snd [simp]: "snd (jsonl_assertOpen w) = w"
  by (simp add: jsonl_assertOpen_def)

lemma require_document_snd [simp]: "snd (require_document fault path w) = w"
  by (simp add: require_document_def split: sum.split)

lemma index_replace_new: "index_replace es idx = new_ArraySessionIndex es"
  by (cases "replace_loop es Map.empty None createProjection")
    (auto simp: index_replace_def new_ArraySessionIndex_def empty_index_def)

lemma read_document_cases:
  obtains (error) e where "read_document env fault path w = (Inl e, w)"
  | (loaded) content m es where "map_of (files w) path = Some content" "loadJsonlSession env path content = Inr (m, es)"
      "read_document env fault path w =
        (Inr m, w\<lparr>entryIndexesByPath := map_set path (index_view es) (entryIndexesByPath w)\<rparr>)"
proof (cases "and_then (fs_read ReadTextFile fault path w) (loadJsonlSession env path)")
  case (Inl e)
  then show ?thesis using error by (simp add: read_document_def)
next
  case (Inr r)
  obtain m es where r: "r = (m, es)" by (cases r)
  obtain content where c: "map_of (files w) path = Some content" "loadJsonlSession env path content = Inr (m, es)"
    using Inr unfolding r by (auto simp: and_then_eq_Inr fs_read_def split: option.splits prod.splits)
  have "new_ArraySessionIndex es = Inr (index_view es)"
    using c(2) unfolding load_eq by (blast intro: new_index_view)
  then have "read_document env fault path w =
      (Inr m, w\<lparr>entryIndexesByPath := map_set path (index_view es) (entryIndexesByPath w)\<rparr>)"
    using Inr by (simp add: read_document_def r index_replace_new split: option.split)
  with c show ?thesis by (rule loaded)
qed

lemma read_document_ok:
  assumes ok: "jsonl_ok env w"
  shows "jsonl_ok env (snd (read_document env fault path w))"
proof (cases rule: read_document_cases [of env fault path w])
  case (error e)
  with ok show ?thesis by simp
next
  case (loaded content m es)
  let ?w = "w\<lparr>entryIndexesByPath := map_set path (index_view es) (entryIndexesByPath w)\<rparr>"
  have "jsonl_ok env ?w"
  proof (rule jsonl_okI)
    show "line_end c" if "map_of (files ?w) p = Some c" for p c
      using that jsonl_ok_line_end [OF ok] by simp
    show "indexed env ?w p idx" if "map_of (entryIndexesByPath ?w) p = Some idx" for p idx
      using that jsonl_ok_indexed [OF ok, of p idx] loaded by (auto simp: indexed_def split: if_splits)
  qed
  with loaded show ?thesis by simp
qed

lemma loadDocument_ok: "jsonl_ok env w \<Longrightarrow> jsonl_ok env (snd (loadDocument env fault m w))"
  unfolding loadDocument_def by (rule result_thenI) (simp_all add: read_document_ok)

lemma jsonl_open_ok: "jsonl_ok env w \<Longrightarrow> jsonl_ok env (snd (jsonl_open env fault m w))"
  unfolding jsonl_open_def by (rule result_thenI) (simp_all add: loadDocument_ok)

lemma createDir_snd:
  "files (snd (createDir fault dir w)) = files w" "entryIndexesByPath (snd (createDir fault dir w)) = entryIndexesByPath w"
  by (auto simp: createDir_def split: option.split)

lemma jsonl_ok_same:
  assumes "jsonl_ok env w" "files w' = files w" "entryIndexesByPath w' = entryIndexesByPath w"
  shows "jsonl_ok env w'"
  using assms by (simp add: jsonl_ok_def indexed_def)

lemma fs_write_whole:
  assumes "whole_writes fault"
  shows "(\<exists>e. fs_write call fault path before content w = (Inl e, w)) \<or>
    fs_write call fault path before content w = (Inr (), w\<lparr>files := map_set path (before @ content) (files w)\<rparr>)"
proof (cases "fault call path")
  case (Some r)
  obtain e n where "r = (e, n)" by (cases r)
  with assms Some show ?thesis by (cases n) (auto simp: fs_write_def whole_writes_def)
qed (simp add: fs_write_def)

text \<open>Writing a document and its index together.\<close>

lemma jsonl_ok_written:
  assumes ok: "jsonl_ok env w" and le: "line_end content" and load: "loadJsonlSession env path content = Inr (m, es)"
  shows "jsonl_ok env (w\<lparr>files := map_set path content (files w),
    entryIndexesByPath := map_set path (index_view es) (entryIndexesByPath w), operationKeysByPath := ks\<rparr>)" (is "jsonl_ok env ?w")
proof (rule jsonl_okI)
  show "line_end c" if "map_of (files ?w) p = Some c" for p c
    using that le jsonl_ok_line_end [OF ok, of p c] by (auto split: if_splits)
  show "indexed env ?w p idx" if "map_of (entryIndexesByPath ?w) p = Some idx" for p idx
    using that load jsonl_ok_indexed [OF ok, of p idx] by (auto simp: indexed_def split: if_splits)
qed

lemma createDocument_ok:
  assumes ok: "jsonl_ok env w" and fault: "whole_writes fault" and es: "\<forall>e \<in> set es. storable env e"
    and h: "header_ok env \<lparr>hd_id = dd_id d, hd_timestamp = dd_timestamp d, hd_cwd = cwd, hd_parentSession = parent, hd_metadata = md\<rparr>"
  shows "jsonl_ok env (snd (createDocument env fault sessionsRoot d cwd parent md es w))"
proof -
  let ?dir = "getSessionDir sessionsRoot cwd"
  let ?path = "?dir @ slash # dd_fileName d"
  let ?h = "\<lparr>hd_id = dd_id d, hd_timestamp = dd_timestamp d, hd_cwd = cwd, hd_parentSession = parent, hd_metadata = md\<rparr>"
  obtain r w1 where w1: "createDir fault ?dir w = (r, w1)" by (cases "createDir fault ?dir w")
  have ok1: "jsonl_ok env w1" using jsonl_ok_same [OF ok] createDir_snd [of fault ?dir w] w1 by simp
  show ?thesis
  proof (cases "r = Inr () \<and> fs_exists fault ?path w1 = Inr False
      \<and> writeFile fault ?path (document_text env ?h es) w1 = (Inr (), w1\<lparr>files := map_set ?path (document_text env ?h es) (files w1)\<rparr>)")
    case True
    let ?w2 = "w1\<lparr>files := map_set ?path (document_text env ?h es) (files w1)\<rparr>"
    show ?thesis
    proof (cases "distinct (map eid es)")
      case dist: True
      have "snd (createDocument env fault sessionsRoot d cwd parent md es w) = ?w2
          \<lparr>entryIndexesByPath := map_set ?path (index_view es) (entryIndexesByPath w1),
           operationKeysByPath := map_set ?path (dd_operationKey d) (operationKeysByPath w1)\<rparr>"
        using True w1 new_index_view [OF dist] by (simp add: createDocument_def Let_def result_then_def)
      with jsonl_ok_written [OF ok1 document_text_end document_text_load [OF h es dist]] show ?thesis by simp
    next
      case dup: False
      have "map_of (files w1) ?path = None"
        using True by (auto simp: fs_exists_def split: option.splits prod.splits file_error.splits)
      then have "map_of (entryIndexesByPath w1) ?path = None"
        using jsonl_ok_indexed [OF ok1, of ?path] by (cases "map_of (entryIndexesByPath w1) ?path") (auto simp: indexed_def)
      moreover have "snd (createDocument env fault sessionsRoot d cwd parent md es w) = ?w2"
        using True w1 new_index_duplicate [OF dup] by (auto simp: createDocument_def Let_def result_then_def)
      moreover have "jsonl_ok env ?w2" if "map_of (entryIndexesByPath w1) ?path = None"
      proof (rule jsonl_okI)
        show "line_end c" if "map_of (files ?w2) p = Some c" for p c
          using that jsonl_ok_line_end [OF ok1, of p c] document_text_end by (auto split: if_splits)
        show "indexed env ?w2 p idx" if "map_of (entryIndexesByPath ?w2) p = Some idx" for p idx
          using that \<open>map_of (entryIndexesByPath w1) ?path = None\<close> jsonl_ok_indexed [OF ok1, of p idx]
          by (cases "p = ?path") (auto simp: indexed_def)
      qed
      ultimately show ?thesis by simp
    qed
  next
    case False
    then have "snd (createDocument env fault sessionsRoot d cwd parent md es w) = w1"
      using w1 fs_write_whole [OF fault, of WriteFile ?path "[]" "document_text env ?h es" w1]
      by (cases r; cases "fs_exists fault ?path w1")
        (auto simp: createDocument_def Let_def result_then_def writeFile_def split: bool.split)
    with ok1 show ?thesis by simp
  qed
qed

lemma append_indexed:
  assumes ok: "jsonl_ok env w" and idx: "map_of (entryIndexesByPath w) path = Some idx"
    and e: "storable env entry" "\<not> has idx (eid entry)"
  obtains content m es where "map_of (files w) path = Some content" "idx = index_view es"
    "loadJsonlSession env path content = Inr (m, es)" "line_end content"
    "loadJsonlSession env path (content @ entry_line env entry @ [newline]) = Inr (m, es @ [entry])"
    "index_append entry idx = Inr (index_view (es @ [entry]))"
proof -
  obtain content m es where c: "map_of (files w) path = Some content" "idx = index_view es"
    "loadJsonlSession env path content = Inr (m, es)"
    using jsonl_ok_indexed [OF ok idx] by (auto simp: indexed_def)
  have new: "eid entry \<notin> ids_of es" using e(2) by (simp add: has_def c(2))
  have le: "line_end content" using jsonl_ok_line_end [OF ok c(1)] .
  show ?thesis
    using that [OF c le load_append [OF c(3) le e(1) new]] new by (simp add: c(2) index_append_view)
qed

lemma jsonl_append_open:
  assumes "\<not> jw_disposed w" "map_of (entryIndexesByPath w) (j_path m) = Some idx"
  shows "jsonl_append env fault m entry w =
    (case require_document fault (j_path m) w of
       (Inl e, w) \<Rightarrow> (Inl e, w)
     | (Inr _, w) \<Rightarrow>
         if has idx (eid entry) then (Inl (EntryExists (eid entry)), w)
         else result_then (appendFile fault (j_path m) (entry_line env entry @ [newline]) w) (\<lambda>_ w.
           case index_append entry idx of
             Inl e \<Rightarrow> (Inl (IndexError e), w)
           | Inr idx' \<Rightarrow> (Inr (), w\<lparr>entryIndexesByPath := map_set (j_path m) idx' (entryIndexesByPath w)\<rparr>)))"
proof -
  have "snd (require_document fault (j_path m) w) = w" by simp
  with assms show ?thesis
    by (cases "require_document fault (j_path m) w"; cases "fst (require_document fault (j_path m) w)")
      (auto simp: jsonl_append_def jsonl_assertOpen_def result_then_def)
qed

lemma append_refused:
  assumes "map_of (entryIndexesByPath w) (j_path m) = Some idx" "jw_disposed w \<or> has idx (eid entry)"
  shows "\<exists>error. jsonl_append env fault m entry w = (Inl error, w)"
proof (cases "jw_disposed w")
  case True
  then show ?thesis by (simp add: jsonl_append_def jsonl_assertOpen_def result_then_def)
next
  case False
  with assms(2) show ?thesis by (auto simp: jsonl_append_open [OF False assms(1)] require_document_def split: sum.split)
qed

lemma append_outcome:
  assumes ok: "jsonl_ok env w" and idx: "map_of (entryIndexesByPath w) (j_path m) = Some idx" and e: "storable env entry"
    and new: "\<not> jw_disposed w" "\<not> has idx (eid entry)"
  obtains (same) error where "jsonl_append env fault m entry w = (Inl error, w)"
  | (torn) e n content where "fault AppendFile (j_path m) = Some (e, Some n)" "map_of (files w) (j_path m) = Some content"
      "jsonl_append env fault m entry w = (Inl (file_result (j_path m) e),
        w\<lparr>files := map_set (j_path m) (content @ take n (entry_line env entry @ [newline])) (files w)\<rparr>)"
  | (added) content es where "map_of (files w) (j_path m) = Some content" "idx = index_view es"
      "jsonl_append env fault m entry w = (Inr (), w\<lparr>files := map_set (j_path m) (content @ entry_line env entry @ [newline]) (files w),
        entryIndexesByPath := map_set (j_path m) (index_view (es @ [entry])) (entryIndexesByPath w)\<rparr>)"
proof -
  obtain content m' es where c: "map_of (files w) (j_path m) = Some content" "idx = index_view es"
    "index_append entry idx = Inr (index_view (es @ [entry]))"
    using append_indexed [OF ok idx e new(2)] by metis
  note append = jsonl_append_open [OF new(1) idx, of env fault entry] new(2) appendFile_def fs_write_def c(1) result_then_def
  obtain q where q: "require_document fault (j_path m) w = (q, w)" by (metis require_document_snd prod.collapse)
  show ?thesis
  proof (cases q)
    case (Inl error)
    then show ?thesis using same by (simp add: append q)
  next
    case (Inr u)
    show ?thesis
    proof (cases "fault AppendFile (j_path m)")
      case None
      then show ?thesis using added [OF c(1,2)] by (simp add: append q Inr c(3))
    next
      case (Some r)
      then show ?thesis
        using same torn [OF _ c(1)] by (cases r; cases "snd r") (auto simp: append q Inr)
    qed
  qed
qed

lemma append_whole:
  assumes ok: "jsonl_ok env w" and fault: "whole_writes fault" and idx: "map_of (entryIndexesByPath w) path = Some idx"
    and e: "storable env entry" "\<not> has idx (eid entry)"
  defines "r \<equiv> result_then (appendFile fault path (entry_line env entry @ [newline]) w) (\<lambda>_ w.
      case index_append entry idx of
        Inl e \<Rightarrow> (Inl (IndexError e), w)
      | Inr idx' \<Rightarrow> (Inr (), w\<lparr>entryIndexesByPath := map_set path idx' (entryIndexesByPath w)\<rparr>))"
  shows "(\<exists>error. r = (Inl error, w)) \<or>
    (\<exists>content m es. map_of (files w) path = Some content \<and> idx = index_view es \<and> line_end content
      \<and> loadJsonlSession env path content = Inr (m, es)
      \<and> loadJsonlSession env path (content @ entry_line env entry @ [newline]) = Inr (m, es @ [entry])
      \<and> r = (Inr (), w\<lparr>files := map_set path (content @ entry_line env entry @ [newline]) (files w),
          entryIndexesByPath := map_set path (index_view (es @ [entry])) (entryIndexesByPath w)\<rparr>))"
proof -
  obtain content m es where c: "map_of (files w) path = Some content" "idx = index_view es"
    "loadJsonlSession env path content = Inr (m, es)" "line_end content"
    "loadJsonlSession env path (content @ entry_line env entry @ [newline]) = Inr (m, es @ [entry])"
    "index_append entry idx = Inr (index_view (es @ [entry]))"
    using append_indexed [OF ok idx e] .
  have "(\<exists>error. r = (Inl error, w)) \<or>
    r = (Inr (), w\<lparr>files := map_set path (content @ entry_line env entry @ [newline]) (files w),
          entryIndexesByPath := map_set path (index_view (es @ [entry])) (entryIndexesByPath w)\<rparr>)"
    using fs_write_whole [OF fault, of AppendFile path content "entry_line env entry @ [newline]" w]
    by (auto simp: r_def appendFile_def c(1,6) result_then_def)
  with c(1-5) show ?thesis by blast
qed

lemma append_core_ok:
  assumes ok: "jsonl_ok env w" and fault: "whole_writes fault" and idx: "map_of (entryIndexesByPath w) path = Some idx"
    and e: "storable env entry" "\<not> has idx (eid entry)"
  shows "jsonl_ok env (snd (result_then (appendFile fault path (entry_line env entry @ [newline]) w) (\<lambda>_ w.
      case index_append entry idx of
        Inl e \<Rightarrow> (Inl (IndexError e), w)
      | Inr idx' \<Rightarrow> (Inr (), w\<lparr>entryIndexesByPath := map_set path idx' (entryIndexesByPath w)\<rparr>))))"
proof -
  have le: "line_end (content @ entry_line env entry @ [newline])" for content by (simp add: line_end_def)
  from append_whole [OF ok fault idx e] show ?thesis
  proof (elim disjE exE conjE)
    fix content m es
    assume load: "loadJsonlSession env path (content @ entry_line env entry @ [newline]) = Inr (m, es @ [entry])"
      and r: "result_then (appendFile fault path (entry_line env entry @ [newline]) w) (\<lambda>_ w.
          case index_append entry idx of
            Inl e \<Rightarrow> (Inl (IndexError e), w)
          | Inr idx' \<Rightarrow> (Inr (), w\<lparr>entryIndexesByPath := map_set path idx' (entryIndexesByPath w)\<rparr>))
        = (Inr (), w\<lparr>files := map_set path (content @ entry_line env entry @ [newline]) (files w),
            entryIndexesByPath := map_set path (index_view (es @ [entry])) (entryIndexesByPath w)\<rparr>)"
    show ?thesis unfolding r using jsonl_ok_written [OF ok le load, of "operationKeysByPath w"] by simp
  qed (simp add: ok)
qed

lemma result_then_ok:
  assumes "jsonl_ok env (snd r)" "\<And>a w. jsonl_ok env w \<Longrightarrow> jsonl_ok env (snd (f a w))"
  shows "jsonl_ok env (snd (result_then r f))"
  using assms by (cases r; cases "fst r") (auto simp: result_then_def)

lemma jsonl_append_ok:
  assumes ok: "jsonl_ok env w" and fault: "whole_writes fault" and e: "storable env entry"
  shows "jsonl_ok env (snd (jsonl_append env fault m entry w))"
  unfolding jsonl_append_def
proof (rule result_then_ok, simp add: ok, rule result_then_ok, simp, rule result_then_ok, goal_cases)
  case (1 _ w1 _ w2)
  then show ?case using result_then_ok [OF loadDocument_ok [OF 1(2)], of "\<lambda>_ w. (Inr (), w)"] by simp
next
  case (2 _ w1 _ w2 _ w3)
  then show ?case
    using append_core_ok [OF _ fault _ e, of w3 "j_path m"] by (simp split: option.split)
qed

lemma jsonl_ok_delete:
  assumes ok: "jsonl_ok env w"
  shows "jsonl_ok env (w\<lparr>files := map_delete path (files w), entryIndexesByPath := map_delete path (entryIndexesByPath w),
    operationKeysByPath := ks\<rparr>)" (is "jsonl_ok env ?w")
proof (rule jsonl_okI)
  show "line_end c" if "map_of (files ?w) p = Some c" for p c
    using that jsonl_ok_line_end [OF ok, of p c] by (auto split: if_splits)
  show "indexed env ?w p idx" if "map_of (entryIndexesByPath ?w) p = Some idx" for p idx
    using that jsonl_ok_indexed [OF ok, of p idx] by (auto simp: indexed_def split: if_splits)
qed

lemma jsonl_delete_ok:
  assumes ok: "jsonl_ok env w"
  shows "jsonl_ok env (snd (jsonl_delete fault m w))"
proof (cases "jw_disposed w \<or> fault Remove (j_path m) \<noteq> None")
  case True
  then have "snd (jsonl_delete fault m w) = w"
    by (auto simp: jsonl_delete_def jsonl_assertOpen_def result_then_def removeFile_def split: if_splits)
  with ok show ?thesis by simp
next
  case False
  then have "\<not> jw_disposed w" "fault Remove (j_path m) = None" by blast+
  with jsonl_ok_delete [OF ok] show ?thesis
    by (simp add: jsonl_delete_def jsonl_assertOpen_def result_then_def removeFile_def)
qed

subsection \<open>Forks\<close>

lemma path_walk_subset:
  assumes "path_walk s current stop path = Some r"
  shows "\<forall>p. r = Inr p \<longrightarrow> set p \<subseteq> set path \<union> {current} \<union> ran (byId s)"
proof (rule path_walk.raw_induct [OF _ assms])
  fix walk s current stop path r
  assume IH: "\<And>s current stop path r. walk s current stop path = Some r \<Longrightarrow>
      \<forall>p. r = Inr p \<longrightarrow> set p \<subseteq> set path \<union> {current} \<union> ran (byId s)"
    and step: "(let path' = path @ [current] in
      if stop = Some (eid current) then Some (Inr path')
      else if (case body current of Compaction c \<Rightarrow> retainedTail c \<noteq> None | _ \<Rightarrow> False) then Some (Inr path')
      else let stop = (case body current of Compaction c \<Rightarrow> firstKeptEntryId c | _ \<Rightarrow> stop) in
        case parent_link current of
          None \<Rightarrow> Some (Inr path')
        | Some p \<Rightarrow>
            (case byId s p of
               None \<Rightarrow> Some (Inl (InvalidSession p))
             | Some parent \<Rightarrow> walk s parent stop path')) = Some r"
  show "\<forall>p. r = Inr p \<longrightarrow> set p \<subseteq> set path \<union> {current} \<union> ran (byId s)"
  proof (intro allI impI)
    fix p assume r: "r = Inr p"
    show "set p \<subseteq> set path \<union> {current} \<union> ran (byId s)"
    proof (cases "p = path @ [current]")
      case False
      with step r obtain parent i stop' where "byId s i = Some parent" "walk s parent stop' (path @ [current]) = Some (Inr p)"
        by (auto simp: Let_def split: if_splits option.splits)
      with IH have "set p \<subseteq> set (path @ [current]) \<union> {parent} \<union> ran (byId s)" "parent \<in> ran (byId s)"
        by (blast intro: ranI)+
      then show ?thesis by auto
    qed auto
  qed
qed

lemma readPath_subset:
  assumes "readPathToRootOrCompaction (index_view es) i = Some (Inr p)"
  shows "set p \<subseteq> set es"
proof (cases i)
  case (Some j)
  have sub: "ran (lookup_in es) \<subseteq> set es" using lookup_in_Some by (fastforce simp: ran_def)
  obtain current q where "lookup_in es j = Some current" "path_walk (index_view es) current None [] = Some (Inr q)" "set p = set q"
    using assms Some by (auto simp: readPathToRootOrCompaction_def split: option.splits sum.splits)
  with path_walk_subset [of "index_view es" current None "[]" "Inr q"] sub lookup_in_Some [of es j current] show ?thesis by auto
qed (use assms in \<open>simp add: readPathToRootOrCompaction_def\<close>)

lemma fork_entries_subset:
  assumes "readSessionEntriesForFork (index_view es) selection = Some (Inr fs)"
  shows "set fs \<subseteq> set es"
proof (cases selection)
  case AllEntries
  then show ?thesis using assms
    by (auto simp: readSessionEntriesForFork_def readEntries_def all_entries_def js_slice_def Let_def dest: in_set_takeD in_set_dropD)
qed (use assms readPath_subset in \<open>auto simp: readSessionEntriesForFork_def split: option.splits entry_body.splits agent_message.splits\<close>)

definition descriptor_header ::
  "document_descriptor \<Rightarrow> js_string \<Rightarrow> js_string option \<Rightarrow> (js_string \<times> json) list option \<Rightarrow> session_header" where
  "descriptor_header d cwd parent metadata = \<lparr>hd_id = dd_id d, hd_timestamp = dd_timestamp d, hd_cwd = cwd,
     hd_parentSession = parent, hd_metadata = metadata\<rparr>"

lemma jsonl_create_ok:
  assumes ok: "jsonl_ok env w" and fault: "whole_writes fault"
    and h: "\<And>d. createDocumentDescriptor options fresh now = Inr d \<Longrightarrow>
      header_ok env (descriptor_header d (jo_cwd options) (jo_parentSessionPath options) (jo_metadata options))"
  shows "jsonl_ok env (snd (jsonl_create env fault sessionsRoot options fresh now w))"
  unfolding jsonl_create_def
proof (rule result_then_ok, simp add: ok, goal_cases)
  case (1 _ w1)
  show ?case
  proof (cases "createDocumentDescriptor options fresh now")
    case (Inr d)
    with createDocument_ok [OF 1 fault, of "[]"] h [OF Inr] show ?thesis by (simp add: descriptor_header_def)
  qed (simp add: 1)
qed

definition fork_parent :: "jsonl_metadata \<Rightarrow> jsonl_create_options \<Rightarrow> js_string option" where
  "fork_parent source options = (case jo_parentSessionPath options of Some p \<Rightarrow> Some p | None \<Rightarrow> Some (j_path source))"

definition fork_metadata :: "jsonl_metadata \<Rightarrow> jsonl_create_options \<Rightarrow> (js_string \<times> json) list option" where
  "fork_metadata source options = (case jo_metadata options of Some kvs \<Rightarrow> Some kvs | None \<Rightarrow> j_metadata source)"

lemma jsonl_fork_ok:
  assumes ok: "jsonl_ok env w" and fault: "whole_writes fault"
    and r: "jsonl_fork env fault sessionsRoot source options selection fresh now w = Some r"
    and h: "\<And>d. createDocumentDescriptor options fresh now = Inr d \<Longrightarrow>
      header_ok env (descriptor_header d (jo_cwd options) (fork_parent source options) (fork_metadata source options))"
    and es: "\<And>idx. map_of (entryIndexesByPath (snd (loadDocument env fault source w))) (j_path source) = Some idx \<Longrightarrow>
      \<forall>e \<in> set (entries idx). storable env e"
  shows "jsonl_ok env (snd r)"
proof -
  obtain l w1 where w1: "loadDocument env fault source w = (l, w1)" by (cases "loadDocument env fault source w")
  have ok1: "jsonl_ok env w1" using loadDocument_ok [OF ok, of fault source] w1 by simp
  consider "snd r = w" | "snd r = w1"
    | d idx fs where "createDocumentDescriptor options fresh now = Inr d" "map_of (entryIndexesByPath w1) (j_path source) = Some idx"
        "readSessionEntriesForFork idx selection = Some (Inr fs)"
        "r = createDocument env fault sessionsRoot d (jo_cwd options) (fork_parent source options) (fork_metadata source options) fs w1"
    using r unfolding jsonl_fork_def fork_parent_def [symmetric] fork_metadata_def [symmetric] w1
    by (cases "createDocumentDescriptor options fresh now"; cases l; cases "map_of (entryIndexesByPath w1) (j_path source)";
        cases "the (readSessionEntriesForFork (the (map_of (entryIndexesByPath w1) (j_path source))) selection)")
      (auto split: if_splits)
  then show ?thesis
  proof cases
    case (3 d idx fs)
    obtain ies where "idx = index_view ies" using jsonl_ok_indexed [OF ok1 3(2)] by (auto simp: indexed_def)
    with fork_entries_subset [of ies selection fs] 3(3) es [of idx] 3(2) w1 have "\<forall>e \<in> set fs. storable env e" by auto
    with createDocument_ok [OF ok1 fault] h [OF 3(1)] 3(4) show ?thesis by (simp add: descriptor_header_def)
  qed (simp_all add: ok ok1)
qed

subsection \<open>A process and the files\<close>

text \<open>The operations of a backend: no write stops in the middle, and what is written can be read back.\<close>

inductive jsonl_step :: "json_env \<Rightarrow> js_string \<Rightarrow> jsonl_world \<Rightarrow> jsonl_world \<Rightarrow> bool" for env sessionsRoot where
  js_create: "whole_writes fault \<Longrightarrow>
    (\<And>d. createDocumentDescriptor options fresh now = Inr d \<Longrightarrow>
      header_ok env (descriptor_header d (jo_cwd options) (jo_parentSessionPath options) (jo_metadata options))) \<Longrightarrow>
    jsonl_step env sessionsRoot w (snd (jsonl_create env fault sessionsRoot options fresh now w))"
| js_open: "jsonl_step env sessionsRoot w (snd (jsonl_open env fault m w))"
| js_append: "whole_writes fault \<Longrightarrow> storable env entry \<Longrightarrow> jsonl_step env sessionsRoot w (snd (jsonl_append env fault m entry w))"
| js_delete: "jsonl_step env sessionsRoot w (snd (jsonl_delete fault m w))"
| js_fork: "whole_writes fault \<Longrightarrow> jsonl_fork env fault sessionsRoot source options selection fresh now w = Some r \<Longrightarrow>
    (\<And>d. createDocumentDescriptor options fresh now = Inr d \<Longrightarrow>
      header_ok env (descriptor_header d (jo_cwd options) (fork_parent source options) (fork_metadata source options))) \<Longrightarrow>
    (\<And>idx. map_of (entryIndexesByPath (snd (loadDocument env fault source w))) (j_path source) = Some idx \<Longrightarrow>
      \<forall>e \<in> set (entries idx). storable env e) \<Longrightarrow>
    jsonl_step env sessionsRoot w (snd r)"
| js_dispose: "jsonl_step env sessionsRoot w (jsonl_dispose w)"

lemma jsonl_step_ok: "jsonl_step env sessionsRoot w w' \<Longrightarrow> jsonl_ok env w \<Longrightarrow> jsonl_ok env w'"
proof (induction rule: jsonl_step.induct)
  case (js_dispose w)
  then show ?case by (rule jsonl_ok_same) (simp_all add: jsonl_dispose_def)
qed (simp_all add: jsonl_create_ok jsonl_open_ok jsonl_append_ok jsonl_delete_ok jsonl_fork_ok)

lemma jsonl_reachable_ok:
  assumes "(jsonl_step env sessionsRoot)\<^sup>*\<^sup>* (new_jsonl fs ds) w" "\<forall>(path, content) \<in> set fs. line_end content"
  shows "jsonl_ok env w"
  using assms(1)
proof (induction rule: rtranclp_induct)
  case base
  show ?case using assms(2) by (auto simp: jsonl_ok_def new_jsonl_def dest!: map_of_SomeD)
next
  case (step w w')
  then show ?case using jsonl_step_ok by blast
qed

definition no_faults :: fs_faults where
  "no_faults = (\<lambda>_ _. None)"

text \<open>Property C9. What a process has in memory of a session is what a process started later reads from the file: after any
  sequence of operations on files that end with a newline, with calls of the file system that fail but no write that stops in the middle, opening
  a session whose index is in memory in a new process succeeds, and every read of the storage there has the result it has in the old process.\<close>

theorem jsonl_restart:
  assumes "(jsonl_step env sessionsRoot)\<^sup>*\<^sup>* (new_jsonl fs ds) w" "\<forall>(path, content) \<in> set fs. line_end content"
    and "map_of (entryIndexesByPath w) (j_path m) = Some idx"
  shows "\<exists>m' w'. jsonl_open env no_faults m (new_jsonl (files w) (dirs w)) = (Inr m', w')
    \<and> (\<forall>read. readIndex m read w' = Inr (read idx))"
proof -
  obtain content m' es where c: "map_of (files w) (j_path m) = Some content"
    "loadJsonlSession env (j_path m) content = Inr (m', es)" "idx = index_view es"
    using jsonl_ok_indexed [OF jsonl_reachable_ok [OF assms(1,2)] assms(3)] by (auto simp: indexed_def)
  then have new: "new_ArraySessionIndex es = Inr idx" unfolding load_eq by (blast intro: new_index_view)
  show ?thesis
    using c(1,2) new
    by (simp add: jsonl_open_def jsonl_assertOpen_def result_then_def loadDocument_def require_document_def fs_exists_def
        no_faults_def new_jsonl_def read_document_def fs_read_def readIndex_def)
qed

text \<open>Property C22. Appending an entry to a session in memory, whose file and every other ends with a newline and was written
  whole so far, has one of three outcomes. It fails and changes nothing, no file and no index; or a write that stopped in the middle
  makes it fail, with a beginning of the one new line at the end of the session's file and the index as it was; or it adds
  exactly one line at the end of the file of the session and the entry at the end of its index, and the id was not taken.\<close>

theorem jsonl_append_one_line:
  assumes "(jsonl_step env sessionsRoot)\<^sup>*\<^sup>* (new_jsonl fs ds) w" "\<forall>(path, content) \<in> set fs. line_end content"
    and "map_of (entryIndexesByPath w) (j_path m) = Some idx" "storable env entry"
  shows "(\<exists>error. jsonl_append env fault m entry w = (Inl error, w)) \<or>
    (\<exists>e n content w'. fault AppendFile (j_path m) = Some (e, Some n) \<and> \<not> has idx (eid entry)
      \<and> jsonl_append env fault m entry w = (Inl (file_result (j_path m) e), w')
      \<and> map_of (files w) (j_path m) = Some content
      \<and> entryIndexesByPath w' = entryIndexesByPath w
      \<and> map_of (files w') = (map_of (files w))(j_path m \<mapsto> content @ take n (entry_line env entry @ [newline]))) \<or>
    (\<exists>content w'. jsonl_append env fault m entry w = (Inr (), w') \<and> \<not> has idx (eid entry)
      \<and> map_of (files w) (j_path m) = Some content
      \<and> map_of (files w') = (map_of (files w))(j_path m \<mapsto> content @ entry_line env entry @ [newline])
      \<and> map_of (entryIndexesByPath w') = (map_of (entryIndexesByPath w))(j_path m \<mapsto> index_view (entries idx @ [entry])))"
  (is "?same \<or> ?torn \<or> ?added")
proof (cases "jw_disposed w \<or> has idx (eid entry)")
  case True
  then show ?thesis using append_refused [OF assms(3)] by blast
next
  case False
  then have "\<not> jw_disposed w" "\<not> has idx (eid entry)" by simp_all
  with jsonl_reachable_ok [OF assms(1,2)] assms(3,4) show ?thesis
  proof (cases rule: append_outcome [where fault = fault])
    case same
    then show ?thesis by blast
  next
    case torn
    with \<open>\<not> has idx (eid entry)\<close> have ?torn by (intro exI conjI) (assumption | simp)+
    then show ?thesis by blast
  next
    case added
    with \<open>\<not> has idx (eid entry)\<close> have ?added by (intro exI conjI) (assumption | simp)+
    then show ?thesis by blast
  qed
qed

subsection \<open>A session of one entry\<close>

definition sample_header :: session_header where
  "sample_header = \<lparr>hd_id = js ''s'', hd_timestamp = js ''t'', hd_cwd = js ''/a'', hd_parentSession = None, hd_metadata = None\<rparr>"

definition sample_entry :: tree_entry where
  "sample_entry = \<lparr>eid = js ''a'', parentId = None, timestamp = js ''t'', body = SessionInfo None\<rparr>"

definition sample_json :: "tree_entry \<Rightarrow> json" where
  "sample_json e = JObj [(js ''type'', JStr (js ''session_info'')), (js ''id'', JStr (eid e)),
     (js ''parentId'', case parentId e of None \<Rightarrow> JNull | Some p \<Rightarrow> JStr p), (js ''timestamp'', JStr (timestamp e))]"

text \<open>The JSON texts of the header and of the entry are \<open>H\<close> and \<open>E\<close>.\<close>

definition sample_env :: json_env where
  "sample_env = \<lparr>json_parse = (\<lambda>s. if s = js ''H'' then Some (header_json sample_header)
       else if s = js ''E'' then Some (sample_json sample_entry) else None),
     json_stringify = (\<lambda>v. if v = header_json sample_header then js ''H'' else js ''E''),
     json_of_entry = sample_json, as_entry = (\<lambda>_. sample_entry)\<rparr>"

definition sample_options :: jsonl_create_options where
  "sample_options = \<lparr>jo_id = Some (js ''s''), jo_cwd = js ''/a'', jo_parentSessionPath = None, jo_metadata = None\<rparr>"

definition sample_created :: "jsonl_metadata jsonl_result" where
  "sample_created = jsonl_create sample_env no_faults (js ''/r'') sample_options (js ''f'') (js ''t'') (new_jsonl [] [])"

lemma sample_not_header: "sample_json sample_entry \<noteq> header_json sample_header"
  by (simp add: sample_json_def header_json_def js_eq_iff)

lemma sample_line: "entry_line sample_env sample_entry = js ''E''"
  by (simp add: entry_line_def sample_env_def sample_not_header)

lemma sample_storable: "storable sample_env sample_entry"
proof -
  have "reads_back sample_env (sample_json sample_entry)"
    by (simp add: reads_back_def sample_env_def sample_not_header js_eq_iff)
      (simp add: js_def trim_def trim_start_def trim_end_def whitespace_def)
  moreover have "entry_value sample_entry (sample_json sample_entry)"
    by (simp add: entry_value_def sample_json_def sample_entry_def json_field_def js_eq_iff)
  moreover have "json_of_entry sample_env = sample_json" "as_entry sample_env v = sample_entry" for v by (simp_all add: sample_env_def)
  ultimately show ?thesis by (simp add: storable_def)
qed

lemma sample_header_ok: "header_ok sample_env sample_header"
proof -
  have "reads_back sample_env (header_json sample_header)"
    by (simp add: reads_back_def sample_env_def) (simp add: js_def trim_def trim_start_def trim_end_def whitespace_def)
  then show ?thesis by (simp add: header_ok_def sample_header_def)
qed

lemma sample_descriptor:
  "\<exists>f. createDocumentDescriptor sample_options fresh (js ''t'') = Inr \<lparr>dd_id = js ''s'', dd_timestamp = js ''t'', dd_fileName = f,
     dd_operationKey = DocumentKey (encodeCwd (js ''/a'')) f\<rparr>"
proof -
  have "well_formed (js ''s'')" by (simp add: js_def high_surrogate_def low_surrogate_def)
  then show ?thesis by (simp add: createDocumentDescriptor_def sample_options_def encodeURIComponent_def Let_def)
qed

lemma sample_state:
  obtains m w where "sample_created = (Inr m, w)" "\<not> jw_disposed w" "map_of (files w) (j_path m) = Some (js ''H'' @ [newline])"
    "map_of (entryIndexesByPath w) (j_path m) = Some (index_view [])"
    "(jsonl_step sample_env (js ''/r''))\<^sup>*\<^sup>* (new_jsonl [] []) w"
proof -
  obtain f where d: "createDocumentDescriptor sample_options (js ''f'') (js ''t'') = Inr \<lparr>dd_id = js ''s'', dd_timestamp = js ''t'',
      dd_fileName = f, dd_operationKey = DocumentKey (encodeCwd (js ''/a'')) f\<rparr>"
    using sample_descriptor by blast
  have doc: "document_text sample_env \<lparr>hd_id = js ''s'', hd_timestamp = js ''t'', hd_cwd = js ''/a'', hd_parentSession = None,
      hd_metadata = None\<rparr> [] = js ''H'' @ [newline]"
    by (simp add: document_text_def sample_env_def sample_header_def)
  have opts: "jo_cwd sample_options = js ''/a''" "jo_parentSessionPath sample_options = None" "jo_metadata sample_options = None"
    by (simp_all add: sample_options_def)
  have idx: "new_ArraySessionIndex [] = Inr (index_view [])" by (rule new_index_view) simp
  obtain m w where r: "sample_created = (Inr m, w)" "\<not> jw_disposed w" "map_of (files w) (j_path m) = Some (js ''H'' @ [newline])"
    "map_of (entryIndexesByPath w) (j_path m) = Some (index_view [])"
    by (simp add: sample_created_def jsonl_create_def jsonl_assertOpen_def result_then_def new_jsonl_def d createDocument_def Let_def
        createDir_def no_faults_def fs_exists_def writeFile_def fs_write_def doc opts idx metadataFromHeader_def)
  have "jsonl_step sample_env (js ''/r'') (new_jsonl [] []) (snd sample_created)"
    unfolding sample_created_def
    by (rule js_create) (use sample_header_ok d opts in \<open>auto simp: whole_writes_def no_faults_def descriptor_header_def sample_header_def\<close>)
  then have "(jsonl_step sample_env (js ''/r''))\<^sup>*\<^sup>* (new_jsonl [] []) w" unfolding r(1) by simp
  with r show ?thesis by (rule that)
qed

theorem jsonl_restart_witness:
  "\<exists>m w m' w'. sample_created = (Inr m, w)
    \<and> jsonl_open sample_env no_faults m (new_jsonl (files w) (dirs w)) = (Inr m', w') \<and> readIndex m entries w' = Inr []"
proof -
  obtain m w where w: "sample_created = (Inr m, w)" "map_of (entryIndexesByPath w) (j_path m) = Some (index_view [])"
    "(jsonl_step sample_env (js ''/r''))\<^sup>*\<^sup>* (new_jsonl [] []) w"
    using sample_state by metis
  from jsonl_restart [OF w(3) _ w(2)] obtain m' w' where
    "jsonl_open sample_env no_faults m (new_jsonl (files w) (dirs w)) = (Inr m', w')" "\<forall>read. readIndex m read w' = Inr (read (index_view []) :: tree_entry list)"
    by auto
  moreover from this(2) have "readIndex m entries w' = Inr []" by simp
  ultimately show ?thesis using w(1) by blast
qed

theorem jsonl_append_one_line_witness:
  "\<exists>m w w'. sample_created = (Inr m, w) \<and> jsonl_append sample_env no_faults m sample_entry w = (Inr (), w')
    \<and> map_of (files w') (j_path m) = Some (js ''H'' @ [newline] @ js ''E'' @ [newline])
    \<and> map_of (entryIndexesByPath w') (j_path m) = Some (index_view [sample_entry])"
proof -
  obtain m w where w: "sample_created = (Inr m, w)" "\<not> jw_disposed w" "map_of (files w) (j_path m) = Some (js ''H'' @ [newline])"
    "map_of (entryIndexesByPath w) (j_path m) = Some (index_view [])"
    "(jsonl_step sample_env (js ''/r''))\<^sup>*\<^sup>* (new_jsonl [] []) w"
    using sample_state by metis
  have "fst (jsonl_append sample_env no_faults m sample_entry w) = Inr ()"
    using w(2-4) by (simp add: jsonl_append_def jsonl_assertOpen_def result_then_def require_document_def fs_exists_def no_faults_def
        has_def appendFile_def fs_write_def index_append_def)
  moreover note jsonl_append_one_line [OF w(5) _ w(4) sample_storable, of no_faults]
  ultimately obtain w' where "jsonl_append sample_env no_faults m sample_entry w = (Inr (), w')"
    "map_of (files w') = (map_of (files w))(j_path m \<mapsto> js ''H'' @ [newline] @ js ''E'' @ [newline])"
    "map_of (entryIndexesByPath w') = (map_of (entryIndexesByPath w))(j_path m \<mapsto> index_view [sample_entry])"
    using w(3) by (auto simp: sample_line)
  then have "map_of (files w') (j_path m) = Some (js ''H'' @ [newline] @ js ''E'' @ [newline])"
    "map_of (entryIndexesByPath w') (j_path m) = Some (index_view [sample_entry])" by simp_all
  with w(1) \<open>jsonl_append sample_env no_faults m sample_entry w = (Inr (), w')\<close> show ?thesis by blast
qed

end
