(* ===== verification/JsonlGaps.thy ===== *)
theory JsonlGaps
  imports JsonlFacts
begin

text \<open>
  Where the JSONL repository falls short of its contract: files that do not end with a newline, files that are damaged, and
  directories whose encoded names are the same.
\<close>

subsection \<open>Appending after an unfinished line\<close>

definition sample_metadata :: jsonl_metadata where
  "sample_metadata = metadataFromHeader sample_header (js ''p'')"

lemma sample_lines:
  "document_lines (js ''H'') = [js ''H'']" "document_lines (js ''H'' @ [newline]) = [js ''H'']"
  "document_lines (newline # js ''H'' @ [newline]) = [js ''H'']" "document_lines (js ''H'' @ js ''E'' @ [newline]) = [js ''HE'']"
  "document_lines (js ''H'' @ [newline] @ js ''E'' @ js ''E'' @ [newline]) = [js ''H'', js ''EE'']"
  by (simp_all add: document_lines_def js_def trim_def trim_start_def trim_end_def whitespace_def)

lemma sample_parseHeader: "parseHeader sample_env (js ''H'') path = Inr sample_header"
  using parseHeader_header [OF sample_header_ok] by (simp add: sample_env_def)

lemma sample_loads:
  "document_lines content = [js ''H''] \<Longrightarrow> loadJsonlSession sample_env (js ''p'') content = Inr (sample_metadata, [])"
  by (simp add: load_eq sample_parseHeader sample_metadata_def)

lemma sample_load_fails:
  "document_lines content = [js ''HE''] \<Longrightarrow> loadJsonlSession sample_env (js ''p'') content = Inl (InvalidHeader (js ''p'') NotAHeader)"
  "document_lines content = [js ''H'', js ''EE''] \<Longrightarrow>
     loadJsonlSession sample_env (js ''p'') content = Inl (InvalidLine (js ''p'') 2 NotJson)"
  by (simp_all add: loadJsonlSession_def sample_parseHeader)
    (simp_all add: parseHeader_def parse_object_def parseEntry_def sample_env_def js_eq_iff)

lemma sample_path: "j_path sample_metadata = js ''p''"
  by (simp add: sample_metadata_def metadataFromHeader_def)

lemma empty_index_new: "new_ArraySessionIndex [] = Inr (index_view [])"
  by (rule new_index_view) simp

lemma sample_open:
  assumes "document_lines content = [js ''H'']"
  shows "jsonl_open sample_env no_faults sample_metadata (new_jsonl [(js ''p'', content)] []) =
    (Inr sample_metadata, (new_jsonl [(js ''p'', content)] [])\<lparr>entryIndexesByPath := [(js ''p'', index_view [])]\<rparr>)"
  by (simp add: jsonl_open_def jsonl_assertOpen_def result_then_def loadDocument_def require_document_def fs_exists_def
      no_faults_def new_jsonl_def read_document_def fs_read_def sample_path sample_loads [OF assms] empty_index_new)

lemma sample_open_fails:
  assumes "loadJsonlSession sample_env (js ''p'') content = Inl e"
  shows "fst (jsonl_open sample_env no_faults sample_metadata (new_jsonl [(js ''p'', content)] ds)) = Inl e"
  by (simp add: jsonl_open_def jsonl_assertOpen_def result_then_def loadDocument_def require_document_def fs_exists_def
      no_faults_def new_jsonl_def read_document_def fs_read_def sample_path assms)

lemma sample_append:
  assumes "files w = [(js ''p'', content)]" "entryIndexesByPath w = [(js ''p'', index_view [])]" "\<not> jw_disposed w"
  shows "jsonl_append sample_env no_faults sample_metadata sample_entry w =
    (Inr (), w\<lparr>files := [(js ''p'', content @ js ''E'' @ [newline])], entryIndexesByPath := [(js ''p'', index_view [sample_entry])]\<rparr>)"
  using assms by (simp add: jsonl_append_def jsonl_assertOpen_def result_then_def require_document_def fs_exists_def no_faults_def
      sample_path has_def appendFile_def fs_write_def index_append_view sample_line)

text \<open>A document without a newline at its end, as an editor may leave it, is opened. The entry appended to it is glued to its last
  line: the append is reported as done and the entry is in memory, but no other process can open the session.\<close>

theorem append_glued_to_last_line:
  defines "w \<equiv> new_jsonl [(js ''p'', js ''H'')] []"
  shows "\<exists>w1 w2. jsonl_open sample_env no_faults sample_metadata w = (Inr sample_metadata, w1)
    \<and> jsonl_append sample_env no_faults sample_metadata sample_entry w1 = (Inr (), w2)
    \<and> readIndex sample_metadata entries w2 = Inr [sample_entry]
    \<and> fst (jsonl_open sample_env no_faults sample_metadata (new_jsonl (files w2) (dirs w2))) = Inl (InvalidHeader (js ''p'') NotAHeader)"
proof -
  let ?w1 = "w\<lparr>entryIndexesByPath := [(js ''p'', index_view [])]\<rparr>"
  let ?w2 = "?w1\<lparr>files := [(js ''p'', js ''H'' @ js ''E'' @ [newline])], entryIndexesByPath := [(js ''p'', index_view [sample_entry])]\<rparr>"
  have "jsonl_open sample_env no_faults sample_metadata w = (Inr sample_metadata, ?w1)"
    unfolding w_def by (rule sample_open) (rule sample_lines)
  moreover have "jsonl_append sample_env no_faults sample_metadata sample_entry ?w1 = (Inr (), ?w2)"
    by (rule sample_append) (simp_all add: w_def new_jsonl_def)
  moreover have "readIndex sample_metadata entries ?w2 = Inr [sample_entry]"
    by (simp add: readIndex_def sample_path w_def new_jsonl_def)
  moreover have "fst (jsonl_open sample_env no_faults sample_metadata (new_jsonl (files ?w2) (dirs ?w2)))
      = Inl (InvalidHeader (js ''p'') NotAHeader)"
    using sample_open_fails [OF sample_load_fails(1) [OF sample_lines(4)]] by simp
  ultimately show ?thesis by blast
qed

text \<open>The same after a write that stopped in the middle: the append fails, the next attempt succeeds, and the file cannot be
  loaded any more.\<close>

theorem append_after_torn_write:
  fixes fault :: fs_faults
  defines "fault \<equiv> (\<lambda>call path. if call = AppendFile then Some (OtherFileError, Some 1) else None)"
    and "w \<equiv> new_jsonl [(js ''p'', js ''H'' @ [newline])] []"
  shows "\<exists>w1 w2. jsonl_append sample_env fault sample_metadata sample_entry w = (Inl (FileTrouble (js ''p'')), w1)
    \<and> jsonl_append sample_env no_faults sample_metadata sample_entry w1 = (Inr (), w2)
    \<and> fst (jsonl_open sample_env no_faults sample_metadata (new_jsonl (files w2) (dirs w2))) = Inl (InvalidLine (js ''p'') 2 NotJson)"
proof -
  let ?w1 = "w\<lparr>entryIndexesByPath := [(js ''p'', index_view [])], files := [(js ''p'', (js ''H'' @ [newline]) @ js ''E'')]\<rparr>"
  let ?w2 = "?w1\<lparr>files := [(js ''p'', ((js ''H'' @ [newline]) @ js ''E'') @ js ''E'' @ [newline])],
    entryIndexesByPath := [(js ''p'', index_view [sample_entry])]\<rparr>"
  have "take (Suc 0) (js ''E'' @ [newline]) = js ''E''" by (simp add: js_def)
  then have "jsonl_append sample_env fault sample_metadata sample_entry w = (Inl (FileTrouble (js ''p'')), ?w1)"
    by (simp add: jsonl_append_def jsonl_assertOpen_def result_then_def require_document_def fs_exists_def fault_def w_def new_jsonl_def
        loadDocument_def read_document_def fs_read_def sample_path sample_loads [OF sample_lines(2), simplified] empty_index_new
        has_def appendFile_def fs_write_def sample_line file_result_def)
  moreover have "jsonl_append sample_env no_faults sample_metadata sample_entry ?w1 = (Inr (), ?w2)"
    by (rule sample_append) (simp_all add: w_def new_jsonl_def)
  moreover have "fst (jsonl_open sample_env no_faults sample_metadata (new_jsonl (files ?w2) (dirs ?w2)))
      = Inl (InvalidLine (js ''p'') 2 NotJson)"
    using sample_open_fails [OF sample_load_fails(2) [OF sample_lines(5)]] by simp
  ultimately show ?thesis by blast
qed

subsection \<open>Lists\<close>

lemma for_each_fails:
  assumes "x \<in> set xs" "\<And>s. \<exists>e. f x s = Inl e"
  shows "\<exists>e. for_each f xs s = Inl e"
  using assms(1)
proof (induction xs arbitrary: s)
  case (Cons y ys)
  show ?case
  proof (cases "f y s")
    case (Inr s')
    with assms(2) [of s] have "y \<noteq> x" by auto
    with Cons Inr show ?thesis by auto
  qed simp
qed simp

text \<open>One file whose first line is not a header, an empty one too, makes the list of its directory fail: none of the
  sessions is listed.\<close>

theorem damaged_file_hides_sessions:
  assumes "map_of (files w) path = Some content" "child_name (getSessionDir sessionsRoot cwd) path \<noteq> None" "ends_with_jsonl path"
    and "getSessionDir sessionsRoot cwd \<in> set (dirs w)" "cwd \<noteq> []" "\<not> jw_disposed w"
    and "loadJsonlSessionMetadata env path content = Inl e"
  shows "\<exists>e. jsonl_list env no_faults getTime sessionsRoot (Some cwd) w = Inl e"
proof -
  let ?dir = "getSessionDir sessionsRoot cwd"
  let ?step = "\<lambda>p found. and_then (fs_read ReadTextLines no_faults p w) (\<lambda>content.
      and_then (loadJsonlSessionMetadata env p content) (\<lambda>m. Inr (found @ [m])))"
  have "path \<in> set (filter ends_with_jsonl (filter (\<lambda>p. child_name ?dir p \<noteq> None) (map fst (files w))))"
    using assms(1-3) by (auto dest: map_of_SomeD intro: image_eqI [of _ fst "(path, content)"])
  moreover have "\<exists>e. ?step path found = Inl e" for found
    using assms(1,7) by (simp add: fs_read_def no_faults_def)
  ultimately obtain e' where "list_directory env no_faults ?dir w = Inl e'"
    using for_each_fails [of path "filter ends_with_jsonl (filter (\<lambda>p. child_name ?dir p \<noteq> None) (map fst (files w)))" ?step "[]"] assms(4)
    by (auto simp del: filter_filter set_filter simp: list_directory_def fs_exists_def no_faults_def listDir_def)
  then show ?thesis
    using assms(5,6) by (simp add: jsonl_list_def listSessions_def)
qed

text \<open>A blank line before the header: the session is loaded, but not listed.\<close>

theorem blank_line_loaded_not_listed:
  "loadJsonlSession sample_env (js ''p'') (newline # js ''H'' @ [newline]) = Inr (sample_metadata, [])
   \<and> loadJsonlSessionMetadata sample_env (js ''p'') (newline # js ''H'' @ [newline]) = Inl (InvalidHeader (js ''p'') MissingHeader)"
  using sample_loads [OF sample_lines(3)]
  by (simp add: loadJsonlSessionMetadata_def first_line_def)

text \<open>A slash and a dash in a working directory are encoded alike, and the list for one directory is the list for the other:
  it has the sessions of both, since the working directory in the header is not looked at.\<close>

theorem list_mixes_directories:
  assumes "a \<noteq> []"
  shows "jsonl_list env fault getTime sessionsRoot (Some (a @ slash # b)) w
    = jsonl_list env fault getTime sessionsRoot (Some (a @ 0x2d # b)) w"
proof -
  have "encodeCwd (a @ slash # b) = encodeCwd (a @ 0x2d # b)"
    using assms by (cases a) (simp_all add: encodeCwd_def path_separator_def)
  then have "getSessionDir sessionsRoot (a @ slash # b) = getSessionDir sessionsRoot (a @ 0x2d # b)"
    by (simp add: getSessionDir_def)
  then show ?thesis by (simp add: jsonl_list_def listSessions_def)
qed

end
