(* ===== verification/SessionManager.thy ===== *)
theory SessionManager
  imports JsonlFacts
begin

text \<open>
  \<^verbatim>\<open>packages/coding-agent/src/core/session-manager.ts\<close>: the sessions of the coding agent, a tree of entries with a leaf,
  in a file of JSON lines that is written once the assistant has answered. Old formats are migrated when a file is
  loaded. Entries of old files have no ids, so an id is an option; a missing parent and the parent null are both
  \<open>None\<close>. \<open>JSON.parse\<close>, \<open>JSON.stringify\<close>, random ids and times are parameters; a line that is not an object of the
  format counts as malformed. Messages without a content, which only damaged files have, are left out, and so are the details, the
  usage and the origin of summaries, which the context does not use. Entries without ids outlive the migrations only in a fork of an
  old session: there the leaf, undefined, is not told from null, and the role of a hook message not from that of a custom one.
\<close>

subsection \<open>Entries\<close>

datatype kept_entry = KeptId js_string | KeptIndex nat | KeptNone

datatype manager_body =
    MgrMessage agent_message
  | MgrHookMessage agent_message
  | MgrThinkingLevel js_string
  | MgrModel js_string js_string
  | MgrCollaborationMode js_string
  | MgrCompaction js_string kept_entry nat
  | MgrBranchSummary js_string js_string
  | MgrCustom js_string "js_value option"
  | MgrCustomMessage js_string message_content bool "js_value option"
  | MgrLabel js_string "js_string option"
  | MgrSessionInfo "js_string option"

record manager_entry =
  n_id :: "js_string option"
  n_parent :: "js_string option"
  n_time :: js_string
  n_body :: manager_body

record manager_header =
  mh_version :: "nat option"
  mh_id :: js_string
  mh_timestamp :: js_string
  mh_cwd :: js_string
  mh_parentSession :: "js_string option"

datatype file_entry = HeaderLine manager_header | EntryLine manager_entry

definition CURRENT_SESSION_VERSION :: nat where
  "CURRENT_SESSION_VERSION = 4"

definition entry_of :: "file_entry \<Rightarrow> manager_entry option" where
  "entry_of e = (case e of EntryLine n \<Rightarrow> Some n | HeaderLine _ \<Rightarrow> None)"

definition is_label :: "manager_entry \<Rightarrow> bool" where
  "is_label n \<longleftrightarrow> (case n_body n of MgrLabel _ _ \<Rightarrow> True | _ \<Rightarrow> False)"

definition alphanumeric :: "js_char \<Rightarrow> bool" where
  "alphanumeric c \<longleftrightarrow> 0x30 \<le> c \<and> c \<le> 0x39 \<or> 0x41 \<le> c \<and> c \<le> 0x5a \<or> 0x61 \<le> c \<and> c \<le> 0x7a"

definition assertValidSessionId :: "js_string \<Rightarrow> bool" where
  "assertValidSessionId i \<longleftrightarrow> i \<noteq> [] \<and> alphanumeric (hd i) \<and> alphanumeric (last i)
     \<and> (\<forall>c \<in> set i. alphanumeric c \<or> c \<in> {0x2e, 0x5f, 0x2d})"

text \<open>\<open>random k\<close> is the start of the \<open>k\<close>-th random id, \<open>full\<close> the whole id that is taken in the end.\<close>

definition generateId :: "(nat \<Rightarrow> js_string) \<Rightarrow> js_string \<Rightarrow> (js_string \<Rightarrow> bool) \<Rightarrow> js_string" where
  "generateId random full taken =
     (case find (\<lambda>i. \<not> taken i) (map random [0..<100]) of Some i \<Rightarrow> i | None \<Rightarrow> full)"

subsection \<open>Migrations\<close>

text \<open>\<open>migrateV1ToV2\<close>: the entries of the first list have been migrated. The set of ids that \<open>generateId\<close> is given stays
  empty, so the first random id of each call is taken; \<open>fresh k\<close> is that of the entry at \<open>k\<close>.\<close>

definition kept_target :: "file_entry list \<Rightarrow> nat \<Rightarrow> kept_entry" where
  "kept_target es k =
     (if k < length es then
        (case es ! k of EntryLine t \<Rightarrow> (case n_id t of Some i \<Rightarrow> KeptId i | None \<Rightarrow> KeptNone) | HeaderLine _ \<Rightarrow> KeptNone)
      else KeptNone)"

fun migrateV1ToV2 ::
  "(nat \<Rightarrow> js_string) \<Rightarrow> js_string option \<Rightarrow> file_entry list \<Rightarrow> file_entry list \<Rightarrow> file_entry list" where
  "migrateV1ToV2 fresh prevId migrated [] = migrated"
| "migrateV1ToV2 fresh prevId migrated (HeaderLine h # es) =
     migrateV1ToV2 fresh prevId (migrated @ [HeaderLine (h\<lparr>mh_version := Some 2\<rparr>)]) es"
| "migrateV1ToV2 fresh prevId migrated (EntryLine n # es) =
     (let i = fresh (length migrated); n' = n\<lparr>n_id := Some i, n_parent := prevId\<rparr>;
          body = (case n_body n of
              MgrCompaction s (KeptIndex k) t \<Rightarrow> MgrCompaction s (kept_target (migrated @ EntryLine n' # es) k) t
            | b \<Rightarrow> b)
      in migrateV1ToV2 fresh (Some i) (migrated @ [EntryLine (n'\<lparr>n_body := body\<rparr>)]) es)"

definition migrate_hook_message :: "file_entry \<Rightarrow> file_entry" where
  "migrate_hook_message e =
     (case e of
        HeaderLine h \<Rightarrow> HeaderLine (h\<lparr>mh_version := Some 3\<rparr>)
      | EntryLine n \<Rightarrow> EntryLine (case n_body n of MgrHookMessage m \<Rightarrow> n\<lparr>n_body := MgrMessage m\<rparr> | _ \<Rightarrow> n))"

definition migrateV2ToV3 :: "file_entry list \<Rightarrow> file_entry list" where
  "migrateV2ToV3 es = map migrate_hook_message es"

fun migrateV3ToV4 :: "file_entry list \<Rightarrow> file_entry list" where
  "migrateV3ToV4 [] = []"
| "migrateV3ToV4 (HeaderLine h # es) = HeaderLine (h\<lparr>mh_version := Some 4\<rparr>) # es"
| "migrateV3ToV4 (EntryLine n # es) = EntryLine n # migrateV3ToV4 es"

definition find_header :: "file_entry list \<Rightarrow> manager_header option" where
  "find_header es = (case List.map_filter (\<lambda>e. case e of HeaderLine h \<Rightarrow> Some h | _ \<Rightarrow> None) es of [] \<Rightarrow> None | h # _ \<Rightarrow> Some h)"

definition session_version :: "file_entry list \<Rightarrow> nat" where
  "session_version es = (case find_header es of None \<Rightarrow> 1 | Some h \<Rightarrow> (case mh_version h of None \<Rightarrow> 1 | Some v \<Rightarrow> v))"

text \<open>The entries and whether any migration was applied.\<close>

definition migrateToCurrentVersion :: "(nat \<Rightarrow> js_string) \<Rightarrow> file_entry list \<Rightarrow> file_entry list \<times> bool" where
  "migrateToCurrentVersion fresh es =
     (let version = session_version es in
      if version \<ge> CURRENT_SESSION_VERSION then (es, False)
      else
        let es1 = (if version < 2 then migrateV1ToV2 fresh None [] es else es);
            es2 = (if version < 3 then migrateV2ToV3 es1 else es1)
        in (if version < 4 then migrateV3ToV4 es2 else es2, True))"

subsection \<open>The context of a path\<close>

type_synonym entry_map = "(js_string option \<times> manager_entry) list"

text \<open>The entry that a parent id leads to; the empty id leads nowhere.\<close>

definition parent_entry :: "entry_map \<Rightarrow> manager_entry \<Rightarrow> manager_entry option" where
  "parent_entry known n = (case n_parent n of Some (c # cs) \<Rightarrow> map_of known (Some (c # cs)) | _ \<Rightarrow> None)"

partial_function (option) walk_up :: "entry_map \<Rightarrow> manager_entry \<Rightarrow> manager_entry list \<Rightarrow> manager_entry list option" where
  "walk_up known current path =
     (case parent_entry known current of
        None \<Rightarrow> Some (path @ [current])
      | Some parent \<Rightarrow> walk_up known parent (path @ [current]))"

definition buildSessionPath :: "manager_entry list \<Rightarrow> js_string option \<Rightarrow> entry_map \<Rightarrow> manager_entry list option" where
  "buildSessionPath es leaf_id known =
     (case leaf_id of
        None \<Rightarrow> Some []
      | Some i \<Rightarrow>
          (case (if i = [] then None else map_of known (Some i)) of
             Some leaf \<Rightarrow> map_option rev (walk_up known leaf [])
           | None \<Rightarrow> if es = [] then Some [] else map_option rev (walk_up known (last es) [])))"

definition settings_step :: "manager_entry \<Rightarrow> js_string \<times> model_ref option \<Rightarrow> js_string \<times> model_ref option" where
  "settings_step n s =
     (case n_body n of
        MgrThinkingLevel l \<Rightarrow> (l, snd s)
      | MgrModel p m \<Rightarrow> (fst s, Some \<lparr>provider = p, modelId = m\<rparr>)
      | MgrMessage (AssistantMessage a) \<Rightarrow> (fst s, Some \<lparr>provider = a_provider a, modelId = a_model a\<rparr>)
      | _ \<Rightarrow> s)"

definition getSessionContextSettings :: "manager_entry list \<Rightarrow> js_string \<times> model_ref option" where
  "getSessionContextSettings path = fold settings_step path (js ''off'', None)"

definition entryContextMessages :: "(js_string \<Rightarrow> int) \<Rightarrow> manager_entry \<Rightarrow> agent_message list" where
  "entryContextMessages getTime n =
     (case n_body n of
        MgrMessage m \<Rightarrow> [m]
      | MgrHookMessage m \<Rightarrow> [m]
      | MgrCustomMessage t content display details \<Rightarrow> [createCustomMessage getTime t content display details (n_time n)]
      | MgrBranchSummary s from_id \<Rightarrow> if s = [] then [] else [createBranchSummaryMessage getTime s from_id (n_time n)]
      | MgrCompaction s _ t \<Rightarrow> [createCompactionSummaryMessage getTime s t (n_time n)]
      | _ \<Rightarrow> [])"

definition is_compaction :: "manager_entry \<Rightarrow> bool" where
  "is_compaction n \<longleftrightarrow> (case n_body n of MgrCompaction _ _ _ \<Rightarrow> True | _ \<Rightarrow> False)"

definition kept_from :: "manager_entry \<Rightarrow> js_string option" where
  "kept_from n = (case n_body n of MgrCompaction _ (KeptId i) _ \<Rightarrow> Some i | _ \<Rightarrow> None)"

text \<open>The entries before the first one with the id of the last compaction, from the first kept entry on, and those after it. An entry
  without an id is not kept by a compaction without one: both are old formats that are never mixed with new ones.\<close>

definition context_of_path :: "manager_entry list \<Rightarrow> manager_entry list" where
  "context_of_path path =
     (case filter is_compaction path of
        [] \<Rightarrow> path
      | c # cs \<Rightarrow>
          (let compaction = last (c # cs);
               before = takeWhile (\<lambda>n. n_id n \<noteq> n_id compaction) path;
               kept = (case kept_from compaction of None \<Rightarrow> [] | Some i \<Rightarrow> dropWhile (\<lambda>n. n_id n \<noteq> Some i) before)
           in compaction # kept @ drop (length before + 1) path))"

definition mgr_buildContextEntries :: "manager_entry list \<Rightarrow> js_string option \<Rightarrow> entry_map \<Rightarrow> manager_entry list option" where
  "mgr_buildContextEntries es leaf_id known = map_option context_of_path (buildSessionPath es leaf_id known)"

record manager_context =
  cx_messages :: "agent_message list"
  cx_thinkingLevel :: js_string
  cx_model :: "model_ref option"

definition context_from_path :: "(js_string \<Rightarrow> int) \<Rightarrow> manager_entry list \<Rightarrow> manager_context" where
  "context_from_path getTime path =
     \<lparr>cx_messages = concat (map (entryContextMessages getTime) (context_of_path path)),
      cx_thinkingLevel = fst (getSessionContextSettings path), cx_model = snd (getSessionContextSettings path)\<rparr>"

definition mgr_buildSessionContext ::
  "(js_string \<Rightarrow> int) \<Rightarrow> manager_entry list \<Rightarrow> js_string option \<Rightarrow> entry_map \<Rightarrow> manager_context option" where
  "mgr_buildSessionContext getTime es leaf_id known = map_option (context_from_path getTime) (buildSessionPath es leaf_id known)"

subsection \<open>The manager\<close>

record session_manager =
  sm_sessionId :: js_string
  sm_sessionFile :: "js_string option"
  sm_sessionDir :: js_string
  sm_cwd :: js_string
  sm_persist :: bool
  sm_flushed :: bool
  sm_fileEntries :: "file_entry list"
  sm_byId :: entry_map
  sm_labelsById :: "(js_string \<times> js_string) list"
  sm_labelTimestampsById :: "(js_string \<times> js_string) list"
  sm_leafId :: "js_string option"

type_synonym session_files = "js_string \<rightharpoonup> js_string"

record line_format =
  parse_line :: "js_string \<Rightarrow> file_entry option"
  line_of :: "file_entry \<Rightarrow> js_string"

definition sm_getEntries :: "session_manager \<Rightarrow> manager_entry list" where
  "sm_getEntries sm = List.map_filter entry_of (sm_fileEntries sm)"

text \<open>\<open>loadEntriesFromFile\<close>, for the text of a file: blank and malformed lines are skipped, and without a header first nothing
  is loaded.\<close>

definition loadEntriesFromFile :: "line_format \<Rightarrow> js_string \<Rightarrow> file_entry list" where
  "loadEntriesFromFile fmt content =
     (let es = List.map_filter (parse_line fmt) (document_lines content) in
      case es of HeaderLine _ # _ \<Rightarrow> es | _ \<Rightarrow> [])"

definition entries_text :: "line_format \<Rightarrow> file_entry list \<Rightarrow> js_string" where
  "entries_text fmt es = concat (map (\<lambda>e. line_of fmt e @ [newline]) es)"

definition rewriteFile :: "line_format \<Rightarrow> session_manager \<Rightarrow> session_files \<Rightarrow> session_files" where
  "rewriteFile fmt sm fs =
     (case sm_sessionFile sm of
        Some f \<Rightarrow> if sm_persist sm \<and> f \<noteq> [] then fs(f \<mapsto> entries_text fmt (sm_fileEntries sm)) else fs
      | None \<Rightarrow> fs)"

definition session_file_name :: "session_manager \<Rightarrow> js_string \<Rightarrow> js_string \<Rightarrow> js_string" where
  "session_file_name sm now i =
     sm_sessionDir sm @ slash # map (\<lambda>c. if c = 0x3a \<or> c = 0x2e then 0x2d else c) now @ js ''_'' @ i @ js ''.jsonl''"

text \<open>\<open>newSession\<close>; the directory is a normalised path and not the root; \<open>given\<close> is the id of the options and \<open>fresh\<close> a new one. It throws for an invalid id.\<close>

definition newSession ::
  "js_string option \<Rightarrow> js_string option \<Rightarrow> js_string \<Rightarrow> js_string \<Rightarrow> session_manager \<Rightarrow> session_manager option" where
  "newSession given parentSession fresh now sm =
     (if \<exists>i. given = Some i \<and> \<not> assertValidSessionId i then None
      else
        let i = (case given of Some i \<Rightarrow> i | None \<Rightarrow> fresh);
            header = \<lparr>mh_version = Some CURRENT_SESSION_VERSION, mh_id = i, mh_timestamp = now, mh_cwd = sm_cwd sm,
                      mh_parentSession = parentSession\<rparr>;
            sm' = sm\<lparr>sm_sessionId := i, sm_fileEntries := [HeaderLine header], sm_byId := [], sm_labelsById := [],
                     sm_labelTimestampsById := [], sm_leafId := None, sm_flushed := False\<rparr>
        in Some (if sm_persist sm then sm'\<lparr>sm_sessionFile := Some (session_file_name sm now i)\<rparr> else sm'))"

text \<open>\<open>_buildIndex\<close>\<close>

definition set_label :: "js_string \<Rightarrow> js_string option \<Rightarrow> js_string \<Rightarrow> session_manager \<Rightarrow> session_manager" where
  "set_label target label now sm =
     (case label of
        Some (c # cs) \<Rightarrow> sm\<lparr>sm_labelsById := map_set target (c # cs) (sm_labelsById sm),
          sm_labelTimestampsById := map_set target now (sm_labelTimestampsById sm)\<rparr>
      | _ \<Rightarrow> sm\<lparr>sm_labelsById := map_delete target (sm_labelsById sm),
          sm_labelTimestampsById := map_delete target (sm_labelTimestampsById sm)\<rparr>)"

definition index_entry :: "manager_entry \<Rightarrow> session_manager \<Rightarrow> session_manager" where
  "index_entry n sm =
     (let sm' = sm\<lparr>sm_byId := map_set (n_id n) n (sm_byId sm), sm_leafId := n_id n\<rparr> in
      case n_body n of MgrLabel target label \<Rightarrow> set_label target label (n_time n) sm' | _ \<Rightarrow> sm')"

definition buildIndex :: "session_manager \<Rightarrow> session_manager" where
  "buildIndex sm = fold index_entry (sm_getEntries sm)
     (sm\<lparr>sm_byId := [], sm_labelsById := [], sm_labelTimestampsById := [], sm_leafId := None\<rparr>)"

text \<open>\<open>_setSessionFile\<close>, the path resolved: it throws for a file that is not empty and not a session (the manager, which
  then has the path and no entries, is not followed further).\<close>

definition setSessionFile ::
  "line_format \<Rightarrow> (nat \<Rightarrow> js_string) \<Rightarrow> js_string \<Rightarrow> js_string \<Rightarrow> js_string \<Rightarrow> session_manager \<Rightarrow> session_files
     \<Rightarrow> (session_manager \<times> session_files) option" where
  "setSessionFile fmt random fresh now path sm fs =
     (case fs path of
        None \<Rightarrow> map_option (\<lambda>sm'. (sm'\<lparr>sm_sessionFile := Some path\<rparr>, fs)) (newSession None None fresh now sm)
      | Some content \<Rightarrow>
          (let es = loadEntriesFromFile fmt content in
           if es = [] then
             if content \<noteq> [] then None
             else map_option (\<lambda>sm'. let sm'' = sm'\<lparr>sm_sessionFile := Some path\<rparr> in
                 (sm''\<lparr>sm_flushed := True\<rparr>, rewriteFile fmt sm'' fs)) (newSession None None fresh now sm)
           else
             let (es', migrated) = migrateToCurrentVersion random es;
                 sm' = sm\<lparr>sm_sessionFile := Some path, sm_fileEntries := es',
                          sm_sessionId := (case find_header es of Some h \<Rightarrow> mh_id h | None \<Rightarrow> fresh)\<rparr>
             in Some ((buildIndex sm')\<lparr>sm_flushed := True\<rparr>, if migrated then rewriteFile fmt sm' fs else fs)))"

definition is_assistant :: "file_entry \<Rightarrow> bool" where
  "is_assistant e \<longleftrightarrow> (case e of EntryLine n \<Rightarrow> (case n_body n of MgrMessage (AssistantMessage _) \<Rightarrow> True | _ \<Rightarrow> False) | _ \<Rightarrow> False)"

definition append_line :: "line_format \<Rightarrow> js_string \<Rightarrow> file_entry \<Rightarrow> session_files \<Rightarrow> session_files" where
  "append_line fmt f e fs = fs(f \<mapsto> (case fs f of Some c \<Rightarrow> c | None \<Rightarrow> []) @ line_of fmt e @ [newline])"

text \<open>\<open>_persist\<close>: the new state, the files and whether it returned; with \<open>fault = Some k\<close> the writing fails, and of a whole session
  \<open>k\<close> lines are written. The flag \<open>wx\<close> refuses a file that is there.\<close>

definition persist_entry ::
  "line_format \<Rightarrow> nat option \<Rightarrow> file_entry \<Rightarrow> session_manager \<Rightarrow> session_files \<Rightarrow> session_manager \<times> session_files \<times> bool" where
  "persist_entry fmt fault e sm fs =
     (case sm_sessionFile sm of
        None \<Rightarrow> (sm, fs, True)
      | Some f \<Rightarrow>
          if \<not> sm_persist sm \<or> f = [] then (sm, fs, True)
          else if \<not> (\<exists>a \<in> set (sm_fileEntries sm). is_assistant a) then
            (if sm_flushed sm then (if fault = None then (sm, append_line fmt f e fs, True) else (sm, fs, False))
             else (sm, fs, True))
          else if \<not> sm_flushed sm then
            (if fs f \<noteq> None then (sm, fs, False)
             else case fault of
               None \<Rightarrow> (sm\<lparr>sm_flushed := True\<rparr>, fs(f \<mapsto> entries_text fmt (sm_fileEntries sm)), True)
             | Some k \<Rightarrow> (sm, fs(f \<mapsto> entries_text fmt (take k (sm_fileEntries sm))), False))
          else if fault = None then (sm, append_line fmt f e fs, True) else (sm, fs, False))"

definition appendEntry ::
  "line_format \<Rightarrow> nat option \<Rightarrow> manager_entry \<Rightarrow> session_manager \<Rightarrow> session_files \<Rightarrow> session_manager \<times> session_files \<times> bool" where
  "appendEntry fmt fault n sm fs =
     persist_entry fmt fault (EntryLine n)
       (sm\<lparr>sm_fileEntries := sm_fileEntries sm @ [EntryLine n], sm_byId := map_set (n_id n) n (sm_byId sm), sm_leafId := n_id n\<rparr>) fs"

definition id_taken :: "session_manager \<Rightarrow> js_string \<Rightarrow> bool" where
  "id_taken sm i \<longleftrightarrow> map_of (sm_byId sm) (Some i) \<noteq> None"

text \<open>The methods \<open>appendMessage\<close>, \<open>appendThinkingLevelChange\<close> and so on: an entry under the leaf.\<close>

definition append_body ::
  "line_format \<Rightarrow> nat option \<Rightarrow> (nat \<Rightarrow> js_string) \<Rightarrow> js_string \<Rightarrow> js_string \<Rightarrow> manager_body \<Rightarrow> session_manager \<Rightarrow> session_files
     \<Rightarrow> session_manager \<times> session_files \<times> bool" where
  "append_body fmt fault random full now b sm fs =
     appendEntry fmt fault \<lparr>n_id = Some (generateId random full (id_taken sm)), n_parent = sm_leafId sm, n_time = now, n_body = b\<rparr> sm fs"

text \<open>\<open>replace(/[\r\n]+/g, " ")\<close>\<close>

fun fold_line_breaks :: "bool \<Rightarrow> js_string \<Rightarrow> js_string" where
  "fold_line_breaks inside [] = []"
| "fold_line_breaks inside (c # cs) =
     (if c = newline \<or> c = 0xd then (if inside then fold_line_breaks True cs else 0x20 # fold_line_breaks True cs)
      else c # fold_line_breaks False cs)"

definition session_info_body :: "js_string \<Rightarrow> manager_body" where
  "session_info_body s = MgrSessionInfo (Some (trim (fold_line_breaks False s)))"

fun last_name :: "manager_entry list \<Rightarrow> js_string option" where
  "last_name [] = None"
| "last_name (n # ns) = (case n_body n of MgrSessionInfo s \<Rightarrow> trimmed s | _ \<Rightarrow> last_name ns)"

definition getSessionName :: "session_manager \<Rightarrow> js_string option" where
  "getSessionName sm = last_name (rev (sm_getEntries sm))"

definition getChildren :: "js_string \<Rightarrow> session_manager \<Rightarrow> manager_entry list" where
  "getChildren i sm = filter (\<lambda>n. n_parent n = Some i) (map snd (sm_byId sm))"

text \<open>\<open>appendLabelChange\<close> throws for an unknown target; so do \<open>branch\<close> and \<open>branchWithSummary\<close>.\<close>

definition appendLabelChange ::
  "line_format \<Rightarrow> nat option \<Rightarrow> (nat \<Rightarrow> js_string) \<Rightarrow> js_string \<Rightarrow> js_string \<Rightarrow> js_string \<Rightarrow> js_string option \<Rightarrow> session_manager
     \<Rightarrow> session_files \<Rightarrow> (session_manager \<times> session_files \<times> bool) option" where
  "appendLabelChange fmt fault random full now target label sm fs =
     (if \<not> id_taken sm target then None
      else case append_body fmt fault random full now (MgrLabel target label) sm fs of
        (sm', fs', ok) \<Rightarrow> Some (if ok then set_label target label now sm' else sm', fs', ok))"

definition sm_getBranch :: "js_string option \<Rightarrow> session_manager \<Rightarrow> manager_entry list option" where
  "sm_getBranch from_id sm =
     (case (case from_id of Some i \<Rightarrow> Some i | None \<Rightarrow> sm_leafId sm) of
        Some (c # cs) \<Rightarrow>
          (case map_of (sm_byId sm) (Some (c # cs)) of
             None \<Rightarrow> Some []
           | Some n \<Rightarrow> map_option rev (walk_up (sm_byId sm) n []))
      | _ \<Rightarrow> Some [])"

definition sm_buildSessionContext :: "(js_string \<Rightarrow> int) \<Rightarrow> session_manager \<Rightarrow> manager_context option" where
  "sm_buildSessionContext getTime sm = mgr_buildSessionContext getTime (sm_getEntries sm) (sm_leafId sm) (sm_byId sm)"

definition sm_branch :: "js_string \<Rightarrow> session_manager \<Rightarrow> session_manager option" where
  "sm_branch i sm = (if id_taken sm i then Some (sm\<lparr>sm_leafId := Some i\<rparr>) else None)"

definition resetLeaf :: "session_manager \<Rightarrow> session_manager" where
  "resetLeaf sm = sm\<lparr>sm_leafId := None\<rparr>"

definition branchWithSummary ::
  "line_format \<Rightarrow> nat option \<Rightarrow> (nat \<Rightarrow> js_string) \<Rightarrow> js_string \<Rightarrow> js_string \<Rightarrow> js_string option \<Rightarrow> js_string \<Rightarrow> session_manager
     \<Rightarrow> session_files \<Rightarrow> (session_manager \<times> session_files \<times> bool) option" where
  "branchWithSummary fmt fault random full now from_id summary sm fs =
     (if \<exists>i. from_id = Some i \<and> \<not> id_taken sm i then None
      else Some (append_body fmt fault random full now
        (MgrBranchSummary summary (case from_id of Some i \<Rightarrow> i | None \<Rightarrow> js ''root'')) (sm\<lparr>sm_leafId := from_id\<rparr>) fs))"

subsection \<open>Extracting a branch\<close>

fun rechain :: "js_string option \<Rightarrow> manager_entry list \<Rightarrow> manager_entry list" where
  "rechain parent [] = []"
| "rechain parent (n # ns) =
     (if is_label n then rechain parent ns else n\<lparr>n_parent := parent\<rparr> # rechain (n_id n) ns)"

fun label_entries ::
  "(nat \<Rightarrow> nat \<Rightarrow> js_string) \<Rightarrow> js_string \<Rightarrow> js_string option list \<Rightarrow> js_string option \<Rightarrow> (js_string \<times> js_string \<times> js_string) list
     \<Rightarrow> manager_entry list" where
  "label_entries random full ids parent [] = []"
| "label_entries random full ids parent ((target, label, time) # ls) =
     (let i = generateId (random (length ids)) full (\<lambda>i. Some i \<in> set ids) in
      \<lparr>n_id = Some i, n_parent = parent, n_time = time, n_body = MgrLabel target (Some label)\<rparr>
        # label_entries random full (ids @ [Some i]) (Some i) ls)"

text \<open>\<open>createBranchedSession\<close>: \<open>random k\<close> are the random ids of the label made when \<open>k\<close> ids are taken. It throws when there is no
  such entry.\<close>

definition last_entry_id :: "manager_entry list \<Rightarrow> js_string option" where
  "last_entry_id ns = (if ns = [] then None else case n_id (last ns) of Some (c # cs) \<Rightarrow> Some (c # cs) | _ \<Rightarrow> None)"

definition branched_entries :: "(nat \<Rightarrow> nat \<Rightarrow> js_string) \<Rightarrow> js_string \<Rightarrow> manager_entry list \<Rightarrow> session_manager \<Rightarrow> manager_entry list" where
  "branched_entries random full path sm =
     (let kept = rechain None path; ids = map n_id kept;
          labels = filter (\<lambda>(target, _). Some target \<in> set ids) (sm_labelsById sm);
          withTimes = map (\<lambda>(target, label). (target, label, the (map_of (sm_labelTimestampsById sm) target))) labels
      in kept @ label_entries random full ids (last_entry_id kept) withTimes)"

definition createBranchedSession ::
  "line_format \<Rightarrow> (nat \<Rightarrow> nat \<Rightarrow> js_string) \<Rightarrow> js_string \<Rightarrow> js_string \<Rightarrow> js_string \<Rightarrow> js_string \<Rightarrow> session_manager \<Rightarrow> session_files
     \<Rightarrow> (session_manager \<times> session_files) option option" where
  "createBranchedSession fmt random full fresh now leaf sm fs =
     map_option (\<lambda>path.
       if path = [] then None
       else
         let header = \<lparr>mh_version = Some CURRENT_SESSION_VERSION, mh_id = fresh, mh_timestamp = now, mh_cwd = sm_cwd sm,
                       mh_parentSession = (if sm_persist sm then sm_sessionFile sm else None)\<rparr>;
             es = HeaderLine header # map EntryLine (branched_entries random full path sm);
             sm1 = sm\<lparr>sm_fileEntries := es, sm_sessionId := fresh\<rparr>
         in if sm_persist sm then
              let sm2 = buildIndex (sm1\<lparr>sm_sessionFile := Some (session_file_name sm now fresh)\<rparr>) in
              if \<exists>a \<in> set es. is_assistant a then Some (sm2\<lparr>sm_flushed := True\<rparr>, rewriteFile fmt sm2 fs)
              else Some (sm2\<lparr>sm_flushed := False\<rparr>, fs)
            else Some (buildIndex sm1, fs))
       (sm_getBranch (Some leaf) sm)"

subsection \<open>Opening, continuing and forking\<close>

definition blank_manager :: "js_string \<Rightarrow> js_string \<Rightarrow> bool \<Rightarrow> session_manager" where
  "blank_manager cwd dir persist = \<lparr>sm_sessionId = [], sm_sessionFile = None, sm_sessionDir = dir, sm_cwd = cwd, sm_persist = persist,
     sm_flushed = False, sm_fileEntries = [], sm_byId = [], sm_labelsById = [], sm_labelTimestampsById = [], sm_leafId = None\<rparr>"

text \<open>The constructor with a file, and without one.\<close>

definition manager_of_file ::
  "line_format \<Rightarrow> (nat \<Rightarrow> js_string) \<Rightarrow> js_string \<Rightarrow> js_string \<Rightarrow> js_string \<Rightarrow> js_string \<Rightarrow> js_string \<Rightarrow> session_files
     \<Rightarrow> (session_manager \<times> session_files) option" where
  "manager_of_file fmt random fresh now cwd dir path fs = setSessionFile fmt random fresh now path (blank_manager cwd dir True) fs"

definition create_manager :: "js_string option \<Rightarrow> js_string option \<Rightarrow> js_string \<Rightarrow> js_string \<Rightarrow> js_string \<Rightarrow> js_string \<Rightarrow> bool \<Rightarrow> session_manager option" where
  "create_manager given parentSession fresh now cwd dir persist = newSession given parentSession fresh now (blank_manager cwd dir persist)"

text \<open>\<open>forkFrom\<close>: the source must be a session and the new file must not be there.\<close>

definition forkFrom ::
  "line_format \<Rightarrow> (nat \<Rightarrow> js_string) \<Rightarrow> js_string option \<Rightarrow> js_string \<Rightarrow> js_string \<Rightarrow> js_string \<Rightarrow> js_string \<Rightarrow> js_string
     \<Rightarrow> session_files \<Rightarrow> (session_manager \<times> session_files) option" where
  "forkFrom fmt random given fresh now source targetCwd dir fs =
     (let es = (case fs source of Some c \<Rightarrow> loadEntriesFromFile fmt c | None \<Rightarrow> []);
          i = (case given of Some i \<Rightarrow> i | None \<Rightarrow> fresh);
          f = session_file_name (blank_manager targetCwd dir True) now i;
          header = \<lparr>mh_version = Some CURRENT_SESSION_VERSION, mh_id = i, mh_timestamp = now, mh_cwd = targetCwd,
                    mh_parentSession = Some source\<rparr>
      in if es = [] \<or> find_header es = None \<or> (\<exists>j. given = Some j \<and> \<not> assertValidSessionId j) \<or> fs f \<noteq> None then None
         else manager_of_file fmt random fresh now targetCwd dir f
           (foldl (\<lambda>fs e. append_line fmt f e fs) (fs(f \<mapsto> line_of fmt (HeaderLine header) @ [newline]))
             (filter (\<lambda>e. entry_of e \<noteq> None) es)))"

end
