(* ===== verification/SessionManagerFacts.thy ===== *)
theory SessionManagerFacts
  imports SessionManager
begin

text \<open>
  What the session manager keeps: the index is that of the entries, the branch of an entry is its path to the root, and
  a branch that is extracted into a session of its own has the same context.
\<close>

subsection \<open>The index of the entries\<close>

type_synonym entry_index = "entry_map \<times> (js_string \<times> js_string) list \<times> (js_string \<times> js_string) list"

definition label_step :: "manager_entry \<Rightarrow> entry_index \<Rightarrow> entry_index" where
  "label_step n = (\<lambda>(m, ls, ts).
     case n_body n of
       MgrLabel t (Some (c # cs)) \<Rightarrow> (m, map_set t (c # cs) ls, map_set t (n_time n) ts)
     | MgrLabel t _ \<Rightarrow> (m, map_delete t ls, map_delete t ts)
     | _ \<Rightarrow> (m, ls, ts))"

definition index_step :: "manager_entry \<Rightarrow> entry_index \<Rightarrow> entry_index" where
  "index_step n = (\<lambda>(m, ls, ts). label_step n (map_set (n_id n) n m, ls, ts))"

definition index_of_entries :: "manager_entry list \<Rightarrow> entry_index" where
  "index_of_entries ns = fold index_step ns ([], [], [])"

definition index_fields :: "session_manager \<Rightarrow> entry_index" where
  "index_fields sm = (sm_byId sm, sm_labelsById sm, sm_labelTimestampsById sm)"

definition with_index :: "entry_index \<Rightarrow> js_string option \<Rightarrow> session_manager \<Rightarrow> session_manager" where
  "with_index = (\<lambda>(m, ls, ts) l sm. sm\<lparr>sm_byId := m, sm_labelsById := ls, sm_labelTimestampsById := ts, sm_leafId := l\<rparr>)"

lemma index_entry_with: "index_entry n (with_index i l sm) = with_index (index_step n i) (n_id n) sm"
  by (cases i) (auto simp: index_entry_def with_index_def index_step_def label_step_def set_label_def Let_def
      split: manager_body.split option.split list.split)

lemma fold_index_entry:
  "fold index_entry ns (with_index i l sm) = with_index (fold index_step ns i) (if ns = [] then l else n_id (last ns)) sm"
  by (induction ns arbitrary: i l) (simp_all add: index_entry_with)

lemma buildIndex_eq:
  "buildIndex sm = with_index (index_of_entries (sm_getEntries sm))
     (if sm_getEntries sm = [] then None else n_id (last (sm_getEntries sm))) sm"
proof -
  have "sm\<lparr>sm_byId := [], sm_labelsById := [], sm_labelTimestampsById := [], sm_leafId := None\<rparr> = with_index ([], [], []) None sm"
    by (simp add: with_index_def)
  then show ?thesis by (simp add: buildIndex_def index_of_entries_def fold_index_entry)
qed

lemma with_index_simps [simp]:
  "index_fields (with_index i l sm) = i" "sm_leafId (with_index i l sm) = l" "sm_fileEntries (with_index i l sm) = sm_fileEntries sm"
  "sm_persist (with_index i l sm) = sm_persist sm" "sm_sessionFile (with_index i l sm) = sm_sessionFile sm"
  "sm_flushed (with_index i l sm) = sm_flushed sm" "sm_cwd (with_index i l sm) = sm_cwd sm" "sm_sessionDir (with_index i l sm) = sm_sessionDir sm"
  "sm_getEntries (with_index i l sm) = sm_getEntries sm"
  by (cases i; simp add: with_index_def index_fields_def sm_getEntries_def)+

lemma label_step_fst: "fst (label_step n i) = fst i"
  by (cases i) (auto simp: label_step_def split: manager_body.split option.split list.split)

lemma map_set_new: "k \<notin> fst ` set kvs \<Longrightarrow> map_set k v kvs = kvs @ [(k, v)]"
  by (induction kvs) auto

lemma index_byId:
  assumes "distinct (map n_id ns)"
  shows "fst (index_of_entries ns) = map (\<lambda>n. (n_id n, n)) ns"
  using assms
proof (induction ns rule: rev_induct)
  case (snoc n ns)
  have "n_id n \<notin> fst ` set (map (\<lambda>n. (n_id n, n)) ns)" using snoc.prems by (auto simp: image_image)
  from map_set_new [OF this]
  have "map_set (n_id n) n (map (\<lambda>n. (n_id n, n)) ns) = map (\<lambda>n. (n_id n, n)) (ns @ [n])" by simp
  with snoc show ?case
    by (cases "index_of_entries ns") (auto simp: index_of_entries_def index_step_def label_step_fst)
qed (simp add: index_of_entries_def)

subsection \<open>Trees of entries\<close>

definition ids :: "manager_entry list \<Rightarrow> js_string option set" where
  "ids ns = n_id ` set ns"

lemma ids_simps [simp]: "ids [] = {}" "ids (n # ns) = insert (n_id n) (ids ns)" "ids (ns @ ms) = ids ns \<union> ids ms" "ids (rev ns) = ids ns"
  by (auto simp: ids_def)

text \<open>Every entry has an id, and a parent that is an earlier entry or none.\<close>

fun tree_from :: "js_string option set \<Rightarrow> manager_entry list \<Rightarrow> bool" where
  "tree_from known [] \<longleftrightarrow> True"
| "tree_from known (n # ns) \<longleftrightarrow>
     (\<exists>c cs. n_id n = Some (c # cs)) \<and> n_id n \<notin> known \<and> (n_parent n = None \<or> n_parent n \<in> known)
     \<and> tree_from (insert (n_id n) known) ns"

definition tree_ok :: "manager_entry list \<Rightarrow> bool" where
  "tree_ok ns \<longleftrightarrow> tree_from {} ns"

lemma tree_from_append:
  "tree_from known (ns @ ms) \<longleftrightarrow> tree_from known ns \<and> tree_from (known \<union> ids ns) ms"
  by (induction ns arbitrary: known) auto

lemma tree_from_distinct: "tree_from known ns \<Longrightarrow> distinct (map n_id ns) \<and> ids ns \<inter> known = {}"
  by (induction ns arbitrary: known) (auto simp: ids_def)

lemma tree_from_ids: "tree_from known ns \<Longrightarrow> n \<in> set ns \<Longrightarrow> \<exists>c cs. n_id n = Some (c # cs)"
  by (induction ns arbitrary: known) auto

lemma tree_ok_snoc:
  "tree_ok (ns @ [n]) \<longleftrightarrow> tree_ok ns \<and> (\<exists>c cs. n_id n = Some (c # cs)) \<and> n_id n \<notin> ids ns \<and> (n_parent n = None \<or> n_parent n \<in> ids ns)"
  by (auto simp: tree_ok_def tree_from_append)

lemma tree_ok_distinct: "tree_ok ns \<Longrightarrow> distinct (map n_id ns)"
  using tree_from_distinct by (auto simp: tree_ok_def)

text \<open>The path from an entry to the root, looked up in the entries, newest first.\<close>

fun path_up :: "manager_entry list \<Rightarrow> js_string option \<Rightarrow> manager_entry list" where
  "path_up [] i = []"
| "path_up (n # older) i = (if n_id n = i then n # (if n_parent n = None then [] else path_up older (n_parent n)) else path_up older i)"

lemma path_up_subset: "set (path_up ns i) \<subseteq> set ns"
  by (induction ns arbitrary: i) auto

lemma path_up_distinct: "distinct (map n_id ns) \<Longrightarrow> distinct (map n_id (path_up ns i))"
proof (induction ns arbitrary: i)
  case (Cons n ns)
  have "n_id n \<notin> n_id ` set (path_up ns j)" for j using Cons.prems path_up_subset [of ns j] by auto
  with Cons show ?case by auto
qed simp

lemma lookup_entry:
  assumes "distinct (map n_id ns)"
  shows "map_of (map (\<lambda>n. (n_id n, n)) ns) i = Some n \<longleftrightarrow> n \<in> set ns \<and> n_id n = i"
proof -
  have "map fst (map (\<lambda>n. (n_id n, n)) ns) = map n_id ns" by (simp add: comp_def)
  then have "distinct (map fst (map (\<lambda>n. (n_id n, n)) ns))" using assms by (simp only:)
  from map_of_eq_Some_iff [OF this] show ?thesis by auto
qed

lemma walk_up_path:
  assumes "tree_ok (rev older @ newer)" "n \<in> set older"
  shows "walk_up (map (\<lambda>n. (n_id n, n)) (rev older @ newer)) n path = Some (path @ path_up older (n_id n))"
  using assms
proof (induction older arbitrary: newer n path)
  case (Cons e older)
  let ?ns = "rev older @ e # newer"
  have ns: "rev (e # older) @ newer = ?ns" by simp
  have dist: "distinct (map n_id ?ns)" using tree_ok_distinct Cons.prems(1) by (metis ns)
  have tree: "tree_ok ?ns" using Cons.prems(1) by simp
  show ?case
  proof (cases "n \<in> set older")
    case True
    moreover have "n_id e \<noteq> n_id n" using dist True by auto
    ultimately show ?thesis using Cons.IH [of "e # newer" n path] tree by simp
  next
    case False
    with Cons.prems(2) have n: "n = e" by simp
    show ?thesis
    proof (cases "n_parent e")
      case None
      then show ?thesis by (subst walk_up.simps) (simp add: n parent_entry_def)
    next
      case (Some p)
      with tree have "Some p \<in> ids older" by (auto simp: tree_ok_def tree_from_append)
      then obtain q where q: "q \<in> set older" "n_id q = Some p" by (auto simp: ids_def)
      then obtain c cs where p: "p = c # cs" using tree tree_from_ids [of "{}" ?ns q] by (auto simp: tree_ok_def)
      have "map_of (map (\<lambda>n. (n_id n, n)) ?ns) (Some p) = Some q" using lookup_entry [OF dist] q by simp
      then have "parent_entry (map (\<lambda>n. (n_id n, n)) ?ns) e = Some q" using Some p by (simp add: parent_entry_def)
      moreover have "walk_up (map (\<lambda>n. (n_id n, n)) ?ns) q (path @ [e]) = Some ((path @ [e]) @ path_up older (n_id q))"
        using Cons.IH [of "e # newer" q "path @ [e]"] tree q(1) by simp
      ultimately show ?thesis unfolding ns using Some q(2) by (subst walk_up.simps) (simp add: n)
    qed
  qed
qed simp

lemma walk_up_tree:
  assumes "tree_ok ns" "n \<in> set ns"
  shows "walk_up (map (\<lambda>n. (n_id n, n)) ns) n [] = Some (path_up (rev ns) (n_id n))"
  using walk_up_path [of "rev ns" "[]" n "[]"] assms by simp

subsection \<open>Chains\<close>

text \<open>Every entry is the child of the one before it.\<close>

fun chained :: "js_string option \<Rightarrow> manager_entry list \<Rightarrow> bool" where
  "chained p [] \<longleftrightarrow> True"
| "chained p (n # ns) \<longleftrightarrow> n_parent n = p \<and> chained (n_id n) ns"

lemma chained_append: "chained p (ns @ ms) \<longleftrightarrow> chained p ns \<and> chained (if ns = [] then p else n_id (last ns)) ms"
  by (induction ns arbitrary: p) auto

definition with_ids :: "manager_entry list \<Rightarrow> bool" where
  "with_ids ns \<longleftrightarrow> distinct (map n_id ns) \<and> (\<forall>n \<in> set ns. \<exists>c cs. n_id n = Some (c # cs))"

lemma tree_ok_with_ids: "tree_ok ns \<Longrightarrow> with_ids ns"
  using tree_from_ids [of "{}" ns] tree_ok_distinct [of ns] by (simp add: with_ids_def tree_ok_def)

lemma with_ids_nonempty: "with_ids ns \<Longrightarrow> n \<in> set ns \<Longrightarrow> \<exists>c cs. n_id n = Some (c # cs)"
  by (simp add: with_ids_def)

lemma chained_tree: "chained None ns \<Longrightarrow> with_ids ns \<Longrightarrow> tree_ok ns"
proof (induction ns rule: rev_induct)
  case (snoc n ns)
  have "n_parent n = None \<or> n_parent n \<in> ids ns"
    using snoc.prems(1) by (cases "ns = []") (auto simp: chained_append ids_def)
  with snoc show ?case by (auto simp: tree_ok_snoc chained_append with_ids_def ids_def)
qed (simp add: tree_ok_def)

lemma chained_path: "chained None ns \<Longrightarrow> with_ids ns \<Longrightarrow> ns \<noteq> [] \<Longrightarrow> path_up (rev ns) (n_id (last ns)) = rev ns"
proof (induction ns rule: rev_induct)
  case (snoc n ns)
  show ?case
  proof (cases "ns = []")
    case False
    then have "n_parent n = n_id (last ns)" "last ns \<in> set ns" using snoc.prems(1) by (auto simp: chained_append)
    moreover from this have "n_id (last ns) \<noteq> None" using snoc.prems(2) by (force simp: with_ids_def)
    moreover have "path_up (rev ns) (n_id (last ns)) = rev ns"
      using snoc False by (auto simp: chained_append with_ids_def)
    ultimately show ?thesis using False by (cases "n_id (last ns)") simp_all
  qed (use snoc.prems in \<open>simp add: chained_append\<close>)
qed simp

lemma rechain_chained: "chained p (rechain p path)"
  by (induction p path rule: rechain.induct) auto

lemma label_entries_chained: "chained p (label_entries random full known p ls)"
  by (induction random full known p ls rule: label_entries.induct) (auto simp: Let_def)

lemma last_entry_id: "with_ids ns \<Longrightarrow> last_entry_id ns = (if ns = [] then None else n_id (last ns))"
  using with_ids_nonempty [of ns "last ns"] by (cases "ns = []") (auto simp: last_entry_id_def)

lemma with_ids_append: "with_ids (ns @ ms) \<Longrightarrow> with_ids ns"
  by (simp add: with_ids_def)

lemma branched_chained:
  assumes "with_ids (branched_entries random full path sm)"
  shows "chained None (branched_entries random full path sm)"
proof -
  have "with_ids (rechain None path)"
    using assms with_ids_append by (auto simp: branched_entries_def Let_def)
  then show ?thesis
    by (simp add: branched_entries_def Let_def chained_append rechain_chained label_entries_chained last_entry_id)
qed

subsection \<open>Labels do not matter for the context\<close>

text \<open>An entry without its parent.\<close>

definition anon :: "manager_entry \<Rightarrow> manager_entry" where
  "anon n = n\<lparr>n_parent := None\<rparr>"

lemma anon_simps [simp]:
  "n_id (anon n) = n_id n" "n_body (anon n) = n_body n" "n_time (anon n) = n_time n"
  "is_label (anon n) = is_label n" "is_compaction (anon n) = is_compaction n" "kept_from (anon n) = kept_from n"
  "entryContextMessages getTime (anon n) = entryContextMessages getTime n" "settings_step (anon n) = settings_step n"
  by (simp_all add: anon_def is_label_def is_compaction_def kept_from_def entryContextMessages_def settings_step_def fun_eq_iff
      split: manager_body.split)

lemma rechain_anon: "map anon (rechain p path) = map anon (filter (\<lambda>n. \<not> is_label n) path)"
  by (induction p path rule: rechain.induct) (auto simp: anon_def)

lemma takeWhile_anon: "takeWhile (\<lambda>n. n_id n \<noteq> i) (map anon path) = map anon (takeWhile (\<lambda>n. n_id n \<noteq> i) path)"
  by (induction path) auto

lemma dropWhile_anon: "dropWhile (\<lambda>n. n_id n \<noteq> i) (map anon path) = map anon (dropWhile (\<lambda>n. n_id n \<noteq> i) path)"
  by (induction path) auto

lemma filter_anon: "filter is_compaction (map anon path) = map anon (filter is_compaction path)"
  by (induction path) auto

text \<open>The context under a compaction.\<close>

definition context_at :: "manager_entry \<Rightarrow> manager_entry list \<Rightarrow> manager_entry list" where
  "context_at c path =
     (let before = takeWhile (\<lambda>n. n_id n \<noteq> n_id c) path in
      c # (case kept_from c of None \<Rightarrow> [] | Some i \<Rightarrow> dropWhile (\<lambda>n. n_id n \<noteq> Some i) before) @ drop (length before + 1) path)"

lemma context_of_path_eq:
  "context_of_path path = (if filter is_compaction path = [] then path else context_at (last (filter is_compaction path)) path)"
  by (cases "filter is_compaction path") (simp_all add: context_of_path_def context_at_def Let_def del: last.simps)

lemma context_at_anon: "context_at (anon c) (map anon path) = map anon (context_at c path)"
  by (simp add: context_at_def Let_def takeWhile_anon dropWhile_anon drop_map split: option.split)

lemma context_of_path_anon: "context_of_path (map anon path) = map anon (context_of_path path)"
  by (simp add: context_of_path_eq filter_anon last_map context_at_anon)

definition context_texts :: "(js_string \<Rightarrow> int) \<Rightarrow> manager_entry list \<Rightarrow> agent_message list" where
  "context_texts getTime ns = concat (map (entryContextMessages getTime) ns)"

lemma context_texts_simps [simp]:
  "context_texts getTime [] = []" "context_texts getTime (n # ns) = entryContextMessages getTime n @ context_texts getTime ns"
  "context_texts getTime (ns @ ms) = context_texts getTime ns @ context_texts getTime ms"
  "context_texts getTime (map anon ns) = context_texts getTime ns"
  by (simp_all add: context_texts_def comp_def)

lemma label_no_messages: "is_label n \<Longrightarrow> entryContextMessages getTime n = []"
  by (auto simp: is_label_def entryContextMessages_def split: manager_body.splits)

lemma context_texts_filter: "context_texts getTime (filter (\<lambda>n. \<not> is_label n) ns) = context_texts getTime ns"
  by (induction ns) (auto simp: label_no_messages)

lemma settings_filter: "fold settings_step (filter (\<lambda>n. \<not> is_label n) ns) s = fold settings_step ns s"
proof (induction ns arbitrary: s)
  case (Cons n ns)
  have "is_label n \<Longrightarrow> settings_step n s = s" by (auto simp: is_label_def settings_step_def split: manager_body.splits)
  with Cons show ?case by auto
qed simp

lemma settings_anon: "fold settings_step (map anon ns) s = fold settings_step ns s"
  by (induction ns arbitrary: s) simp_all

text \<open>The last compaction keeps nothing from a label.\<close>

definition keeps_no_label :: "manager_entry list \<Rightarrow> bool" where
  "keeps_no_label path \<longleftrightarrow>
     (\<forall>c i. filter is_compaction path \<noteq> [] \<and> c = last (filter is_compaction path) \<and> kept_from c = Some i \<longrightarrow>
        (\<forall>n \<in> set (takeWhile (\<lambda>n. n_id n \<noteq> n_id c) path). n_id n = Some i \<longrightarrow> \<not> is_label n))"

lemma label_not_compaction: "is_compaction n \<Longrightarrow> \<not> is_label n"
  by (auto simp: is_compaction_def is_label_def split: manager_body.splits)

lemma compactions_without_labels: "filter is_compaction (filter (\<lambda>n. \<not> is_label n) path) = filter is_compaction path"
  using label_not_compaction by (induction path) auto

lemma dropWhile_texts:
  assumes "\<forall>n \<in> set ns. n_id n = i \<longrightarrow> \<not> is_label n"
  shows "context_texts getTime (dropWhile (\<lambda>n. n_id n \<noteq> i) (filter (\<lambda>n. \<not> is_label n) ns))
    = context_texts getTime (dropWhile (\<lambda>n. n_id n \<noteq> i) ns)"
  using assms by (induction ns) (auto simp: context_texts_filter)

lemma context_without_labels:
  assumes dist: "distinct (map n_id path)" and kept: "keeps_no_label path"
  shows "context_texts getTime (context_of_path (filter (\<lambda>n. \<not> is_label n) path)) = context_texts getTime (context_of_path path)"
proof (cases "filter is_compaction path = []")
  case True
  then have "context_of_path (filter (\<lambda>n. \<not> is_label n) path) = filter (\<lambda>n. \<not> is_label n) path" "context_of_path path = path"
    unfolding context_of_path_eq compactions_without_labels by simp_all
  then show ?thesis by (simp add: context_texts_filter)
next
  case False
  define c where "c = last (filter is_compaction path)"
  let ?live = "filter (\<lambda>n. \<not> is_label n)"
  have c: "c \<in> set path" "is_compaction c" using False last_in_set [of "filter is_compaction path"] by (auto simp: c_def)
  obtain before after where path: "path = before @ c # after" using c(1) by (auto simp: in_set_conv_decomp)
  have other: "n_id n \<noteq> n_id c" if "n \<in> set before" for n using imageI [OF that, of n_id] dist by (auto simp: path)
  have tw: "takeWhile (\<lambda>n. n_id n \<noteq> n_id c) path = before" using other by (simp add: path takeWhile_append2)
  have live: "?live path = ?live before @ c # ?live after" using label_not_compaction [OF c(2)] by (simp add: path)
  have tw': "takeWhile (\<lambda>n. n_id n \<noteq> n_id c) (?live path) = ?live before" using other unfolding live by (subst takeWhile_append2) auto
  have "context_texts getTime (case kept_from c of None \<Rightarrow> [] | Some i \<Rightarrow> dropWhile (\<lambda>n. n_id n \<noteq> Some i) (?live before))
      = context_texts getTime (case kept_from c of None \<Rightarrow> [] | Some i \<Rightarrow> dropWhile (\<lambda>n. n_id n \<noteq> Some i) before)"
    using kept False tw by (auto simp: keeps_no_label_def c_def [symmetric] intro!: dropWhile_texts split: option.split)
  then have "context_texts getTime (context_at c (?live path)) = context_texts getTime (context_at c path)"
    unfolding context_at_def Let_def tw tw' by (simp add: path label_not_compaction [OF c(2)] context_texts_filter)
  with False show ?thesis unfolding context_of_path_eq compactions_without_labels c_def [symmetric] by simp
qed

lemma keeps_no_label_live: "keeps_no_label (kept @ labels)" if "\<forall>n \<in> set kept. \<not> is_label n" "\<forall>n \<in> set labels. is_label n"
proof -
  have comp: "filter is_compaction (kept @ labels) = filter is_compaction kept"
    using that(2) label_not_compaction by (auto simp: filter_empty_conv)
  show ?thesis
    unfolding keeps_no_label_def comp
  proof (intro allI impI ballI, elim conjE)
    fix c i n
    assume c: "filter is_compaction kept \<noteq> []" "c = last (filter is_compaction kept)"
      and n: "n \<in> set (takeWhile (\<lambda>n. n_id n \<noteq> n_id c) (kept @ labels))"
    have "c \<in> set kept" using c last_in_set [of "filter is_compaction kept"] by auto
    then have "takeWhile (\<lambda>n. n_id n \<noteq> n_id c) (kept @ labels) = takeWhile (\<lambda>n. n_id n \<noteq> n_id c) kept"
      by (intro takeWhile_append1) auto
    with n that(1) show "\<not> is_label n" by (auto dest: set_takeWhileD)
  qed
qed

lemma rechain_no_labels: "\<forall>n \<in> set (rechain p path). \<not> is_label n"
proof
  fix n assume "n \<in> set (rechain p path)"
  then have "anon n \<in> set (map anon (rechain p path))" by simp
  then obtain m where "anon n = anon m" "\<not> is_label m" unfolding rechain_anon by auto
  then show "\<not> is_label n" by (metis anon_simps(4))
qed

lemma is_label_made [simp]: "is_label \<lparr>n_id = i, n_parent = p, n_time = t, n_body = MgrLabel target label\<rparr>"
  by (simp add: is_label_def)

lemma label_entries_labels: "\<forall>n \<in> set (label_entries random full known p ls). is_label n"
  by (induction random full known p ls rule: label_entries.induct) (simp_all add: Let_def)

lemma branched_live:
  "filter (\<lambda>n. \<not> is_label n) (branched_entries random full path sm) = rechain None path"
  "keeps_no_label (branched_entries random full path sm)"
proof -
  obtain ls where new: "branched_entries random full path sm = rechain None path @ ls" "\<forall>n \<in> set ls. is_label n"
    by (rule that [OF branched_entries_def [unfolded Let_def] label_entries_labels])
  then show "filter (\<lambda>n. \<not> is_label n) (branched_entries random full path sm) = rechain None path"
    using rechain_no_labels [of None path] by (simp add: filter_empty_conv filter_id_conv)
  show "keeps_no_label (branched_entries random full path sm)"
    unfolding new(1) by (rule keeps_no_label_live [OF rechain_no_labels new(2)])
qed

text \<open>The context of the extracted branch is that of the branch.\<close>

lemma branched_context_from_path:
  assumes "distinct (map n_id path)" "keeps_no_label path" "distinct (map n_id (branched_entries random full path sm))"
  shows "context_from_path getTime (branched_entries random full path sm) = context_from_path getTime path"
proof -
  let ?new = "branched_entries random full path sm"
  let ?live = "filter (\<lambda>n. \<not> is_label n)"
  have anon: "map anon (?live ?new) = map anon (?live path)" by (simp add: branched_live(1) rechain_anon)
  have "context_texts getTime (context_of_path (?live ?new)) = context_texts getTime (context_of_path (?live path))"
    using arg_cong [OF anon, of "\<lambda>ns. context_texts getTime (context_of_path ns)"] by (simp add: context_of_path_anon)
  then have "context_texts getTime (context_of_path ?new) = context_texts getTime (context_of_path path)"
    using context_without_labels [OF assms(3) branched_live(2)] context_without_labels [OF assms(1,2)] by simp
  moreover have "getSessionContextSettings ?new = getSessionContextSettings path"
    using arg_cong [OF anon, of "\<lambda>ns. fold settings_step ns (js ''off'', None)"]
    by (simp add: settings_anon settings_filter getSessionContextSettings_def)
  ultimately show ?thesis by (simp add: context_from_path_def context_texts_def)
qed

subsection \<open>The invariant of the manager\<close>

definition mgr_ok :: "session_manager \<Rightarrow> bool" where
  "mgr_ok sm \<longleftrightarrow> (\<exists>h. sm_fileEntries sm = HeaderLine h # map EntryLine (sm_getEntries sm) \<and> mh_version h = Some CURRENT_SESSION_VERSION)
     \<and> tree_ok (sm_getEntries sm) \<and> index_fields sm = index_of_entries (sm_getEntries sm)
     \<and> (sm_leafId sm = None \<or> sm_leafId sm \<in> ids (sm_getEntries sm))"

lemma entry_of_simps [simp]: "entry_of (HeaderLine h) = None" "entry_of (EntryLine n) = Some n"
  by (simp_all add: entry_of_def)

lemma getEntries_lines [simp]: "List.map_filter entry_of (map EntryLine ns) = ns"
  by (induction ns) (simp_all add: List.map_filter_def)

lemma mgr_ok_byId:
  assumes "mgr_ok sm"
  shows "sm_byId sm = map (\<lambda>n. (n_id n, n)) (sm_getEntries sm)"
proof -
  have "sm_byId sm = fst (index_fields sm)" by (simp add: index_fields_def)
  with assms index_byId [OF tree_ok_distinct] show ?thesis by (simp add: mgr_ok_def)
qed

lemma id_taken_iff: "mgr_ok sm \<Longrightarrow> id_taken sm i \<longleftrightarrow> Some i \<in> ids (sm_getEntries sm)"
  by (simp add: id_taken_def mgr_ok_byId ids_def map_of_eq_None_iff image_image)

lemma mgr_ok_branch:
  assumes ok: "mgr_ok sm" and n: "n \<in> set (sm_getEntries sm)" "n_id n = Some i"
  shows "sm_getBranch (Some i) sm = Some (rev (path_up (rev (sm_getEntries sm)) (Some i)))"
    "buildSessionPath (sm_getEntries sm) (Some i) (sm_byId sm) = Some (rev (path_up (rev (sm_getEntries sm)) (Some i)))"
proof -
  have tree: "tree_ok (sm_getEntries sm)" using ok by (simp add: mgr_ok_def)
  obtain c cs where i: "i = c # cs" using with_ids_nonempty [OF tree_ok_with_ids [OF tree] n(1)] n(2) by auto
  have "map_of (sm_byId sm) (Some i) = Some n"
    using lookup_entry [OF tree_ok_distinct [OF tree]] n by (simp add: mgr_ok_byId [OF ok])
  moreover have "walk_up (sm_byId sm) n [] = Some (path_up (rev (sm_getEntries sm)) (Some i))"
    using walk_up_tree [OF tree n(1)] n(2) by (simp add: mgr_ok_byId [OF ok])
  ultimately show "sm_getBranch (Some i) sm = Some (rev (path_up (rev (sm_getEntries sm)) (Some i)))"
    "buildSessionPath (sm_getEntries sm) (Some i) (sm_byId sm) = Some (rev (path_up (rev (sm_getEntries sm)) (Some i)))"
    by (simp_all add: sm_getBranch_def buildSessionPath_def i)
qed

lemma mgr_ok_branch_cases:
  assumes ok: "mgr_ok sm" and path: "sm_getBranch (Some i) sm = Some path" "path \<noteq> []"
  shows "path = rev (path_up (rev (sm_getEntries sm)) (Some i))" "\<exists>n \<in> set (sm_getEntries sm). n_id n = Some i"
    "distinct (map n_id path)"
proof -
  have "map_of (sm_byId sm) (Some i) \<noteq> None"
    using path by (auto simp: sm_getBranch_def split: list.splits option.splits)
  then show n: "\<exists>n \<in> set (sm_getEntries sm). n_id n = Some i"
    using id_taken_iff [OF ok, of i] by (auto simp: id_taken_def ids_def)
  with mgr_ok_branch(1) [OF ok] path(1) show p: "path = rev (path_up (rev (sm_getEntries sm)) (Some i))" by auto
  have "distinct (map n_id (sm_getEntries sm))" using ok tree_ok_distinct by (simp add: mgr_ok_def)
  then have "distinct (map n_id (rev (sm_getEntries sm)))" by (simp add: rev_map [symmetric])
  from path_up_distinct [OF this] show "distinct (map n_id path)" by (simp add: p rev_map [symmetric])
qed

text \<open>A manager whose entries are a chain, with its leaf at the end.\<close>

lemma chain_manager:
  assumes entries: "sm_fileEntries sm = HeaderLine h # map EntryLine ns" "mh_version h = Some CURRENT_SESSION_VERSION"
    and ns: "chained None ns" "with_ids ns"
  shows "mgr_ok (buildIndex sm)" "sm_buildSessionContext getTime (buildIndex sm) = Some (context_from_path getTime ns)"
proof -
  have get: "sm_getEntries sm = ns" by (simp add: sm_getEntries_def entries(1))
  have leaf: "sm_leafId (buildIndex sm) = (if ns = [] then None else n_id (last ns))" by (simp add: buildIndex_eq get)
  show ok: "mgr_ok (buildIndex sm)"
    using entries chained_tree [OF ns] leaf by (auto simp: mgr_ok_def buildIndex_eq get ids_def)
  show "sm_buildSessionContext getTime (buildIndex sm) = Some (context_from_path getTime ns)"
  proof (cases "ns = []")
    case True
    with leaf show ?thesis
      by (simp add: sm_buildSessionContext_def mgr_buildSessionContext_def buildSessionPath_def)
  next
    case False
    then obtain i where i: "n_id (last ns) = Some i" using ns(2) last_in_set [OF False] by (force simp: with_ids_def)
    have "buildSessionPath ns (Some i) (sm_byId (buildIndex sm)) = Some (rev (path_up (rev ns) (Some i)))"
      using mgr_ok_branch(2) [OF ok, of "last ns" i] False i by (simp add: buildIndex_eq get)
    with chained_path [OF ns False] i leaf False show ?thesis
      by (simp add: sm_buildSessionContext_def mgr_buildSessionContext_def buildIndex_eq get)
  qed
qed

lemma flushed_simps [simp]:
  "mgr_ok (sm\<lparr>sm_flushed := b\<rparr>) = mgr_ok sm"
  "sm_buildSessionContext getTime (sm\<lparr>sm_flushed := b\<rparr>) = sm_buildSessionContext getTime sm"
  by (simp_all add: mgr_ok_def sm_getEntries_def index_fields_def sm_buildSessionContext_def)

lemma createBranchedSession_cases:
  assumes "sm_getBranch (Some i) sm = Some path" "path \<noteq> []"
  obtains sm1 h sm' fs' where "createBranchedSession fmt random full fresh now i sm fs = Some (Some (sm', fs'))"
    "sm' = buildIndex sm1 \<or> (\<exists>b. sm' = (buildIndex sm1)\<lparr>sm_flushed := b\<rparr>)"
    "sm_fileEntries sm1 = HeaderLine h # map EntryLine (branched_entries random full path sm)" "mh_version h = Some CURRENT_SESSION_VERSION"
proof -
  define h where "h = \<lparr>mh_version = Some CURRENT_SESSION_VERSION, mh_id = fresh, mh_timestamp = now, mh_cwd = sm_cwd sm,
    mh_parentSession = (if sm_persist sm then sm_sessionFile sm else None)\<rparr>"
  define es where "es = HeaderLine h # map EntryLine (branched_entries random full path sm)"
  define sm1 where "sm1 = (if sm_persist sm then sm\<lparr>sm_fileEntries := es, sm_sessionId := fresh, sm_sessionFile := Some (session_file_name sm now fresh)\<rparr>
    else sm\<lparr>sm_fileEntries := es, sm_sessionId := fresh\<rparr>)"
  have "createBranchedSession fmt random full fresh now i sm fs = Some (
      if sm_persist sm then
        if \<exists>a \<in> set es. is_assistant a then Some ((buildIndex sm1)\<lparr>sm_flushed := True\<rparr>, rewriteFile fmt (buildIndex sm1) fs)
        else Some ((buildIndex sm1)\<lparr>sm_flushed := False\<rparr>, fs)
      else Some (buildIndex sm1, fs))"
    using assms by (simp add: createBranchedSession_def Let_def sm1_def es_def h_def)
  moreover have "sm_fileEntries sm1 = HeaderLine h # map EntryLine (branched_entries random full path sm)"
    "mh_version h = Some CURRENT_SESSION_VERSION"
    by (simp_all add: sm1_def es_def h_def)
  ultimately show ?thesis using that by (cases "sm_persist sm"; cases "\<exists>a \<in> set es. is_assistant a") auto
qed

text \<open>Property C11. Extracting a branch into a session of its own keeps its context: the model is sent the same messages, with the same
  model and thinking level, as on that branch of the original session, though the label entries are taken out, the other entries chained
  anew and the labels appended at the end; provided that the last compaction does not keep the messages from a label on.\<close>

theorem branched_session_context:
  assumes "mgr_ok sm" "sm_getBranch (Some i) sm = Some path" "path \<noteq> []" "keeps_no_label path"
    and "with_ids (branched_entries random full path sm)"
  shows "\<exists>sm' fs'. createBranchedSession fmt random full fresh now i sm fs = Some (Some (sm', fs')) \<and> mgr_ok sm'
    \<and> sm_buildSessionContext getTime sm' = sm_buildSessionContext getTime (sm\<lparr>sm_leafId := Some i\<rparr>)"
proof -
  obtain sm1 h sm' fs' where new: "createBranchedSession fmt random full fresh now i sm fs = Some (Some (sm', fs'))"
    "sm' = buildIndex sm1 \<or> (\<exists>b. sm' = (buildIndex sm1)\<lparr>sm_flushed := b\<rparr>)"
    "sm_fileEntries sm1 = HeaderLine h # map EntryLine (branched_entries random full path sm)" "mh_version h = Some CURRENT_SESSION_VERSION"
    by (rule createBranchedSession_cases [OF assms(2,3)])
  note branch = mgr_ok_branch_cases [OF assms(1-3)]
  obtain n where n: "n \<in> set (sm_getEntries sm)" "n_id n = Some i" using branch(2) by blast
  have "sm_buildSessionContext getTime (sm\<lparr>sm_leafId := Some i\<rparr>) = Some (context_from_path getTime path)"
    using mgr_ok_branch(2) [OF assms(1) n] branch(1)
    by (simp add: sm_buildSessionContext_def mgr_buildSessionContext_def sm_getEntries_def)
  moreover have "context_from_path getTime (branched_entries random full path sm) = context_from_path getTime path"
    using branched_context_from_path [OF branch(3) assms(4)] assms(5) by (simp add: with_ids_def)
  moreover note chain_manager [OF new(3,4) branched_chained [OF assms(5)] assms(5)]
  ultimately have "mgr_ok sm'" "sm_buildSessionContext getTime sm' = sm_buildSessionContext getTime (sm\<lparr>sm_leafId := Some i\<rparr>)"
    using new(2) by auto
  with new(1) show ?thesis by blast
qed

text \<open>A session of an answer and a label on it.\<close>

definition mgr_sample_header :: manager_header where
  "mgr_sample_header = \<lparr>mh_version = Some 4, mh_id = js ''s'', mh_timestamp = js ''t'', mh_cwd = js ''/w'', mh_parentSession = None\<rparr>"

definition mgr_sample_answer :: manager_entry where
  "mgr_sample_answer = \<lparr>n_id = Some (js ''a''), n_parent = None, n_time = js ''t'', n_body = MgrMessage (AssistantMessage
     \<lparr>a_content = [], a_provider = js ''p'', a_model = js ''m'', a_usage = None, a_stopReason = Stop, a_errorMessage = None,
      a_timestamp = 0\<rparr>)\<rparr>"

definition mgr_sample_label :: manager_entry where
  "mgr_sample_label = \<lparr>n_id = Some (js ''l''), n_parent = Some (js ''a''), n_time = js ''t'', n_body = MgrLabel (js ''a'') (Some (js ''x''))\<rparr>"

definition mgr_sample :: session_manager where
  "mgr_sample = buildIndex ((blank_manager (js ''/w'') (js ''/d'') False)
     \<lparr>sm_fileEntries := HeaderLine mgr_sample_header # map EntryLine [mgr_sample_answer, mgr_sample_label]\<rparr>)"

lemma js_nonempty: "\<exists>c' cs'. js (c # cs) = c' # cs'"
  by (simp add: js_def)

lemma mgr_sample_entries: "chained None [mgr_sample_answer, mgr_sample_label]" "with_ids [mgr_sample_answer, mgr_sample_label]"
  by (simp_all add: with_ids_def mgr_sample_answer_def mgr_sample_label_def js_eq_iff js_nonempty)

definition no_lines :: line_format where
  "no_lines = \<lparr>parse_line = (\<lambda>_. None), line_of = (\<lambda>_. [])\<rparr>"

theorem branched_session_context_witness:
  "\<exists>sm' fs'. createBranchedSession no_lines (\<lambda>_ _. js ''n'') (js ''f'') (js ''s2'') (js ''t2'') (js ''l'') mgr_sample Map.empty = Some (Some (sm', fs'))
     \<and> mgr_ok sm' \<and> sm_buildSessionContext (\<lambda>_. 0) sm' = sm_buildSessionContext (\<lambda>_. 0) mgr_sample"
proof -
  let ?ns = "[mgr_sample_answer, mgr_sample_label]"
  have ok: "mgr_ok mgr_sample"
    using chain_manager(1) [OF _ _ mgr_sample_entries] by (simp add: mgr_sample_def mgr_sample_header_def CURRENT_SESSION_VERSION_def)
  have get: "sm_getEntries mgr_sample = ?ns"
    by (simp add: mgr_sample_def buildIndex_eq sm_getEntries_def List.map_filter_def)
  have last: "n_id mgr_sample_label = Some (js ''l'')" by (simp add: mgr_sample_label_def)
  have path: "sm_getBranch (Some (js ''l'')) mgr_sample = Some ?ns"
    using mgr_ok_branch(1) [OF ok, of mgr_sample_label] chained_path [OF mgr_sample_entries] last by (simp add: get)
  have labels: "sm_labelsById mgr_sample = [(js ''a'', js ''x'')]"
    by (simp add: mgr_sample_def buildIndex_def sm_getEntries_def List.map_filter_def index_entry_def set_label_def
        mgr_sample_answer_def mgr_sample_label_def js_def)
  have new: "with_ids (branched_entries (\<lambda>_ _. js ''n'') (js ''f'') ?ns mgr_sample)"
    by (simp add: branched_entries_def labels with_ids_def is_label_def mgr_sample_answer_def mgr_sample_label_def generateId_def
        upt_rec js_eq_iff js_nonempty)
  have "keeps_no_label ?ns"
    by (simp add: keeps_no_label_def is_compaction_def mgr_sample_answer_def mgr_sample_label_def)
  from branched_session_context [OF ok path _ this new]
  have "\<exists>sm' fs'. createBranchedSession no_lines (\<lambda>_ _. js ''n'') (js ''f'') (js ''s2'') (js ''t2'') (js ''l'') mgr_sample Map.empty = Some (Some (sm', fs'))
     \<and> mgr_ok sm' \<and> sm_buildSessionContext (\<lambda>_. 0) sm' = sm_buildSessionContext (\<lambda>_. 0) (mgr_sample\<lparr>sm_leafId := Some (js ''l'')\<rparr>)"
    by simp
  moreover have "mgr_sample\<lparr>sm_leafId := Some (js ''l'')\<rparr> = mgr_sample"
    by (simp add: mgr_sample_def buildIndex_eq sm_getEntries_def List.map_filter_def last with_index_def split: prod.split)
  ultimately show ?thesis by simp
qed

end
