(* ===== verification/SessionReopen.thy ===== *)
theory SessionReopen
  imports SessionManagerFacts
begin

text \<open>
  The file of a session manager and its memory: the invariant of a session that is appended to, moved in, extracted and opened again
  while its writes succeed, from which a session is restored as it was.
\<close>

subsection \<open>The invariant\<close>

definition session_answered :: "session_manager \<Rightarrow> bool" where
  "session_answered sm \<longleftrightarrow> (\<exists>a \<in> set (sm_fileEntries sm). is_assistant a)"

text \<open>There is a file exactly when the assistant has answered, and it holds the entries.\<close>

definition file_agrees :: "line_format \<Rightarrow> session_manager \<Rightarrow> session_files \<Rightarrow> bool" where
  "file_agrees fmt sm fs \<longleftrightarrow> sm_persist sm \<and> sm_flushed sm = session_answered sm \<and> (\<exists>f. sm_sessionFile sm = Some f \<and> f \<noteq> []
     \<and> fs f = (if session_answered sm then Some (entries_text fmt (sm_fileEntries sm)) else None))"

definition header_agrees :: "session_manager \<Rightarrow> bool" where
  "header_agrees sm \<longleftrightarrow> map_option mh_id (find_header (sm_fileEntries sm)) = Some (sm_sessionId sm)"

definition on_disk :: "line_format \<Rightarrow> session_manager \<Rightarrow> session_files \<Rightarrow> bool" where
  "on_disk fmt sm fs \<longleftrightarrow> mgr_ok sm \<and> file_agrees fmt sm fs \<and> header_agrees sm"

definition line_storable :: "line_format \<Rightarrow> file_entry \<Rightarrow> bool" where
  "line_storable fmt e \<longleftrightarrow> parse_line fmt (line_of fmt e) = Some e \<and> newline \<notin> set (line_of fmt e) \<and> trim (line_of fmt e) \<noteq> []"

text \<open>The session of a file, with the index built from it.\<close>

definition restored :: "js_string \<Rightarrow> js_string \<Rightarrow> session_manager \<Rightarrow> session_manager" where
  "restored cwd dir sm = (buildIndex ((blank_manager cwd dir True)\<lparr>sm_sessionFile := sm_sessionFile sm, sm_fileEntries := sm_fileEntries sm,
     sm_sessionId := (case find_header (sm_fileEntries sm) of Some h \<Rightarrow> mh_id h | None \<Rightarrow> [])\<rparr>))\<lparr>sm_flushed := True\<rparr>"

subsection \<open>Loading what was written\<close>

lemma document_lines_entries:
  assumes "\<forall>e \<in> set es. line_storable fmt e"
  shows "document_lines (entries_text fmt es) = map (line_of fmt) es"
  using assms
proof (induction es rule: rev_induct)
  case Nil
  show ?case by (simp add: entries_text_def document_lines_def trim_def trim_start_def trim_end_def)
next
  case (snoc e es)
  have "line_end (entries_text fmt es)"
    by (cases es rule: rev_cases) (simp_all add: entries_text_def line_end_def)
  then show ?case
    using document_lines_append [of "entries_text fmt es" "line_of fmt e"] snoc by (simp add: entries_text_def line_storable_def)
qed

lemma load_entries_text:
  assumes "\<forall>e \<in> set es. line_storable fmt e" "es = HeaderLine h # es'"
  shows "loadEntriesFromFile fmt (entries_text fmt es) = es"
proof -
  have "List.map_filter (parse_line fmt) (map (line_of fmt) es) = es"
    using assms(1) by (induction es) (simp_all add: List.map_filter_def line_storable_def)
  then show ?thesis unfolding loadEntriesFromFile_def document_lines_entries [OF assms(1)] Let_def by (simp add: assms(2))
qed

lemma find_header_first [simp]: "find_header (HeaderLine h # es) = Some h"
  by (simp add: find_header_def List.map_filter_def)

lemma restore:
  assumes "on_disk fmt sm fs" "session_answered sm" "\<forall>e \<in> set (sm_fileEntries sm). line_storable fmt e" "sm_sessionFile sm = Some f"
  shows "setSessionFile fmt random fresh now f (blank_manager cwd dir True) fs = Some (restored cwd dir sm, fs)"
proof -
  obtain h where h: "sm_fileEntries sm = HeaderLine h # map EntryLine (sm_getEntries sm)" "mh_version h = Some CURRENT_SESSION_VERSION"
    using assms(1) by (auto simp: on_disk_def mgr_ok_def)
  have "fs f = Some (entries_text fmt (sm_fileEntries sm))" using assms(1,2,4) by (simp add: on_disk_def file_agrees_def)
  moreover have "loadEntriesFromFile fmt (entries_text fmt (sm_fileEntries sm)) = sm_fileEntries sm"
    using load_entries_text [OF assms(3) h(1)] .
  moreover have "migrateToCurrentVersion random (sm_fileEntries sm) = (sm_fileEntries sm, False)"
    using h by (simp add: migrateToCurrentVersion_def session_version_def)
  ultimately show ?thesis
    by (simp add: setSessionFile_def restored_def assms(4)) (simp add: h(1))
qed

subsection \<open>Appending\<close>

definition after_label :: "manager_entry \<Rightarrow> session_manager \<Rightarrow> session_manager" where
  "after_label n sm = (case n_body n of MgrLabel target label \<Rightarrow> set_label target label (n_time n) sm | _ \<Rightarrow> sm)"

lemma after_label_simps [simp]:
  "sm_persist (after_label n sm) = sm_persist sm" "sm_flushed (after_label n sm) = sm_flushed sm"
  "sm_sessionFile (after_label n sm) = sm_sessionFile sm" "sm_fileEntries (after_label n sm) = sm_fileEntries sm"
  "sm_leafId (after_label n sm) = sm_leafId sm" "sm_sessionId (after_label n sm) = sm_sessionId sm" "sm_getEntries (after_label n sm) = sm_getEntries sm"
  by (auto simp: after_label_def set_label_def sm_getEntries_def split: manager_body.split option.split list.split)

lemma after_label_index: "index_fields (after_label n sm) = label_step n (index_fields sm)"
  by (auto simp: after_label_def set_label_def index_fields_def label_step_def split: manager_body.split option.split list.split)

lemma index_of_entries_snoc: "index_of_entries (ns @ [n]) = index_step n (index_of_entries ns)"
  by (simp add: index_of_entries_def)

text \<open>An entry under the leaf with an id of its own.\<close>

definition new_entry :: "session_manager \<Rightarrow> manager_entry \<Rightarrow> bool" where
  "new_entry sm n \<longleftrightarrow> (\<exists>i. n_id n = Some i \<and> i \<noteq> [] \<and> \<not> id_taken sm i) \<and> n_parent n = sm_leafId sm"

definition with_entry :: "manager_entry \<Rightarrow> session_manager \<Rightarrow> session_manager" where
  "with_entry n sm = sm\<lparr>sm_fileEntries := sm_fileEntries sm @ [EntryLine n], sm_byId := map_set (n_id n) n (sm_byId sm), sm_leafId := n_id n\<rparr>"

lemma with_entry_simps [simp]:
  "sm_persist (with_entry n sm) = sm_persist sm" "sm_flushed (with_entry n sm) = sm_flushed sm"
  "sm_sessionFile (with_entry n sm) = sm_sessionFile sm" "sm_fileEntries (with_entry n sm) = sm_fileEntries sm @ [EntryLine n]"
  "sm_leafId (with_entry n sm) = n_id n" "sm_sessionId (with_entry n sm) = sm_sessionId sm" "sm_getEntries (with_entry n sm) = sm_getEntries sm @ [n]"
  by (simp_all add: with_entry_def sm_getEntries_def map_filter_append List.map_filter_def)

lemma with_entry_index: "label_step n (index_fields (with_entry n sm)) = index_step n (index_fields sm)"
  by (simp add: with_entry_def index_fields_def index_step_def)

lemma with_entry_ok:
  assumes ok: "mgr_ok sm" and new: "new_entry sm n"
  shows "mgr_ok (after_label n ((with_entry n sm)\<lparr>sm_flushed := b\<rparr>))"
proof -
  obtain i where i: "n_id n = Some i" "i \<noteq> []" "Some i \<notin> ids (sm_getEntries sm)" "n_parent n = sm_leafId sm"
    using new id_taken_iff [OF ok] by (auto simp: new_entry_def)
  have tree: "tree_ok (sm_getEntries sm @ [n])"
    using ok i by (cases "i") (auto simp: tree_ok_snoc mgr_ok_def)
  have get: "sm_getEntries ((with_entry n sm)\<lparr>sm_flushed := b\<rparr>) = sm_getEntries sm @ [n]"
    using with_entry_simps(7) by (simp add: sm_getEntries_def)
  have "index_fields ((with_entry n sm)\<lparr>sm_flushed := b\<rparr>) = index_fields (with_entry n sm)" by (simp add: index_fields_def)
  then have "index_fields (after_label n ((with_entry n sm)\<lparr>sm_flushed := b\<rparr>)) = index_of_entries (sm_getEntries sm @ [n])"
    using ok by (simp add: after_label_index with_entry_index index_of_entries_snoc mgr_ok_def)
  with ok tree i(1) show ?thesis by (auto simp: mgr_ok_def get)
qed

lemma entries_text_append: "entries_text fmt (es @ es') = entries_text fmt es @ entries_text fmt es'"
  by (simp add: entries_text_def)

lemma appendEntry_agrees:
  assumes agrees: "file_agrees fmt sm fs" and step: "appendEntry fmt None n sm fs = (sm', fs', ok)"
  shows "ok" "sm' = (with_entry n sm)\<lparr>sm_flushed := sm_flushed sm'\<rparr>" "file_agrees fmt sm' fs'"
proof -
  obtain f where f: "sm_sessionFile sm = Some f" "f \<noteq> []" using agrees by (auto simp: file_agrees_def)
  have step: "persist_entry fmt None (EntryLine n) (with_entry n sm) fs = (sm', fs', ok)"
    using step by (simp add: appendEntry_def with_entry_def)
  have more: "session_answered (with_entry n sm) \<longleftrightarrow> session_answered sm \<or> is_assistant (EntryLine n)"
    by (auto simp: session_answered_def)
  have one: "entries_text fmt [EntryLine n] = line_of fmt (EntryLine n) @ [newline]" by (simp add: entries_text_def)
  have "ok \<and> sm' = (with_entry n sm)\<lparr>sm_flushed := sm_flushed sm'\<rparr> \<and> file_agrees fmt sm' fs'"
  proof (cases "session_answered sm")
    case True
    with agrees f have flushed: "sm_flushed sm" "sm_persist sm" "fs f = Some (entries_text fmt (sm_fileEntries sm))"
      by (simp_all add: file_agrees_def)
    with True step f have "ok" "sm' = with_entry n sm" "fs' = append_line fmt f (EntryLine n) fs"
      by (auto simp: persist_entry_def session_answered_def split: if_splits)
    with flushed f True more show ?thesis
      by (simp add: file_agrees_def append_line_def entries_text_append one)
  next
    case False
    with agrees f have unflushed: "\<not> sm_flushed sm" "sm_persist sm" "fs f = None" by (simp_all add: file_agrees_def)
    show ?thesis
    proof (cases "is_assistant (EntryLine n)")
      case True
      with unflushed step f have "ok" "sm' = (with_entry n sm)\<lparr>sm_flushed := True\<rparr>"
        "fs' = fs(f \<mapsto> entries_text fmt (sm_fileEntries (with_entry n sm)))"
        by (auto simp: persist_entry_def split: if_splits)
      with unflushed f True more show ?thesis by (simp add: file_agrees_def session_answered_def)
    next
      case no: False
      with False more have "\<not> (\<exists>a \<in> set (sm_fileEntries (with_entry n sm)). is_assistant a)"
        by (simp add: session_answered_def)
      with unflushed step f have "ok" "sm' = with_entry n sm" "fs' = fs" by (simp_all add: persist_entry_def)
      with unflushed f False no more show ?thesis by (simp add: file_agrees_def)
    qed
  qed
  then show "ok" "sm' = (with_entry n sm)\<lparr>sm_flushed := sm_flushed sm'\<rparr>" "file_agrees fmt sm' fs'" by blast+
qed

lemma file_agrees_label: "file_agrees fmt (after_label n sm) fs = file_agrees fmt sm fs"
  unfolding file_agrees_def session_answered_def after_label_simps ..

lemma append_on_disk:
  assumes "on_disk fmt sm fs" "new_entry sm n" "appendEntry fmt None n sm fs = (sm', fs', ok)"
  shows "ok" "on_disk fmt (after_label n sm') fs'"
proof -
  have agrees: "file_agrees fmt sm fs" and ok: "mgr_ok sm" using assms(1) by (simp_all add: on_disk_def)
  note r = appendEntry_agrees [OF agrees assms(3)]
  show "ok" by (rule r(1))
  have "mgr_ok (after_label n sm')" using with_entry_ok [OF ok assms(2)] r(2) by metis
  moreover have "file_agrees fmt (after_label n sm') fs'" using r(3) by (simp only: file_agrees_label)
  moreover have "header_agrees (after_label n sm')"
  proof -
    obtain h where h: "sm_fileEntries sm = HeaderLine h # map EntryLine (sm_getEntries sm)" using ok by (auto simp: mgr_ok_def)
    have "sm_fileEntries sm' = sm_fileEntries sm @ [EntryLine n]" "sm_sessionId sm' = sm_sessionId sm"
      by (subst r(2), simp)+
    with assms(1) show ?thesis by (simp add: on_disk_def header_agrees_def h)
  qed
  ultimately show "on_disk fmt (after_label n sm') fs'" by (simp add: on_disk_def)
qed

text \<open>The ids that the random numbers give are new.\<close>

definition fresh_ids :: "(nat \<Rightarrow> js_string) \<Rightarrow> js_string \<Rightarrow> session_manager \<Rightarrow> bool" where
  "fresh_ids random full sm \<longleftrightarrow> (\<forall>k. random k \<noteq> []) \<and> full \<noteq> [] \<and> \<not> id_taken sm full"

lemma generateId_new:
  assumes "fresh_ids random full sm"
  shows "generateId random full (id_taken sm) \<noteq> []" "\<not> id_taken sm (generateId random full (id_taken sm))"
  using assms by (auto simp: generateId_def fresh_ids_def find_Some_iff split: option.split)

lemma append_body_on_disk:
  assumes "on_disk fmt sm fs" "fresh_ids random full sm" "append_body fmt None random full now b sm fs = (sm', fs', ok)"
  shows "ok" "on_disk fmt (case b of MgrLabel t l \<Rightarrow> set_label t l now sm' | _ \<Rightarrow> sm') fs'"
proof -
  let ?n = "\<lparr>n_id = Some (generateId random full (id_taken sm)), n_parent = sm_leafId sm, n_time = now, n_body = b\<rparr>"
  have "new_entry sm ?n" using generateId_new [OF assms(2)] by (simp add: new_entry_def)
  moreover have "appendEntry fmt None ?n sm fs = (sm', fs', ok)" using assms(3) by (simp only: append_body_def)
  ultimately have "ok" "on_disk fmt (after_label ?n sm') fs'" using append_on_disk [OF assms(1)] by blast+
  moreover have "after_label ?n sm' = (case b of MgrLabel t l \<Rightarrow> set_label t l now sm' | _ \<Rightarrow> sm')"
    by (cases b) (simp_all add: after_label_def)
  ultimately show "ok" "on_disk fmt (case b of MgrLabel t l \<Rightarrow> set_label t l now sm' | _ \<Rightarrow> sm') fs'" by simp_all
qed

subsection \<open>The other operations\<close>

lemma leaf_on_disk:
  assumes "on_disk fmt sm fs" "l = None \<or> l \<in> ids (sm_getEntries sm)"
  shows "on_disk fmt (sm\<lparr>sm_leafId := l\<rparr>) fs"
  using assms by (auto simp: on_disk_def mgr_ok_def file_agrees_def header_agrees_def session_answered_def sm_getEntries_def index_fields_def)

lemma id_taken_leaf [simp]: "id_taken (sm\<lparr>sm_leafId := l\<rparr>) = id_taken sm" "fresh_ids random full (sm\<lparr>sm_leafId := l\<rparr>) = fresh_ids random full sm"
  by (simp_all add: id_taken_def fresh_ids_def fun_eq_iff)

lemma created_on_disk:
  assumes "create_manager given parent fresh now cwd dir True = Some sm" "sm_sessionFile sm = Some f" "fs f = None"
  shows "on_disk fmt sm fs"
  using assms
  by (auto simp: create_manager_def newSession_def blank_manager_def Let_def on_disk_def mgr_ok_def file_agrees_def header_agrees_def
      session_answered_def sm_getEntries_def index_fields_def index_of_entries_def tree_ok_def is_assistant_def session_file_name_def
      List.map_filter_def split: if_splits)

lemma extracted_on_disk:
  assumes "on_disk fmt sm fs" "createBranchedSession fmt random full fresh now i sm fs = Some (Some (sm', fs'))"
    and "with_ids (sm_getEntries sm')" "fs (session_file_name sm now fresh) = None"
  shows "on_disk fmt sm' fs'"
proof -
  obtain path where path: "sm_getBranch (Some i) sm = Some path" "path \<noteq> []"
    using assms(2) by (auto simp: createBranchedSession_def split: if_splits)
  have persist: "sm_persist sm" using assms(1) by (simp add: on_disk_def file_agrees_def)
  define h where "h = \<lparr>mh_version = Some CURRENT_SESSION_VERSION, mh_id = fresh, mh_timestamp = now, mh_cwd = sm_cwd sm,
    mh_parentSession = sm_sessionFile sm\<rparr>"
  define sm1 where "sm1 = sm\<lparr>sm_fileEntries := HeaderLine h # map EntryLine (branched_entries random full path sm), sm_sessionId := fresh,
    sm_sessionFile := Some (session_file_name sm now fresh)\<rparr>"
  have new: "sm' = (buildIndex sm1)\<lparr>sm_flushed := session_answered sm1\<rparr>"
    "fs' = (if session_answered sm1 then rewriteFile fmt (buildIndex sm1) fs else fs)"
    using assms(2) path persist
    by (auto simp: createBranchedSession_def Let_def sm1_def h_def session_answered_def is_assistant_def split: if_splits)
  have entries: "sm_fileEntries sm1 = HeaderLine h # map EntryLine (branched_entries random full path sm)" by (simp add: sm1_def)
  have get: "sm_getEntries sm' = branched_entries random full path sm"
    by (simp add: new(1) sm_getEntries_def buildIndex_eq sm1_def)
  have "mgr_ok sm'"
    using chain_manager(1) [OF entries _ branched_chained] assms(3) unfolding get by (simp add: new(1) h_def)
  moreover have "file_agrees fmt sm' fs'"
    using persist assms(4)
    by (simp add: file_agrees_def new session_answered_def buildIndex_eq rewriteFile_def sm1_def session_file_name_def)
  moreover have "header_agrees sm'" by (simp add: header_agrees_def new(1) buildIndex_eq sm1_def h_def with_index_def split: prod.split)
  ultimately show ?thesis by (simp add: on_disk_def)
qed

lemma restored_on_disk:
  assumes "on_disk fmt sm fs" "session_answered sm"
  shows "on_disk fmt (restored cwd dir sm) fs" "sm_fileEntries (restored cwd dir sm) = sm_fileEntries sm"
    "index_fields (restored cwd dir sm) = index_fields sm" "sm_sessionId (restored cwd dir sm) = sm_sessionId sm"
    "sm_leafId (restored cwd dir sm) = (if sm_getEntries sm = [] then None else n_id (last (sm_getEntries sm)))"
    "sm_sessionFile (restored cwd dir sm) = sm_sessionFile sm"
proof -
  let ?r = "restored cwd dir sm"
  have ok: "mgr_ok sm" "file_agrees fmt sm fs" "header_agrees sm" using assms(1) by (simp_all add: on_disk_def)
  obtain h where h: "sm_fileEntries sm = HeaderLine h # map EntryLine (sm_getEntries sm)" "mh_id h = sm_sessionId sm"
    using ok(1,3) by (auto simp: mgr_ok_def header_agrees_def)
  show entries: "sm_fileEntries ?r = sm_fileEntries sm" by (simp add: restored_def buildIndex_eq)
  then have get: "sm_getEntries ?r = sm_getEntries sm" by (simp add: sm_getEntries_def)
  show index: "index_fields ?r = index_fields sm"
    using ok(1) by (simp add: restored_def buildIndex_eq sm_getEntries_def mgr_ok_def index_fields_def with_index_def split: prod.split)
  show sid: "sm_sessionId ?r = sm_sessionId sm"
    using h by (simp add: restored_def buildIndex_eq with_index_def split: prod.split)
  show leaf: "sm_leafId ?r = (if sm_getEntries sm = [] then None else n_id (last (sm_getEntries sm)))"
    by (simp add: restored_def buildIndex_eq sm_getEntries_def)
  show sessionFile: "sm_sessionFile ?r = sm_sessionFile sm" by (simp add: restored_def buildIndex_eq)
  have "sm_persist ?r" "sm_flushed ?r" by (simp_all add: restored_def buildIndex_eq blank_manager_def)
  with ok(2) assms(2) entries sessionFile have "file_agrees fmt ?r fs" by (simp add: file_agrees_def session_answered_def)
  moreover have "mgr_ok ?r" using ok(1) by (auto simp: mgr_ok_def entries get index leaf ids_def)
  ultimately show "on_disk fmt ?r fs" using ok(3) by (simp add: on_disk_def header_agrees_def entries sid)
qed

subsection \<open>Reachable sessions\<close>

text \<open>A persisted session from its creation on: entries and labels are appended, the leaf is moved, branches are extracted, the session
  is opened again, and other files change.\<close>

definition made_by_label :: "manager_body \<Rightarrow> bool" where
  "made_by_label b \<longleftrightarrow> (case b of MgrLabel _ _ \<Rightarrow> True | _ \<Rightarrow> False)"

inductive mgr_reachable :: "line_format \<Rightarrow> session_manager \<Rightarrow> session_files \<Rightarrow> bool" for fmt where
  created: "create_manager given parent fresh now cwd dir True = Some sm \<Longrightarrow> sm_sessionFile sm = Some f \<Longrightarrow> fs f = None
    \<Longrightarrow> mgr_reachable fmt sm fs"
| appended: "mgr_reachable fmt sm fs \<Longrightarrow> fresh_ids random full sm \<Longrightarrow> \<not> made_by_label b
    \<Longrightarrow> append_body fmt None random full now b sm fs = (sm', fs', ok) \<Longrightarrow> mgr_reachable fmt sm' fs'"
| labelled: "mgr_reachable fmt sm fs \<Longrightarrow> fresh_ids random full sm
    \<Longrightarrow> appendLabelChange fmt None random full now target label sm fs = Some (sm', fs', ok) \<Longrightarrow> mgr_reachable fmt sm' fs'"
| moved: "mgr_reachable fmt sm fs \<Longrightarrow> sm_branch i sm = Some sm' \<Longrightarrow> mgr_reachable fmt sm' fs"
| reset: "mgr_reachable fmt sm fs \<Longrightarrow> mgr_reachable fmt (resetLeaf sm) fs"
| summarised: "mgr_reachable fmt sm fs \<Longrightarrow> fresh_ids random full sm
    \<Longrightarrow> branchWithSummary fmt None random full now from_id summary sm fs = Some (sm', fs', ok) \<Longrightarrow> mgr_reachable fmt sm' fs'"
| extracted: "mgr_reachable fmt sm fs \<Longrightarrow> createBranchedSession fmt labels full fresh now i sm fs = Some (Some (sm', fs'))
    \<Longrightarrow> with_ids (sm_getEntries sm') \<Longrightarrow> fs (session_file_name sm now fresh) = None \<Longrightarrow> mgr_reachable fmt sm' fs'"
| reopened: "mgr_reachable fmt sm fs \<Longrightarrow> session_answered sm \<Longrightarrow> \<forall>e \<in> set (sm_fileEntries sm). line_storable fmt e
    \<Longrightarrow> sm_sessionFile sm = Some f \<Longrightarrow> manager_of_file fmt random fresh now cwd dir f fs = Some (sm', fs') \<Longrightarrow> mgr_reachable fmt sm' fs'"
| elsewhere: "mgr_reachable fmt sm fs \<Longrightarrow> sm_sessionFile sm = Some f \<Longrightarrow> fs' f = fs f \<Longrightarrow> mgr_reachable fmt sm fs'"

lemma reachable_on_disk: "mgr_reachable fmt sm fs \<Longrightarrow> on_disk fmt sm fs"
proof (induction rule: mgr_reachable.induct)
  case created
  then show ?case by (rule created_on_disk)
next
  case (appended sm fs random full b now sm' fs' ok)
  from append_body_on_disk(2) [OF appended.IH appended.hyps(2,4)] appended.hyps(3)
  show ?case by (cases b) (simp_all add: made_by_label_def)
next
  case (labelled sm fs random full now target label sm' fs' ok)
  from labelled.hyps(3) obtain sm1 where sm1: "append_body fmt None random full now (MgrLabel target label) sm fs = (sm1, fs', ok)"
    "sm' = (if ok then set_label target label now sm1 else sm1)"
    by (auto simp: appendLabelChange_def split: if_splits prod.splits)
  with append_body_on_disk [OF labelled.IH labelled.hyps(2) sm1(1)] show ?case by simp
next
  case (moved sm fs i sm')
  then have "sm' = sm\<lparr>sm_leafId := Some i\<rparr>" "Some i \<in> ids (sm_getEntries sm)"
    using id_taken_iff by (auto simp: sm_branch_def on_disk_def split: if_splits)
  with leaf_on_disk [OF moved.IH] show ?case by simp
next
  case (reset sm fs)
  with leaf_on_disk [OF reset.IH] show ?case by (simp add: resetLeaf_def)
next
  case (summarised sm fs random full now from_id summary sm' fs' ok)
  let ?sm = "sm\<lparr>sm_leafId := from_id\<rparr>"
  let ?b = "MgrBranchSummary summary (case from_id of Some i \<Rightarrow> i | None \<Rightarrow> js ''root'')"
  have b: "append_body fmt None random full now ?b ?sm fs = (sm', fs', ok)" "from_id = None \<or> (\<exists>i. from_id = Some i \<and> id_taken sm i)"
    using summarised.hyps(3) by (auto simp: branchWithSummary_def split: if_splits)
  have "mgr_ok sm" using summarised.IH by (simp add: on_disk_def)
  then have "on_disk fmt ?sm fs" using leaf_on_disk [OF summarised.IH] b(2) id_taken_iff by blast
  from append_body_on_disk(2) [OF this _ b(1)] summarised.hyps(2)
  show ?case by simp
next
  case extracted
  then show ?case using extracted_on_disk by blast
next
  case (reopened sm fs f random fresh now cwd dir sm' fs')
  with restore [OF reopened.IH reopened.hyps(2-4)] restored_on_disk(1) [OF reopened.IH reopened.hyps(2)]
  show ?case by (auto simp: manager_of_file_def)
next
  case (elsewhere sm fs f fs')
  then show ?case by (simp add: on_disk_def file_agrees_def)
qed

subsection \<open>What is on the disk\<close>

text \<open>While writes succeed an append returns, and no file is left by a session that the assistant has not answered.\<close>

lemma append_returns:
  "mgr_reachable fmt sm fs \<Longrightarrow> fresh_ids random full sm \<Longrightarrow> append_body fmt None random full now b sm fs = (sm', fs', ok) \<Longrightarrow> ok"
  using append_body_on_disk(1) reachable_on_disk by blast

lemma session_file_iff_answered:
  "mgr_reachable fmt sm fs \<Longrightarrow> sm_sessionFile sm = Some f \<Longrightarrow> fs f \<noteq> None \<longleftrightarrow> session_answered sm"
  using reachable_on_disk [of fmt sm fs] by (simp add: on_disk_def file_agrees_def)

text \<open>Property C10. Take a session that the manager created and the assistant has answered, and any appends, labels, moves in the tree,
  extractions and earlier openings whose writes all succeeded. Opening its file later gives back the session: the same id,
  entries, index and labels, the leaf at the last entry that was written, and from there the same context for the model. (A write that
  fails breaks this, see \<open>branch_lost_after_failed_append\<close>.)\<close>

theorem session_reopened:
  assumes "mgr_reachable fmt sm fs" "session_answered sm" "\<forall>e \<in> set (sm_fileEntries sm). line_storable fmt e" "sm_sessionFile sm = Some f"
  shows "\<exists>sm'. manager_of_file fmt random fresh now cwd dir f fs = Some (sm', fs) \<and> sm_sessionId sm' = sm_sessionId sm
     \<and> sm_fileEntries sm' = sm_fileEntries sm \<and> index_fields sm' = index_fields sm
     \<and> sm_leafId sm' = n_id (last (sm_getEntries sm))
     \<and> sm_buildSessionContext getTime sm' = sm_buildSessionContext getTime (sm\<lparr>sm_leafId := n_id (last (sm_getEntries sm))\<rparr>)"
proof -
  note disk = reachable_on_disk [OF assms(1)]
  note r = restored_on_disk [OF disk assms(2), of cwd dir]
  obtain h where "sm_fileEntries sm = HeaderLine h # map EntryLine (sm_getEntries sm)" using disk by (auto simp: on_disk_def mgr_ok_def)
  with assms(2) have "sm_getEntries sm \<noteq> []" by (auto simp: session_answered_def is_assistant_def)
  with r(5) have leaf: "sm_leafId (restored cwd dir sm) = n_id (last (sm_getEntries sm))" by simp
  have "sm_byId (restored cwd dir sm) = sm_byId sm" "sm_getEntries (restored cwd dir sm) = sm_getEntries sm"
    using r(2,3) by (simp_all add: index_fields_def sm_getEntries_def)
  then have "sm_buildSessionContext getTime (restored cwd dir sm)
      = sm_buildSessionContext getTime (sm\<lparr>sm_leafId := n_id (last (sm_getEntries sm))\<rparr>)"
    by (simp add: sm_buildSessionContext_def leaf) (simp add: sm_getEntries_def)
  with restore [OF disk assms(2-4), of random fresh now cwd dir] r(2-4) leaf show ?thesis
    by (simp add: manager_of_file_def)
qed

text \<open>A session with an answer, in a format of the lines \<open>H\<close> and \<open>E\<close>.\<close>

definition mgr_sample_format :: line_format where
  "mgr_sample_format = \<lparr>parse_line = (\<lambda>l. if l = js ''H'' then Some (HeaderLine mgr_sample_header)
       else if l = js ''E'' then Some (EntryLine mgr_sample_answer) else None),
     line_of = (\<lambda>e. case e of HeaderLine _ \<Rightarrow> js ''H'' | EntryLine _ \<Rightarrow> js ''E'')\<rparr>"

definition mgr_sample_path :: js_string where
  "mgr_sample_path = session_file_name (blank_manager (js ''/w'') (js ''/d'') True) (js ''t'') (js ''s'')"

definition mgr_sample_created :: session_manager where
  "mgr_sample_created = (blank_manager (js ''/w'') (js ''/d'') True)\<lparr>sm_sessionId := js ''s'', sm_fileEntries := [HeaderLine mgr_sample_header],
     sm_sessionFile := Some mgr_sample_path\<rparr>"

definition mgr_sample_answered :: session_manager where
  "mgr_sample_answered = (with_entry mgr_sample_answer mgr_sample_created)\<lparr>sm_flushed := True\<rparr>"

lemma mgr_sample_create:
  "create_manager None None (js ''s'') (js ''t'') (js ''/w'') (js ''/d'') True = Some mgr_sample_created"
  by (simp add: create_manager_def newSession_def mgr_sample_created_def mgr_sample_path_def blank_manager_def mgr_sample_header_def
      CURRENT_SESSION_VERSION_def Let_def session_file_name_def)

lemma mgr_sample_append:
  "append_body mgr_sample_format None (\<lambda>_. js ''a'') (js ''f'') (js ''t'') (n_body mgr_sample_answer) mgr_sample_created Map.empty
     = (mgr_sample_answered, [mgr_sample_path \<mapsto> js ''H'' @ [newline] @ js ''E'' @ [newline]], True)"
  by (simp add: append_body_def appendEntry_def persist_entry_def mgr_sample_created_def mgr_sample_answered_def with_entry_def blank_manager_def
      mgr_sample_path_def session_file_name_def generateId_def upt_rec id_taken_def mgr_sample_answer_def is_assistant_def entries_text_def
      mgr_sample_format_def)

theorem session_reopened_witness:
  "\<exists>sm'. manager_of_file mgr_sample_format (\<lambda>_. js ''a'') (js ''f'') (js ''t'') (js ''/w'') (js ''/d'') mgr_sample_path
      [mgr_sample_path \<mapsto> js ''H'' @ [newline] @ js ''E'' @ [newline]]
      = Some (sm', [mgr_sample_path \<mapsto> js ''H'' @ [newline] @ js ''E'' @ [newline]])
     \<and> sm_fileEntries sm' = [HeaderLine mgr_sample_header, EntryLine mgr_sample_answer] \<and> sm_leafId sm' = Some (js ''a'')"
proof -
  have first: "mgr_reachable mgr_sample_format mgr_sample_created Map.empty"
    by (rule created [OF mgr_sample_create, of mgr_sample_path]) (simp_all add: mgr_sample_created_def)
  have "fresh_ids (\<lambda>_. js ''a'') (js ''f'') mgr_sample_created"
    by (simp add: fresh_ids_def id_taken_def mgr_sample_created_def blank_manager_def js_def)
  from appended [OF first this _ mgr_sample_append]
  have reach: "mgr_reachable mgr_sample_format mgr_sample_answered [mgr_sample_path \<mapsto> js ''H'' @ [newline] @ js ''E'' @ [newline]]"
    by (simp add: made_by_label_def mgr_sample_answer_def)
  have es: "sm_fileEntries mgr_sample_answered = [HeaderLine mgr_sample_header, EntryLine mgr_sample_answer]"
    by (simp add: mgr_sample_answered_def mgr_sample_created_def)
  have answered: "session_answered mgr_sample_answered" by (simp add: session_answered_def es is_assistant_def mgr_sample_answer_def)
  have lines: "\<forall>e \<in> set (sm_fileEntries mgr_sample_answered). line_storable mgr_sample_format e"
    by (simp add: es line_storable_def mgr_sample_format_def js_eq_iff)
      (simp add: js_def trim_def trim_start_def trim_end_def whitespace_def)
  have "sm_sessionFile mgr_sample_answered = Some mgr_sample_path" by (simp add: mgr_sample_answered_def mgr_sample_created_def)
  from session_reopened [OF reach answered lines this] es show ?thesis
    by (fastforce simp: sm_getEntries_def List.map_filter_def mgr_sample_answer_def)
qed

end
