(* ===== verification/SessionManagerGaps.thy ===== *)
theory SessionManagerGaps
  imports SessionReopen
begin

text \<open>
  What a fork copies, and where the session manager loses history: forks of sessions in an old format, extracted branches whose
  compaction keeps the messages from a label on, and appends after a write that failed.
\<close>

subsection \<open>Forks\<close>

lemma append_lines:
  "foldl (\<lambda>fs e. append_line fmt f e fs) (fs(f \<mapsto> c)) es = fs(f \<mapsto> c @ entries_text fmt es)"
  by (induction es arbitrary: c) (simp_all add: append_line_def entries_text_def)

lemma entries_only: "filter (\<lambda>e. \<exists>n. entry_of e = Some n) (HeaderLine h # map EntryLine ns) = map EntryLine ns"
  by (simp add: filter_id_conv)

lemma entries_text_Cons: "entries_text fmt (e # es) = line_of fmt e @ newline # entries_text fmt es"
  by (simp add: entries_text_def)

lemma load_current:
  assumes "fs f = Some (entries_text fmt (HeaderLine h # map EntryLine ns))" "mh_version h = Some CURRENT_SESSION_VERSION"
    and "\<forall>e \<in> set (HeaderLine h # map EntryLine ns). line_storable fmt e"
  shows "manager_of_file fmt random fresh now cwd dir f fs = Some ((buildIndex ((blank_manager cwd dir True)\<lparr>sm_sessionFile := Some f,
      sm_fileEntries := HeaderLine h # map EntryLine ns, sm_sessionId := mh_id h\<rparr>))\<lparr>sm_flushed := True\<rparr>, fs)"
proof -
  have "loadEntriesFromFile fmt (entries_text fmt (HeaderLine h # map EntryLine ns)) = HeaderLine h # map EntryLine ns"
    by (rule load_entries_text [OF assms(3) refl])
  with assms(1,2) show ?thesis
    by (simp add: manager_of_file_def setSessionFile_def migrateToCurrentVersion_def session_version_def)
qed

text \<open>A fork has the entries of its source as they are, under a header of the current version.\<close>

theorem fork_copies_entries:
  assumes source: "fs source = Some c" "loadEntriesFromFile fmt c = HeaderLine h # map EntryLine ns"
    and f: "f = session_file_name (blank_manager cwd dir True) now fresh" "fs f = None"
    and lines: "\<And>h'. line_storable fmt (HeaderLine h')" "\<forall>n \<in> set ns. line_storable fmt (EntryLine n)"
  shows "\<exists>sm' fs' h'. forkFrom fmt random None fresh now source cwd dir fs = Some (sm', fs') \<and> sm_sessionFile sm' = Some f
     \<and> sm_fileEntries sm' = HeaderLine h' # map EntryLine ns \<and> mh_version h' = Some CURRENT_SESSION_VERSION
     \<and> mh_parentSession h' = Some source \<and> sm_leafId sm' = (if ns = [] then None else n_id (last ns))"
proof -
  define h' where "h' = \<lparr>mh_version = Some CURRENT_SESSION_VERSION, mh_id = fresh, mh_timestamp = now, mh_cwd = cwd, mh_parentSession = Some source\<rparr>"
  let ?text = "entries_text fmt (HeaderLine h' # map EntryLine ns)"
  have "forkFrom fmt random None fresh now source cwd dir fs = manager_of_file fmt random fresh now cwd dir f (fs(f \<mapsto> ?text))"
    unfolding forkFrom_def using source f
    by (simp add: Let_def entries_only append_lines entries_text_Cons h'_def del: filter.simps fun_upd_apply)
  also have "\<dots> = Some ((buildIndex ((blank_manager cwd dir True)\<lparr>sm_sessionFile := Some f,
      sm_fileEntries := HeaderLine h' # map EntryLine ns, sm_sessionId := mh_id h'\<rparr>))\<lparr>sm_flushed := True\<rparr>, fs(f \<mapsto> ?text))"
    by (rule load_current) (use lines in \<open>auto simp: h'_def\<close>)
  finally show ?thesis by (force simp: buildIndex_eq sm_getEntries_def h'_def)
qed

text \<open>So a session of the first format, whose entries have no ids, is never migrated in the fork: no branch leads anywhere.\<close>

theorem fork_of_old_session_has_no_branch:
  assumes source: "fs source = Some c" "loadEntriesFromFile fmt c = HeaderLine h # map EntryLine ns" "\<forall>n \<in> set ns. n_id n = None"
    and f: "fs (session_file_name (blank_manager cwd dir True) now fresh) = None"
    and lines: "\<And>h'. line_storable fmt (HeaderLine h')" "\<forall>n \<in> set ns. line_storable fmt (EntryLine n)"
  shows "\<exists>sm' fs'. forkFrom fmt random None fresh now source cwd dir fs = Some (sm', fs') \<and> sm_getEntries sm' = ns
     \<and> sm_getBranch None sm' = Some []"
proof -
  obtain sm' fs' h' where fork: "forkFrom fmt random None fresh now source cwd dir fs = Some (sm', fs')"
    "sm_fileEntries sm' = HeaderLine h' # map EntryLine ns" "sm_leafId sm' = (if ns = [] then None else n_id (last ns))"
    using fork_copies_entries [OF source(1,2) refl f lines] by blast
  have "sm_leafId sm' = None" using fork(3) source(3) by simp
  with fork(1,2) show ?thesis by (simp add: sm_getBranch_def sm_getEntries_def)
qed

subsection \<open>Extracting a branch that is kept from a label on\<close>

text \<open>A message \<open>a\<close>, a label \<open>l\<close> cleared on it, the first kept message \<open>b\<close>, and the compaction \<open>c\<close> that keeps the entries from the
  label on: the extracted branch has lost \<open>b\<close>.\<close>

theorem extraction_loses_kept_messages:
  fixes sm :: session_manager and a l b c :: manager_entry
  assumes ids: "n_id a = Some (js ''a'')" "n_id l = Some (js ''l'')" "n_id b = Some (js ''b'')" "n_id c = Some (js ''c'')"
    and bodies: "n_body a = MgrMessage m" "n_body l = MgrLabel (js ''a'') None" "n_body b = MgrMessage m'"
      "n_body c = MgrCompaction s (KeptId (js ''l'')) t"
    and "sm_labelsById sm = []"
  shows "context_of_path [a, l, b, c] = [c, l, b]"
    "\<exists>c'. context_of_path (branched_entries random full [a, l, b, c] sm) = [c'] \<and> n_id c' = Some (js ''c'')"
  using assms
  by (simp_all add: context_of_path_def is_compaction_def kept_from_def branched_entries_def is_label_def js_eq_iff)

subsection \<open>Appending after a write that failed\<close>

text \<open>The entry whose writing failed stays in memory as the leaf, so the next one names it as its parent. When the file is opened again
  the branch starts at that entry: the conversation before it is lost.\<close>

lemma built_index:
  assumes "distinct (map n_id ns)" "sm_fileEntries sm = HeaderLine h # map EntryLine ns"
  shows "sm_getEntries ((buildIndex sm)\<lparr>sm_flushed := b\<rparr>) = ns" "sm_byId ((buildIndex sm)\<lparr>sm_flushed := b\<rparr>) = map (\<lambda>n. (n_id n, n)) ns"
    "sm_leafId ((buildIndex sm)\<lparr>sm_flushed := b\<rparr>) = (if ns = [] then None else n_id (last ns))"
proof -
  have get: "sm_getEntries sm = ns" by (simp add: sm_getEntries_def assms(2))
  show "sm_getEntries ((buildIndex sm)\<lparr>sm_flushed := b\<rparr>) = ns" by (simp add: buildIndex_eq sm_getEntries_def assms(2))
  show "sm_leafId ((buildIndex sm)\<lparr>sm_flushed := b\<rparr>) = (if ns = [] then None else n_id (last ns))" by (simp add: buildIndex_eq get)
  have "sm_byId ((buildIndex sm)\<lparr>sm_flushed := b\<rparr>) = fst (index_fields (buildIndex sm))" by (simp add: index_fields_def)
  then show "sm_byId ((buildIndex sm)\<lparr>sm_flushed := b\<rparr>) = map (\<lambda>n. (n_id n, n)) ns"
    by (simp add: buildIndex_eq get index_byId [OF assms(1)])
qed

lemma orphan_branch:
  assumes "distinct (map n_id (ns @ [n]))" "n_parent n \<notin> ids (ns @ [n])" "\<exists>c cs. n_id n = Some (c # cs)"
    and sm: "sm_byId sm = map (\<lambda>n. (n_id n, n)) (ns @ [n])" "sm_leafId sm = n_id n"
  shows "sm_getBranch None sm = Some [n]"
proof -
  have "map_of (sm_byId sm) (n_parent n) = None"
    using assms(2) unfolding sm(1) by (simp add: map_of_eq_None_iff image_image ids_def)
  then have "parent_entry (sm_byId sm) n = None"
    by (auto simp: parent_entry_def split: option.split list.split)
  then have "walk_up (sm_byId sm) n [] = Some [n]" by (subst walk_up.simps) simp
  moreover have "map_of (sm_byId sm) (n_id n) = Some n" unfolding sm(1) using lookup_entry [OF assms(1)] by simp
  ultimately show ?thesis using assms(3) sm(2) by (auto simp: sm_getBranch_def)
qed

lemma generated_id:
  assumes "mgr_ok sm" "fresh_ids random full sm"
  shows "Some (generateId random full (id_taken sm)) \<notin> ids (sm_getEntries sm)" "\<exists>c cs. generateId random full (id_taken sm) = c # cs"
  using generateId_new [OF assms(2)] id_taken_iff [OF assms(1)] by (blast, simp add: neq_Nil_conv)

theorem branch_lost_after_failed_append:
  assumes reach: "mgr_reachable fmt sm fs" "session_answered sm" "sm_sessionFile sm = Some f"
    and bodies: "\<not> made_by_label b1" "\<not> made_by_label b2"
    and fresh1: "fresh_ids random1 full1 sm" and failed: "append_body fmt (Some k) random1 full1 now1 b1 sm fs = (sm1, fs1, ok1)"
    and fresh2: "fresh_ids random2 full2 sm1" and append: "append_body fmt None random2 full2 now2 b2 sm1 fs1 = (sm2, fs2, ok2)"
    and lines: "\<forall>e \<in> set (sm_fileEntries sm2). line_storable fmt e"
  shows "\<not> ok1" "ok2"
    "\<exists>n sm'. n_body n = b2 \<and> manager_of_file fmt random fresh now cwd dir f fs2 = Some (sm', fs2)
       \<and> sm_getEntries sm' = sm_getEntries sm @ [n] \<and> sm_getBranch None sm' = Some [n]"
proof -
  note disk = reachable_on_disk [OF reach(1)]
  define n1 where "n1 = \<lparr>n_id = Some (generateId random1 full1 (id_taken sm)), n_parent = sm_leafId sm, n_time = now1, n_body = b1\<rparr>"
  define n2 where "n2 = \<lparr>n_id = Some (generateId random2 full2 (id_taken sm1)), n_parent = sm_leafId sm1, n_time = now2, n_body = b2\<rparr>"
  have ok: "mgr_ok sm" using disk by (simp add: on_disk_def)
  have on_file: "sm_persist sm" "sm_flushed sm" "f \<noteq> []" "fs f = Some (entries_text fmt (sm_fileEntries sm))"
    using disk reach(2,3) by (simp_all add: on_disk_def file_agrees_def)
  have one: "sm1 = with_entry n1 sm" "fs1 = fs" "\<not> ok1"
    using failed on_file reach(2,3)
    by (auto simp: append_body_def appendEntry_def n1_def persist_entry_def with_entry_def session_answered_def split: if_splits)
  then show "\<not> ok1" by simp
  have flushed: "(with_entry n1 sm)\<lparr>sm_flushed := True\<rparr> = with_entry n1 sm" using on_file(2) by (simp add: with_entry_def)
  have "new_entry sm n1" using generateId_new [OF fresh1] by (simp add: new_entry_def n1_def)
  from with_entry_ok [OF ok this, of True] have ok1: "mgr_ok sm1"
    using bodies(1) unfolding flushed one(1) by (cases b1) (simp_all add: after_label_def n1_def made_by_label_def)
  have two: "sm2 = with_entry n2 sm1" "fs2 = append_line fmt f (EntryLine n2) fs" "ok2"
    using append on_file reach(2,3)
    by (auto simp: append_body_def appendEntry_def n2_def persist_entry_def with_entry_def session_answered_def one(1,2) split: if_splits)
  then show "ok2" by simp
  obtain h where h: "sm_fileEntries sm = HeaderLine h # map EntryLine (sm_getEntries sm)" "mh_version h = Some CURRENT_SESSION_VERSION"
    using ok by (auto simp: mgr_ok_def)
  let ?ns = "sm_getEntries sm @ [n2]"
  have content: "fs2 f = Some (entries_text fmt (HeaderLine h # map EntryLine ?ns))"
    by (simp add: two(2) append_line_def on_file(4) h(1) entries_text_def)
  have "\<forall>e \<in> set (HeaderLine h # map EntryLine ?ns). line_storable fmt e"
    using lines by (simp add: two(1) one(1) h(1))
  note load = load_current [of fs2 f fmt h ?ns random fresh now cwd dir, OF content h(2) this]
  have new1: "n_id n1 \<notin> ids (sm_getEntries sm)" using generated_id(1) [OF ok fresh1] by (simp add: n1_def)
  have new2: "n_id n2 \<notin> ids (sm_getEntries sm1)" "\<exists>c cs. n_id n2 = Some (c # cs)"
    using generated_id [OF ok1 fresh2] by (simp_all add: n2_def)
  have parent: "n_parent n2 = n_id n1" "n_id n1 \<noteq> n_id n2" using new2(1) by (auto simp: n2_def one(1))
  have dist: "distinct (map n_id ?ns)"
    using tree_ok_distinct [of "sm_getEntries sm"] ok new2(1) by (auto simp: mgr_ok_def one(1) ids_def)
  let ?sm = "(buildIndex ((blank_manager cwd dir True)\<lparr>sm_sessionFile := Some f,
      sm_fileEntries := HeaderLine h # map EntryLine ?ns, sm_sessionId := mh_id h\<rparr>))\<lparr>sm_flushed := True\<rparr>"
  have loaded: "sm_getEntries ?sm = ?ns" "sm_byId ?sm = map (\<lambda>n. (n_id n, n)) ?ns" "sm_leafId ?sm = n_id n2"
    using built_index [OF dist, of _ h] by simp_all
  have "n_parent n2 \<notin> ids ?ns" using parent new1 by simp
  from orphan_branch [OF dist this new2(2) loaded(2,3)] have "sm_getBranch None ?sm = Some [n2]" .
  with load loaded(1) show "\<exists>n sm'. n_body n = b2 \<and> manager_of_file fmt random fresh now cwd dir f fs2 = Some (sm', fs2)
       \<and> sm_getEntries sm' = sm_getEntries sm @ [n] \<and> sm_getBranch None sm' = Some [n]"
    by (intro exI [of _ n2] exI [of _ ?sm]) (simp add: n2_def)
qed

end
