(* ===== verification/Spec2Isabelle.thy ===== *)
theory Spec2Isabelle
  imports Codec KeyedQueue MemoryRepo BranchSummaries TruncateFacts Agent HarnessGaps EditFacts EditDisplay MutationFacts LiveSessionFacts JsonlGaps SessionManagerGaps
begin

text \<open>
  A verification library for the coding agent \<^verbatim>\<open>piwpi\<close>, a TypeScript monorepo under \<^verbatim>\<open>packages/\<close>.

  \<^bold>\<open>The program.\<close> A conversation is driven by the agent loop (\<^verbatim>\<open>agent/src/agent-loop.ts\<close>): it streams an assistant
  message from a provider, executes the tool calls in it and starts over until no tool is asked for.
  \<^verbatim>\<open>agent/src/agent.ts\<close> owns the transcript and the queues of pending messages. Conversations are kept as trees of entries
  (\<^verbatim>\<open>agent/src/harness/session\<close>), shortened by compaction and branch summaries
  (\<^verbatim>\<open>agent/src/harness/compaction\<close>), and sent between processes as framed CBOR (\<^verbatim>\<open>protocol/src\<close>). The tools read
  and edit files (\<^verbatim>\<open>coding-agent/src/core/tools\<close>), and the harness of \<^verbatim>\<open>coding-agent/src/core/piwpi\<close> watches the
  reads: it mounts what was read, tells the model when a mounted file changes, avoids sending lines twice, and lets a
  second model write a map of the project in the background.

  \<^bold>\<open>Language.\<close> \<open>Prelude\<close> (bytes, big-endian integers, results), \<open>JsNumber\<close> (IEEE-754 doubles as 64-bit words, the integer
  range), \<open>JsString\<close> (16-bit code units, UTF-8 coders with replacement), \<open>JsText\<close> (slice, trim, split, join, decimal
  printing), \<open>JsMap\<close> (insertion-ordered maps, with their contract as the locale \<open>keyed_store\<close>), \<open>PosixPath\<close>
  (\<^verbatim>\<open>node:path\<close> on a POSIX host).

  \<^bold>\<open>Protocol.\<close>
  \<^item> \<open>Streaming\<close>: the contract of an incremental decoder, as two locales.
  \<^item> \<open>Framing\<close>: \<^verbatim>\<open>framing.ts\<close>. Frames and errors do not depend on chunk boundaries; failure is final.
  \<^item> \<open>Cbor\<close>, \<open>CborEncoding\<close>, \<open>CborRoundTrip\<close>: \<^verbatim>\<open>cbor/options.ts\<close>, \<^verbatim>\<open>cbor/encoder.ts\<close>, \<^verbatim>\<open>cbor/decoder.ts\<close>. What is encoded and within which
    limits, the capacity of the growing buffer, and that decoding inverts encoding.
  \<^item> \<open>Codec\<close>: \<^verbatim>\<open>codec.ts\<close>. A stream of messages arrives complete and in order; only validated messages are returned. The
    schema check is a parameter.

  \<^bold>\<open>Sessions.\<close>
  \<^item> \<open>Messages\<close>: messages and their conversion to what a model is sent. \<open>Retry\<close>: \<^verbatim>\<open>ai/src/utils/retry.ts\<close>.
  \<^item> \<open>SessionIndex\<close>: \<^verbatim>\<open>array-session-index.ts\<close>. Appending equals rebuilding; the path to the root is a scan of the log.
    The walk is a partial function, since on a cyclic log it does not return, which is a theorem.
  \<^item> \<open>Session\<close>, \<open>SessionHistory\<close>: \<^verbatim>\<open>session.ts\<close>, over a storage given as the locale \<open>session_storage\<close>. The invariant of reachable
    sessions, and what every append and move does to the context.
  \<^item> \<open>KeyedQueue\<close>: \<^verbatim>\<open>keyed-operation-queue.ts\<close> as a state machine: order, progress, the limit of concurrency.
  \<^item> \<open>MemoryRepo\<close>: \<^verbatim>\<open>memory-repo.ts\<close>, \<^verbatim>\<open>repository.ts\<close>: create, open, delete, fork.
  \<^item> \<open>JsonlRepo\<close>, \<open>JsonlFacts\<close>, \<open>JsonlGaps\<close>: \<^verbatim>\<open>jsonl-repo.ts\<close>, sessions as files of JSON lines over a file system whose calls may fail. What
    is in memory can be read back from the files; an append adds one line or fails, leaving at most a torn line; files without a last newline, damaged
    files and directories with the same encoded name, where the code falls short.
  \<^item> \<open>SessionManager\<close>, \<open>SessionManagerFacts\<close>, \<open>SessionReopen\<close>, \<open>SessionManagerGaps\<close>: \<^verbatim>\<open>coding-agent/src/core/session-manager.ts\<close>, the
    sessions of the coding agent with their migrations, labels and files. An extracted branch keeps its context, a file gives
    back the session; forks of old sessions, kept labels and failed writes, where history is lost.
  \<^item> \<open>Summary\<close>, \<open>Compaction\<close>, \<open>CompactionFacts\<close>, \<open>BranchSummaries\<close>: \<^verbatim>\<open>compaction/*.ts\<close>. Messages are conserved, the token budget,
    the file lists, the entries a move leaves behind.
  \<^item> \<open>Truncate\<close>, \<open>TruncateFacts\<close>: \<^verbatim>\<open>utils/truncate.ts\<close>. The longest runs of whole lines or characters within the limits.

  \<^bold>\<open>Agent.\<close> \<open>AgentLoop\<close>, \<open>AgentLoopFacts\<close>: \<^verbatim>\<open>agent-loop.ts\<close>; \<open>Agent\<close>: \<^verbatim>\<open>agent.ts\<close>. The events of a run are a log of its
  messages, tool calls are answered in order and once, a run returns when the provider stops asking for tools, and the
  transcript is extended by exactly the messages of the run. The hook that \<^verbatim>\<open>agent-session.ts\<close> installs between turns is the case in which
  the context of the loop is that transcript too. Outcomes of tools are fixed per turn and call, so that effects of one tool on another are
  not seen. The loop over turns is a partial function into
  \<^typ>\<open>'a option\<close>, and that it returns is a theorem.

  \<^bold>\<open>Context harness\<close> (\<^verbatim>\<open>coding-agent/src/core/piwpi\<close>).
  \<^item> \<open>Ranges\<close>: \<^verbatim>\<open>ranges.ts\<close> and the merging of segments, two routines under one contract (locale \<open>range_merge\<close>);
    the missing lines of a read.
  \<^item> \<open>LineDiff\<close>: \<^verbatim>\<open>memory/diff.ts\<close>, the two-row table against a longest common subsequence. \<open>Fingerprint\<close>: \<^verbatim>\<open>fingerprint.ts\<close>,
    whose delta is a multiset difference and a lower bound of the changed lines.
  \<^item> \<open>FileCache\<close>: \<^verbatim>\<open>file-cache.ts\<close>. A lookup is two steps around its suspension, so that lookups and writes interleave;
    a hit differs from the disk only when a file is written again with a modification time and size it had before. The locale \<open>content_source\<close> is what the harness uses of it.
  \<^item> \<open>SourceAdapter\<close>: \<^verbatim>\<open>types.ts\<close>, \<^verbatim>\<open>adapters/source.ts\<close>, \<^verbatim>\<open>store.ts\<close>, \<^verbatim>\<open>render.ts\<close>: plugins and what a read makes of them.
  \<^item> \<open>ProjectMap\<close>, \<open>MemoryAgent\<close>, \<open>MemoryQueue\<close>: \<^verbatim>\<open>memory/*.ts\<close>: the map and its file, the prompt and the parsing of the
    answer, the debounced serial queue as a machine.
  \<^item> \<open>Harness\<close>, \<open>HarnessEvents\<close>: \<^verbatim>\<open>harness.ts\<close>: the state, the disk scan, the report on changed mounts; every handler, and
    the memory batch in two steps around the call of the model. The objects of plugins that a batch shares with the
    store are kept in a heap, since their identity matters.
  \<^item> \<open>HarnessInvariant\<close>: a step relation over all handlers with arbitrary changes of the disk in between, restarts and resumed sessions, and
    its invariant. \<open>HarnessFacts\<close>: a request reports every mount whose file is not what the conversation shows and nothing else, reads are sorted
    rightly. \<open>HarnessProgress\<close>: every file is scanned, every pending file is
    summarised, only current answers are written. \<open>HarnessGaps\<close>: where the code falls short of its comments.

  \<^bold>\<open>Edit and write tools.\<close> \<open>EditDiff\<close>, \<open>EditFacts\<close>: \<^verbatim>\<open>tools/edit-diff.ts\<close> and \<open>execute\<close> of \<^verbatim>\<open>tools/edit.ts\<close>. Exact edits replace each
  old text and keep everything between, with the byte order mark and uniform line endings; edits that needed the normalised text
  keep every line they do not touch. \<open>EditDisplay\<close>: the displayed diff, whose lines stand under their own numbers, the preview and the
  preparation of the arguments. \<open>FileMutations\<close>, \<open>MutationFacts\<close>: \<^verbatim>\<open>file-mutation-queue.ts\<close> and \<^verbatim>\<open>tools/write.ts\<close> as a machine over
  calls that interleave and whose reads and writes may fail: as long as no file that is missing at the start is named through a symbolic link, calls
  are serialisable in the order they were made, and all of them end.

  \<^bold>\<open>Server.\<close> \<open>LiveSessions\<close>, \<open>LiveSessionFacts\<close>: \<^verbatim>\<open>server/src/sessions.ts\<close>, the asynchronous methods cut at their suspensions: a
  step relation over connections, openings, live sessions and running commands. A session has at most one runtime, none is disposed
  under an operation, and the race in which a connection is attached to a session that is being disposed.

  \<^bold>\<open>Conventions.\<close> An operation that throws returns an error value. Asynchronous code is a sequence of atomic steps between its
  suspensions; where other code may run at a suspension the step is split. Handlers of the harness are atomic against one disk,
  the memory batch excepted. Line numbers are integers. A loop with a bound is structural or has a measure; the walk to
  the root, the turns of a run and the state of the decoders are options, and no fuel is used.

  \<^bold>\<open>Parameters.\<close> Code that is not in the repository is an argument: the provider, tools and hooks of the loop; SHA-256;
  \<open>JSON.parse\<close> and \<open>JSON.stringify\<close>; \<open>localeCompare\<close>; Unicode NFKC; the completion function of the memory model; the disk,
  the clock and the abort signal. What is needed of one is a hypothesis of the theorem that needs it.

  \<^bold>\<open>Not modelled.\<close> Console output, traces and usage counters. The unified patch of the edit tool, which a library makes. Providers
  and the model catalogue: network protocols and generated tables. \<^verbatim>\<open>agent-harness.ts\<close> and the modes of the
  coding agent compose the modelled parts with hooks, settings and extensions that users supply. The other tools run processes
  and read files. The terminal interface and the desktop draw; sockets, the SQLite storage, the command line and scripts call what is not in the
  repository. \<^verbatim>\<open>PROJECT.json\<close> lists them one by one.
\<close>

end
